(* ===== verification/Prelude.thy ===== *)
theory Prelude
  imports Complex_Main "HOL-Library.Word" "HOL-Library.AList"
begin

text \<open>
  What the component theories share: the Python values the source computes with and the
  generic facts about them.

  \<^item> \<open>bytes\<close> is a list of 8-bit words; \<open>from_le\<close> and \<open>to_le\<close> are
    \<^verbatim>\<open>int.from_bytes(_, "little")\<close> and \<^verbatim>\<open>int.to_bytes(n, "little")\<close>,
    \<open>py_slice\<close> is \<^verbatim>\<open>xs[a:b]\<close> with Python's clamping of negative and too large
    bounds, \<open>bytes_find\<close> is \<^verbatim>\<open>data.find(needle, start)\<close>.
  \<^item> A dictionary whose order matters is an association list: \<open>AList.update\<close> overwrites
    in place and appends a new key at the end, exactly as \<^verbatim>\<open>d[k] = v\<close> does.
  \<^item> \<open>pyfloat\<close> is a binary64 timestamp: an exact rational or one of the special values,
    with Python's comparisons (every comparison with a NaN is false). The rounding of a
    subtraction is not modelled.
  \<^item> \<open>control\<close> is the outcome of one turn of a \<^verbatim>\<open>while True\<close> loop:
    \<^verbatim>\<open>continue\<close> or \<^verbatim>\<open>return\<close>.
\<close>

unbundle bit_operations_syntax

named_theorems dict_simps "facts on association lists used as Python dictionaries"
named_theorems slice_simps "facts on Python slices with bounds inside the list"

section \<open>Bytes\<close>

type_synonym byte = "8 word"
type_synonym bytes = "byte list"

fun from_le :: "bytes \<Rightarrow> int" where
  "from_le [] = 0"
| "from_le (b # bs) = uint b + 256 * from_le bs"

fun to_le :: "nat \<Rightarrow> int \<Rightarrow> bytes" where
  "to_le 0 n = []"
| "to_le (Suc k) n = word_of_int n # to_le k (n div 256)"

definition py_bound :: "nat \<Rightarrow> int \<Rightarrow> nat" where
  "py_bound len i = (if i < 0 then nat (i + int len) else min (nat i) len)"

definition py_slice :: "'a list \<Rightarrow> int \<Rightarrow> int \<Rightarrow> 'a list" where
  "py_slice xs a b =
     (let i = py_bound (length xs) a; j = py_bound (length xs) b
      in take (j - i) (drop i xs))"

fun find_from :: "bytes \<Rightarrow> bytes \<Rightarrow> int \<Rightarrow> int" where
  "find_from needle [] i = (if needle = [] then i else -1)"
| "find_from needle (b # bs) i =
     (if take (length needle) (b # bs) = needle then i
      else find_from needle bs (i + 1))"

definition bytes_find :: "bytes \<Rightarrow> bytes \<Rightarrow> int \<Rightarrow> int" where
  "bytes_find hay needle start = find_from needle (drop (nat start) hay) start"

definition hex_digit :: "int \<Rightarrow> char" where
  "hex_digit n = ''0123456789abcdef'' ! nat n"

fun bytes_hex :: "bytes \<Rightarrow> string" where
  "bytes_hex [] = ''''"
| "bytes_hex (b # bs) = hex_digit (uint b div 16) # hex_digit (uint b mod 16) # bytes_hex bs"

lemma length_to_le [simp]: "length (to_le k n) = k"
  by (induction k arbitrary: n) auto

lemma from_le_nonneg [simp]: "0 \<le> from_le bs"
  by (induction bs) auto

lemma from_le_bound: "from_le bs < 256 ^ length bs"
proof (induction bs)
  case (Cons b bs)
  have "uint b < 256"
    using uint_lt2p [of b] by simp
  moreover have "from_le bs + 1 \<le> 256 ^ length bs"
    using Cons.IH by simp
  ultimately show ?case
    by simp
qed simp

lemma from_le_to_le: "from_le (to_le k n) = n mod 256 ^ k"
proof (induction k arbitrary: n)
  case (Suc k)
  have "uint (word_of_int n :: byte) = n mod 256"
    by (simp add: uint_word_of_int take_bit_eq_mod)
  then show ?case
    using Suc.IH by (simp add: zmod_zmult2_eq)
qed auto

lemma le_digit:
  fixes a x :: int
  assumes "0 \<le> a" and "a < 256"
  shows "(a + 256 * x) div 256 = x" and "(a + 256 * x) mod 256 = a"
  using assms by auto

lemma byte_range: "0 \<le> uint (b :: byte)" "uint b < 256"
  using uint_lt2p [of b] by simp_all

lemma uint_byte_of_int: "uint (word_of_int n :: byte) = n mod 256"
  by (simp add: uint_word_of_int take_bit_eq_mod)

lemma word_of_int_digit: "(word_of_int (uint b + 256 * x) :: byte) = b"
  using le_digit(2) [OF byte_range [of b], of x] uint_byte_of_int
  by (intro word_uint_eqI) (rule trans)

lemma to_le_from_le: "to_le (length bs) (from_le bs) = bs"
  by (induction bs) (simp_all only: list.size from_le.simps to_le.simps word_of_int_digit
      le_digit byte_range plus_nat.add_0 add_Suc_right add_0_right)

lemma from_le_inject: "length bs = length cs \<Longrightarrow> from_le bs = from_le cs \<Longrightarrow> bs = cs"
  by (metis to_le_from_le)

lemma from_le_append: "from_le (xs @ ys) = from_le xs + 256 ^ length xs * from_le ys"
  by (induction xs) (auto simp: algebra_simps)

section \<open>Slices\<close>

lemma py_bound_in [slice_simps]: "0 \<le> i \<Longrightarrow> i \<le> int n \<Longrightarrow> py_bound n i = nat i"
  by (auto simp: py_bound_def)

lemma py_bound_le: "py_bound n i \<le> n"
  by (auto simp: py_bound_def)

lemma py_slice_in:
  "0 \<le> a \<Longrightarrow> a \<le> b \<Longrightarrow> b \<le> int (length xs) \<Longrightarrow>
     py_slice xs a b = take (nat (b - a)) (drop (nat a) xs)"
  by (simp add: py_slice_def py_bound_in nat_diff_distrib Let_def)

lemma length_py_slice_in [slice_simps]:
  "0 \<le> a \<Longrightarrow> a \<le> b \<Longrightarrow> b \<le> int (length xs) \<Longrightarrow> length (py_slice xs a b) = nat (b - a)"
  by (simp add: py_slice_in)

lemma length_py_slice_le: "length (py_slice xs a b) \<le> length xs"
  by (auto simp: py_slice_def Let_def)

lemma length_py_slice_width:
  "0 \<le> a \<Longrightarrow> 0 \<le> w \<Longrightarrow> length (py_slice xs a (a + w)) \<le> nat w"
  by (auto simp: py_slice_def py_bound_def Let_def)

lemma py_slice_prefix [slice_simps]: "0 \<le> b \<Longrightarrow> py_slice xs 0 b = take (nat b) xs"
  by (auto simp: py_slice_def py_bound_def min_def)

lemma py_slice_append:
  "0 \<le> a \<Longrightarrow> a \<le> b \<Longrightarrow> b \<le> int (length xs) \<Longrightarrow> py_slice (xs @ ys) a b = py_slice xs a b"
  by (simp add: py_slice_in)

lemma py_slice_2_bound:
  assumes "0 \<le> a"
  shows "from_le (py_slice xs a (a + 2)) < 65536"
proof -
  have "from_le (py_slice xs a (a + 2)) < 256 ^ length (py_slice xs a (a + 2))"
    by (rule from_le_bound)
  also have "(256 :: int) ^ length (py_slice xs a (a + 2)) \<le> 256 ^ 2"
    using length_py_slice_width [of a 2 xs] assms by (intro power_increasing) auto
  finally show ?thesis
    by simp
qed

section \<open>Searching bytes\<close>

lemma find_from_found:
  assumes "find_from needle hay i = j" and "j \<noteq> -1" and "needle \<noteq> []"
  shows "i \<le> j \<and> j + int (length needle) \<le> i + int (length hay) \<and>
    take (length needle) (drop (nat (j - i)) hay) = needle"
  using assms(1)
proof (induction hay arbitrary: i)
  case Nil
  then show ?case using assms by auto
next
  case (Cons b bs)
  show ?case
  proof (cases "take (length needle) (b # bs) = needle")
    case True
    then have "length needle \<le> length (b # bs)"
      by (metis length_take min.cobounded1 min.commute)
    then show ?thesis
      using True Cons.prems by auto
  next
    case False
    then have "find_from needle bs (i + 1) = j"
      using Cons.prems by simp
    note IH = Cons.IH [OF this]
    then have "nat (j - i) = Suc (nat (j - (i + 1)))"
      by auto
    then show ?thesis
      using IH by auto
  qed
qed

lemma bytes_find_found:
  assumes "bytes_find hay needle start = j" and "j \<noteq> -1" and "needle \<noteq> []" and "0 \<le> start"
  shows "start \<le> j \<and> j + int (length needle) \<le> int (length hay) \<and>
    take (length needle) (drop (nat j) hay) = needle"
proof -
  have *: "start \<le> j \<and> j + int (length needle) \<le> start + int (length (drop (nat start) hay)) \<and>
      take (length needle) (drop (nat (j - start)) (drop (nat start) hay)) = needle"
    using find_from_found [of needle "drop (nat start) hay" start j] assms
    by (simp add: bytes_find_def)
  have "0 < length needle"
    using assms(3) by simp
  then have "int (length (drop (nat start) hay)) > 0"
    using * by linarith
  then have "nat start < length hay"
    by simp
  then have "start + int (length (drop (nat start) hay)) = int (length hay)"
    using assms(4) by simp
  moreover have "nat (j - start) + nat start = nat j"
    using * assms(4) by linarith
  ultimately show ?thesis
    using * by (metis drop_drop)
qed

section \<open>Timestamps\<close>

datatype pyfloat = Finite rat | PosInf | NegInf | NaN

fun isfinite :: "pyfloat \<Rightarrow> bool" where
  "isfinite (Finite _) = True"
| "isfinite _ = False"

instantiation pyfloat :: "{ord, minus}"
begin

fun less_pyfloat :: "pyfloat \<Rightarrow> pyfloat \<Rightarrow> bool" where
  "less_pyfloat (Finite a) (Finite b) = (a < b)"
| "less_pyfloat (Finite _) PosInf = True"
| "less_pyfloat NegInf (Finite _) = True"
| "less_pyfloat NegInf PosInf = True"
| "less_pyfloat _ _ = False"

fun less_eq_pyfloat :: "pyfloat \<Rightarrow> pyfloat \<Rightarrow> bool" where
  "less_eq_pyfloat (Finite a) (Finite b) = (a \<le> b)"
| "less_eq_pyfloat NaN _ = False"
| "less_eq_pyfloat _ NaN = False"
| "less_eq_pyfloat _ PosInf = True"
| "less_eq_pyfloat NegInf _ = True"
| "less_eq_pyfloat _ _ = False"

fun minus_pyfloat :: "pyfloat \<Rightarrow> pyfloat \<Rightarrow> pyfloat" where
  "minus_pyfloat (Finite a) (Finite b) = Finite (a - b)"
| "minus_pyfloat NaN _ = NaN"
| "minus_pyfloat _ NaN = NaN"
| "minus_pyfloat PosInf PosInf = NaN"
| "minus_pyfloat NegInf NegInf = NaN"
| "minus_pyfloat PosInf _ = PosInf"
| "minus_pyfloat NegInf _ = NegInf"
| "minus_pyfloat _ PosInf = NegInf"
| "minus_pyfloat _ NegInf = PosInf"

instance ..

end

text \<open>Python's \<^verbatim>\<open>max(a, b)\<close> and \<^verbatim>\<open>min(iterable)\<close>: the first extremal value wins.\<close>

definition py_max :: "'a::ord \<Rightarrow> 'a \<Rightarrow> 'a" where
  "py_max a b = (if a < b then b else a)"

fun py_min :: "'a::ord \<Rightarrow> 'a list \<Rightarrow> 'a" where
  "py_min m [] = m"
| "py_min m (x # xs) = py_min (if x < m then x else m) xs"

section \<open>Dictionaries\<close>

type_synonym ('k, 'v) dict = "('k \<times> 'v) list"

text \<open>\<^verbatim>\<open>k = min(d)\<close> together with \<^verbatim>\<open>d[k]\<close>; \<open>None\<close> for an empty dictionary.\<close>

fun dict_min :: "(int, 'v) dict \<Rightarrow> (int \<times> 'v) option" where
  "dict_min [] = None"
| "dict_min (p # ps) =
     (case dict_min ps of
        None \<Rightarrow> Some p
      | Some q \<Rightarrow> Some (if fst p \<le> fst q then p else q))"

lemma dict_min_None [simp]: "dict_min d = None \<longleftrightarrow> d = []"
  by (cases d) (auto split: option.splits)

lemma dict_min_in: "dict_min d = Some p \<Longrightarrow> p \<in> set d"
  by (induction d arbitrary: p) (auto split: option.splits if_splits)

lemma dict_min_le: "dict_min d = Some p \<Longrightarrow> q \<in> set d \<Longrightarrow> fst p \<le> fst q"
proof (induction d arbitrary: p)
  case (Cons a d)
  then show ?case
    by (cases "dict_min d") (fastforce split: if_splits)+
qed simp

lemma dict_min_lookup: "distinct (map fst d) \<Longrightarrow> dict_min d = Some (k, v) \<Longrightarrow> map_of d k = Some v"
  by (simp add: dict_min_in)

lemma length_delete_le [dict_simps]: "length (AList.delete k d) \<le> length d"
  by (simp add: AList.delete_eq)

lemma length_delete_less: "p \<in> set d \<Longrightarrow> length (AList.delete (fst p) d) < length d"
  by (auto simp: AList.delete_eq intro!: length_filter_less)

lemma length_delete_dict_min: "dict_min d = Some (k, v) \<Longrightarrow> length (AList.delete k d) < length d"
  using dict_min_in [of d "(k, v)"] length_delete_less [of "(k, v)" d] by simp

lemma set_delete [dict_simps]: "set (AList.delete k d) = {p \<in> set d. fst p \<noteq> k}"
  by (auto simp: AList.delete_eq)

lemma set_update_subset: "set (AList.update k v d) \<subseteq> insert (k, v) (set d)"
  by (induction d) auto

lemma length_update [dict_simps]:
  "length (AList.update k v d) = (if k \<in> fst ` set d then length d else Suc (length d))"
  by (induction d) auto

lemma dom_update [dict_simps]: "fst ` set (AList.update k v d) = insert k (fst ` set d)"
  by (induction d) auto

lemma dom_delete [dict_simps]: "fst ` set (AList.delete k d) = fst ` set d - {k}"
  by (auto simp: AList.delete_eq)

lemma distinct_dict_delete: "distinct (map fst d) \<Longrightarrow> distinct (map fst (AList.delete k d))"
  by (rule AList.distinct_delete)

lemma distinct_dict_update: "distinct (map fst d) \<Longrightarrow> distinct (map fst (AList.update k v d))"
  by (rule AList.distinct_update)

lemma map_of_filter_key: "P k \<Longrightarrow> map_of (filter (\<lambda>(k, _). P k) d) k = map_of d k"
  by (induction d) auto

lemma update_absent: "k \<notin> fst ` set d \<Longrightarrow> AList.update k v d = d @ [(k, v)]"
  by (induction d) auto

lemma map_filter_Nil: "List.map_filter f xs = [] \<longleftrightarrow> (\<forall>x \<in> set xs. f x = None)"
  by (induction xs) (simp_all add: map_filter_simps split: option.split)

lemma map_filter_cong: "(\<And>x. x \<in> set xs \<Longrightarrow> f x = g x) \<Longrightarrow> List.map_filter f xs = List.map_filter g xs"
  by (induction xs) (simp_all add: map_filter_simps split: option.split)

lemma set_map_filter_Some: "e \<in> set (List.map_filter f xs) \<longleftrightarrow> (\<exists>x \<in> set xs. f x = Some e)"
  by (induction xs) (auto simp: List.map_filter_simps split: option.splits)

section \<open>Loops\<close>

datatype 'a control = Continue 'a | Return 'a

end
