(* ===== verification/Protocol.thy ===== *)
theory Protocol
  imports Prelude
begin

text \<open>
  \<^verbatim>\<open>src/bdo_toolkit/_protocol.py\<close>: the constants of the wire protocol, the
  value classes the pipeline passes along (\<^verbatim>\<open>EventSpec\<close>, \<^verbatim>\<open>FlowKey\<close>,
  \<^verbatim>\<open>PacketContext\<close>, \<^verbatim>\<open>LootEvent\<close>, \<^verbatim>\<open>BDOFrame\<close>) as records whose
  fields carry the class's prefix, the validation \<^verbatim>\<open>EventSpec.__post_init__\<close>, and the
  helpers that read item ids, storage keys and source contexts. Python's unbounded
  integers are \<open>int\<close>; the \<^verbatim>\<open>isinstance\<close> guards against booleans and non-integers
  are the typing of the fields.
\<close>

section \<open>Constants\<close>

definition DEFAULT_SERVER_PORTS :: "int list" where
  "DEFAULT_SERVER_PORTS = [8884, 8885, 8889]"

definition MAX_TARGET_MESSAGE_LENGTH :: int where
  "MAX_TARGET_MESSAGE_LENGTH = 0xFFFF"

definition BASE_ITEM_ID_MASK :: int where
  "BASE_ITEM_ID_MASK = 0x00FFFFFF"

definition MAX_ENHANCEMENT_LEVEL :: int where
  "MAX_ENHANCEMENT_LEVEL = 20"

definition MAX_PLAUSIBLE_ITEM_ID :: int where
  "MAX_PLAUSIBLE_ITEM_ID = (push_bit 24 MAX_ENHANCEMENT_LEVEL) OR BASE_ITEM_ID_MASK"

definition MAX_PENDING_SEGMENTS :: nat where
  "MAX_PENDING_SEGMENTS = 128"

definition GAP_RESET_SECONDS :: pyfloat where
  "GAP_RESET_SECONDS = Finite (3 / 2)"

definition DEDUP_HISTORY_LIMIT :: nat where
  "DEDUP_HISTORY_LIMIT = 4096"

definition TCP_SEQUENCE_MODULUS :: int where
  "TCP_SEQUENCE_MODULUS = push_bit 32 1"

definition TCP_SEQUENCE_HALF_RANGE :: int where
  "TCP_SEQUENCE_HALF_RANGE = drop_bit 1 TCP_SEQUENCE_MODULUS"

definition CHARACTER_LOAD_CONTEXT :: bytes where
  "CHARACTER_LOAD_CONTEXT = [0, 0, 0, 0]"

definition STORAGE_DELTA_CONTEXTS :: "bytes list" where
  "STORAGE_DELTA_CONTEXTS = map (to_le 4) [0x0005, 0x0020, 0x058C]"

definition ENHANCEMENT_LABELS :: "(int, string) dict" where
  "ENHANCEMENT_LABELS =
    [(1, ''PRI''), (2, ''DUO''), (3, ''TRI''), (4, ''TET''), (5, ''PEN''),
     (6, ''HEX''), (7, ''SEP''), (8, ''OCT''), (9, ''NOV''), (10, ''DEC''),
     (16, ''PRI''), (17, ''DUO''), (18, ''TRI''), (19, ''TET''), (20, ''PEN'')]"

definition SOURCE_CONTEXT_LABELS :: "(bytes, string) dict" where
  "SOURCE_CONTEXT_LABELS =
    [(CHARACTER_LOAD_CONTEXT, ''Character Load''),
     ([0x04, 0x71, 0xEE, 0x0E], ''Gathering''),
     ([0x85, 0xFA, 0x57, 0x45], ''Mob Drop''),
     ([0xD0, 0xF2, 0x05, 0xA3], ''Storage''),
     (STORAGE_DELTA_CONTEXTS ! 0, ''Velia''),
     (STORAGE_DELTA_CONTEXTS ! 1, ''Heidel''),
     (STORAGE_DELTA_CONTEXTS ! 2, ''Yukjo Street''),
     ([0x43, 0xCE, 0x13, 0x21], ''Central Market''),
     ([0x89, 0xFA, 0x09, 0xAF], ''Black Spirit Safe''),
     ([0x35, 0xBD, 0x5D, 0x70], ''Challenges''),
     ([0xEF, 0x6B, 0x9B, 0x51], ''In-Game Mail''),
     ([0x8F, 0x92, 0xE3, 0xDE], ''Box/Bundle''),
     ([0x8B, 0x7C, 0x3A, 0x13], ''NPC Exchange''),
     ([0x72, 0x1F, 0x29, 0x6D], ''NPC Shop''),
     ([0x56, 0x68, 0x7F, 0x25], ''Choose Your Rewards Box''),
     ([0x52, 0xE8, 0x9D, 0xA8], ''NPC Sell''),
     ([0x60, 0x26, 0x00, 0x00], ''Event Adventures''),
     ([0x3E, 0x01, 0x00, 0x00], ''Remote Inventory'')]"

record storage_location_t =
  loc_name :: string
  loc_confidence :: string

definition STORAGE_LOCATIONS :: "(int, storage_location_t) dict" where
  "STORAGE_LOCATIONS =
    [(0x0005, \<lparr>loc_name = ''Velia'', loc_confidence = ''observed''\<rparr>),
     (0x0020, \<lparr>loc_name = ''Heidel'', loc_confidence = ''observed''\<rparr>),
     (0x0034, \<lparr>loc_name = ''Glish'', loc_confidence = ''observed''\<rparr>),
     (0x004D, \<lparr>loc_name = ''Calpheon City'', loc_confidence = ''observed''\<rparr>),
     (0x0058, \<lparr>loc_name = ''Olvia'', loc_confidence = ''observed''\<rparr>),
     (0x0078, \<lparr>loc_name = ''Port Epheria'', loc_confidence = ''observed''\<rparr>),
     (0x00CA, \<lparr>loc_name = ''Altinova'', loc_confidence = ''observed''\<rparr>),
     (0x00DA, \<lparr>loc_name = ''Asparkan'', loc_confidence = ''observed''\<rparr>),
     (0x00DD, \<lparr>loc_name = ''Tarif'', loc_confidence = ''observed''\<rparr>),
     (0x025D, \<lparr>loc_name = ''Sand Grain Bazaar'', loc_confidence = ''observed''\<rparr>),
     (0x02B5, \<lparr>loc_name = ''Arehaza'', loc_confidence = ''observed''\<rparr>),
     (0x02C2, \<lparr>loc_name = ''Old Wisdom Tree'', loc_confidence = ''observed''\<rparr>),
     (0x0369, \<lparr>loc_name = ''Duvencrune'', loc_confidence = ''observed''\<rparr>),
     (0x03BB, \<lparr>loc_name = (''O'' @ [CHR 0x27] @ ''draxxia''), loc_confidence = ''observed''\<rparr>),
     (0x03E8, \<lparr>loc_name = (''Oquilla'' @ [CHR 0x27] @ ''s Eye''), loc_confidence = ''observed''\<rparr>),
     (0x0464, \<lparr>loc_name = ''Eilton'', loc_confidence = ''observed''\<rparr>),
     (0x04C3, \<lparr>loc_name = (''Nampo'' @ [CHR 0x27] @ ''s Moodle Village''), loc_confidence = ''observed''\<rparr>),
     (0x04DE, \<lparr>loc_name = (''Nopsae'' @ [CHR 0x27] @ ''s Byeot County''), loc_confidence = ''observed''\<rparr>),
     (0x055F, \<lparr>loc_name = ''Muzgar'', loc_confidence = ''observed''\<rparr>),
     (0x0566, \<lparr>loc_name = ''Velandir'', loc_confidence = ''observed''\<rparr>),
     (0x058C, \<lparr>loc_name = ''Yukjo Street'', loc_confidence = ''observed''\<rparr>),
     (0x0590, \<lparr>loc_name = ''Godu Village'', loc_confidence = ''observed''\<rparr>),
     (0x05A4, \<lparr>loc_name = ''Bukpo'', loc_confidence = ''observed''\<rparr>),
     (0x06C5, \<lparr>loc_name = ''Angavu Outpost'', loc_confidence = ''observed''\<rparr>),
     (0x006B, \<lparr>loc_name = ''Keplan'', loc_confidence = ''inferred''\<rparr>),
     (0x007E, \<lparr>loc_name = ''Trent'', loc_confidence = ''inferred''\<rparr>),
     (0x00B6, \<lparr>loc_name = ''Iliya Island'', loc_confidence = ''inferred''\<rparr>),
     (0x00E5, \<lparr>loc_name = ''Valencia City'', loc_confidence = ''inferred''\<rparr>),
     (0x0259, \<lparr>loc_name = ''Shakatu'', loc_confidence = ''inferred''\<rparr>),
     (0x026B, \<lparr>loc_name = ''Ancado Inner Harbor'', loc_confidence = ''inferred''\<rparr>),
     (0x02DF, \<lparr>loc_name = ''Grana'', loc_confidence = ''inferred''\<rparr>),
     (0x04BA, \<lparr>loc_name = ''Dalbeol Village'', loc_confidence = ''inferred''\<rparr>),
     (0x02B6, \<lparr>loc_name = ''Muiquun'', loc_confidence = ''probable''\<rparr>),
     (0x0611, \<lparr>loc_name = ''Hakinza Sanctuary'', loc_confidence = ''probable''\<rparr>)]"

lemma MAX_PLAUSIBLE_ITEM_ID_eq: "MAX_PLAUSIBLE_ITEM_ID = 0x14FFFFFF"
  by (simp add: MAX_PLAUSIBLE_ITEM_ID_def MAX_ENHANCEMENT_LEVEL_def BASE_ITEM_ID_MASK_def push_bit_eq_mult)

lemma TCP_SEQUENCE_MODULUS_eq: "TCP_SEQUENCE_MODULUS = 2 ^ 32"
  by (simp add: TCP_SEQUENCE_MODULUS_def push_bit_eq_mult)

lemma TCP_SEQUENCE_HALF_RANGE_eq: "TCP_SEQUENCE_HALF_RANGE = 2 ^ 31"
  by (simp add: TCP_SEQUENCE_HALF_RANGE_def TCP_SEQUENCE_MODULUS_eq drop_bit_eq_div)

section \<open>Storage destinations\<close>

definition storage_location :: "int option \<Rightarrow> storage_location_t option" where
  "storage_location storage_id =
     (case storage_id of None \<Rightarrow> None | Some k \<Rightarrow> map_of STORAGE_LOCATIONS k)"

definition storage_destination_candidates :: "bytes \<Rightarrow> int \<Rightarrow> (int \<times> int) list" where
  "storage_destination_candidates message before_offset =
     (if before_offset \<le> 5 then []
      else let search_end = min before_offset (int (length message))
           in filter (\<lambda>(offset, storage_id). storage_id \<in> fst ` set STORAGE_LOCATIONS)
                (map (\<lambda>offset. (offset, from_le (py_slice message offset (offset + 4))))
                   [5 .. max 5 (search_end - 3) - 1]))"

section \<open>Event specs\<close>

record event_spec =
  spec_label :: string
  spec_opcode :: int
  spec_item_offset :: int
  spec_quantity_offset :: int
  spec_min_message_length :: int
  spec_inventory_slot_offset :: "int option"
  spec_source_context_offset :: "int option"
  spec_source_context_length :: int
  spec_record_count_offset :: "int option"
  spec_item_instance_offset :: "int option"
  spec_storage_instance_offset :: "int option"
  spec_repeat_stride :: "int option"
  spec_single_record_message_length :: "int option"
  spec_default_context :: "string option"

definition signature :: "event_spec \<Rightarrow> bytes" where
  "signature spec = 0 # to_le 2 (spec_opcode spec)"

text \<open>One constructor per \<^verbatim>\<open>raise ValueError\<close> of \<^verbatim>\<open>__post_init__\<close>, in its order.\<close>

datatype spec_error =
    EmptyLabel
  | OpcodeNotUint16
  | NegativeItemOffset
  | NegativeQuantityOffset
  | MinMessageLengthRange
  | NegativeInventorySlotOffset
  | NegativeSourceContextOffset
  | SourceContextLengthNotPositive
  | NegativeRecordCountOffset
  | SourceContextNotBeforeItem
  | RecordCountNotBeforeItem
  | NegativeStorageInstanceOffset
  | NegativeItemInstanceOffset
  | RepeatStrideNotPositive
  | SingleRecordLengthRange

definition opt_sat :: "(int \<Rightarrow> bool) \<Rightarrow> int option \<Rightarrow> bool" where
  "opt_sat P v = (case v of None \<Rightarrow> False | Some x \<Rightarrow> P x)"

definition event_spec_post_init :: "event_spec \<Rightarrow> spec_error + event_spec" where
  "event_spec_post_init spec =
    (if spec_label spec = [] then Inl EmptyLabel
     else if \<not> (0 \<le> spec_opcode spec \<and> spec_opcode spec \<le> 0xFFFF) then Inl OpcodeNotUint16
     else if spec_item_offset spec < 0 then Inl NegativeItemOffset
     else if spec_quantity_offset spec < 0 then Inl NegativeQuantityOffset
     else if \<not> (5 \<le> spec_min_message_length spec
                \<and> spec_min_message_length spec \<le> MAX_TARGET_MESSAGE_LENGTH)
       then Inl MinMessageLengthRange
     else if opt_sat (\<lambda>x. x < 0) (spec_inventory_slot_offset spec)
       then Inl NegativeInventorySlotOffset
     else if opt_sat (\<lambda>x. x < 0) (spec_source_context_offset spec)
       then Inl NegativeSourceContextOffset
     else if spec_source_context_offset spec \<noteq> None \<and> spec_source_context_length spec \<le> 0
       then Inl SourceContextLengthNotPositive
     else if opt_sat (\<lambda>x. x < 0) (spec_record_count_offset spec)
       then Inl NegativeRecordCountOffset
     else if spec_label spec = ''INVENTORY_TO_STORAGE''
             \<and> opt_sat (\<lambda>x. x + spec_source_context_length spec > spec_item_offset spec)
                 (spec_source_context_offset spec)
       then Inl SourceContextNotBeforeItem
     else if spec_label spec = ''INVENTORY_TO_STORAGE''
             \<and> opt_sat (\<lambda>x. x + 2 > spec_item_offset spec) (spec_record_count_offset spec)
       then Inl RecordCountNotBeforeItem
     else if opt_sat (\<lambda>x. x < 0) (spec_storage_instance_offset spec)
       then Inl NegativeStorageInstanceOffset
     else if opt_sat (\<lambda>x. x < 0) (spec_item_instance_offset spec)
       then Inl NegativeItemInstanceOffset
     else if opt_sat (\<lambda>x. x \<le> 0) (spec_repeat_stride spec) then Inl RepeatStrideNotPositive
     else if opt_sat (\<lambda>x. \<not> (spec_min_message_length spec \<le> x \<and> x \<le> MAX_TARGET_MESSAGE_LENGTH))
               (spec_single_record_message_length spec)
       then Inl SingleRecordLengthRange
     else Inr spec)"

section \<open>Flows, contexts, events and frames\<close>

record flow_key =
  fk_source_ip :: string
  fk_source_port :: int
  fk_destination_ip :: string
  fk_destination_port :: int

record packet_context =
  ctx_timestamp :: pyfloat
  ctx_flow :: flow_key
  ctx_stream_start :: "int option"
  ctx_flow_generation :: int

record loot_event =
  le_label :: string
  le_opcode :: int
  le_item_id :: int
  le_quantity :: int
  le_inventory_slot :: "int option"
  le_source_context_candidate :: "bytes option"
  le_item_instance :: "bytes option"
  le_storage_instance :: "bytes option"
  le_message_length :: int
  le_default_context :: "string option"
  le_context :: packet_context
  le_stream_sequence :: "int option"
  le_record_offset :: "int option"
  le_record_index :: "int option"
  le_record_count :: "int option"
  le_storage_id :: "int option"
  le_storage_operation :: "string option"

record bdo_frame =
  fr_index :: int
  fr_message :: bytes
  fr_context :: packet_context
  fr_stream_sequence :: "int option"

definition frame_length :: "bdo_frame \<Rightarrow> int" where
  "frame_length f = from_le (py_slice (fr_message f) 0 2)"

text \<open>\<^verbatim>\<open>message[2]\<close> raises \<^verbatim>\<open>IndexError\<close> (\<open>None\<close>) on a message of at most two bytes.\<close>

definition frame_flag :: "bdo_frame \<Rightarrow> int option" where
  "frame_flag f = (if 2 < length (fr_message f) then Some (uint (fr_message f ! 2)) else None)"

definition frame_opcode :: "bdo_frame \<Rightarrow> int" where
  "frame_opcode f = from_le (py_slice (fr_message f) 3 5)"

definition frame_payload :: "bdo_frame \<Rightarrow> bytes" where
  "frame_payload f = drop 5 (fr_message f)"

section \<open>Item ids and source labels\<close>

definition split_item_id_enhancement :: "int \<Rightarrow> int \<times> int option \<times> string option" where
  "split_item_id_enhancement item_id =
     (let enhancement_level = drop_bit 24 item_id;
          base_item_id = item_id AND BASE_ITEM_ID_MASK
      in if 1 \<le> enhancement_level \<and> enhancement_level \<le> MAX_ENHANCEMENT_LEVEL
         then (base_item_id, Some enhancement_level, map_of ENHANCEMENT_LABELS enhancement_level)
         else (item_id, None, None))"

definition source_label :: "bytes option \<Rightarrow> string option \<Rightarrow> string option" where
  "source_label candidate default_context =
     (case candidate of
        None \<Rightarrow> default_context
      | Some c \<Rightarrow>
          (case map_of SOURCE_CONTEXT_LABELS c of
             Some label \<Rightarrow> Some label
           | None \<Rightarrow> Some (''UNKNOWN(0x'' @ bytes_hex c @ '')'')))"

section \<open>Properties of the protocol model\<close>

text \<open>A flow and a packet context for concrete instances.\<close>

abbreviation sample_flow :: flow_key where
  "sample_flow \<equiv> \<lparr>fk_source_ip = ''20.0.0.1'', fk_source_port = 8889,
     fk_destination_ip = ''10.0.0.2'', fk_destination_port = 50000\<rparr>"

abbreviation sample_context :: "rat \<Rightarrow> packet_context" where
  "sample_context timestamp \<equiv> \<lparr>ctx_timestamp = Finite timestamp, ctx_flow = sample_flow,
     ctx_stream_start = None, ctx_flow_generation = 0\<rparr>"

text \<open>What \<^verbatim>\<open>__post_init__\<close> guarantees of every spec that exists.\<close>

definition spec_ok :: "event_spec \<Rightarrow> bool" where
  "spec_ok spec \<longleftrightarrow> event_spec_post_init spec = Inr spec"

lemma event_spec_post_init_cases:
  "event_spec_post_init spec = Inr s \<Longrightarrow> s = spec \<and> spec_ok spec"
  by (auto simp: event_spec_post_init_def spec_ok_def split: if_splits)

lemma spec_okD:
  assumes "spec_ok spec"
  shows "spec_label spec \<noteq> []" "0 \<le> spec_opcode spec" "spec_opcode spec \<le> 0xFFFF"
    "0 \<le> spec_item_offset spec" "0 \<le> spec_quantity_offset spec"
    "5 \<le> spec_min_message_length spec" "spec_min_message_length spec \<le> 0xFFFF"
    "spec_inventory_slot_offset spec = Some i \<Longrightarrow> 0 \<le> i"
    "spec_source_context_offset spec = Some i \<Longrightarrow> 0 \<le> i \<and> 0 < spec_source_context_length spec"
    "spec_record_count_offset spec = Some i \<Longrightarrow> 0 \<le> i"
    "spec_storage_instance_offset spec = Some i \<Longrightarrow> 0 \<le> i"
    "spec_item_instance_offset spec = Some i \<Longrightarrow> 0 \<le> i"
    "spec_repeat_stride spec = Some i \<Longrightarrow> 0 < i"
    "spec_single_record_message_length spec = Some i \<Longrightarrow>
       spec_min_message_length spec \<le> i \<and> i \<le> 0xFFFF"
  using assms
  by (auto simp: spec_ok_def event_spec_post_init_def opt_sat_def MAX_TARGET_MESSAGE_LENGTH_def
      split: if_splits)

lemma length_signature [simp]: "length (signature spec) = 3"
  by (simp add: signature_def)

lemma signature_nonempty [simp]: "signature spec \<noteq> []"
  by (simp add: signature_def)

end
