(* ===== verification/Reassembly.thy ===== *)
theory Reassembly
  imports Protocol
begin

text \<open>
  \<^verbatim>\<open>src/bdo_toolkit/_reassembly.py\<close>, the class \<^verbatim>\<open>TCPFlowState\<close>: the
  reassembly of one direction of one TCP connection.

  The scanner that consumes the stream is the record \<open>stream_scanner\<close> of the operations
  the protocol class \<^verbatim>\<open>StreamScanner\<close> declares, over an abstract state \<open>'x\<close> (the
  scanner together with everything its callbacks write), and every operation of the flow
  is a function of the pair of the flow's own state and \<open>'x\<close>. The callback
  \<^verbatim>\<open>on_gap_reset\<close> acts on the same \<open>'x\<close>. The question
  \<^verbatim>\<open>can_anchor_at_start\<close> is answered from the scanner's configuration only, in
  every implementation of the repository, so it does not read \<open>'x\<close>. Callbacks return
  normally. The two limits are naturals: \<^verbatim>\<open>FlowManager.__init__\<close>, which builds every
  flow state, rejects limits that are not positive. The assertions
  \<^verbatim>\<open>assert self.next_sequence is not None\<close> are the branches that return the state
  unchanged; every caller has tested the field.
\<close>

section \<open>State\<close>

record pending_segment =
  seg_data :: bytes
  seg_context :: packet_context

record tcp_flow_state =
  fs_max_pending_segments :: nat
  fs_max_pending_bytes :: "nat option"
  fs_defer_gap_timeouts :: bool
  fs_next_sequence :: "int option"
  fs_pending :: "(int, pending_segment) dict"
  fs_unanchored :: "(int, pending_segment) dict"
  fs_unanchored_started_at :: "pyfloat option"
  fs_gap_started_at :: "pyfloat option"
  fs_generation :: int
  fs_last_activity_at :: "pyfloat option"
  fs_fin_sequence :: "int option"
  fs_fin_observed_at :: "pyfloat option"

record 'x stream_scanner =
  sc_feed :: "bytes \<Rightarrow> packet_context \<Rightarrow> 'x \<Rightarrow> 'x"
  sc_scan_standalone :: "bytes \<Rightarrow> packet_context \<Rightarrow> 'x \<Rightarrow> 'x"
  sc_reset :: "'x \<Rightarrow> 'x"
  sc_can_anchor_at_start :: "(bytes \<Rightarrow> bool) option"
  sc_on_gap_reset :: "(int \<Rightarrow> 'x \<Rightarrow> 'x) option"

type_synonym 'x flow = "tcp_flow_state \<times> 'x"

definition INITIAL_REORDER_GRACE_SECONDS :: pyfloat where
  "INITIAL_REORDER_GRACE_SECONDS = Finite (1 / 4)"

definition INITIAL_ANCHOR_PROBE_BYTES :: int where
  "INITIAL_ANCHOR_PROBE_BYTES = MAX_TARGET_MESSAGE_LENGTH * 2 + 5"

definition new_tcp_flow_state :: "nat \<Rightarrow> nat option \<Rightarrow> bool \<Rightarrow> int \<Rightarrow> tcp_flow_state" where
  "new_tcp_flow_state max_segments max_bytes defer gen =
     \<lparr>fs_max_pending_segments = max_segments, fs_max_pending_bytes = max_bytes,
      fs_defer_gap_timeouts = defer, fs_next_sequence = None, fs_pending = [],
      fs_unanchored = [], fs_unanchored_started_at = None, fs_gap_started_at = None,
      fs_generation = gen, fs_last_activity_at = None, fs_fin_sequence = None,
      fs_fin_observed_at = None\<rparr>"

section \<open>Sequence numbers\<close>

definition unwrap_tcp_sequence :: "int \<Rightarrow> int \<Rightarrow> int" where
  "unwrap_tcp_sequence sequence reference =
     (let raw = sequence AND 0xFFFFFFFF;
          candidate = (reference AND NOT (TCP_SEQUENCE_MODULUS - 1)) OR raw
      in if candidate - reference > TCP_SEQUENCE_HALF_RANGE then candidate - TCP_SEQUENCE_MODULUS
         else if reference - candidate > TCP_SEQUENCE_HALF_RANGE then candidate + TCP_SEQUENCE_MODULUS
         else candidate)"

lemma seq_mask_eq: "(s :: int) AND 0xFFFFFFFF = s mod 2 ^ 32"
proof -
  have "(0xFFFFFFFF :: int) = mask 32"
    by (simp add: mask_eq_exp_minus_1)
  then show ?thesis
    by (simp only: take_bit_eq_mask [symmetric] take_bit_eq_mod)
qed

lemma high_part_eq: "(r :: int) AND NOT (2 ^ 32 - 1) = r div 2 ^ 32 * 2 ^ 32"
proof -
  have "(2 ^ 32 - 1 :: int) = mask 32"
    by (simp add: mask_eq_exp_minus_1)
  moreover have "r AND NOT (mask 32) = push_bit 32 (drop_bit 32 r)"
    by (rule bit_eqI) (auto simp: bit_simps)
  ultimately show ?thesis
    by (simp only: push_bit_eq_mult drop_bit_eq_div)
qed

lemma candidate_eq:
  "((r :: int) AND NOT (2 ^ 32 - 1)) OR (s AND 0xFFFFFFFF) = r div 2 ^ 32 * 2 ^ 32 + s mod 2 ^ 32"
proof -
  have "push_bit 32 (r div 2 ^ 32) OR take_bit 32 s = concat_bit 32 s (r div 2 ^ 32)"
    by (simp only: concat_bit_def or.commute)
  also have "\<dots> = take_bit 32 s + push_bit 32 (r div 2 ^ 32)"
    by (simp only: concat_bit_eq)
  finally show ?thesis
    by (simp only: high_part_eq seq_mask_eq push_bit_eq_mult take_bit_eq_mod add.commute)
qed

lemma unwrap_tcp_sequence_eq:
  "unwrap_tcp_sequence s r =
     (let c = r div 2 ^ 32 * 2 ^ 32 + s mod 2 ^ 32
      in if c - r > 2 ^ 31 then c - 2 ^ 32 else if r - c > 2 ^ 31 then c + 2 ^ 32 else c)"
  by (simp only: unwrap_tcp_sequence_def TCP_SEQUENCE_MODULUS_eq TCP_SEQUENCE_HALF_RANGE_eq
      candidate_eq Let_def)

lemma unwrap_mod: "unwrap_tcp_sequence s r mod 2 ^ 32 = s mod 2 ^ 32"
  by (simp only: unwrap_tcp_sequence_eq Let_def) (auto simp: mod_simps)

lemma nearest_candidate:
  fixes q a b h :: int
  assumes "0 \<le> a" "a < 2 * h" "0 \<le> b" "b < 2 * h"
  shows "\<bar>(if q + b - (q + a) > h then q + b - 2 * h
          else if q + a - (q + b) > h then q + b + 2 * h else q + b) - (q + a)\<bar> \<le> h"
  using assms by auto

lemma unwrap_near: "\<bar>unwrap_tcp_sequence s r - r\<bar> \<le> 2 ^ 31"
proof -
  let ?q = "r div 2 ^ 32 * 2 ^ 32"
  have r: "?q + r mod 2 ^ 32 = r"
    by (rule div_mult_mod_eq)
  have "0 \<le> r mod 2 ^ 32" "r mod 2 ^ 32 < 2 * 2 ^ 31" "0 \<le> s mod 2 ^ 32" "s mod 2 ^ 32 < 2 * 2 ^ 31"
    by simp_all
  note nearest_candidate [OF this, of ?q]
  moreover have "2 * 2 ^ 31 = (2 ^ 32 :: int)"
    by simp
  ultimately show ?thesis
    by (simp only: unwrap_tcp_sequence_eq Let_def r)
qed

lemma mod_near_unique:
  fixes x y m :: int
  assumes "x mod m = y mod m" "\<bar>x - y\<bar> < m" 
  shows "x = y"
  using assms by (metis abs_eq_0 mod_eq_dvd_iff right_minus_eq zdvd_imp_le zero_less_abs_iff dvd_abs_iff not_le)

lemma unwrap_eq:
  assumes "\<bar>x - r\<bar> < 2 ^ 31"
  shows "unwrap_tcp_sequence (x mod 2 ^ 32) r = x"
proof (rule mod_near_unique)
  show "unwrap_tcp_sequence (x mod 2 ^ 32) r mod 2 ^ 32 = x mod 2 ^ 32"
    by (simp only: unwrap_mod mod_mod_trivial)
  show "\<bar>unwrap_tcp_sequence (x mod 2 ^ 32) r - x\<bar> < 2 ^ 32"
    using unwrap_near [of "x mod 2 ^ 32" r] assms by simp
qed

lemma unwrap_modulus [simp]:
  "unwrap_tcp_sequence s r mod TCP_SEQUENCE_MODULUS = s mod TCP_SEQUENCE_MODULUS"
  by (simp only: TCP_SEQUENCE_MODULUS_eq unwrap_mod)

lemma mask_modulus [simp]:
  "(s AND 0xFFFFFFFF) mod TCP_SEQUENCE_MODULUS = s mod TCP_SEQUENCE_MODULUS"
  by (simp only: TCP_SEQUENCE_MODULUS_eq seq_mask_eq mod_mod_trivial)

section \<open>Delivery and the pending buffer\<close>

definition clear_unanchored :: "tcp_flow_state \<Rightarrow> tcp_flow_state" where
  "clear_unanchored t = t\<lparr>fs_unanchored := [], fs_unanchored_started_at := None\<rparr>"

definition flow_reset :: "'x stream_scanner \<Rightarrow> 'x flow \<Rightarrow> 'x flow" where
  "flow_reset sc s =
     (clear_unanchored ((fst s)\<lparr>fs_next_sequence := None, fs_pending := []\<rparr>)
        \<lparr>fs_gap_started_at := None, fs_fin_sequence := None, fs_fin_observed_at := None\<rparr>,
      sc_reset sc (snd s))"

definition start_fin_gap_timer_if_needed :: "tcp_flow_state \<Rightarrow> tcp_flow_state" where
  "start_fin_gap_timer_if_needed t =
     (case (fs_fin_sequence t, fs_fin_observed_at t, fs_next_sequence t) of
        (Some fin, Some observed, Some next) \<Rightarrow>
          if fs_unanchored t \<noteq> [] \<or> fs_pending t \<noteq> [] then t
          else if next < unwrap_tcp_sequence fin next \<and> fs_gap_started_at t = None
               then t\<lparr>fs_gap_started_at := Some observed\<rparr>
               else t
      | _ \<Rightarrow> t)"

definition mark_fin :: "int \<Rightarrow> pyfloat \<Rightarrow> tcp_flow_state \<Rightarrow> tcp_flow_state" where
  "mark_fin sequence timestamp t =
     start_fin_gap_timer_if_needed
       (t\<lparr>fs_fin_sequence := Some (sequence AND 0xFFFFFFFF), fs_fin_observed_at := Some timestamp\<rparr>)"

definition fin_is_reassembled :: "tcp_flow_state \<Rightarrow> bool" where
  "fin_is_reassembled t =
     (case (fs_fin_sequence t, fs_next_sequence t) of
        (Some fin, Some next) \<Rightarrow>
          fs_unanchored t = [] \<and> fs_pending t = [] \<and> next \<ge> unwrap_tcp_sequence fin next
      | _ \<Rightarrow> False)"

definition pending_capacity_exceeded :: "tcp_flow_state \<Rightarrow> (int, pending_segment) dict \<Rightarrow> bool" where
  "pending_capacity_exceeded t segments =
     (if length segments > fs_max_pending_segments t then True
      else case fs_max_pending_bytes t of
             None \<Rightarrow> False
           | Some limit \<Rightarrow> sum_list (map (\<lambda>(_, segment). length (seg_data segment)) segments) > limit)"

definition deliver :: "'x stream_scanner \<Rightarrow> bytes \<Rightarrow> packet_context \<Rightarrow> 'x flow \<Rightarrow> 'x flow" where
  "deliver sc payload context s =
     (case fs_next_sequence (fst s) of
        None \<Rightarrow> s
      | Some next \<Rightarrow>
          ((fst s)\<lparr>fs_next_sequence := Some (next + int (length payload)), fs_gap_started_at := None\<rparr>,
           sc_feed sc payload (context\<lparr>ctx_stream_start := Some next\<rparr>) (snd s)))"

text \<open>
  The branch of \<^verbatim>\<open>_flush_pending\<close> that stops at a gap: a timer that is not running
  starts at the oldest parked segment.
\<close>

definition arm_gap_timer :: "tcp_flow_state \<Rightarrow> tcp_flow_state" where
  "arm_gap_timer t =
     (if fs_gap_started_at t = None
      then (case map (\<lambda>(_, p). ctx_timestamp (seg_context p)) (fs_pending t) of
              [] \<Rightarrow> t
            | ts # tss \<Rightarrow> t\<lparr>fs_gap_started_at := Some (py_min ts tss)\<rparr>)
      else t)"

text \<open>One turn of the loop of \<^verbatim>\<open>_flush_pending\<close>.\<close>

definition flush_pending_step :: "'x stream_scanner \<Rightarrow> 'x flow \<Rightarrow> 'x flow control" where
  "flush_pending_step sc s =
     (let t = fst s in
      case (fs_next_sequence t, dict_min (fs_pending t)) of
        (Some next, Some (sequence, segment)) \<Rightarrow>
          if sequence > next then
            Return (arm_gap_timer t, snd s)
          else
            let t' = t\<lparr>fs_pending := AList.delete sequence (fs_pending t)\<rparr>;
                payload = seg_data segment;
                overlap = next - sequence
            in if sequence < next \<and> overlap \<ge> int (length payload) then Continue (t', snd s)
               else Continue
                 (deliver sc (if sequence < next then drop (nat overlap) payload else payload)
                    (seg_context segment) (t', snd s))
      | _ \<Rightarrow> Return s)"

lemma deliver_pending [simp]: "fs_pending (fst (deliver sc p c s)) = fs_pending (fst s)"
  by (simp add: deliver_def split: option.splits)

lemma arm_gap_timer_fields [simp]:
  "fs_pending (arm_gap_timer t) = fs_pending t"
  "fs_unanchored (arm_gap_timer t) = fs_unanchored t"
  "fs_unanchored_started_at (arm_gap_timer t) = fs_unanchored_started_at t"
  "fs_next_sequence (arm_gap_timer t) = fs_next_sequence t"
  "fs_fin_sequence (arm_gap_timer t) = fs_fin_sequence t"
  "fs_fin_observed_at (arm_gap_timer t) = fs_fin_observed_at t"
  by (auto simp: arm_gap_timer_def split: list.splits)

lemma arm_gap_timer_armed: "fs_pending t \<noteq> [] \<Longrightarrow> fs_gap_started_at (arm_gap_timer t) \<noteq> None"
  by (auto simp: arm_gap_timer_def split: list.splits)

lemma flush_pending_step_Return:
  "flush_pending_step sc s = Return s' \<Longrightarrow> s' = s \<or> s' = (arm_gap_timer (fst s), snd s)"
  by (auto simp: flush_pending_step_def Let_def split: option.splits if_splits prod.splits)

lemma flush_pending_step_decreases:
  "flush_pending_step sc s = Continue s' \<Longrightarrow>
     length (fs_pending (fst s')) < length (fs_pending (fst s))"
  by (auto simp: flush_pending_step_def Let_def length_delete_dict_min
      split: option.splits if_splits prod.splits)

function flush_pending :: "'x stream_scanner \<Rightarrow> 'x flow \<Rightarrow> 'x flow" where
  "flush_pending sc s =
     (case flush_pending_step sc s of Return s' \<Rightarrow> s' | Continue s' \<Rightarrow> flush_pending sc s')"
  by pat_completeness auto
termination
  by (relation "measure (\<lambda>(sc, s). length (fs_pending (fst s)))")
    (auto dest: flush_pending_step_decreases)

declare flush_pending.simps [simp del]

section \<open>Gaps\<close>

definition gap_reset :: "'x stream_scanner \<Rightarrow> int \<Rightarrow> 'x \<Rightarrow> 'x" where
  "gap_reset sc sequence x =
     (case sc_on_gap_reset sc of
        None \<Rightarrow> sc_reset sc x
      | Some on_gap_reset \<Rightarrow> on_gap_reset sequence (sc_reset sc x))"

definition resume_after_gap :: "'x stream_scanner \<Rightarrow> 'x flow \<Rightarrow> 'x flow" where
  "resume_after_gap sc s =
     (case dict_min (fs_pending (fst s)) of
        None \<Rightarrow> s
      | Some (sequence, segment) \<Rightarrow>
          flush_pending sc
            (deliver sc (seg_data segment) (seg_context segment)
              ((fst s)\<lparr>fs_pending := AList.delete sequence (fs_pending (fst s)),
                       fs_next_sequence := Some sequence, fs_gap_started_at := None\<rparr>,
               gap_reset sc sequence (snd s))))"

lemma flush_pending_length: "length (fs_pending (fst (flush_pending sc s))) \<le> length (fs_pending (fst s))"
proof (induction sc s rule: flush_pending.induct)
  case (1 sc s)
  show ?case
  proof (cases "flush_pending_step sc s")
    case (Continue s')
    then show ?thesis
      using "1" flush_pending_step_decreases [OF Continue]
      by (simp add: flush_pending.simps [of sc s])
  next
    case (Return s')
    then have "fs_pending (fst s') = fs_pending (fst s)"
      using flush_pending_step_Return by fastforce
    then show ?thesis
      using Return by (simp add: flush_pending.simps [of sc s])
  qed
qed

lemma resume_after_gap_decreases:
  assumes "fs_pending (fst s) \<noteq> []"
  shows "length (fs_pending (fst (resume_after_gap sc s))) < length (fs_pending (fst s))"
proof -
  obtain k v where kv: "dict_min (fs_pending (fst s)) = Some (k, v)"
    using assms by (cases "dict_min (fs_pending (fst s))") auto
  let ?s = "deliver sc (seg_data v) (seg_context v)
              ((fst s)\<lparr>fs_pending := AList.delete k (fs_pending (fst s)),
                       fs_next_sequence := Some k, fs_gap_started_at := None\<rparr>,
               gap_reset sc k (snd s))"
  have "length (fs_pending (fst (flush_pending sc ?s))) \<le> length (AList.delete k (fs_pending (fst s)))"
    using flush_pending_length [of sc ?s] by simp
  also have "\<dots> < length (fs_pending (fst s))"
    by (rule length_delete_dict_min [OF kv])
  finally show ?thesis
    by (simp add: resume_after_gap_def kv)
qed

lemma capacity_exceeded_nonempty: "pending_capacity_exceeded t segments \<Longrightarrow> segments \<noteq> []"
  by (auto simp: pending_capacity_exceeded_def split: option.splits if_splits)

text \<open>The \<^verbatim>\<open>while\<close> loop that restores the limits in \<^verbatim>\<open>_add_anchored_segment\<close>.\<close>

function restore_capacity :: "'x stream_scanner \<Rightarrow> 'x flow \<Rightarrow> 'x flow" where
  "restore_capacity sc s =
     (if pending_capacity_exceeded (fst s) (fs_pending (fst s))
      then restore_capacity sc (resume_after_gap sc s) else s)"
  by pat_completeness auto
termination
  by (relation "measure (\<lambda>(sc, s). length (fs_pending (fst s)))")
    (auto intro: resume_after_gap_decreases dest: capacity_exceeded_nonempty)

declare restore_capacity.simps [simp del]

definition gap_expired :: "pyfloat \<Rightarrow> tcp_flow_state \<Rightarrow> bool" where
  "gap_expired now t =
     (case fs_gap_started_at t of None \<Rightarrow> False | Some g \<Rightarrow> now - g \<ge> GAP_RESET_SECONDS)"

text \<open>The \<^verbatim>\<open>while\<close> loop of \<^verbatim>\<open>service_gaps\<close>, counting its resets.\<close>

function resume_expired_gaps :: "'x stream_scanner \<Rightarrow> pyfloat \<Rightarrow> int \<Rightarrow> 'x flow \<Rightarrow> int \<times> 'x flow" where
  "resume_expired_gaps sc now resets s =
     (if fs_pending (fst s) \<noteq> [] \<and> gap_expired now (fst s)
      then resume_expired_gaps sc now (resets + 1) (resume_after_gap sc s)
      else (resets, s))"
  by pat_completeness auto
termination
  by (relation "measure (\<lambda>(sc, now, resets, s). length (fs_pending (fst s)))")
    (auto intro: resume_after_gap_decreases)

declare resume_expired_gaps.simps [simp del]

definition resume_after_fin_gap :: "'x stream_scanner \<Rightarrow> 'x flow \<Rightarrow> bool \<times> 'x flow" where
  "resume_after_fin_gap sc s =
     (case (fs_fin_sequence (fst s), fs_next_sequence (fst s)) of
        (Some fin, Some next) \<Rightarrow>
          let fin_sequence = unwrap_tcp_sequence fin next
          in if next \<ge> fin_sequence then (False, s)
             else (True,
                   ((fst s)\<lparr>fs_next_sequence := Some fin_sequence, fs_gap_started_at := None\<rparr>,
                    gap_reset sc fin_sequence (snd s)))
      | _ \<Rightarrow> (False, s))"

text \<open>
  \<^verbatim>\<open>service_gaps\<close> may commit the unanchored buffer, and committing replays its
  segments through \<^verbatim>\<open>_add_anchored_segment\<close>, which may service the gaps again. The
  commit empties the buffer before it replays, so the inner service never commits: the
  operations take the commit as a parameter, and the inner instance gets the identity,
  which its empty buffer never calls.
\<close>

definition service_unanchored :: "('x flow \<Rightarrow> 'x flow) \<Rightarrow> pyfloat \<Rightarrow> 'x flow \<Rightarrow> 'x flow" where
  "service_unanchored commit now s =
     (case fs_unanchored_started_at (fst s) of
        None \<Rightarrow> s
      | Some started \<Rightarrow>
          if fs_unanchored (fst s) \<noteq> [] \<and> now - started \<ge> INITIAL_REORDER_GRACE_SECONDS
          then commit s else s)"

definition service_fin_gap :: "'x stream_scanner \<Rightarrow> pyfloat \<Rightarrow> int \<times> 'x flow \<Rightarrow> int \<times> 'x flow" where
  "service_fin_gap sc now rs =
     (let t = start_fin_gap_timer_if_needed (fst (snd rs)); s = (t, snd (snd rs))
      in if fs_pending t = [] \<and> fs_unanchored t = [] \<and> fs_fin_sequence t \<noteq> None
            \<and> fs_next_sequence t \<noteq> None \<and> gap_expired now t
         then (fst rs + of_bool (fst (resume_after_fin_gap sc s)), snd (resume_after_fin_gap sc s))
         else (fst rs, s))"

definition service_gaps_with ::
    "('x flow \<Rightarrow> 'x flow) \<Rightarrow> 'x stream_scanner \<Rightarrow> pyfloat \<Rightarrow> 'x flow \<Rightarrow> int \<times> 'x flow" where
  "service_gaps_with commit sc now s =
     service_fin_gap sc now (resume_expired_gaps sc now 0 (service_unanchored commit now s))"

section \<open>Segments\<close>

text \<open>
  Both buffers keep the longest payload seen at a sequence number:
  \<^verbatim>\<open>if previous is None or len(payload) > len(previous.data)\<close>.
\<close>

definition keep_longest ::
    "int \<Rightarrow> pending_segment \<Rightarrow> (int, pending_segment) dict \<Rightarrow> (int, pending_segment) dict" where
  "keep_longest sequence segment d =
     (case map_of d sequence of
        None \<Rightarrow> AList.update sequence segment d
      | Some previous \<Rightarrow>
          if length (seg_data segment) > length (seg_data previous)
          then AList.update sequence segment d else d)"

definition start_timer :: "pyfloat \<Rightarrow> pyfloat option \<Rightarrow> pyfloat option" where
  "start_timer now timer = (case timer of None \<Rightarrow> Some now | Some started \<Rightarrow> Some started)"

text \<open>The branch \<^verbatim>\<open>sequence > self.next_sequence\<close>: park the segment behind the gap.\<close>

definition park_segment ::
    "('x flow \<Rightarrow> 'x flow) \<Rightarrow> 'x stream_scanner \<Rightarrow> int \<Rightarrow> bytes \<Rightarrow> packet_context \<Rightarrow> 'x flow \<Rightarrow> 'x flow"
    where
  "park_segment commit sc sequence payload context s =
     (let t = (fst s)\<lparr>fs_pending := keep_longest sequence \<lparr>seg_data = payload, seg_context = context\<rparr>
                                     (fs_pending (fst s)),
                      fs_gap_started_at := start_timer (ctx_timestamp context) (fs_gap_started_at (fst s))\<rparr>
      in if pending_capacity_exceeded t (fs_pending t) then restore_capacity sc (t, snd s)
         else if \<not> fs_defer_gap_timeouts t
              then snd (service_gaps_with commit sc (ctx_timestamp context) (t, snd s))
              else (t, snd s))"

definition add_anchored_segment_with ::
    "('x flow \<Rightarrow> 'x flow) \<Rightarrow> 'x stream_scanner \<Rightarrow> bool \<Rightarrow> int \<Rightarrow> bytes \<Rightarrow> packet_context \<Rightarrow>
       'x flow \<Rightarrow> 'x flow" where
  "add_anchored_segment_with commit sc scan_retransmission raw_sequence payload context s =
     (case fs_next_sequence (fst s) of
        None \<Rightarrow> s
      | Some next \<Rightarrow>
          let sequence = unwrap_tcp_sequence raw_sequence next in
          if sequence < next then
            let overlap = next - sequence;
                overlap_context = context\<lparr>ctx_stream_start := Some sequence\<rparr>
            in if overlap \<ge> int (length payload)
               then (if scan_retransmission
                     then (fst s, sc_scan_standalone sc payload overlap_context (snd s)) else s)
               else let s' = (if scan_retransmission
                              then (fst s, sc_scan_standalone sc (take (nat overlap) payload)
                                      overlap_context (snd s))
                              else s)
                    in flush_pending sc (deliver sc (drop (nat overlap) payload) context s')
          else if sequence > next then park_segment commit sc sequence payload context s
          else flush_pending sc (deliver sc payload context s))"

definition shift_negative :: "(int, pending_segment) dict \<Rightarrow> (int, pending_segment) dict" where
  "shift_negative ordered =
     (case ordered of
        [] \<Rightarrow> []
      | (first, _) # _ \<Rightarrow>
          if first < 0
          then map (\<lambda>(sequence, segment). (sequence + TCP_SEQUENCE_MODULUS, segment)) ordered
          else ordered)"

definition ordered_unanchored :: "tcp_flow_state \<Rightarrow> (int, pending_segment) dict" where
  "ordered_unanchored t =
     (case fs_unanchored t of
        [] \<Rightarrow> []
      | (reference, _) # _ \<Rightarrow>
          shift_negative (sort_key fst
            (map (\<lambda>(sequence, segment). (unwrap_tcp_sequence sequence reference, segment))
               (fs_unanchored t))))"

text \<open>The loop of \<^verbatim>\<open>_contiguous_unanchored_probe\<close> from the state \<open>(cursor, probe)\<close>.\<close>

fun probe_loop :: "(int, pending_segment) dict \<Rightarrow> int \<Rightarrow> bytes \<Rightarrow> bytes" where
  "probe_loop [] cursor probe = probe"
| "probe_loop ((sequence, segment) # rest) cursor probe =
     (if sequence > cursor then probe
      else let overlap = max 0 (cursor - sequence) in
        if overlap \<ge> int (length (seg_data segment)) then probe_loop rest cursor probe
        else let remaining = drop (nat overlap) (seg_data segment);
                 capacity = INITIAL_ANCHOR_PROBE_BYTES - int (length probe)
             in if capacity \<le> 0 then probe
                else let probe' = probe @ take (nat capacity) remaining;
                         cursor' = max cursor (sequence + int (length (seg_data segment)))
                     in if int (length remaining) > capacity then probe'
                        else probe_loop rest cursor' probe')"

text \<open>\<^verbatim>\<open>assert ordered\<close>: the caller has just stored a segment, so the list is not empty.\<close>

definition contiguous_unanchored_probe :: "(int, pending_segment) dict \<Rightarrow> int \<times> bytes" where
  "contiguous_unanchored_probe ordered =
     (case ordered of [] \<Rightarrow> (0, []) | (start, _) # _ \<Rightarrow> (start, probe_loop ordered start []))"

definition commit_unanchored :: "'x stream_scanner \<Rightarrow> int option \<Rightarrow> 'x flow \<Rightarrow> 'x flow" where
  "commit_unanchored sc sequence s =
     (case ordered_unanchored (fst s) of
        [] \<Rightarrow> s
      | (first, segment) # rest \<Rightarrow>
          fold (\<lambda>(segment_sequence, segment).
                  add_anchored_segment_with (\<lambda>s. s) sc False segment_sequence
                    (seg_data segment) (seg_context segment))
            ((first, segment) # rest)
            ((clear_unanchored (fst s))
               \<lparr>fs_next_sequence := Some (case sequence of None \<Rightarrow> first | Some n \<Rightarrow> n)\<rparr>,
             snd s))"

definition service_gaps :: "'x stream_scanner \<Rightarrow> pyfloat \<Rightarrow> 'x flow \<Rightarrow> int \<times> 'x flow" where
  "service_gaps sc = service_gaps_with (commit_unanchored sc None) sc"

definition add_anchored_segment ::
    "'x stream_scanner \<Rightarrow> bool \<Rightarrow> int \<Rightarrow> bytes \<Rightarrow> packet_context \<Rightarrow> 'x flow \<Rightarrow> 'x flow" where
  "add_anchored_segment sc = add_anchored_segment_with (commit_unanchored sc None) sc"

definition add_unanchored_segment ::
    "'x stream_scanner \<Rightarrow> int \<Rightarrow> bytes \<Rightarrow> packet_context \<Rightarrow> 'x flow \<Rightarrow> 'x flow" where
  "add_unanchored_segment sc raw_sequence payload context s =
     (let t = (fst s)\<lparr>fs_unanchored := keep_longest (raw_sequence AND 0xFFFFFFFF)
                          \<lparr>seg_data = payload, seg_context = context\<rparr> (fs_unanchored (fst s)),
                      fs_unanchored_started_at :=
                        start_timer (ctx_timestamp context) (fs_unanchored_started_at (fst s))\<rparr>;
          s2 = (t, snd s);
          (start_sequence, probe) = contiguous_unanchored_probe (ordered_unanchored t)
      in if (case sc_can_anchor_at_start sc of None \<Rightarrow> False | Some can_anchor \<Rightarrow> can_anchor probe)
         then commit_unanchored sc (Some start_sequence) s2
         else if pending_capacity_exceeded t (fs_unanchored t)
              then commit_unanchored sc (Some start_sequence) s2
              else s2)"

definition anchor_sequence :: "'x stream_scanner \<Rightarrow> int \<Rightarrow> 'x flow \<Rightarrow> 'x flow" where
  "anchor_sequence sc sequence s =
     (if fs_next_sequence (fst s) = None
      then if fs_unanchored (fst s) \<noteq> []
           then commit_unanchored sc (Some (sequence AND 0xFFFFFFFF)) s
           else ((fst s)\<lparr>fs_next_sequence := Some (sequence AND 0xFFFFFFFF)\<rparr>, snd s)
      else s)"

definition add_segment ::
    "'x stream_scanner \<Rightarrow> int \<Rightarrow> bytes \<Rightarrow> packet_context \<Rightarrow> 'x flow \<Rightarrow> 'x flow" where
  "add_segment sc sequence payload context s =
     (if payload = [] then s
      else if fs_next_sequence (fst s) = None
           then add_unanchored_segment sc sequence payload context s
           else add_anchored_segment sc True sequence payload context s)"

section \<open>End of capture\<close>

function drain_pending :: "'x stream_scanner \<Rightarrow> 'x flow \<Rightarrow> 'x flow" where
  "drain_pending sc s =
     (if fs_pending (fst s) \<noteq> [] then drain_pending sc (resume_after_gap sc s) else s)"
  by pat_completeness auto
termination
  by (relation "measure (\<lambda>(sc, s). length (fs_pending (fst s)))")
    (auto intro: resume_after_gap_decreases)

declare drain_pending.simps [simp del]

definition flow_finish :: "'x stream_scanner \<Rightarrow> 'x flow \<Rightarrow> 'x flow" where
  "flow_finish sc s =
     snd (resume_after_fin_gap sc (drain_pending sc (commit_unanchored sc None s)))"

end
