(* ===== verification/Flow_Invariant.thy ===== *)
theory Flow_Invariant
  imports Reassembly
begin

text \<open>
  The invariants of \<^verbatim>\<open>TCPFlowState\<close> (\<open>Reassembly\<close>).

  \<open>flow_wf\<close> is the relation between the fields every public operation keeps: the
  buffers are dictionaries, the pending buffer is used only once an origin is known and the
  unanchored one only before, everything parked lies strictly behind the next expected
  byte, and a parked segment always has a running gap timer.
\<close>

section \<open>Well-formed flows\<close>

definition flow_wf0 :: "tcp_flow_state \<Rightarrow> bool" where
  "flow_wf0 t \<longleftrightarrow>
     distinct (map fst (fs_pending t)) \<and> distinct (map fst (fs_unanchored t)) \<and>
     (fs_next_sequence t = None \<longrightarrow> fs_pending t = []) \<and>
     (fs_next_sequence t \<noteq> None \<longrightarrow> fs_unanchored t = [])"

definition flow_wf :: "tcp_flow_state \<Rightarrow> bool" where
  "flow_wf t \<longleftrightarrow> flow_wf0 t \<and>
     (fs_pending t \<noteq> [] \<longrightarrow> fs_gap_started_at t \<noteq> None) \<and>
     (\<forall>n. fs_next_sequence t = Some n \<longrightarrow> (\<forall>p \<in> set (fs_pending t). n < fst p))"

text \<open>The configuration fields that no operation of a flow writes.\<close>

definition flow_config :: "tcp_flow_state \<Rightarrow> nat \<times> nat option \<times> bool \<times> int \<times> pyfloat option" where
  "flow_config t = (fs_max_pending_segments t, fs_max_pending_bytes t, fs_defer_gap_timeouts t,
     fs_generation t, fs_last_activity_at t)"

lemma new_flow_wf: "flow_wf (new_tcp_flow_state m b d g)"
  by (simp add: flow_wf_def flow_wf0_def new_tcp_flow_state_def)

lemma flow_wf_wf0: "flow_wf t \<Longrightarrow> flow_wf0 t"
  by (simp add: flow_wf_def)

lemma deliver_fields [simp]:
  "fs_unanchored (fst (deliver sc p c s)) = fs_unanchored (fst s)"
  "fs_fin_sequence (fst (deliver sc p c s)) = fs_fin_sequence (fst s)"
  "fs_unanchored_started_at (fst (deliver sc p c s)) = fs_unanchored_started_at (fst s)"
  "(fs_next_sequence (fst (deliver sc p c s)) = None) = (fs_next_sequence (fst s) = None)"
  "(\<exists>n. fs_next_sequence (fst (deliver sc p c s)) = Some n) = (\<exists>n. fs_next_sequence (fst s) = Some n)"
  "flow_config (fst (deliver sc p c s)) = flow_config (fst s)"
  by (auto simp: deliver_def flow_config_def split: option.splits)

lemma deliver_wf0: "flow_wf0 (fst s) \<Longrightarrow> flow_wf0 (fst (deliver sc p c s))"
  by (simp add: flow_wf0_def)

lemma flush_pending_step_wf0:
  assumes "flow_wf0 (fst s)"
  shows "flush_pending_step sc s = Continue s' \<Longrightarrow>
    flow_wf0 (fst s') \<and> (fs_next_sequence (fst s') = None) = (fs_next_sequence (fst s) = None)"
  using assms
  by (auto simp: flush_pending_step_def Let_def flow_wf0_def distinct_dict_delete
      split: option.splits if_splits prod.splits)

lemma arm_gap_timer_wf:
  assumes "flow_wf0 t" and "\<forall>n. fs_next_sequence t = Some n \<longrightarrow> (\<forall>p \<in> set (fs_pending t). n < fst p)"
  shows "flow_wf (arm_gap_timer t)"
  using assms arm_gap_timer_armed by (auto simp: flow_wf_def flow_wf0_def)

lemma flush_pending_step_wf:
  assumes "flow_wf0 (fst s)" and "fs_next_sequence (fst s) = Some n"
    and "flush_pending_step sc s = Return s'"
  shows "flow_wf (fst s') \<and> fs_next_sequence (fst s') = Some n"
proof (cases "dict_min (fs_pending (fst s))")
  case None
  then show ?thesis
    using assms by (auto simp: flush_pending_step_def flow_wf_def)
next
  case (Some p)
  obtain k v where p: "p = (k, v)" by (cases p)
  with Some assms have nk: "n < k" and s': "s' = (arm_gap_timer (fst s), snd s)"
    by (auto simp: flush_pending_step_def Let_def split: if_splits)
  have "\<forall>q \<in> set (fs_pending (fst s)). n < fst q"
    using dict_min_le [OF Some] p nk by fastforce
  then show ?thesis
    using arm_gap_timer_wf [OF assms(1)] assms(2) s' by simp
qed

lemma flush_pending_wf:
  "flow_wf0 (fst s) \<Longrightarrow> fs_next_sequence (fst s) \<noteq> None \<Longrightarrow>
     flow_wf (fst (flush_pending sc s)) \<and> fs_next_sequence (fst (flush_pending sc s)) \<noteq> None"
proof (induction sc s rule: flush_pending.induct)
  case (1 sc s)
  show ?case
  proof (cases "flush_pending_step sc s")
    case (Continue s')
    then show ?thesis
      using "1.IH" [OF Continue] "1.prems" flush_pending_step_wf0 [OF "1.prems"(1) Continue]
      by (simp add: flush_pending.simps [of sc s])
  next
    case (Return s')
    then show ?thesis
      using flush_pending_step_wf [OF "1.prems"(1) _ Return] "1.prems"(2)
      by (auto simp add: flush_pending.simps [of sc s])
  qed
qed

lemma resume_after_gap_wf:
  assumes "flow_wf (fst s)"
  shows "flow_wf (fst (resume_after_gap sc s))"
proof (cases "dict_min (fs_pending (fst s))")
  case None
  then show ?thesis using assms by (simp add: resume_after_gap_def)
next
  case (Some p)
  obtain k v where p: "p = (k, v)" by (cases p)
  let ?s = "((fst s)\<lparr>fs_pending := AList.delete k (fs_pending (fst s)),
                     fs_next_sequence := Some k, fs_gap_started_at := None\<rparr>,
             gap_reset sc k (snd s))"
  have "fs_pending (fst s) \<noteq> []"
    using Some by (cases "fs_pending (fst s)") auto
  then have "flow_wf0 (fst ?s)"
    using assms by (auto simp: flow_wf_def flow_wf0_def distinct_dict_delete)
  then have "flow_wf0 (fst (deliver sc (seg_data v) (seg_context v) ?s))"
    by (rule deliver_wf0)
  note flush_pending_wf [OF this, of sc]
  then show ?thesis
    using Some p by (simp add: resume_after_gap_def)
qed

lemma restore_capacity_wf: "flow_wf (fst s) \<Longrightarrow> flow_wf (fst (restore_capacity sc s))"
  by (induction sc s rule: restore_capacity.induct)
    (simp add: restore_capacity.simps resume_after_gap_wf)

lemma resume_expired_gaps_wf:
  "flow_wf (fst s) \<Longrightarrow> flow_wf (fst (snd (resume_expired_gaps sc now n s)))"
proof (induction sc now n s rule: resume_expired_gaps.induct)
  case (1 sc now n s)
  then show ?case
    by (subst resume_expired_gaps.simps) (auto simp: resume_after_gap_wf)
qed

lemma drain_pending_wf: "flow_wf (fst s) \<Longrightarrow> flow_wf (fst (drain_pending sc s))"
  by (induction sc s rule: drain_pending.induct) (simp add: drain_pending.simps resume_after_gap_wf)

lemma start_fin_gap_timer_wf [simp]:
  "flow_wf (start_fin_gap_timer_if_needed t) = flow_wf t"
  by (auto simp: start_fin_gap_timer_if_needed_def flow_wf_def flow_wf0_def split: option.splits)

lemma mark_fin_wf: "flow_wf t \<Longrightarrow> flow_wf (mark_fin q ts t)"
  by (simp add: mark_fin_def) (simp add: flow_wf_def flow_wf0_def)

lemma resume_after_fin_gap_wf:
  "flow_wf (fst s) \<Longrightarrow> fs_pending (fst s) = [] \<Longrightarrow> flow_wf (fst (snd (resume_after_fin_gap sc s)))"
  by (auto simp: resume_after_fin_gap_def Let_def flow_wf_def flow_wf0_def split: option.splits)

lemma start_fin_gap_timer_fields [simp]:
  "fs_pending (start_fin_gap_timer_if_needed t) = fs_pending t"
  "fs_unanchored (start_fin_gap_timer_if_needed t) = fs_unanchored t"
  "fs_next_sequence (start_fin_gap_timer_if_needed t) = fs_next_sequence t"
  "fs_fin_sequence (start_fin_gap_timer_if_needed t) = fs_fin_sequence t"
  by (simp_all add: start_fin_gap_timer_if_needed_def split: option.splits)

lemma service_fin_gap_wf:
  "flow_wf (fst (snd rs)) \<Longrightarrow> flow_wf (fst (snd (service_fin_gap sc now rs)))"
  by (simp add: service_fin_gap_def Let_def resume_after_fin_gap_wf)

lemma service_gaps_with_wf:
  assumes "flow_wf (fst s)" and "fs_unanchored (fst s) \<noteq> [] \<Longrightarrow> flow_wf (fst (commit s))"
  shows "flow_wf (fst (snd (service_gaps_with commit sc now s)))"
  using assms unfolding service_gaps_with_def
  by (intro service_fin_gap_wf resume_expired_gaps_wf)
    (auto simp: service_unanchored_def split: option.splits)

lemma set_keep_longest: "set (keep_longest q g d) \<subseteq> insert (q, g) (set d)"
  using set_update_subset [of q g d] by (auto simp: keep_longest_def split: option.splits)

lemma distinct_keep_longest: "distinct (map fst d) \<Longrightarrow> distinct (map fst (keep_longest q g d))"
  by (auto simp: keep_longest_def distinct_dict_update split: option.splits)

lemma keep_longest_nonempty [simp]: "keep_longest q g d \<noteq> []"
  by (cases d) (auto simp: keep_longest_def split: option.splits)

lemma start_timer_Some [simp]: "start_timer now timer \<noteq> None"
  by (simp add: start_timer_def split: option.splits)

lemma park_segment_wf:
  assumes "flow_wf (fst s)" and "fs_next_sequence (fst s) = Some n" "n < q"
  shows "flow_wf (fst (park_segment commit sc q p c s))"
proof -
  let ?g = "\<lparr>seg_data = p, seg_context = c\<rparr>"
  let ?t = "(fst s)\<lparr>fs_pending := keep_longest q ?g (fs_pending (fst s)),
              fs_gap_started_at := start_timer (ctx_timestamp c) (fs_gap_started_at (fst s))\<rparr>"
  have wf: "flow_wf (fst (?t, snd s))"
    using assms set_keep_longest [of q ?g "fs_pending (fst s)"] start_timer_Some
    by (auto simp: flow_wf_def flow_wf0_def distinct_keep_longest simp del: start_timer_Some)
  moreover have "fs_unanchored (fst (?t, snd s)) = []"
    using assms by (simp add: flow_wf_def flow_wf0_def)
  ultimately show ?thesis
    using restore_capacity_wf [OF wf] service_gaps_with_wf [OF wf]
    by (simp add: park_segment_def Let_def)
qed

text \<open>An anchored flow stays anchored.\<close>

lemma resume_after_gap_anchored:
  assumes "fs_next_sequence (fst s) \<noteq> None" and "flow_wf (fst s)"
  shows "fs_next_sequence (fst (resume_after_gap sc s)) \<noteq> None"
proof (cases "dict_min (fs_pending (fst s))")
  case None
  then show ?thesis using assms by (simp add: resume_after_gap_def)
next
  case (Some p)
  obtain k v where p: "p = (k, v)" by (cases p)
  let ?s = "((fst s)\<lparr>fs_pending := AList.delete k (fs_pending (fst s)),
                     fs_next_sequence := Some k, fs_gap_started_at := None\<rparr>,
             gap_reset sc k (snd s))"
  have "flow_wf0 (fst ?s)"
    using assms by (auto simp: flow_wf_def flow_wf0_def distinct_dict_delete)
  then have "flow_wf0 (fst (deliver sc (seg_data v) (seg_context v) ?s))"
    by (rule deliver_wf0)
  note flush_pending_wf [OF this, of sc]
  then show ?thesis
    using Some p by (simp add: resume_after_gap_def)
qed

lemma restore_capacity_anchored:
  "fs_next_sequence (fst s) \<noteq> None \<Longrightarrow> flow_wf (fst s) \<Longrightarrow>
     fs_next_sequence (fst (restore_capacity sc s)) \<noteq> None"
proof (induction sc s rule: restore_capacity.induct)
  case (1 sc s)
  then show ?case
    using resume_after_gap_anchored [of s sc] resume_after_gap_wf [of s sc]
    by (subst restore_capacity.simps) auto
qed

lemma resume_expired_gaps_anchored:
  "fs_next_sequence (fst s) \<noteq> None \<Longrightarrow> flow_wf (fst s) \<Longrightarrow>
     fs_next_sequence (fst (snd (resume_expired_gaps sc now n s))) \<noteq> None"
proof (induction sc now n s rule: resume_expired_gaps.induct)
  case (1 sc now n s)
  then show ?case
    using resume_after_gap_anchored [of s sc] resume_after_gap_wf [of s sc]
    by (subst resume_expired_gaps.simps) auto
qed

lemma service_fin_gap_anchored:
  "fs_next_sequence (fst (snd rs)) \<noteq> None \<Longrightarrow>
     fs_next_sequence (fst (snd (service_fin_gap sc now rs))) \<noteq> None"
  by (auto simp: service_fin_gap_def Let_def resume_after_fin_gap_def split: option.splits)

lemma park_segment_anchored:
  assumes "flow_wf (fst s)" and "fs_next_sequence (fst s) = Some n" "n < q"
  shows "fs_next_sequence (fst (park_segment commit sc q p c s)) \<noteq> None"
proof -
  let ?g = "\<lparr>seg_data = p, seg_context = c\<rparr>"
  let ?t = "(fst s)\<lparr>fs_pending := keep_longest q ?g (fs_pending (fst s)),
              fs_gap_started_at := start_timer (ctx_timestamp c) (fs_gap_started_at (fst s))\<rparr>"
  have wf: "flow_wf (fst (?t, snd s))"
    using assms set_keep_longest [of q ?g "fs_pending (fst s)"] start_timer_Some
    by (auto simp: flow_wf_def flow_wf0_def distinct_keep_longest simp del: start_timer_Some)
  have anchored: "fs_next_sequence (fst (?t, snd s)) \<noteq> None"
    using assms by simp
  have "service_unanchored commit now (?t, snd s) = (?t, snd s)" for now
    using assms by (auto simp: service_unanchored_def flow_wf_def flow_wf0_def split: option.splits)
  then have "fs_next_sequence (fst (snd (service_gaps_with commit sc now (?t, snd s)))) \<noteq> None" for now
    unfolding service_gaps_with_def
    using resume_expired_gaps_anchored [OF anchored wf] by (intro service_fin_gap_anchored) simp
  then show ?thesis
    using restore_capacity_anchored [OF anchored wf] assms(2)
    by (simp add: park_segment_def Let_def)
qed

lemma add_anchored_segment_with_wf:
  assumes wf: "flow_wf (fst s)" and "fs_next_sequence (fst s) \<noteq> None"
  shows "flow_wf (fst (add_anchored_segment_with commit sc b q p c s)) \<and>
    fs_next_sequence (fst (add_anchored_segment_with commit sc b q p c s)) \<noteq> None"
proof -
  obtain n where n: "fs_next_sequence (fst s) = Some n"
    using assms(2) by blast
  have "flow_wf0 (fst (deliver sc d c' s'))" "fs_next_sequence (fst (deliver sc d c' s')) \<noteq> None"
    if "fst s' = fst s" for d c' s'
    using that wf assms(2) deliver_wf0 [of s'] flow_wf_wf0 by auto
  note flush = flush_pending_wf [OF this]
  consider "unwrap_tcp_sequence q n < n" | "unwrap_tcp_sequence q n = n" | "n < unwrap_tcp_sequence q n"
    by linarith
  then show ?thesis
  proof cases
    case 3
    then show ?thesis
      using park_segment_wf [OF wf n 3] park_segment_anchored [OF wf n 3] n
      by (simp add: add_anchored_segment_with_def Let_def)
  qed (use flush wf n in \<open>simp_all add: add_anchored_segment_with_def Let_def\<close>)
qed

lemma fold_invariant:
  "P s \<Longrightarrow> (\<And>y s. y \<in> set ys \<Longrightarrow> P s \<Longrightarrow> P (f y s)) \<Longrightarrow> P (fold f ys s)"
  by (induction ys arbitrary: s) auto

text \<open>Ordering the unanchored buffer keeps its segments and their sequence numbers modulo $2^{32}$.\<close>

lemma set_shift_negative:
  "set (shift_negative d) \<subseteq> set d \<union> (\<lambda>p. (fst p + TCP_SEQUENCE_MODULUS, snd p)) ` set d"
proof (cases d)
  case (Cons p ps)
  then have "shift_negative d = d \<or>
      shift_negative d = map (\<lambda>p. (fst p + TCP_SEQUENCE_MODULUS, snd p)) d"
    by (cases p) (simp add: shift_negative_def case_prod_unfold)
  then show ?thesis
    by auto
qed (simp add: shift_negative_def)

lemma shift_negative_origin:
  assumes "p \<in> set (shift_negative d)"
  shows "\<exists>p' \<in> set d. snd p = snd p' \<and> fst p mod TCP_SEQUENCE_MODULUS = fst p' mod TCP_SEQUENCE_MODULUS"
proof -
  from assms set_shift_negative obtain p' where "p' \<in> set d" "p = p' \<or> p = (fst p' + TCP_SEQUENCE_MODULUS, snd p')"
    by blast
  then show ?thesis
    by (intro bexI [of _ p']) auto
qed

lemma ordered_unanchored_origin:
  assumes "p \<in> set (ordered_unanchored t)"
  shows "\<exists>q. (q, snd p) \<in> set (fs_unanchored t) \<and>
    fst p mod TCP_SEQUENCE_MODULUS = q mod TCP_SEQUENCE_MODULUS"
proof (cases "fs_unanchored t")
  case (Cons r rs)
  let ?m = "map (\<lambda>(sequence, segment). (unwrap_tcp_sequence sequence (fst r), segment)) (fs_unanchored t)"
  have "p \<in> set (shift_negative (sort_key fst ?m))"
    using assms unfolding ordered_unanchored_def Cons by (cases r) simp
  then obtain p' where "p' \<in> set (sort_key fst ?m)" "snd p = snd p'"
      "fst p mod TCP_SEQUENCE_MODULUS = fst p' mod TCP_SEQUENCE_MODULUS"
    using shift_negative_origin by blast
  moreover have "set (sort_key fst ?m) = set ?m"
    by (rule set_sort)
  ultimately show ?thesis
    by auto
qed (use assms in \<open>simp add: ordered_unanchored_def\<close>)

lemma length_shift_negative: "length (shift_negative d) = length d"
  by (auto simp: shift_negative_def split: list.split)

lemma length_ordered_unanchored: "length (ordered_unanchored t) = length (fs_unanchored t)"
  by (cases "fs_unanchored t")
    (simp_all only: ordered_unanchored_def list.case case_prod_unfold length_shift_negative length_sort length_map list.size)

lemma ordered_unanchored_Nil: "ordered_unanchored t = [] \<longleftrightarrow> fs_unanchored t = []"
  by (metis length_ordered_unanchored length_0_conv)

abbreviation replay_segment :: "'x stream_scanner \<Rightarrow> int \<times> pending_segment \<Rightarrow> 'x flow \<Rightarrow> 'x flow" where
  "replay_segment sc \<equiv> \<lambda>(sequence, segment). add_anchored_segment_with (\<lambda>s. s) sc False sequence
     (seg_data segment) (seg_context segment)"

lemma replay_segments_wf:
  assumes "flow_wf (fst s)" and "fs_next_sequence (fst s) \<noteq> None"
  shows "flow_wf (fst (fold (replay_segment sc) segments s)) \<and>
    fs_next_sequence (fst (fold (replay_segment sc) segments s)) \<noteq> None"
proof (rule fold_invariant)
  show "flow_wf (fst s) \<and> fs_next_sequence (fst s) \<noteq> None"
    using assms by blast
  show "flow_wf (fst (replay_segment sc y s)) \<and> fs_next_sequence (fst (replay_segment sc y s)) \<noteq> None"
    if "flow_wf (fst s) \<and> fs_next_sequence (fst s) \<noteq> None" for y s
    using that add_anchored_segment_with_wf [of s "\<lambda>s. s" sc False] by (cases y) simp
qed

lemma commit_unanchored_eq:
  "commit_unanchored sc q s =
     (case ordered_unanchored (fst s) of
        [] \<Rightarrow> s
      | p # rest \<Rightarrow> fold (replay_segment sc) (p # rest)
          ((clear_unanchored (fst s))
             \<lparr>fs_next_sequence := Some (case q of None \<Rightarrow> fst p | Some n \<Rightarrow> n)\<rparr>, snd s))"
  by (cases q) (simp_all add: commit_unanchored_def split: list.split prod.split)

lemma commit_unanchored_wf:
  assumes "flow_wf (fst s)" and "fs_next_sequence (fst s) = None"
  shows "flow_wf (fst (commit_unanchored sc q s))"
proof (cases "ordered_unanchored (fst s)")
  case (Cons p rest)
  let ?s = "((clear_unanchored (fst s))
     \<lparr>fs_next_sequence := Some (case q of None \<Rightarrow> fst p | Some n \<Rightarrow> n)\<rparr>, snd s)"
  have "flow_wf (fst ?s)" "fs_next_sequence (fst ?s) \<noteq> None"
    using assms by (auto simp: flow_wf_def flow_wf0_def clear_unanchored_def)
  then have "flow_wf (fst (fold (replay_segment sc) (p # rest) ?s))"
    by (intro replay_segments_wf [THEN conjunct1])
  then show ?thesis
    unfolding commit_unanchored_eq Cons list.case .
qed (use assms in \<open>simp add: commit_unanchored_eq\<close>)

lemma flow_wf_unanchored: "flow_wf t \<Longrightarrow> fs_unanchored t \<noteq> [] \<Longrightarrow> fs_next_sequence t = None"
  by (auto simp: flow_wf_def flow_wf0_def)

lemma service_gaps_wf: "flow_wf (fst s) \<Longrightarrow> flow_wf (fst (snd (service_gaps sc now s)))"
  unfolding service_gaps_def
  by (intro service_gaps_with_wf) (auto intro: commit_unanchored_wf dest: flow_wf_unanchored)

lemma add_unanchored_segment_wf:
  assumes "flow_wf (fst s)" and "fs_next_sequence (fst s) = None"
  shows "flow_wf (fst (add_unanchored_segment sc q p c s))"
proof -
  let ?t = "(fst s)\<lparr>fs_unanchored := keep_longest (q AND 0xFFFFFFFF)
              \<lparr>seg_data = p, seg_context = c\<rparr> (fs_unanchored (fst s)),
            fs_unanchored_started_at :=
              start_timer (ctx_timestamp c) (fs_unanchored_started_at (fst s))\<rparr>"
  have "flow_wf (fst (?t, snd s))" "fs_next_sequence (fst (?t, snd s)) = None"
    using assms by (auto simp: flow_wf_def flow_wf0_def distinct_keep_longest)
  then show ?thesis
    by (simp add: add_unanchored_segment_def Let_def commit_unanchored_wf split: prod.splits)
qed

lemma add_segment_wf: "flow_wf (fst s) \<Longrightarrow> flow_wf (fst (add_segment sc q p c s))"
  by (auto simp: add_segment_def add_anchored_segment_def add_unanchored_segment_wf
      add_anchored_segment_with_wf)

lemma anchor_sequence_wf: "flow_wf (fst s) \<Longrightarrow> flow_wf (fst (anchor_sequence sc q s))"
  by (auto simp: anchor_sequence_def commit_unanchored_wf) (auto simp: flow_wf_def flow_wf0_def)

lemma drain_pending_empty: "fs_pending (fst (drain_pending sc s)) = []"
  by (induction sc s rule: drain_pending.induct) (simp add: drain_pending.simps)

lemma flow_finish_wf: "flow_wf (fst s) \<Longrightarrow> flow_wf (fst (flow_finish sc s))"
proof -
  assume wf: "flow_wf (fst s)"
  have "flow_wf (fst (commit_unanchored sc None s))"
  proof (cases "fs_unanchored (fst s)")
    case Nil
    then show ?thesis
      using wf by (simp add: commit_unanchored_def ordered_unanchored_def)
  next
    case (Cons p ps)
    then have "fs_next_sequence (fst s) = None"
      using flow_wf_unanchored [OF wf] by simp
    then show ?thesis
      by (rule commit_unanchored_wf [OF wf])
  qed
  then show ?thesis
    unfolding flow_finish_def
    by (intro resume_after_fin_gap_wf drain_pending_wf drain_pending_empty)
qed

lemma flow_reset_wf: "flow_wf (fst (flow_reset sc s))"
  by (simp add: flow_reset_def clear_unanchored_def flow_wf_def flow_wf0_def)

lemmas flow_wf_intros =
  new_flow_wf add_segment_wf anchor_sequence_wf service_gaps_wf mark_fin_wf flow_finish_wf flow_reset_wf

end
