(* ===== verification/Flow_Contract.thy ===== *)
theory Flow_Contract
  imports Flow_Invariant
begin

text \<open>
  The interface between the reassembly of a flow and the scanner it drives.

  The locale \<open>feed_contract\<close> covers delivery alone, \<open>flow_contract\<close> extends it to every
  call. Both take the scanner's operations, a predicate \<open>ok s d c\<close>
  ("the payload \<open>d\<close> is credible at the absolute sequence \<open>s\<close>") and an invariant
  \<open>I n x\<close> between the next expected sequence and the scanner's state. The laws say how the
  calls a flow makes change \<open>I\<close>; the lemmas say that every operation of
  \<open>Reassembly\<close> keeps \<open>I\<close>, together with the fact that everything buffered is
  credible. Each scanner of the repository discharges the laws once and gets the
  invariant for arbitrary orders of segments, gaps, retransmissions and shutdown.
\<close>

definition segment_ok :: "(int \<Rightarrow> bytes \<Rightarrow> packet_context \<Rightarrow> bool) \<Rightarrow> int \<times> pending_segment \<Rightarrow> bool" where
  "segment_ok ok p \<longleftrightarrow> ok (fst p) (seg_data (snd p)) (seg_context (snd p))"

definition buffers_ok :: "(int \<Rightarrow> bytes \<Rightarrow> packet_context \<Rightarrow> bool) \<Rightarrow> tcp_flow_state \<Rightarrow> bool" where
  "buffers_ok ok t \<longleftrightarrow>
     (\<forall>p \<in> set (fs_pending t). segment_ok ok p) \<and> (\<forall>p \<in> set (fs_unanchored t). segment_ok ok p)"

locale feed_contract =
  fixes sc :: "'x stream_scanner"
    and ok :: "int \<Rightarrow> bytes \<Rightarrow> packet_context \<Rightarrow> bool"
    and I :: "int option \<Rightarrow> 'x \<Rightarrow> bool"
  assumes ok_drop: "ok s d c \<Longrightarrow> k \<le> length d \<Longrightarrow> ok (s + int k) (drop k d) c"
    and I_feed: "I (Some n) x \<Longrightarrow> ok n d c \<Longrightarrow>
      I (Some (n + int (length d))) (sc_feed sc d (c\<lparr>ctx_stream_start := Some n\<rparr>) x)"
begin

definition inv :: "'x flow \<Rightarrow> bool" where
  "inv s \<longleftrightarrow> I (fs_next_sequence (fst s)) (snd s) \<and> buffers_ok ok (fst s)"

lemma inv_fields:
  "inv s \<Longrightarrow> fs_next_sequence t = fs_next_sequence (fst s) \<Longrightarrow>
     set (fs_pending t) \<subseteq> set (fs_pending (fst s)) \<Longrightarrow>
     set (fs_unanchored t) \<subseteq> set (fs_unanchored (fst s)) \<Longrightarrow> inv (t, snd s)"
  by (auto simp: inv_def buffers_ok_def)

lemma deliver_inv:
  assumes "inv s" and "\<And>n. fs_next_sequence (fst s) = Some n \<Longrightarrow> ok n d c"
  shows "inv (deliver sc d c s)"
proof (cases "fs_next_sequence (fst s)")
  case None
  then show ?thesis using assms by (simp add: deliver_def)
next
  case (Some n)
  then have "I (Some n) (snd s)" "ok n d c"
    using assms by (simp_all add: inv_def)
  note I_feed [OF this]
  then show ?thesis
    using Some assms(1) by (simp add: deliver_def inv_def buffers_ok_def)
qed

lemma flush_pending_step_inv:
  assumes "inv s" and "flush_pending_step sc s = Continue s'"
  shows "inv s'"
proof -
  obtain n k v where n: "fs_next_sequence (fst s) = Some n" and kv: "dict_min (fs_pending (fst s)) = Some (k, v)"
    and le: "k \<le> n"
    using assms(2) by (auto simp: flush_pending_step_def Let_def split: option.splits prod.splits if_splits)
  let ?s = "((fst s)\<lparr>fs_pending := AList.delete k (fs_pending (fst s))\<rparr>, snd s)"
  have s: "inv ?s"
    using assms(1) by (intro inv_fields) (auto simp: set_delete)
  have kv_ok: "ok k (seg_data v) (seg_context v)"
    using assms(1) dict_min_in [OF kv] by (auto simp: inv_def buffers_ok_def segment_ok_def)
  show ?thesis
  proof (cases "k < n")
    case False
    then have "k = n"
      using le by simp
    then have "inv (deliver sc (seg_data v) (seg_context v) ?s)"
      using s n kv_ok by (intro deliver_inv) auto
    then show ?thesis
      using assms(2) n kv False le by (auto simp: flush_pending_step_def Let_def split: if_splits)
  next
    case True
    show ?thesis
    proof (cases "n - k \<ge> int (length (seg_data v))")
      case True
      then show ?thesis
        using assms(2) n kv \<open>k < n\<close> s by (auto simp: flush_pending_step_def Let_def)
    next
      case False
      then have "ok (k + int (nat (n - k))) (drop (nat (n - k)) (seg_data v)) (seg_context v)"
        using kv_ok by (intro ok_drop) auto
      then have "inv (deliver sc (drop (nat (n - k)) (seg_data v)) (seg_context v) ?s)"
        using s n True by (intro deliver_inv) auto
      then show ?thesis
        using assms(2) n kv True False by (auto simp: flush_pending_step_def Let_def)
    qed
  qed
qed

lemma flush_pending_inv: "inv s \<Longrightarrow> inv (flush_pending sc s)"
proof (induction sc' \<equiv> sc s rule: flush_pending.induct)
  case (1 s)
  show ?case
  proof (cases "flush_pending_step sc s")
    case (Continue s')
    then show ?thesis
      using "1.hyps" [OF Continue] flush_pending_step_inv [OF "1.prems" Continue]
      by (simp add: flush_pending.simps [of sc s])
  next
    case (Return s')
    have "inv (arm_gap_timer (fst s), snd s)"
      using "1.prems" by (intro inv_fields) auto
    then show ?thesis
      using flush_pending_step_Return [OF Return] Return "1.prems"
      by (auto simp add: flush_pending.simps [of sc s])
  qed
qed

end

locale flow_contract = feed_contract sc ok I
  for sc :: "'x stream_scanner"
    and ok :: "int \<Rightarrow> bytes \<Rightarrow> packet_context \<Rightarrow> bool"
    and I :: "int option \<Rightarrow> 'x \<Rightarrow> bool" +
  assumes ok_take: "ok s d c \<Longrightarrow> ok s (take k d) c"
    and ok_mod: "ok s d c \<Longrightarrow> s' mod TCP_SEQUENCE_MODULUS = s mod TCP_SEQUENCE_MODULUS \<Longrightarrow> ok s' d c"
    and I_standalone: "I (Some n) x \<Longrightarrow> ok s d c \<Longrightarrow> s + int (length d) \<le> n \<Longrightarrow>
      I (Some n) (sc_scan_standalone sc d (c\<lparr>ctx_stream_start := Some s\<rparr>) x)"
    and I_gap: "I ns x \<Longrightarrow> I (Some s) (gap_reset sc s x)"
    and I_anchor: "I None x \<Longrightarrow> I (Some s) x"
    and I_reset: "I ns x \<Longrightarrow> I None (sc_reset sc x)"
begin

lemma resume_after_gap_inv:
  assumes "inv s"
  shows "inv (resume_after_gap sc s)"
proof (cases "dict_min (fs_pending (fst s))")
  case None
  then show ?thesis using assms by (simp add: resume_after_gap_def)
next
  case (Some p)
  obtain k v where p: "p = (k, v)" by (cases p)
  have "I (Some k) (gap_reset sc k (snd s))"
    using assms by (auto simp: inv_def intro: I_gap)
  then have "inv ((fst s)\<lparr>fs_pending := AList.delete k (fs_pending (fst s)),
                     fs_next_sequence := Some k, fs_gap_started_at := None\<rparr>, gap_reset sc k (snd s))"
    using assms by (auto simp: inv_def buffers_ok_def set_delete)
  moreover have "ok k (seg_data v) (seg_context v)"
    using assms dict_min_in [OF Some] p by (auto simp: inv_def buffers_ok_def segment_ok_def)
  ultimately show ?thesis
    using Some p by (auto simp: resume_after_gap_def intro!: flush_pending_inv deliver_inv)
qed

lemma restore_capacity_inv: "inv s \<Longrightarrow> inv (restore_capacity sc s)"
proof (induction sc' \<equiv> sc s rule: restore_capacity.induct)
  case (1 s)
  then show ?case
    by (subst restore_capacity.simps) (auto intro: resume_after_gap_inv)
qed

lemma drain_pending_inv: "inv s \<Longrightarrow> inv (drain_pending sc s)"
proof (induction sc' \<equiv> sc s rule: drain_pending.induct)
  case (1 s)
  then show ?case
    by (subst drain_pending.simps) (auto intro: resume_after_gap_inv)
qed

lemma resume_expired_gaps_inv: "inv s \<Longrightarrow> inv (snd (resume_expired_gaps sc now n s))"
proof (induction sc' \<equiv> sc now n s rule: resume_expired_gaps.induct)
  case (1 now n s)
  then show ?case
    by (subst resume_expired_gaps.simps) (auto intro: resume_after_gap_inv)
qed

lemma resume_after_fin_gap_inv: "inv s \<Longrightarrow> inv (snd (resume_after_fin_gap sc s))"
  using I_gap by (auto simp: resume_after_fin_gap_def Let_def inv_def buffers_ok_def split: option.splits)

lemma service_fin_gap_inv: "inv (snd rs) \<Longrightarrow> inv (snd (service_fin_gap sc now rs))"
proof -
  assume "inv (snd rs)"
  then have "inv (start_fin_gap_timer_if_needed (fst (snd rs)), snd (snd rs))"
    by (rule inv_fields) auto
  then show ?thesis
    by (simp add: service_fin_gap_def Let_def resume_after_fin_gap_inv)
qed

lemma service_gaps_with_inv:
  assumes "inv s" and "fs_unanchored (fst s) \<noteq> [] \<Longrightarrow> inv (commit s)"
  shows "inv (snd (service_gaps_with commit sc now s))"
  unfolding service_gaps_with_def
  using assms by (intro service_fin_gap_inv resume_expired_gaps_inv)
    (auto simp: service_unanchored_def split: option.splits)

lemma keep_longest_ok:
  "\<forall>p \<in> set d. segment_ok ok p \<Longrightarrow> ok q p c \<Longrightarrow>
     \<forall>p \<in> set (keep_longest q \<lparr>seg_data = p, seg_context = c\<rparr> d). segment_ok ok p"
  using set_keep_longest [of q "\<lparr>seg_data = p, seg_context = c\<rparr>" d] by (auto simp: segment_ok_def)

lemma park_segment_inv:
  assumes "inv s" and "fs_unanchored (fst s) = []" and "ok q p c"
  shows "inv (park_segment commit sc q p c s)"
proof -
  let ?t = "(fst s)\<lparr>fs_pending := keep_longest q \<lparr>seg_data = p, seg_context = c\<rparr> (fs_pending (fst s)),
              fs_gap_started_at := start_timer (ctx_timestamp c) (fs_gap_started_at (fst s))\<rparr>"
  have "\<forall>p' \<in> set (keep_longest q \<lparr>seg_data = p, seg_context = c\<rparr> (fs_pending (fst s))). segment_ok ok p'"
    using assms by (intro keep_longest_ok) (auto simp: inv_def buffers_ok_def)
  then have "inv (?t, snd s)"
    using assms by (auto simp: inv_def buffers_ok_def)
  then show ?thesis
    using assms(2) by (auto simp: park_segment_def Let_def intro!: restore_capacity_inv service_gaps_with_inv)
qed

lemma add_anchored_segment_with_inv:
  assumes "inv s" and "flow_wf (fst s)" and "ok q p c"
  shows "inv (add_anchored_segment_with commit sc b q p c s)"
proof (cases "fs_next_sequence (fst s)")
  case None
  then show ?thesis using assms by (simp add: add_anchored_segment_with_def)
next
  case (Some n)
  let ?q = "unwrap_tcp_sequence q n"
  have ok': "ok ?q p c"
    using assms(3) by (rule ok_mod) simp
  have un: "fs_unanchored (fst s) = []"
    using assms(2) Some by (simp add: flow_wf_def flow_wf0_def)
  consider "?q < n" | "?q = n" | "n < ?q" by linarith
  then show ?thesis
  proof cases
    case 1
    let ?k = "nat (n - ?q)"
    let ?c = "c\<lparr>ctx_stream_start := Some ?q\<rparr>"
    have In: "I (Some n) (snd s)" "buffers_ok ok (fst s)"
      using assms(1) Some by (simp_all add: inv_def)
    have st: "inv (fst s, sc_scan_standalone sc (take ?k p) ?c (snd s))"
      using I_standalone [OF In(1) ok_take [OF ok', of ?k]] In(2) Some 1 by (simp add: inv_def)
    have dl: "inv (flush_pending sc (deliver sc (drop ?k p) c s'))"
      if "?k \<le> length p" "inv s'" "fst s' = fst s" for s'
      using ok_drop [OF ok' that(1)] 1 Some that by (intro flush_pending_inv deliver_inv) auto
    show ?thesis
    proof (cases "n - ?q \<ge> int (length p)")
      case True
      then show ?thesis
        using Some 1 st assms(1) by (simp add: add_anchored_segment_with_def Let_def)
    next
      case False
      then show ?thesis
        using Some 1 st assms(1) dl by (simp add: add_anchored_segment_with_def Let_def)
    qed
  next
    case 2
    then show ?thesis
      using Some assms(1) ok' by (auto simp: add_anchored_segment_with_def intro!: flush_pending_inv deliver_inv)
  next
    case 3
    then show ?thesis
      using Some park_segment_inv [OF assms(1) un ok'] by (simp add: add_anchored_segment_with_def Let_def)
  qed
qed

lemma replay_segments_inv:
  assumes "inv s" and "flow_wf (fst s)" and "fs_next_sequence (fst s) \<noteq> None"
    and "\<forall>p \<in> set segments. segment_ok ok p"
  shows "inv (fold (replay_segment sc) segments s)"
proof -
  have "inv (fold (replay_segment sc) segments s) \<and> flow_wf (fst (fold (replay_segment sc) segments s))
      \<and> fs_next_sequence (fst (fold (replay_segment sc) segments s)) \<noteq> None"
  proof (rule fold_invariant)
    fix y s
    assume y: "y \<in> set segments"
      and s: "inv s \<and> flow_wf (fst s) \<and> fs_next_sequence (fst s) \<noteq> None"
    obtain q g where q: "y = (q, g)" by (cases y)
    have "ok q (seg_data g) (seg_context g)"
      using assms(4) y q by (auto simp: segment_ok_def)
    then show "inv (replay_segment sc y s) \<and> flow_wf (fst (replay_segment sc y s))
        \<and> fs_next_sequence (fst (replay_segment sc y s)) \<noteq> None"
      using s add_anchored_segment_with_inv [of s] add_anchored_segment_with_wf [of s]
      unfolding q prod.case by blast
  qed (use assms in blast)
  then show ?thesis ..
qed

lemma ordered_unanchored_ok:
  assumes "\<forall>p \<in> set (fs_unanchored t). segment_ok ok p"
  shows "\<forall>p \<in> set (ordered_unanchored t). segment_ok ok p"
proof
  fix p assume "p \<in> set (ordered_unanchored t)"
  then obtain q where q: "(q, snd p) \<in> set (fs_unanchored t)"
    and m: "fst p mod TCP_SEQUENCE_MODULUS = q mod TCP_SEQUENCE_MODULUS"
    using ordered_unanchored_origin by blast
  show "segment_ok ok p"
    using assms q ok_mod [OF _ m] by (fastforce simp: segment_ok_def)
qed

lemma commit_unanchored_inv:
  assumes "inv s" and "flow_wf (fst s)" and "fs_next_sequence (fst s) = None"
  shows "inv (commit_unanchored sc q s)"
proof (cases "ordered_unanchored (fst s)")
  case (Cons p rest)
  let ?s = "((clear_unanchored (fst s))
     \<lparr>fs_next_sequence := Some (case q of None \<Rightarrow> fst p | Some n \<Rightarrow> n)\<rparr>, snd s)"
  have "flow_wf (fst ?s)" "fs_next_sequence (fst ?s) \<noteq> None"
    using assms by (auto simp: flow_wf_def flow_wf0_def clear_unanchored_def)
  moreover have "inv ?s"
    using assms I_anchor by (auto simp: inv_def buffers_ok_def clear_unanchored_def)
  moreover have "\<forall>y \<in> set (p # rest). segment_ok ok y"
    unfolding Cons [symmetric] using assms(1) by (intro ordered_unanchored_ok) (simp add: inv_def buffers_ok_def)
  ultimately have "inv (fold (replay_segment sc) (p # rest) ?s)"
    by (intro replay_segments_inv)
  then show ?thesis
    unfolding commit_unanchored_eq Cons list.case .
qed (use assms in \<open>simp add: commit_unanchored_eq\<close>)

lemma commit_always_inv:
  assumes "inv s" and "flow_wf (fst s)"
  shows "inv (commit_unanchored sc q s)"
proof (cases "fs_unanchored (fst s) = []")
  case True
  then show ?thesis
    using assms by (simp add: commit_unanchored_eq ordered_unanchored_def)
next
  case False
  with assms show ?thesis
    by (intro commit_unanchored_inv flow_wf_unanchored)
qed

lemma service_gaps_inv: "inv s \<Longrightarrow> flow_wf (fst s) \<Longrightarrow> inv (snd (service_gaps sc now s))"
  unfolding service_gaps_def by (intro service_gaps_with_inv commit_always_inv)

lemma add_unanchored_segment_inv:
  assumes "inv s" and "flow_wf (fst s)" and "fs_next_sequence (fst s) = None" and "ok q p c"
  shows "inv (add_unanchored_segment sc q p c s)"
proof -
  let ?d = "keep_longest (q AND 0xFFFFFFFF) \<lparr>seg_data = p, seg_context = c\<rparr> (fs_unanchored (fst s))"
  let ?t = "(fst s)\<lparr>fs_unanchored := ?d, fs_unanchored_started_at :=
              start_timer (ctx_timestamp c) (fs_unanchored_started_at (fst s))\<rparr>"
  have "flow_wf (fst (?t, snd s))" "fs_next_sequence (fst (?t, snd s)) = None"
    using assms by (auto simp: flow_wf_def flow_wf0_def distinct_keep_longest)
  moreover have "ok (q AND 0xFFFFFFFF) p c"
    using assms(4) by (rule ok_mod) simp
  then have "\<forall>p' \<in> set ?d. segment_ok ok p'"
    using assms by (intro keep_longest_ok) (auto simp: inv_def buffers_ok_def)
  then have "inv (?t, snd s)"
    using assms by (auto simp: inv_def buffers_ok_def)
  ultimately show ?thesis
    by (simp add: add_unanchored_segment_def Let_def commit_unanchored_inv split: prod.splits)
qed

lemma add_segment_inv:
  "inv s \<Longrightarrow> flow_wf (fst s) \<Longrightarrow> ok q p c \<Longrightarrow> inv (add_segment sc q p c s)"
  by (auto simp: add_segment_def add_anchored_segment_def add_unanchored_segment_inv
      add_anchored_segment_with_inv)

lemma anchor_sequence_inv: "inv s \<Longrightarrow> flow_wf (fst s) \<Longrightarrow> inv (anchor_sequence sc q s)"
  using I_anchor by (auto simp: anchor_sequence_def commit_unanchored_inv) (auto simp: inv_def buffers_ok_def)

lemma mark_fin_inv: "inv s \<Longrightarrow> inv (mark_fin q ts (fst s), snd s)"
  by (rule inv_fields) (auto simp: mark_fin_def)

lemma flow_finish_inv: "inv s \<Longrightarrow> flow_wf (fst s) \<Longrightarrow> inv (flow_finish sc s)"
  unfolding flow_finish_def by (intro resume_after_fin_gap_inv drain_pending_inv commit_always_inv)

lemma flow_reset_inv: "inv s \<Longrightarrow> inv (flow_reset sc s)"
  using I_reset by (auto simp: flow_reset_def clear_unanchored_def inv_def buffers_ok_def)

lemmas inv_intros =
  add_segment_inv anchor_sequence_inv service_gaps_inv mark_fin_inv flow_finish_inv flow_reset_inv

end

end
