(* ===== verification/Flow_Bounds.thy ===== *)
theory Flow_Bounds
  imports Flow_Invariant
begin

text \<open>
  Resource bounds, shutdown and liveness of \<^verbatim>\<open>TCPFlowState\<close>: both buffers stay within
  the two configured limits after every operation, a service call that is late enough
  releases everything that is parked, and \<^verbatim>\<open>finish\<close> leaves nothing buffered.
\<close>

section \<open>Both buffers stay within the limits\<close>

definition within_limits :: "nat \<Rightarrow> nat option \<Rightarrow> (int, pending_segment) dict \<Rightarrow> bool" where
  "within_limits m limit d \<longleftrightarrow> length d \<le> m \<and>
     (case limit of None \<Rightarrow> True | Some l \<Rightarrow> sum_list (map (\<lambda>p. length (seg_data (snd p))) d) \<le> l)"

lemma exceeded_iff:
  "pending_capacity_exceeded t d \<longleftrightarrow>
     \<not> within_limits (fs_max_pending_segments t) (fs_max_pending_bytes t) d"
  by (auto simp: pending_capacity_exceeded_def within_limits_def case_prod_unfold split: option.splits)

lemma within_limits_Nil [simp]: "within_limits m l []"
  by (simp add: within_limits_def split: option.splits)

lemma sum_list_filter_le: "sum_list (map f (filter P d)) \<le> (sum_list (map f d) :: nat)"
  by (induction d) auto

lemma within_limits_delete: "within_limits m l d \<Longrightarrow> within_limits m l (AList.delete k d)"
  using sum_list_filter_le [of "\<lambda>p. length (seg_data (snd p))" "\<lambda>p. k \<noteq> fst p" d]
  by (auto simp: within_limits_def AList.delete_eq case_prod_unfold split: option.splits
      intro: order_trans [OF length_filter_le])

text \<open>The limits of a flow never change; \<open>pending_bounded\<close> adds the bound on the pending buffer.\<close>

definition has_limits :: "nat \<Rightarrow> nat option \<Rightarrow> tcp_flow_state \<Rightarrow> bool" where
  "has_limits m l t \<longleftrightarrow> fs_max_pending_segments t = m \<and> fs_max_pending_bytes t = l \<and>
     within_limits m l (fs_unanchored t)"

definition bounded :: "nat \<Rightarrow> nat option \<Rightarrow> tcp_flow_state \<Rightarrow> bool" where
  "bounded m l t \<longleftrightarrow> has_limits m l t \<and> within_limits m l (fs_pending t)"

lemma deliver_limits [simp]:
  "has_limits m l (fst (deliver sc d c s)) = has_limits m l (fst s)"
  "bounded m l (fst (deliver sc d c s)) = bounded m l (fst s)"
  by (auto simp: deliver_def bounded_def has_limits_def split: option.splits)

lemma arm_gap_timer_limits [simp]:
  "has_limits m l (arm_gap_timer t) = has_limits m l t" "bounded m l (arm_gap_timer t) = bounded m l t"
  by (auto simp: arm_gap_timer_def bounded_def has_limits_def split: list.splits)

lemma flush_pending_step_limits:
  assumes "flush_pending_step sc s = Continue s'"
  shows "(has_limits m l (fst s) \<longrightarrow> has_limits m l (fst s')) \<and> (bounded m l (fst s) \<longrightarrow> bounded m l (fst s'))"
  using assms
  by (auto simp: flush_pending_step_def Let_def split: option.splits prod.splits if_splits)
    (auto simp: has_limits_def bounded_def within_limits_delete)

lemma flush_pending_limits:
  "(has_limits m l (fst s) \<longrightarrow> has_limits m l (fst (flush_pending sc s))) \<and>
   (bounded m l (fst s) \<longrightarrow> bounded m l (fst (flush_pending sc s)))"
proof (induction sc s rule: flush_pending.induct)
  case (1 sc s)
  show ?case
  proof (cases "flush_pending_step sc s")
    case (Continue s')
    then show ?thesis
      using "1.IH" [OF Continue] flush_pending_step_limits [OF Continue]
      by (simp add: flush_pending.simps [of sc s])
  next
    case (Return s')
    then show ?thesis
      using flush_pending_step_Return [OF Return] by (auto simp: flush_pending.simps [of sc s])
  qed
qed

lemma resume_after_gap_limits:
  "(has_limits m l (fst s) \<longrightarrow> has_limits m l (fst (resume_after_gap sc s))) \<and>
   (bounded m l (fst s) \<longrightarrow> bounded m l (fst (resume_after_gap sc s)))"
proof (cases "dict_min (fs_pending (fst s))")
  case (Some p)
  obtain k v where p: "p = (k, v)" by (cases p)
  let ?s = "deliver sc (seg_data v) (seg_context v)
      ((fst s)\<lparr>fs_pending := AList.delete k (fs_pending (fst s)), fs_next_sequence := Some k,
               fs_gap_started_at := None\<rparr>, gap_reset sc k (snd s))"
  have "(has_limits m l (fst s) \<longrightarrow> has_limits m l (fst ?s)) \<and> (bounded m l (fst s) \<longrightarrow> bounded m l (fst ?s))"
    unfolding deliver_limits by (auto simp: has_limits_def bounded_def within_limits_delete)
  then show ?thesis
    using flush_pending_limits [of m l ?s sc] Some p by (simp add: resume_after_gap_def)
qed (simp add: resume_after_gap_def)

lemma restore_capacity_bounded:
  "has_limits m l (fst s) \<Longrightarrow> bounded m l (fst (restore_capacity sc s))"
proof (induction sc s rule: restore_capacity.induct)
  case (1 sc s)
  then show ?case
    using resume_after_gap_limits [of m l s sc]
    by (subst restore_capacity.simps) (auto simp: bounded_def exceeded_iff has_limits_def)
qed

lemma resume_expired_gaps_bounded:
  "bounded m l (fst s) \<Longrightarrow> bounded m l (fst (snd (resume_expired_gaps sc now n s)))"
proof (induction sc now n s rule: resume_expired_gaps.induct)
  case (1 sc now n s)
  then show ?case
    using resume_after_gap_limits [of m l s sc] by (subst resume_expired_gaps.simps) auto
qed

lemma drain_pending_bounded: "bounded m l (fst s) \<Longrightarrow> bounded m l (fst (drain_pending sc s))"
proof (induction sc s rule: drain_pending.induct)
  case (1 sc s)
  then show ?case
    using resume_after_gap_limits [of m l s sc] by (subst drain_pending.simps) auto
qed

lemma start_fin_gap_timer_bounded [simp]:
  "bounded m l (start_fin_gap_timer_if_needed t) = bounded m l t"
  by (auto simp: start_fin_gap_timer_if_needed_def bounded_def has_limits_def split: option.splits)

lemma resume_after_fin_gap_bounded:
  "bounded m l (fst s) \<Longrightarrow> bounded m l (fst (snd (resume_after_fin_gap sc s)))"
  by (auto simp: resume_after_fin_gap_def Let_def bounded_def has_limits_def split: option.splits)

lemma service_gaps_with_bounded:
  assumes "bounded m l (fst s)" and "bounded m l (fst (commit s))"
  shows "bounded m l (fst (snd (service_gaps_with commit sc now s)))"
proof -
  have "bounded m l (fst (service_unanchored commit now s))"
    using assms by (auto simp: service_unanchored_def split: option.splits)
  then have "bounded m l (fst (snd (resume_expired_gaps sc now 0 (service_unanchored commit now s))))"
    by (rule resume_expired_gaps_bounded)
  then show ?thesis
    by (simp add: service_gaps_with_def service_fin_gap_def Let_def resume_after_fin_gap_bounded)
qed

lemma park_segment_bounded:
  assumes "bounded m l (fst s)" and "\<And>s. bounded m l (fst s) \<Longrightarrow> bounded m l (fst (commit s))"
  shows "bounded m l (fst (park_segment commit sc q p c s))"
proof -
  let ?t = "(fst s)\<lparr>fs_pending := keep_longest q \<lparr>seg_data = p, seg_context = c\<rparr> (fs_pending (fst s)),
              fs_gap_started_at := start_timer (ctx_timestamp c) (fs_gap_started_at (fst s))\<rparr>"
  have lim: "has_limits m l (fst (?t, snd s))"
    using assms(1) by (simp add: bounded_def has_limits_def)
  then have "\<not> pending_capacity_exceeded ?t (fs_pending ?t) \<Longrightarrow> bounded m l ?t"
    by (auto simp: exceeded_iff bounded_def has_limits_def)
  then show ?thesis
    using restore_capacity_bounded [OF lim] assms(2)
    by (auto simp: park_segment_def Let_def intro!: service_gaps_with_bounded)
qed

lemma add_anchored_segment_with_bounded:
  assumes "bounded m l (fst s)" and "\<And>s. bounded m l (fst s) \<Longrightarrow> bounded m l (fst (commit s))"
  shows "bounded m l (fst (add_anchored_segment_with commit sc b q p c s))"
  using assms flush_pending_limits [of m l "deliver sc d c s'" sc for d c s']
  by (auto simp: add_anchored_segment_with_def Let_def park_segment_bounded split: option.splits)

lemma commit_unanchored_bounded:
  assumes "within_limits m l (fs_pending (fst s))" "fs_max_pending_segments (fst s) = m"
    "fs_max_pending_bytes (fst s) = l" and "fs_unanchored (fst s) \<noteq> [] \<or> bounded m l (fst s)"
  shows "bounded m l (fst (commit_unanchored sc q s))"
proof (cases "ordered_unanchored (fst s)")
  case Nil
  then show ?thesis
    using assms by (simp add: commit_unanchored_eq) (simp add: ordered_unanchored_Nil)
next
  case (Cons p rest)
  have "bounded m l (fst (fold (replay_segment sc) (p # rest)
      ((clear_unanchored (fst s))\<lparr>fs_next_sequence := Some (case q of None \<Rightarrow> fst p | Some n \<Rightarrow> n)\<rparr>, snd s)))"
  proof (rule fold_invariant)
    show "bounded m l (fst (replay_segment sc y s))" if "bounded m l (fst s)" for y s
      using add_anchored_segment_with_bounded [OF that, of "\<lambda>s. s"] by (cases y) simp
  qed (use assms in \<open>simp add: bounded_def has_limits_def clear_unanchored_def\<close>)
  then show ?thesis
    unfolding commit_unanchored_eq Cons list.case .
qed

text \<open>The bound for each public operation.\<close>

lemma commit_keeps_bounded: "bounded m l (fst s) \<Longrightarrow> bounded m l (fst (commit_unanchored sc q s))"
  by (intro commit_unanchored_bounded) (auto simp: bounded_def has_limits_def)

lemma service_gaps_bounded:
  "bounded m l (fst s) \<Longrightarrow> bounded m l (fst (snd (service_gaps sc now s)))"
  unfolding service_gaps_def
  by (intro service_gaps_with_bounded commit_keeps_bounded)

lemma add_segment_bounded:
  assumes "bounded m l (fst s)"
  shows "bounded m l (fst (add_segment sc q p c s))"
proof -
  have anchored: "bounded m l (fst (add_anchored_segment sc b q p c s))" for b
    unfolding add_anchored_segment_def using assms commit_keeps_bounded by (rule add_anchored_segment_with_bounded)
  let ?t = "(fst s)\<lparr>fs_unanchored := keep_longest (q AND 0xFFFFFFFF)
              \<lparr>seg_data = p, seg_context = c\<rparr> (fs_unanchored (fst s)),
            fs_unanchored_started_at :=
              start_timer (ctx_timestamp c) (fs_unanchored_started_at (fst s))\<rparr>"
  have "bounded m l (fst (commit_unanchored sc q' (?t, snd s)))" for q'
    using assms by (intro commit_unanchored_bounded) (auto simp: bounded_def has_limits_def)
  moreover have "\<not> pending_capacity_exceeded ?t (fs_unanchored ?t) \<Longrightarrow> bounded m l ?t"
    using assms by (auto simp: exceeded_iff bounded_def has_limits_def)
  ultimately have "bounded m l (fst (add_unanchored_segment sc q p c s))"
    by (simp add: add_unanchored_segment_def Let_def split: prod.splits)
  with assms anchored show ?thesis
    by (simp add: add_segment_def)
qed

lemma anchor_sequence_bounded:
  "bounded m l (fst s) \<Longrightarrow> bounded m l (fst (anchor_sequence sc q s))"
  by (auto simp: anchor_sequence_def commit_keeps_bounded) (simp add: bounded_def has_limits_def)

lemma mark_fin_bounded: "bounded m l t \<Longrightarrow> bounded m l (mark_fin q ts t)"
  by (simp add: mark_fin_def) (simp add: bounded_def has_limits_def)

lemma flow_finish_bounded: "bounded m l (fst s) \<Longrightarrow> bounded m l (fst (flow_finish sc s))"
  unfolding flow_finish_def
  by (intro resume_after_fin_gap_bounded drain_pending_bounded commit_keeps_bounded)

lemma flow_reset_bounded: "bounded m l (fst s) \<Longrightarrow> bounded m l (fst (flow_reset sc s))"
  by (simp add: flow_reset_def clear_unanchored_def bounded_def has_limits_def)

lemma new_flow_bounded: "bounded m l (new_tcp_flow_state m l b g)"
  by (simp add: new_tcp_flow_state_def bounded_def has_limits_def)

lemmas bounded_intros = new_flow_bounded add_segment_bounded service_gaps_bounded
  anchor_sequence_bounded mark_fin_bounded flow_finish_bounded flow_reset_bounded

section \<open>Nothing stays parked forever\<close>

text \<open>\<open>all_expired now t\<close>: at \<open>now\<close>, the gap timer and every parked segment are old enough.\<close>

definition expired :: "pyfloat \<Rightarrow> pyfloat \<Rightarrow> bool" where
  "expired now since \<longleftrightarrow> now - since \<ge> GAP_RESET_SECONDS"

definition all_expired :: "pyfloat \<Rightarrow> tcp_flow_state \<Rightarrow> bool" where
  "all_expired now t \<longleftrightarrow>
     (\<forall>g. fs_gap_started_at t = Some g \<longrightarrow> expired now g) \<and>
     (\<forall>p \<in> set (fs_pending t). expired now (ctx_timestamp (seg_context (snd p))))"

lemma py_min_in: "py_min m xs \<in> insert m (set xs)"
proof (induction xs arbitrary: m)
  case (Cons a xs)
  then show ?case
    using Cons.IH [of "if a < m then a else m"] by (auto split: if_splits)
qed simp

lemma arm_gap_timer_expired: "all_expired now t \<Longrightarrow> all_expired now (arm_gap_timer t)"
proof -
  assume t: "all_expired now t"
  have "expired now (py_min ts tss)"
    if "map (\<lambda>(_, p). ctx_timestamp (seg_context p)) (fs_pending t) = ts # tss" for ts tss
  proof -
    have "py_min ts tss \<in> (\<lambda>(_, p). ctx_timestamp (seg_context p)) ` set (fs_pending t)"
      using py_min_in [of ts tss] that by (metis list.set_map list.simps(15))
    then show ?thesis
      using t by (auto simp: all_expired_def)
  qed
  then show ?thesis
    using t by (auto simp: arm_gap_timer_def all_expired_def split: list.splits)
qed

lemma deliver_expired: "all_expired now (fst s) \<Longrightarrow> all_expired now (fst (deliver sc d c s))"
  by (auto simp: deliver_def all_expired_def split: option.splits)

lemma flush_pending_expired: "all_expired now (fst s) \<Longrightarrow> all_expired now (fst (flush_pending sc s))"
proof (induction sc s rule: flush_pending.induct)
  case (1 sc s)
  show ?case
  proof (cases "flush_pending_step sc s")
    case (Continue s')
    have "all_expired now ((fst s)\<lparr>fs_pending := AList.delete k (fs_pending (fst s))\<rparr>)" for k
      using "1.prems" by (auto simp: all_expired_def set_delete)
    then have "all_expired now (fst s')"
      using Continue deliver_expired
      by (fastforce simp: flush_pending_step_def Let_def split: option.splits prod.splits if_splits)
    then show ?thesis
      using "1.IH" [OF Continue] Continue by (simp add: flush_pending.simps [of sc s])
  next
    case (Return s')
    then show ?thesis
      using flush_pending_step_Return [OF Return] "1.prems" arm_gap_timer_expired
      by (auto simp: flush_pending.simps [of sc s])
  qed
qed

lemma resume_after_gap_expired:
  assumes "all_expired now (fst s)"
  shows "all_expired now (fst (resume_after_gap sc s))"
proof (cases "dict_min (fs_pending (fst s))")
  case (Some p)
  obtain k v where p: "p = (k, v)" by (cases p)
  have "all_expired now (fst ((fst s)\<lparr>fs_pending := AList.delete k (fs_pending (fst s)),
      fs_next_sequence := Some k, fs_gap_started_at := None\<rparr>, gap_reset sc k (snd s)))"
    using assms by (auto simp: all_expired_def set_delete)
  then show ?thesis
    using Some p by (simp add: resume_after_gap_def flush_pending_expired deliver_expired)
qed (use assms in \<open>simp add: resume_after_gap_def\<close>)

lemma resume_expired_gaps_drains:
  "all_expired now (fst s) \<Longrightarrow> flow_wf (fst s) \<Longrightarrow>
     fs_pending (fst (snd (resume_expired_gaps sc now n s))) = []"
proof (induction sc now n s rule: resume_expired_gaps.induct)
  case (1 sc now n s)
  show ?case
  proof (cases "fs_pending (fst s) = []")
    case True
    then show ?thesis by (simp add: resume_expired_gaps.simps)
  next
    case False
    then have "gap_expired now (fst s)"
      using "1.prems" by (auto simp: gap_expired_def flow_wf_def all_expired_def expired_def)
    with False "1.IH" show ?thesis
      using resume_after_gap_expired [OF "1.prems"(1)] resume_after_gap_wf [OF "1.prems"(2)]
      by (simp add: resume_expired_gaps.simps [of sc now n s])
  qed
qed

lemma resume_after_fin_gap_fields [simp]:
  "fs_pending (fst (snd (resume_after_fin_gap sc s))) = fs_pending (fst s)"
  "fs_unanchored (fst (snd (resume_after_fin_gap sc s))) = fs_unanchored (fst s)"
  "fs_fin_sequence (fst (snd (resume_after_fin_gap sc s))) = fs_fin_sequence (fst s)"
  by (auto simp: resume_after_fin_gap_def Let_def split: option.splits)

lemma service_gaps_releases:
  assumes "flow_wf (fst s)" and "fs_unanchored (fst s) = []" and "all_expired now (fst s)"
  shows "fs_pending (fst (snd (service_gaps sc now s))) = []"
proof -
  have "service_unanchored commit now s = s" for commit
    using assms(2) by (simp add: service_unanchored_def split: option.split)
  then show ?thesis
    using resume_expired_gaps_drains [OF assms(3,1)]
    by (simp add: service_gaps_def service_gaps_with_def service_fin_gap_def Let_def)
qed

section \<open>Shutdown\<close>

lemma unwrap_unwrap: "unwrap_tcp_sequence q (unwrap_tcp_sequence q n) = unwrap_tcp_sequence q n"
proof -
  let ?u = "unwrap_tcp_sequence q n"
  have "?u mod 2 ^ 32 = q mod 2 ^ 32"
    by (rule unwrap_mod)
  then have "?u div 2 ^ 32 * 2 ^ 32 + q mod 2 ^ 32 = ?u"
    by (metis div_mult_mod_eq)
  then show ?thesis
    by (simp only: unwrap_tcp_sequence_eq [of q ?u] Let_def) simp
qed

lemma flush_pending_unanchored [simp]: "fs_unanchored (fst (flush_pending sc s)) = fs_unanchored (fst s)"
proof (induction sc s rule: flush_pending.induct)
  case (1 sc s)
  show ?case
  proof (cases "flush_pending_step sc s")
    case (Continue s')
    then have "fs_unanchored (fst s') = fs_unanchored (fst s)"
      by (auto simp: flush_pending_step_def Let_def split: option.splits prod.splits if_splits)
    then show ?thesis
      using "1.IH" [OF Continue] Continue by (simp add: flush_pending.simps [of sc s])
  next
    case (Return s')
    then show ?thesis
      using flush_pending_step_Return [OF Return] by (auto simp: flush_pending.simps [of sc s])
  qed
qed

lemma drain_pending_unanchored [simp]: "fs_unanchored (fst (drain_pending sc s)) = fs_unanchored (fst s)"
proof (induction sc s rule: drain_pending.induct)
  case (1 sc s)
  have "fs_unanchored (fst (resume_after_gap sc s)) = fs_unanchored (fst s)"
    by (auto simp: resume_after_gap_def split: option.splits)
  then show ?case
    using "1.IH" by (subst drain_pending.simps) auto
qed

lemma commit_unanchored_empties:
  assumes "flow_wf (fst s)"
  shows "fs_unanchored (fst (commit_unanchored sc q s)) = []"
proof (cases "ordered_unanchored (fst s)")
  case Nil
  then show ?thesis by (simp add: commit_unanchored_eq) (simp add: ordered_unanchored_Nil)
next
  case (Cons p rest)
  let ?s = "((clear_unanchored (fst s))
     \<lparr>fs_next_sequence := Some (case q of None \<Rightarrow> fst p | Some n \<Rightarrow> n)\<rparr>, snd s)"
  have "fs_unanchored (fst s) \<noteq> []"
    using Cons ordered_unanchored_Nil [of "fst s"] by simp
  then have "fs_next_sequence (fst s) = None"
    by (rule flow_wf_unanchored [OF assms])
  then have "flow_wf (fst ?s)" "fs_next_sequence (fst ?s) \<noteq> None"
    using assms by (auto simp: flow_wf_def flow_wf0_def clear_unanchored_def)
  note replay_segments_wf [OF this, of sc "p # rest"]
  then have "fs_unanchored (fst (fold (replay_segment sc) (p # rest) ?s)) = []"
    by (auto simp only: flow_wf_def flow_wf0_def)
  then show ?thesis
    unfolding commit_unanchored_eq Cons list.case .
qed

lemma flow_finish_complete:
  assumes "flow_wf (fst s)"
  shows "fs_pending (fst (flow_finish sc s)) = [] \<and> fs_unanchored (fst (flow_finish sc s)) = [] \<and>
    (fs_fin_sequence (fst (flow_finish sc s)) \<noteq> None \<and> fs_next_sequence (fst (flow_finish sc s)) \<noteq> None
       \<longrightarrow> fin_is_reassembled (fst (flow_finish sc s)))"
proof -
  let ?s = "drain_pending sc (commit_unanchored sc None s)"
  have "fs_pending (fst ?s) = []" "fs_unanchored (fst ?s) = []"
    using assms by (simp_all add: drain_pending_empty commit_unanchored_empties)
  then show ?thesis
    by (auto simp: flow_finish_def fin_is_reassembled_def resume_after_fin_gap_def Let_def unwrap_unwrap
        split: option.splits)
qed

end
