(* ===== verification/Stream_Delivery.thy ===== *)
theory Stream_Delivery
  imports Flow_Contract Flow_Bounds
begin

text \<open>
  What the reassembly promises its scanner, as theorems over whole executions of
  \<open>TCPFlowState\<close>.

  The scanner of these theorems is \<open>trace_scanner\<close>, which records the calls it gets.
  The peer's byte stream is a function \<open>S\<close> from 32-bit sequence numbers to bytes, one for
  each connection (four-tuple and generation). A segment \<open>agrees\<close> with \<open>S\<close> when it
  carries \<open>S\<close>'s bytes at its sequence number; \<open>stream_cursor\<close> replays a recorded trace and
  fails on the first call a correct reassembly would not make: bytes that are not the
  stream's, or a delivery that does not start where the previous one ended.
\<close>

section \<open>Traces and streams\<close>

datatype scan_event =
    Fed bytes packet_context
  | Rescanned bytes packet_context
  | ScannerReset
  | GapCallback int

definition trace_scanner :: "(bytes \<Rightarrow> bool) option \<Rightarrow> scan_event list stream_scanner" where
  "trace_scanner can_anchor =
     \<lparr>sc_feed = (\<lambda>d c tr. tr @ [Fed d c]), sc_scan_standalone = (\<lambda>d c tr. tr @ [Rescanned d c]),
      sc_reset = (\<lambda>tr. tr @ [ScannerReset]), sc_can_anchor_at_start = can_anchor,
      sc_on_gap_reset = Some (\<lambda>s tr. tr @ [GapCallback s])\<rparr>"

type_synonym streams = "flow_key \<times> int \<Rightarrow> int \<Rightarrow> byte"

definition stream_slice :: "(int \<Rightarrow> byte) \<Rightarrow> int \<Rightarrow> nat \<Rightarrow> bytes" where
  "stream_slice f s n = map (\<lambda>i. f ((s + int i) mod TCP_SEQUENCE_MODULUS)) [0..<n]"

definition connection :: "packet_context \<Rightarrow> flow_key \<times> int" where
  "connection c = (ctx_flow c, ctx_flow_generation c)"

definition agrees :: "streams \<Rightarrow> int \<Rightarrow> bytes \<Rightarrow> packet_context \<Rightarrow> bool" where
  "agrees S s d c \<longleftrightarrow> d = stream_slice (S (connection c)) s (length d)"

fun stream_cursor :: "streams \<Rightarrow> int option \<Rightarrow> scan_event list \<Rightarrow> int option option" where
  "stream_cursor S cursor [] = Some cursor"
| "stream_cursor S cursor (Fed d c # tr) =
     (case ctx_stream_start c of
        None \<Rightarrow> None
      | Some n \<Rightarrow> if (cursor = None \<or> cursor = Some n) \<and> agrees S n d c
                  then stream_cursor S (Some (n + int (length d))) tr else None)"
| "stream_cursor S cursor (Rescanned d c # tr) =
     (case ctx_stream_start c of
        None \<Rightarrow> None
      | Some s \<Rightarrow> if (case cursor of None \<Rightarrow> True | Some n \<Rightarrow> s + int (length d) \<le> n) \<and> agrees S s d c
                  then stream_cursor S cursor tr else None)"
| "stream_cursor S cursor (ScannerReset # tr) = stream_cursor S None tr"
| "stream_cursor S cursor (GapCallback s # tr) = stream_cursor S (Some s) tr"

section \<open>Executions\<close>

datatype flow_op =
    AddSegment int bytes packet_context
  | AnchorSequence int
  | MarkFin int pyfloat
  | ServiceGaps pyfloat
  | FinishFlow
  | ResetFlow

fun run_op :: "'x stream_scanner \<Rightarrow> flow_op \<Rightarrow> 'x flow \<Rightarrow> 'x flow" where
  "run_op sc (AddSegment q d c) s = add_segment sc q d c s"
| "run_op sc (AnchorSequence q) s = anchor_sequence sc q s"
| "run_op sc (MarkFin q ts) s = (mark_fin q ts (fst s), snd s)"
| "run_op sc (ServiceGaps now) s = snd (service_gaps sc now s)"
| "run_op sc FinishFlow s = flow_finish sc s"
| "run_op sc ResetFlow s = flow_reset sc s"

text \<open>Every segment of an execution is credible.\<close>

fun op_ok :: "(int \<Rightarrow> bytes \<Rightarrow> packet_context \<Rightarrow> bool) \<Rightarrow> flow_op \<Rightarrow> bool" where
  "op_ok ok (AddSegment q d c) = ok q d c"
| "op_ok ok _ = True"

definition run_ops :: "'x stream_scanner \<Rightarrow> flow_op list \<Rightarrow> 'x flow \<Rightarrow> 'x flow" where
  "run_ops sc ops = fold (run_op sc) ops"

lemma run_op_wf: "flow_wf (fst s) \<Longrightarrow> flow_wf (fst (run_op sc op s))"
  by (cases op) (auto intro: flow_wf_intros)

lemma run_ops_wf: "flow_wf (fst s) \<Longrightarrow> flow_wf (fst (run_ops sc ops s))"
  unfolding run_ops_def by (rule fold_invariant) (auto intro: run_op_wf)

context flow_contract begin

lemma run_op_inv: "inv s \<Longrightarrow> flow_wf (fst s) \<Longrightarrow> op_ok ok op \<Longrightarrow> inv (run_op sc op s)"
  by (cases op) (auto intro: inv_intros)

lemma run_ops_inv:
  assumes "I None x" and "\<forall>op \<in> set ops. op_ok ok op"
  shows "inv (run_ops sc ops (new_tcp_flow_state max_segments max_bytes defer gen, x))"
proof -
  let ?start = "(new_tcp_flow_state max_segments max_bytes defer gen, x)"
  have "inv (fold (run_op sc) ops ?start) \<and> flow_wf (fst (fold (run_op sc) ops ?start))"
  proof (rule fold_invariant)
    show "inv ?start \<and> flow_wf (fst ?start)"
      using assms(1) by (simp add: new_flow_wf inv_def) (simp add: new_tcp_flow_state_def buffers_ok_def)
    show "inv (run_op sc op s) \<and> flow_wf (fst (run_op sc op s))"
      if "op \<in> set ops" "inv s \<and> flow_wf (fst s)" for op s
      using that assms(2) run_op_inv run_op_wf by blast
  qed
  then show ?thesis
    by (simp add: run_ops_def)
qed

end

section \<open>Agreement with the stream\<close>

lemma agrees_nth:
  "agrees S s d c \<longleftrightarrow> (\<forall>i < length d. d ! i =
     S (connection c) ((s + int i) mod TCP_SEQUENCE_MODULUS))"
  unfolding agrees_def stream_slice_def by (subst list_eq_iff_nth_eq) simp

lemma agrees_drop: "agrees S s d c \<Longrightarrow> k \<le> length d \<Longrightarrow> agrees S (s + int k) (drop k d) c"
  by (simp add: agrees_nth add.assoc)

lemma agrees_take: "agrees S s d c \<Longrightarrow> agrees S s (take k d) c"
  by (simp add: agrees_nth)

lemma agrees_mod:
  "agrees S s d c \<Longrightarrow> s' mod TCP_SEQUENCE_MODULUS = s mod TCP_SEQUENCE_MODULUS \<Longrightarrow> agrees S s' d c"
  by (simp add: agrees_nth) (metis mod_add_left_eq)

lemma agrees_start [simp]: "agrees S s d (c\<lparr>ctx_stream_start := n\<rparr>) = agrees S s d c"
  by (simp add: agrees_nth connection_def)

lemma stream_cursor_append:
  "stream_cursor S cursor (tr @ tr') =
     (case stream_cursor S cursor tr of None \<Rightarrow> None | Some cursor' \<Rightarrow> stream_cursor S cursor' tr')"
  by (induction S cursor tr rule: stream_cursor.induct) (auto split: option.splits)

text \<open>The trace is correct, and its cursor, once known, is the next expected byte.\<close>

definition trace_ok :: "streams \<Rightarrow> int option \<Rightarrow> scan_event list \<Rightarrow> bool" where
  "trace_ok S ns tr \<longleftrightarrow>
     stream_cursor S None tr = Some None \<or> (ns \<noteq> None \<and> stream_cursor S None tr = Some ns)"

interpretation trace: flow_contract "trace_scanner can_anchor" "agrees S" "trace_ok S"
proof
  show "agrees S (s + int k) (drop k d) c" if "agrees S s d c" "k \<le> length d" for s d c k
    using that by (rule agrees_drop)
  show "agrees S s (take k d) c" if "agrees S s d c" for s d c k
    using that by (rule agrees_take)
  show "agrees S s' d c" if "agrees S s d c" "s' mod TCP_SEQUENCE_MODULUS = s mod TCP_SEQUENCE_MODULUS"
    for s d c s'
    using that by (rule agrees_mod)
qed (auto simp: trace_ok_def trace_scanner_def gap_reset_def stream_cursor_append)

section \<open>Nothing is lost: arrival order does not matter\<close>

text \<open>
  \<open>covers t p\<close>: the byte at the absolute sequence \<open>p\<close> has been delivered or is parked.
\<close>

definition covers :: "tcp_flow_state \<Rightarrow> int \<Rightarrow> bool" where
  "covers t p \<longleftrightarrow> (\<exists>n. fs_next_sequence t = Some n \<and> p < n) \<or>
     (\<exists>e \<in> set (fs_pending t). fst e \<le> p \<and> p < fst e + int (length (seg_data (snd e))))"

definition ends_by :: "int \<Rightarrow> tcp_flow_state \<Rightarrow> bool" where
  "ends_by b t \<longleftrightarrow> (\<forall>n. fs_next_sequence t = Some n \<longrightarrow> n \<le> b) \<and>
     (\<forall>e \<in> set (fs_pending t). fst e + int (length (seg_data (snd e))) \<le> b)"

lemma flush_pending_step_Continue:
  assumes "flush_pending_step sc s = Continue s'"
  obtains n k v where "fs_next_sequence (fst s) = Some n" "dict_min (fs_pending (fst s)) = Some (k, v)"
    "fs_pending (fst s') = AList.delete k (fs_pending (fst s))"
    "fs_next_sequence (fst s') = Some (max n (k + int (length (seg_data v))))"
proof -
  obtain n k v where n: "fs_next_sequence (fst s) = Some n" and kv: "dict_min (fs_pending (fst s)) = Some (k, v)"
    and le: "k \<le> n"
    using assms by (auto simp: flush_pending_step_def Let_def split: option.splits prod.splits if_splits)
  then have "fs_pending (fst s') = AList.delete k (fs_pending (fst s))"
    "fs_next_sequence (fst s') = Some (max n (k + int (length (seg_data v))))"
    using assms by (auto simp: flush_pending_step_def Let_def deliver_def max_def of_nat_diff split: if_splits)
  with n kv show thesis
    by (rule that)
qed

lemma flush_pending_step_covers:
  assumes "flow_wf0 (fst s)" and "flush_pending_step sc s = Continue s'"
  shows "(covers (fst s) p \<longrightarrow> covers (fst s') p) \<and> (ends_by b (fst s) \<longrightarrow> ends_by b (fst s')) \<and>
    the (fs_next_sequence (fst s)) \<le> the (fs_next_sequence (fst s'))"
proof -
  obtain n k v where n: "fs_next_sequence (fst s) = Some n" and kv: "dict_min (fs_pending (fst s)) = Some (k, v)"
    and s': "fs_pending (fst s') = AList.delete k (fs_pending (fst s))"
      "fs_next_sequence (fst s') = Some (max n (k + int (length (seg_data v))))"
    using assms(2) by (rule flush_pending_step_Continue)
  have kv_in: "(k, v) \<in> set (fs_pending (fst s))"
    using kv by (rule dict_min_in)
  have only: "snd e = v" if "e \<in> set (fs_pending (fst s))" "fst e = k" for e
    using assms(1) that kv_in by (cases e) (auto simp: flow_wf0_def dest: eq_key_imp_eq_value)
  have "covers (fst s') p" if cov: "covers (fst s) p"
  proof (cases "p < n")
    case True
    then show ?thesis by (auto simp: covers_def s' less_max_iff_disj)
  next
    case False
    then obtain a g where e: "(a, g) \<in> set (fs_pending (fst s))" "a \<le> p" "p < a + int (length (seg_data g))"
      using cov n by (auto simp: covers_def)
    show ?thesis
    proof (cases "a = k")
      case True
      then have "g = v"
        using only [OF e(1)] by simp
      then show ?thesis
        using True e by (auto simp: covers_def s' less_max_iff_disj)
    next
      case False
      then show ?thesis
        using e by (auto simp: covers_def s' set_delete)
    qed
  qed
  moreover have "ends_by b (fst s')" if "ends_by b (fst s)"
    using that n kv_in by (auto simp: ends_by_def s' set_delete)
  ultimately show ?thesis
    by (simp add: s' n)
qed

lemma flush_pending_covers:
  "flow_wf0 (fst s) \<Longrightarrow>
    (covers (fst s) p \<longrightarrow> covers (fst (flush_pending sc s)) p) \<and>
    (ends_by b (fst s) \<longrightarrow> ends_by b (fst (flush_pending sc s))) \<and>
    the (fs_next_sequence (fst s)) \<le> the (fs_next_sequence (fst (flush_pending sc s)))"
proof (induction sc s rule: flush_pending.induct)
  case (1 sc s)
  show ?case
  proof (cases "flush_pending_step sc s")
    case (Continue s')
    then show ?thesis
      using "1.IH" [OF Continue] flush_pending_step_wf0 [OF "1.prems" Continue]
        flush_pending_step_covers [OF "1.prems" Continue, of p b]
      by (simp add: flush_pending.simps [of sc s])
  next
    case (Return s')
    then show ?thesis
      using flush_pending_step_Return [OF Return]
      by (auto simp: flush_pending.simps [of sc s] covers_def ends_by_def)
  qed
qed

text \<open>
  The bytes fed so far, when the scanner was never reset, are the stream from its origin to
  the next expected byte.
\<close>

fun fed_bytes :: "scan_event list \<Rightarrow> bytes" where
  "fed_bytes [] = []"
| "fed_bytes (Fed d c # tr) = d @ fed_bytes tr"
| "fed_bytes (_ # tr) = fed_bytes tr"

fun never_reset :: "scan_event list \<Rightarrow> bool" where
  "never_reset [] = True"
| "never_reset (ScannerReset # tr) = False"
| "never_reset (_ # tr) = never_reset tr"

lemma fed_bytes_append [simp]: "fed_bytes (tr @ tr') = fed_bytes tr @ fed_bytes tr'"
  by (induction tr rule: fed_bytes.induct) auto

lemma never_reset_append [simp]: "never_reset (tr @ tr') \<longleftrightarrow> never_reset tr \<and> never_reset tr'"
  by (induction tr rule: never_reset.induct) auto

lemma stream_slice_append:
  "stream_slice f s m @ stream_slice f (s + int m) n = stream_slice f s (m + n)"
  by (rule nth_equalityI) (auto simp: stream_slice_def nth_append of_nat_diff)

definition agrees_on :: "flow_key \<times> int \<Rightarrow> (int \<Rightarrow> byte) \<Rightarrow> int \<Rightarrow> bytes \<Rightarrow> packet_context \<Rightarrow> bool" where
  "agrees_on key f s d c \<longleftrightarrow> connection c = key \<and> agrees (\<lambda>_. f) s d c"

definition fed_prefix :: "(int \<Rightarrow> byte) \<Rightarrow> int \<Rightarrow> int option \<Rightarrow> scan_event list \<Rightarrow> bool" where
  "fed_prefix f origin ns tr \<longleftrightarrow> never_reset tr \<and>
     (\<exists>n. ns = Some n \<and> origin \<le> n \<and> fed_bytes tr = stream_slice f origin (nat (n - origin)))"

interpretation prefix: feed_contract "trace_scanner can_anchor" "agrees_on key f" "fed_prefix f origin"
proof
  show "agrees_on key f (s + int k) (drop k d) c" if "agrees_on key f s d c" "k \<le> length d" for s d c k
    using that by (simp add: agrees_on_def agrees_drop)
  fix n x d c
  assume x: "fed_prefix f origin (Some n) x" and "agrees_on key f n d c"
  then have d: "d = stream_slice f n (length d)"
    by (simp only: agrees_on_def agrees_def)
  from x have n: "origin \<le> n" "fed_bytes x = stream_slice f origin (nat (n - origin))"
    by (simp_all add: fed_prefix_def)
  have "fed_bytes x @ d = stream_slice f origin (nat (n - origin) + length d)"
    using stream_slice_append [of f origin "nat (n - origin)" "length d"] n d by simp
  moreover have "nat (n + int (length d) - origin) = nat (n - origin) + length d"
    using n by simp
  ultimately show "fed_prefix f origin (Some (n + int (length d)))
      (sc_feed (trace_scanner can_anchor) d (c\<lparr>ctx_stream_start := Some n\<rparr>) x)"
    using x n by (simp add: fed_prefix_def trace_scanner_def)
qed

section \<open>One segment of a deferred flow\<close>

text \<open>
  What \<open>_add_anchored_segment\<close> does when the segment's absolute sequence \<open>a\<close> is within
  half the sequence space of the next byte and parking it would exceed no limit.
\<close>

definition longer_segment :: "pending_segment \<Rightarrow> pending_segment option \<Rightarrow> pending_segment" where
  "longer_segment x previous =
     (case previous of None \<Rightarrow> x | Some g \<Rightarrow> if length (seg_data x) > length (seg_data g) then x else g)"

lemma map_of_keep_longest:
  "map_of (keep_longest q x d) = (map_of d)(q \<mapsto> longer_segment x (map_of d q))"
  by (auto simp: keep_longest_def longer_segment_def update_conv' fun_eq_iff split: option.splits)

lemma keep_longest_covers:
  assumes "covers t p \<or> q \<le> p \<and> p < q + int (length (seg_data x))"
    and "fs_pending t' = keep_longest q x (fs_pending t)"
    and "fs_next_sequence t' = fs_next_sequence t" and d: "distinct (map fst (fs_pending t))"
  shows "covers t' p"
proof -
  have parked: "covers t' p" if "map_of (fs_pending t') a = Some g" "a \<le> p" "p < a + int (length (seg_data g))" for a g
    unfolding covers_def using map_of_SomeD [OF that(1)] that by (intro disjI2 bexI [of _ "(a, g)"]) auto
  consider n where "fs_next_sequence t = Some n" "p < n"
    | a g where "map_of (fs_pending t) a = Some g" "a \<le> p" "p < a + int (length (seg_data g))"
    | "q \<le> p" "p < q + int (length (seg_data x))"
    using assms(1) d by (auto simp: covers_def)
  then show ?thesis
  proof cases
    case 1
    then show ?thesis using assms(3) by (simp add: covers_def)
  next
    case 2
    show ?thesis
    proof (cases "a = q")
      case True
      then show ?thesis
        using 2 by (intro parked [of q "longer_segment x (Some g)"])
          (auto simp: assms(2) map_of_keep_longest longer_segment_def)
    next
      case False
      then show ?thesis
        using 2 by (intro parked [of a g]) (auto simp: assms(2) map_of_keep_longest)
    qed
  next
    case 3
    then show ?thesis
      by (intro parked [of q "longer_segment x (map_of (fs_pending t) q)"])
        (auto simp: assms(2) map_of_keep_longest longer_segment_def split: option.split)
  qed
qed

lemma keep_longest_within:
  assumes "ends_by b t" and "q + int (length (seg_data x)) \<le> b"
    and "fs_pending t' = keep_longest q x (fs_pending t)" and "fs_next_sequence t' = fs_next_sequence t"
  shows "ends_by b t'"
  using assms set_keep_longest [of q x "fs_pending t"] by (auto simp: ends_by_def)

lemma keep_longest_size:
  "length (keep_longest q x d) \<le> Suc (length d)"
  "sum_list (map (\<lambda>p. length (seg_data (snd p))) (keep_longest q x d))
     \<le> length (seg_data x) + sum_list (map (\<lambda>p. length (seg_data (snd p))) d)"
proof -
  have "sum_list (map (\<lambda>p. length (seg_data (snd p))) (AList.update q x d))
     \<le> length (seg_data x) + sum_list (map (\<lambda>p. length (seg_data (snd p))) d)"
    by (induction d) auto
  then show "sum_list (map (\<lambda>p. length (seg_data (snd p))) (keep_longest q x d))
     \<le> length (seg_data x) + sum_list (map (\<lambda>p. length (seg_data (snd p))) d)"
    by (auto simp: keep_longest_def split: option.split)
  show "length (keep_longest q x d) \<le> Suc (length d)"
    by (auto simp: keep_longest_def length_update split: option.split)
qed

text \<open>Limits that \<open>k\<close> more segments with \<open>b\<close> more bytes cannot exceed.\<close>

definition has_room :: "nat \<Rightarrow> nat \<Rightarrow> tcp_flow_state \<Rightarrow> bool" where
  "has_room k b t \<longleftrightarrow> length (fs_pending t) + k \<le> fs_max_pending_segments t \<and>
     (\<forall>l. fs_max_pending_bytes t = Some l \<longrightarrow>
        sum_list (map (\<lambda>p. length (seg_data (snd p))) (fs_pending t)) + b \<le> l)"

lemma has_room_delete:
  assumes "has_room k b t"
  shows "has_room k b (t\<lparr>fs_pending := AList.delete q (fs_pending t)\<rparr>)"
proof -
  have "sum_list (map (\<lambda>p. length (seg_data (snd p))) (AList.delete q (fs_pending t)))
      \<le> sum_list (map (\<lambda>p. length (seg_data (snd p))) (fs_pending t))"
    unfolding AList.delete_eq by (rule sum_list_filter_le)
  moreover have "length (AList.delete q (fs_pending t)) \<le> length (fs_pending t)"
    by (rule length_delete_le)
  ultimately show ?thesis
    using assms unfolding has_room_def by (auto intro: order_trans [OF add_right_mono])
qed

lemma flush_pending_has_room:
  "has_room k b (fst s) \<and> fs_defer_gap_timeouts (fst s) \<Longrightarrow>
     has_room k b (fst (flush_pending sc s)) \<and> fs_defer_gap_timeouts (fst (flush_pending sc s))"
proof (induction sc s rule: flush_pending.induct)
  case (1 sc s)
  show ?case
  proof (cases "flush_pending_step sc s")
    case (Continue s')
    have "has_room k b ((fst s)\<lparr>fs_pending := AList.delete q (fs_pending (fst s))\<rparr>)" for q
      using "1.prems" by (intro has_room_delete) simp
    then have "has_room k b (fst s') \<and> fs_defer_gap_timeouts (fst s')"
      using Continue "1.prems"
      by (auto simp: flush_pending_step_def Let_def deliver_def has_room_def split: option.splits prod.splits if_splits)
    then show ?thesis
      using "1.IH" [OF Continue] Continue by (simp add: flush_pending.simps [of sc s])
  next
    case (Return s')
    then show ?thesis
      using flush_pending_step_Return [OF Return] "1.prems"
      by (auto simp: flush_pending.simps [of sc s] arm_gap_timer_def has_room_def split: list.splits)
  qed
qed

text \<open>The invariant of the run: \<open>seen\<close> are the positions of the segments already added.\<close>

definition run_inv ::
    "flow_key \<times> int \<Rightarrow> (int \<Rightarrow> byte) \<Rightarrow> int \<Rightarrow> int \<Rightarrow> nat \<Rightarrow> nat \<Rightarrow> int set \<Rightarrow> scan_event list flow \<Rightarrow> bool" where
  "run_inv key f origin b k sz seen s \<longleftrightarrow>
     flow_wf0 (fst s) \<and> prefix.inv key f origin s \<and> ends_by b (fst s) \<and>
     has_room k sz (fst s) \<and> fs_defer_gap_timeouts (fst s) \<and>
     (\<forall>p \<in> seen. origin \<le> p \<longrightarrow> covers (fst s) p)"

lemma run_inv_step:
  assumes "run_inv key f origin b k sz seen s" and "flow_wf0 (fst s')" and "prefix.inv key f origin s'"
    and "ends_by b (fst s')" and "has_room k' sz' (fst s')" and "fs_defer_gap_timeouts (fst s')"
    and "\<And>p. covers (fst s) p \<or> a \<le> p \<and> p < e \<Longrightarrow> covers (fst s') p"
  shows "run_inv key f origin b k' sz' ({a..<e} \<union> seen) s'"
proof -
  from assms(1) have "\<forall>p \<in> seen. origin \<le> p \<longrightarrow> covers (fst s) p"
    by (simp add: run_inv_def)
  then show ?thesis
    unfolding run_inv_def by (intro conjI ballI impI assms(2-7)) auto
qed

lemma flush_pending_run_inv:
  assumes "run_inv key f origin b k sz seen s" and "fs_next_sequence (fst s) \<noteq> None"
  shows "run_inv key f origin b k sz seen (flush_pending (trace_scanner can_anchor) s) \<and>
    flow_wf (fst (flush_pending (trace_scanner can_anchor) s))"
proof -
  let ?s = "flush_pending (trace_scanner can_anchor) s"
  have wf0: "flow_wf0 (fst s)"
    using assms(1) by (simp add: run_inv_def)
  have "flow_wf (fst ?s)"
    using flush_pending_wf [OF wf0 assms(2)] by blast
  moreover have "prefix.inv key f origin ?s"
    using assms(1) by (intro prefix.flush_pending_inv) (simp add: run_inv_def)
  moreover have "ends_by b (fst ?s)" "covers (fst s) p \<Longrightarrow> covers (fst ?s) p" for p
    using flush_pending_covers [OF wf0, of p "trace_scanner can_anchor" b] assms(1)
    by (auto simp: run_inv_def)
  moreover have "has_room k sz (fst ?s) \<and> fs_defer_gap_timeouts (fst ?s)"
    using assms(1) by (intro flush_pending_has_room) (simp add: run_inv_def)
  ultimately show ?thesis
    using assms(1) flow_wf_wf0 by (auto simp: run_inv_def)
qed

lemma deliver_run_inv:
  assumes "run_inv key f origin b k sz seen s" and n: "fs_next_sequence (fst s) = Some n"
    and agree: "agrees_on key f a d c" and "a \<le> n" "n < a + int (length d)" "a + int (length d) \<le> b"
  shows "run_inv key f origin b k sz ({a..<a + int (length d)} \<union> seen)
    (deliver (trace_scanner can_anchor) (drop (nat (n - a)) d) c s)"
proof -
  let ?s = "deliver (trace_scanner can_anchor) (drop (nat (n - a)) d) c s"
  have len: "n + int (length (drop (nat (n - a)) d)) = a + int (length d)"
    using assms by simp
  have after: "fs_next_sequence (fst ?s) = Some (a + int (length d))"
    using n len by (simp add: deliver_def)
  have "agrees_on key f n (drop (nat (n - a)) d) c"
    using agree assms(4,5) agrees_drop [of "\<lambda>_. f" a d c "nat (n - a)"] by (simp add: agrees_on_def)
  then have "prefix.inv key f origin ?s"
    using assms by (intro prefix.deliver_inv) (auto simp: run_inv_def)
  moreover have "covers (fst ?s) p" if "p < a + int (length d)" for p
    using after that by (simp add: covers_def)
  moreover have "covers (fst ?s) p" if "covers (fst s) p" for p
    using that n assms(5) by (auto simp: covers_def after)
  moreover have "ends_by b (fst ?s)"
    using assms by (auto simp: run_inv_def ends_by_def after)
  moreover have "has_room k sz (fst ?s)" "fs_defer_gap_timeouts (fst ?s)"
    using assms(1) n by (auto simp: run_inv_def has_room_def deliver_def)
  moreover have "flow_wf0 (fst ?s)"
    using assms(1) deliver_wf0 [of s] by (simp add: run_inv_def)
  ultimately show ?thesis
    by (intro run_inv_step [OF assms(1)]) auto
qed

lemma park_run_inv:
  assumes inv: "run_inv key f origin b (Suc k) (length d + sz) seen s" and wf: "flow_wf (fst s)"
    and n: "fs_next_sequence (fst s) = Some n" "n < a"
    and agree: "agrees_on key f a d c" and b: "a + int (length d) \<le> b"
  shows "run_inv key f origin b k sz ({a..<a + int (length d)} \<union> seen)
      (park_segment commit (trace_scanner can_anchor) a d c s)"
proof -
  let ?x = "\<lparr>seg_data = d, seg_context = c\<rparr>"
  let ?t = "(fst s)\<lparr>fs_pending := keep_longest a ?x (fs_pending (fst s)),
              fs_gap_started_at := start_timer (ctx_timestamp c) (fs_gap_started_at (fst s))\<rparr>"
  have ends: "ends_by b (fst s)"
    using inv by (simp add: run_inv_def)
  have distinct: "distinct (map fst (fs_pending (fst s)))"
    using flow_wf_wf0 [OF wf] by (simp add: flow_wf0_def)
  have room: "has_room k sz ?t"
    using inv keep_longest_size [of a ?x "fs_pending (fst s)"] by (auto simp: run_inv_def has_room_def)
  then have "\<not> pending_capacity_exceeded ?t (fs_pending ?t)"
    by (auto simp: has_room_def exceeded_iff within_limits_def split: option.split)
  moreover have "fs_defer_gap_timeouts ?t"
    using inv by (simp add: run_inv_def)
  ultimately have eq: "park_segment commit (trace_scanner can_anchor) a d c s = (?t, snd s)"
    by (simp add: park_segment_def Let_def)
  have "flow_wf (fst (?t, snd s))"
    using park_segment_wf [OF wf n, of commit "trace_scanner can_anchor" d c] eq by simp
  moreover have "prefix.inv key f origin (?t, snd s)"
    using inv agree set_keep_longest [of a ?x "fs_pending (fst s)"]
    by (auto simp: run_inv_def prefix.inv_def buffers_ok_def segment_ok_def)
  moreover have "ends_by b ?t"
    by (rule keep_longest_within [OF ends, of a ?x]) (simp_all add: b)
  moreover have "covers ?t p" if "covers (fst s) p \<or> a \<le> p \<and> p < a + int (length d)" for p
    by (rule keep_longest_covers [of "fst s" p a ?x]) (use that in \<open>simp_all add: distinct\<close>)
  moreover have "fs_defer_gap_timeouts ?t"
    using inv by (simp add: run_inv_def)
  ultimately show ?thesis
    unfolding eq using room by (intro run_inv_step [OF inv]) (unfold fst_conv, blast intro: flow_wf_wf0)+
qed

lemma add_segment_run_inv:
  assumes inv: "run_inv key f origin b (Suc k) (length d + sz) seen s" and wf: "flow_wf (fst s)"
    and d: "d \<noteq> []" and agree: "agrees_on key f a d c"
    and range: "b - 2 ^ 31 < a" "a + int (length d) \<le> b" "b - origin < 2 ^ 31"
  shows "run_inv key f origin b k sz ({a..<a + int (length d)} \<union> seen)
    (add_segment (trace_scanner can_anchor) (a mod 2 ^ 32) d c s)"
proof -
  let ?sc = "trace_scanner can_anchor"
  obtain n where n: "fs_next_sequence (fst s) = Some n" and no: "origin \<le> n" and nb: "n \<le> b"
    using inv by (auto simp: run_inv_def prefix.inv_def fed_prefix_def ends_by_def)
  have a: "unwrap_tcp_sequence (a mod 2 ^ 32) n = a"
    using range no nb d by (intro unwrap_eq) (auto simp: abs_less_iff)
  have add: "add_segment ?sc (a mod 2 ^ 32) d c s =
      add_anchored_segment_with (commit_unanchored ?sc None) ?sc True (a mod 2 ^ 32) d c s"
    using d n by (simp add: add_segment_def add_anchored_segment_def)
  have rescan: "run_inv key f origin b k sz seen (fst s, snd s @ [Rescanned e (c\<lparr>ctx_stream_start := Some a\<rparr>)])"
      and inv': "run_inv key f origin b k sz seen s" for e
    using inv by (auto simp: run_inv_def has_room_def prefix.inv_def fed_prefix_def)
  consider "a + int (length d) \<le> n" | "a \<le> n" "n < a + int (length d)" | "n < a"
    by linarith
  then show ?thesis
  proof cases
    case 1
    then have "a < n"
      using d by (cases d) auto
    then have "add_segment ?sc (a mod 2 ^ 32) d c s =
        (fst s, snd s @ [Rescanned d (c\<lparr>ctx_stream_start := Some a\<rparr>)])"
      unfolding add using 1 n a by (simp add: add_anchored_segment_with_def Let_def trace_scanner_def)
    moreover have "covers (fst s) p" if "p < n" for p
      using that n by (simp add: covers_def)
    ultimately show ?thesis
      using 1 rescan [of d] by (auto simp: run_inv_def)
  next
    case 2
    let ?s1 = "if a < n then (fst s, snd s @ [Rescanned (take (nat (n - a)) d) (c\<lparr>ctx_stream_start := Some a\<rparr>)])
               else s"
    have "run_inv key f origin b k sz seen ?s1"
      using rescan inv' by simp
    then have "run_inv key f origin b k sz ({a..<a + int (length d)} \<union> seen)
        (deliver ?sc (drop (nat (n - a)) d) c ?s1)"
      using n 2 agree range by (intro deliver_run_inv) auto
    then have "run_inv key f origin b k sz ({a..<a + int (length d)} \<union> seen)
        (flush_pending ?sc (deliver ?sc (drop (nat (n - a)) d) c ?s1))"
      using n by (intro flush_pending_run_inv [THEN conjunct1]) auto
    moreover have "add_segment ?sc (a mod 2 ^ 32) d c s =
        flush_pending ?sc (deliver ?sc (drop (nat (n - a)) d) c ?s1)"
      unfolding add using 2 n a by (auto simp: add_anchored_segment_with_def Let_def trace_scanner_def)
    ultimately show ?thesis
      by simp
  next
    case 3
    then show ?thesis
      unfolding add using n a park_run_inv [OF inv wf n 3 agree range(2)]
      by (simp add: add_anchored_segment_with_def Let_def)
  qed
qed

section \<open>A whole stream\<close>

text \<open>A transmitted segment: its position in the stream, its payload and its context.\<close>

type_synonym sent_segment = "int \<times> bytes \<times> packet_context"

definition receive :: "'x stream_scanner \<Rightarrow> sent_segment \<Rightarrow> 'x flow \<Rightarrow> 'x flow" where
  "receive sc segment = (case segment of (a, d, c) \<Rightarrow> add_segment sc (a mod 2 ^ 32) d c)"

definition sent_from :: "flow_key \<times> int \<Rightarrow> (int \<Rightarrow> byte) \<Rightarrow> int \<Rightarrow> sent_segment \<Rightarrow> bool" where
  "sent_from key f b segment \<longleftrightarrow> (case segment of (a, d, c) \<Rightarrow>
     d \<noteq> [] \<and> agrees_on key f a d c \<and> b - 2 ^ 31 < a \<and> a + int (length d) \<le> b)"

definition positions :: "sent_segment \<Rightarrow> int set" where
  "positions segment = (case segment of (a, d, c) \<Rightarrow> {a..<a + int (length d)})"

definition sent_bytes :: "sent_segment list \<Rightarrow> nat" where
  "sent_bytes segments = sum_list (map (\<lambda>(a, d, c). length d) segments)"

lemma receive_all:
  assumes "\<forall>x \<in> set segments. sent_from key f b x" and "b - origin < 2 ^ 31"
    and "run_inv key f origin b (length segments) (sent_bytes segments) seen s" and "flow_wf (fst s)"
  shows "run_inv key f origin b 0 0 (seen \<union> (\<Union>x \<in> set segments. positions x))
      (fold (receive (trace_scanner can_anchor)) segments s) \<and>
    flow_wf (fst (fold (receive (trace_scanner can_anchor)) segments s))"
  using assms
proof (induction segments arbitrary: s seen)
  case Nil
  then show ?case by (simp add: sent_bytes_def)
next
  case (Cons x segments)
  obtain a d c where x: "x = (a, d, c)"
    by (cases x)
  let ?s = "add_segment (trace_scanner can_anchor) (a mod 2 ^ 32) d c s"
  have "run_inv key f origin b (length segments) (sent_bytes segments) ({a..<a + int (length d)} \<union> seen) ?s"
    using Cons.prems x by (intro add_segment_run_inv) (auto simp: sent_from_def sent_bytes_def)
  moreover have "flow_wf (fst ?s)"
    using Cons.prems(4) by (rule add_segment_wf)
  ultimately have "run_inv key f origin b 0 0
      (({a..<a + int (length d)} \<union> seen) \<union> (\<Union>x \<in> set segments. positions x))
      (fold (receive (trace_scanner can_anchor)) segments ?s) \<and>
    flow_wf (fst (fold (receive (trace_scanner can_anchor)) segments ?s))"
    using Cons.prems(1,2) by (intro Cons.IH) auto
  moreover have "receive (trace_scanner can_anchor) x s = ?s" "positions x = {a..<a + int (length d)}"
    by (simp_all add: receive_def positions_def x)
  ultimately show ?case
    by (simp only: fold_simps comp_apply list.set Union_insert image_insert Un_assoc Un_left_commute Un_commute)
qed

lemma run_inv_complete:
  assumes "run_inv key f origin b 0 0 seen s" and "flow_wf (fst s)" and "origin \<le> b" and "{origin..<b} \<subseteq> seen"
  shows "fs_next_sequence (fst s) = Some b \<and> fs_pending (fst s) = []"
proof -
  obtain n where n: "fs_next_sequence (fst s) = Some n" and no: "origin \<le> n" and nb: "n \<le> b"
    using assms(1) by (auto simp: run_inv_def prefix.inv_def fed_prefix_def ends_by_def)
  have ahead: "n < a" if "(a, g) \<in> set (fs_pending (fst s))" for a g
    using assms(2) n that by (auto simp: flow_wf_def)
  have "n = b"
  proof (rule ccontr)
    assume "n \<noteq> b"
    then have "covers (fst s) n"
      using assms(1,4) no nb by (auto simp: run_inv_def subset_iff)
    then show False
      using n ahead by (fastforce simp: covers_def)
  qed
  moreover have "fs_pending (fst s) = []"
  proof (rule ccontr)
    assume "fs_pending (fst s) \<noteq> []"
    then obtain a g where e: "(a, g) \<in> set (fs_pending (fst s))"
      by (cases "fs_pending (fst s)") auto
    then have "a + int (length (seg_data g)) \<le> b"
      using assms(1) by (auto simp: run_inv_def ends_by_def)
    then show False
      using ahead [OF e] \<open>n = b\<close> by linarith
  qed
  ultimately show ?thesis
    using n by simp
qed

end
