(* ===== verification/Reassembly_Properties.thy ===== *)
theory Reassembly_Properties
  imports Stream_Delivery
begin

text \<open>
  The properties of the reassembly of one flow, each over an arbitrary run of the flow's
  operations (\<open>run_ops\<close>) from a fresh \<open>TCPFlowState\<close>, and their concrete instances.
\<close>

text \<open>Sequence numbers wrap at 2^32. Extending one to an absolute position yields the
  position itself whenever it is less than half the sequence space away from the reference,
  and in every case a position congruent to the number and at most half the space away.\<close>

theorem unwrap_nearest_position:
  assumes "\<bar>x - reference\<bar> < 2 ^ 31"
  shows "unwrap_tcp_sequence (x AND 0xFFFFFFFF) reference = x \<and>
    (\<forall>s. unwrap_tcp_sequence s reference mod 2 ^ 32 = s mod 2 ^ 32 \<and>
         \<bar>unwrap_tcp_sequence s reference - reference\<bar> \<le> 2 ^ 31)"
  by (simp only: seq_mask_eq unwrap_eq [OF assms] unwrap_mod unwrap_near simp_thms)

theorem unwrap_nearest_position_witness:
  "unwrap_tcp_sequence ((0x100000005 :: int) AND 0xFFFFFFFF) 0xFFFFFFF0 = 0x100000005"
  using unwrap_nearest_position [of "0x100000005" "0xFFFFFFF0"] by simp

text \<open>C7. Whatever segments arrive, in whatever order, with whatever gaps, retransmissions,
  timeouts, FINs and resets: if every segment carries the peer's bytes at its sequence
  number, then the scanner is fed contiguous slices of the peer's stream, in order, each
  starting where the previous one ended or where the announced gap ended, and every
  retransmitted range it is asked to rescan lies before the next expected byte.\<close>

theorem reassembly_faithful:
  assumes "\<forall>op \<in> set ops. op_ok (agrees S) op"
  shows "stream_cursor S None
    (snd (run_ops (trace_scanner can_anchor) ops (new_tcp_flow_state segments limit defer gen, []))) \<noteq> None"
proof -
  have "trace_ok S None []"
    by (simp add: trace_ok_def)
  then have "trace.inv S (run_ops (trace_scanner can_anchor) ops (new_tcp_flow_state segments limit defer gen, []))"
    using assms by (rule trace.run_ops_inv)
  then show ?thesis
    by (auto simp: trace.inv_def trace_ok_def)
qed

text \<open>The stream whose byte at the position \<open>i\<close> is \<open>i mod 256\<close>.\<close>

abbreviation ramp :: streams where
  "ramp \<equiv> \<lambda>_ i. word_of_int i"

abbreviation ramp_segment :: "int \<Rightarrow> nat \<Rightarrow> bytes" where
  "ramp_segment s n \<equiv> map (\<lambda>i. word_of_int (s + int i)) [0..<n]"

theorem reassembly_faithful_witness:
  "stream_cursor ramp None
    (snd (run_ops (trace_scanner None)
       [AnchorSequence 7, AddSegment 9 [9, 10] (sample_context 1), AddSegment 5 [5, 6, 7, 8] (sample_context 2),
        MarkFin 20 (Finite 3), AddSegment 8 [8, 9] (sample_context 4), ServiceGaps (Finite 9), FinishFlow]
       (new_tcp_flow_state 128 None True 0, []))) \<noteq> None"
  by (rule reassembly_faithful) (simp add: agrees_def stream_slice_def TCP_SEQUENCE_MODULUS_eq upt_rec)

text \<open>C5. Nothing is lost and arrival order does not matter: the segments of a stream that
  together cover \<open>origin\<close> up to \<open>b\<close>, added in any order, split, overlapping and
  retransmitted in any way, leave the flow at \<open>b\<close> with nothing parked, and the bytes fed to
  the scanner are exactly the stream from \<open>origin\<close> to \<open>b\<close>.\<close>

theorem reassembly_complete:
  assumes "0 \<le> origin" and "origin < 2 ^ 32" and "origin \<le> b" and "b - origin < 2 ^ 31"
    and "\<forall>x \<in> set segments. sent_from key f b x"
    and "{origin..<b} \<subseteq> (\<Union>x \<in> set segments. positions x)"
    and "length segments \<le> max_segments" and "\<forall>l. max_bytes = Some l \<longrightarrow> sent_bytes segments \<le> l"
  shows "let s = fold (receive (trace_scanner can_anchor)) segments
             (anchor_sequence (trace_scanner can_anchor) origin (new_tcp_flow_state max_segments max_bytes True gen, []))
    in fs_next_sequence (fst s) = Some b \<and> fs_pending (fst s) = [] \<and>
       fed_bytes (snd s) = stream_slice f origin (nat (b - origin))"
proof -
  let ?start = "anchor_sequence (trace_scanner can_anchor) origin (new_tcp_flow_state max_segments max_bytes True gen, [])"
  let ?s = "fold (receive (trace_scanner can_anchor)) segments ?start"
  have origin: "origin AND 0xFFFFFFFF = origin"
    using assms(1,2) by (simp only: seq_mask_eq mod_pos_pos_trivial)
  have s0: "?start = ((new_tcp_flow_state max_segments max_bytes True gen)\<lparr>fs_next_sequence := Some origin\<rparr>, [])"
    by (simp only: anchor_sequence_def origin) (simp add: new_tcp_flow_state_def)
  have "flow_wf (fst ?start)"
    unfolding s0 by (simp add: flow_wf_def flow_wf0_def new_tcp_flow_state_def)
  moreover have "run_inv key f origin b (length segments) (sent_bytes segments) {} ?start"
    unfolding s0 using assms(3,7,8)
    by (simp add: run_inv_def flow_wf0_def new_tcp_flow_state_def prefix.inv_def fed_prefix_def
        buffers_ok_def ends_by_def has_room_def stream_slice_def)
  ultimately have "run_inv key f origin b 0 0 ({} \<union> (\<Union>x \<in> set segments. positions x)) ?s \<and> flow_wf (fst ?s)"
    using assms by (intro receive_all)
  moreover from this have "fs_next_sequence (fst ?s) = Some b \<and> fs_pending (fst ?s) = []"
    using assms by (intro run_inv_complete [of key f origin b _ ?s]) auto
  ultimately show ?thesis
    by (auto simp: Let_def run_inv_def prefix.inv_def fed_prefix_def)
qed

theorem reassembly_complete_witness:
  "fed_bytes (snd (fold (receive (trace_scanner None))
       [(14, ramp_segment 14 2, sample_context 1), (10, ramp_segment 10 3, sample_context 2),
        (12, ramp_segment 12 3, sample_context 3), (9, ramp_segment 9 4, sample_context 4)]
       (anchor_sequence (trace_scanner None) 10 (new_tcp_flow_state 8 (Some 100) True 0, []))))
   = ramp_segment 10 6"
proof -
  have split: "{10..<16 :: int} = {14..<16} \<union> {10..<13} \<union> {12..<15}"
    by auto
  have "{10..<16 :: int} \<subseteq> {14..<16} \<union> ({10..<13} \<union> ({12..<15} \<union> {9..<13}))"
    unfolding split by blast
  then show ?thesis
    using reassembly_complete [of 10 16
        "[(14, ramp_segment 14 2, sample_context 1), (10, ramp_segment 10 3, sample_context 2),
          (12, ramp_segment 12 3, sample_context 3), (9, ramp_segment 9 4, sample_context 4)]"
        "(sample_flow, 0)" "\<lambda>i. word_of_int i" 8 "Some 100" None 0]
    by (simp add: sent_from_def positions_def sent_bytes_def agrees_on_def agrees_def connection_def
        stream_slice_def TCP_SEQUENCE_MODULUS_eq upt_rec Let_def)
qed

text \<open>Bytes the flow has already delivered are never delivered again: a segment that ends
  at or before the next expected byte changes nothing in the flow, and its payload only goes
  to the scanner's rescan of retransmissions.\<close>

theorem retransmission_rescanned:
  assumes "payload \<noteq> []" and "fs_next_sequence t = Some next_sequence"
    and "unwrap_tcp_sequence raw next_sequence + int (length payload) \<le> next_sequence"
  shows "add_segment sc raw payload context (t, x) =
    (t, sc_scan_standalone sc payload
          (context\<lparr>ctx_stream_start := Some (unwrap_tcp_sequence raw next_sequence)\<rparr>) x)"
proof -
  have "unwrap_tcp_sequence raw next_sequence < next_sequence"
    using assms(1,3) by (cases payload) auto
  then show ?thesis
    using assms by (simp add: add_segment_def add_anchored_segment_def add_anchored_segment_with_def Let_def)
qed

theorem retransmission_rescanned_witness:
  "add_segment (trace_scanner None) 5 [5, 6] (sample_context 1)
     ((new_tcp_flow_state 128 None True 0)\<lparr>fs_next_sequence := Some 9\<rparr>, [])
   = ((new_tcp_flow_state 128 None True 0)\<lparr>fs_next_sequence := Some 9\<rparr>,
      [Rescanned [5, 6] ((sample_context 1)\<lparr>ctx_stream_start := Some 5\<rparr>)])"
proof -
  have "unwrap_tcp_sequence 5 9 = 5"
    using unwrap_eq [of 5 9] by simp
  then show ?thesis
    using retransmission_rescanned [of "[5, 6]"
        "(new_tcp_flow_state 128 None True 0)\<lparr>fs_next_sequence := Some 9\<rparr>" 9 5 "trace_scanner None"
        "sample_context 1" "[]"]
    by (simp add: trace_scanner_def)
qed

text \<open>C22. The fields of a flow stay consistent through every run: both buffers have distinct
  keys, segments are parked only behind a known origin and strictly after the next expected
  byte, the unanchored buffer is used only before an origin is known, and whenever something
  is parked the gap timer runs.\<close>

theorem flow_state_invariant:
  "let t = fst (run_ops sc ops (new_tcp_flow_state max_segments max_bytes defer gen, x)) in
     distinct (map fst (fs_pending t)) \<and> distinct (map fst (fs_unanchored t)) \<and>
     (if fs_pending t = [] then True
      else fs_gap_started_at t \<noteq> None \<and> fs_unanchored t = [] \<and>
           (case fs_next_sequence t of None \<Rightarrow> False | Some n \<Rightarrow> list_all (\<lambda>p. n < fst p) (fs_pending t))) \<and>
     (if fs_unanchored t = [] then True else fs_next_sequence t = None)"
proof -
  let ?t = "fst (run_ops sc ops (new_tcp_flow_state max_segments max_bytes defer gen, x))"
  have "flow_wf ?t"
    by (rule run_ops_wf) (simp add: new_flow_wf)
  then show ?thesis
    by (auto simp: Let_def flow_wf_def flow_wf0_def list_all_iff split: option.split)
qed

definition buffered_bytes :: "(int, pending_segment) dict \<Rightarrow> nat" where
  "buffered_bytes d = sum_list (map (\<lambda>p. length (seg_data (snd p))) d)"

lemma run_op_bounded: "bounded m l (fst s) \<Longrightarrow> bounded m l (fst (run_op sc op s))"
  by (cases op) (auto intro: bounded_intros)

text \<open>C23. Both buffers respect the configured limits after every operation: never more than
  \<open>max_segments\<close> segments, never more than \<open>max_bytes\<close> bytes when that limit is set.\<close>

theorem buffers_within_limits:
  "let t = fst (run_ops sc ops (new_tcp_flow_state max_segments max_bytes defer gen, x)) in
     length (fs_pending t) \<le> max_segments \<and> length (fs_unanchored t) \<le> max_segments \<and>
     (case max_bytes of None \<Rightarrow> True
      | Some l \<Rightarrow> buffered_bytes (fs_pending t) \<le> l \<and> buffered_bytes (fs_unanchored t) \<le> l)"
proof -
  let ?t = "fst (run_ops sc ops (new_tcp_flow_state max_segments max_bytes defer gen, x))"
  have "bounded max_segments max_bytes ?t"
    unfolding run_ops_def by (rule fold_invariant) (auto intro: run_op_bounded new_flow_bounded)
  then show ?thesis
    by (auto simp: Let_def bounded_def has_limits_def within_limits_def buffered_bytes_def split: option.splits)
qed

text \<open>C24. A gap cannot hold segments back forever: in every reachable state, a service call at
  a time when the gap timer and every parked segment are at least \<^verbatim>\<open>GAP_RESET_SECONDS\<close>
  old releases everything that is parked.\<close>

theorem late_service_releases_all:
  assumes "s = run_ops sc ops (new_tcp_flow_state max_segments max_bytes defer gen, x)"
    and "fs_unanchored (fst s) = []" and "all_expired now (fst s)"
  shows "fs_pending (fst (snd (service_gaps sc now s))) = []"
proof (rule service_gaps_releases [OF _ assms(2,3)])
  show "flow_wf (fst s)"
    unfolding assms(1) by (rule run_ops_wf) (simp add: new_flow_wf)
qed

theorem late_service_releases_all_witness:
  "fs_pending (fst (snd (service_gaps (trace_scanner None) (Finite 9)
     (run_ops (trace_scanner None) [AnchorSequence 7, AddSegment 9 [9, 10] (sample_context 1)]
        (new_tcp_flow_state 128 None True 0, []))))) = []"
proof -
  let ?parked = "run_ops (trace_scanner None) [AnchorSequence 7, AddSegment 9 [9, 10] (sample_context 1)]
        (new_tcp_flow_state 128 None True 0, [])"
  have "unwrap_tcp_sequence 9 7 = 9"
    using unwrap_eq [of 9 7] by simp
  then have "fs_unanchored (fst ?parked) = []" "all_expired (Finite 9) (fst ?parked)"
    by (simp_all add: run_ops_def anchor_sequence_def add_segment_def add_anchored_segment_def
        add_anchored_segment_with_def park_segment_def keep_longest_def pending_capacity_exceeded_def
        new_tcp_flow_state_def start_timer_def all_expired_def expired_def GAP_RESET_SECONDS_def Let_def)
  from late_service_releases_all [OF refl this] show ?thesis .
qed

text \<open>The end of a capture leaves nothing behind: after \<^verbatim>\<open>finish\<close> both buffers of a
  flow are empty and a flow whose FIN was seen has been reassembled up to its FIN.\<close>

theorem finish_leaves_nothing:
  "let t = fst (flow_finish sc (run_ops sc ops (new_tcp_flow_state max_segments max_bytes defer gen, x))) in
     fs_pending t = [] \<and> fs_unanchored t = [] \<and>
     (if fs_fin_sequence t = None then True
      else if fs_next_sequence t = None then True else fin_is_reassembled t)"
proof -
  let ?s = "run_ops sc ops (new_tcp_flow_state max_segments max_bytes defer gen, x)"
  have "flow_wf (fst ?s)"
    by (rule run_ops_wf) (simp add: new_flow_wf)
  then show ?thesis
    using flow_finish_complete [of ?s sc] by (auto simp: Let_def)
qed

end
