(* ===== verification/Flow_Manager.thy ===== *)
theory Flow_Manager
  imports Reassembly
begin

text \<open>
  \<^verbatim>\<open>src/bdo_toolkit/_reassembly.py\<close>, the class \<^verbatim>\<open>FlowManager\<close>: the table of
  the live server-to-client flows, their creation, eviction, expiry and close.

  The collaborators the constructor takes (the scanner factory and the optional callbacks)
  are fields of \<open>manager_config\<close>; \<open>'s\<close> is the state of one scanner and \<open>'w\<close> the
  state of everything the scanners and the callbacks write. The \<^verbatim>\<open>OrderedDict\<close> is an
  association list in its order. A flow's own operations (\<open>Reassembly\<close>) run on the pair
  of its state and \<open>'s \<times> int \<times> 'w\<close>, whose middle part is the counter
  \<^verbatim>\<open>_tcp_gap_resets\<close> that \<^verbatim>\<open>_record_gap_reset\<close> increments. The locks serialise
  the entry points, so every entry point is one atomic step of the model.
\<close>

section \<open>Configuration and state\<close>

record ('s, 'w) manager_config =
  mc_server_ports :: "int set"
  mc_scanner :: "('s \<times> 'w) stream_scanner"
  mc_scanner_factory :: "'w \<Rightarrow> 's \<times> 'w"
  mc_max_flows :: "int option"
  mc_on_flow_eviction :: "('w \<Rightarrow> 'w) option"
  mc_on_flow_close :: "(flow_key \<Rightarrow> 'w \<Rightarrow> 'w) option"
  mc_on_flow_reset :: "(flow_key \<Rightarrow> int \<Rightarrow> int \<Rightarrow> 'w \<Rightarrow> 'w) option"
  mc_idle_timeout :: "pyfloat option"
  mc_track_flow_generations :: bool
  mc_max_pending_segments :: int
  mc_max_pending_bytes :: "int option"
  mc_defer_gap_timeouts :: bool

record ('s, 'w) flow_manager =
  fm_next_flow_generation :: int
  fm_flows :: "(flow_key, tcp_flow_state \<times> 's) dict"
  fm_tcp_gap_resets :: int
  fm_world :: 'w

record tcp_packet =
  pk_flow :: flow_key
  pk_sequence :: int
  pk_payload :: bytes
  pk_timestamp :: pyfloat
  pk_syn :: bool
  pk_rst :: bool
  pk_fin :: bool

datatype manager_error =
    MaxFlowsNotPositive
  | IdleTimeoutNotPositive
  | MaxPendingSegmentsNotPositive
  | MaxPendingBytesNotPositive

text \<open>The checks of \<^verbatim>\<open>__init__\<close>; those of the types are the types of the fields.\<close>

definition flow_manager_init ::
    "('s, 'w) manager_config \<Rightarrow> 'w \<Rightarrow> manager_error + ('s, 'w) flow_manager" where
  "flow_manager_init cfg w =
     (if opt_sat (\<lambda>x. x \<le> 0) (mc_max_flows cfg) then Inl MaxFlowsNotPositive
      else if (case mc_idle_timeout cfg of None \<Rightarrow> False | Some x \<Rightarrow> x \<le> Finite 0)
        then Inl IdleTimeoutNotPositive
      else if mc_max_pending_segments cfg \<le> 0 then Inl MaxPendingSegmentsNotPositive
      else if opt_sat (\<lambda>x. x \<le> 0) (mc_max_pending_bytes cfg) then Inl MaxPendingBytesNotPositive
      else Inr \<lparr>fm_next_flow_generation = 0, fm_flows = [], fm_tcp_gap_resets = 0, fm_world = w\<rparr>)"

section \<open>The scanner of one flow\<close>

definition lift_scan :: "('s \<times> 'w \<Rightarrow> 's \<times> 'w) \<Rightarrow> 's \<times> int \<times> 'w \<Rightarrow> 's \<times> int \<times> 'w" where
  "lift_scan f x =
     (case x of (s, n, w) \<Rightarrow> case f (s, w) of (s', w') \<Rightarrow> (s', n, w'))"

definition record_gap_reset ::
    "('s, 'w) manager_config \<Rightarrow> flow_key \<Rightarrow> int \<Rightarrow> int \<Rightarrow> 's \<times> int \<times> 'w \<Rightarrow> 's \<times> int \<times> 'w" where
  "record_gap_reset cfg flow generation resume_sequence x =
     (case x of (s, n, w) \<Rightarrow>
        (s, n + 1, case mc_on_flow_reset cfg of
           None \<Rightarrow> w | Some callback \<Rightarrow> callback flow generation resume_sequence w))"

definition flow_scanner ::
    "('s, 'w) manager_config \<Rightarrow> flow_key \<Rightarrow> int \<Rightarrow> ('s \<times> int \<times> 'w) stream_scanner" where
  "flow_scanner cfg flow generation =
     \<lparr>sc_feed = (\<lambda>d c. lift_scan (sc_feed (mc_scanner cfg) d c)),
      sc_scan_standalone = (\<lambda>d c. lift_scan (sc_scan_standalone (mc_scanner cfg) d c)),
      sc_reset = lift_scan (sc_reset (mc_scanner cfg)),
      sc_can_anchor_at_start = sc_can_anchor_at_start (mc_scanner cfg),
      sc_on_gap_reset = Some (record_gap_reset cfg flow generation)\<rparr>"

section \<open>The table of flows\<close>

definition new_flow ::
    "('s, 'w) manager_config \<Rightarrow> flow_key \<Rightarrow> ('s, 'w) flow_manager \<Rightarrow> ('s, 'w) flow_manager" where
  "new_flow cfg flow m =
     (let next_generation = (if mc_track_flow_generations cfg then fm_next_flow_generation m + 1
                             else fm_next_flow_generation m);
          generation = (if mc_track_flow_generations cfg then next_generation else 0);
          (s, w) = mc_scanner_factory cfg (fm_world m);
          t = new_tcp_flow_state (nat (mc_max_pending_segments cfg))
                (map_option nat (mc_max_pending_bytes cfg)) (mc_defer_gap_timeouts cfg) generation
      in m\<lparr>fm_next_flow_generation := next_generation,
           fm_flows := AList.update flow (t, s) (fm_flows m), fm_world := w\<rparr>)"

text \<open>Run an operation of \<^verbatim>\<open>TCPFlowState\<close> on the state stored under \<open>flow\<close>.\<close>

definition on_flow ::
    "(('s \<times> int \<times> 'w) flow \<Rightarrow> ('s \<times> int \<times> 'w) flow) \<Rightarrow> flow_key \<Rightarrow>
       ('s, 'w) flow_manager \<Rightarrow> ('s, 'w) flow_manager" where
  "on_flow f flow m =
     (case map_of (fm_flows m) flow of
        None \<Rightarrow> m
      | Some (t, s) \<Rightarrow>
          (case f (t, s, fm_tcp_gap_resets m, fm_world m) of
             (t', s', n, w) \<Rightarrow>
               m\<lparr>fm_flows := AList.update flow (t', s') (fm_flows m),
                 fm_tcp_gap_resets := n, fm_world := w\<rparr>))"

definition flow_generation :: "('s, 'w) flow_manager \<Rightarrow> flow_key \<Rightarrow> int" where
  "flow_generation m flow =
     (case map_of (fm_flows m) flow of None \<Rightarrow> 0 | Some (t, _) \<Rightarrow> fs_generation t)"

definition notify_flow_close ::
    "('s, 'w) manager_config \<Rightarrow> flow_key \<Rightarrow> ('s, 'w) flow_manager \<Rightarrow> ('s, 'w) flow_manager" where
  "notify_flow_close cfg flow m =
     (case mc_on_flow_close cfg of
        None \<Rightarrow> m | Some callback \<Rightarrow> m\<lparr>fm_world := callback flow (fm_world m)\<rparr>)"

text \<open>\<^verbatim>\<open>state.finish()\<close> for a state that is, or is about to be, dropped from the table.\<close>

definition finish_flow ::
    "('s, 'w) manager_config \<Rightarrow> flow_key \<Rightarrow> tcp_flow_state \<times> 's \<Rightarrow>
       ('s, 'w) flow_manager \<Rightarrow> ('s, 'w) flow_manager" where
  "finish_flow cfg flow state m =
     (case state of (t, s) \<Rightarrow>
        case snd (flow_finish (flow_scanner cfg flow (fs_generation t))
                    (t, s, fm_tcp_gap_resets m, fm_world m)) of
          (_, n, w) \<Rightarrow> m\<lparr>fm_tcp_gap_resets := n, fm_world := w\<rparr>)"

definition pop_flow :: "flow_key \<Rightarrow> ('s, 'w) flow_manager \<Rightarrow> ('s, 'w) flow_manager" where
  "pop_flow flow m = m\<lparr>fm_flows := AList.delete flow (fm_flows m)\<rparr>"

text \<open>\<^verbatim>\<open>state = self._flows.pop(flow); state.finish(); self._notify_flow_close(flow)\<close>\<close>

definition pop_and_close ::
    "('s, 'w) manager_config \<Rightarrow> flow_key \<Rightarrow> ('s, 'w) flow_manager \<Rightarrow> ('s, 'w) flow_manager" where
  "pop_and_close cfg flow m =
     (case map_of (fm_flows m) flow of
        None \<Rightarrow> m
      | Some state \<Rightarrow> notify_flow_close cfg flow (finish_flow cfg flow state (pop_flow flow m)))"

text \<open>\<^verbatim>\<open>state.finish(); self._flows.pop(flow, None); self._notify_flow_close(flow)\<close>\<close>

definition close_flow ::
    "('s, 'w) manager_config \<Rightarrow> flow_key \<Rightarrow> ('s, 'w) flow_manager \<Rightarrow> ('s, 'w) flow_manager" where
  "close_flow cfg flow m =
     (case map_of (fm_flows m) flow of
        None \<Rightarrow> m
      | Some state \<Rightarrow> notify_flow_close cfg flow (pop_flow flow (finish_flow cfg flow state m)))"

section \<open>Packets\<close>

definition known_flow :: "('s, 'w) flow_manager \<Rightarrow> flow_key \<Rightarrow> bool" where
  "known_flow m flow \<longleftrightarrow> flow \<in> fst ` set (fm_flows m)"

definition evict_oldest ::
    "('s, 'w) manager_config \<Rightarrow> ('s, 'w) flow_manager \<Rightarrow> ('s, 'w) flow_manager" where
  "evict_oldest cfg m =
     (case (mc_max_flows cfg, fm_flows m) of
        (Some max_flows, (oldest, evicted) # rest) \<Rightarrow>
          if int (length (fm_flows m)) \<ge> max_flows
          then let m1 = m\<lparr>fm_flows := rest\<rparr>;
                   m2 = (case mc_on_flow_eviction cfg of
                           None \<Rightarrow> m1 | Some callback \<Rightarrow> m1\<lparr>fm_world := callback (fm_world m1)\<rparr>)
               in notify_flow_close cfg oldest (finish_flow cfg oldest evicted m2)
          else m
      | _ \<Rightarrow> m)"

text \<open>\<^verbatim>\<open>state.last_activity_at = timestamp; self._flows.move_to_end(flow)\<close>\<close>

definition touch_flow ::
    "flow_key \<Rightarrow> pyfloat \<Rightarrow> ('s, 'w) flow_manager \<Rightarrow> ('s, 'w) flow_manager" where
  "touch_flow flow timestamp m =
     (case map_of (fm_flows m) flow of
        None \<Rightarrow> m
      | Some (t, s) \<Rightarrow>
          m\<lparr>fm_flows := AList.delete flow (fm_flows m)
              @ [(flow, t\<lparr>fs_last_activity_at := Some timestamp\<rparr>, s)]\<rparr>)"

text \<open>The table entry the packet works on: make room, restart on SYN, create, touch.\<close>

definition make_room ::
    "('s, 'w) manager_config \<Rightarrow> flow_key \<Rightarrow> ('s, 'w) flow_manager \<Rightarrow> ('s, 'w) flow_manager" where
  "make_room cfg flow m = (if \<not> known_flow m flow then evict_oldest cfg m else m)"

definition restart_flow ::
    "('s, 'w) manager_config \<Rightarrow> bool \<Rightarrow> flow_key \<Rightarrow> ('s, 'w) flow_manager \<Rightarrow> ('s, 'w) flow_manager" where
  "restart_flow cfg syn flow m = (if syn \<and> known_flow m flow then pop_and_close cfg flow m else m)"

definition ensure_flow ::
    "('s, 'w) manager_config \<Rightarrow> flow_key \<Rightarrow> ('s, 'w) flow_manager \<Rightarrow> ('s, 'w) flow_manager" where
  "ensure_flow cfg flow m = (if \<not> known_flow m flow then new_flow cfg flow m else m)"

definition admit_packet ::
    "('s, 'w) manager_config \<Rightarrow> tcp_packet \<Rightarrow> ('s, 'w) flow_manager \<Rightarrow> ('s, 'w) flow_manager" where
  "admit_packet cfg p m =
     touch_flow (pk_flow p) (pk_timestamp p)
       (ensure_flow cfg (pk_flow p)
          (restart_flow cfg (pk_syn p) (pk_flow p) (make_room cfg (pk_flow p) m)))"

definition deliver_packet ::
    "('s, 'w) manager_config \<Rightarrow> tcp_packet \<Rightarrow> ('s, 'w) flow_manager \<Rightarrow> ('s, 'w) flow_manager" where
  "deliver_packet cfg p m =
     (let flow = pk_flow p;
          generation = flow_generation m flow;
          sc = flow_scanner cfg flow generation;
          m1 = (if pk_syn p
                then on_flow (anchor_sequence sc ((pk_sequence p + 1) AND 0xFFFFFFFF)) flow m else m)
      in if pk_payload p \<noteq> []
         then on_flow
                (add_segment sc ((pk_sequence p + (if pk_syn p then 1 else 0)) AND 0xFFFFFFFF) (pk_payload p)
                  \<lparr>ctx_timestamp = pk_timestamp p, ctx_flow = flow, ctx_stream_start = None,
                   ctx_flow_generation = generation\<rparr>) flow m1
         else m1)"

definition flow_satisfies ::
    "(tcp_flow_state \<Rightarrow> bool) \<Rightarrow> ('s, 'w) flow_manager \<Rightarrow> flow_key \<Rightarrow> bool" where
  "flow_satisfies P m flow =
     (case map_of (fm_flows m) flow of None \<Rightarrow> False | Some (t, _) \<Rightarrow> P t)"

definition close_packet ::
    "('s, 'w) manager_config \<Rightarrow> tcp_packet \<Rightarrow> ('s, 'w) flow_manager \<Rightarrow> ('s, 'w) flow_manager" where
  "close_packet cfg p m =
     (let flow = pk_flow p in
      if \<not> pk_rst p \<and> flow_satisfies (\<lambda>t. fs_fin_sequence t \<noteq> None \<and> fin_is_reassembled t) m flow
      then close_flow cfg flow m
      else if pk_rst p then close_flow cfg flow m
      else if pk_fin p
      then let fin_sequence = (pk_sequence p + (if pk_syn p then 1 else 0)
                                 + int (length (pk_payload p))) AND 0xFFFFFFFF;
               m1 = on_flow (\<lambda>(t, x). (mark_fin fin_sequence (pk_timestamp p) t, x)) flow m
           in if flow_satisfies fin_is_reassembled m1 flow then close_flow cfg flow m1 else m1
      else m)"

definition process_tcp_segment ::
    "('s, 'w) manager_config \<Rightarrow> tcp_packet \<Rightarrow> ('s, 'w) flow_manager \<Rightarrow> ('s, 'w) flow_manager" where
  "process_tcp_segment cfg p m =
     (if fk_source_port (pk_flow p) \<notin> mc_server_ports cfg then m
      else if \<not> known_flow m (pk_flow p) \<and> pk_payload p = [] \<and> \<not> pk_syn p then m
      else close_packet cfg p (deliver_packet cfg p (admit_packet cfg p m)))"

section \<open>Timers and shutdown\<close>

text \<open>The first loop of \<^verbatim>\<open>service_gaps\<close>; the list collects \<^verbatim>\<open>completed_fin_flows\<close>.\<close>

fun service_flows ::
    "('s, 'w) manager_config \<Rightarrow> pyfloat \<Rightarrow> flow_key list \<Rightarrow> flow_key list \<Rightarrow>
       ('s, 'w) flow_manager \<Rightarrow> flow_key list \<times> ('s, 'w) flow_manager" where
  "service_flows cfg now [] completed m = (completed, m)"
| "service_flows cfg now (flow # flows) completed m =
     (let m' = on_flow (\<lambda>s. snd (service_gaps (flow_scanner cfg flow (flow_generation m flow)) now s)) flow m
      in service_flows cfg now flows
           (if flow_satisfies fin_is_reassembled m' flow then completed @ [flow] else completed) m')"

definition idle_expired :: "pyfloat \<Rightarrow> pyfloat \<Rightarrow> tcp_flow_state \<Rightarrow> bool" where
  "idle_expired now timeout t =
     (case fs_last_activity_at t of None \<Rightarrow> False | Some last_activity \<Rightarrow> now - last_activity \<ge> timeout)"

definition manager_service_gaps ::
    "('s, 'w) manager_config \<Rightarrow> pyfloat \<Rightarrow> ('s, 'w) flow_manager \<Rightarrow> int \<times> ('s, 'w) flow_manager" where
  "manager_service_gaps cfg now m =
     (let (completed, m1) = service_flows cfg now (map fst (fm_flows m)) [] m;
          m2 = fold (pop_and_close cfg) completed m1;
          m3 = (case mc_idle_timeout cfg of
                  None \<Rightarrow> m2
                | Some timeout \<Rightarrow>
                    fold (pop_and_close cfg)
                      (map fst (filter (\<lambda>(_, t, _). idle_expired now timeout t) (fm_flows m2))) m2)
      in (fm_tcp_gap_resets m3 - fm_tcp_gap_resets m, m3))"

definition manager_finish ::
    "('s, 'w) manager_config \<Rightarrow> ('s, 'w) flow_manager \<Rightarrow> ('s, 'w) flow_manager" where
  "manager_finish cfg m =
     fold (\<lambda>(flow, state) m'. notify_flow_close cfg flow (finish_flow cfg flow state m'))
       (fm_flows m) (m\<lparr>fm_flows := []\<rparr>)"

end
