(* ===== verification/Flow_Table.thy ===== *)
theory Flow_Table
  imports Flow_Manager Stream_Delivery
begin

text \<open>
  The properties of \<open>Flow_Manager\<close>: which flows the table holds and in which order, that
  a packet touches only its own flow, that every flow opened is closed once, and that every
  flow of the table has the invariants of a single flow.
\<close>

section \<open>The keys of the table\<close>

abbreviation flow_keys :: "('s, 'w) flow_manager \<Rightarrow> flow_key list" where
  "flow_keys m \<equiv> map fst (fm_flows m)"

named_theorems table_simps "what each operation does to the keys of the table"

lemma keys_update: "k \<in> fst ` set d \<Longrightarrow> map fst (AList.update k v d) = map fst d"
  by (induction d) auto

lemma keys_delete: "map fst (AList.delete k d) = filter (\<lambda>x. x \<noteq> k) (map fst d)"
  by (induction d) (auto simp: AList.delete_eq)

lemma delete_absent: "k \<notin> fst ` set d \<Longrightarrow> AList.delete k d = d"
  by (induction d) (auto simp: AList.delete_eq)

lemma map_of_member: "map_of d k = Some v \<Longrightarrow> k \<in> fst ` set d"
  by (metis domI dom_map_of_conv_image_fst)

lemma map_of_known: "known_flow m k \<longleftrightarrow> map_of (fm_flows m) k \<noteq> None"
  by (simp add: known_flow_def map_of_eq_None_iff)

lemma known_flow_keys: "known_flow m k \<longleftrightarrow> k \<in> set (flow_keys m)"
  by (simp add: known_flow_def)

lemma flow_keys_on_flow [table_simps]: "flow_keys (on_flow f k m) = flow_keys m"
  by (auto simp: on_flow_def keys_update map_of_member split: option.split prod.split)

lemma finish_flow_table [table_simps]:
  "fm_flows (finish_flow cfg k st m) = fm_flows m"
  "fm_next_flow_generation (finish_flow cfg k st m) = fm_next_flow_generation m"
  by (auto simp: finish_flow_def split: prod.split)

lemma notify_table [table_simps]:
  "fm_flows (notify_flow_close cfg k m) = fm_flows m"
  "fm_next_flow_generation (notify_flow_close cfg k m) = fm_next_flow_generation m"
  by (auto simp: notify_flow_close_def split: option.split)

lemma pop_flow_table [table_simps]:
  "fm_flows (pop_flow k m) = AList.delete k (fm_flows m)"
  "fm_next_flow_generation (pop_flow k m) = fm_next_flow_generation m"
  by (auto simp: pop_flow_def)

lemma close_flow_table [table_simps]:
  "fm_flows (close_flow cfg k m) = AList.delete k (fm_flows m)"
  "fm_flows (pop_and_close cfg k m) = AList.delete k (fm_flows m)"
  by (auto simp: close_flow_def pop_and_close_def table_simps map_of_eq_None_iff delete_absent
      split: option.split)

definition at_capacity :: "('s, 'w) manager_config \<Rightarrow> ('s, 'w) flow_manager \<Rightarrow> bool" where
  "at_capacity cfg m \<longleftrightarrow>
     (case mc_max_flows cfg of None \<Rightarrow> False | Some n \<Rightarrow> int (length (fm_flows m)) \<ge> n)"

lemma evict_oldest_table [table_simps]:
  "fm_flows (evict_oldest cfg m) = (if at_capacity cfg m then tl (fm_flows m) else fm_flows m)"
  by (auto simp: evict_oldest_def at_capacity_def table_simps Let_def split: option.split list.split)

lemma new_flow_keys [table_simps]:
  "\<not> known_flow m k \<Longrightarrow> flow_keys (new_flow cfg k m) = flow_keys m @ [k]"
  by (auto simp: new_flow_def Let_def known_flow_def update_absent split: prod.split)

lemma touch_flow_keys [table_simps]:
  "flow_keys (touch_flow k ts m) =
     (if known_flow m k then filter (\<lambda>x. x \<noteq> k) (flow_keys m) @ [k] else flow_keys m)"
  by (auto simp: touch_flow_def keys_delete map_of_known split: option.split)

lemma known_flow_simps [table_simps]:
  "known_flow (on_flow f k' m) k = known_flow m k"
  "known_flow (touch_flow k' ts m) k = known_flow m k"
  by (simp_all only: known_flow_keys table_simps) (auto simp: known_flow_def)

definition room_for :: "('s, 'w) manager_config \<Rightarrow> flow_key \<Rightarrow> ('s, 'w) flow_manager \<Rightarrow> flow_key list" where
  "room_for cfg k m =
     (if \<not> known_flow m k \<and> at_capacity cfg m then tl (flow_keys m) else filter (\<lambda>x. x \<noteq> k) (flow_keys m))"

lemma filter_absent: "k \<notin> set ks \<Longrightarrow> filter (\<lambda>x. x \<noteq> k) ks = ks"
  by (intro filter_True) auto

lemma make_room_keys: "filter (\<lambda>x. x \<noteq> k) (flow_keys (make_room cfg k m)) = room_for cfg k m"
proof (cases "known_flow m k")
  case False
  then have keys: "k \<notin> set (flow_keys m)"
    by (simp only: known_flow_keys simp_thms)
  then have "k \<notin> set (tl (flow_keys m))"
    by (cases "fm_flows m") simp_all
  note absent = this [THEN filter_absent] keys [THEN filter_absent]
  show ?thesis
    using False
    by (cases "at_capacity cfg m")
      (simp_all only: make_room_def room_for_def evict_oldest_table map_tl absent if_True if_False simp_thms)
qed (simp add: make_room_def room_for_def)

lemma restart_flow_keys [table_simps]:
  "filter (\<lambda>x. x \<noteq> k) (flow_keys (restart_flow cfg syn k m)) = filter (\<lambda>x. x \<noteq> k) (flow_keys m)"
  by (auto simp: restart_flow_def table_simps keys_delete)

lemma ensure_flow_keys [table_simps]:
  "filter (\<lambda>x. x \<noteq> k) (flow_keys (ensure_flow cfg k m)) = filter (\<lambda>x. x \<noteq> k) (flow_keys m)"
  "known_flow (ensure_flow cfg k m) k"
proof -
  show "filter (\<lambda>x. x \<noteq> k) (flow_keys (ensure_flow cfg k m)) = filter (\<lambda>x. x \<noteq> k) (flow_keys m)"
    by (simp add: ensure_flow_def table_simps)
  have "known_flow (new_flow cfg k m) k" if "\<not> known_flow m k"
    unfolding known_flow_keys new_flow_keys [OF that] by simp
  then show "known_flow (ensure_flow cfg k m) k"
    by (simp add: ensure_flow_def)
qed

lemma admit_packet_keys:
  "flow_keys (admit_packet cfg p m) = room_for cfg (pk_flow p) m @ [pk_flow p]"
  by (simp only: admit_packet_def table_simps make_room_keys if_True)

lemma deliver_packet_keys [table_simps]:
  "flow_keys (deliver_packet cfg p m) = flow_keys m"
  by (simp add: deliver_packet_def Let_def table_simps)

lemma close_packet_keys:
  "flow_keys (close_packet cfg p m) = flow_keys m \<or>
   flow_keys (close_packet cfg p m) = filter (\<lambda>k. k \<noteq> pk_flow p) (flow_keys m)"
  by (simp add: close_packet_def Let_def table_simps keys_delete)

text \<open>Whether the packet reaches the table at all.\<close>

definition relevant :: "('s, 'w) manager_config \<Rightarrow> tcp_packet \<Rightarrow> ('s, 'w) flow_manager \<Rightarrow> bool" where
  "relevant cfg p m \<longleftrightarrow> fk_source_port (pk_flow p) \<in> mc_server_ports cfg \<and>
     (known_flow m (pk_flow p) \<or> pk_payload p \<noteq> [] \<or> pk_syn p)"

lemma process_relevant:
  "process_tcp_segment cfg p m =
     (if relevant cfg p m then close_packet cfg p (deliver_packet cfg p (admit_packet cfg p m)) else m)"
  by (auto simp: process_tcp_segment_def relevant_def)

lemma room_for_absent: "pk \<notin> set (room_for cfg pk m)" if "distinct (flow_keys m)"
  using that by (cases "fm_flows m") (auto simp: room_for_def known_flow_keys)

lemma process_keys:
  assumes "relevant cfg p m" and "distinct (flow_keys m)"
  shows "flow_keys (process_tcp_segment cfg p m) = room_for cfg (pk_flow p) m @ [pk_flow p] \<or>
    flow_keys (process_tcp_segment cfg p m) = room_for cfg (pk_flow p) m"
proof -
  have "filter (\<lambda>k. k \<noteq> pk_flow p) (room_for cfg (pk_flow p) m @ [pk_flow p]) = room_for cfg (pk_flow p) m"
    using room_for_absent [OF assms(2)] by (simp add: filter_absent)
  then show ?thesis
    using close_packet_keys [of cfg p "deliver_packet cfg p (admit_packet cfg p m)"] assms(1)
    by (simp add: process_relevant deliver_packet_keys admit_packet_keys)
qed

text \<open>The keys are distinct and, with \<open>max_flows\<close> positive, never more than \<open>max_flows\<close>.\<close>

definition table_ok :: "('s, 'w) manager_config \<Rightarrow> ('s, 'w) flow_manager \<Rightarrow> bool" where
  "table_ok cfg m \<longleftrightarrow> distinct (flow_keys m) \<and>
     (case mc_max_flows cfg of None \<Rightarrow> True | Some n \<Rightarrow> int (length (fm_flows m)) \<le> n)"

lemma room_for_distinct: "distinct (flow_keys m) \<Longrightarrow> distinct (room_for cfg k m)"
  by (simp add: room_for_def distinct_tl)

lemma length_filter_neq: "distinct ks \<Longrightarrow> k \<in> set ks \<Longrightarrow> Suc (length (filter (\<lambda>x. x \<noteq> k) ks)) = length ks"
  by (induction ks) (auto simp: filter_absent)

lemma room_for_length:
  assumes "table_ok cfg m" and "mc_max_flows cfg = Some n" and "0 < n"
  shows "int (length (room_for cfg k m)) < n"
proof (cases "known_flow m k")
  case True
  then have "Suc (length (room_for cfg k m)) = length (fm_flows m)"
    using length_filter_neq [of "flow_keys m" k] assms(1)
    by (simp add: room_for_def table_ok_def known_flow_keys)
  then show ?thesis
    using assms(1,2) by (simp add: table_ok_def)
next
  case False
  then show ?thesis
    using assms filter_absent [of k "flow_keys m"]
    by (cases "fm_flows m") (auto simp: room_for_def table_ok_def at_capacity_def known_flow_keys)
qed

lemma process_table_ok:
  assumes "table_ok cfg m" and "opt_sat (\<lambda>n. n \<le> 0) (mc_max_flows cfg) = False"
  shows "table_ok cfg (process_tcp_segment cfg p m)"
proof (cases "relevant cfg p m")
  case True
  let ?m = "process_tcp_segment cfg p m"
  have d: "distinct (flow_keys m)"
    using assms(1) by (simp add: table_ok_def)
  note keys = process_keys [OF True d]
  have "distinct (flow_keys ?m)"
    using keys room_for_distinct [OF d] room_for_absent [OF d] by (elim disjE) auto
  moreover have "int (length (flow_keys ?m)) \<le> n" if "mc_max_flows cfg = Some n" for n
    using keys room_for_length [OF assms(1) that, of "pk_flow p"] assms(2) that
    by (elim disjE) (simp_all add: opt_sat_def)
  ultimately show ?thesis
    by (simp add: table_ok_def split: option.split)
qed (simp add: process_relevant assms(1))

end
