(* ===== verification/Flow_Config.thy ===== *)
theory Flow_Config
  imports Flow_Invariant
begin

text \<open>
  No operation of a flow writes its configuration (limits, timeout policy, generation) or
  its activity timestamp: \<open>flow_config\<close> is constant under every operation of
  \<open>Reassembly\<close>.
\<close>

lemma arm_gap_timer_config [simp]: "flow_config (arm_gap_timer t) = flow_config t"
  by (auto simp: arm_gap_timer_def flow_config_def split: list.splits)

lemma flow_config_updates [simp]:
  "flow_config (t\<lparr>fs_pending := d\<rparr>) = flow_config t" "flow_config (t\<lparr>fs_next_sequence := n\<rparr>) = flow_config t"
  "flow_config (t\<lparr>fs_unanchored := d\<rparr>) = flow_config t" "flow_config (t\<lparr>fs_gap_started_at := g\<rparr>) = flow_config t"
  "flow_config (t\<lparr>fs_unanchored_started_at := g\<rparr>) = flow_config t"
  "flow_config (t\<lparr>fs_fin_sequence := n\<rparr>) = flow_config t" "flow_config (t\<lparr>fs_fin_observed_at := g\<rparr>) = flow_config t"
  "flow_config (clear_unanchored t) = flow_config t"
  by (simp_all add: flow_config_def clear_unanchored_def)

lemma flush_pending_config [simp]: "flow_config (fst (flush_pending sc s)) = flow_config (fst s)"
proof (induction sc s rule: flush_pending.induct)
  case (1 sc s)
  show ?case
  proof (cases "flush_pending_step sc s")
    case (Continue s')
    then have "flow_config (fst s') = flow_config (fst s)"
      by (auto simp: flush_pending_step_def Let_def split: option.splits prod.splits if_splits)
    then show ?thesis
      using "1.IH" [OF Continue] Continue by (simp add: flush_pending.simps [of sc s])
  next
    case (Return s')
    then show ?thesis
      using flush_pending_step_Return [OF Return] by (auto simp: flush_pending.simps [of sc s])
  qed
qed

lemma resume_after_gap_config [simp]: "flow_config (fst (resume_after_gap sc s)) = flow_config (fst s)"
  by (auto simp: resume_after_gap_def split: option.splits)

lemma restore_capacity_config [simp]: "flow_config (fst (restore_capacity sc s)) = flow_config (fst s)"
  by (induction sc s rule: restore_capacity.induct) (simp add: restore_capacity.simps)

lemma resume_expired_gaps_config [simp]:
  "flow_config (fst (snd (resume_expired_gaps sc now n s))) = flow_config (fst s)"
proof (induction sc now n s rule: resume_expired_gaps.induct)
  case (1 sc now n s)
  then show ?case
    by (subst resume_expired_gaps.simps) auto
qed

lemma drain_pending_config [simp]: "flow_config (fst (drain_pending sc s)) = flow_config (fst s)"
  by (induction sc s rule: drain_pending.induct) (simp add: drain_pending.simps)

lemma fin_config [simp]:
  "flow_config (start_fin_gap_timer_if_needed t) = flow_config t" "flow_config (mark_fin q ts t) = flow_config t"
  "flow_config (fst (snd (resume_after_fin_gap sc s))) = flow_config (fst s)"
  by (auto simp: start_fin_gap_timer_if_needed_def mark_fin_def resume_after_fin_gap_def Let_def split: option.splits)

lemma service_gaps_with_config:
  assumes "\<And>s. flow_config (fst (commit s)) = flow_config (fst s)"
  shows "flow_config (fst (snd (service_gaps_with commit sc now s))) = flow_config (fst s)"
proof -
  have "flow_config (fst (service_unanchored commit now s)) = flow_config (fst s)"
    using assms by (auto simp: service_unanchored_def split: option.splits)
  moreover have "flow_config (fst (snd (service_fin_gap sc now rs))) = flow_config (fst (snd rs))" for rs
    by (auto simp: service_fin_gap_def Let_def)
  ultimately show ?thesis
    by (simp add: service_gaps_with_def)
qed

lemma add_anchored_segment_with_config:
  assumes "\<And>s. flow_config (fst (commit s)) = flow_config (fst s)"
  shows "flow_config (fst (add_anchored_segment_with commit sc b q d c s)) = flow_config (fst s)"
proof -
  have "flow_config (fst (park_segment commit sc q d c s)) = flow_config (fst s)" for q
    by (simp add: park_segment_def Let_def service_gaps_with_config [of commit, OF assms])
  then show ?thesis
    by (auto simp: add_anchored_segment_with_def Let_def split: option.splits)
qed

lemma commit_unanchored_config [simp]: "flow_config (fst (commit_unanchored sc q s)) = flow_config (fst s)"
proof (cases "ordered_unanchored (fst s)")
  case (Cons p rest)
  have replay: "flow_config (fst (fold (replay_segment sc) segments s')) = flow_config (fst s')" for segments s'
    by (induction segments arbitrary: s') (auto simp: add_anchored_segment_with_config split: prod.split)
  then show ?thesis
    unfolding commit_unanchored_eq Cons list.case replay by simp
qed (simp add: commit_unanchored_eq)

lemma flow_operations_config [simp]:
  "flow_config (fst (snd (service_gaps sc now s))) = flow_config (fst s)"
  "flow_config (fst (add_segment sc q d c s)) = flow_config (fst s)"
  "flow_config (fst (anchor_sequence sc q s)) = flow_config (fst s)"
  "flow_config (fst (flow_finish sc s)) = flow_config (fst s)"
  "flow_config (fst (flow_reset sc s)) = flow_config (fst s)"
proof -
  show "flow_config (fst (snd (service_gaps sc now s))) = flow_config (fst s)"
    by (simp add: service_gaps_def service_gaps_with_config)
  have "flow_config (fst (add_anchored_segment sc True q d c s)) = flow_config (fst s)"
    by (simp add: add_anchored_segment_def add_anchored_segment_with_config)
  moreover have "flow_config (fst (add_unanchored_segment sc q d c s)) = flow_config (fst s)"
    by (simp add: add_unanchored_segment_def Let_def split: prod.split)
  ultimately show "flow_config (fst (add_segment sc q d c s)) = flow_config (fst s)"
    by (simp add: add_segment_def)
qed (simp_all add: anchor_sequence_def flow_finish_def flow_reset_def)

lemma fs_generation_config: "flow_config t = flow_config t' \<Longrightarrow> fs_generation t = fs_generation t'"
  by (simp add: flow_config_def)

lemma flow_operations_generation:
  "fs_generation (fst (snd (service_gaps sc now s))) = fs_generation (fst s)"
  "fs_generation (fst (add_segment sc q d c s)) = fs_generation (fst s)"
  "fs_generation (fst (anchor_sequence sc q s)) = fs_generation (fst s)"
  "fs_generation (mark_fin q ts t) = fs_generation t"
  by (rule fs_generation_config, simp)+

end
