(* ===== verification/Manager_Contract.thy ===== *)
theory Manager_Contract
  imports Flow_Table Flow_Config
begin

text \<open>
  How a property of one flow becomes a property of the whole table.

  The locale \<open>flow_property\<close> takes a predicate \<open>J\<close> on the entries of the table and
  asks of it what one flow's operations can show: a new entry has it and every operation
  the manager runs on an entry keeps it. Its lemmas conclude that every entry has it after
  any run of the manager's entry points.
\<close>

section \<open>Runs of the manager\<close>

datatype manager_op = Packet tcp_packet | Service pyfloat | Shutdown

fun run_manager_op ::
    "('s, 'w) manager_config \<Rightarrow> manager_op \<Rightarrow> ('s, 'w) flow_manager \<Rightarrow> ('s, 'w) flow_manager" where
  "run_manager_op cfg (Packet p) m = process_tcp_segment cfg p m"
| "run_manager_op cfg (Service now) m = snd (manager_service_gaps cfg now m)"
| "run_manager_op cfg Shutdown m = manager_finish cfg m"

definition run_manager ::
    "('s, 'w) manager_config \<Rightarrow> manager_op list \<Rightarrow> ('s, 'w) flow_manager \<Rightarrow> ('s, 'w) flow_manager" where
  "run_manager cfg ops = fold (run_manager_op cfg) ops"

definition packet_position :: "tcp_packet \<Rightarrow> int" where
  "packet_position p = (pk_sequence p + (if pk_syn p then 1 else 0)) AND 0xFFFFFFFF"

definition packet_context_of :: "tcp_packet \<Rightarrow> int \<Rightarrow> packet_context" where
  "packet_context_of p generation =
     \<lparr>ctx_timestamp = pk_timestamp p, ctx_flow = pk_flow p, ctx_stream_start = None,
      ctx_flow_generation = generation\<rparr>"

definition fresh_state :: "('s, 'w) manager_config \<Rightarrow> int \<Rightarrow> tcp_flow_state" where
  "fresh_state cfg = new_tcp_flow_state (nat (mc_max_pending_segments cfg))
     (map_option nat (mc_max_pending_bytes cfg)) (mc_defer_gap_timeouts cfg)"

definition all_flows :: "(flow_key \<Rightarrow> tcp_flow_state \<times> 's \<Rightarrow> bool) \<Rightarrow> ('s, 'w) flow_manager \<Rightarrow> bool" where
  "all_flows J m \<longleftrightarrow> (\<forall>e \<in> set (fm_flows m). J (fst e) (snd e))"

lemma all_flows_subset: "set (fm_flows m') \<subseteq> set (fm_flows m) \<Longrightarrow> all_flows J m \<Longrightarrow> all_flows J m'"
  by (auto simp: all_flows_def)

lemma all_flows_on_flow:
  assumes "all_flows J m"
    and "\<And>t s n w t' s' n' w'. map_of (fm_flows m) k = Some (t, s) \<Longrightarrow> J k (t, s) \<Longrightarrow>
      f (t, s, n, w) = (t', s', n', w') \<Longrightarrow> J k (t', s')"
  shows "all_flows J (on_flow f k m)"
proof (cases "map_of (fm_flows m) k")
  case (Some st)
  obtain t s where st: "st = (t, s)"
    by (cases st)
  obtain t' s' n' w' where f: "f (t, s, fm_tcp_gap_resets m, fm_world m) = (t', s', n', w')"
    by (metis prod_cases4)
  have "J k (t, s)"
    using assms(1) map_of_SomeD [OF Some] st by (auto simp: all_flows_def)
  then have "J k (t', s')"
    using assms(2) [OF _ _ f] Some st by blast
  then show ?thesis
    using assms(1) Some st f set_update_subset [of k "(t', s')" "fm_flows m"]
    by (fastforce simp: on_flow_def all_flows_def)
qed (use assms(1) in \<open>simp add: on_flow_def\<close>)

lemma flow_generation_on_flow:
  assumes "\<And>s. fs_generation (fst (f s)) = fs_generation (fst s)"
  shows "flow_generation (on_flow f k m) k' = flow_generation m k'"
  using assms [of "(t, x)" for t x]
  by (auto simp: on_flow_def flow_generation_def update_conv' split: option.splits prod.splits) 
    (metis fst_conv)+

section \<open>The interface\<close>

locale flow_property =
  fixes cfg :: "('s, 'w) manager_config"
    and J :: "flow_key \<Rightarrow> tcp_flow_state \<times> 's \<Rightarrow> bool"
    and pkt_ok :: "tcp_packet \<Rightarrow> bool"
  assumes J_new: "mc_scanner_factory cfg w = (s, w') \<Longrightarrow> J k (fresh_state cfg g, s)"
    and J_touch: "J k (t, s) \<Longrightarrow> J k (t\<lparr>fs_last_activity_at := a\<rparr>, s)"
    and J_anchor: "J k (t, s) \<Longrightarrow>
      anchor_sequence (flow_scanner cfg k (fs_generation t)) q (t, s, n, w) = (t', s', n', w') \<Longrightarrow> J k (t', s')"
    and J_add: "J (pk_flow p) (t, s) \<Longrightarrow> pkt_ok p \<Longrightarrow>
      add_segment (flow_scanner cfg (pk_flow p) (fs_generation t)) (packet_position p) (pk_payload p)
        (packet_context_of p (fs_generation t)) (t, s, n, w) = (t', s', n', w') \<Longrightarrow> J (pk_flow p) (t', s')"
    and J_fin: "J k (t, s) \<Longrightarrow> J k (mark_fin q ts t, s)"
    and J_service: "J k (t, s) \<Longrightarrow>
      snd (service_gaps (flow_scanner cfg k (fs_generation t)) now (t, s, n, w)) = (t', s', n', w') \<Longrightarrow> J k (t', s')"
begin

lemma touch_all:
  assumes "all_flows J m"
  shows "all_flows J (touch_flow k ts m)"
proof (cases "map_of (fm_flows m) k")
  case (Some st)
  obtain t s where st: "st = (t, s)"
    by (cases st)
  have "J k (t, s)"
    using assms map_of_SomeD [OF Some] st by (auto simp: all_flows_def)
  note J_touch [OF this, of "Some ts"]
  then show ?thesis
    using assms Some st by (auto simp: touch_flow_def all_flows_def set_delete)
qed (use assms in \<open>simp add: touch_flow_def\<close>)

lemma admit_all: "all_flows J m \<Longrightarrow> all_flows J (admit_packet cfg p m)"
proof -
  assume m: "all_flows J m"
  let ?k = "pk_flow p"
  have "set (fm_flows (make_room cfg ?k m)) \<subseteq> set (fm_flows m)"
    by (cases "fm_flows m") (auto simp: make_room_def evict_oldest_table)
  then have 1: "all_flows J (make_room cfg ?k m)"
    using m by (rule all_flows_subset)
  have "set (fm_flows (restart_flow cfg (pk_syn p) ?k m')) \<subseteq> set (fm_flows m')" for m' :: "('s, 'w) flow_manager"
    by (auto simp: restart_flow_def close_flow_table set_delete)
  from this 1 have 2: "all_flows J (restart_flow cfg (pk_syn p) ?k (make_room cfg ?k m))" (is "all_flows J ?m2")
    by (rule all_flows_subset)
  have "all_flows J (new_flow cfg ?k ?m2)"
  proof -
    obtain s w where f: "mc_scanner_factory cfg (fm_world ?m2) = (s, w)"
      by (cases "mc_scanner_factory cfg (fm_world ?m2)")
    have "fm_flows (new_flow cfg ?k ?m2) = AList.update ?k (fresh_state cfg g, s) (fm_flows ?m2)"
      if "g = (if mc_track_flow_generations cfg then fm_next_flow_generation ?m2 + 1 else 0)" for g
      using f that by (simp add: new_flow_def fresh_state_def Let_def)
    then obtain g where eq: "fm_flows (new_flow cfg ?k ?m2) = AList.update ?k (fresh_state cfg g, s) (fm_flows ?m2)"
      by blast
    have "J ?k (fresh_state cfg g, s)"
      by (rule J_new [OF f])
    then show ?thesis
      unfolding all_flows_def eq
      using 2 set_update_subset [of ?k "(fresh_state cfg g, s)" "fm_flows ?m2"] by (fastforce simp: all_flows_def)
  qed
  with 2 have 3: "all_flows J (ensure_flow cfg ?k ?m2)" (is "all_flows J ?m3")
    by (simp add: ensure_flow_def)
  then have "all_flows J (touch_flow ?k (pk_timestamp p) ?m3)"
    by (rule touch_all)
  then show ?thesis
    by (simp add: admit_packet_def)
qed

lemma deliver_all:
  assumes "all_flows J m" and "pkt_ok p"
  shows "all_flows J (deliver_packet cfg p m)"
proof -
  let ?k = "pk_flow p"
  let ?sc = "flow_scanner cfg ?k (flow_generation m ?k)"
  let ?m1 = "if pk_syn p then on_flow (anchor_sequence ?sc ((pk_sequence p + 1) AND 0xFFFFFFFF)) ?k m else m"
  have gen: "flow_generation m' ?k = fs_generation t" if "map_of (fm_flows m') ?k = Some (t, s)"
    for m' :: "('s, 'w) flow_manager" and t s
    using that by (simp add: flow_generation_def)
  have "all_flows J (on_flow (anchor_sequence ?sc q) ?k m)" for q
    by (rule all_flows_on_flow [OF assms(1)]) (metis J_anchor gen)
  then have m1: "all_flows J ?m1"
    using assms(1) by simp
  have "flow_generation ?m1 ?k = flow_generation m ?k"
    by (simp add: flow_generation_on_flow flow_operations_generation)
  note gen1 = gen [of ?m1, unfolded this]
  have "all_flows J (on_flow (add_segment ?sc (packet_position p) (pk_payload p)
      (packet_context_of p (flow_generation m ?k))) ?k ?m1)"
    by (rule all_flows_on_flow [OF m1]) (metis J_add assms(2) gen1)
  then show ?thesis
    using m1 by (simp add: deliver_packet_def Let_def packet_position_def packet_context_of_def)
qed

lemma close_flow_all: "all_flows J m \<Longrightarrow> all_flows J (close_flow cfg k m)"
  by (erule all_flows_subset [rotated]) (auto simp: close_flow_table set_delete)

lemma pop_and_close_all: "all_flows J m \<Longrightarrow> all_flows J (pop_and_close cfg k m)"
  by (erule all_flows_subset [rotated]) (auto simp: close_flow_table set_delete)

lemma process_all:
  assumes "all_flows J m" and "pkt_ok p"
  shows "all_flows J (process_tcp_segment cfg p m)"
proof -
  let ?m = "deliver_packet cfg p (admit_packet cfg p m)"
  have m: "all_flows J ?m"
    using assms by (intro deliver_all admit_all)
  have "all_flows J (on_flow (\<lambda>(t, x). (mark_fin q ts t, x)) k ?m)" for q ts k
    by (rule all_flows_on_flow [OF m]) (auto intro: J_fin)
  then have "all_flows J (close_packet cfg p ?m)"
    using m close_flow_all by (simp add: close_packet_def Let_def)
  then show ?thesis
    using assms(1) by (simp add: process_relevant)
qed

lemma fold_pop_all: "all_flows J m \<Longrightarrow> all_flows J (fold (pop_and_close cfg) ks m)"
  by (induction ks arbitrary: m) (simp_all add: pop_and_close_all)

lemma service_flows_all: "all_flows J m \<Longrightarrow> all_flows J (snd (service_flows cfg now ks completed m))"
proof (induction ks arbitrary: completed m)
  case (Cons k ks)
  have "all_flows J (on_flow (\<lambda>s. snd (service_gaps (flow_scanner cfg k (flow_generation m k)) now s)) k m)"
    using Cons.prems by (rule all_flows_on_flow) (metis J_service flow_generation_def option.case(2) prod.case)
  then show ?case
    using Cons.IH by (simp add: Let_def)
qed simp

lemma service_all: "all_flows J m \<Longrightarrow> all_flows J (snd (manager_service_gaps cfg now m))"
  using service_flows_all [of m now "flow_keys m" "[]"]
  by (auto simp: manager_service_gaps_def Let_def fold_pop_all split: prod.split option.split)

lemma manager_finish_flows: "fm_flows (manager_finish cfg m) = []"
proof -
  have "fm_flows (fold (\<lambda>(flow, state) m'. notify_flow_close cfg flow (finish_flow cfg flow state m')) d m') = fm_flows m'"
    for d and m' :: "('s, 'w) flow_manager"
    by (induction d arbitrary: m') (auto simp: table_simps split: prod.split)
  then show ?thesis
    by (simp add: manager_finish_def)
qed

theorem run_all:
  assumes "\<And>p. Packet p \<in> set ops \<Longrightarrow> pkt_ok p" and "all_flows J m"
  shows "all_flows J (run_manager cfg ops m)"
  unfolding run_manager_def
proof (rule fold_invariant)
  show "all_flows J m"
    by (rule assms(2))
  show "all_flows J (run_manager_op cfg op m')" if "op \<in> set ops" "all_flows J m'" for op m'
  proof (cases op)
    case (Packet p)
    then show ?thesis
      using process_all [OF that(2), of p] assms(1) that(1) by simp
  next
    case (Service now)
    then show ?thesis
      using service_all [OF that(2)] by simp
  next
    case Shutdown
    have "all_flows J (manager_finish cfg m')"
      by (simp only: all_flows_def manager_finish_flows) simp
    then show ?thesis
      using Shutdown by simp
  qed
qed

end

section \<open>Instances\<close>

text \<open>Every entry is a well-formed flow state within the configured limits.\<close>

definition flow_sound :: "('s, 'w) manager_config \<Rightarrow> flow_key \<Rightarrow> tcp_flow_state \<times> 's \<Rightarrow> bool" where
  "flow_sound cfg k e \<longleftrightarrow> flow_wf (fst e) \<and>
     bounded (nat (mc_max_pending_segments cfg)) (map_option nat (mc_max_pending_bytes cfg)) (fst e)"

lemma entry_of_flow:
  "f (t, x) = (t', x') \<Longrightarrow> (\<And>s. P (fst s) \<Longrightarrow> P (fst (f s))) \<Longrightarrow> P t \<Longrightarrow> P t'"
  by (metis fst_conv)

interpretation sound: flow_property cfg "flow_sound cfg" "\<lambda>_. True"
proof
  fix k and t t' :: tcp_flow_state and s s' q n n' w w' p now
  let ?P = "\<lambda>t. flow_wf t \<and> bounded (nat (mc_max_pending_segments cfg)) (map_option nat (mc_max_pending_bytes cfg)) t"
  assume t: "flow_sound cfg k (t, s)"
  show "flow_sound cfg k (t\<lparr>fs_last_activity_at := a\<rparr>, s)" for a
    using t by (simp add: flow_sound_def flow_wf_def flow_wf0_def bounded_def has_limits_def)
  show "flow_sound cfg k (t', s')"
    if "anchor_sequence (flow_scanner cfg k (fs_generation t)) q (t, s, n, w) = (t', s', n', w')"
    using entry_of_flow [where f = "anchor_sequence (flow_scanner cfg k (fs_generation t)) q" and P = ?P, OF that] t
    by (auto simp: flow_sound_def intro: anchor_sequence_wf anchor_sequence_bounded)
  show "flow_sound cfg k (mark_fin q ts t, s)" for ts
    using t by (simp add: flow_sound_def mark_fin_wf mark_fin_bounded)
  show "flow_sound cfg k (t', s')"
    if "snd (service_gaps (flow_scanner cfg k (fs_generation t)) now (t, s, n, w)) = (t', s', n', w')"
    using entry_of_flow [where f = "\<lambda>s. snd (service_gaps (flow_scanner cfg k (fs_generation t)) now s)"
        and P = ?P, OF that] t
    by (auto simp: flow_sound_def intro: service_gaps_wf service_gaps_bounded)
next
  fix p and t t' :: tcp_flow_state and s s' n n' w w'
  let ?P = "\<lambda>t. flow_wf t \<and> bounded (nat (mc_max_pending_segments cfg)) (map_option nat (mc_max_pending_bytes cfg)) t"
  assume t: "flow_sound cfg (pk_flow p) (t, s)" and
    step: "add_segment (flow_scanner cfg (pk_flow p) (fs_generation t)) (packet_position p) (pk_payload p)
      (packet_context_of p (fs_generation t)) (t, s, n, w) = (t', s', n', w')"
  show "flow_sound cfg (pk_flow p) (t', s')"
    using entry_of_flow [where f = "add_segment (flow_scanner cfg (pk_flow p) (fs_generation t)) (packet_position p)
          (pk_payload p) (packet_context_of p (fs_generation t))" and P = ?P, OF step] t
    by (auto simp: flow_sound_def intro: add_segment_wf add_segment_bounded)
qed (simp add: flow_sound_def fresh_state_def new_flow_wf new_flow_bounded)

end
