(* ===== verification/Manager_Trace.thy ===== *)
theory Manager_Trace
  imports Manager_Contract
begin

text \<open>
  The flow manager under observation: \<open>tracing_config\<close> gives every flow a scanner that
  records its calls (\<open>trace_scanner\<close>) and callbacks that append what they are told to one
  log. The theorems on the log say which flows are closed and which gaps are reported; those
  on the traces say what each flow's scanner is fed.
\<close>

datatype manager_event = Evicted | Closed flow_key | GapReset flow_key int int

record table_limits =
  tl_ports :: "int set"
  tl_max_flows :: "int option"
  tl_idle_timeout :: "pyfloat option"
  tl_max_segments :: int
  tl_max_bytes :: "int option"
  tl_defer :: bool
  tl_can_anchor :: "(bytes \<Rightarrow> bool) option"

definition tracing_scanner ::
    "(bytes \<Rightarrow> bool) option \<Rightarrow> (scan_event list \<times> manager_event list) stream_scanner" where
  "tracing_scanner can_anchor =
     \<lparr>sc_feed = (\<lambda>d c (tr, w). (tr @ [Fed d c], w)),
      sc_scan_standalone = (\<lambda>d c (tr, w). (tr @ [Rescanned d c], w)),
      sc_reset = (\<lambda>(tr, w). (tr @ [ScannerReset], w)),
      sc_can_anchor_at_start = can_anchor, sc_on_gap_reset = None\<rparr>"

definition tracing_config :: "table_limits \<Rightarrow> (scan_event list, manager_event list) manager_config" where
  "tracing_config l =
     \<lparr>mc_server_ports = tl_ports l, mc_scanner = tracing_scanner (tl_can_anchor l),
      mc_scanner_factory = (\<lambda>w. ([], w)), mc_max_flows = tl_max_flows l,
      mc_on_flow_eviction = Some (\<lambda>w. w @ [Evicted]),
      mc_on_flow_close = Some (\<lambda>k w. w @ [Closed k]),
      mc_on_flow_reset = Some (\<lambda>k g s w. w @ [GapReset k g s]),
      mc_idle_timeout = tl_idle_timeout l, mc_track_flow_generations = True,
      mc_max_pending_segments = tl_max_segments l, mc_max_pending_bytes = tl_max_bytes l,
      mc_defer_gap_timeouts = tl_defer l\<rparr>"

abbreviation traced_scanner ::
    "table_limits \<Rightarrow> flow_key \<Rightarrow> int \<Rightarrow> (scan_event list \<times> int \<times> manager_event list) stream_scanner" where
  "traced_scanner l \<equiv> flow_scanner (tracing_config l)"

lemma traced_scanner_simps [simp]:
  "sc_feed (traced_scanner l k g) d c (tr, n, w) = (tr @ [Fed d c], n, w)"
  "sc_scan_standalone (traced_scanner l k g) d c (tr, n, w) = (tr @ [Rescanned d c], n, w)"
  "gap_reset (traced_scanner l k g) q (tr, n, w) = (tr @ [ScannerReset], n + 1, w @ [GapReset k g q])"
  "sc_reset (traced_scanner l k g) (tr, n, w) = (tr @ [ScannerReset], n, w)"
  by (simp_all add: flow_scanner_def tracing_config_def tracing_scanner_def lift_scan_def gap_reset_def
      record_gap_reset_def)

section \<open>What each scanner is fed\<close>

interpretation traced: flow_contract "traced_scanner l k g" "agrees S" "\<lambda>ns x. trace_ok S ns (fst x)"
proof
  show "agrees S (s + int k) (drop k d) c" if "agrees S s d c" "k \<le> length d" for s d c k
    using that by (rule agrees_drop)
  show "agrees S s (take k d) c" if "agrees S s d c" for s d c k
    using that by (rule agrees_take)
  show "agrees S s' d c" if "agrees S s d c" "s' mod TCP_SEQUENCE_MODULUS = s mod TCP_SEQUENCE_MODULUS"
    for s d c s'
    using that by (rule agrees_mod)
  fix x :: "scan_event list \<times> int \<times> manager_event list" and n s ns d c
  obtain tr m w where x: "x = (tr, m, w)"
    by (cases x)
  show "trace_ok S (Some (n + int (length d)))
      (fst (sc_feed (traced_scanner l k g) d (c\<lparr>ctx_stream_start := Some n\<rparr>) x))"
    if "trace_ok S (Some n) (fst x)" "agrees S n d c"
    using that by (auto simp: x trace_ok_def stream_cursor_append)
  show "trace_ok S (Some n)
      (fst (sc_scan_standalone (traced_scanner l k g) d (c\<lparr>ctx_stream_start := Some s\<rparr>) x))"
    if "trace_ok S (Some n) (fst x)" "agrees S s d c" "s + int (length d) \<le> n"
    using that by (auto simp: x trace_ok_def stream_cursor_append)
  show "trace_ok S (Some s) (fst (gap_reset (traced_scanner l k g) s x))" if "trace_ok S ns (fst x)"
    using that by (auto simp: x trace_ok_def stream_cursor_append)
  show "trace_ok S None (fst (sc_reset (traced_scanner l k g) x))" if "trace_ok S ns (fst x)"
    using that by (auto simp: x trace_ok_def stream_cursor_append)
  show "trace_ok S (Some s) (fst x)" if "trace_ok S None (fst x)"
    using that by (auto simp: trace_ok_def)
qed

definition entry_faithful :: "streams \<Rightarrow> flow_key \<Rightarrow> tcp_flow_state \<times> scan_event list \<Rightarrow> bool" where
  "entry_faithful S k e \<longleftrightarrow> flow_wf (fst e) \<and> trace_ok S (fs_next_sequence (fst e)) (snd e) \<and>
     buffers_ok (agrees S) (fst e)"

definition packet_agrees :: "streams \<Rightarrow> tcp_packet \<Rightarrow> bool" where
  "packet_agrees S p \<longleftrightarrow> (\<forall>g. agrees S (packet_position p) (pk_payload p) (packet_context_of p g))"

lemma entry_faithful_step:
  assumes "entry_faithful S k (t, s)" and "f (t, s, x) = (t', s', x')"
    and "\<And>s. flow_wf (fst s) \<Longrightarrow> flow_wf (fst (f s))"
    and "\<And>s. flow_wf (fst s) \<Longrightarrow> traced.inv S s \<Longrightarrow> traced.inv S (f s)"
  shows "entry_faithful S k (t', s')"
  using assms(1) assms(2) assms(3,4) [of "(t, s, x)"] by (simp add: entry_faithful_def traced.inv_def)

interpretation faithful: flow_property "tracing_config l" "entry_faithful S" "packet_agrees S"
proof
  fix k w s w' g
  assume "mc_scanner_factory (tracing_config l) w = (s, w')"
  then have "s = []"
    by (simp add: tracing_config_def)
  then show "entry_faithful S k (fresh_state (tracing_config l) g, s)"
    unfolding entry_faithful_def fresh_state_def fst_conv snd_conv
    by (intro conjI new_flow_wf) (simp_all add: trace_ok_def new_tcp_flow_state_def buffers_ok_def)
next
  fix k and t t' :: tcp_flow_state and s s' q n n' w w' p now
  assume t: "entry_faithful S k (t, s)"
  show "entry_faithful S k (t\<lparr>fs_last_activity_at := a\<rparr>, s)" for a
    using t by (simp add: entry_faithful_def flow_wf_def flow_wf0_def buffers_ok_def)
  show "entry_faithful S k (t', s')"
    if "anchor_sequence (traced_scanner l k (fs_generation t)) q (t, s, n, w) = (t', s', n', w')"
    using t that by (rule entry_faithful_step) (auto intro: anchor_sequence_wf traced.anchor_sequence_inv)
  show "entry_faithful S k (mark_fin q ts t, s)" for ts
    using t traced.mark_fin_inv [of S "(t, s, n, w)" q ts]
    by (simp add: entry_faithful_def mark_fin_wf traced.inv_def)
  show "entry_faithful S k (t', s')"
    if "snd (service_gaps (traced_scanner l k (fs_generation t)) now (t, s, n, w)) = (t', s', n', w')"
    using t that by (rule entry_faithful_step) (auto intro: service_gaps_wf traced.service_gaps_inv)
next
  fix p and t t' :: tcp_flow_state and s s' n n' w w'
  assume t: "entry_faithful S (pk_flow p) (t, s)" and p: "packet_agrees S p" and
    step: "add_segment (traced_scanner l (pk_flow p) (fs_generation t)) (packet_position p) (pk_payload p)
      (packet_context_of p (fs_generation t)) (t, s, n, w) = (t', s', n', w')"
  show "entry_faithful S (pk_flow p) (t', s')"
    using t step by (rule entry_faithful_step)
      (use p in \<open>auto intro: add_segment_wf traced.add_segment_inv simp: packet_agrees_def\<close>)
qed

section \<open>What the log says\<close>

fun closed_log :: "manager_event list \<Rightarrow> flow_key list" where
  "closed_log [] = []"
| "closed_log (Closed k # w) = k # closed_log w"
| "closed_log (_ # w) = closed_log w"

fun gap_log :: "manager_event list \<Rightarrow> (flow_key \<times> int) list" where
  "gap_log [] = []"
| "gap_log (GapReset k g s # w) = (k, g) # gap_log w"
| "gap_log (_ # w) = gap_log w"

lemma closed_log_append [simp]: "closed_log (w @ w') = closed_log w @ closed_log w'"
  by (induction w rule: closed_log.induct) auto

lemma gap_log_append [simp]: "gap_log (w @ w') = gap_log w @ gap_log w'"
  by (induction w rule: gap_log.induct) auto

text \<open>Running a flow closes nothing and counts every gap it reports.\<close>

definition log_ok :: "flow_key list \<Rightarrow> int \<times> manager_event list \<Rightarrow> bool" where
  "log_ok closes x \<longleftrightarrow> closed_log (snd x) = closes \<and> fst x = int (length (gap_log (snd x)))"

interpretation logged: flow_contract "traced_scanner l k g" "\<lambda>_ _ _. True" "\<lambda>_ x. log_ok closes (snd x)"
proof
  fix x :: "scan_event list \<times> int \<times> manager_event list" and n s ns d c
  obtain tr m w where x: "x = (tr, m, w)"
    by (cases x)
  show "log_ok closes (snd (sc_feed (traced_scanner l k g) d (c\<lparr>ctx_stream_start := Some n\<rparr>) x))"
    if "log_ok closes (snd x)"
    using that by (simp add: x log_ok_def)
  show "log_ok closes (snd (sc_scan_standalone (traced_scanner l k g) d (c\<lparr>ctx_stream_start := Some s\<rparr>) x))"
    if "log_ok closes (snd x)"
    using that by (simp add: x log_ok_def)
  show "log_ok closes (snd (gap_reset (traced_scanner l k g) s x))" if "log_ok closes (snd x)"
    using that by (simp add: x log_ok_def)
  show "log_ok closes (snd (sc_reset (traced_scanner l k g) x))" if "log_ok closes (snd x)"
    using that by (simp add: x log_ok_def)
qed auto

definition manager_log :: "(scan_event list, manager_event list) flow_manager \<Rightarrow> int \<times> manager_event list" where
  "manager_log m = (fm_tcp_gap_resets m, fm_world m)"

definition gaps_counted :: "(scan_event list, manager_event list) flow_manager \<Rightarrow> bool" where
  "gaps_counted m \<longleftrightarrow> fm_tcp_gap_resets m = int (length (gap_log (fm_world m)))"

lemma log_ok_self: "log_ok closes (manager_log m) \<longleftrightarrow> closed_log (fm_world m) = closes \<and> gaps_counted m"
  by (simp add: log_ok_def manager_log_def gaps_counted_def)

definition accounted :: "table_limits \<Rightarrow> (scan_event list, manager_event list) flow_manager \<Rightarrow> bool" where
  "accounted l m \<longleftrightarrow> all_flows (flow_sound (tracing_config l)) m \<and> distinct (flow_keys m) \<and>
     gaps_counted m \<and>
     fm_next_flow_generation m = int (length (closed_log (fm_world m)) + length (fm_flows m))"

lemma logged_flow:
  assumes "f (t, s, n, w) = (t', s', n', w')" and "log_ok closes (n, w)" and "flow_wf t"
    and "\<And>s. logged.inv closes s \<Longrightarrow> flow_wf (fst s) \<Longrightarrow> logged.inv closes (f s)"
  shows "log_ok closes (n', w')"
  using assms(1-3) assms(4) [of "(t, s, n, w)"]
  by (simp add: logged.inv_def buffers_ok_def segment_ok_def)

lemma accounted_on_flow:
  assumes "accounted l m" and "all_flows (flow_sound (tracing_config l)) (on_flow f k m)"
    and "\<And>s closes. logged.inv closes s \<Longrightarrow> flow_wf (fst s) \<Longrightarrow> logged.inv closes (f s)"
  shows "accounted l (on_flow f k m)"
proof (cases "map_of (fm_flows m) k")
  case (Some st)
  obtain t s where st: "st = (t, s)"
    by (cases st)
  obtain t' s' n' w' where f: "f (t, s, fm_tcp_gap_resets m, fm_world m) = (t', s', n', w')"
    by (metis prod_cases4)
  let ?c = "closed_log (fm_world m)"
  have "flow_wf t"
    using assms(1) map_of_SomeD [OF Some] st by (auto simp: accounted_def all_flows_def flow_sound_def)
  moreover have "log_ok ?c (fm_tcp_gap_resets m, fm_world m)"
    using assms(1) by (simp add: accounted_def log_ok_self [unfolded manager_log_def])
  ultimately have log: "log_ok ?c (n', w')"
    using logged_flow [where f = f, OF f _ _ assms(3)] by blast
  have len: "length (fm_flows (on_flow f k m)) = length (fm_flows m)"
    by (metis flow_keys_on_flow length_map)
  have eq: "manager_log (on_flow f k m) = (n', w')" "fm_world (on_flow f k m) = w'"
    "fm_next_flow_generation (on_flow f k m) = fm_next_flow_generation m"
    using Some st f by (simp_all add: on_flow_def manager_log_def)
  have "closed_log w' = ?c"
    using log by (simp add: log_ok_def)
  moreover have "distinct (flow_keys (on_flow f k m))"
    using assms(1) by (simp only: flow_keys_on_flow accounted_def)
  ultimately show ?thesis
    using assms(1,2) log len log_ok_self [of ?c "on_flow f k m"] by (simp add: accounted_def eq)
qed (use assms in \<open>simp add: on_flow_def\<close>)

lemma accounted_op:
  assumes "accounted l m" and "\<And>s. flow_wf (fst s) \<Longrightarrow> flow_wf (fst (f s))"
    and "\<And>a b s. bounded a b (fst s) \<Longrightarrow> bounded a b (fst (f s))"
    and "\<And>s closes. logged.inv closes s \<Longrightarrow> flow_wf (fst s) \<Longrightarrow> logged.inv closes (f s)"
  shows "accounted l (on_flow f k m)"
proof (rule accounted_on_flow [OF assms(1) _ assms(4)])
  have "flow_sound (tracing_config l) k (t', s')"
    if "flow_sound (tracing_config l) k (t, s)" "f (t, s, n, w) = (t', s', n', w')" for t s n w t' s' n' w'
    using assms(2) [of "(t, s, n, w)"] assms(3) [of _ _ "(t, s, n, w)"] that by (simp add: flow_sound_def)
  then show "all_flows (flow_sound (tracing_config l)) (on_flow f k m)"
    using assms(1) by (intro all_flows_on_flow) (auto simp: accounted_def)
qed

lemma finish_flow_log:
  assumes "log_ok closes (manager_log m)" and "flow_wf (fst st)"
  shows "log_ok closes (manager_log (finish_flow (tracing_config l) k st m))"
proof -
  obtain t s where st: "st = (t, s)"
    by (cases st)
  obtain t' s' n' w' where f: "flow_finish (traced_scanner l k (fs_generation t))
      (t, s, fm_tcp_gap_resets m, fm_world m) = (t', s', n', w')"
    by (metis prod_cases4)
  have "log_ok closes (n', w')"
    using logged_flow [where f = "flow_finish (traced_scanner l k (fs_generation t))", OF f _ _ logged.flow_finish_inv] assms st by (simp add: manager_log_def)
  then show ?thesis
    by (simp add: finish_flow_def st f manager_log_def)
qed

lemma close_entry_log:
  assumes "gaps_counted m" and "flow_wf (fst st)"
  shows "let m' = notify_flow_close (tracing_config l) k (finish_flow (tracing_config l) k st m)
    in gaps_counted m' \<and> closed_log (fm_world m') = closed_log (fm_world m) @ [k]"
  using finish_flow_log [of "closed_log (fm_world m)" m st l k] assms
  by (simp add: Let_def notify_flow_close_def tracing_config_def log_ok_self gaps_counted_def)

lemma pop_and_close_as_close: "pop_and_close cfg k m = close_flow cfg k m"
proof -
  have "finish_flow cfg k st (pop_flow k m) = pop_flow k (finish_flow cfg k st m)" for st
    by (cases st) (simp add: finish_flow_def pop_flow_def split: prod.split)
  then show ?thesis
    by (simp add: pop_and_close_def close_flow_def split: option.split)
qed

lemma length_delete_known: "distinct (map fst d) \<Longrightarrow> k \<in> fst ` set d \<Longrightarrow> Suc (length (AList.delete k d)) = length d"
  using length_filter_neq [of "map fst d" k] by (simp only: keys_delete [symmetric] length_map set_map)

lemma accounted_pop:
  assumes "accounted l m"
  shows "accounted l (pop_and_close (tracing_config l) k m)"
proof (cases "map_of (fm_flows m) k")
  case (Some st)
  let ?m = "pop_flow k m"
  let ?m' = "notify_flow_close (tracing_config l) k (finish_flow (tracing_config l) k st ?m)"
  have wf: "flow_wf (fst st)"
    using assms map_of_SomeD [OF Some] by (auto simp: accounted_def all_flows_def flow_sound_def)
  have "gaps_counted ?m"
    using assms by (simp add: accounted_def pop_flow_def gaps_counted_def)
  note log = close_entry_log [OF this wf, of l k, unfolded Let_def]
  have world: "fm_world ?m = fm_world m"
    by (simp add: pop_flow_def)
  have eq: "pop_and_close (tracing_config l) k m = ?m'"
    by (simp add: pop_and_close_def Some)
  have flows: "fm_flows ?m' = AList.delete k (fm_flows m)"
    by (simp add: table_simps)
  have gen: "fm_next_flow_generation ?m' = fm_next_flow_generation m"
    by (simp add: table_simps)
  have "k \<in> fst ` set (fm_flows m)"
    using Some by (rule map_of_member)
  then have "Suc (length (fm_flows ?m')) = length (fm_flows m)"
    unfolding flows using assms by (intro length_delete_known) (simp_all add: accounted_def)
  moreover have "length (closed_log (fm_world ?m')) = Suc (length (closed_log (fm_world m)))"
    using log world by simp
  ultimately have "fm_next_flow_generation ?m' =
      int (length (closed_log (fm_world ?m')) + length (fm_flows ?m'))"
    using assms by (simp add: gen accounted_def)
  moreover have "all_flows (flow_sound (tracing_config l)) ?m'"
    using assms sound.pop_and_close_all [of "tracing_config l" m k] eq by (simp add: accounted_def)
  moreover have "distinct (flow_keys ?m')"
    unfolding flows using assms by (simp add: accounted_def distinct_dict_delete)
  ultimately show ?thesis
    unfolding eq accounted_def using log [THEN conjunct1] by (simp only: simp_thms)
qed (use assms in \<open>simp add: pop_and_close_def\<close>)

lemma accounted_new:
  assumes "accounted l m" and "\<not> known_flow m k"
  shows "accounted l (new_flow (tracing_config l) k m)"
proof -
  have "flow_sound (tracing_config l) k (fresh_state (tracing_config l) g, [])" for g
    by (rule sound.J_new) (simp add: tracing_config_def)
  moreover have k: "k \<notin> fst ` set (fm_flows m)"
    using assms(2) by (simp add: known_flow_def)
  moreover have "new_flow (tracing_config l) k m =
      m\<lparr>fm_next_flow_generation := fm_next_flow_generation m + 1,
        fm_flows := AList.update k (fresh_state (tracing_config l) (fm_next_flow_generation m + 1), [])
                      (fm_flows m)\<rparr>"
    by (simp add: new_flow_def fresh_state_def tracing_config_def Let_def)
  ultimately show ?thesis
    using assms(1) by (simp add: accounted_def all_flows_def update_absent gaps_counted_def)
qed

lemma accounted_touch:
  assumes "accounted l m"
  shows "accounted l (touch_flow k ts m)"
proof -
  have "length (fm_flows (touch_flow k ts m)) = length (fm_flows m)"
    using assms length_delete_known [of "fm_flows m" k]
    by (auto simp: touch_flow_def accounted_def map_of_member split: option.split)
  moreover have "all_flows (flow_sound (tracing_config l)) (touch_flow k ts m)"
    using assms by (intro sound.touch_all) (simp add: accounted_def)
  moreover have "distinct (flow_keys (touch_flow k ts m))"
    using assms by (simp only: touch_flow_keys accounted_def) simp
  moreover have "gaps_counted (touch_flow k ts m) = gaps_counted m" "fm_world (touch_flow k ts m) = fm_world m"
    "fm_next_flow_generation (touch_flow k ts m) = fm_next_flow_generation m"
    by (auto simp: touch_flow_def gaps_counted_def split: option.split)
  ultimately show ?thesis
    using assms by (simp add: accounted_def)
qed

lemma accounted_evict:
  assumes "accounted l m"
  shows "accounted l (evict_oldest (tracing_config l) m)"
proof (cases "at_capacity (tracing_config l) m \<and> fm_flows m \<noteq> []")
  case True
  then obtain k st rest n where flows: "fm_flows m = (k, st) # rest" and n: "mc_max_flows (tracing_config l) = Some n"
    and cap: "int (length (fm_flows m)) \<ge> n"
    by (cases "fm_flows m") (auto simp: at_capacity_def split: option.splits)
  let ?m = "m\<lparr>fm_flows := rest, fm_world := fm_world m @ [Evicted]\<rparr>"
  let ?m' = "notify_flow_close (tracing_config l) k (finish_flow (tracing_config l) k st ?m)"
  have eq: "evict_oldest (tracing_config l) m = ?m'"
    using flows n cap by (simp add: evict_oldest_def tracing_config_def)
  have wf: "flow_wf (fst st)"
    using assms flows by (simp add: accounted_def all_flows_def flow_sound_def)
  have "gaps_counted ?m"
    using assms by (simp add: accounted_def gaps_counted_def)
  note log = close_entry_log [OF this wf, of l k, unfolded Let_def]
  have table: "fm_flows ?m' = rest" "fm_next_flow_generation ?m' = fm_next_flow_generation m"
    by (simp_all add: table_simps)
  have "length (closed_log (fm_world ?m')) = Suc (length (closed_log (fm_world m)))"
    using log by simp
  then have "fm_next_flow_generation ?m' = int (length (closed_log (fm_world ?m')) + length (fm_flows ?m'))"
    using assms flows by (simp add: table accounted_def)
  moreover have "all_flows (flow_sound (tracing_config l)) ?m'" "distinct (flow_keys ?m')"
    using assms flows by (simp_all add: accounted_def all_flows_def table)
  ultimately show ?thesis
    unfolding eq accounted_def using log [THEN conjunct1] by (simp only: simp_thms)
next
  case False
  then have "evict_oldest (tracing_config l) m = m"
    by (cases "fm_flows m") (auto simp: evict_oldest_def at_capacity_def split: option.splits)
  then show ?thesis
    using assms by simp
qed

lemma accounted_process:
  assumes "accounted l m"
  shows "accounted l (process_tcp_segment (tracing_config l) p m)"
proof -
  let ?cfg = "tracing_config l"
  let ?k = "pk_flow p"
  have "accounted l (make_room ?cfg ?k m)"
    using assms by (simp add: make_room_def accounted_evict)
  then have "accounted l (restart_flow ?cfg (pk_syn p) ?k (make_room ?cfg ?k m))"
    by (simp add: restart_flow_def accounted_pop)
  then have admit: "accounted l (admit_packet ?cfg p m)"
    by (simp add: admit_packet_def ensure_flow_def accounted_new accounted_touch)
  have op: "accounted l (on_flow (add_segment (traced_scanner l k g) q d c) k' m')"
      "accounted l (on_flow (anchor_sequence (traced_scanner l k g) q) k' m')"
      "accounted l (on_flow (\<lambda>(t, x). (mark_fin q ts t, x)) k' m')" if "accounted l m'" for k g q d c k' ts m'
    by (rule accounted_op [OF that]; auto intro: flow_wf_intros bounded_intros logged.inv_intros
        simp: case_prod_unfold)+
  have "accounted l (deliver_packet ?cfg p (admit_packet ?cfg p m))"
    using admit by (simp add: deliver_packet_def Let_def op)
  then have "accounted l (close_packet ?cfg p (deliver_packet ?cfg p (admit_packet ?cfg p m)))"
    by (simp add: close_packet_def Let_def op accounted_pop pop_and_close_as_close [symmetric])
  then show ?thesis
    using assms by (simp add: process_relevant)
qed

lemma accounted_service:
  assumes "accounted l m"
  shows "accounted l (snd (manager_service_gaps (tracing_config l) now m))"
proof -
  have "accounted l (on_flow (\<lambda>s. snd (service_gaps (traced_scanner l k g) now s)) k' m')"
    if "accounted l m'" for k g k' m'
    by (rule accounted_op [OF that]; auto intro: flow_wf_intros bounded_intros logged.inv_intros)
  then have "accounted l (snd (service_flows (tracing_config l) now ks completed m'))" if "accounted l m'"
    for ks completed m'
    using that by (induction ks arbitrary: completed m') (simp_all add: Let_def)
  note serviced = this [OF assms, of "flow_keys m" "[]"]
  have "accounted l (fold (pop_and_close (tracing_config l)) ks m')" if "accounted l m'" for ks m'
    using that by (induction ks arbitrary: m') (simp_all add: accounted_pop)
  then show ?thesis
    using serviced by (auto simp: manager_service_gaps_def Let_def split: prod.split option.split)
qed

lemma finish_fold_accounted:
  "gaps_counted m \<Longrightarrow> list_all (\<lambda>e. flow_wf (fst (snd e))) d \<Longrightarrow>
     let m' = fold (\<lambda>(k, st) m. notify_flow_close (tracing_config l) k (finish_flow (tracing_config l) k st m)) d m
     in gaps_counted m' \<and>
        closed_log (fm_world m') = closed_log (fm_world m) @ map fst d \<and>
        fm_next_flow_generation m' = fm_next_flow_generation m"
proof (induction d arbitrary: m)
  case (Cons e d)
  obtain k st where e: "e = (k, st)"
    by (cases e)
  let ?m' = "notify_flow_close (tracing_config l) k (finish_flow (tracing_config l) k st m)"
  have "flow_wf (fst st)"
    using Cons.prems(2) e by simp
  note step = close_entry_log [OF Cons.prems(1) this, of l k, unfolded Let_def]
  have "list_all (\<lambda>e. flow_wf (fst (snd e))) d"
    using Cons.prems(2) by simp
  note rest = Cons.IH [OF step [THEN conjunct1] this, unfolded Let_def]
  have "fm_next_flow_generation ?m' = fm_next_flow_generation m"
    by (simp add: table_simps)
  then show ?case
    using rest step [THEN conjunct2] by (simp only: Let_def fold_simps e prod.case comp_apply list.map fst_conv
        append_assoc append_Cons append_Nil simp_thms)
qed simp

lemma accounted_finish:
  assumes "accounted l m"
  shows "accounted l (manager_finish (tracing_config l) m)"
proof -
  have "list_all (\<lambda>e. flow_wf (fst (snd e))) (fm_flows m)"
    using assms by (simp add: accounted_def all_flows_def flow_sound_def list_all_iff)
  moreover have "gaps_counted (m\<lparr>fm_flows := []\<rparr>)"
    using assms by (simp add: accounted_def gaps_counted_def)
  ultimately show ?thesis
    using finish_fold_accounted [of "m\<lparr>fm_flows := []\<rparr>" "fm_flows m" l] assms
      sound.manager_finish_flows [of "tracing_config l" m]
    by (simp add: accounted_def Let_def manager_finish_def all_flows_def)
qed

lemma accounted_run:
  assumes "accounted l m"
  shows "accounted l (run_manager (tracing_config l) ops m)"
  unfolding run_manager_def
proof (rule fold_invariant)
  show "accounted l (run_manager_op (tracing_config l) op m')" if "accounted l m'" for op m'
    using that by (cases op) (simp_all add: accounted_process accounted_service accounted_finish)
qed (rule assms)

end
