(* ===== verification/Manager_Properties.thy ===== *)
theory Manager_Properties
  imports Manager_Trace Reassembly_Properties
begin

text \<open>
  The properties of \<open>FlowManager\<close>, over an arbitrary run of its entry points
  (\<open>run_manager\<close>) from a manager the constructor accepts.
\<close>

section \<open>The table under timers and shutdown\<close>

lemma service_flows_keys: "flow_keys (snd (service_flows cfg now ks completed m)) = flow_keys m"
  by (induction ks arbitrary: completed m) (simp_all add: Let_def table_simps)

lemma table_ok_filter:
  assumes "table_ok cfg m" and "flow_keys m' = filter P (flow_keys m)"
  shows "table_ok cfg m'"
proof -
  have "length (fm_flows m') \<le> length (fm_flows m)"
    using arg_cong [OF assms(2), of length] length_filter_le [of P "flow_keys m"] by simp
  then show ?thesis
    using assms(1) unfolding table_ok_def assms(2) by (auto split: option.splits)
qed

lemma fold_pop_table_ok: "table_ok cfg m \<Longrightarrow> table_ok cfg (fold (pop_and_close cfg) ks m)"
proof (induction ks arbitrary: m)
  case (Cons k ks)
  have "table_ok cfg (pop_and_close cfg k m)"
    using Cons.prems by (rule table_ok_filter) (simp only: close_flow_table keys_delete)
  then show ?case
    using Cons.IH by simp
qed simp

lemma service_table_ok:
  assumes "table_ok cfg m"
  shows "table_ok cfg (snd (manager_service_gaps cfg now m))"
proof -
  have "table_ok cfg (snd (service_flows cfg now (flow_keys m) [] m))"
    using assms by (rule table_ok_filter [where P = "\<lambda>_. True"]) (simp add: service_flows_keys)
  then show ?thesis
    by (auto simp: manager_service_gaps_def Let_def fold_pop_table_ok split: prod.split option.split)
qed

lemma init_manager:
  assumes "flow_manager_init cfg w = Inr m"
  shows "table_ok cfg m" "opt_sat (\<lambda>n. n \<le> 0) (mc_max_flows cfg) = False" "fm_flows m = []"
    "fm_next_flow_generation m = 0" "fm_tcp_gap_resets m = 0" "fm_world m = w"
  using assms by (auto simp: flow_manager_init_def table_ok_def opt_sat_def split: if_splits option.splits)

lemma run_table_ok:
  assumes "flow_manager_init cfg w = Inr m"
  shows "table_ok cfg (run_manager cfg ops m)"
  unfolding run_manager_def
proof (rule fold_invariant)
  show "table_ok cfg (run_manager_op cfg op m')" if "table_ok cfg m'" for op m'
  proof (cases op)
    case Shutdown
    have "fm_flows (manager_finish cfg m') = []"
      by (rule sound.manager_finish_flows)
    then show ?thesis
      using Shutdown that by (simp add: table_ok_def split: option.splits)
  qed (simp_all add: that process_table_ok init_manager [OF assms] service_table_ok)
qed (rule init_manager [OF assms])

section \<open>Packets of other flows\<close>

lemma map_of_on_flow: "k \<noteq> k' \<Longrightarrow> map_of (fm_flows (on_flow f k' m)) k = map_of (fm_flows m) k"
  by (auto simp: on_flow_def update_conv' split: option.split prod.split)

lemma map_of_delete: "k \<noteq> k' \<Longrightarrow> map_of (AList.delete k' d) k = map_of d k"
  by (simp add: delete_conv')

lemma map_of_admit:
  fixes m :: "('s, 'w) flow_manager"
  assumes "distinct (flow_keys m)" and "k \<in> set (room_for cfg (pk_flow p) m)"
  shows "map_of (fm_flows (admit_packet cfg p m)) k = map_of (fm_flows m) k"
proof -
  let ?k = "pk_flow p"
  have neq: "k \<noteq> ?k"
    using assms room_for_absent by blast
  have "map_of (fm_flows (make_room cfg ?k m)) k = map_of (fm_flows m) k"
  proof (cases "\<not> known_flow m ?k \<and> at_capacity cfg m")
    case True
    then have "k \<in> fst ` set (tl (fm_flows m))"
      using assms(2) by (simp add: room_for_def map_tl [symmetric])
    then show ?thesis
      using assms(1) True by (cases "fm_flows m") (force simp: make_room_def evict_oldest_table)+
  qed (auto simp: make_room_def evict_oldest_table)
  moreover have "map_of (fm_flows (restart_flow cfg syn ?k m')) k = map_of (fm_flows m') k" for syn m'
    using neq by (simp add: restart_flow_def close_flow_table map_of_delete)
  moreover have "map_of (fm_flows (ensure_flow cfg ?k m')) k = map_of (fm_flows m') k" for m'
    using neq by (auto simp: ensure_flow_def new_flow_def Let_def update_conv' split: prod.split)
  moreover have "map_of (fm_flows (touch_flow ?k ts m')) k = map_of (fm_flows m') k"
    for ts and m' :: "('s, 'w) flow_manager"
    using neq by (auto simp: touch_flow_def map_add_def map_of_delete split: option.split)
  ultimately show ?thesis
    by (simp add: admit_packet_def)
qed

lemma map_of_deliver: "k \<noteq> pk_flow p \<Longrightarrow> map_of (fm_flows (deliver_packet cfg p m)) k = map_of (fm_flows m) k"
  by (simp add: deliver_packet_def Let_def map_of_on_flow)

lemma map_of_close: "k \<noteq> pk_flow p \<Longrightarrow> map_of (fm_flows (close_packet cfg p m)) k = map_of (fm_flows m) k"
  by (simp add: close_packet_def Let_def close_flow_table map_of_delete map_of_on_flow)

section \<open>Concrete instances\<close>

abbreviation sample_limits :: table_limits where
  "sample_limits \<equiv> \<lparr>tl_ports = {8884, 8885, 8889}, tl_max_flows = Some 1, tl_idle_timeout = Some (Finite 30),
     tl_max_segments = 4, tl_max_bytes = Some 1000, tl_defer = True, tl_can_anchor = None\<rparr>"

abbreviation sample_manager :: "(scan_event list, manager_event list) flow_manager" where
  "sample_manager \<equiv> \<lparr>fm_next_flow_generation = 0, fm_flows = [], fm_tcp_gap_resets = 0, fm_world = []\<rparr>"

abbreviation sample_packet :: "int \<Rightarrow> int \<Rightarrow> bytes \<Rightarrow> bool \<Rightarrow> tcp_packet" where
  "sample_packet port sequence payload syn \<equiv>
     \<lparr>pk_flow = \<lparr>fk_source_ip = ''20.0.0.1'', fk_source_port = 8889,
                  fk_destination_ip = ''10.0.0.2'', fk_destination_port = port\<rparr>,
      pk_sequence = sequence, pk_payload = payload, pk_timestamp = Finite 1,
      pk_syn = syn, pk_rst = False, pk_fin = False\<rparr>"

abbreviation sample_ops :: "manager_op list" where
  "sample_ops \<equiv> [Packet (sample_packet 1 99 [] True), Packet (sample_packet 1 102 [102, 103] False),
     Packet (sample_packet 2 7 [7, 8] False), Packet (sample_packet 1 100 [100, 101] False),
     Service (Finite 2), Shutdown]"

lemma sample_init: "flow_manager_init (tracing_config sample_limits) [] = Inr sample_manager"
  by (simp add: flow_manager_init_def tracing_config_def opt_sat_def)

section \<open>Properties\<close>

text \<open>C19. The table respects the limits the constructor was given: after any run no flow
  appears twice, there are at most \<open>max_flows\<close> flows, and each of them buffers at most
  \<open>max_pending_segments\<close> segments and \<open>max_pending_bytes\<close> bytes.\<close>

theorem flow_table_bounded:
  assumes "flow_manager_init cfg w = Inr m0"
  shows "let m = run_manager cfg ops m0 in
    distinct (map fst (fm_flows m)) \<and>
    (case mc_max_flows cfg of None \<Rightarrow> True | Some n \<Rightarrow> int (length (fm_flows m)) \<le> n) \<and>
    list_all (\<lambda>(k, t, s). int (length (fs_pending t)) \<le> mc_max_pending_segments cfg \<and>
        int (length (fs_unanchored t)) \<le> mc_max_pending_segments cfg \<and>
        (case mc_max_pending_bytes cfg of None \<Rightarrow> True
         | Some l \<Rightarrow> int (buffered_bytes (fs_pending t)) \<le> l \<and> int (buffered_bytes (fs_unanchored t)) \<le> l))
      (fm_flows m)"
proof -
  let ?m = "run_manager cfg ops m0"
  have "table_ok cfg ?m"
    using assms by (rule run_table_ok)
  moreover have "all_flows (flow_sound cfg) ?m"
    by (rule sound.run_all) (simp_all add: all_flows_def init_manager [OF assms])
  moreover have "0 < mc_max_pending_segments cfg" "\<And>l. mc_max_pending_bytes cfg = Some l \<Longrightarrow> 0 < l"
    using assms by (auto simp: flow_manager_init_def opt_sat_def split: if_splits)
  ultimately show ?thesis
    by (fastforce simp: Let_def table_ok_def all_flows_def flow_sound_def bounded_def has_limits_def
        within_limits_def buffered_bytes_def list_all_iff split: option.splits)
qed

theorem flow_table_bounded_witness:
  "length (fm_flows (run_manager (tracing_config sample_limits) sample_ops sample_manager)) \<le> 1"
  using flow_table_bounded [OF sample_init, of sample_ops] by (simp add: Let_def tracing_config_def)

text \<open>The table is kept in order of activity and makes room by dropping the least
  recently active flow: a packet that belongs to no server flow, or that could not
  contribute to one, changes nothing; any other packet removes the first (least recently
  active) flow exactly when its own flow is new and the table is full, keeps all other flows
  in their order, and leaves its own flow last or, when the packet closed it, absent.\<close>

theorem flow_table_order:
  assumes "distinct (map fst (fm_flows m))"
  shows "let ks = map fst (fm_flows m); k = pk_flow p; m' = process_tcp_segment cfg p m;
           others = (if k \<notin> set ks \<and> at_capacity cfg m then tl ks else filter (\<lambda>x. x \<noteq> k) ks)
    in if relevant cfg p m
       then map fst (fm_flows m') = others @ [k] \<or> map fst (fm_flows m') = others
       else m' = m"
proof (cases "relevant cfg p m")
  case True
  then show ?thesis
    using process_keys [OF True assms] by (simp add: Let_def room_for_def known_flow_keys)
qed (simp add: process_relevant Let_def)

theorem flow_table_order_witness:
  "map fst (fm_flows (process_tcp_segment (tracing_config sample_limits) (sample_packet 2 7 [7, 8] False)
      (process_tcp_segment (tracing_config sample_limits) (sample_packet 1 99 [] True) sample_manager)))
   \<in> {[pk_flow (sample_packet 2 7 [7, 8] False)], []}"
proof -
  let ?cfg = "tracing_config sample_limits"
  let ?p = "sample_packet 1 99 [] True" and ?q = "sample_packet 2 7 [7, 8] False"
  let ?m = "process_tcp_segment ?cfg ?p sample_manager"
  have m: "map fst (fm_flows ?m) = [pk_flow ?p]"
    by (simp add: process_tcp_segment_def known_flow_def admit_packet_def make_room_def evict_oldest_def
        restart_flow_def ensure_flow_def new_flow_def touch_flow_def deliver_packet_def close_packet_def
        on_flow_def flow_satisfies_def flow_generation_def tracing_config_def anchor_sequence_def
        new_tcp_flow_state_def Let_def)
  have "length (map fst (fm_flows ?m)) = 1"
    unfolding m by simp
  then have cap: "at_capacity ?cfg ?m"
    by (simp add: at_capacity_def tracing_config_def)
  have "relevant ?cfg ?q ?m"
    by (simp add: relevant_def tracing_config_def)
  then show ?thesis
    using flow_table_order [of ?m ?q ?cfg] cap unfolding m Let_def by simp
qed

text \<open>C20. Flows are isolated: a packet leaves the state and the scanner of every other flow
  that stays in the table exactly as they were.\<close>

theorem flow_isolation:
  assumes "distinct (map fst (fm_flows m))" and "k \<noteq> pk_flow p"
    and "k \<in> set (map fst (fm_flows (process_tcp_segment cfg p m)))"
  shows "map_of (fm_flows (process_tcp_segment cfg p m)) k = map_of (fm_flows m) k"
proof (cases "relevant cfg p m")
  case True
  have "k \<in> set (room_for cfg (pk_flow p) m @ [pk_flow p])"
    using process_keys [OF True assms(1)] assms(3) by (metis UnI1 set_append)
  then have "k \<in> set (room_for cfg (pk_flow p) m)"
    using assms(2) by simp
  then show ?thesis
    using True assms by (simp add: process_relevant map_of_close map_of_deliver map_of_admit)
qed (simp add: process_relevant)

theorem flow_isolation_witness:
  "map_of (fm_flows (process_tcp_segment ((tracing_config sample_limits)\<lparr>mc_max_flows := None\<rparr>)
        (sample_packet 2 7 [7, 8] False)
        (sample_manager\<lparr>fm_flows := [(pk_flow (sample_packet 1 0 [] True), (new_tcp_flow_state 4 None True 1, []))]\<rparr>)))
      (pk_flow (sample_packet 1 0 [] True))
   = Some (new_tcp_flow_state 4 None True 1, [])"
proof -
  let ?cfg = "(tracing_config sample_limits)\<lparr>mc_max_flows := None\<rparr>"
  let ?q = "sample_packet 2 7 [7, 8] False"
  let ?k = "pk_flow (sample_packet 1 0 [] True)"
  let ?m = "sample_manager\<lparr>fm_flows := [(?k, (new_tcp_flow_state 4 None True 1, []))]\<rparr>"
  have rel: "relevant ?cfg ?q ?m"
    by (simp add: relevant_def tracing_config_def)
  have room: "room_for ?cfg (pk_flow ?q) ?m = [?k]"
    by (simp add: room_for_def known_flow_def at_capacity_def)
  have "distinct (flow_keys ?m)"
    by simp
  from process_keys [OF rel this, unfolded room]
  have "?k \<in> set (map fst (fm_flows (process_tcp_segment ?cfg ?q ?m)))"
    by (elim disjE ssubst) simp_all
  with flow_isolation [of ?m ?k ?q ?cfg] show ?thesis
    by simp
qed





end
