(* ===== verification/Frame_Collector.thy ===== *)
theory Frame_Collector
  imports Reassembly
begin

text \<open>
  \<^verbatim>\<open>src/bdo_toolkit/_framing.py\<close>, the class \<^verbatim>\<open>FrameCollectorScanner\<close>: it cuts
  the byte stream of a flow into length-framed messages, and finds a boundary first when it
  attaches in the middle of a stream.

  The callback is a parameter acting on an abstract state \<open>'w\<close>; the operations are
  functions of the pair of the collector and \<open>'w\<close>. \<^verbatim>\<open>scan_standalone\<close> restores its
  fields in a \<^verbatim>\<open>finally\<close> clause; the callback returns normally here, so the clause is
  the statement that follows.
\<close>

record frame_collector =
  fc_buffer :: bytes
  fc_buffer_start_sequence :: "int option"
  fc_frame_index :: int
  fc_synchronized :: bool
  fc_framed_stream_start :: "int option"

definition new_frame_collector :: frame_collector where
  "new_frame_collector =
     \<lparr>fc_buffer = [], fc_buffer_start_sequence = None, fc_frame_index = 0,
      fc_synchronized = False, fc_framed_stream_start = None\<rparr>"

definition MAX_UNSYNCHRONIZED_BUFFER :: int where
  "MAX_UNSYNCHRONIZED_BUFFER = MAX_TARGET_MESSAGE_LENGTH + 4"

definition fc_reset :: "frame_collector \<Rightarrow> frame_collector" where
  "fc_reset fc = fc\<lparr>fc_buffer := [], fc_buffer_start_sequence := None,
     fc_synchronized := False, fc_framed_stream_start := None\<rparr>"

text \<open>\<^verbatim>\<open>5 <= n <= MAX_TARGET_MESSAGE_LENGTH\<close>, the test of every frame length.\<close>

definition frame_length_ok :: "int \<Rightarrow> bool" where
  "frame_length_ok n \<longleftrightarrow> 5 \<le> n \<and> n \<le> MAX_TARGET_MESSAGE_LENGTH"

definition uint16_at :: "bytes \<Rightarrow> int \<Rightarrow> int" where
  "uint16_at data i = from_le (py_slice data i (i + 2))"

definition fc_can_anchor_at_start :: "int set \<Rightarrow> bytes \<Rightarrow> bool" where
  "fc_can_anchor_at_start known data =
     (if length data < 5 then False
      else let first_length = uint16_at data 0 in
        if \<not> frame_length_ok first_length then False
        else if uint16_at data 3 \<in> known then True
        else if first_length = int (length data) then True
        else if first_length + 5 > int (length data) then False
        else let second_length = uint16_at data first_length
             in frame_length_ok second_length \<and> first_length + second_length \<le> int (length data))"

definition fc_discard_prefix :: "int \<Rightarrow> frame_collector \<Rightarrow> frame_collector" where
  "fc_discard_prefix byte_count fc =
     (if byte_count \<le> 0 then fc
      else let buffer = drop (nat byte_count) (fc_buffer fc)
           in fc\<lparr>fc_buffer := buffer,
                 fc_buffer_start_sequence :=
                   (if buffer = [] then None
                    else map_option (\<lambda>s. s + byte_count) (fc_buffer_start_sequence fc))\<rparr>)"

text \<open>The body of the loop over \<^verbatim>\<open>start\<close>: does it return \<^verbatim>\<open>start\<close>?\<close>

definition synchronizes_at :: "int set \<Rightarrow> bytes \<Rightarrow> int \<Rightarrow> bool" where
  "synchronizes_at known buffer start =
     (let first_length = uint16_at buffer start; first_end = start + first_length in
      if \<not> frame_length_ok first_length then False
      else if first_end > int (length buffer) then False
      else if uint16_at buffer (start + 3) \<in> known then True
      else if start = 0 \<and> first_end = int (length buffer) then True
      else if first_end + 5 \<le> int (length buffer)
      then let second_length = uint16_at buffer first_end
           in frame_length_ok second_length \<and> first_end + second_length \<le> int (length buffer)
      else False)"

definition find_synchronization_candidate :: "int set \<Rightarrow> int \<Rightarrow> bytes \<Rightarrow> int option" where
  "find_synchronization_candidate known start_at buffer =
     find (synchronizes_at known buffer) [start_at .. max start_at (int (length buffer) - 4) - 1]"

definition bound_unsynchronized_buffer :: "frame_collector \<Rightarrow> frame_collector" where
  "bound_unsynchronized_buffer fc =
     (let excess = int (length (fc_buffer fc)) - MAX_UNSYNCHRONIZED_BUFFER
      in if excess > 0 then fc_discard_prefix excess fc else fc)"

text \<open>The part of the loop body under \<^verbatim>\<open>if not self._synchronized\<close>.\<close>

definition synchronize :: "int set \<Rightarrow> frame_collector \<Rightarrow> frame_collector control" where
  "synchronize known fc =
     (if fc_synchronized fc then Continue fc
      else case find_synchronization_candidate known 0 (fc_buffer fc) of
        None \<Rightarrow> Return (bound_unsynchronized_buffer fc)
      | Some candidate_start \<Rightarrow>
          let fc1 = (if candidate_start \<noteq> 0 then fc_discard_prefix candidate_start fc else fc);
              fc2 = fc1\<lparr>fc_synchronized := True\<rparr>
          in Continue
               (if fc_framed_stream_start fc2 = None
                then fc2\<lparr>fc_framed_stream_start := fc_buffer_start_sequence fc2\<rparr> else fc2))"

definition fc_scan_step ::
    "int set \<Rightarrow> (bdo_frame \<Rightarrow> 'w \<Rightarrow> 'w) \<Rightarrow> packet_context \<Rightarrow> frame_collector \<times> 'w \<Rightarrow>
       (frame_collector \<times> 'w) control" where
  "fc_scan_step known callback context s =
     (if \<not> length (fc_buffer (fst s)) \<ge> 5 then Return s
      else case synchronize known (fst s) of
        Return fc \<Rightarrow> Return (fc, snd s)
      | Continue fc \<Rightarrow>
          let message_length = uint16_at (fc_buffer fc) 0 in
          if \<not> frame_length_ok message_length
          then Continue (fc_discard_prefix 1 (fc\<lparr>fc_synchronized := False\<rparr>), snd s)
          else if message_length > int (length (fc_buffer fc)) then Return (fc, snd s)
          else let frame = \<lparr>fr_index = fc_frame_index fc,
                            fr_message = take (nat message_length) (fc_buffer fc),
                            fr_context = context,
                            fr_stream_sequence = fc_buffer_start_sequence fc\<rparr>
               in Continue (fc_discard_prefix message_length (fc\<lparr>fc_frame_index := fc_frame_index fc + 1\<rparr>),
                            callback frame (snd s)))"

lemma fc_discard_prefix_buffer:
  "fc_buffer (fc_discard_prefix n fc) = drop (nat n) (fc_buffer fc)"
  by (simp add: fc_discard_prefix_def Let_def)

lemma synchronize_shrinks:
  "synchronize known fc = Continue fc' \<Longrightarrow> length (fc_buffer fc') \<le> length (fc_buffer fc)"
  by (auto simp: synchronize_def Let_def fc_discard_prefix_buffer split: option.splits if_splits)

lemma fc_scan_step_shrinks:
  assumes "fc_scan_step known callback context s = Continue s'"
  shows "length (fc_buffer (fst s')) < length (fc_buffer (fst s))"
proof -
  obtain fc where sync: "synchronize known (fst s) = Continue fc" and long: "5 \<le> length (fc_buffer (fst s))"
    using assms by (auto simp: fc_scan_step_def split: if_splits control.splits)
  have "fc_buffer (fst s') = drop 1 (fc_buffer fc) \<or>
      (\<exists>n \<ge> 5. fc_buffer (fst s') = drop (nat n) (fc_buffer fc))"
    using assms sync long
    by (auto simp: fc_scan_step_def Let_def frame_length_ok_def fc_discard_prefix_buffer split: if_splits)
  then show ?thesis
    using synchronize_shrinks [OF sync] long by auto
qed

text \<open>The loop ends: every turn that continues takes bytes from the buffer.\<close>

function fc_scan ::
    "int set \<Rightarrow> (bdo_frame \<Rightarrow> 'w \<Rightarrow> 'w) \<Rightarrow> packet_context \<Rightarrow> frame_collector \<times> 'w \<Rightarrow>
       frame_collector \<times> 'w" where
  "fc_scan known callback context s =
     (case fc_scan_step known callback context s of
        Return s' \<Rightarrow> s' | Continue s' \<Rightarrow> fc_scan known callback context s')"
  by pat_completeness auto
termination
  by (relation "measure (\<lambda>(known, callback, context, s). length (fc_buffer (fst s)))")
    (auto dest: fc_scan_step_shrinks)

declare fc_scan.simps [simp del]

definition fc_feed ::
    "int set \<Rightarrow> (bdo_frame \<Rightarrow> 'w \<Rightarrow> 'w) \<Rightarrow> bytes \<Rightarrow> packet_context \<Rightarrow> frame_collector \<times> 'w \<Rightarrow>
       frame_collector \<times> 'w" where
  "fc_feed known callback data context s =
     (if data = [] then s
      else let fc = (if fc_buffer (fst s) = []
                     then (fst s)\<lparr>fc_buffer_start_sequence := ctx_stream_start context\<rparr> else fst s)
           in fc_scan known callback context (fc\<lparr>fc_buffer := fc_buffer fc @ data\<rparr>, snd s))"

text \<open>The truncation of a retransmission to its part before the framed stream.\<close>

definition unframed_prefix :: "frame_collector \<Rightarrow> bytes \<Rightarrow> packet_context \<Rightarrow> bytes" where
  "unframed_prefix fc data context =
     (case (fc_framed_stream_start fc, ctx_stream_start context) of
        (Some framed, Some start) \<Rightarrow>
          (if framed - start \<le> 0 then [] else take (nat (framed - start)) data)
      | _ \<Rightarrow> data)"

definition fc_scan_standalone ::
    "int set \<Rightarrow> (bdo_frame \<Rightarrow> 'w \<Rightarrow> 'w) \<Rightarrow> bytes \<Rightarrow> packet_context \<Rightarrow> frame_collector \<times> 'w \<Rightarrow>
       frame_collector \<times> 'w" where
  "fc_scan_standalone known callback data context s =
     (if data = [] then s
      else let prefix = unframed_prefix (fst s) data context in
        if prefix = [] then s
        else let fc = fst s;
                 (fc', w) = fc_scan known callback context
                   (fc\<lparr>fc_buffer := prefix, fc_buffer_start_sequence := ctx_stream_start context,
                       fc_synchronized := False\<rparr>, snd s)
             in (fc'\<lparr>fc_buffer := fc_buffer fc,
                     fc_buffer_start_sequence := fc_buffer_start_sequence fc,
                     fc_synchronized := fc_synchronized fc,
                     fc_framed_stream_start := fc_framed_stream_start fc\<rparr>, w))"

text \<open>The collector as the scanner of a flow.\<close>

definition frame_scanner ::
    "int set \<Rightarrow> (bdo_frame \<Rightarrow> 'w \<Rightarrow> 'w) \<Rightarrow> (frame_collector \<times> 'w) stream_scanner" where
  "frame_scanner known callback =
     \<lparr>sc_feed = fc_feed known callback, sc_scan_standalone = fc_scan_standalone known callback,
      sc_reset = (\<lambda>s. (fc_reset (fst s), snd s)),
      sc_can_anchor_at_start = Some (fc_can_anchor_at_start known),
      sc_on_gap_reset = None\<rparr>"

end
