(* ===== verification/Control_Loops.thy ===== *)
theory Control_Loops
  imports Prelude
begin

text \<open>
  The loops \<^verbatim>\<open>while True\<close> of the scanners have one shape: a turn returns, or it
  continues with a smaller buffer. The locale is that interface; its rule reduces a claim on
  the whole loop to claims on one turn.
\<close>

locale control_loop =
  fixes step :: "'s \<Rightarrow> 's control" and run :: "'s \<Rightarrow> 's" and size_of :: "'s \<Rightarrow> nat"
  assumes unfold_run: "run s = (case step s of Return s' \<Rightarrow> s' | Continue s' \<Rightarrow> run s')"
    and shrinks: "step s = Continue s' \<Longrightarrow> size_of s' < size_of s"
begin

lemma run_cases:
  assumes "P s"
    and "\<And>s s'. P s \<Longrightarrow> step s = Continue s' \<Longrightarrow> P s'"
    and "\<And>s s'. P s \<Longrightarrow> step s = Return s' \<Longrightarrow> Q s'"
  shows "Q (run s)"
  using assms(1)
proof (induction "size_of s" arbitrary: s rule: less_induct)
  case less
  show ?case
  proof (cases "step s")
    case (Continue s')
    then show ?thesis
      using less.hyps [OF shrinks [OF Continue] assms(2) [OF less.prems Continue]] unfold_run [of s] by simp
  next
    case (Return s')
    then show ?thesis
      using assms(3) [OF less.prems Return] unfold_run [of s] by simp
  qed
qed

text \<open>A loop that keeps an invariant and returns keeps it.\<close>

lemma run_invariant:
  assumes "P s" and "\<And>s s'. P s \<Longrightarrow> step s = Continue s' \<or> step s = Return s' \<Longrightarrow> P s'"
  shows "P (run s)"
  by (rule run_cases [where P = P, OF assms(1)]) (use assms(2) in blast)+

end

end
