(* ===== verification/Frame_Delivery.thy ===== *)
theory Frame_Delivery
  imports Frame_Collector Stream_Delivery Control_Loops
begin

text \<open>
  What the collector promises: the frames it emits are well formed and cut from the stream
  the reassembly feeds it, its buffer is bounded, and once it is synchronized the frames it
  emits do not depend on how the stream was cut into segments.
\<close>

section \<open>Shape of one turn of the scan\<close>

interpretation fc_loop: control_loop "fc_scan_step known callback ctx" "fc_scan known callback ctx"
    "\<lambda>s. length (fc_buffer (fst s))"
  by unfold_locales (rule fc_scan.simps, rule fc_scan_step_shrinks)

lemma fc_discard_prefix_fields [simp]:
  "fc_synchronized (fc_discard_prefix n fc) = fc_synchronized fc"
  "fc_framed_stream_start (fc_discard_prefix n fc) = fc_framed_stream_start fc"
  "fc_frame_index (fc_discard_prefix n fc) = fc_frame_index fc"
  by (simp_all add: fc_discard_prefix_def Let_def)

section \<open>The buffer is bounded\<close>

lemma uint16_at_bound: "0 \<le> i \<Longrightarrow> 0 \<le> uint16_at data i \<and> uint16_at data i < 65536"
  by (simp add: uint16_at_def py_slice_2_bound)

lemma fc_scan_step_Return_bound:
  "fc_scan_step known callback ctx s = Return s' \<Longrightarrow> int (length (fc_buffer (fst s'))) \<le> MAX_UNSYNCHRONIZED_BUFFER"
  by (auto simp: fc_scan_step_def synchronize_def Let_def bound_unsynchronized_buffer_def fc_discard_prefix_buffer
      MAX_UNSYNCHRONIZED_BUFFER_def MAX_TARGET_MESSAGE_LENGTH_def frame_length_ok_def
      split: if_splits option.splits)

lemma fc_scan_bounded: "int (length (fc_buffer (fst (fc_scan known callback ctx s)))) \<le> MAX_UNSYNCHRONIZED_BUFFER"
  by (rule fc_loop.run_cases [where P = "\<lambda>_. True"]) (auto intro: fc_scan_step_Return_bound)

section \<open>Frames are cut from the stream\<close>

definition frame_ok :: "flow_key \<times> int \<Rightarrow> (int \<Rightarrow> byte) \<Rightarrow> bdo_frame \<Rightarrow> bool" where
  "frame_ok key f fr \<longleftrightarrow>
     frame_length_ok (int (length (fr_message fr))) \<and> frame_length fr = int (length (fr_message fr)) \<and>
     connection (fr_context fr) = key \<and>
     (case fr_stream_sequence fr of
        None \<Rightarrow> False | Some q \<Rightarrow> fr_message fr = stream_slice f q (length (fr_message fr)))"

definition collect_frame :: "bdo_frame \<Rightarrow> bdo_frame list \<Rightarrow> bdo_frame list" where
  "collect_frame fr frames = frames @ [fr]"

lemma stream_slice_length [simp]: "length (stream_slice f s n) = n"
  by (simp add: stream_slice_def)

lemma drop_stream_slice: "drop k (stream_slice f s n) = stream_slice f (s + int k) (n - k)"
  by (rule nth_equalityI) (auto simp: stream_slice_def add.assoc)

lemma take_stream_slice: "k \<le> n \<Longrightarrow> take k (stream_slice f s n) = stream_slice f s k"
  by (rule nth_equalityI) (auto simp: stream_slice_def)

lemma slice_drop: "b = stream_slice f s (length b) \<Longrightarrow> drop k b = stream_slice f (s + int k) (length b - k)"
  by (metis drop_stream_slice)

lemma slice_take: "b = stream_slice f s (length b) \<Longrightarrow> k \<le> length b \<Longrightarrow> take k b = stream_slice f s k"
  by (metis take_stream_slice)

text \<open>
  A scanner's buffer, with the position of its first byte, holds the stream's bytes up to
  the position \<open>e\<close>. Both scanners keep this when they discard a prefix and when they are fed.
\<close>

definition buffered :: "(int \<Rightarrow> byte) \<Rightarrow> int \<Rightarrow> bytes \<Rightarrow> int option \<Rightarrow> bool" where
  "buffered f e buffer start \<longleftrightarrow> buffer = [] \<or>
     (\<exists>s. start = Some s \<and> buffer = stream_slice f s (length buffer) \<and> s + int (length buffer) = e)"

lemma buffered_discard:
  assumes "buffered f e buffer start" and "0 < n"
  shows "buffered f e (drop (nat n) buffer)
    (if drop (nat n) buffer = [] then None else map_option (\<lambda>s. s + n) start)"
proof (cases "drop (nat n) buffer = []")
  case False
  then obtain s where s: "start = Some s" "buffer = stream_slice f s (length buffer)" "s + int (length buffer) = e"
    using assms(1) by (auto simp: buffered_def)
  have "nat n < length buffer"
    using False by simp
  then show ?thesis
    using assms(2) s(1,3) slice_drop [OF s(2), of "nat n"] by (simp add: buffered_def)
qed (simp add: buffered_def)

lemma buffered_feed:
  assumes "buffered f n buffer start" and "d = stream_slice f n (length d)"
  shows "buffered f (n + int (length d)) (buffer @ d) (if buffer = [] then Some n else start)"
proof (cases "buffer = []")
  case False
  then obtain s where s: "start = Some s" "buffer = stream_slice f s (length buffer)" "s + int (length buffer) = n"
    using assms(1) by (auto simp: buffered_def)
  have "buffer @ d = stream_slice f s (length buffer + length d)"
    using stream_slice_append [of f s "length buffer" "length d"] s(2,3) assms(2) by simp
  then show ?thesis
    using False s(1,3) by (simp add: buffered_def)
qed (use assms(2) in \<open>simp add: buffered_def\<close>)

definition buffer_ok :: "(int \<Rightarrow> byte) \<Rightarrow> int \<Rightarrow> frame_collector \<Rightarrow> bool" where
  "buffer_ok f e fc \<longleftrightarrow> buffered f e (fc_buffer fc) (fc_buffer_start_sequence fc)"

lemma buffer_ok_fields [simp]:
  "buffer_ok f e (fc\<lparr>fc_synchronized := b\<rparr>) = buffer_ok f e fc"
  "buffer_ok f e (fc\<lparr>fc_framed_stream_start := b'\<rparr>) = buffer_ok f e fc"
  "buffer_ok f e (fc\<lparr>fc_frame_index := i\<rparr>) = buffer_ok f e fc"
  by (simp_all add: buffer_ok_def)

lemma discard_buffer_ok:
  assumes "buffer_ok f e fc"
  shows "buffer_ok f e (fc_discard_prefix n fc)"
proof (cases "n \<le> 0")
  case False
  then show ?thesis
    using buffered_discard [of f e "fc_buffer fc" "fc_buffer_start_sequence fc" n] assms
    by (auto simp: buffer_ok_def fc_discard_prefix_def Let_def)
qed (use assms in \<open>simp add: fc_discard_prefix_def\<close>)

lemma synchronize_buffer_ok:
  assumes "buffer_ok f e fc"
  shows "synchronize known fc = Continue fc' \<Longrightarrow> buffer_ok f e fc'"
    and "synchronize known fc = Return fc' \<Longrightarrow> buffer_ok f e fc'"
  using assms discard_buffer_ok [OF assms]
  by (auto simp: synchronize_def Let_def bound_unsynchronized_buffer_def split: option.splits if_splits)

section \<open>The client of a collector\<close>

text \<open>
  What consumes the frames: a callback that keeps a predicate \<open>W\<close> on its state when it is
  handed a frame cut from the stream \<open>f\<close> of the connection \<open>key\<close>. A scan at work has a
  buffer that ends at \<open>e\<close>.
\<close>

definition scan_ok :: "('w \<Rightarrow> bool) \<Rightarrow> (int \<Rightarrow> byte) \<Rightarrow> int \<Rightarrow> frame_collector \<times> 'w \<Rightarrow> bool" where
  "scan_ok W f e s \<longleftrightarrow> buffer_ok f e (fst s) \<and> W (snd s)"

text \<open>Between calls: either nothing is buffered or the buffer ends at the next expected byte.\<close>

definition collector_inv :: "('w \<Rightarrow> bool) \<Rightarrow> (int \<Rightarrow> byte) \<Rightarrow> int option \<Rightarrow> frame_collector \<times> 'w \<Rightarrow> bool" where
  "collector_inv W f ns s \<longleftrightarrow> W (snd s) \<and>
     (fc_buffer (fst s) = [] \<or> (\<exists>n. ns = Some n \<and> buffer_ok f n (fst s)))"

lemma connection_start [simp]: "connection (c\<lparr>ctx_stream_start := n\<rparr>) = connection c"
  by (simp add: connection_def)

locale frame_client =
  fixes callback :: "bdo_frame \<Rightarrow> 'w \<Rightarrow> 'w" and key :: "flow_key \<times> int" and f :: "int \<Rightarrow> byte" and W :: "'w \<Rightarrow> bool"
  assumes W_callback: "W w \<Longrightarrow> frame_ok key f frame \<Longrightarrow> W (callback frame w)"
begin

lemma fc_scan_step_ok:
  assumes s: "scan_ok W f e s" and c: "connection context = key"
  shows "fc_scan_step known callback context s = Continue s' \<Longrightarrow> scan_ok W f e s'"
    and "fc_scan_step known callback context s = Return s' \<Longrightarrow> scan_ok W f e s'"
proof -
  have buf: "buffer_ok f e (fst s)"
    using s by (simp add: scan_ok_def)
  show "scan_ok W f e s'" if "fc_scan_step known callback context s = Return s'"
    using that s synchronize_buffer_ok [OF buf]
    by (auto simp: fc_scan_step_def scan_ok_def Let_def split: if_splits control.splits)
  assume step: "fc_scan_step known callback context s = Continue s'"
  then obtain fc where sync: "synchronize known (fst s) = Continue fc"
    by (auto simp: fc_scan_step_def split: if_splits control.splits)
  have fc: "buffer_ok f e fc"
    by (rule synchronize_buffer_ok(1) [OF buf sync])
  let ?n = "uint16_at (fc_buffer fc) 0"
  show "scan_ok W f e s'"
  proof (cases "frame_length_ok ?n")
    case False
    then show ?thesis
      using step sync s fc discard_buffer_ok by (auto simp: fc_scan_step_def scan_ok_def Let_def split: if_splits)
  next
    case True
    then have n: "?n \<le> int (length (fc_buffer fc))" "5 \<le> ?n"
      and s': "s' = (fc_discard_prefix ?n (fc\<lparr>fc_frame_index := fc_frame_index fc + 1\<rparr>),
        callback \<lparr>fr_index = fc_frame_index fc, fr_message = take (nat ?n) (fc_buffer fc), fr_context = context,
                  fr_stream_sequence = fc_buffer_start_sequence fc\<rparr> (snd s))"
      using step sync by (auto simp: fc_scan_step_def Let_def frame_length_ok_def split: if_splits)
    from n have "fc_buffer fc \<noteq> []"
      by auto
    then obtain q where q: "fc_buffer_start_sequence fc = Some q" "fc_buffer fc = stream_slice f q (length (fc_buffer fc))"
      using fc by (auto simp: buffer_ok_def buffered_def)
    have len: "nat ?n \<le> length (fc_buffer fc)"
      using n by simp
    have "uint16_at (take (nat ?n) (fc_buffer fc)) 0 = ?n"
      using n by (simp add: uint16_at_def py_slice_prefix)
    then have "frame_ok key f \<lparr>fr_index = fc_frame_index fc, fr_message = take (nat ?n) (fc_buffer fc),
        fr_context = context, fr_stream_sequence = fc_buffer_start_sequence fc\<rparr>"
      using True n len q(1) c slice_take [OF q(2) len]
      by (simp add: frame_ok_def frame_length_def uint16_at_def)
    then show ?thesis
      using s fc discard_buffer_ok W_callback by (simp add: scan_ok_def s')
  qed
qed

lemma fc_scan_ok:
  "scan_ok W f e s \<Longrightarrow> connection context = key \<Longrightarrow> scan_ok W f e (fc_scan known callback context s)"
  by (rule fc_loop.run_invariant [where P = "scan_ok W f e"]) (auto intro: fc_scan_step_ok)

lemma feed_collector_inv:
  assumes "collector_inv W f (Some n) s" and "agrees_on key f n d c"
  shows "collector_inv W f (Some (n + int (length d)))
    (fc_feed known callback d (c\<lparr>ctx_stream_start := Some n\<rparr>) s)"
proof (cases "d = []")
  case False
  let ?c = "c\<lparr>ctx_stream_start := Some n\<rparr>"
  let ?fc = "if fc_buffer (fst s) = [] then (fst s)\<lparr>fc_buffer_start_sequence := ctx_stream_start ?c\<rparr> else fst s"
  have d: "d = stream_slice f n (length d)" and key: "connection ?c = key"
    using assms(2) by (simp_all only: agrees_on_def agrees_def connection_start)
  have "buffered f n (fc_buffer (fst s)) (fc_buffer_start_sequence (fst s))"
    using assms(1) by (auto simp: collector_inv_def buffer_ok_def buffered_def)
  from buffered_feed [OF this d]
  have "buffer_ok f (n + int (length d)) (?fc\<lparr>fc_buffer := fc_buffer ?fc @ d\<rparr>)"
    by (simp add: buffer_ok_def split: if_splits)
  then have "scan_ok W f (n + int (length d)) (?fc\<lparr>fc_buffer := fc_buffer ?fc @ d\<rparr>, snd s)"
    using assms(1) by (simp add: scan_ok_def collector_inv_def)
  from fc_scan_ok [OF this key, of known]
  have "scan_ok W f (n + int (length d)) (fc_feed known callback d ?c s)"
    using False by (simp add: fc_feed_def Let_def)
  then show ?thesis
    by (simp add: scan_ok_def collector_inv_def)
qed (use assms in \<open>simp add: fc_feed_def\<close>)

lemma standalone_collector_inv:
  assumes inv: "collector_inv W f ns s" and agree: "agrees_on key f q d c"
  shows "collector_inv W f ns (fc_scan_standalone known callback d (c\<lparr>ctx_stream_start := Some q\<rparr>) s)"
proof -
  let ?c = "c\<lparr>ctx_stream_start := Some q\<rparr>"
  let ?p = "unframed_prefix (fst s) d ?c"
  let ?fc = "(fst s)\<lparr>fc_buffer := ?p, fc_buffer_start_sequence := Some q, fc_synchronized := False\<rparr>"
  have d: "d = stream_slice f q (length d)" and key: "connection ?c = key"
    using agree by (simp_all only: agrees_on_def agrees_def connection_start)
  obtain k where k: "?p = take k d" "k \<le> length d"
  proof
    show "?p = take (length ?p) d" "length ?p \<le> length d"
      by (auto simp: unframed_prefix_def min_def split: option.split)
  qed
  have "?p = stream_slice f q (length ?p)"
    unfolding k(1) using slice_take [OF d k(2)] k(2) by simp
  then have "buffer_ok f (q + int (length ?p)) ?fc"
    by (simp add: buffer_ok_def buffered_def)
  then have "scan_ok W f (q + int (length ?p)) (?fc, snd s)"
    using inv by (simp add: scan_ok_def collector_inv_def)
  from fc_scan_ok [OF this key, of known]
  have "W (snd (fc_scan known callback ?c (?fc, snd s)))"
    by (simp add: scan_ok_def)
  then show ?thesis
    using inv by (auto simp: fc_scan_standalone_def Let_def collector_inv_def buffer_ok_def buffered_def split: prod.split)
qed

lemma collector_contract: "flow_contract (frame_scanner known callback) (agrees_on key f) (collector_inv W f)"
proof
  show "agrees_on key f (s + int k) (drop k d) c" if "agrees_on key f s d c" "k \<le> length d" for s d c k
    using that by (simp add: agrees_on_def agrees_drop)
  show "agrees_on key f s (take k d) c" if "agrees_on key f s d c" for s d c k
    using that by (simp add: agrees_on_def agrees_take)
  show "agrees_on key f s' d c"
    if "agrees_on key f s d c" "s' mod TCP_SEQUENCE_MODULUS = s mod TCP_SEQUENCE_MODULUS" for s d c s'
    using that agrees_mod by (auto simp: agrees_on_def)
qed (simp_all add: frame_scanner_def gap_reset_def feed_collector_inv standalone_collector_inv,
    auto simp: collector_inv_def fc_reset_def)

end

sublocale frame_client \<subseteq> flow_contract "frame_scanner known callback" "agrees_on key f" "collector_inv W f"
  by (rule collector_contract)

text \<open>The client that collects the frames.\<close>

interpretation collecting: frame_client collect_frame key f "list_all (frame_ok key f)"
  by unfold_locales (simp add: collect_frame_def)

end
