(* ===== verification/Frame_Properties.thy ===== *)
theory Frame_Properties
  imports Frame_Delivery Reassembly_Properties
begin

text \<open>
  The properties of the frame collector, alone and driven by the reassembly of a flow.
\<close>

section \<open>Framing and its inverse\<close>

text \<open>A message as the server sends it: its first two bytes are its own length.\<close>

definition well_framed :: "bytes \<Rightarrow> bool" where
  "well_framed m \<longleftrightarrow> frame_length_ok (int (length m)) \<and> uint16_at m 0 = int (length m)"

definition keep_message :: "bdo_frame \<Rightarrow> bytes list \<Rightarrow> bytes list" where
  "keep_message fr messages = messages @ [fr_message fr]"

text \<open>
  A synchronized collector in the middle of the messages \<open>ms\<close>, of whose bytes \<open>rest\<close> have
  not arrived yet.
\<close>

definition awaiting :: "bytes list \<Rightarrow> bytes \<Rightarrow> frame_collector \<Rightarrow> bool" where
  "awaiting ms rest fc \<longleftrightarrow> fc_synchronized fc \<and> list_all well_framed ms \<and> fc_buffer fc @ rest = concat ms"

definition incomplete :: "bytes list \<Rightarrow> frame_collector \<Rightarrow> bool" where
  "incomplete ms fc \<longleftrightarrow> (case ms of [] \<Rightarrow> fc_buffer fc = [] | m # _ \<Rightarrow> length (fc_buffer fc) < length m)"

lemma uint16_at_prefix: "2 \<le> length b \<Longrightarrow> uint16_at (b @ r) 0 = uint16_at b 0"
  by (simp add: uint16_at_def py_slice_append)

lemma scan_emits:
  assumes "awaiting ms rest fc"
  shows "\<exists>k \<le> length ms. snd (fc_scan known keep_message c (fc, out)) = out @ take k ms \<and>
    awaiting (drop k ms) rest (fst (fc_scan known keep_message c (fc, out))) \<and>
    incomplete (drop k ms) (fst (fc_scan known keep_message c (fc, out)))"
  using assms
proof (induction ms arbitrary: fc out)
  case Nil
  then have "fc_scan known keep_message c (fc, out) = (fc, out)"
    by (simp add: awaiting_def fc_scan.simps fc_scan_step_def)
  then show ?case
    using Nil by (simp add: awaiting_def incomplete_def)
next
  case (Cons m ms)
  from Cons.prems have m: "well_framed m" and buf: "fc_buffer fc @ rest = m @ concat ms" and sync: "fc_synchronized fc"
    by (simp_all add: awaiting_def)
  have len: "5 \<le> length m" "int (length m) \<le> MAX_TARGET_MESSAGE_LENGTH"
    using m by (auto simp: well_framed_def frame_length_ok_def)
  have head: "uint16_at (fc_buffer fc) 0 = int (length m)" if "5 \<le> length (fc_buffer fc)"
  proof -
    have "uint16_at (fc_buffer fc @ rest) 0 = uint16_at (fc_buffer fc) 0"
      using that by (intro uint16_at_prefix) simp
    moreover have "uint16_at (m @ concat ms) 0 = uint16_at m 0"
      using len by (intro uint16_at_prefix) simp
    ultimately show ?thesis
      using m buf by (simp add: well_framed_def)
  qed
  have continue: "synchronize known fc = Continue fc"
    using sync by (simp add: synchronize_def)
  show ?case
  proof (cases "length m \<le> length (fc_buffer fc)")
    case False
    then have "fc_scan_step known keep_message c (fc, out) = Return (fc, out)"
      using head continue m by (auto simp: fc_scan_step_def well_framed_def)
    then have "fc_scan known keep_message c (fc, out) = (fc, out)"
      by (simp add: fc_scan.simps)
    then show ?thesis
      using Cons.prems False by (intro exI [of _ 0]) (simp add: incomplete_def)
  next
    case True
    let ?fc = "fc_discard_prefix (int (length m)) (fc\<lparr>fc_frame_index := fc_frame_index fc + 1\<rparr>)"
    have pre: "take (length m) (fc_buffer fc) = m" and post: "drop (length m) (fc_buffer fc) @ rest = concat ms"
      using True arg_cong [OF buf, of "take (length m)"] arg_cong [OF buf, of "drop (length m)"] by simp_all
    have step: "fc_scan_step known keep_message c (fc, out) = Continue (?fc, out @ [m])"
      using head continue m True len pre
      by (simp add: fc_scan_step_def well_framed_def Let_def keep_message_def)
    have "awaiting ms rest ?fc"
      using Cons.prems sync post by (simp add: awaiting_def fc_discard_prefix_buffer)
    from Cons.IH [OF this, of "out @ [m]"] obtain k where "k \<le> length ms"
      "snd (fc_scan known keep_message c (?fc, out @ [m])) = out @ [m] @ take k ms"
      "awaiting (drop k ms) rest (fst (fc_scan known keep_message c (?fc, out @ [m])))"
      "incomplete (drop k ms) (fst (fc_scan known keep_message c (?fc, out @ [m])))"
      by auto
    moreover have "fc_scan known keep_message c (fc, out) = fc_scan known keep_message c (?fc, out @ [m])"
      using step by (simp add: fc_scan.simps [of known keep_message c "(fc, out)"])
    ultimately show ?thesis
      by (intro exI [of _ "Suc k"]) simp
  qed
qed

lemma feed_emits:
  assumes "awaiting ms (d @ rest) fc" and "incomplete ms fc"
  shows "\<exists>k \<le> length ms. snd (fc_feed known keep_message d c (fc, out)) = out @ take k ms \<and>
    awaiting (drop k ms) rest (fst (fc_feed known keep_message d c (fc, out))) \<and>
    incomplete (drop k ms) (fst (fc_feed known keep_message d c (fc, out)))"
proof (cases "d = []")
  case True
  then show ?thesis
    using assms by (intro exI [of _ 0]) (simp add: fc_feed_def)
next
  case False
  let ?fc = "if fc_buffer fc = [] then fc\<lparr>fc_buffer_start_sequence := ctx_stream_start c\<rparr> else fc"
  have "awaiting ms rest (?fc\<lparr>fc_buffer := fc_buffer ?fc @ d\<rparr>)"
    using assms(1) by (auto simp: awaiting_def)
  note scanned = scan_emits [OF this, of known c out]
  have eq: "fc_feed known keep_message d c (fc, out) =
      fc_scan known keep_message c (?fc\<lparr>fc_buffer := fc_buffer ?fc @ d\<rparr>, out)"
    using False by (simp only: fc_feed_def Let_def fst_conv snd_conv if_False)
  show ?thesis
    unfolding eq by (rule scanned)
qed

lemma chunks_emit:
  assumes "awaiting ms (concat (map fst chunks)) fc" and "incomplete ms fc"
  shows "\<exists>fc'. fold (\<lambda>(d, c). fc_feed known keep_message d c) chunks (fc, out) = (fc', out @ ms) \<and> fc_buffer fc' = []"
  using assms
proof (induction chunks arbitrary: ms fc out)
  case Nil
  then have "ms = []"
    by (cases ms) (auto simp: awaiting_def incomplete_def)
  then show ?case
    using Nil by (simp add: incomplete_def)
next
  case (Cons x chunks)
  obtain d c where x: "x = (d, c)"
    by (cases x)
  obtain k where k: "k \<le> length ms" "snd (fc_feed known keep_message d c (fc, out)) = out @ take k ms"
    "awaiting (drop k ms) (concat (map fst chunks)) (fst (fc_feed known keep_message d c (fc, out)))"
    "incomplete (drop k ms) (fst (fc_feed known keep_message d c (fc, out)))"
    using feed_emits [of ms d "concat (map fst chunks)" fc known c out] Cons.prems x by auto
  obtain fc' where feed: "fc_feed known keep_message d c (fc, out) = (fc', out @ take k ms)"
    using k(2) by (cases "fc_feed known keep_message d c (fc, out)") simp
  from Cons.IH [of "drop k ms" fc' "out @ take k ms"] k(3,4) show ?case
    by (simp add: x feed)
qed

section \<open>Properties\<close>

text \<open>C13. Reading back what was framed: a synchronized collector fed the messages
  \<open>ms\<close>, concatenated and cut into chunks in any way (frames split over several segments,
  several frames in one segment), emits exactly \<open>ms\<close>, in order, and keeps nothing.\<close>

theorem frames_roundtrip:
  assumes "\<forall>m \<in> set ms. well_framed m" and "concat (map fst chunks) = concat ms"
    and "fc_synchronized fc" and "fc_buffer fc = []"
  shows "let s = fold (\<lambda>(d, c). fc_feed known keep_message d c) chunks (fc, [])
    in snd s = ms \<and> fc_buffer (fst s) = []"
proof -
  have "awaiting ms (concat (map fst chunks)) fc"
    using assms by (simp add: awaiting_def list_all_iff)
  moreover have "incomplete ms fc"
    using assms by (auto simp: incomplete_def well_framed_def frame_length_ok_def split: list.split)
  ultimately show ?thesis
    using chunks_emit [of ms chunks fc known "[]"] by auto
qed

theorem frames_roundtrip_witness:
  "snd (fold (\<lambda>(d, c). fc_feed {} keep_message d c)
       [([5, 0], sample_context 1), ([1, 7], sample_context 2), ([9, 6, 0, 0, 1], sample_context 3), ([2, 3], sample_context 4)]
       (new_frame_collector\<lparr>fc_synchronized := True\<rparr>, []))
   = [[5, 0, 1, 7, 9], [6, 0, 0, 1, 2, 3]]"
  using frames_roundtrip [of "[[5, 0, 1, 7, 9], [6, 0, 0, 1, 2, 3]]"
      "[([5, 0], sample_context 1), ([1, 7], sample_context 2), ([9, 6, 0, 0, 1], sample_context 3), ([2, 3], sample_context 4)]"
      "new_frame_collector\<lparr>fc_synchronized := True\<rparr>" "{}"]
  by (simp add: new_frame_collector_def well_framed_def frame_length_ok_def uint16_at_def py_slice_prefix
      MAX_TARGET_MESSAGE_LENGTH_def Let_def)

text \<open>C16. From packets to frames: whatever order a connection's segments arrive in, with any
  gaps, retransmissions, timeouts and restarts, every frame the collector behind the
  reassembly emits is a whole message cut from the peer's stream: its declared length is its
  length and within the protocol's bounds, and its bytes are the stream's bytes at the
  position it is labelled with.\<close>

theorem frames_cut_from_stream:
  assumes "\<forall>op \<in> set ops. op_ok (agrees_on key f) op"
  shows "list_all (frame_ok key f) (snd (snd (run_ops (frame_scanner known collect_frame) ops
    (new_tcp_flow_state max_segments max_bytes defer gen, (new_frame_collector, [])))))"
proof -
  have "collector_inv (list_all (frame_ok key f)) f None (new_frame_collector, [])"
    by (simp add: collector_inv_def new_frame_collector_def)
  then have "collecting.inv key f (run_ops (frame_scanner known collect_frame) ops
      (new_tcp_flow_state max_segments max_bytes defer gen, (new_frame_collector, [])))"
    using assms by (rule collecting.run_ops_inv)
  then show ?thesis
    by (simp add: collecting.inv_def collector_inv_def)
qed

theorem frames_cut_from_stream_witness:
  "list_all (frame_ok (sample_flow, 0) (\<lambda>i. word_of_int i)) (snd (snd (run_ops (frame_scanner {} collect_frame)
     [AnchorSequence 5, AddSegment 8 [8, 9] (sample_context 2), AddSegment 5 [5, 6, 7] (sample_context 1), FinishFlow]
     (new_tcp_flow_state 128 None True 0, (new_frame_collector, [])))))"
  by (rule frames_cut_from_stream)
    (simp add: agrees_on_def connection_def agrees_def stream_slice_def TCP_SEQUENCE_MODULUS_eq upt_rec)

text \<open>The collector's memory is bounded: after it has consumed anything, it keeps at most
  one message of the maximum length and a split header, synchronized or not.\<close>

theorem collector_buffer_bounded:
  assumes "data \<noteq> []"
  shows "int (length (fc_buffer (fst (fc_feed known callback data c s)))) \<le> MAX_TARGET_MESSAGE_LENGTH + 4"
  using assms by (simp add: fc_feed_def Let_def fc_scan_bounded [unfolded MAX_UNSYNCHRONIZED_BUFFER_def])

theorem collector_buffer_bounded_witness:
  "int (length (fc_buffer (fst (fc_feed {} keep_message [5, 0, 1] (sample_context 1) (new_frame_collector, [])))))
     \<le> MAX_TARGET_MESSAGE_LENGTH + 4"
  by (rule collector_buffer_bounded) simp

text \<open>Rescanning a retransmission never disturbs the live stream: it leaves the buffer, its
  position, the synchronization and the start of the framed stream as they were, and emits
  nothing at all for bytes the collector has already collecting.\<close>

theorem rescan_is_isolated:
  "let s' = fc_scan_standalone known callback data c s in
     fc_buffer (fst s') = fc_buffer (fst s) \<and>
     fc_buffer_start_sequence (fst s') = fc_buffer_start_sequence (fst s) \<and>
     fc_synchronized (fst s') = fc_synchronized (fst s) \<and>
     fc_framed_stream_start (fst s') = fc_framed_stream_start (fst s) \<and>
     (case (fc_framed_stream_start (fst s), ctx_stream_start c) of
        (Some framed, Some start) \<Rightarrow> if framed \<le> start then s' = s else True
      | _ \<Rightarrow> True)"
  by (auto simp: fc_scan_standalone_def unframed_prefix_def Let_def split: prod.split option.split)

end
