(* ===== verification/Record_Decode.thy ===== *)
theory Record_Decode
  imports Protocol
begin

text \<open>
  \<^verbatim>\<open>src/bdo_toolkit/_record_geometry.py\<close> and the record functions of
  \<^verbatim>\<open>src/bdo_toolkit/_framing.py\<close>: which records a target message declares, and the
  events decoded from them.

  The specs are those \<^verbatim>\<open>EventSpec.__post_init__\<close> accepts (\<open>spec_ok\<close>), so every
  offset is non-negative and a repeat stride is positive; the recursion over configured
  strides stops on a stride that is not positive, which no such spec has.
\<close>

section \<open>Geometry\<close>

definition infer_repeat_stride :: "int \<Rightarrow> int \<Rightarrow> int \<Rightarrow> int option" where
  "infer_repeat_stride message_length single_record_length record_count =
     (if record_count < 2 then None
      else let extra_length = message_length - single_record_length
           in if extra_length \<le> 0 \<or> extra_length mod (record_count - 1) \<noteq> 0 then None
              else Some (extra_length div (record_count - 1)))"

definition uniform_stride :: "int list \<Rightarrow> int option" where
  "uniform_stride offsets =
     (case offsets of
        first # second # _ \<Rightarrow>
          let stride = second - first
          in if list_all (\<lambda>(earlier, later). later - earlier = stride) (zip offsets (tl offsets))
             then Some stride else None
      | _ \<Rightarrow> None)"

definition fields_fit_record :: "int \<Rightarrow> int \<Rightarrow> (int \<times> int) list \<Rightarrow> bool" where
  "fields_fit_record prefix_length stride field_spans =
     list_all (\<lambda>(offset, width). offset \<ge> prefix_length \<and> offset - prefix_length + width \<le> stride) field_spans"

section \<open>Structural records\<close>

definition TRANSFER_RECORD_MARKER :: bytes where
  "TRANSFER_RECORD_MARKER = replicate 4 0 @ replicate 8 0xFF"

definition TRANSFER_RECORD_MARKER_DELTA :: int where "TRANSFER_RECORD_MARKER_DELTA = 8"
definition TRANSFER_QUANTITY_BYTES :: int where "TRANSFER_QUANTITY_BYTES = 4"
definition INVENTORY_SNAPSHOT_QUANTITY_BYTES :: int where "INVENTORY_SNAPSHOT_QUANTITY_BYTES = 8"

definition structural_instance_offset :: "event_spec \<Rightarrow> int option" where
  "structural_instance_offset spec =
     (if spec_label spec = ''INVENTORY_TRANSFER'' then spec_item_instance_offset spec
      else if spec_label spec = ''INVENTORY_TO_STORAGE'' then spec_storage_instance_offset spec
      else None)"

definition supports_structural_record_scan :: "event_spec \<Rightarrow> bool" where
  "supports_structural_record_scan spec =
     (case structural_instance_offset spec of
        None \<Rightarrow> False
      | Some instance_offset \<Rightarrow>
          spec_quantity_offset spec - spec_item_offset spec = 4 \<and>
          instance_offset - spec_item_offset spec \<ge> 20)"

definition int_at :: "bytes \<Rightarrow> int \<Rightarrow> int \<Rightarrow> int" where
  "int_at message offset width = from_le (py_slice message offset (offset + width))"

definition instance_ok :: "bytes \<Rightarrow> bool" where
  "instance_ok i \<longleftrightarrow> i \<noteq> replicate 8 0 \<and> i \<noteq> replicate 8 0xFF"

definition looks_like_transfer_record :: "bytes \<Rightarrow> int \<Rightarrow> int \<Rightarrow> bool" where
  "looks_like_transfer_record message item_offset instance_delta =
     (let required_end = item_offset + max 20 (instance_delta + 8) in
      if item_offset < 0 \<or> required_end > int (length message) then False
      else let item_id = int_at message item_offset 4;
               quantity = int_at message (item_offset + 4) 4;
               inst = py_slice message (item_offset + instance_delta) (item_offset + instance_delta + 8);
               marker_at = item_offset + TRANSFER_RECORD_MARKER_DELTA
           in 0 < item_id \<and> item_id \<le> MAX_PLAUSIBLE_ITEM_ID \<and> quantity > 0 \<and> instance_ok inst \<and>
              py_slice message marker_at (marker_at + int (length TRANSFER_RECORD_MARKER))
                = TRANSFER_RECORD_MARKER)"

definition has_plausible_transfer_record_values ::
    "bytes \<Rightarrow> int \<Rightarrow> int \<Rightarrow> int \<Rightarrow> int \<Rightarrow> bool" where
  "has_plausible_transfer_record_values message item_offset quantity_offset instance_offset quantity_bytes =
     (let required_end = max (max (item_offset + 4) (quantity_offset + quantity_bytes)) (instance_offset + 8) in
      if min (min item_offset quantity_offset) instance_offset < 0 then False
      else if required_end > int (length message) then False
      else let item_id = int_at message item_offset 4;
               quantity = int_at message quantity_offset quantity_bytes;
               inst = py_slice message instance_offset (instance_offset + 8)
           in 0 < item_id \<and> item_id \<le> MAX_PLAUSIBLE_ITEM_ID \<and> quantity > 0 \<and> instance_ok inst)"

definition record_deltas :: "int \<Rightarrow> int \<Rightarrow> int list" where
  "record_deltas stride declared_count = map (\<lambda>i. stride * int i) [0..<nat declared_count]"

definition all_records_plausible :: "event_spec \<Rightarrow> bytes \<Rightarrow> int \<Rightarrow> int \<Rightarrow> int list \<Rightarrow> bool" where
  "all_records_plausible spec message instance_offset quantity_bytes deltas =
     list_all (\<lambda>delta. has_plausible_transfer_record_values message (spec_item_offset spec + delta)
                 (spec_quantity_offset spec + delta) (instance_offset + delta) quantity_bytes) deltas"

text \<open>
  The geometry a count at \<open>count_offset\<close> implies, which both declared layouts compute:
  the stride (\<open>None\<close> for one record) and the offsets of the records, or nothing when the
  message's length contradicts the count.
\<close>

definition declared_geometry ::
    "event_spec \<Rightarrow> bytes \<Rightarrow> int \<Rightarrow> int \<Rightarrow> int \<Rightarrow> int \<Rightarrow> int \<Rightarrow> (int option \<times> int list) option" where
  "declared_geometry spec message instance_offset base_length quantity_bytes count_offset declared_count =
     (if declared_count \<le> 0 then None
      else if declared_count = 1
      then (if int (length message) \<noteq> base_length then None else Some (None, [0]))
      else case infer_repeat_stride (int (length message)) base_length declared_count of
        None \<Rightarrow> None
      | Some stride \<Rightarrow>
          let prefix_length = base_length - stride in
          if prefix_length < 5 \<or> count_offset + 2 > prefix_length then None
          else if int (length message) - prefix_length \<noteq> declared_count * stride then None
          else if \<not> fields_fit_record prefix_length stride
                    [(spec_item_offset spec, 4), (spec_quantity_offset spec, quantity_bytes), (instance_offset, 8)]
          then None
          else Some (Some stride, record_deltas stride declared_count))"

text \<open>One turn of the loop over \<^verbatim>\<open>count_offset\<close>, and the loop.\<close>

definition note_geometry ::
    "event_spec \<Rightarrow> bytes \<Rightarrow> int \<Rightarrow> int \<Rightarrow> int \<Rightarrow> (int \<times> int option, int list) dict \<Rightarrow>
       (int \<times> int option, int list) dict" where
  "note_geometry spec message instance_offset base_length count_offset geometries =
     (let declared_count = int_at message count_offset 2 in
      case declared_geometry spec message instance_offset base_length
             INVENTORY_SNAPSHOT_QUANTITY_BYTES count_offset declared_count of
        None \<Rightarrow> geometries
      | Some (stride, deltas) \<Rightarrow>
          if all_records_plausible spec message instance_offset INVENTORY_SNAPSHOT_QUANTITY_BYTES deltas
          then AList.update (declared_count, stride) deltas geometries else geometries)"

definition snapshot_geometries ::
    "event_spec \<Rightarrow> bytes \<Rightarrow> int \<Rightarrow> int \<Rightarrow> (int \<times> int option, int list) dict" where
  "snapshot_geometries spec message instance_offset base_length =
     (let search_end = min (spec_item_offset spec) (int (length message))
      in fold (note_geometry spec message instance_offset base_length) [5 .. max 5 (search_end - 1) - 1] [])"

definition declared_inventory_snapshot_record_deltas :: "event_spec \<Rightarrow> bytes \<Rightarrow> int list option" where
  "declared_inventory_snapshot_record_deltas spec message =
     (if spec_label spec \<noteq> ''INVENTORY_TRANSFER'' then None
      else case (spec_item_instance_offset spec, spec_single_record_message_length spec) of
        (Some instance_offset, Some base_length) \<Rightarrow>
          (case snapshot_geometries spec message instance_offset base_length of
             [(_, deltas)] \<Rightarrow> Some deltas | _ \<Rightarrow> None)
      | _ \<Rightarrow> None)"

definition declared_storage_record_deltas :: "event_spec \<Rightarrow> bytes \<Rightarrow> int list option" where
  "declared_storage_record_deltas spec message =
     (if spec_label spec \<noteq> ''INVENTORY_TO_STORAGE'' then None
      else case (structural_instance_offset spec, spec_single_record_message_length spec, spec_record_count_offset spec) of
        (Some instance_offset, Some base_length, Some count_offset) \<Rightarrow>
          if count_offset < 5 \<or> count_offset + 2 > min (spec_item_offset spec) (int (length message)) then Some []
          else (case declared_geometry spec message instance_offset base_length TRANSFER_QUANTITY_BYTES
                       count_offset (int_at message count_offset 2) of
              None \<Rightarrow> Some []
            | Some (_, deltas) \<Rightarrow>
                if \<not> all_records_plausible spec message instance_offset TRANSFER_QUANTITY_BYTES deltas
                then Some [] else Some deltas)
      | _ \<Rightarrow> Some [])"

text \<open>
  Every position of \<open>needle\<close> from \<open>search_at\<close> on: the loops
  \<^verbatim>\<open>at = data.find(needle, search_at); search_at = at + 1\<close> until \<^verbatim>\<open>at < 0\<close>.
\<close>

function occurrences :: "bytes \<Rightarrow> bytes \<Rightarrow> int \<Rightarrow> int list" where
  "occurrences needle hay search_at =
     (let found = bytes_find hay needle search_at
      in if found < 0 \<or> needle = [] \<or> search_at < 0 then [] else found # occurrences needle hay (found + 1))"
  by pat_completeness auto
termination
proof (relation "measure (\<lambda>(needle, hay, search_at). nat (int (length hay) - search_at))")
  fix needle hay search_at found
  assume found: "found = bytes_find hay needle search_at" "\<not> (found < 0 \<or> needle = [] \<or> search_at < 0)"
  then have "search_at \<le> found \<and> found + int (length needle) \<le> int (length hay)"
    using bytes_find_found [of hay needle search_at found] by auto
  then have "search_at \<le> found \<and> search_at < int (length hay)"
    using found by (cases needle) auto
  then show "((needle, hay, found + 1), needle, hay, search_at)
      \<in> measure (\<lambda>(needle, hay, search_at). nat (int (length hay) - search_at))"
    by auto
qed auto

declare occurrences.simps [simp del]

definition structural_record_deltas :: "event_spec \<Rightarrow> bytes \<Rightarrow> int list option \<Rightarrow> int list option" where
  "structural_record_deltas spec message declared_storage_deltas =
     (case declared_storage_deltas of
        Some deltas \<Rightarrow> Some deltas
      | None \<Rightarrow>
          (case structural_instance_offset spec of
             None \<Rightarrow> None
           | Some instance_offset \<Rightarrow>
               if \<not> supports_structural_record_scan spec then None
               else
                 let instance_delta = instance_offset - spec_item_offset spec;
                     offsets = filter (\<lambda>item_offset. item_offset \<ge> spec_item_offset spec \<and>
                                  looks_like_transfer_record message item_offset instance_delta)
                       (map (\<lambda>marker_at. marker_at - TRANSFER_RECORD_MARKER_DELTA)
                          (occurrences TRANSFER_RECORD_MARKER message
                             (spec_item_offset spec + TRANSFER_RECORD_MARKER_DELTA)))
                 in if offsets = [] \<or> hd offsets \<noteq> spec_item_offset spec then Some []
                    else let minimum_stride = max 20 (instance_delta + 8);
                             inferred_stride =
                               (if length offsets > 1
                                then (case uniform_stride offsets of
                                        None \<Rightarrow> None
                                      | Some candidate_stride \<Rightarrow>
                                          if candidate_stride < minimum_stride then None else Some candidate_stride)
                                else Some 0)
                         in (case inferred_stride of
                               None \<Rightarrow> Some []
                             | Some stride \<Rightarrow>
                                 if (case spec_single_record_message_length spec of
                                       None \<Rightarrow> False
                                     | Some base_length \<Rightarrow>
                                         int (length message)
                                           \<noteq> base_length + (int (length offsets) - 1) * stride)
                                 then Some []
                                 else Some (map (\<lambda>offset. offset - spec_item_offset spec) offsets))))"

definition configured_message_length_matches_spec :: "event_spec \<Rightarrow> int \<Rightarrow> bool" where
  "configured_message_length_matches_spec spec message_length =
     (case spec_single_record_message_length spec of
        None \<Rightarrow> True
      | Some base_length \<Rightarrow>
          (case spec_repeat_stride spec of
             None \<Rightarrow> message_length = base_length
           | Some repeat_stride \<Rightarrow>
               let extra_records_length = message_length - base_length
               in extra_records_length \<ge> 0 \<and> extra_records_length mod repeat_stride = 0))"

section \<open>Events\<close>

text \<open>\<^verbatim>\<open>required_end\<close>: the end of the last field of the record at \<open>delta\<close>.\<close>

definition max_opt :: "int \<Rightarrow> int option \<Rightarrow> int \<Rightarrow> int" where
  "max_opt e offset width = (case offset of None \<Rightarrow> e | Some i \<Rightarrow> max e (i + width))"

definition record_end :: "event_spec \<Rightarrow> int \<Rightarrow> int \<Rightarrow> int" where
  "record_end spec quantity_bytes delta =
     max_opt
       (max_opt
          (max_opt (max (spec_item_offset spec + delta + 4) (spec_quantity_offset spec + delta + quantity_bytes))
             (spec_inventory_slot_offset spec) (delta + 1))
          (spec_item_instance_offset spec) (delta + 8))
       (spec_storage_instance_offset spec) (delta + 8)"

lemma record_end_grows: "delta + spec_item_offset spec + 4 \<le> record_end spec q delta"
  by (auto simp: record_end_def max_opt_def split: option.split)

function configured_deltas :: "event_spec \<Rightarrow> bytes \<Rightarrow> int \<Rightarrow> int list" where
  "configured_deltas spec message delta =
     (if record_end spec TRANSFER_QUANTITY_BYTES delta > int (length message) then []
      else case spec_repeat_stride spec of
        None \<Rightarrow> [delta]
      | Some repeat_stride \<Rightarrow>
          if repeat_stride \<le> 0 then [delta]
          else delta # configured_deltas spec message (delta + repeat_stride))"
  by pat_completeness auto
termination
proof (relation "measure (\<lambda>(spec, message, delta). nat (int (length message) - (delta + spec_item_offset spec) - 3))")
  fix spec :: event_spec and message :: bytes and delta repeat_stride :: int
  assume "\<not> int (length message) < record_end spec TRANSFER_QUANTITY_BYTES delta" "\<not> repeat_stride \<le> 0"
  then show "((spec, message, delta + repeat_stride), spec, message, delta)
      \<in> measure (\<lambda>(spec, message, delta). nat (int (length message) - (delta + spec_item_offset spec) - 3))"
    using record_end_grows [of delta spec TRANSFER_QUANTITY_BYTES] by auto
qed auto

declare configured_deltas.simps [simp del]

definition decode_record ::
    "event_spec \<Rightarrow> bytes \<Rightarrow> int \<Rightarrow> bytes option \<Rightarrow> packet_context \<Rightarrow> int option \<Rightarrow> int option \<Rightarrow> string option \<Rightarrow>
       int \<Rightarrow> nat \<Rightarrow> nat \<times> int \<times> int \<Rightarrow> loot_event option" where
  "decode_record spec message message_length source_context_candidate ctx stream_sequence storage_id
     storage_operation quantity_bytes record_count indexed =
     (case indexed of (record_index, delta, item_offset) \<Rightarrow>
        let quantity_offset = spec_quantity_offset spec + delta;
            item_id = int_at message item_offset 4;
            quantity = int_at message quantity_offset quantity_bytes;
            field = (\<lambda>offset. map_option (\<lambda>i. py_slice message (i + delta) (i + delta + 8)) offset)
        in if item_id \<le> 0 \<or> item_id > MAX_PLAUSIBLE_ITEM_ID \<or> quantity \<le> 0 then None
           else Some
             \<lparr>le_label = spec_label spec, le_opcode = spec_opcode spec, le_item_id = item_id,
              le_quantity = quantity,
              le_inventory_slot =
                map_option (\<lambda>i. uint (message ! nat (i + delta))) (spec_inventory_slot_offset spec),
              le_source_context_candidate = source_context_candidate,
              le_item_instance = field (spec_item_instance_offset spec),
              le_storage_instance = field (spec_storage_instance_offset spec),
              le_message_length = message_length, le_default_context = spec_default_context spec,
              le_context = ctx, le_stream_sequence = stream_sequence,
              le_record_offset = Some item_offset,
              le_record_index = (if record_count > 1 then Some (int record_index) else None),
              le_record_count = (if record_count > 1 then Some (int record_count) else None),
              le_storage_id = storage_id, le_storage_operation = storage_operation\<rparr>)"

definition is_inventory_snapshot :: "event_spec \<Rightarrow> bytes option \<Rightarrow> bool" where
  "is_inventory_snapshot spec source_context_candidate \<longleftrightarrow>
     spec_label spec = ''INVENTORY_TRANSFER'' \<and> source_context_candidate = Some CHARACTER_LOAD_CONTEXT"

definition quantity_width :: "event_spec \<Rightarrow> bytes option \<Rightarrow> int" where
  "quantity_width spec source_context_candidate =
     (if is_inventory_snapshot spec source_context_candidate then INVENTORY_SNAPSHOT_QUANTITY_BYTES
      else TRANSFER_QUANTITY_BYTES)"

text \<open>The offsets of the records to decode; \<open>None\<close> is \<^verbatim>\<open>return None\<close>.\<close>

definition candidate_deltas :: "event_spec \<Rightarrow> bytes \<Rightarrow> int \<Rightarrow> bytes option \<Rightarrow> int list option" where
  "candidate_deltas spec message message_length source_context_candidate =
     (if is_inventory_snapshot spec source_context_candidate
      then declared_inventory_snapshot_record_deltas spec message
      else case structural_record_deltas spec message
                  (if spec_label spec = ''INVENTORY_TO_STORAGE''
                   then declared_storage_record_deltas spec message else None) of
          Some deltas \<Rightarrow> Some deltas
        | None \<Rightarrow>
            if \<not> configured_message_length_matches_spec spec message_length then None
            else Some (configured_deltas spec message 0))"

definition storage_id_of :: "event_spec \<Rightarrow> bytes option \<Rightarrow> int option" where
  "storage_id_of spec source_context_candidate =
     (case (spec_source_context_offset spec, source_context_candidate) of
        (Some _, Some candidate) \<Rightarrow> if length candidate = 4 then Some (from_le candidate) else None
      | _ \<Rightarrow> None)"

definition decode_events_from_message ::
    "event_spec \<Rightarrow> bytes \<Rightarrow> int \<Rightarrow> bytes option \<Rightarrow> packet_context \<Rightarrow> int option \<Rightarrow> loot_event list option" where
  "decode_events_from_message spec message message_length source_context_candidate ctx stream_sequence =
     (case candidate_deltas spec message message_length source_context_candidate of
        None \<Rightarrow> None
      | Some deltas \<Rightarrow>
          let quantity_bytes = quantity_width spec source_context_candidate;
              records = map (\<lambda>delta. (delta, spec_item_offset spec + delta))
                (filter (\<lambda>delta. record_end spec quantity_bytes delta \<le> int (length message)) deltas);
              storage = spec_label spec = ''INVENTORY_TO_STORAGE'' \<and> records \<noteq> [];
              events = List.map_filter
                (decode_record spec message message_length source_context_candidate ctx stream_sequence
                   (if storage then storage_id_of spec source_context_candidate else None)
                   (if storage then Some ''unknown'' else None) quantity_bytes (length records))
                (enumerate 1 records)
          in if events \<noteq> [] then Some events
             else if is_inventory_snapshot spec source_context_candidate \<and> deltas = [] then Some []
             else None)"

end
