(* ===== verification/Record_Properties.thy ===== *)
theory Record_Properties
  imports Record_Decode
begin

text \<open>
  What decoding a target message promises: the events it returns are read from records that
  lie inside the message, and declared layouts decode completely or not at all.
\<close>

section \<open>Records and events\<close>

lemma max_opt_shift: "max_opt (e + d) offset (d + w) = max_opt e offset (0 + w) + d"
  by (cases offset) (simp_all add: max_opt_def max_def)

lemma record_end_shift: "record_end spec q d = record_end spec q 0 + d"
proof -
  have "max (spec_item_offset spec + d + 4) (spec_quantity_offset spec + d + q) =
      max (spec_item_offset spec + 0 + 4) (spec_quantity_offset spec + 0 + q) + d"
    by (simp add: max_def)
  then show ?thesis
    by (simp only: record_end_def max_opt_shift)
qed

lemma decode_record_SomeD:
  assumes "decode_record spec message ml src ctx sq sid sop qw n (i, d, off) = Some e"
  shows "0 < le_item_id e" "le_item_id e \<le> MAX_PLAUSIBLE_ITEM_ID" "0 < le_quantity e"
    "le_item_id e = int_at message off 4" "le_quantity e = int_at message (spec_quantity_offset spec + d) qw"
    "le_record_offset e = Some off" "le_label e = spec_label spec" "le_opcode e = spec_opcode spec"
    "le_source_context_candidate e = src" "le_context e = ctx" "le_stream_sequence e = sq"
  using assms by (auto simp: decode_record_def Let_def split: if_splits)

definition decode_records :: "event_spec \<Rightarrow> int \<Rightarrow> bytes \<Rightarrow> int list \<Rightarrow> (int \<times> int) list" where
  "decode_records spec qw message deltas = map (\<lambda>d. (d, spec_item_offset spec + d))
     (filter (\<lambda>d. record_end spec qw d \<le> int (length message)) deltas)"

lemma declared_geometry_deltas:
  assumes "declared_geometry spec message io b qw co n = Some (stride, deltas)"
  shows "0 < n" "length deltas = nat n" "deltas = record_deltas (case stride of None \<Rightarrow> 0 | Some w \<Rightarrow> w) n"
    "int (length message) = b + (n - 1) * (case stride of None \<Rightarrow> 0 | Some w \<Rightarrow> w)"
proof -
  have "infer_repeat_stride ml b k = Some w \<Longrightarrow> ml = b + (k - 1) * w" for ml k w
    by (auto simp: infer_repeat_stride_def Let_def split: if_splits)
  then show "0 < n" "length deltas = nat n" "deltas = record_deltas (case stride of None \<Rightarrow> 0 | Some w \<Rightarrow> w) n"
    "int (length message) = b + (n - 1) * (case stride of None \<Rightarrow> 0 | Some w \<Rightarrow> w)"
    using assms by (auto simp: declared_geometry_def Let_def record_deltas_def split: if_splits option.splits)
qed

lemma note_geometry_nonempty:
  assumes "\<forall>e \<in> set geometries. snd e \<noteq> []"
  shows "\<forall>e \<in> set (note_geometry spec message io b co geometries). snd e \<noteq> []"
proof (cases "declared_geometry spec message io b INVENTORY_SNAPSHOT_QUANTITY_BYTES co (int_at message co 2)")
  case (Some g)
  obtain stride deltas where g: "g = (stride, deltas)"
    by (cases g)
  have "deltas \<noteq> []"
    using declared_geometry_deltas(1,2) [OF Some [unfolded g]] by auto
  then show ?thesis
    using assms Some g set_update_subset [of "(int_at message co 2, stride)" deltas geometries]
    by (auto simp: note_geometry_def Let_def)
qed (use assms in \<open>simp add: note_geometry_def Let_def\<close>)

lemma snapshot_deltas_nonempty:
  assumes "declared_inventory_snapshot_record_deltas spec message = Some deltas"
  shows "deltas \<noteq> []"
proof -
  obtain io b k where "snapshot_geometries spec message io b = [(k, deltas)]"
    using assms by (auto simp: declared_inventory_snapshot_record_deltas_def
        split: if_splits option.splits list.splits prod.splits)
  moreover have "\<forall>e \<in> set (snapshot_geometries spec message io b). snd e \<noteq> []"
    unfolding snapshot_geometries_def Let_def
  proof -
    have loop: "\<forall>e \<in> set (fold (note_geometry spec message io b) xs acc). snd e \<noteq> []"
      if "\<forall>e \<in> set acc. snd e \<noteq> []" for xs acc
      using that
    proof (induction xs arbitrary: acc)
      case (Cons x xs)
      show ?case
        using Cons.IH [OF note_geometry_nonempty [OF Cons.prems]] by simp
    qed simp
    show "\<forall>e \<in> set (fold (note_geometry spec message io b)
        [5 .. max 5 (min (spec_item_offset spec) (int (length message)) - 1) - 1] []). snd e \<noteq> []"
      by (rule loop) simp
  qed
  ultimately show ?thesis
    by simp
qed

lemma decode_events_shape:
  assumes "decode_events_from_message spec message ml src ctx sq = Some events"
  obtains deltas sid sop where "candidate_deltas spec message ml src = Some deltas" "events \<noteq> []"
    "events = List.map_filter (decode_record spec message ml src ctx sq sid sop (quantity_width spec src)
       (length (decode_records spec (quantity_width spec src) message deltas)))
       (enumerate 1 (decode_records spec (quantity_width spec src) message deltas))"
proof -
  obtain deltas where c: "candidate_deltas spec message ml src = Some deltas"
    using assms by (auto simp: decode_events_from_message_def split: option.splits)
  moreover have "\<not> (is_inventory_snapshot spec src \<and> deltas = [])"
    using c snapshot_deltas_nonempty [of spec message deltas] by (auto simp: candidate_deltas_def)
  ultimately show thesis
    using assms that unfolding decode_events_from_message_def decode_records_def
    by (auto simp: Let_def split: if_splits)
qed

lemma in_enumerate_records:
  "(i, d, off) \<in> set (enumerate n (decode_records spec qw message deltas)) \<Longrightarrow>
     off = spec_item_offset spec + d \<and> d \<in> set deltas \<and> record_end spec qw d \<le> int (length message)"
  unfolding enumerate_eq_zip by (drule set_zip_rightD) (auto simp: decode_records_def)

text \<open>
  Every event has a plausible item id, a positive quantity, and its values are read at the
  record offset it reports, from a record that ends inside the message.
\<close>

definition event_sound :: "event_spec \<Rightarrow> bytes \<Rightarrow> int \<Rightarrow> loot_event \<Rightarrow> bool" where
  "event_sound spec message qw e \<longleftrightarrow>
     0 < le_item_id e \<and> le_item_id e \<le> MAX_PLAUSIBLE_ITEM_ID \<and> 0 < le_quantity e \<and>
     le_label e = spec_label spec \<and> le_opcode e = spec_opcode spec \<and>
     (case le_record_offset e of
        None \<Rightarrow> False
      | Some offset \<Rightarrow>
          le_item_id e = int_at message offset 4 \<and>
          le_quantity e = int_at message (spec_quantity_offset spec + (offset - spec_item_offset spec)) qw \<and>
          record_end spec qw (offset - spec_item_offset spec) \<le> int (length message))"

lemma decode_events_sound:
  assumes "decode_events_from_message spec message ml src ctx sq = Some events"
  shows "list_all (event_sound spec message (quantity_width spec src)) events"
proof -
  let ?qw = "quantity_width spec src"
  obtain deltas sid sop where ev: "events = List.map_filter (decode_record spec message ml src ctx sq sid sop ?qw
       (length (decode_records spec ?qw message deltas))) (enumerate 1 (decode_records spec ?qw message deltas))"
    using assms by (rule decode_events_shape)
  show ?thesis
  proof (unfold list_all_iff, rule ballI)
    fix e assume "e \<in> set events"
    then obtain i d off where x: "(i, d, off) \<in> set (enumerate 1 (decode_records spec ?qw message deltas))"
      and e: "decode_record spec message ml src ctx sq sid sop ?qw
        (length (decode_records spec ?qw message deltas)) (i, d, off) = Some e"
      unfolding ev set_map_filter_Some by (metis prod_cases3)
    show "event_sound spec message ?qw e"
      using in_enumerate_records [OF x] decode_record_SomeD [OF e] by (simp add: event_sound_def)
  qed
qed

section \<open>Record offsets are never negative\<close>

lemma infer_repeat_stride_pos:
  assumes "infer_repeat_stride ml b n = Some w"
  shows "0 < w" "ml = b + (n - 1) * w"
proof -
  have "2 \<le> n" "0 < ml - b" and w: "w = (ml - b) div (n - 1)" and "(ml - b) mod (n - 1) = 0"
    using assms by (auto simp: infer_repeat_stride_def Let_def split: if_splits)
  then show eq: "ml = b + (n - 1) * w"
    by auto
  then show "0 < w"
    using \<open>2 \<le> n\<close> \<open>0 < ml - b\<close> by (simp add: zero_less_mult_iff)
qed

lemma declared_geometry_nonneg:
  assumes "declared_geometry spec message io b qw co n = Some (stride, deltas)" and "d \<in> set deltas"
  shows "0 \<le> d"
proof -
  have "0 \<le> (case stride of None \<Rightarrow> 0 | Some w \<Rightarrow> w)"
    using assms(1) infer_repeat_stride_pos(1) [of "int (length message)" b n]
    by (auto simp: declared_geometry_def Let_def split: if_splits option.splits)
  then show ?thesis
    using assms(2) by (auto simp: declared_geometry_deltas(3) [OF assms(1)] record_deltas_def)
qed

lemma note_geometry_nonneg:
  assumes "\<forall>e \<in> set geometries. \<forall>d \<in> set (snd e). 0 \<le> d"
  shows "\<forall>e \<in> set (note_geometry spec message io b co geometries). \<forall>d \<in> set (snd e). 0 \<le> d"
proof (cases "declared_geometry spec message io b INVENTORY_SNAPSHOT_QUANTITY_BYTES co (int_at message co 2)")
  case (Some g)
  obtain stride deltas where g: "g = (stride, deltas)"
    by (cases g)
  have "\<forall>d \<in> set deltas. 0 \<le> d"
    using declared_geometry_nonneg [OF Some [unfolded g]] by blast
  then show ?thesis
    using assms Some g set_update_subset [of "(int_at message co 2, stride)" deltas geometries]
    by (auto simp: note_geometry_def Let_def)
qed (use assms in \<open>simp add: note_geometry_def Let_def\<close>)

lemma snapshot_deltas_nonneg:
  assumes "declared_inventory_snapshot_record_deltas spec message = Some deltas" and "d \<in> set deltas"
  shows "0 \<le> d"
proof -
  have loop: "\<forall>e \<in> set (fold (note_geometry spec message io b) xs acc). \<forall>d \<in> set (snd e). 0 \<le> d"
    if "\<forall>e \<in> set acc. \<forall>d \<in> set (snd e). 0 \<le> d" for xs acc io b
    using that
  proof (induction xs arbitrary: acc)
    case (Cons x xs)
    show ?case
      using Cons.IH [OF note_geometry_nonneg [OF Cons.prems]] by simp
  qed simp
  obtain io b k where "snapshot_geometries spec message io b = [(k, deltas)]"
    using assms(1) by (auto simp: declared_inventory_snapshot_record_deltas_def
        split: if_splits option.splits list.splits prod.splits)
  moreover have "\<forall>e \<in> set (snapshot_geometries spec message io b). \<forall>d \<in> set (snd e). 0 \<le> d"
    unfolding snapshot_geometries_def Let_def by (rule loop) simp
  ultimately show ?thesis
    using assms(2) by simp
qed

lemma configured_deltas_nonneg:
  "0 \<le> delta \<Longrightarrow> d \<in> set (configured_deltas spec message delta) \<Longrightarrow> 0 \<le> d"
proof (induction spec message delta rule: configured_deltas.induct)
  case (1 spec message delta)
  show ?case
  proof (cases "record_end spec TRANSFER_QUANTITY_BYTES delta > int (length message)")
    case True
    then show ?thesis
      using "1.prems" by (simp add: configured_deltas.simps [of spec message delta])
  next
    case False
    then show ?thesis
      using "1.IH" "1.prems" by (auto simp: configured_deltas.simps [of spec message delta] split: option.splits if_splits)
  qed
qed

lemma structural_deltas_nonneg:
  assumes "structural_record_deltas spec message None = Some deltas" and "d \<in> set deltas"
  shows "0 \<le> d"
  using assms by (auto simp: structural_record_deltas_def Let_def split: option.splits if_splits)

lemma storage_deltas_nonneg:
  assumes "declared_storage_record_deltas spec message = Some deltas" and "d \<in> set deltas"
  shows "0 \<le> d"
  using assms declared_geometry_nonneg
  by (auto simp: declared_storage_record_deltas_def split: option.splits if_splits prod.splits)

lemma candidate_deltas_nonneg:
  assumes "candidate_deltas spec message ml src = Some deltas" and "d \<in> set deltas"
  shows "0 \<le> d"
proof (cases "is_inventory_snapshot spec src")
  case True
  then show ?thesis
    using assms snapshot_deltas_nonneg by (simp add: candidate_deltas_def)
next
  case False
  have "structural_record_deltas spec message (Some ds) = Some ds" for ds
    by (simp add: structural_record_deltas_def)
  then show ?thesis
    using assms False storage_deltas_nonneg structural_deltas_nonneg configured_deltas_nonneg [of 0]
    by (cases "declared_storage_record_deltas spec message")
      (auto simp: candidate_deltas_def split: if_splits option.splits)
qed

section \<open>Declared storage batches\<close>

text \<open>
  The layout a storage message declares: \<open>n\<close> records of \<open>stride\<close> bytes after a prefix that
  holds the count at the calibrated position.
\<close>

definition storage_batch :: "event_spec \<Rightarrow> bytes \<Rightarrow> int \<Rightarrow> int \<Rightarrow> bool" where
  "storage_batch spec message n stride \<longleftrightarrow>
     (case (spec_storage_instance_offset spec, spec_single_record_message_length spec, spec_record_count_offset spec) of
        (Some instance_offset, Some base_length, Some count_offset) \<Rightarrow>
          5 \<le> count_offset \<and> count_offset + 2 \<le> min (spec_item_offset spec) (base_length - stride) \<and>
          count_offset + 2 \<le> int (length message) \<and>
          0 < n \<and> 0 < stride \<and> 5 \<le> base_length - stride \<and>
          int_at message count_offset 2 = n \<and> int (length message) = base_length + (n - 1) * stride \<and>
          fields_fit_record (base_length - stride) stride
            [(spec_item_offset spec, 4), (spec_quantity_offset spec, 4), (instance_offset, 8)] \<and>
          all_records_plausible spec message instance_offset 4 (record_deltas stride n)
      | _ \<Rightarrow> False)"

lemma infer_repeat_stride_exact:
  assumes "2 \<le> n" and "0 < stride"
  shows "infer_repeat_stride (b + (n - 1) * stride) b n = Some stride"
proof -
  have "0 < (n - 1) * stride"
    using assms by simp
  then show ?thesis
    using assms by (simp add: infer_repeat_stride_def Let_def not_le)
qed

lemma storage_batch_deltas:
  assumes "spec_label spec = ''INVENTORY_TO_STORAGE''" and "storage_batch spec message n stride"
  shows "declared_storage_record_deltas spec message = Some (record_deltas stride n)"
proof -
  obtain io b co where o: "spec_storage_instance_offset spec = Some io" "spec_single_record_message_length spec = Some b"
      "spec_record_count_offset spec = Some co"
    using assms(2) by (auto simp: storage_batch_def split: option.splits)
  have len: "int (length message) = b + (n - 1) * stride" and n: "0 < n" "0 < stride"
    using assms(2) o by (simp_all add: storage_batch_def)
  have stride: "infer_repeat_stride (int (length message)) b n = Some stride" if "n \<noteq> 1"
    unfolding len using n that by (intro infer_repeat_stride_exact) auto
  have rest: "int (length message) - (b - stride) = n * stride"
    unfolding len by (simp add: left_diff_distrib)
  have geometry: "declared_geometry spec message io b TRANSFER_QUANTITY_BYTES co n =
      Some (if n = 1 then None else Some stride, record_deltas stride n)"
  proof (cases "n = 1")
    case True
    then show ?thesis
      using len by (simp add: declared_geometry_def record_deltas_def)
  next
    case False
    then show ?thesis
      using assms(2) o stride rest n
      by (simp add: storage_batch_def declared_geometry_def Let_def TRANSFER_QUANTITY_BYTES_def)
  qed
  have "structural_instance_offset spec = Some io"
    using assms(1) o by (simp add: structural_instance_offset_def)
  moreover have "\<not> (co < 5 \<or> co + 2 > min (spec_item_offset spec) (int (length message)))"
    and "int_at message co 2 = n"
    and "all_records_plausible spec message io TRANSFER_QUANTITY_BYTES (record_deltas stride n)"
    using assms(2) o by (auto simp: storage_batch_def TRANSFER_QUANTITY_BYTES_def)
  ultimately show ?thesis
    by (simp add: declared_storage_record_deltas_def assms(1) o geometry)
qed

lemma map_filter_map_Some:
  "(\<And>x. x \<in> set xs \<Longrightarrow> f x = Some (g x)) \<Longrightarrow> List.map_filter f xs = map g xs"
  by (induction xs) (simp_all add: List.map_filter_simps)

lemma plausible_nth:
  assumes "all_records_plausible spec message io qw deltas" and "d \<in> set deltas"
  shows "0 < int_at message (spec_item_offset spec + d) 4"
    "int_at message (spec_item_offset spec + d) 4 \<le> MAX_PLAUSIBLE_ITEM_ID"
    "0 < int_at message (spec_quantity_offset spec + d) qw"
  using assms
  by (auto simp: all_records_plausible_def list_all_iff has_plausible_transfer_record_values_def Let_def split: if_splits)

text \<open>The last field of a record ends inside the message when that of the first does.\<close>

lemma record_end_inside:
  assumes "int (length message) = b + (n - 1) * stride" and "record_end spec qw 0 \<le> b" and "0 \<le> stride"
    and "d \<in> set (record_deltas stride n)"
  shows "record_end spec qw d \<le> int (length message)"
proof -
  obtain i where i: "i < nat n" and d: "d = stride * int i"
    using assms(4) by (auto simp: record_deltas_def)
  have "int i \<le> n - 1"
    using i by linarith
  then have "d \<le> (n - 1) * stride"
    using assms(3) d by (simp add: mult.commute mult_left_mono)
  then show ?thesis
    using assms(1,2) by (subst record_end_shift) simp
qed

text \<open>When every candidate record fits and is plausible, every one becomes an event.\<close>

lemma decode_all_records:
  assumes cand: "candidate_deltas spec message ml src = Some ds" and ne: "ds \<noteq> []"
    and qw: "quantity_width spec src = qw"
    and fits: "\<And>d. d \<in> set ds \<Longrightarrow> record_end spec qw d \<le> int (length message)"
    and plausible: "all_records_plausible spec message io qw ds"
  shows "map_option (map (\<lambda>e. (le_record_offset e, le_item_id e, le_quantity e)))
      (decode_events_from_message spec message ml src ctx sq)
    = Some (map (\<lambda>d. (Some (spec_item_offset spec + d), int_at message (spec_item_offset spec + d) 4,
              int_at message (spec_quantity_offset spec + d) qw)) ds)"
proof -
  define storage where "storage \<longleftrightarrow> spec_label spec = ''INVENTORY_TO_STORAGE''"
  define f where "f = decode_record spec message ml src ctx sq (if storage then storage_id_of spec src else None)
    (if storage then Some ''unknown'' else None) qw (length ds)"
  define xs where "xs = enumerate 1 (map (\<lambda>d. (d, spec_item_offset spec + d)) ds)"
  have records: "filter (\<lambda>d. record_end spec qw d \<le> int (length message)) ds = ds"
    using fits by (simp add: filter_id_conv)
  have xs: "d \<in> set ds \<and> off = spec_item_offset spec + d" if "(i, d, off) \<in> set xs" for i d off
    using that by (auto simp: xs_def enumerate_eq_zip dest: set_zip_rightD)
  have some: "\<exists>e. f x = Some e" if "x \<in> set xs" for x
  proof -
    obtain i d off where x: "x = (i, d, off)"
      by (cases x)
    show ?thesis
      using xs [OF that [unfolded x]] plausible_nth [OF plausible, of d]
      by (simp add: x f_def decode_record_def Let_def)
  qed
  have mf: "List.map_filter f xs = map (\<lambda>x. the (f x)) xs"
    using some by (intro map_filter_map_Some) fastforce
  have "xs \<noteq> []"
    unfolding xs_def using ne by (metis length_0_conv length_enumerate length_map)
  then have dec: "decode_events_from_message spec message ml src ctx sq = Some (map (\<lambda>x. the (f x)) xs)"
    using mf ne unfolding f_def xs_def storage_def
    by (simp add: decode_events_from_message_def cand qw records Let_def)
  have "(\<lambda>e. (le_record_offset e, le_item_id e, le_quantity e)) (the (f x)) =
      (\<lambda>d. (Some (spec_item_offset spec + d), int_at message (spec_item_offset spec + d) 4,
              int_at message (spec_quantity_offset spec + d) qw)) (fst (snd x))" if "x \<in> set xs" for x
  proof -
    obtain i d off where x: "x = (i, d, off)"
      by (cases x)
    from some [OF that] obtain e where e: "f x = Some e"
      by blast
    show ?thesis
      using decode_record_SomeD [OF e [unfolded x f_def]] e xs [OF that [unfolded x]] by (simp add: x)
  qed
  then have "map (\<lambda>e. (le_record_offset e, le_item_id e, le_quantity e)) (map (\<lambda>x. the (f x)) xs) =
      map (\<lambda>d. (Some (spec_item_offset spec + d), int_at message (spec_item_offset spec + d) 4,
              int_at message (spec_quantity_offset spec + d) qw)) (map (fst \<circ> snd) xs)"
    unfolding map_map by (intro map_cong) simp_all
  moreover have "map (fst \<circ> snd) xs = ds"
    unfolding map_map [symmetric] xs_def map_snd_enumerate by (simp add: comp_def)
  ultimately show ?thesis
    using dec by simp
qed

lemma storage_quantity_width:
  "spec_label spec = ''INVENTORY_TO_STORAGE'' \<Longrightarrow> quantity_width spec src = 4"
  by (simp add: quantity_width_def is_inventory_snapshot_def TRANSFER_QUANTITY_BYTES_def)

lemma storage_candidate_deltas:
  assumes "spec_label spec = ''INVENTORY_TO_STORAGE''"
  shows "candidate_deltas spec message ml src = declared_storage_record_deltas spec message"
proof -
  have "declared_storage_record_deltas spec message \<noteq> None"
    using assms by (auto simp: declared_storage_record_deltas_def split: option.split)
  then show ?thesis
    using assms by (auto simp: candidate_deltas_def is_inventory_snapshot_def structural_record_deltas_def)
qed

section \<open>A concrete layout\<close>

text \<open>A storage layout with 16-byte records after a 7-byte prefix, and a batch of two records.\<close>

abbreviation sample_storage_spec :: event_spec where
  "sample_storage_spec \<equiv> \<lparr>spec_label = ''INVENTORY_TO_STORAGE'', spec_opcode = 0x1234, spec_item_offset = 7,
     spec_quantity_offset = 11, spec_min_message_length = 23, spec_inventory_slot_offset = None,
     spec_source_context_offset = None, spec_source_context_length = 4, spec_record_count_offset = Some 5,
     spec_item_instance_offset = None, spec_storage_instance_offset = Some 15, spec_repeat_stride = None,
     spec_single_record_message_length = Some 23, spec_default_context = None\<rparr>"

abbreviation sample_batch :: bytes where
  "sample_batch \<equiv> [39, 0, 0, 0x34, 0x12, 2, 0,
     5, 0, 0, 0, 3, 0, 0, 0, 1, 1, 1, 1, 1, 1, 1, 1,
     6, 0, 0, 0, 9, 0, 0, 0, 2, 2, 2, 2, 2, 2, 2, 2]"

lemma sample_batch_ok: "storage_batch sample_storage_spec sample_batch 2 16"
  by code_simp

lemma sample_batch_inside:
  "\<forall>b. spec_single_record_message_length sample_storage_spec = Some b \<longrightarrow> record_end sample_storage_spec 4 0 \<le> b"
  by (simp add: record_end_def max_opt_def)

lemma sample_batch_events:
  "map_option (map le_quantity)
     (decode_events_from_message sample_storage_spec sample_batch 39 None (sample_context 1) (Some 0)) = Some [3, 9]"
  by code_simp

section \<open>Properties\<close>

text \<open>C15. Decoding invents nothing: when it returns, it returns at least one event, and every
  event has an item id in the plausible range and a positive quantity, both read from the
  message at the record offset the event reports, of a record that starts at or after the
  calibrated item and ends inside the message.\<close>

theorem decoded_events_sound:
  assumes "decode_events_from_message spec message ml src ctx sq = Some events"
  shows "events \<noteq> [] \<and>
    list_all (\<lambda>e. 0 < le_item_id e \<and> le_item_id e \<le> MAX_PLAUSIBLE_ITEM_ID \<and> 0 < le_quantity e \<and>
      le_label e = spec_label spec \<and> le_opcode e = spec_opcode spec \<and>
      (case le_record_offset e of
         None \<Rightarrow> False
       | Some offset \<Rightarrow>
           le_item_id e = int_at message offset 4 \<and>
           le_quantity e = int_at message (spec_quantity_offset spec + (offset - spec_item_offset spec))
                             (quantity_width spec src) \<and>
           spec_item_offset spec \<le> offset \<and>
           record_end spec (quantity_width spec src) (offset - spec_item_offset spec) \<le> int (length message))) events"
proof -
  let ?qw = "quantity_width spec src"
  obtain deltas sid sop where c: "candidate_deltas spec message ml src = Some deltas" and ne: "events \<noteq> []"
    and ev: "events = List.map_filter (decode_record spec message ml src ctx sq sid sop ?qw
       (length (decode_records spec ?qw message deltas))) (enumerate 1 (decode_records spec ?qw message deltas))"
    using assms by (rule decode_events_shape)
  have "spec_item_offset spec \<le> the (le_record_offset e)" if "e \<in> set events" for e
  proof -
    from that obtain i d off where x: "(i, d, off) \<in> set (enumerate 1 (decode_records spec ?qw message deltas))"
      and e: "decode_record spec message ml src ctx sq sid sop ?qw
        (length (decode_records spec ?qw message deltas)) (i, d, off) = Some e"
      unfolding ev set_map_filter_Some by (metis prod_cases3)
    show ?thesis
      using in_enumerate_records [OF x] decode_record_SomeD(6) [OF e] candidate_deltas_nonneg [OF c, of d] by simp
  qed
  then show ?thesis
    using ne decode_events_sound [OF assms] by (fastforce simp: list_all_iff event_sound_def split: option.splits)
qed

theorem decoded_events_sound_witness:
  "list_all (\<lambda>e. 0 < le_quantity e)
    (the (decode_events_from_message sample_storage_spec sample_batch 39 None (sample_context 1) (Some 0)))"
proof -
  obtain events where
    e: "decode_events_from_message sample_storage_spec sample_batch 39 None (sample_context 1) (Some 0) = Some events"
    using sample_batch_events by blast
  show ?thesis
    using decoded_events_sound [OF e] by (simp add: e list_all_iff)
qed

text \<open>C14. A storage batch decodes completely: a message whose calibrated count, length, fields
  and values form a batch of \<open>n\<close> records decodes to exactly \<open>n\<close> events, one per record and
  in the order of the records, each with the item id and quantity of its record.\<close>

theorem storage_batch_complete:
  assumes "spec_label spec = ''INVENTORY_TO_STORAGE''" and "storage_batch spec message n stride"
    and "\<forall>b. spec_single_record_message_length spec = Some b \<longrightarrow> record_end spec 4 0 \<le> b"
  shows "map_option (map (\<lambda>e. (le_record_offset e, le_item_id e, le_quantity e)))
      (decode_events_from_message spec message ml src ctx sq)
    = Some (map (\<lambda>d. (Some (spec_item_offset spec + d), int_at message (spec_item_offset spec + d) 4,
              int_at message (spec_quantity_offset spec + d) 4)) (record_deltas stride n))"
proof -
  obtain io b where o: "spec_storage_instance_offset spec = Some io" "spec_single_record_message_length spec = Some b"
    using assms(2) by (auto simp: storage_batch_def split: option.splits)
  have b: "int (length message) = b + (n - 1) * stride" "0 \<le> stride" "0 < n"
    and plausible: "all_records_plausible spec message io 4 (record_deltas stride n)"
    using assms(2) o by (auto simp: storage_batch_def split: option.splits)
  show ?thesis
  proof (rule decode_all_records)
    show "candidate_deltas spec message ml src = Some (record_deltas stride n)"
      using storage_batch_deltas [OF assms(1,2)] storage_candidate_deltas [OF assms(1)] by simp
    show "record_deltas stride n \<noteq> []"
      using b(3) by (simp add: record_deltas_def)
    show "quantity_width spec src = 4"
      using assms(1) by (rule storage_quantity_width)
    show "record_end spec 4 d \<le> int (length message)" if "d \<in> set (record_deltas stride n)" for d
      using record_end_inside [OF b(1) _ b(2) that] assms(3) o by blast
    show "all_records_plausible spec message io 4 (record_deltas stride n)"
      by (rule plausible)
  qed
qed

theorem storage_batch_complete_witness:
  "map_option (map (\<lambda>e. (le_record_offset e, le_item_id e, le_quantity e)))
      (decode_events_from_message sample_storage_spec sample_batch 39 None (sample_context 1) (Some 0))
   = Some [(Some 7, 5, 3), (Some 23, 6, 9)]"
proof -
  have "map (\<lambda>d. (Some (spec_item_offset sample_storage_spec + d),
        int_at sample_batch (spec_item_offset sample_storage_spec + d) 4,
        int_at sample_batch (spec_quantity_offset sample_storage_spec + d) 4)) (record_deltas 16 2)
      = [(Some 7, 5, 3), (Some 23, 6, 9)]"
    by code_simp
  then show ?thesis
    using storage_batch_complete [OF _ sample_batch_ok sample_batch_inside, of 39 None "sample_context 1" "Some 0"]
    by simp
qed

text \<open>A storage batch decodes completely or not at all: when a storage message decodes,
  the number of events is the count the message declares at the calibrated position.\<close>

theorem storage_batch_all_or_nothing:
  assumes label: "spec_label spec = ''INVENTORY_TO_STORAGE''"
    and dec: "decode_events_from_message spec message ml src ctx sq = Some events"
    and inside: "\<forall>b. spec_single_record_message_length spec = Some b \<longrightarrow> record_end spec 4 0 \<le> b"
  shows "map_option (\<lambda>count_offset. int_at message count_offset 2) (spec_record_count_offset spec)
    = Some (int (length events))"
proof -
  obtain deltas sid sop where c: "candidate_deltas spec message ml src = Some deltas" and ne: "events \<noteq> []"
    and ev: "events = List.map_filter (decode_record spec message ml src ctx sq sid sop (quantity_width spec src)
       (length (decode_records spec (quantity_width spec src) message deltas)))
       (enumerate 1 (decode_records spec (quantity_width spec src) message deltas))"
    using dec by (rule decode_events_shape)
  have deltas: "declared_storage_record_deltas spec message = Some deltas"
    using c label by (auto simp: candidate_deltas_def is_inventory_snapshot_def structural_record_deltas_def
        declared_storage_record_deltas_def split: option.splits if_splits)
  have "deltas \<noteq> []"
    using ne ev by (auto simp: decode_records_def List.map_filter_simps)
  then obtain io b co stride where o: "spec_single_record_message_length spec = Some b" "spec_record_count_offset spec = Some co"
    and g: "declared_geometry spec message io b TRANSFER_QUANTITY_BYTES co (int_at message co 2) = Some (stride, deltas)"
    and plausible: "all_records_plausible spec message io TRANSFER_QUANTITY_BYTES deltas"
    using deltas label by (auto simp: declared_storage_record_deltas_def split: option.splits if_splits)
  let ?w = "case stride of None \<Rightarrow> 0 | Some w \<Rightarrow> w"
  have w: "0 \<le> ?w"
    using g infer_repeat_stride_pos(1) [of "int (length message)" b "int_at message co 2"]
    by (auto simp: declared_geometry_def Let_def split: if_splits option.splits)
  have "record_end spec 4 d \<le> int (length message)" if "d \<in> set deltas" for d
    using record_end_inside [OF declared_geometry_deltas(4) [OF g] _ w] inside o that declared_geometry_deltas(3) [OF g]
    by blast
  from decode_all_records [OF c \<open>deltas \<noteq> []\<close> storage_quantity_width [OF label] this
      plausible [unfolded TRANSFER_QUANTITY_BYTES_def], of ctx sq]
  have "length events = length deltas"
    using dec by (auto dest: arg_cong [where f = length])
  then show ?thesis
    using declared_geometry_deltas(1,2) [OF g] o by simp
qed

theorem storage_batch_all_or_nothing_witness:
  "length (the (decode_events_from_message sample_storage_spec sample_batch 39 None (sample_context 1) (Some 0))) = 2"
proof -
  obtain events where
    e: "decode_events_from_message sample_storage_spec sample_batch 39 None (sample_context 1) (Some 0) = Some events"
    using sample_batch_events by blast
  have "int_at sample_batch 5 2 = 2"
    by code_simp
  then show ?thesis
    using storage_batch_all_or_nothing [OF _ e sample_batch_inside] by (simp add: e)
qed

end
