(* ===== verification/Target_Scanner.thy ===== *)
theory Target_Scanner
  imports Record_Decode Reassembly
begin

text \<open>
  \<^verbatim>\<open>src/bdo_toolkit/_framing.py\<close>, the class \<^verbatim>\<open>TargetMessageScanner\<close>: it finds
  the messages of the configured specs in a contiguous byte stream and decodes them.

  The event callback and the optional message observer are parameters acting on an abstract
  state \<open>'w\<close>. The loop \<^verbatim>\<open>_scan\<close> may run forever for specs that
  \<^verbatim>\<open>EventSpec.__post_init__\<close> would reject (a declared length of zero consumes nothing),
  so it is a partial function whose value \<open>None\<close> is not returning;
  \<open>Target_Properties\<close> proves that it returns for the specs that exist.
\<close>

section \<open>Configuration and state\<close>

datatype storage_outcome = Decoded | Rejected

text \<open>
  The observer's arguments: opcode, message length, outcome, record count, context and
  stream sequence.
\<close>

type_synonym 'w message_observer =
  "int \<Rightarrow> int \<Rightarrow> storage_outcome \<Rightarrow> int \<Rightarrow> packet_context \<Rightarrow> int option \<Rightarrow> 'w \<Rightarrow> 'w"

record 'w target_config =
  tc_signature_groups :: "(bytes, event_spec list) dict"
  tc_callback :: "loot_event \<Rightarrow> bytes \<Rightarrow> 'w \<Rightarrow> 'w"
  tc_message_observer :: "'w message_observer option"

record target_scanner =
  tm_buffer :: bytes
  tm_buffer_start_sequence :: "int option"

text \<open>\<^verbatim>\<open>signature_groups.setdefault(spec.signature, []).append(spec)\<close> for every spec.\<close>

definition signature_groups :: "event_spec list \<Rightarrow> (bytes, event_spec list) dict" where
  "signature_groups specs =
     fold (\<lambda>spec groups. AList.update (signature spec)
             ((case map_of groups (signature spec) of None \<Rightarrow> [] | Some specs \<Rightarrow> specs) @ [spec]) groups)
       specs []"

definition new_target_scanner :: target_scanner where
  "new_target_scanner = \<lparr>tm_buffer = [], tm_buffer_start_sequence = None\<rparr>"

definition tm_reset :: "target_scanner \<Rightarrow> target_scanner" where
  "tm_reset tm = tm\<lparr>tm_buffer := [], tm_buffer_start_sequence := None\<rparr>"

definition tm_discard_prefix :: "int \<Rightarrow> target_scanner \<Rightarrow> target_scanner" where
  "tm_discard_prefix byte_count tm =
     (if byte_count \<le> 0 then tm
      else let buffer = drop (nat byte_count) (tm_buffer tm)
           in \<lparr>tm_buffer = buffer,
               tm_buffer_start_sequence =
                 (if buffer = [] then None
                  else map_option (\<lambda>s. s + byte_count) (tm_buffer_start_sequence tm))\<rparr>)"

section \<open>Candidates\<close>

definition message_length_matches_spec :: "event_spec \<Rightarrow> int \<Rightarrow> bool" where
  "message_length_matches_spec spec message_length =
     (if supports_structural_record_scan spec then True
      else configured_message_length_matches_spec spec message_length)"

definition spec_accepts :: "event_spec \<Rightarrow> int \<Rightarrow> bool" where
  "spec_accepts spec message_length \<longleftrightarrow>
     spec_min_message_length spec \<le> message_length \<and> message_length \<le> MAX_TARGET_MESSAGE_LENGTH \<and>
     message_length_matches_spec spec message_length"

type_synonym candidate = "int \<times> int \<times> event_spec"

text \<open>
  Every \<^verbatim>\<open>(message_start, message_length, spec)\<close> the two inner loops form, in their
  order.
\<close>

definition candidates_at :: "bytes \<Rightarrow> event_spec list \<Rightarrow> int \<Rightarrow> candidate list" where
  "candidates_at buffer specs signature_at =
     (let message_start = signature_at - 2 in
      if message_start < 0 then []
      else let message_length = int_at buffer message_start 2
           in map (\<lambda>spec. (message_start, message_length, spec))
                (filter (\<lambda>spec. spec_accepts spec message_length) specs))"

definition candidates :: "(bytes, event_spec list) dict \<Rightarrow> bytes \<Rightarrow> candidate list" where
  "candidates groups buffer =
     concat (map (\<lambda>(sig, specs). concat (map (candidates_at buffer specs) (occurrences sig buffer 0))) groups)"

text \<open>The running \<^verbatim>\<open>complete_candidates\<close> and \<^verbatim>\<open>incomplete_candidate\<close>.\<close>

definition note_candidate ::
    "bytes \<Rightarrow> candidate \<Rightarrow> candidate list \<times> candidate option \<Rightarrow> candidate list \<times> candidate option" where
  "note_candidate buffer candidate found =
     (case (candidate, found) of ((message_start, message_length, spec), (whole, partial)) \<Rightarrow>
        if message_start + message_length \<le> int (length buffer)
        then (if whole = [] \<or> message_start < fst (hd whole) then [candidate]
              else if message_start = fst (hd whole) then whole @ [candidate]
              else whole, partial)
        else (whole,
              case partial of
                None \<Rightarrow> Some candidate
              | Some earlier \<Rightarrow> if message_start < fst earlier then Some candidate else Some earlier))"

definition tm_can_anchor_at_start :: "(bytes, event_spec list) dict \<Rightarrow> bytes \<Rightarrow> bool" where
  "tm_can_anchor_at_start groups data =
     (if length data < 5 then False
      else list_ex (\<lambda>(sig, specs).
             list_ex (\<lambda>signature_at. list_ex (\<lambda>spec. spec_accepts spec (int_at data (signature_at - 2) 2)) specs)
               (occurrences sig data 2)) groups)"

section \<open>One turn of the scan\<close>

definition decode_candidate ::
    "bytes \<Rightarrow> packet_context \<Rightarrow> int option \<Rightarrow> candidate \<Rightarrow> (event_spec \<times> loot_event list) option" where
  "decode_candidate message ctx stream_sequence candidate =
     (case candidate of (_, candidate_length, spec) \<Rightarrow>
        let source_context_candidate =
              map_option (\<lambda>i. py_slice message i (i + spec_source_context_length spec))
                (spec_source_context_offset spec)
        in map_option (\<lambda>events. (spec, events))
             (decode_events_from_message spec message candidate_length source_context_candidate ctx stream_sequence))"

definition is_storage_spec :: "event_spec \<Rightarrow> bool" where
  "is_storage_spec spec \<longleftrightarrow> spec_label spec = ''INVENTORY_TO_STORAGE''"

definition observe_storage ::
    "'w message_observer option \<Rightarrow> candidate list \<Rightarrow> (event_spec \<times> loot_event list) list \<Rightarrow> int \<Rightarrow>
       packet_context \<Rightarrow> int option \<Rightarrow> 'w \<Rightarrow> 'w" where
  "observe_storage observer whole valid_decodes message_length ctx stream_sequence w =
     (case (find is_storage_spec (map (snd \<circ> snd) whole), observer) of
        (Some storage_candidate, Some observe) \<Rightarrow>
          let storage_decodes = filter (\<lambda>(spec, events). is_storage_spec spec \<and> events \<noteq> []) valid_decodes in
          if valid_decodes \<noteq> [] \<and> storage_decodes = [] then w
          else let decoded_storage =
                     (if length valid_decodes = 1 \<and> length storage_decodes = 1
                      then Some (hd storage_decodes) else None)
               in observe (spec_opcode storage_candidate) message_length
                    (case decoded_storage of None \<Rightarrow> Rejected | Some _ \<Rightarrow> Decoded)
                    (case decoded_storage of None \<Rightarrow> 0 | Some decoded \<Rightarrow> int (length (snd decoded)))
                    ctx stream_sequence w
      | _ \<Rightarrow> w)"

text \<open>The part of the loop body that decodes the chosen complete candidates.\<close>

definition decode_chosen ::
    "'w target_config \<Rightarrow> packet_context \<Rightarrow> candidate list \<Rightarrow> target_scanner \<times> 'w \<Rightarrow> target_scanner \<times> 'w" where
  "decode_chosen cfg ctx whole s =
     (case hd whole of (message_start, message_length, _) \<Rightarrow>
        let tm = fst s;
            message_end = message_start + message_length;
            message = py_slice (tm_buffer tm) message_start message_end;
            stream_sequence = map_option (\<lambda>q. q + message_start) (tm_buffer_start_sequence tm);
            valid_decodes = List.map_filter (decode_candidate message ctx stream_sequence) whole;
            w = observe_storage (tc_message_observer cfg) whole valid_decodes message_length ctx
                  stream_sequence (snd s)
        in case valid_decodes of
             [(_, events)] \<Rightarrow>
               (tm_discard_prefix message_end tm, fold (\<lambda>event. tc_callback cfg event message) events w)
           | _ \<Rightarrow> (tm_discard_prefix (message_start + 1) tm, w))"

definition tm_scan_step ::
    "'w target_config \<Rightarrow> packet_context \<Rightarrow> target_scanner \<times> 'w \<Rightarrow> (target_scanner \<times> 'w) control" where
  "tm_scan_step cfg ctx s =
     (let tm = fst s; buffer = tm_buffer tm in
      case fold (note_candidate buffer) (candidates (tc_signature_groups cfg) buffer) ([], None) of
        ([], Some (message_start, _, _)) \<Rightarrow> Return (tm_discard_prefix message_start tm, snd s)
      | ([], None) \<Rightarrow>
          Return (if length buffer > 4 then tm_discard_prefix (int (length buffer) - 4) tm else tm, snd s)
      | (whole, Some (message_start, _, _)) \<Rightarrow>
          if message_start < fst (hd whole) then Return (tm_discard_prefix message_start tm, snd s)
          else Continue (decode_chosen cfg ctx whole s)
      | (whole, None) \<Rightarrow> Continue (decode_chosen cfg ctx whole s))"

partial_function (option) tm_scan ::
    "'w target_config \<Rightarrow> packet_context \<Rightarrow> target_scanner \<times> 'w \<Rightarrow> (target_scanner \<times> 'w) option" where
  "tm_scan cfg ctx s =
     (case tm_scan_step cfg ctx s of Return s' \<Rightarrow> Some s' | Continue s' \<Rightarrow> tm_scan cfg ctx s')"

declare tm_scan.simps [code]

definition tm_feed ::
    "'w target_config \<Rightarrow> bytes \<Rightarrow> packet_context \<Rightarrow> target_scanner \<times> 'w \<Rightarrow> (target_scanner \<times> 'w) option" where
  "tm_feed cfg data ctx s =
     (if data = [] then Some s
      else let tm = (if tm_buffer (fst s) = []
                     then (fst s)\<lparr>tm_buffer_start_sequence := ctx_stream_start ctx\<rparr> else fst s)
           in tm_scan cfg ctx (tm\<lparr>tm_buffer := tm_buffer tm @ data\<rparr>, snd s))"

definition tm_scan_standalone ::
    "'w target_config \<Rightarrow> bytes \<Rightarrow> packet_context \<Rightarrow> target_scanner \<times> 'w \<Rightarrow> (target_scanner \<times> 'w) option" where
  "tm_scan_standalone cfg data ctx s =
     (if data = [] then Some s
      else map_option (\<lambda>(_, w). (fst s, w))
             (tm_scan cfg ctx (\<lparr>tm_buffer = data, tm_buffer_start_sequence = ctx_stream_start ctx\<rparr>, snd s)))"

text \<open>The scanner of a flow; its operations return for the specs that exist.\<close>

definition target_stream_scanner :: "'w target_config \<Rightarrow> (target_scanner \<times> 'w) stream_scanner" where
  "target_stream_scanner cfg =
     \<lparr>sc_feed = (\<lambda>d c s. the (tm_feed cfg d c s)),
      sc_scan_standalone = (\<lambda>d c s. the (tm_scan_standalone cfg d c s)),
      sc_reset = (\<lambda>s. (tm_reset (fst s), snd s)),
      sc_can_anchor_at_start = Some (tm_can_anchor_at_start (tc_signature_groups cfg)),
      sc_on_gap_reset = None\<rparr>"

end
