(* ===== verification/Target_Delivery.thy ===== *)
theory Target_Delivery
  imports Target_Scanner Record_Properties Frame_Delivery
begin

text \<open>
  What the target scanner promises: its loop returns for the specs that exist, its buffer is
  bounded, and every event it delivers is decoded, by exactly one of the configured layouts,
  from a whole message cut from the stream.
\<close>

section \<open>Candidates\<close>

definition groups_ok :: "(bytes, event_spec list) dict \<Rightarrow> bool" where
  "groups_ok groups \<longleftrightarrow> distinct (map fst groups) \<and>
     (\<forall>(sig, specs) \<in> set groups. \<forall>spec \<in> set specs. signature spec = sig \<and> spec_ok spec)"

definition configured :: "(bytes, event_spec list) dict \<Rightarrow> event_spec set" where
  "configured groups = (\<Union>(sig, specs) \<in> set groups. set specs)"

lemma groups_okD:
  "groups_ok groups \<Longrightarrow> (sig, specs) \<in> set groups \<Longrightarrow> spec \<in> set specs \<Longrightarrow> signature spec = sig \<and> spec_ok spec"
  by (auto simp: groups_ok_def)

lemma occurrences_found:
  "found \<in> set (occurrences needle hay start) \<Longrightarrow> 0 \<le> start \<Longrightarrow>
     start \<le> found \<and> found + int (length needle) \<le> int (length hay) \<and>
     take (length needle) (drop (nat found) hay) = needle"
proof (induction needle hay start rule: occurrences.induct)
  case (1 needle hay start)
  let ?at = "bytes_find hay needle start"
  from "1.prems" have c: "\<not> (?at < 0 \<or> needle = [] \<or> start < 0)"
    by (auto simp: occurrences.simps [of needle hay start] Let_def split: if_splits)
  have pos: "start \<le> ?at \<and> ?at + int (length needle) \<le> int (length hay) \<and>
      take (length needle) (drop (nat ?at) hay) = needle"
    using bytes_find_found [of hay needle start ?at] c by auto
  have "found = ?at \<or> found \<in> set (occurrences needle hay (?at + 1))"
    using "1.prems"(1) c by (simp add: occurrences.simps [of needle hay start] Let_def)
  then show ?case
    using "1.IH" [OF refl c] pos c by auto
qed

lemma candidates_facts:
  assumes "groups_ok groups" and "(message_start, message_length, spec) \<in> set (candidates groups buffer)"
  shows "0 \<le> message_start" "message_length = int_at buffer message_start 2" "spec_accepts spec message_length"
    "spec \<in> configured groups" "spec_ok spec" "message_start + 5 \<le> int (length buffer)"
    "take 3 (drop (nat (message_start + 2)) buffer) = signature spec"
proof -
  obtain sig specs pos where g: "(sig, specs) \<in> set groups" and at: "pos \<in> set (occurrences sig buffer 0)"
    and c: "(message_start, message_length, spec) \<in> set (candidates_at buffer specs pos)"
    using assms(2) by (auto simp: candidates_def)
  then have spec: "spec \<in> set specs" "message_start = pos - 2" "0 \<le> message_start"
    "message_length = int_at buffer message_start 2" "spec_accepts spec message_length"
    by (auto simp: candidates_at_def Let_def split: if_splits)
  have sig: "signature spec = sig" "spec_ok spec"
    using assms(1) g spec(1) by (auto simp: groups_ok_def)
  have "length sig = 3"
    using sig(1) by auto
  then show "0 \<le> message_start" "message_length = int_at buffer message_start 2" "spec_accepts spec message_length"
    "spec \<in> configured groups" "spec_ok spec" "message_start + 5 \<le> int (length buffer)"
    "take 3 (drop (nat (message_start + 2)) buffer) = signature spec"
    using spec g sig occurrences_found [OF at] by (auto simp: configured_def)
qed

lemma candidate_length:
  assumes "groups_ok groups" and "(message_start, message_length, spec) \<in> set (candidates groups buffer)"
  shows "5 \<le> message_length" "message_length \<le> 65535"
  using candidates_facts(3,5) [OF assms] spec_okD(6) [of spec]
  by (auto simp: spec_accepts_def MAX_TARGET_MESSAGE_LENGTH_def)

text \<open>Other specs of the same opcode are candidates at the same place.\<close>

lemma candidates_siblings:
  assumes "groups_ok groups" and c: "(message_start, message_length, spec) \<in> set (candidates groups buffer)"
    and "other \<in> configured groups" and "signature other = signature spec" and "spec_accepts other message_length"
  shows "(message_start, message_length, other) \<in> set (candidates groups buffer)"
proof -
  obtain sig specs pos where g: "(sig, specs) \<in> set groups" and at: "pos \<in> set (occurrences sig buffer 0)"
    and m: "(message_start, message_length, spec) \<in> set (candidates_at buffer specs pos)"
    using c by (auto simp: candidates_def)
  obtain sig' specs' where g': "(sig', specs') \<in> set groups" and other: "other \<in> set specs'"
    using assms(3) by (auto simp: configured_def)
  have "spec \<in> set specs"
    using m by (auto simp: candidates_at_def Let_def split: if_splits)
  then have "sig' = sig"
    using assms(4) groups_okD [OF assms(1) g] groups_okD [OF assms(1) g' other] by simp
  then have "specs' = specs"
    using eq_key_imp_eq_value [of groups sig specs specs'] assms(1) g g' by (simp add: groups_ok_def)
  then have "(message_start, message_length, other) \<in> set (candidates_at buffer specs pos)"
    using m other assms(5) by (auto simp: candidates_at_def Let_def split: if_splits)
  then show ?thesis
    using g at by (force simp: candidates_def)
qed

section \<open>The chosen candidates\<close>

definition is_whole :: "bytes \<Rightarrow> candidate \<Rightarrow> bool" where
  "is_whole buffer c \<longleftrightarrow> fst c + fst (snd c) \<le> int (length buffer)"

text \<open>After the candidates \<open>cs\<close>: all whole ones at the earliest start, and the earliest partial one.\<close>

definition chosen :: "bytes \<Rightarrow> candidate list \<Rightarrow> candidate list \<times> candidate option \<Rightarrow> bool" where
  "chosen buffer cs found \<longleftrightarrow>
     (case found of (whole, partial) \<Rightarrow>
        whole = filter (\<lambda>c. is_whole buffer c \<and> fst c = fst (hd whole)) cs \<and>
        (\<forall>c \<in> set cs. is_whole buffer c \<longrightarrow> whole \<noteq> [] \<and> fst (hd whole) \<le> fst c) \<and>
        (case partial of
           None \<Rightarrow> \<forall>c \<in> set cs. is_whole buffer c
         | Some p \<Rightarrow> p \<in> set cs \<and> \<not> is_whole buffer p \<and>
             (\<forall>c \<in> set cs. \<not> is_whole buffer c \<longrightarrow> fst p \<le> fst c)))"

lemma chosen_step:
  assumes "chosen buffer cs found"
  shows "chosen buffer (cs @ [c]) (note_candidate buffer c found)"
proof -
  obtain whole partial where f: "found = (whole, partial)"
    by (cases found)
  obtain a n spec where c: "c = (a, n, spec)"
    by (cases c)
  from assms have w: "whole = filter (\<lambda>c. is_whole buffer c \<and> fst c = fst (hd whole)) cs"
    and le: "\<forall>c \<in> set cs. is_whole buffer c \<longrightarrow> whole \<noteq> [] \<and> fst (hd whole) \<le> fst c"
    by (simp_all add: chosen_def f)
  show ?thesis
  proof (cases "is_whole buffer c")
    case False
    then show ?thesis
      using assms by (auto simp: note_candidate_def chosen_def f c is_whole_def split: option.splits)
  next
    case True
    consider "whole = [] \<or> a < fst (hd whole)" | "whole \<noteq> []" "a = fst (hd whole)"
      | "whole \<noteq> []" "fst (hd whole) < a"
      by linarith
    then show ?thesis
    proof cases
      case 1
      then have "filter (\<lambda>c. is_whole buffer c \<and> fst c = a) cs = []"
        using le by (force simp: filter_empty_conv)
      moreover have "\<forall>c \<in> set cs. is_whole buffer c \<longrightarrow> a \<le> fst c"
        using 1 le by force
      ultimately show ?thesis
        using assms 1 True by (auto simp: note_candidate_def chosen_def f c is_whole_def split: option.splits)
    next
      case 2
      then have "filter (\<lambda>c. is_whole buffer c \<and> fst c = a) cs = whole"
        using w by simp
      then show ?thesis
        using assms 2 True by (auto simp: note_candidate_def chosen_def f c is_whole_def split: option.splits)
    next
      case 3
      then show ?thesis
        using assms True by (auto simp: note_candidate_def chosen_def f c is_whole_def split: option.splits)
    qed
  qed
qed

lemma chosen_all: "chosen buffer cs (fold (note_candidate buffer) cs ([], None))"
proof -
  have "chosen buffer (xs @ cs) (fold (note_candidate buffer) cs found)" if "chosen buffer xs found" for xs found
    using that
  proof (induction cs arbitrary: xs found)
    case (Cons c cs)
    show ?case
      using Cons.IH [OF chosen_step [OF Cons.prems, of c]] by simp
  qed simp
  from this [of "[]" "([], None)"] show ?thesis
    by (simp add: chosen_def)
qed

section \<open>One turn of the scan\<close>

definition choice :: "(bytes, event_spec list) dict \<Rightarrow> bytes \<Rightarrow> candidate list \<times> candidate option" where
  "choice groups buffer = fold (note_candidate buffer) (candidates groups buffer) ([], None)"

lemma tm_discard_prefix_buffer: "tm_buffer (tm_discard_prefix n tm) = drop (nat n) (tm_buffer tm)"
  by (simp add: tm_discard_prefix_def Let_def)

lemma choice_whole:
  assumes "choice groups buffer = (whole, partial)" and "whole \<noteq> []"
  shows "hd whole \<in> set (candidates groups buffer)" "is_whole buffer (hd whole)"
    "\<And>c. c \<in> set whole \<longleftrightarrow> c \<in> set (candidates groups buffer) \<and> is_whole buffer c \<and> fst c = fst (hd whole)"
proof -
  have w: "whole = filter (\<lambda>c. is_whole buffer c \<and> fst c = fst (hd whole)) (candidates groups buffer)"
    using chosen_all [of buffer "candidates groups buffer"] assms(1) by (simp add: chosen_def choice_def)
  show mem: "c \<in> set whole \<longleftrightarrow> c \<in> set (candidates groups buffer) \<and> is_whole buffer c \<and> fst c = fst (hd whole)" for c
    by (subst w) auto
  show "hd whole \<in> set (candidates groups buffer)" "is_whole buffer (hd whole)"
    using mem [of "hd whole"] assms(2) by simp_all
qed

lemma choice_partial:
  assumes "choice groups buffer = (whole, Some p)"
  shows "p \<in> set (candidates groups buffer)" "\<not> is_whole buffer p"
  using chosen_all [of buffer "candidates groups buffer"] assms by (simp_all add: chosen_def choice_def)

lemma tm_scan_step_Return:
  assumes "tm_scan_step cfg ctx s = Return s'" and "groups_ok (tc_signature_groups cfg)"
  shows "\<exists>n. s' = (tm_discard_prefix n (fst s), snd s)" "length (tm_buffer (fst s')) < 65535"
proof -
  let ?b = "tm_buffer (fst s)"
  obtain whole partial where ch: "choice (tc_signature_groups cfg) ?b = (whole, partial)"
    by (cases "choice (tc_signature_groups cfg) ?b")
  have short: "length (drop (nat (fst p)) ?b) < 65535" if "partial = Some p" for p
  proof -
    obtain a n spec where p: "p = (a, n, spec)"
      by (cases p)
    have "n \<le> 65535" "0 \<le> a" "\<not> is_whole ?b p"
      using choice_partial [of "tc_signature_groups cfg" ?b whole p] candidate_length(2) [OF assms(2), of a n spec ?b]
        candidates_facts(1) [OF assms(2), of a n spec ?b] ch that p by auto
    then show ?thesis
      by (simp add: p is_whole_def)
  qed
  have "s' = s \<and> length ?b \<le> 4 \<or> s' = (tm_discard_prefix (int (length ?b) - 4) (fst s), snd s) \<or>
      (\<exists>p. partial = Some p \<and> s' = (tm_discard_prefix (fst p) (fst s), snd s))"
    using assms(1) ch
    by (auto simp: tm_scan_step_def choice_def Let_def split: list.splits option.splits prod.splits if_splits)
  then show "\<exists>n. s' = (tm_discard_prefix n (fst s), snd s)" "length (tm_buffer (fst s')) < 65535"
    using short
    by (auto simp: tm_discard_prefix_buffer) (metis tm_discard_prefix_def order_refl prod.collapse)
qed

text \<open>What the loop does with the chosen candidates when it decodes.\<close>

lemma tm_scan_step_Continue:
  assumes "tm_scan_step cfg ctx s = Continue s'"
  obtains whole partial a n spec message sq decodes w where
    "choice (tc_signature_groups cfg) (tm_buffer (fst s)) = (whole, partial)" "whole \<noteq> []"
    "hd whole = (a, n, spec)" "message = py_slice (tm_buffer (fst s)) a (a + n)"
    "sq = map_option (\<lambda>q. q + a) (tm_buffer_start_sequence (fst s))"
    "decodes = List.map_filter (decode_candidate message ctx sq) whole"
    "w = observe_storage (tc_message_observer cfg) whole decodes n ctx sq (snd s)"
    "(\<exists>d events. decodes = [(d, events)] \<and>
        s' = (tm_discard_prefix (a + n) (fst s), fold (\<lambda>event. tc_callback cfg event message) events w)) \<or>
     s' = (tm_discard_prefix (a + 1) (fst s), w)"
proof -
  let ?b = "tm_buffer (fst s)"
  obtain whole partial where ch: "choice (tc_signature_groups cfg) ?b = (whole, partial)"
    by (cases "choice (tc_signature_groups cfg) ?b")
  have ne: "whole \<noteq> []"
    using assms ch by (auto simp: tm_scan_step_def choice_def Let_def split: option.splits prod.splits)
  obtain a n spec where h: "hd whole = (a, n, spec)"
    by (cases "hd whole")
  let ?m = "py_slice ?b a (a + n)"
  let ?sq = "map_option (\<lambda>q. q + a) (tm_buffer_start_sequence (fst s))"
  let ?d = "List.map_filter (decode_candidate ?m ctx ?sq) whole"
  let ?w = "observe_storage (tc_message_observer cfg) whole ?d n ctx ?sq (snd s)"
  have "s' = decode_chosen cfg ctx whole s"
    using assms ch ne by (auto simp: tm_scan_step_def choice_def Let_def split: list.splits option.splits prod.splits if_splits)
  then have "s' = (case ?d of [(_, events)] \<Rightarrow>
          (tm_discard_prefix (a + n) (fst s), fold (\<lambda>event. tc_callback cfg event ?m) events ?w)
        | _ \<Rightarrow> (tm_discard_prefix (a + 1) (fst s), ?w))"
    by (simp add: decode_chosen_def h Let_def)
  then have "(\<exists>d events. ?d = [(d, events)] \<and>
        s' = (tm_discard_prefix (a + n) (fst s), fold (\<lambda>event. tc_callback cfg event ?m) events ?w)) \<or>
     s' = (tm_discard_prefix (a + 1) (fst s), ?w)"
    by (auto split: list.splits prod.splits)
  with ch ne h show thesis
    by (intro that [OF ch ne h refl refl refl refl])
qed

lemma tm_scan_step_shrinks:
  assumes "tm_scan_step cfg ctx s = Continue s'" and "groups_ok (tc_signature_groups cfg)"
  shows "length (tm_buffer (fst s')) < length (tm_buffer (fst s))"
proof -
  obtain whole partial a n spec k w where ch: "choice (tc_signature_groups cfg) (tm_buffer (fst s)) = (whole, partial)"
    and ne: "whole \<noteq> []" and h: "hd whole = (a, n, spec)"
    and s': "s' = (tm_discard_prefix k (fst s), w)" and k: "k = a + n \<or> k = a + 1"
    using assms(1) by (rule tm_scan_step_Continue) blast
  have c: "(a, n, spec) \<in> set (candidates (tc_signature_groups cfg) (tm_buffer (fst s)))"
    using choice_whole(1) [OF ch ne] h by simp
  have "0 < k" "5 \<le> int (length (tm_buffer (fst s)))"
    using candidates_facts(1,6) [OF assms(2) c] candidate_length(1) [OF assms(2) c] k by auto
  then show ?thesis
    by (simp add: s' tm_discard_prefix_buffer)
qed

lemma tm_scan_induct:
  assumes "groups_ok (tc_signature_groups cfg)" and "P s"
    and "\<And>s s'. P s \<Longrightarrow> tm_scan_step cfg ctx s = Continue s' \<Longrightarrow> P s'"
    and "\<And>s s'. P s \<Longrightarrow> tm_scan_step cfg ctx s = Return s' \<Longrightarrow> Q s'"
  shows "\<exists>s'. tm_scan cfg ctx s = Some s' \<and> Q s'"
  using assms(2)
proof (induction "length (tm_buffer (fst s))" arbitrary: s rule: less_induct)
  case less
  show ?case
  proof (cases "tm_scan_step cfg ctx s")
    case (Continue s')
    have "\<exists>t. tm_scan cfg ctx s' = Some t \<and> Q t"
      using less.hyps [OF tm_scan_step_shrinks [OF Continue assms(1)] assms(3) [OF less.prems Continue]] .
    then show ?thesis
      using Continue by (simp add: tm_scan.simps [of cfg ctx s])
  next
    case (Return s')
    then show ?thesis
      using assms(4) [OF less.prems Return] by (simp add: tm_scan.simps [of cfg ctx s])
  qed
qed

section \<open>Every delivered event comes from the stream\<close>

text \<open>
  A delivered event: its message is a whole message of the stream at the event's position,
  with a configured signature, and the event is one of those decoded from it by the only
  configured layout of that signature that decodes it.
\<close>

definition delivered_ok ::
    "(bytes, event_spec list) dict \<Rightarrow> flow_key \<times> int \<Rightarrow> (int \<Rightarrow> byte) \<Rightarrow> loot_event \<times> bytes \<Rightarrow> bool" where
  "delivered_ok groups key f d \<longleftrightarrow> (case d of (e, m) \<Rightarrow>
     connection (le_context e) = key \<and> int_at m 0 2 = int (length m) \<and>
     (\<exists>q spec events. le_stream_sequence e = Some q \<and> m = stream_slice f q (length m) \<and>
        spec \<in> configured groups \<and> take 3 (drop 2 m) = signature spec \<and> e \<in> set events \<and>
        decode_candidate m (le_context e) (Some q) (0, int (length m), spec) = Some (spec, events) \<and>
        (\<forall>other \<in> configured groups.
           signature other = signature spec \<longrightarrow> spec_accepts other (int (length m)) \<longrightarrow>
           decode_candidate m (le_context e) (Some q) (0, int (length m), other) \<noteq> None \<longrightarrow> other = spec)))"

text \<open>
  The interface of the scanner's client: the callback and the observer keep a predicate \<open>W\<close>
  on what they write, the callback given that the event it is handed was delivered rightly.
\<close>

locale target_client =
  fixes cfg :: "'w target_config" and key :: "flow_key \<times> int" and f :: "int \<Rightarrow> byte" and W :: "'w \<Rightarrow> bool"
  assumes groups: "groups_ok (tc_signature_groups cfg)"
    and W_callback: "W w \<Longrightarrow> delivered_ok (tc_signature_groups cfg) key f (e, m) \<Longrightarrow> W (tc_callback cfg e m w)"
    and W_observer: "tc_message_observer cfg = Some obs \<Longrightarrow> W w \<Longrightarrow> W (obs op n outcome k c q w)"

definition tm_scan_ok :: "('w \<Rightarrow> bool) \<Rightarrow> (int \<Rightarrow> byte) \<Rightarrow> int \<Rightarrow> target_scanner \<times> 'w \<Rightarrow> bool" where
  "tm_scan_ok W f e s \<longleftrightarrow>
     buffered f e (tm_buffer (fst s)) (tm_buffer_start_sequence (fst s)) \<and> W (snd s)"

lemma tm_discard_buffered:
  assumes "buffered f e (tm_buffer tm) (tm_buffer_start_sequence tm)"
  shows "buffered f e (tm_buffer (tm_discard_prefix n tm)) (tm_buffer_start_sequence (tm_discard_prefix n tm))"
proof (cases "n \<le> 0")
  case False
  then show ?thesis
    using buffered_discard [OF assms, of n] by (auto simp: tm_discard_prefix_def Let_def)
qed (use assms in \<open>simp add: tm_discard_prefix_def\<close>)

lemma decode_candidate_start: "decode_candidate m c q (a, n, spec) = decode_candidate m c q (0, n, spec)"
  by (simp add: decode_candidate_def)

lemma decode_candidate_Some:
  "decode_candidate m c q (a, n, spec) = Some (d, events) \<Longrightarrow> d = spec \<and>
     (\<forall>e \<in> set events. le_context e = c \<and> le_stream_sequence e = q)"
proof -
  assume d: "decode_candidate m c q (a, n, spec) = Some (d, events)"
  define src where "src = map_option (\<lambda>i. py_slice m i (i + spec_source_context_length spec)) (spec_source_context_offset spec)"
  have dec: "decode_events_from_message spec m n src c q = Some events" and "d = spec"
    using d by (auto simp: decode_candidate_def Let_def src_def)
  obtain deltas sid sop where ev: "events = List.map_filter (decode_record spec m n src c q sid sop (quantity_width spec src)
       (length (decode_records spec (quantity_width spec src) m deltas)))
       (enumerate 1 (decode_records spec (quantity_width spec src) m deltas))"
    using dec by (rule decode_events_shape)
  have "le_context e = c \<and> le_stream_sequence e = q" if "e \<in> set events" for e
    using that decode_record_SomeD(10,11) unfolding ev set_map_filter_Some by (metis prod_cases3)
  with \<open>d = spec\<close> show ?thesis
    by blast
qed

lemma map_filter_single:
  assumes "List.map_filter f xs = [y]" and "x \<in> set xs" and "f x = Some z"
  shows "z = y"
proof -
  have "z \<in> set (List.map_filter f xs)"
    using assms(2,3) by (auto simp: set_map_filter_Some)
  then show ?thesis
    by (simp add: assms(1))
qed

text \<open>The events delivered by one turn.\<close>

lemma decoded_delivered_ok:
  assumes groups: "groups_ok groups" and buf: "buffered f e buffer start" and key: "connection ctx = key"
    and ch: "choice groups buffer = (whole, partial)" "whole \<noteq> []" "hd whole = (a, n, spec)"
    and m: "message = py_slice buffer a (a + n)" and sq: "sq = map_option (\<lambda>q. q + a) start"
    and single: "List.map_filter (decode_candidate message ctx sq) whole = [(d, events)]" and ev: "ev \<in> set events"
  shows "delivered_ok groups key f (ev, message)"
proof -
  have c: "(a, n, spec) \<in> set (candidates groups buffer)" and fits: "is_whole buffer (a, n, spec)"
    using choice_whole(1,2) [OF ch(1,2)] ch(3) by simp_all
  note facts = candidates_facts [OF groups c] and len = candidate_length [OF groups c]
  have n: "0 \<le> a" "5 \<le> n" "a + n \<le> int (length buffer)"
    using facts(1) len(1) fits by (simp_all add: is_whole_def)
  have msg: "message = take (nat n) (drop (nat a) buffer)"
    using n by (simp add: m py_slice_in)
  have lm: "length message = nat n"
    using n by (simp add: msg)
  from n have "buffer \<noteq> []"
    by auto
  then obtain s where s: "start = Some s" "buffer = stream_slice f s (length buffer)"
    using buf by (auto simp: buffered_def)
  have q: "sq = Some (s + a)"
    by (simp add: sq s)
  have "drop (nat a) buffer = stream_slice f (s + a) (length buffer - nat a)"
    using slice_drop [OF s(2), of "nat a"] n by simp
  then have slice: "message = stream_slice f (s + a) (length message)"
    unfolding msg using n by (simp add: take_stream_slice)
  have hdr: "int_at message 0 2 = int (length message)"
  proof -
    have two: "2 \<le> nat n"
      using n by simp
    have "py_slice message 0 2 = py_slice buffer a (a + 2)"
      using n two by (simp add: msg py_slice_prefix py_slice_in [of a "a + 2"] min_def)
    then show ?thesis
      using facts(2) n two by (simp add: int_at_def lm)
  qed
  have sig: "take 3 (drop 2 message) = signature spec0" if "take 3 (drop (nat (a + 2)) buffer) = signature spec0" for spec0
  proof -
    have "nat (a + 2) = nat a + 2"
      using n by simp
    then have "take 3 (drop 2 message) = take 3 (drop (nat (a + 2)) buffer)"
      unfolding msg drop_take take_take using n by (simp add: min_def add.commute)
    then show ?thesis
      using that by simp
  qed
  have "(d, events) \<in> set (List.map_filter (decode_candidate message ctx sq) whole)"
    by (simp add: single)
  then obtain w where w: "w \<in> set whole" "decode_candidate message ctx sq w = Some (d, events)"
    unfolding set_map_filter_Some by blast
  have whole_n: "w' = (a, n, snd (snd w'))" if "w' \<in> set whole" for w'
  proof -
    obtain a' n' spec' where w': "w' = (a', n', spec')"
      by (cases w')
    have "a' = a \<and> (a', n', spec') \<in> set (candidates groups buffer)"
      using choice_whole(3) [OF ch(1,2), of w'] that unfolding ch(3) w' fst_conv by blast
    then have "a' = a" "(a, n', spec') \<in> set (candidates groups buffer)"
      by blast+
    then show ?thesis
      using candidates_facts(2) [OF groups, of a' n' spec' buffer] facts(2) by (simp add: w')
  qed
  let ?spec = "snd (snd w)"
  have dec: "decode_candidate message ctx sq (a, n, ?spec) = Some (d, events)"
    using w whole_n [OF w(1)] by simp
  note d = decode_candidate_Some [OF dec]
  have wc: "(a, n, ?spec) \<in> set (candidates groups buffer)"
    using choice_whole(3) [OF ch(1,2), of w] w(1) whole_n [OF w(1)] by simp
  have unique: "other = ?spec" if other: "other \<in> configured groups" "signature other = signature ?spec"
    "spec_accepts other n" "decode_candidate message ctx sq (a, n, other) \<noteq> None" for other
  proof -
    have "(a, n, other) \<in> set (candidates groups buffer)"
      by (rule candidates_siblings [OF groups wc other(1,2,3)])
    then have "(a, n, other) \<in> set whole"
      using choice_whole(3) [OF ch(1,2), of "(a, n, other)"] fits ch(3) by (simp add: is_whole_def)
    moreover obtain d' events' where o: "decode_candidate message ctx sq (a, n, other) = Some (d', events')"
      using other(4) by auto
    ultimately have "(d', events') = (d, events)"
      by (rule map_filter_single [OF single])
    then show ?thesis
      using decode_candidate_Some [OF o] d by simp
  qed
  have "connection (le_context ev) = key \<and> le_stream_sequence ev = Some (s + a) \<and> le_context ev = ctx"
    using d ev key q by auto
  moreover have "d = ?spec" "int (length message) = n"
    using d n lm by auto
  moreover have "?spec \<in> configured groups" "take 3 (drop 2 message) = signature ?spec"
    using candidates_facts(4,7) [OF groups wc] sig by blast+
  ultimately show ?thesis
    unfolding delivered_ok_def prod.case
    using key hdr slice ev dec [unfolded decode_candidate_start [of message ctx sq a]] unique
      decode_candidate_start [of message ctx sq a n] q
    by (intro conjI exI [of _ "s + a"] exI [of _ ?spec] exI [of _ events] ballI impI) simp_all
qed

definition target_inv ::
    "('w \<Rightarrow> bool) \<Rightarrow> (int \<Rightarrow> byte) \<Rightarrow> int option \<Rightarrow> target_scanner \<times> 'w \<Rightarrow> bool" where
  "target_inv W f ns s \<longleftrightarrow> W (snd s) \<and>
     (tm_buffer (fst s) = [] \<or>
      (\<exists>n. ns = Some n \<and> buffered f n (tm_buffer (fst s)) (tm_buffer_start_sequence (fst s))))"

context target_client begin

lemma observe_keeps: "W w \<Longrightarrow> W (observe_storage (tc_message_observer cfg) whole ds n c q w)"
  using W_observer by (auto simp: observe_storage_def Let_def split: option.split prod.split)

lemma fold_callback:
  "W w \<Longrightarrow> \<forall>e \<in> set events. delivered_ok (tc_signature_groups cfg) key f (e, m) \<Longrightarrow>
    W (fold (\<lambda>e. tc_callback cfg e m) events w)"
  by (induction events arbitrary: w) (simp_all add: W_callback)

lemma tm_scan_step_ok:
  assumes s: "tm_scan_ok W f e s" and key: "connection ctx = key"
  shows "tm_scan_step cfg ctx s = Continue s' \<Longrightarrow> tm_scan_ok W f e s'"
    and "tm_scan_step cfg ctx s = Return s' \<Longrightarrow> tm_scan_ok W f e s'"
proof -
  have buf: "buffered f e (tm_buffer (fst s)) (tm_buffer_start_sequence (fst s))" and out: "W (snd s)"
    using s by (simp_all add: tm_scan_ok_def)
  show "tm_scan_ok W f e s'" if "tm_scan_step cfg ctx s = Return s'"
  proof -
    from tm_scan_step_Return(1) [OF that groups]
    obtain n where "s' = (tm_discard_prefix n (fst s), snd s)"
      by auto
    then show ?thesis
      using tm_discard_buffered [OF buf] out by (simp add: tm_scan_ok_def)
  qed
  assume "tm_scan_step cfg ctx s = Continue s'"
  then obtain whole partial a n spec message sq decodes w where
    ch: "choice (tc_signature_groups cfg) (tm_buffer (fst s)) = (whole, partial)" "whole \<noteq> []"
      "hd whole = (a, n, spec)" and
    m: "message = py_slice (tm_buffer (fst s)) a (a + n)" and
    sq: "sq = map_option (\<lambda>q. q + a) (tm_buffer_start_sequence (fst s))" and
    ds: "decodes = List.map_filter (decode_candidate message ctx sq) whole" and
    w: "w = observe_storage (tc_message_observer cfg) whole decodes n ctx sq (snd s)" and
    s': "(\<exists>d events. decodes = [(d, events)] \<and>
        s' = (tm_discard_prefix (a + n) (fst s), fold (\<lambda>event. tc_callback cfg event message) events w)) \<or>
     s' = (tm_discard_prefix (a + 1) (fst s), w)"
    by (rule tm_scan_step_Continue)
  have fw: "W w"
    unfolding w using out by (rule observe_keeps)
  from s' show "tm_scan_ok W f e s'"
  proof (elim disjE exE conjE)
    assume "s' = (tm_discard_prefix (a + 1) (fst s), w)"
    then show ?thesis
      using tm_discard_buffered [OF buf] fw by (simp add: tm_scan_ok_def)
  next
    fix d events
    assume single: "decodes = [(d, events)]"
      and s': "s' = (tm_discard_prefix (a + n) (fst s), fold (\<lambda>event. tc_callback cfg event message) events w)"
    have "delivered_ok (tc_signature_groups cfg) key f (ev, message)" if "ev \<in> set events" for ev
      using decoded_delivered_ok [OF groups buf key ch(1,2,3) m sq ds [symmetric, unfolded single] that] .
    then show ?thesis
      using tm_discard_buffered [OF buf] fold_callback [OF fw] s' by (simp add: tm_scan_ok_def)
  qed
qed

lemma tm_scan_returns:
  assumes "tm_scan_ok W f e s" and "connection ctx = key"
  shows "\<exists>s'. tm_scan cfg ctx s = Some s' \<and> tm_scan_ok W f e s'"
  by (rule tm_scan_induct [where P = "tm_scan_ok W f e"])
    (use groups assms(1) tm_scan_step_ok [OF _ assms(2)] in blast)+

lemma feed_target_returns:
  assumes inv: "target_inv W f (Some n) s" and agree: "agrees_on key f n d c"
  shows "\<exists>s'. tm_feed cfg d (c\<lparr>ctx_stream_start := Some n\<rparr>) s = Some s' \<and>
    target_inv W f (Some (n + int (length d))) s'"
proof (cases "d = []")
  case False
  let ?c = "c\<lparr>ctx_stream_start := Some n\<rparr>"
  let ?tm = "if tm_buffer (fst s) = [] then (fst s)\<lparr>tm_buffer_start_sequence := ctx_stream_start ?c\<rparr> else fst s"
  have d: "d = stream_slice f n (length d)" and key: "connection ?c = key"
    using agree by (simp_all only: agrees_on_def agrees_def connection_start)
  have "buffered f n (tm_buffer (fst s)) (tm_buffer_start_sequence (fst s))"
    using inv by (auto simp: target_inv_def buffered_def)
  from buffered_feed [OF this d]
  have "tm_scan_ok W f (n + int (length d)) (?tm\<lparr>tm_buffer := tm_buffer ?tm @ d\<rparr>, snd s)"
    using inv by (simp add: tm_scan_ok_def target_inv_def split: if_splits)
  from tm_scan_returns [OF this key] obtain s' where
    "tm_scan cfg ?c (?tm\<lparr>tm_buffer := tm_buffer ?tm @ d\<rparr>, snd s) = Some s'"
    "tm_scan_ok W f (n + int (length d)) s'"
    by blast
  then have "tm_feed cfg d ?c s = Some s'" "tm_scan_ok W f (n + int (length d)) s'"
    using False by (simp_all only: tm_feed_def Let_def if_False)
  then show ?thesis
    by (simp add: tm_scan_ok_def target_inv_def)
qed (use inv in \<open>simp add: tm_feed_def\<close>)

lemma standalone_target_returns:
  assumes inv: "target_inv W f ns s" and agree: "agrees_on key f q d c"
  shows "\<exists>s'. tm_scan_standalone cfg d (c\<lparr>ctx_stream_start := Some q\<rparr>) s = Some s' \<and> target_inv W f ns s'"
proof (cases "d = []")
  case False
  let ?c = "c\<lparr>ctx_stream_start := Some q\<rparr>"
  have d: "d = stream_slice f q (length d)" and key: "connection ?c = key"
    using agree by (simp_all only: agrees_on_def agrees_def connection_start)
  have "tm_scan_ok W f (q + int (length d)) (\<lparr>tm_buffer = d, tm_buffer_start_sequence = Some q\<rparr>, snd s)"
    using inv d by (simp add: tm_scan_ok_def target_inv_def buffered_def)
  from tm_scan_returns [OF this key] obtain tm' w where
    "tm_scan cfg ?c (\<lparr>tm_buffer = d, tm_buffer_start_sequence = Some q\<rparr>, snd s) = Some (tm', w)"
    "tm_scan_ok W f (q + int (length d)) (tm', w)"
    by (metis prod.collapse)
  then show ?thesis
    using False inv by (simp add: tm_scan_standalone_def target_inv_def tm_scan_ok_def)
qed (use inv in \<open>simp add: tm_scan_standalone_def\<close>)

end

text \<open>A client gives the scanner of a flow its contract.\<close>

sublocale target_client \<subseteq> flow_contract "target_stream_scanner cfg" "agrees_on key f" "target_inv W f"
proof
  show "agrees_on key f (s + int k) (drop k d) c" if "agrees_on key f s d c" "k \<le> length d" for s d c k
    using that by (simp add: agrees_on_def agrees_drop)
  show "agrees_on key f s (take k d) c" if "agrees_on key f s d c" for s d c k
    using that by (simp add: agrees_on_def agrees_take)
  show "agrees_on key f s' d c"
    if "agrees_on key f s d c" "s' mod TCP_SEQUENCE_MODULUS = s mod TCP_SEQUENCE_MODULUS" for s d c s'
    using that agrees_mod by (auto simp: agrees_on_def)
  fix n s d c ns q x
  show "target_inv W f (Some (n + int (length d))) (sc_feed (target_stream_scanner cfg) d (c\<lparr>ctx_stream_start := Some n\<rparr>) x)"
    if "target_inv W f (Some n) x" "agrees_on key f n d c"
    using feed_target_returns [OF that] by (auto simp: target_stream_scanner_def)
  show "target_inv W f (Some n) (sc_scan_standalone (target_stream_scanner cfg) d (c\<lparr>ctx_stream_start := Some q\<rparr>) x)"
    if "target_inv W f (Some n) x" "agrees_on key f q d c" "q + int (length d) \<le> n"
    using standalone_target_returns [OF that(1,2)] by (auto simp: target_stream_scanner_def)
qed (auto simp: target_stream_scanner_def gap_reset_def target_inv_def tm_reset_def)

text \<open>The groups \<^verbatim>\<open>__init__\<close> builds.\<close>

lemma signature_groups_step:
  assumes "groups_ok groups" and "spec_ok spec"
  shows "groups_ok (AList.update (signature spec)
      ((case map_of groups (signature spec) of None \<Rightarrow> [] | Some specs \<Rightarrow> specs) @ [spec]) groups)"
proof -
  have "signature s = signature spec \<and> spec_ok s"
    if "map_of groups (signature spec) = Some specs" "s \<in> set specs" for s specs
    using groups_okD [OF assms(1) map_of_SomeD [OF that(1)] that(2)] .
  then have "signature s = signature spec \<and> spec_ok s"
    if "s \<in> set ((case map_of groups (signature spec) of None \<Rightarrow> [] | Some specs \<Rightarrow> specs) @ [spec])" for s
    using that assms(2) by (cases "map_of groups (signature spec)") auto
  then show ?thesis
    using groups_okD [OF assms(1)] assms(1) 
      set_update_subset [of "signature spec"
        "(case map_of groups (signature spec) of None \<Rightarrow> [] | Some specs \<Rightarrow> specs) @ [spec]" groups]
    unfolding groups_ok_def by (simp only: distinct_dict_update simp_thms) blast
qed

lemma groups_ok_signature_groups:
  assumes "\<forall>spec \<in> set specs. spec_ok spec"
  shows "groups_ok (signature_groups specs)"
  unfolding signature_groups_def
proof (rule fold_invariant)
  show "groups_ok []"
    by (simp add: groups_ok_def)
qed (use assms signature_groups_step in blast)

text \<open>The client that records what it is handed.\<close>

type_synonym recording = "(loot_event \<times> bytes) list \<times> (storage_outcome \<times> int) list"

definition recording_config :: "(bytes, event_spec list) dict \<Rightarrow> recording target_config" where
  "recording_config groups =
     \<lparr>tc_signature_groups = groups,
      tc_callback = (\<lambda>e m (out, obs). (out @ [(e, m)], obs)),
      tc_message_observer = Some (\<lambda>op n outcome k c q (out, obs). (out, obs @ [(outcome, k)]))\<rparr>"

lemma recording_groups [simp]: "tc_signature_groups (recording_config groups) = groups"
  by (simp add: recording_config_def)

interpretation target: target_client "recording_config (signature_groups (filter spec_ok specs))" key f
    "\<lambda>w. list_all (delivered_ok (signature_groups (filter spec_ok specs)) key f) (fst w)"
proof
  let ?g = "signature_groups (filter spec_ok specs)"
  show "groups_ok (tc_signature_groups (recording_config ?g))"
    by (simp add: groups_ok_signature_groups)
  fix w :: recording and e m obs op n outcome k c q
  show "list_all (delivered_ok ?g key f) (fst (tc_callback (recording_config ?g) e m w))"
    if "list_all (delivered_ok ?g key f) (fst w)" "delivered_ok (tc_signature_groups (recording_config ?g)) key f (e, m)"
    using that by (cases w) (simp add: recording_config_def)
  show "list_all (delivered_ok ?g key f) (fst (obs op n outcome k c q w))"
    if "tc_message_observer (recording_config ?g) = Some obs" "list_all (delivered_ok ?g key f) (fst w)"
    using that by (cases w) (auto simp: recording_config_def)
qed

end
