(* ===== verification/Target_Properties.thy ===== *)
theory Target_Properties
  imports Target_Delivery Frame_Properties
begin

text \<open>
  The properties of the target scanner, alone and driven by the reassembly of a flow.
\<close>

abbreviation sample_config :: "recording target_config" where
  "sample_config \<equiv> recording_config (signature_groups [sample_storage_spec])"

lemma sample_storage_spec_ok: "spec_ok sample_storage_spec"
  by code_simp

lemma sample_specs_ok: "\<forall>spec \<in> set [sample_storage_spec]. spec_ok spec"
  by (simp add: sample_storage_spec_ok)

text \<open>C17. The scan loop always returns: for specs the constructor of \<^verbatim>\<open>EventSpec\<close>
  accepts, every turn of the loop of \<^verbatim>\<open>_scan\<close> that does not return consumes at
  least one byte, so \<^verbatim>\<open>feed\<close> and \<^verbatim>\<open>scan_standalone\<close> return on any
  data in any state and for any callback and observer.\<close>

theorem target_scan_returns:
  assumes "tc_signature_groups cfg = signature_groups specs" and "\<forall>spec \<in> set specs. spec_ok spec"
  shows "(\<exists>s'. tm_feed cfg data ctx s = Some s') \<and> (\<exists>s'. tm_scan_standalone cfg data ctx s = Some s')"
proof -
  have "groups_ok (tc_signature_groups cfg)"
    using assms groups_ok_signature_groups by simp
  then have "\<exists>s'. tm_scan cfg ctx s = Some s' \<and> True" for s
    by (rule tm_scan_induct [where P = "\<lambda>_. True"]) simp_all
  then have scan: "\<exists>s'. tm_scan cfg ctx s = Some s'" for s
    by simp
  have "\<exists>s'. map_option (\<lambda>(_, w). (fst s, w)) (tm_scan cfg ctx t) = Some s'" for t
    using scan [of t] by auto
  with scan show ?thesis
    by (simp add: tm_feed_def tm_scan_standalone_def Let_def)
qed

theorem target_scan_returns_witness:
  "(\<exists>s'. tm_feed sample_config [1, 0, 3] (sample_context 1) (new_target_scanner, ([], [])) = Some s') \<and>
   (\<exists>s'. tm_scan_standalone sample_config [1, 0, 3] (sample_context 1) (new_target_scanner, ([], [])) = Some s')"
  by (rule target_scan_returns [OF _ sample_specs_ok]) simp

text \<open>The scanner's memory is bounded: whatever is fed, what stays buffered when the
  scan returns is shorter than the longest message the protocol allows.\<close>

theorem target_buffer_bounded:
  assumes "tc_signature_groups cfg = signature_groups specs" and "\<forall>spec \<in> set specs. spec_ok spec"
    and "data \<noteq> []" and "tm_feed cfg data ctx s = Some s'"
  shows "int (length (tm_buffer (fst s'))) < MAX_TARGET_MESSAGE_LENGTH"
proof -
  have groups: "groups_ok (tc_signature_groups cfg)"
    using assms(1,2) groups_ok_signature_groups by simp
  obtain t where "tm_scan cfg ctx t = Some s'"
    using assms(3,4) by (auto simp: tm_feed_def Let_def)
  moreover have "\<exists>s'. tm_scan cfg ctx t = Some s' \<and> length (tm_buffer (fst s')) < 65535"
    using groups by (rule tm_scan_induct [where P = "\<lambda>_. True"]) (auto intro: tm_scan_step_Return(2) [OF _ groups])
  ultimately show ?thesis
    by (simp add: MAX_TARGET_MESSAGE_LENGTH_def)
qed

theorem target_buffer_bounded_witness:
  "\<exists>s'. tm_feed sample_config [1, 0, 3] (sample_context 1) (new_target_scanner, ([], [])) = Some s' \<and>
     int (length (tm_buffer (fst s'))) < MAX_TARGET_MESSAGE_LENGTH"
proof -
  have "groups_ok (signature_groups [sample_storage_spec])"
    by (rule groups_ok_signature_groups) (simp add: sample_storage_spec_ok)
  then have "\<exists>s'. tm_scan sample_config (sample_context 1)
      (new_target_scanner\<lparr>tm_buffer_start_sequence := None, tm_buffer := [1, 0, 3]\<rparr>, ([], [])) = Some s' \<and> True"
    by (intro tm_scan_induct [where P = "\<lambda>_. True"]) simp_all
  then obtain s' where "tm_feed sample_config [1, 0, 3] (sample_context 1) (new_target_scanner, ([], [])) = Some s'"
    by (auto simp: tm_feed_def new_target_scanner_def)
  with target_buffer_bounded [OF _ _ _ this, of "[sample_storage_spec]"] show ?thesis
    by (auto simp: sample_storage_spec_ok)
qed

text \<open>C18. Which message is decoded: among all places of the buffer where a configured
  signature sits behind an acceptable length, the loop decodes the whole messages of the
  earliest place, all layouts of it together and in the order of the configuration, and
  waits for the earliest message that has not arrived in full.\<close>

theorem earliest_candidates_chosen:
  "case fold (note_candidate buffer) cs ([], None) of (whole, partial) \<Rightarrow>
     whole = filter (\<lambda>c. is_whole buffer c \<and> (\<forall>c' \<in> set cs. is_whole buffer c' \<longrightarrow> fst c \<le> fst c')) cs \<and>
     (case partial of
        None \<Rightarrow> list_all (is_whole buffer) cs
      | Some p \<Rightarrow> p \<in> set cs \<and> \<not> is_whole buffer p \<and> list_all (\<lambda>c. is_whole buffer c \<or> fst p \<le> fst c) cs)"
proof -
  obtain whole partial where f: "fold (note_candidate buffer) cs ([], None) = (whole, partial)"
    by (cases "fold (note_candidate buffer) cs ([], None)")
  have w: "whole = filter (\<lambda>c. is_whole buffer c \<and> fst c = fst (hd whole)) cs"
    and le: "\<forall>c \<in> set cs. is_whole buffer c \<longrightarrow> whole \<noteq> [] \<and> fst (hd whole) \<le> fst c"
    and p: "case partial of None \<Rightarrow> \<forall>c \<in> set cs. is_whole buffer c
       | Some p \<Rightarrow> p \<in> set cs \<and> \<not> is_whole buffer p \<and> (\<forall>c \<in> set cs. \<not> is_whole buffer c \<longrightarrow> fst p \<le> fst c)"
    using chosen_all [of buffer cs] by (simp_all add: chosen_def f)
  have least: "(\<forall>c' \<in> set cs. is_whole buffer c' \<longrightarrow> fst c \<le> fst c') \<longleftrightarrow> fst c = fst (hd whole)"
    if "c \<in> set cs" "is_whole buffer c" for c
  proof -
    have "whole \<noteq> []"
      using le that by blast
    then have "hd whole \<in> set cs" "is_whole buffer (hd whole)"
      using arg_cong [OF w, of set] hd_in_set [of whole] by auto
    then show ?thesis
      using le that by fastforce
  qed
  have "whole = filter (\<lambda>c. is_whole buffer c \<and> (\<forall>c' \<in> set cs. is_whole buffer c' \<longrightarrow> fst c \<le> fst c')) cs"
    by (subst w, rule filter_cong [OF refl]) (use least in blast)
  then show ?thesis
    using p by (auto simp: f list_all_iff split: option.splits)
qed

theorem earliest_candidates_chosen_witness:
  "fold (note_candidate [0, 0, 0, 0, 0])
     [(1, 3, sample_storage_spec), (0, 4, sample_storage_spec), (0, 9, sample_storage_spec)] ([], None)
   = ([(0, 4, sample_storage_spec)], Some (0, 9, sample_storage_spec))"
  using earliest_candidates_chosen [of "[0, 0, 0, 0, 0]"
      "[(1, 3, sample_storage_spec), (0, 4, sample_storage_spec), (0, 9, sample_storage_spec)]"]
  by (auto simp: is_whole_def split: option.splits prod.splits)

text \<open>Driven by the reassembly of a flow.\<close>

lemma run_ops_delivers:
  assumes "\<forall>op \<in> set ops. op_ok (agrees_on key f) op"
  shows "list_all (delivered_ok (signature_groups (filter spec_ok specs)) key f) (fst (snd (snd
    (run_ops (target_stream_scanner (recording_config (signature_groups (filter spec_ok specs)))) ops
      (new_tcp_flow_state max_segments max_bytes defer gen, (new_target_scanner, ([], [])))))))"
proof -
  let ?W = "\<lambda>w. list_all (delivered_ok (signature_groups (filter spec_ok specs)) key f) (fst w)"
  have "target_inv ?W f None (new_target_scanner, ([], []))"
    by (simp add: target_inv_def new_target_scanner_def)
  then have "target.inv key f specs
    (run_ops (target_stream_scanner (recording_config (signature_groups (filter spec_ok specs)))) ops
      (new_tcp_flow_state max_segments max_bytes defer gen, (new_target_scanner, ([], []))))"
    using assms by (rule target.run_ops_inv)
  then show ?thesis
    by (simp add: target.inv_def target_inv_def)
qed

text \<open>C4. From packets to events: whatever order a connection's segments arrive in, with
  any gaps, retransmissions, timeouts and restarts, every event handed to the callback was
  decoded from a whole message of the peer's stream, at the position the event is labelled
  with, whose header carries its own length and a configured signature, and by the only
  configured layout of that signature that decodes it: an ambiguous message is never
  reported.\<close>

theorem events_cut_from_stream:
  assumes "\<forall>spec \<in> set specs. spec_ok spec"
    and "\<forall>op \<in> set ops. op_ok (agrees_on key f) op"
  shows "list_all (delivered_ok (signature_groups specs) key f) (fst (snd (snd
    (run_ops (target_stream_scanner (recording_config (signature_groups specs))) ops
      (new_tcp_flow_state max_segments max_bytes defer gen, (new_target_scanner, ([], [])))))))"
  using run_ops_delivers [OF assms(2), where specs = specs] assms(1) by simp

theorem events_cut_from_stream_witness:
  "list_all (delivered_ok (signature_groups [sample_storage_spec]) (sample_flow, 0) (\<lambda>i. word_of_int i)) (fst (snd (snd
    (run_ops (target_stream_scanner sample_config)
      [AnchorSequence 5, AddSegment 8 [8, 9] (sample_context 2), AddSegment 5 [5, 6, 7] (sample_context 1), FinishFlow]
      (new_tcp_flow_state 128 None True 0, (new_target_scanner, ([], [])))))))"
  by (rule events_cut_from_stream)
    (simp_all add: sample_storage_spec_ok agrees_on_def connection_def agrees_def stream_slice_def TCP_SEQUENCE_MODULUS_eq upt_rec)

end
