(* ===== verification/Solare_Scanner.thy ===== *)
theory Solare_Scanner
  imports Frame_Delivery
begin

text \<open>
  \<^verbatim>\<open>src/bdo_toolkit/solare/_scanner.py\<close>: \<^verbatim>\<open>SolareDiscoveryStreamScanner\<close>
  emits generic frames without a known opcode. It locks on two equal large headers or on
  three consecutive generic headers. The frame callback and the optional reset callback are
  parameters acting on an abstract state \<open>'w\<close>; offsets into the buffer are never negative.
\<close>

section \<open>Configuration and state\<close>

definition BDO_HEADER_SIZE :: int where
  "BDO_HEADER_SIZE = 5"

definition BDO_MAX_FRAME_SIZE :: int where
  "BDO_MAX_FRAME_SIZE = 0xFFFF"

definition DISCOVERY_MIN_FRAME_LENGTH :: int where
  "DISCOVERY_MIN_FRAME_LENGTH = 8 * 1024"

definition DISCOVERY_MAX_FRAME_LENGTH :: int where
  "DISCOVERY_MAX_FRAME_LENGTH = 32 * 1024"

definition DISCOVERY_SYNC_HEADERS :: nat where
  "DISCOVERY_SYNC_HEADERS = 3"

definition DISCOVERY_SYNC_BUFFER_LIMIT :: int where
  "DISCOVERY_SYNC_BUFFER_LIMIT = (BDO_MAX_FRAME_SIZE * 2) + BDO_HEADER_SIZE"

record solare_scanner =
  ss_buffer :: bytes
  ss_buffer_start_sequence :: "int option"
  ss_locked :: bool
  ss_frame_index :: int

definition new_solare_scanner :: solare_scanner where
  "new_solare_scanner = \<lparr>ss_buffer = [], ss_buffer_start_sequence = None, ss_locked = False, ss_frame_index = 0\<rparr>"

definition ss_reset :: "('w \<Rightarrow> 'w) option \<Rightarrow> solare_scanner \<times> 'w \<Rightarrow> solare_scanner \<times> 'w" where
  "ss_reset reset_callback s =
     ((fst s)\<lparr>ss_buffer := [], ss_buffer_start_sequence := None, ss_locked := False\<rparr>,
      case reset_callback of None \<Rightarrow> snd s | Some callback \<Rightarrow> callback (snd s))"

definition u16le :: "bytes \<Rightarrow> int \<Rightarrow> int" where
  "u16le data offset = from_le (py_slice data offset (offset + 2))"

section \<open>Headers\<close>

text \<open>\<^verbatim>\<open>None\<close> for a header that has not arrived, -1 for one that is not generic.\<close>

definition header_length :: "bytes \<Rightarrow> int \<Rightarrow> int option" where
  "header_length data offset =
     (if offset + BDO_HEADER_SIZE > int (length data) then None
      else let message_length = u16le data offset in
        if \<not> (BDO_HEADER_SIZE \<le> message_length \<and> message_length \<le> BDO_MAX_FRAME_SIZE) then Some (-1)
        else if data ! nat (offset + 2) \<noteq> 0 then Some (-1)
        else Some message_length)"

text \<open>
  The loops over \<^verbatim>\<open>range(DISCOVERY_SYNC_HEADERS)\<close>, as recursion on the headers
  that remain: of \<^verbatim>\<open>can_anchor_at_start\<close> and of \<^verbatim>\<open>_has_sync_chain\<close>.
\<close>

fun generic_chain :: "nat \<Rightarrow> bytes \<Rightarrow> int \<Rightarrow> bool" where
  "generic_chain 0 data position = True"
| "generic_chain (Suc remaining) data position =
     (case header_length data position of
        None \<Rightarrow> False
      | Some message_length \<Rightarrow>
          if message_length < BDO_HEADER_SIZE then False
          else if remaining = 0 then True
          else if position + message_length > int (length data) then False
          else generic_chain remaining data (position + message_length))"

fun sync_chain :: "nat \<Rightarrow> bytes \<Rightarrow> int \<Rightarrow> bool option" where
  "sync_chain 0 buffer position = Some True"
| "sync_chain (Suc remaining) buffer position =
     (case header_length buffer position of
        None \<Rightarrow> None
      | Some message_length \<Rightarrow>
          if message_length < BDO_HEADER_SIZE then Some False
          else if remaining = 0 then Some True
          else if position + message_length > int (length buffer) then None
          else sync_chain remaining buffer (position + message_length))"

definition has_sync_chain :: "bytes \<Rightarrow> int \<Rightarrow> bool option" where
  "has_sync_chain buffer offset = sync_chain DISCOVERY_SYNC_HEADERS buffer offset"

definition large_family_length :: "int \<Rightarrow> bool" where
  "large_family_length message_length \<longleftrightarrow>
     DISCOVERY_MIN_FRAME_LENGTH \<le> message_length \<and> message_length \<le> DISCOVERY_MAX_FRAME_LENGTH"

definition ss_can_anchor_at_start :: "bytes \<Rightarrow> bool" where
  "ss_can_anchor_at_start data =
     (if generic_chain DISCOVERY_SYNC_HEADERS data 0 then True
      else case header_length data 0 of
        None \<Rightarrow> False
      | Some first_length \<Rightarrow>
          if \<not> large_family_length first_length then False
          else header_length data first_length = Some first_length \<and>
               first_length + BDO_HEADER_SIZE \<le> int (length data) \<and>
               u16le data 3 = u16le data (first_length + 3))"

text \<open>The body of the loop over \<^verbatim>\<open>offset\<close>: does it return \<^verbatim>\<open>offset\<close>?\<close>

definition repeats_large_family_at :: "bytes \<Rightarrow> int \<Rightarrow> bool" where
  "repeats_large_family_at buffer offset =
     (case header_length buffer offset of
        None \<Rightarrow> False
      | Some message_length \<Rightarrow>
          if \<not> large_family_length message_length then False
          else let next_offset = offset + message_length in
            if header_length buffer next_offset \<noteq> Some message_length then False
            else u16le buffer (offset + 3) = u16le buffer (next_offset + 3))"

definition sync_offsets :: "bytes \<Rightarrow> int list" where
  "sync_offsets buffer =
     (let final_offset = int (length buffer) - BDO_HEADER_SIZE in [0 .. max 0 (final_offset + 1) - 1])"

definition find_repeated_large_family_offset :: "bytes \<Rightarrow> int option" where
  "find_repeated_large_family_offset buffer = find (repeats_large_family_at buffer) (sync_offsets buffer)"

definition find_sync_offset :: "bytes \<Rightarrow> int option" where
  "find_sync_offset buffer = find (\<lambda>offset. has_sync_chain buffer offset = Some True) (sync_offsets buffer)"

section \<open>The scan\<close>

definition ss_discard_prefix :: "int \<Rightarrow> solare_scanner \<Rightarrow> solare_scanner" where
  "ss_discard_prefix byte_count ss =
     (if byte_count \<le> 0 then ss
      else let buffer = drop (nat byte_count) (ss_buffer ss)
           in ss\<lparr>ss_buffer := buffer,
                 ss_buffer_start_sequence :=
                   (if buffer = [] then None
                    else map_option (\<lambda>s. s + byte_count) (ss_buffer_start_sequence ss))\<rparr>)"

text \<open>The part of the loop body under \<^verbatim>\<open>if not self._locked\<close>.\<close>

definition ss_lock :: "solare_scanner \<Rightarrow> solare_scanner control" where
  "ss_lock ss =
     (if ss_locked ss then Continue ss
      else let buffer = ss_buffer ss;
               sync_offset = (case find_repeated_large_family_offset buffer of
                   None \<Rightarrow> find_sync_offset buffer | Some offset \<Rightarrow> Some offset)
           in case sync_offset of
                None \<Rightarrow>
                  Return (if int (length buffer) > DISCOVERY_SYNC_BUFFER_LIMIT
                          then ss_discard_prefix (int (length buffer) - DISCOVERY_SYNC_BUFFER_LIMIT) ss else ss)
              | Some offset \<Rightarrow>
                  Continue ((if offset \<noteq> 0 then ss_discard_prefix offset ss else ss)\<lparr>ss_locked := True\<rparr>))"

definition ss_scan_step ::
    "(bdo_frame \<Rightarrow> 'w \<Rightarrow> 'w) \<Rightarrow> packet_context \<Rightarrow> solare_scanner \<times> 'w \<Rightarrow> (solare_scanner \<times> 'w) control" where
  "ss_scan_step callback ctx s =
     (case ss_lock (fst s) of
        Return ss \<Rightarrow> Return (ss, snd s)
      | Continue ss \<Rightarrow>
          (case header_length (ss_buffer ss) 0 of
             None \<Rightarrow> Return (ss, snd s)
           | Some message_length \<Rightarrow>
               if message_length < BDO_HEADER_SIZE
               then Continue (ss_discard_prefix 1 (ss\<lparr>ss_locked := False\<rparr>), snd s)
               else if message_length > int (length (ss_buffer ss)) then Return (ss, snd s)
               else let frame = \<lparr>fr_index = ss_frame_index ss,
                                 fr_message = take (nat message_length) (ss_buffer ss),
                                 fr_context = ctx, fr_stream_sequence = ss_buffer_start_sequence ss\<rparr>
                    in Continue (ss_discard_prefix message_length (ss\<lparr>ss_frame_index := ss_frame_index ss + 1\<rparr>),
                                 callback frame (snd s))))"

lemma ss_discard_prefix_buffer: "ss_buffer (ss_discard_prefix n ss) = drop (nat n) (ss_buffer ss)"
  by (simp add: ss_discard_prefix_def Let_def)

lemma ss_lock_shrinks: "ss_lock ss = Continue ss' \<Longrightarrow> length (ss_buffer ss') \<le> length (ss_buffer ss)"
  by (auto simp: ss_lock_def Let_def ss_discard_prefix_buffer split: option.splits if_splits)

lemma header_length_Some:
  "header_length data 0 = Some n \<Longrightarrow> 5 \<le> length data \<and> (5 \<le> n \<longrightarrow> n = u16le data 0 \<and> n \<le> 0xFFFF)"
  by (auto simp: header_length_def BDO_HEADER_SIZE_def BDO_MAX_FRAME_SIZE_def Let_def split: if_splits)

lemma ss_scan_step_shrinks:
  assumes "ss_scan_step callback ctx s = Continue s'"
  shows "length (ss_buffer (fst s')) < length (ss_buffer (fst s))"
proof -
  obtain ss n where lock: "ss_lock (fst s) = Continue ss" and n: "header_length (ss_buffer ss) 0 = Some n"
    using assms by (auto simp: ss_scan_step_def split: control.splits option.splits)
  have "ss_buffer (fst s') = drop 1 (ss_buffer ss) \<or> (\<exists>k \<ge> 5. ss_buffer (fst s') = drop (nat k) (ss_buffer ss))"
    using assms lock n
    by (auto simp: ss_scan_step_def Let_def ss_discard_prefix_buffer BDO_HEADER_SIZE_def not_less split: if_splits)
  then show ?thesis
    using header_length_Some [OF n] ss_lock_shrinks [OF lock] by auto
qed

text \<open>The loop ends: every turn that continues takes bytes from the buffer.\<close>

function ss_scan ::
    "(bdo_frame \<Rightarrow> 'w \<Rightarrow> 'w) \<Rightarrow> packet_context \<Rightarrow> solare_scanner \<times> 'w \<Rightarrow> solare_scanner \<times> 'w" where
  "ss_scan callback ctx s =
     (case ss_scan_step callback ctx s of Return s' \<Rightarrow> s' | Continue s' \<Rightarrow> ss_scan callback ctx s')"
  by pat_completeness auto
termination
  by (relation "measure (\<lambda>(callback, ctx, s). length (ss_buffer (fst s)))") (auto dest: ss_scan_step_shrinks)

declare ss_scan.simps [simp del]

definition ss_feed ::
    "(bdo_frame \<Rightarrow> 'w \<Rightarrow> 'w) \<Rightarrow> bytes \<Rightarrow> packet_context \<Rightarrow> solare_scanner \<times> 'w \<Rightarrow> solare_scanner \<times> 'w" where
  "ss_feed callback data ctx s =
     (if data = [] then s
      else let ss = (if ss_buffer (fst s) = []
                     then (fst s)\<lparr>ss_buffer_start_sequence := ctx_stream_start ctx\<rparr> else fst s)
           in ss_scan callback ctx (ss\<lparr>ss_buffer := ss_buffer ss @ data\<rparr>, snd s))"

definition ss_scan_standalone ::
    "bytes \<Rightarrow> packet_context \<Rightarrow> solare_scanner \<times> 'w \<Rightarrow> solare_scanner \<times> 'w" where
  "ss_scan_standalone data ctx s = s"

text \<open>The scanner of a flow.\<close>

definition solare_stream_scanner ::
    "(bdo_frame \<Rightarrow> 'w \<Rightarrow> 'w) \<Rightarrow> ('w \<Rightarrow> 'w) option \<Rightarrow> (solare_scanner \<times> 'w) stream_scanner" where
  "solare_stream_scanner callback reset_callback =
     \<lparr>sc_feed = ss_feed callback, sc_scan_standalone = ss_scan_standalone,
      sc_reset = ss_reset reset_callback, sc_can_anchor_at_start = Some ss_can_anchor_at_start,
      sc_on_gap_reset = None\<rparr>"

end
