(* ===== verification/Solare_Delivery.thy ===== *)
theory Solare_Delivery
  imports Solare_Scanner
begin

text \<open>
  What the Solare scanner promises behind the reassembly of a flow, as for the frame
  collector: bounded memory and frames cut from the peer's stream. Its properties follow.
\<close>

interpretation ss_loop: control_loop "ss_scan_step callback ctx" "ss_scan callback ctx"
    "\<lambda>s. length (ss_buffer (fst s))"
  by unfold_locales (rule ss_scan.simps, rule ss_scan_step_shrinks)

lemma ss_scan_step_Return_bound:
  assumes "ss_scan_step callback ctx s = Return s'"
  shows "int (length (ss_buffer (fst s'))) \<le> DISCOVERY_SYNC_BUFFER_LIMIT"
proof (cases "ss_lock (fst s)")
  case (Return ss)
  then have "int (length (ss_buffer ss)) \<le> DISCOVERY_SYNC_BUFFER_LIMIT"
    by (auto simp: ss_lock_def Let_def ss_discard_prefix_buffer DISCOVERY_SYNC_BUFFER_LIMIT_def
        BDO_MAX_FRAME_SIZE_def BDO_HEADER_SIZE_def split: if_splits option.splits)
  then show ?thesis
    using assms Return by (auto simp: ss_scan_step_def)
next
  case (Continue ss)
  then have "ss_buffer (fst s') = ss_buffer ss \<and> (case header_length (ss_buffer ss) 0 of
      None \<Rightarrow> True | Some n \<Rightarrow> int (length (ss_buffer ss)) < n)"
    using assms by (auto simp: ss_scan_step_def Let_def split: if_splits option.splits)
  then show ?thesis
    by (auto simp: header_length_def Let_def DISCOVERY_SYNC_BUFFER_LIMIT_def BDO_MAX_FRAME_SIZE_def
        BDO_HEADER_SIZE_def split: if_splits)
qed

lemma ss_scan_bounded: "int (length (ss_buffer (fst (ss_scan callback ctx s)))) \<le> DISCOVERY_SYNC_BUFFER_LIMIT"
  by (rule ss_loop.run_cases [where P = "\<lambda>_. True"]) (auto intro: ss_scan_step_Return_bound)

section \<open>Frames are cut from the stream\<close>

text \<open>A generic frame has a zero flag byte; the frames are numbered in their order.\<close>

definition generic_frame_ok :: "flow_key \<times> int \<Rightarrow> (int \<Rightarrow> byte) \<Rightarrow> bdo_frame \<Rightarrow> bool" where
  "generic_frame_ok key f fr \<longleftrightarrow> frame_ok key f fr \<and> frame_flag fr = Some 0"

definition ss_scan_ok ::
    "flow_key \<times> int \<Rightarrow> (int \<Rightarrow> byte) \<Rightarrow> int \<Rightarrow> solare_scanner \<times> bdo_frame list \<Rightarrow> bool" where
  "ss_scan_ok key f e s \<longleftrightarrow>
     buffered f e (ss_buffer (fst s)) (ss_buffer_start_sequence (fst s)) \<and> 0 \<le> ss_frame_index (fst s) \<and>
     list_all (generic_frame_ok key f) (snd s) \<and> map fr_index (snd s) = [0 .. ss_frame_index (fst s) - 1]"

lemma ss_discard_prefix_fields [simp]:
  "ss_locked (ss_discard_prefix n ss) = ss_locked ss"
  "ss_frame_index (ss_discard_prefix n ss) = ss_frame_index ss"
  by (simp_all add: ss_discard_prefix_def Let_def)

lemma ss_discard_buffered:
  assumes "buffered f e (ss_buffer ss) (ss_buffer_start_sequence ss)"
  shows "buffered f e (ss_buffer (ss_discard_prefix n ss)) (ss_buffer_start_sequence (ss_discard_prefix n ss))"
proof (cases "n \<le> 0")
  case False
  then show ?thesis
    using buffered_discard [OF assms, of n] by (auto simp: ss_discard_prefix_def Let_def)
qed (use assms in \<open>simp add: ss_discard_prefix_def\<close>)

lemma ss_lock_ok:
  assumes "ss_scan_ok key f e (ss, out)" and "ss_lock ss = Continue ss' \<or> ss_lock ss = Return ss'"
  shows "ss_scan_ok key f e (ss', out)"
  using assms ss_discard_buffered [of f e ss]
  by (auto simp: ss_lock_def ss_scan_ok_def Let_def split: option.splits if_splits)

lemma emitted_generic_frame:
  assumes buf: "buffered f e (ss_buffer ss) (ss_buffer_start_sequence ss)"
    and n: "header_length (ss_buffer ss) 0 = Some n" "5 \<le> n" "n \<le> int (length (ss_buffer ss))"
    and key: "connection ctx = key"
  shows "generic_frame_ok key f \<lparr>fr_index = i, fr_message = take (nat n) (ss_buffer ss), fr_context = ctx,
    fr_stream_sequence = ss_buffer_start_sequence ss\<rparr>"
proof -
  from n have "ss_buffer ss \<noteq> []"
    by auto
  then obtain q where q: "ss_buffer_start_sequence ss = Some q"
    "ss_buffer ss = stream_slice f q (length (ss_buffer ss))"
    using buf by (auto simp: buffered_def)
  have len: "nat n \<le> length (ss_buffer ss)"
    using n by simp
  have head: "n = u16le (ss_buffer ss) 0" "n \<le> 0xFFFF"
    using header_length_Some [OF n(1)] n(2) by simp_all
  have "py_slice (take (nat n) (ss_buffer ss)) 0 2 = py_slice (ss_buffer ss) 0 2"
    using n by (simp add: py_slice_prefix)
  then have "frame_ok key f \<lparr>fr_index = i, fr_message = take (nat n) (ss_buffer ss), fr_context = ctx,
      fr_stream_sequence = ss_buffer_start_sequence ss\<rparr>"
    using n len head key q(1) slice_take [OF q(2) len]
    by (simp add: frame_ok_def frame_length_def u16le_def frame_length_ok_def MAX_TARGET_MESSAGE_LENGTH_def)
  moreover have "ss_buffer ss ! 2 = 0" "2 < nat n"
    using n(1,2) by (auto simp: header_length_def Let_def split: if_splits)
  ultimately show ?thesis
    using n by (simp add: generic_frame_ok_def frame_flag_def)
qed

lemma ss_scan_step_ok:
  assumes s: "ss_scan_ok key f e s" and key: "connection ctx = key"
    and step: "ss_scan_step collect_frame ctx s = Continue s' \<or> ss_scan_step collect_frame ctx s = Return s'"
  shows "ss_scan_ok key f e s'"
proof (cases "ss_lock (fst s)")
  case (Return ss)
  then have "s' = (ss, snd s)"
    using step by (simp add: ss_scan_step_def)
  then show ?thesis
    using ss_lock_ok [of key f e "fst s" "snd s" ss] s Return by simp
next
  case (Continue ss)
  have ss: "ss_scan_ok key f e (ss, snd s)"
    using ss_lock_ok [of key f e "fst s" "snd s" ss] s Continue by simp
  then have buf: "buffered f e (ss_buffer ss) (ss_buffer_start_sequence ss)"
    by (simp add: ss_scan_ok_def)
  show ?thesis
  proof (cases "header_length (ss_buffer ss) 0")
    case None
    then show ?thesis
      using step Continue ss by (simp add: ss_scan_step_def)
  next
    case (Some n)
    consider "n < 5" | "5 \<le> n" "int (length (ss_buffer ss)) < n" | "5 \<le> n" "n \<le> int (length (ss_buffer ss))"
      by linarith
    then show ?thesis
    proof cases
      case 1
      then have "s' = (ss_discard_prefix 1 (ss\<lparr>ss_locked := False\<rparr>), snd s)"
        using step Continue Some by (simp add: ss_scan_step_def BDO_HEADER_SIZE_def)
      then show ?thesis
        using ss ss_discard_buffered [of f e "ss\<lparr>ss_locked := False\<rparr>" 1] by (simp add: ss_scan_ok_def)
    next
      case 2
      then show ?thesis
        using step Continue Some ss by (simp add: ss_scan_step_def BDO_HEADER_SIZE_def)
    next
      case 3
      let ?fr = "\<lparr>fr_index = ss_frame_index ss, fr_message = take (nat n) (ss_buffer ss), fr_context = ctx,
          fr_stream_sequence = ss_buffer_start_sequence ss\<rparr>"
      have "s' = (ss_discard_prefix n (ss\<lparr>ss_frame_index := ss_frame_index ss + 1\<rparr>), snd s @ [?fr])"
        using 3 step Continue Some by (simp add: ss_scan_step_def BDO_HEADER_SIZE_def collect_frame_def Let_def)
      moreover have "generic_frame_ok key f ?fr"
        using emitted_generic_frame [OF buf Some 3 key] .
      moreover have "[0 .. ss_frame_index ss] = [0 .. ss_frame_index ss - 1] @ [ss_frame_index ss]"
        using ss by (simp add: upto_rec2 ss_scan_ok_def)
      ultimately show ?thesis
        using ss ss_discard_buffered [of f e "ss\<lparr>ss_frame_index := ss_frame_index ss + 1\<rparr>" n]
        by (simp add: ss_scan_ok_def)
    qed
  qed
qed

lemma ss_scan_keeps_ok:
  "ss_scan_ok key f e s \<Longrightarrow> connection ctx = key \<Longrightarrow> ss_scan_ok key f e (ss_scan collect_frame ctx s)"
  by (rule ss_loop.run_invariant [where P = "ss_scan_ok key f e"]) (auto intro: ss_scan_step_ok)

text \<open>Between calls: either nothing is buffered or the buffer ends at the next expected byte.\<close>

definition solare_inv ::
    "flow_key \<times> int \<Rightarrow> (int \<Rightarrow> byte) \<Rightarrow> int option \<Rightarrow> solare_scanner \<times> bdo_frame list \<Rightarrow> bool" where
  "solare_inv key f ns s \<longleftrightarrow>
     (case ns of None \<Rightarrow> ss_buffer (fst s) = [] \<and> (\<exists>e. ss_scan_ok key f e s)
      | Some n \<Rightarrow> ss_scan_ok key f n s)"

lemma solare_inv_empty: "ss_buffer (fst s) = [] \<Longrightarrow> ss_scan_ok key f e s = ss_scan_ok key f e' s"
  by (simp add: ss_scan_ok_def buffered_def)

lemma feed_solare_inv:
  assumes inv: "solare_inv key f (Some n) s" and agree: "agrees_on key f n d c"
  shows "solare_inv key f (Some (n + int (length d))) (ss_feed collect_frame d (c\<lparr>ctx_stream_start := Some n\<rparr>) s)"
proof (cases "d = []")
  case False
  let ?c = "c\<lparr>ctx_stream_start := Some n\<rparr>"
  let ?ss = "if ss_buffer (fst s) = [] then (fst s)\<lparr>ss_buffer_start_sequence := ctx_stream_start ?c\<rparr> else fst s"
  have d: "d = stream_slice f n (length d)" and key: "connection ?c = key"
    using agree by (simp_all only: agrees_on_def agrees_def connection_start)
  have "buffered f n (ss_buffer (fst s)) (ss_buffer_start_sequence (fst s))"
    using inv by (simp add: solare_inv_def ss_scan_ok_def)
  from buffered_feed [OF this d]
  have "ss_scan_ok key f (n + int (length d)) (?ss\<lparr>ss_buffer := ss_buffer ?ss @ d\<rparr>, snd s)"
    using inv by (simp add: solare_inv_def ss_scan_ok_def split: if_splits)
  from ss_scan_keeps_ok [OF this key] show ?thesis
    using False by (simp add: ss_feed_def Let_def solare_inv_def)
qed (use inv in \<open>simp add: ss_feed_def\<close>)

interpretation solare: flow_contract "solare_stream_scanner collect_frame None" "agrees_on key f" "solare_inv key f"
proof
  show "agrees_on key f (s + int k) (drop k d) c" if "agrees_on key f s d c" "k \<le> length d" for s d c k
    using that by (simp add: agrees_on_def agrees_drop)
  show "agrees_on key f s (take k d) c" if "agrees_on key f s d c" for s d c k
    using that by (simp add: agrees_on_def agrees_take)
  show "agrees_on key f s' d c"
    if "agrees_on key f s d c" "s' mod TCP_SEQUENCE_MODULUS = s mod TCP_SEQUENCE_MODULUS" for s d c s'
    using that agrees_mod by (auto simp: agrees_on_def)
  fix x :: "solare_scanner \<times> bdo_frame list" and ns s
  show "solare_inv key f (Some s) x" if "solare_inv key f None x"
    using that solare_inv_empty [of x key f s] by (auto simp: solare_inv_def)
  have "solare_inv key f ns' (ss_reset None x)" if "solare_inv key f ns x" for ns'
    using that by (auto simp: solare_inv_def ss_reset_def ss_scan_ok_def buffered_def split: option.splits)
  then show "solare_inv key f (Some s) (gap_reset (solare_stream_scanner collect_frame None) s x)"
    "solare_inv key f None (sc_reset (solare_stream_scanner collect_frame None) x)"
    if "solare_inv key f ns x"
    using that by (simp_all add: gap_reset_def solare_stream_scanner_def)
qed (simp_all add: solare_stream_scanner_def feed_solare_inv ss_scan_standalone_def)

lemma generic_chain_sync: "generic_chain k data position \<longleftrightarrow> sync_chain k data position = Some True"
  by (induction k arbitrary: position) (auto split: option.splits)

section \<open>Properties\<close>

text \<open>C30. From packets to generic frames: whatever order a connection's segments arrive in,
  with any gaps, retransmissions, timeouts and restarts, every frame handed to discovery is a
  whole flag-zero message cut from the peer's stream at the position it is labelled with, and
  the frames are numbered consecutively from zero.\<close>

theorem generic_frames_cut_from_stream:
  assumes "\<forall>op \<in> set ops. op_ok (agrees_on key f) op"
  shows "let s = snd (run_ops (solare_stream_scanner collect_frame None) ops
      (new_tcp_flow_state max_segments max_bytes defer gen, (new_solare_scanner, [])))
    in list_all (generic_frame_ok key f) (snd s) \<and> map fr_index (snd s) = [0 .. ss_frame_index (fst s) - 1]"
proof -
  have "solare_inv key f None (new_solare_scanner, [])"
    by (simp add: solare_inv_def ss_scan_ok_def new_solare_scanner_def buffered_def)
  then have "solare.inv key f (run_ops (solare_stream_scanner collect_frame None) ops
      (new_tcp_flow_state max_segments max_bytes defer gen, (new_solare_scanner, [])))"
    using assms by (rule solare.run_ops_inv)
  then show ?thesis
    by (auto simp: solare.inv_def solare_inv_def ss_scan_ok_def Let_def split: option.splits)
qed

theorem generic_frames_cut_from_stream_witness:
  "list_all (generic_frame_ok (sample_flow, 0) (\<lambda>i. word_of_int i)) (snd (snd (run_ops
     (solare_stream_scanner collect_frame None)
     [AnchorSequence 5, AddSegment 8 [8, 9] (sample_context 2), AddSegment 5 [5, 6, 7] (sample_context 1), FinishFlow]
     (new_tcp_flow_state 128 None True 0, (new_solare_scanner, [])))))"
  by (rule generic_frames_cut_from_stream [unfolded Let_def, THEN conjunct1])
    (simp add: agrees_on_def connection_def agrees_def stream_slice_def TCP_SEQUENCE_MODULUS_eq upt_rec)

text \<open>The discovery scanner's memory is bounded: after it has consumed anything it keeps
  at most \<^verbatim>\<open>DISCOVERY_SYNC_BUFFER_LIMIT\<close> bytes, locked or not.\<close>

theorem discovery_buffer_bounded:
  assumes "data \<noteq> []"
  shows "int (length (ss_buffer (fst (ss_feed callback data ctx s)))) \<le> DISCOVERY_SYNC_BUFFER_LIMIT"
  using assms by (simp add: ss_feed_def Let_def ss_scan_bounded)

theorem discovery_buffer_bounded_witness:
  "int (length (ss_buffer (fst (ss_feed collect_frame [1, 0, 3] (sample_context 1) (new_solare_scanner, [])))))
     \<le> DISCOVERY_SYNC_BUFFER_LIMIT"
  by (rule discovery_buffer_bounded) simp

text \<open>The anchoring test is the synchronization test at byte zero: the two loops over the
  headers, written separately over the offered bytes and over the buffer, agree, so a flow is
  anchored exactly on data whose first byte satisfies one of the two sync proofs of the scan.\<close>

theorem anchor_test_is_sync_test:
  "ss_can_anchor_at_start data \<longleftrightarrow>
     has_sync_chain data 0 = Some True \<or> repeats_large_family_at data 0"
proof -
  have "header_length data n = Some n \<Longrightarrow> n + BDO_HEADER_SIZE \<le> int (length data)" for n
    by (simp add: header_length_def split: if_splits)
  then show ?thesis
    by (auto simp: ss_can_anchor_at_start_def generic_chain_sync has_sync_chain_def repeats_large_family_at_def
        Let_def add.commute split: option.splits)
qed

end
