(* ===== verification/Json_Values.thy ===== *)
theory Json_Values
  imports Prelude
begin

text \<open>
  The values of a parsed JSON document as the profile loaders see them, and the two standard
  library functions that turn text into numbers there: \<^verbatim>\<open>int(text, base)\<close> and the
  calendar check of \<^verbatim>\<open>date.fromisoformat\<close>.

  A string is a list of code points below 256, the range of \<^verbatim>\<open>char\<close>. An object is an
  association list in its order, with distinct keys. A fallible function returns a sum,
  \<open>Inl\<close> with the error it raises; \<open>bind_r\<close> and \<open>map_r\<close> sequence such calls and stop at
  the first error, as an exception does.
\<close>

section \<open>Values\<close>

datatype json =
    JNull
  | JBool bool
  | JInt int
  | JFloat pyfloat
  | JStr string
  | JList "json list"
  | JTuple "json list"
  | JObj "(string \<times> json) list"

type_synonym jobject = "(string \<times> json) list"

text \<open>\<^verbatim>\<open>entry.get(key)\<close>: a missing key is \<^verbatim>\<open>None\<close>, as an explicit null is.\<close>

definition jget :: "jobject \<Rightarrow> string \<Rightarrow> json" where
  "jget d k = (case map_of d k of None \<Rightarrow> JNull | Some v \<Rightarrow> v)"

definition keys_of :: "jobject \<Rightarrow> string set" where
  "keys_of d = set (map fst d)"

text \<open>An integer that is not a boolean.\<close>

fun as_int :: "json \<Rightarrow> int option" where
  "as_int (JInt i) = Some i"
| "as_int _ = None"

definition int_in :: "int \<Rightarrow> int \<Rightarrow> json \<Rightarrow> bool" where
  "int_in low high v \<longleftrightarrow> (case as_int v of None \<Rightarrow> False | Some i \<Rightarrow> low \<le> i \<and> i \<le> high)"

fun is_str :: "json \<Rightarrow> bool" where
  "is_str (JStr _) = True"
| "is_str _ = False"

fun opt_str :: "json \<Rightarrow> string option" where
  "opt_str (JStr s) = Some s"
| "opt_str _ = None"

definition json_of_opt :: "('a \<Rightarrow> json) \<Rightarrow> 'a option \<Rightarrow> json" where
  "json_of_opt f v = (case v of None \<Rightarrow> JNull | Some x \<Rightarrow> f x)"

lemma int_inE: "int_in low high v \<Longrightarrow> \<exists>i. v = JInt i \<and> low \<le> i \<and> i \<le> high"
  by (cases v) (auto simp: int_in_def)

lemma int_in_JInt [simp]: "int_in low high (JInt i) \<longleftrightarrow> low \<le> i \<and> i \<le> high"
  by (simp add: int_in_def)

lemma jget_Nil [simp]: "jget [] k = JNull"
  by (simp add: jget_def)

lemma jget_Cons [simp]: "jget ((k', v) # d) k = (if k = k' then v else jget d k)"
  by (simp add: jget_def)

section \<open>Results\<close>

definition bind_r :: "'e + 'a \<Rightarrow> ('a \<Rightarrow> 'e + 'b) \<Rightarrow> 'e + 'b" where
  "bind_r r f = (case r of Inl e \<Rightarrow> Inl e | Inr x \<Rightarrow> f x)"

fun map_r :: "('a \<Rightarrow> 'e + 'b) \<Rightarrow> 'a list \<Rightarrow> 'e + 'b list" where
  "map_r f [] = Inr []"
| "map_r f (x # xs) = bind_r (f x) (\<lambda>y. bind_r (map_r f xs) (\<lambda>ys. Inr (y # ys)))"

text \<open>\<^verbatim>\<open>if not ok: raise e\<close>\<close>

definition check :: "bool \<Rightarrow> 'e \<Rightarrow> 'e + 'a \<Rightarrow> 'e + 'a" where
  "check ok e rest = (if ok then rest else Inl e)"

lemma bind_r_Inr [simp]: "bind_r r f = Inr y \<longleftrightarrow> (\<exists>x. r = Inr x \<and> f x = Inr y)"
  by (auto simp: bind_r_def split: sum.splits)

lemma bind_r_ok [simp]: "bind_r (Inr x) f = f x"
  by (simp add: bind_r_def)

lemma bind_r_error [simp]: "bind_r (Inl e) f = Inl e"
  by (simp add: bind_r_def)

lemma check_Inr [simp]: "check ok e r = Inr y \<longleftrightarrow> ok \<and> r = Inr y"
  by (simp add: check_def)

lemma check_True [simp]: "check True e r = r"
  by (simp add: check_def)

lemma map_r_Inr: "map_r f xs = Inr ys \<longleftrightarrow> list_all2 (\<lambda>x y. f x = Inr y) xs ys"
  by (induction xs arbitrary: ys) (auto simp: list_all2_Cons1)

lemma map_r_source: "map_r f xs = Inr ys \<Longrightarrow> y \<in> set ys \<Longrightarrow> \<exists>x \<in> set xs. f x = Inr y"
  by (induction xs arbitrary: ys) auto

lemma map_r_ok: "(\<And>x. x \<in> set xs \<Longrightarrow> f x = Inr (g x)) \<Longrightarrow> map_r f xs = Inr (map g xs)"
  by (induction xs) auto

section \<open>Integers as text\<close>

definition py_space :: "char \<Rightarrow> bool" where
  "py_space c \<longleftrightarrow> (of_char c :: nat) \<in> set [9, 10, 11, 12, 13, 28, 29, 30, 31, 32, 133, 160]"

definition py_strip :: "string \<Rightarrow> string" where
  "py_strip s = rev (dropWhile py_space (rev (dropWhile py_space s)))"

definition digit_value :: "char \<Rightarrow> int option" where
  "digit_value c =
     (let n = of_char c in
      if 48 \<le> n \<and> n \<le> 57 then Some (n - 48)
      else if 97 \<le> n \<and> n \<le> 102 then Some (n - 87)
      else if 65 \<le> n \<and> n \<le> 70 then Some (n - 55)
      else None)"

text \<open>Digits with single underscores between them; \<open>digit\<close> says the last character was one.\<close>

fun parse_digits :: "int \<Rightarrow> int \<Rightarrow> bool \<Rightarrow> string \<Rightarrow> int option" where
  "parse_digits base acc digit [] = (if digit then Some acc else None)"
| "parse_digits base acc digit (c # cs) =
     (if c = CHR ''_'' then if digit then parse_digits base acc False cs else None
      else case digit_value c of
             None \<Rightarrow> None
           | Some v \<Rightarrow> if v < base then parse_digits base (base * acc + v) True cs else None)"

text \<open>
  \<^verbatim>\<open>int(text, 10)\<close>, which refuses more than 4300 digits, and
  \<^verbatim>\<open>int(text, 16)\<close> on a text that starts with \<^verbatim>\<open>0x\<close>; \<open>None\<close> is
  \<^verbatim>\<open>ValueError\<close>.
\<close>

definition parse_decimal :: "string \<Rightarrow> int option" where
  "parse_decimal text =
     (let s = py_strip text;
          (negative, digits) = (case s of
              c # cs \<Rightarrow> if c = CHR ''-'' then (True, cs) else if c = CHR ''+'' then (False, cs) else (False, s)
            | [] \<Rightarrow> (False, s))
      in if 4300 < length (filter (\<lambda>c. c \<noteq> CHR ''_'') digits) then None
         else map_option (\<lambda>n. if negative then - n else n) (parse_digits 10 0 False digits))"

definition has_hex_prefix :: "string \<Rightarrow> bool" where
  "has_hex_prefix text \<longleftrightarrow>
     take 1 text = ''0'' \<and> (take 1 (drop 1 text) = ''x'' \<or> take 1 (drop 1 text) = ''X'')"

definition parse_hex :: "string \<Rightarrow> int option" where
  "parse_hex text =
     (let digits = drop 2 (py_strip text)
      in parse_digits 16 0 False (case digits of c # cs \<Rightarrow> if c = CHR ''_'' then cs else digits | [] \<Rightarrow> digits))"

text \<open>\<^verbatim>\<open>f"0x{opcode:04X}"\<close> for an opcode that is not negative.\<close>

definition upper_digit :: "nat \<Rightarrow> char" where
  "upper_digit n = ''0123456789ABCDEF'' ! n"

fun upper_hex :: "nat \<Rightarrow> string" where
  "upper_hex n = (if n < 16 then [upper_digit n] else upper_hex (n div 16) @ [upper_digit (n mod 16)])"

declare upper_hex.simps [simp del]

definition format_opcode :: "int \<Rightarrow> string" where
  "format_opcode opcode =
     (let s = upper_hex (nat opcode) in ''0x'' @ replicate (4 - length s) CHR ''0'' @ s)"

text \<open>The opcode grammar all loaders share: a uint16, or a text that denotes one.\<close>

definition opcode_value :: "json \<Rightarrow> int option" where
  "opcode_value v =
     (case (case v of
              JInt i \<Rightarrow> Some i
            | JStr s \<Rightarrow> if has_hex_prefix s then parse_hex s else parse_decimal s
            | _ \<Rightarrow> None) of
        None \<Rightarrow> None
      | Some opcode \<Rightarrow> if 0 \<le> opcode \<and> opcode \<le> 0xFFFF then Some opcode else None)"

lemma opcode_value_range: "opcode_value v = Some n \<Longrightarrow> 0 \<le> n \<and> n \<le> 0xFFFF"
  by (simp add: opcode_value_def split: option.splits if_splits)

lemma upper_digit_value:
  assumes "n < 16"
  shows "digit_value (upper_digit n) = Some (int n)" "upper_digit n \<noteq> CHR ''_''" "\<not> py_space (upper_digit n)"
proof -
  have "n \<in> set [0..<16]"
    using assms by simp
  moreover have "list_all (\<lambda>n. digit_value (upper_digit n) = Some (int n) \<and> upper_digit n \<noteq> CHR ''_'' \<and>
      \<not> py_space (upper_digit n)) [0..<16]"
    by code_simp
  ultimately show "digit_value (upper_digit n) = Some (int n)" "upper_digit n \<noteq> CHR ''_''"
    "\<not> py_space (upper_digit n)"
    by (simp_all add: list_all_iff)
qed

lemma upper_hex_nonempty: "upper_hex n \<noteq> []"
  by (subst upper_hex.simps) simp

lemma upper_hex_no_space: "c \<in> set (upper_hex n) \<Longrightarrow> \<not> py_space c \<and> c \<noteq> CHR ''_''"
proof (induction n rule: upper_hex.induct)
  case (1 n)
  then show ?case
    using upper_digit_value by (auto simp: upper_hex.simps [of n] split: if_splits)
qed

lemma parse_upper_hex:
  "parse_digits 16 acc d (upper_hex n @ rest) =
     parse_digits 16 (acc * 16 ^ length (upper_hex n) + int n) True rest"
proof (induction n arbitrary: acc d rest rule: upper_hex.induct)
  case (1 n)
  show ?case
  proof (cases "n < 16")
    case True
    then show ?thesis
      using upper_digit_value [of n] by (simp add: upper_hex.simps [of n] algebra_simps)
  next
    case False
    have "n mod 16 < 16"
      by simp
    note digit = upper_digit_value [OF this]
    have hex: "upper_hex n = upper_hex (n div 16) @ [upper_digit (n mod 16)]"
      using False by (simp add: upper_hex.simps [of n])
    have "16 * int (n div 16) + int (n mod 16) = int n"
      using mult_div_mod_eq [of 16 n] by (metis of_nat_add of_nat_mult of_nat_numeral)
    then have acc: "16 * (acc * 16 ^ length (upper_hex (n div 16)) + int (n div 16)) + int (n mod 16) =
        acc * 16 ^ length (upper_hex n) + int n"
      unfolding hex by simp
    have "parse_digits 16 acc d (upper_hex n @ rest) =
        parse_digits 16 acc d (upper_hex (n div 16) @ upper_digit (n mod 16) # rest)"
      by (simp add: hex)
    also have "\<dots> = parse_digits 16
        (16 * (acc * 16 ^ length (upper_hex (n div 16)) + int (n div 16)) + int (n mod 16)) True rest"
      unfolding "1.IH" [OF False] using digit by simp
    finally show ?thesis
      by (simp only: acc)
  qed
qed

lemma parse_zeros:
  "parse_digits 16 0 d (replicate k CHR ''0'' @ cs) = parse_digits 16 0 (if k = 0 then d else True) cs"
proof (induction k arbitrary: d)
  case (Suc k)
  have "digit_value CHR ''0'' = Some 0"
    by code_simp
  then show ?case
    using Suc.IH [of True] by simp
qed simp

lemma py_strip_id:
  assumes "s \<noteq> []" and "\<not> py_space (hd s)" and "\<not> py_space (last s)"
  shows "py_strip s = s"
proof -
  have "dropWhile py_space s = s" if "s \<noteq> []" "\<not> py_space (hd s)" for s
    using that by (cases s) simp_all
  from this [of s] this [of "rev s"] have "dropWhile py_space s = s" "dropWhile py_space (rev s) = rev s"
    using assms by (simp_all add: hd_rev)
  then show ?thesis
    by (simp add: py_strip_def)
qed

lemma parse_format_opcode:
  assumes "0 \<le> n" and "n \<le> 0xFFFF"
  shows "opcode_value (JStr (format_opcode n)) = Some n"
proof -
  let ?s = "upper_hex (nat n)"
  let ?digits = "replicate (4 - length ?s) CHR ''0'' @ ?s"
  have shape: "format_opcode n = CHR ''0'' # CHR ''x'' # ?digits"
    by (simp add: format_opcode_def Let_def)
  have "last (format_opcode n) \<in> set ?s"
    using upper_hex_nonempty [of "nat n"] by (simp add: shape)
  moreover have "\<not> py_space CHR ''0''"
    by code_simp
  ultimately have strip: "py_strip (format_opcode n) = format_opcode n"
    using upper_hex_no_space by (intro py_strip_id) (auto simp: shape)
  obtain c cs where d: "?digits = c # cs" and c: "c \<noteq> CHR ''_''"
  proof (cases ?digits)
    case Nil
    then show ?thesis
      using upper_hex_nonempty by simp
  next
    case (Cons c cs)
    then have "c \<in> set ?digits"
      by (metis list.set_intros(1))
    then have "c \<noteq> CHR ''_''"
      using upper_hex_no_space by auto
    with Cons show ?thesis
      by (rule that)
  qed
  have "parse_hex (format_opcode n) = parse_digits 16 0 False ?digits"
    using c unfolding parse_hex_def strip Let_def unfolding shape by (simp add: d)
  also have "\<dots> = Some n"
    using assms parse_upper_hex [of 0 "if 4 - length ?s = 0 then False else True" "nat n" "[]"]
    by (simp only: parse_zeros) simp
  finally show ?thesis
    using assms by (simp add: opcode_value_def has_hex_prefix_def shape)
qed

section \<open>Dates as text\<close>

definition days_in_month :: "int \<Rightarrow> int \<Rightarrow> int" where
  "days_in_month year month =
     (if month = 2
      then (if year mod 4 = 0 \<and> (year mod 100 \<noteq> 0 \<or> year mod 400 = 0) then 29 else 28)
      else if month \<in> set [4, 6, 9, 11] then 30 else 31)"

definition decimal_digits :: "string \<Rightarrow> int option" where
  "decimal_digits s = (if CHR ''_'' \<in> set s then None else parse_digits 10 0 False s)"

text \<open>
  \<^verbatim>\<open>date.fromisoformat(s).isoformat() == s\<close>: the other formats
  \<^verbatim>\<open>fromisoformat\<close> accepts do not print back as themselves.
\<close>

definition iso_date :: "string \<Rightarrow> bool" where
  "iso_date s \<longleftrightarrow> length s = 10 \<and> s ! 4 = CHR ''-'' \<and> s ! 7 = CHR ''-'' \<and>
     (case (decimal_digits (take 4 s), decimal_digits (take 2 (drop 5 s)), decimal_digits (drop 8 s)) of
        (Some year, Some month, Some day) \<Rightarrow>
          1 \<le> year \<and> 1 \<le> month \<and> month \<le> 12 \<and> 1 \<le> day \<and> day \<le> days_in_month year month
      | _ \<Rightarrow> False)"

end
