(* ===== verification/Character_Profile.thy ===== *)
theory Character_Profile
  imports Json_Values
begin

text \<open>
  \<^verbatim>\<open>src/bdo_toolkit/_item_state/character_profile.py\<close>: the geometry of the character
  tables, its validation and its JSON form. Reading and writing the sidecar file is I/O and
  not modelled. A table's fields and a profile's tables keep the order of their objects.
\<close>

datatype character_error =
    InvalidTableGeometry
  | TableGeometryRange
  | CountedOrFixed
  | InvalidCountOffset
  | InvalidFixedSize
  | InvalidFieldOffset
  | MissingTables
  | UnknownOrDuplicateFamily
  | InvalidFields string
  | InvalidSpan string string
  | IncompleteLightstone
  | IncorrectTableKind
  | PortraitNotSingle
  | IncompatibleWrapper
  | UnsupportedProfile
  | InvalidProfile

text \<open>The required fields of a family with their widths, and its optional ones.\<close>

definition FIELDS :: "(string, (string \<times> int) list \<times> (string \<times> int) list) dict" where
  "FIELDS =
     [(''roster'', ([(''owner'', 8)], [(''metadata'', 2)])),
      (''remote'', ([(''owner'', 8), (''container'', 1), (''slot'', 1), (''item'', 4), (''quantity'', 8)],
                    [(''stone1'', 4), (''stone2'', 4)])),
      (''stats'', ([(''owner'', 8), (''dp'', 4), (''ap'', 4), (''aap'', 4)], [])),
      (''named'', ([(''owner'', 8), (''name'', 60)], [])),
      (''portrait'', ([(''owner'', 8)], [(''name'', 60)])),
      (''active'', ([(''item'', 4), (''quantity'', 8)], [(''stone1'', 4), (''stone2'', 4)])),
      (''life'', ([(''item'', 4), (''quantity'', 8), (''slot'', 1)], [(''stone1'', 4), (''stone2'', 4)]))]"

record character_table =
  ct_opcode :: int
  ct_header :: int
  ct_stride :: int
  ct_count_offset :: "int option"
  ct_fixed_count :: "int option"
  ct_fields :: "(string, int) dict"

section \<open>Tables\<close>

definition field_offsets :: "int \<Rightarrow> jobject \<Rightarrow> (string, int) dict option" where
  "field_offsets stride d =
     (if list_all (\<lambda>(_, v). int_in 0 (stride - 1) v) d
      then Some (map (\<lambda>(k, v). (k, the (as_int v))) d) else None)"

text \<open>
  \<^verbatim>\<open>CharacterTable(opcode, header, stride, count_offset, fixed_count, fields)\<close> on
  whatever JSON values the file holds.
\<close>

definition character_table_init ::
    "json \<Rightarrow> json \<Rightarrow> json \<Rightarrow> json \<Rightarrow> json \<Rightarrow> json \<Rightarrow> character_error + character_table" where
  "character_table_init opcode header stride count_offset fixed_count field_list =
     (case (as_int opcode, as_int header, as_int stride) of
        (Some op, Some h, Some w) \<Rightarrow>
          check (0 \<le> op \<and> op \<le> 65535 \<and> 0 \<le> h \<and> h \<le> 65535 \<and> 1 \<le> w \<and> w \<le> 65535) TableGeometryRange (
          check ((count_offset = JNull) \<noteq> (fixed_count = JNull)) CountedOrFixed (
          check (count_offset = JNull \<or> int_in 0 (h - 2) count_offset) InvalidCountOffset (
          check (case fixed_count of
                   JNull \<Rightarrow> True | JInt n \<Rightarrow> \<not> (n < 1 \<or> h + w * n > 65535) | _ \<Rightarrow> False) InvalidFixedSize (
          case field_list of
            JObj d \<Rightarrow>
              (case field_offsets w d of
                 None \<Rightarrow> Inl InvalidFieldOffset
               | Some offsets \<Rightarrow>
                   Inr \<lparr>ct_opcode = op, ct_header = h, ct_stride = w, ct_count_offset = as_int count_offset,
                        ct_fixed_count = as_int fixed_count, ct_fields = offsets\<rparr>)
          | _ \<Rightarrow> Inl InvalidFieldOffset))))
      | _ \<Rightarrow> Inl InvalidTableGeometry)"

definition TABLE_KEYS :: "string list" where
  "TABLE_KEYS = [''opcode'', ''header'', ''stride'', ''count_offset'', ''fixed_count'', ''fields'']"

text \<open>\<^verbatim>\<open>CharacterTable(**v)\<close>: other keywords, or a value that is no mapping, raise \<^verbatim>\<open>TypeError\<close>.\<close>

definition character_table_of :: "json \<Rightarrow> character_error + character_table" where
  "character_table_of v =
     (case v of
        JObj d \<Rightarrow>
          check (keys_of d = set TABLE_KEYS) InvalidProfile (
          character_table_init (jget d ''opcode'') (jget d ''header'') (jget d ''stride'')
            (jget d ''count_offset'') (jget d ''fixed_count'') (jget d ''fields''))
      | _ \<Rightarrow> Inl InvalidProfile)"

text \<open>The rows of a message, each a slice of \<open>stride\<close> bytes.\<close>

definition table_rows :: "character_table \<Rightarrow> bytes \<Rightarrow> character_error + bytes list" where
  "table_rows t message =
     (let n = (case ct_count_offset t of
                 None \<Rightarrow> ct_fixed_count t
               | Some count_offset \<Rightarrow> Some (from_le (py_slice message count_offset (count_offset + 2))))
      in case n of
           None \<Rightarrow> Inl IncompatibleWrapper
         | Some n \<Rightarrow>
             check (int (length message) = ct_header t + n * ct_stride t) IncompatibleWrapper (
             Inr (map (\<lambda>i. py_slice message (ct_header t + int i * ct_stride t)
                             (ct_header t + int i * ct_stride t + ct_stride t)) [0..<nat n])))"

definition character_table_to_dict :: "character_table \<Rightarrow> json" where
  "character_table_to_dict t =
     JObj [(''opcode'', JInt (ct_opcode t)), (''header'', JInt (ct_header t)), (''stride'', JInt (ct_stride t)),
           (''count_offset'', json_of_opt JInt (ct_count_offset t)),
           (''fixed_count'', json_of_opt JInt (ct_fixed_count t)),
           (''fields'', JObj (map (\<lambda>(k, x). (k, JInt x)) (ct_fields t)))]"

section \<open>Profiles\<close>

type_synonym character_layout_profile = "(string, character_table) dict"

text \<open>The loop over the fields of one table, with the byte positions \<open>used\<close> so far.\<close>

fun check_spans ::
    "string \<Rightarrow> (string \<times> int) list \<Rightarrow> int \<Rightarrow> (string, int) dict \<Rightarrow> int set \<Rightarrow> character_error + unit" where
  "check_spans family widths stride [] used = Inr ()"
| "check_spans family widths stride ((field, pos) # field_list) used =
     (let width = the (map_of widths field); span = set [pos .. pos + width - 1] in
      if pos + width > stride \<or> span \<inter> used \<noteq> {} then Inl (InvalidSpan family field)
      else check_spans family widths stride field_list (used \<union> span))"

definition check_family :: "string \<Rightarrow> character_table \<Rightarrow> character_error + unit" where
  "check_family family t =
     (case map_of FIELDS family of
        None \<Rightarrow> Inl UnknownOrDuplicateFamily
      | Some (required, optional) \<Rightarrow>
          let widths = required @ optional; field_list = map fst (ct_fields t) in
          check (set (map fst required) \<subseteq> set field_list \<and> set field_list \<subseteq> set (map fst widths)) (InvalidFields family) (
          bind_r (check_spans family widths (ct_stride t) (ct_fields t) {}) (\<lambda>_.
          check ((''stone1'' \<in> set field_list) = (''stone2'' \<in> set field_list)) IncompleteLightstone (
          check ((family \<in> set [''active'', ''portrait'']) = (ct_fixed_count t \<noteq> None)) IncorrectTableKind (
          check (family \<noteq> ''portrait'' \<or> ct_fixed_count t = Some 1) PortraitNotSingle (Inr ()))))))"

fun check_tables :: "character_layout_profile \<Rightarrow> int set \<Rightarrow> character_error + unit" where
  "check_tables [] opcodes = Inr ()"
| "check_tables ((family, t) # tables) opcodes =
     (if map_of FIELDS family = None \<or> ct_opcode t \<in> opcodes then Inl UnknownOrDuplicateFamily
      else bind_r (check_family family t) (\<lambda>_. check_tables tables (insert (ct_opcode t) opcodes)))"

definition character_layout_profile_init ::
    "character_layout_profile \<Rightarrow> character_error + character_layout_profile" where
  "character_layout_profile_init tables =
     check ({''remote'', ''roster''} \<subseteq> set (map fst tables)) MissingTables (
     bind_r (check_tables tables {}) (\<lambda>_. Inr tables))"

definition character_profile_to_dict :: "character_layout_profile \<Rightarrow> json" where
  "character_profile_to_dict tables =
     JObj [(''schema_version'', JInt 1),
           (''tables'', JObj (map (\<lambda>(k, t). (k, character_table_to_dict t)) tables))]"

definition character_profile_from_dict :: "json \<Rightarrow> character_error + character_layout_profile" where
  "character_profile_from_dict data =
     (case data of
        JObj d \<Rightarrow>
          check (keys_of d = {''schema_version'', ''tables''} \<and> jget d ''schema_version'' = JInt 1)
            UnsupportedProfile (
          case jget d ''tables'' of
            JObj tables \<Rightarrow>
              bind_r (map_r (\<lambda>(k, v). bind_r (character_table_of v) (\<lambda>t. Inr (k, t))) tables)
                character_layout_profile_init
          | _ \<Rightarrow> Inl UnsupportedProfile)
      | _ \<Rightarrow> Inl UnsupportedProfile)"

definition NOVEMBER :: character_layout_profile where
  "NOVEMBER =
     [(''roster'', \<lparr>ct_opcode = 0x160C, ct_header = 7, ct_stride = 10, ct_count_offset = Some 5,
        ct_fixed_count = None, ct_fields = [(''owner'', 2), (''metadata'', 0)]\<rparr>),
      (''remote'', \<lparr>ct_opcode = 0x1543, ct_header = 14, ct_stride = 73, ct_count_offset = Some 8,
        ct_fixed_count = None,
        ct_fields = [(''owner'', 64), (''container'', 72), (''slot'', 42), (''item'', 60), (''quantity'', 4),
          (''stone1'', 26), (''stone2'', 30)]\<rparr>),
      (''stats'', \<lparr>ct_opcode = 0x134C, ct_header = 10, ct_stride = 24, ct_count_offset = Some 8,
        ct_fixed_count = None, ct_fields = [(''owner'', 0), (''dp'', 12), (''ap'', 16), (''aap'', 20)]\<rparr>),
      (''named'', \<lparr>ct_opcode = 0x15EC, ct_header = 7, ct_stride = 269, ct_count_offset = Some 5,
        ct_fixed_count = None, ct_fields = [(''owner'', 21), (''name'', 113)]\<rparr>),
      (''portrait'', \<lparr>ct_opcode = 0xD36, ct_header = 0, ct_stride = 8073, ct_count_offset = None,
        ct_fixed_count = Some 1, ct_fields = [(''owner'', 2983), (''name'', 7007)]\<rparr>),
      (''active'', \<lparr>ct_opcode = 0xEA0, ct_header = 13, ct_stride = 221, ct_count_offset = None,
        ct_fixed_count = Some 46,
        ct_fields = [(''item'', 0), (''quantity'', 4), (''stone1'', 168), (''stone2'', 172)]\<rparr>),
      (''life'', \<lparr>ct_opcode = 0xE9E, ct_header = 10, ct_stride = 223, ct_count_offset = Some 5,
        ct_fixed_count = None,
        ct_fields = [(''item'', 0), (''quantity'', 4), (''slot'', 221), (''stone1'', 168), (''stone2'', 172)]\<rparr>)]"

end
