(* ===== verification/Opcode_Profile.thy ===== *)
theory Opcode_Profile
  imports Character_Profile
begin

text \<open>
  \<^verbatim>\<open>src/bdo_toolkit/profiles.py\<close>: the validation of an opcode profile and its JSON
  form. Finding and reading the file is I/O; the model starts from the parsed document, as
  \<^verbatim>\<open>_opcode_profile_from_data\<close> does. Each \<^verbatim>\<open>raise ProfileError\<close> is a
  constructor of \<open>profile_error\<close>, in the order of the checks.
\<close>

datatype profile_error =
    NotAnObject
  | ActiveNotBool
  | BadVersion
  | BadUpdatedAt
  | BadCalibrationItem
  | SpecsNotObject
  | EntriesNotList string
  | EntryNotObject string
  | EventMismatch string
  | EntryOpcode string
  | EntryLength string
  | EntryOffset string string
  | ContextNotBeforeItem
  | CountNotBeforeItem
  | EntryStride string
  | EntryText string string
  | EntryScore string
  | FamiliesNotList
  | FamilyNotObject
  | FamilyOpcodes
  | FamilyLengths
  | FamilyDetection
  | FamilyObservations
  | FamilyPromotedAt
  | LayoutOpcode string
  | XpField string
  | XpEncoding
  | XpFieldsOverlap
  | XpKeys
  | AgrisField string
  | AgrisEncoding
  | AgrisOutside
  | AgrisOverlap
  | AgrisDate
  | AgrisNotObject
  | AgrisKeys

section \<open>Frozen values\<close>

fun freeze_profile_value :: "json \<Rightarrow> json" where
  "freeze_profile_value (JObj d) = JObj (map (\<lambda>(k, v). (k, freeze_profile_value v)) d)"
| "freeze_profile_value (JList vs) = JTuple (map freeze_profile_value vs)"
| "freeze_profile_value (JTuple vs) = JTuple (map freeze_profile_value vs)"
| "freeze_profile_value v = v"

fun thaw_profile_value :: "json \<Rightarrow> json" where
  "thaw_profile_value (JObj d) = JObj (map (\<lambda>(k, v). (k, thaw_profile_value v)) d)"
| "thaw_profile_value (JTuple vs) = JList (map thaw_profile_value vs)"
| "thaw_profile_value v = v"

definition freeze_profile_mapping :: "jobject \<Rightarrow> jobject" where
  "freeze_profile_mapping d = map (\<lambda>(k, v). (k, freeze_profile_value v)) d"

section \<open>Opcodes\<close>

definition profile_opcode :: "json \<Rightarrow> profile_error \<Rightarrow> profile_error + int" where
  "profile_opcode v location =
     (case opcode_value v of None \<Rightarrow> Inl location | Some opcode \<Rightarrow> Inr opcode)"

section \<open>The XP layout\<close>

record xp_layout =
  xp_opcode :: int
  xp_message_length :: int
  xp_level_offset :: int
  xp_current_offset :: int
  xp_required_offset :: int
  xp_flag :: int
  xp_encoding :: string

text \<open>The loop over the integer fields: the name of the first one that is not in its range.\<close>

fun bad_field :: "(string \<times> int \<times> int \<times> json) list \<Rightarrow> string option" where
  "bad_field [] = None"
| "bad_field ((name, low, high, v) # field_list) =
     (if int_in low high v then bad_field field_list else Some name)"

text \<open>The loop over the fields' bytes: each inside the message and on positions of its own.\<close>

fun spans_disjoint :: "int \<Rightarrow> (int \<times> int) list \<Rightarrow> int set \<Rightarrow> bool" where
  "spans_disjoint message_length [] occupied = True"
| "spans_disjoint message_length ((offset, width) # spans) occupied =
     (let positions = set [offset .. offset + width - 1] in
      if offset + width > message_length \<or> occupied \<inter> positions \<noteq> {} then False
      else spans_disjoint message_length spans (occupied \<union> positions))"

definition XP_ENCODING :: string where
  "XP_ENCODING = ''level-u8-xp-u64le-solo-v1''"

definition xp_layout_init ::
    "json \<Rightarrow> json \<Rightarrow> json \<Rightarrow> json \<Rightarrow> json \<Rightarrow> json \<Rightarrow> json \<Rightarrow> profile_error + xp_layout" where
  "xp_layout_init opcode message_length level current required flag encoding =
     (case bad_field [(''opcode'', 0, 65535, opcode), (''message_length'', 22, 4096, message_length),
                      (''level_offset'', 5, 4095, level), (''current_offset'', 5, 4088, current),
                      (''required_offset'', 5, 4088, required), (''flag'', 0, 0, flag)] of
        Some name \<Rightarrow> Inl (XpField name)
      | None \<Rightarrow>
          check (encoding = JStr XP_ENCODING) XpEncoding (
          let n = the (as_int message_length); l = the (as_int level);
              c = the (as_int current); r = the (as_int required)
          in check (spans_disjoint n [(l, 1), (c, 8), (r, 8)] {}) XpFieldsOverlap (
             Inr \<lparr>xp_opcode = the (as_int opcode), xp_message_length = n, xp_level_offset = l,
                  xp_current_offset = c, xp_required_offset = r, xp_flag = the (as_int flag),
                  xp_encoding = XP_ENCODING\<rparr>)))"

text \<open>\<^verbatim>\<open>layout.__post_init__()\<close> on a layout that exists already.\<close>

definition xp_post_init :: "xp_layout \<Rightarrow> profile_error + xp_layout" where
  "xp_post_init l =
     xp_layout_init (JInt (xp_opcode l)) (JInt (xp_message_length l)) (JInt (xp_level_offset l))
       (JInt (xp_current_offset l)) (JInt (xp_required_offset l)) (JInt (xp_flag l)) (JStr (xp_encoding l))"

definition XP_KEYS :: "string list" where
  "XP_KEYS = [''opcode'', ''message_length'', ''level_offset'', ''current_offset'', ''required_offset'',
     ''flag'', ''encoding'']"

definition xp_to_dict :: "xp_layout \<Rightarrow> json" where
  "xp_to_dict l =
     JObj [(''opcode'', JStr (format_opcode (xp_opcode l))), (''message_length'', JInt (xp_message_length l)),
           (''level_offset'', JInt (xp_level_offset l)), (''current_offset'', JInt (xp_current_offset l)),
           (''required_offset'', JInt (xp_required_offset l)), (''flag'', JInt (xp_flag l)),
           (''encoding'', JStr (xp_encoding l))]"

definition xp_layout_of :: "json \<Rightarrow> profile_error + xp_layout option" where
  "xp_layout_of v =
     (case v of
        JNull \<Rightarrow> Inr None
      | JObj d \<Rightarrow>
          check (keys_of d = set XP_KEYS) XpKeys (
          bind_r (profile_opcode (jget d ''opcode'') (LayoutOpcode ''xp'')) (\<lambda>opcode.
          bind_r (xp_layout_init (JInt opcode) (jget d ''message_length'') (jget d ''level_offset'')
              (jget d ''current_offset'') (jget d ''required_offset'') (jget d ''flag'') (jget d ''encoding''))
            (\<lambda>l. Inr (Some l))))
      | _ \<Rightarrow> Inl XpKeys)"

section \<open>The Agris layout\<close>

record agris_layout =
  ag_opcode :: int
  ag_message_length :: int
  ag_remaining_offset :: int
  ag_maximum_offset :: int
  ag_flag :: int
  ag_encoding :: string
  ag_observed_date :: "string option"

definition agris_layout_init ::
    "json \<Rightarrow> json \<Rightarrow> json \<Rightarrow> json \<Rightarrow> json \<Rightarrow> json \<Rightarrow> json \<Rightarrow> profile_error + agris_layout" where
  "agris_layout_init opcode message_length remaining maximum flag encoding observed_date =
     (case bad_field [(''opcode'', 0, 65535, opcode), (''message_length'', 13, 65535, message_length),
                      (''remaining_offset'', 5, 65531, remaining), (''maximum_offset'', 5, 65531, maximum),
                      (''flag'', 0, 0, flag)] of
        Some name \<Rightarrow> Inl (AgrisField name)
      | None \<Rightarrow>
          check (encoding = JStr ''uint32_le'') AgrisEncoding (
          let n = the (as_int message_length); r = the (as_int remaining); m = the (as_int maximum)
          in check (\<not> max r m + 4 > n) AgrisOutside (
             check (\<not> \<bar>r - m\<bar> < 4) AgrisOverlap (
             check (case observed_date of JNull \<Rightarrow> True | JStr s \<Rightarrow> iso_date s | _ \<Rightarrow> False) AgrisDate (
             Inr \<lparr>ag_opcode = the (as_int opcode), ag_message_length = n, ag_remaining_offset = r,
                  ag_maximum_offset = m, ag_flag = the (as_int flag), ag_encoding = ''uint32_le'',
                  ag_observed_date = opt_str observed_date\<rparr>)))))"

definition agris_post_init :: "agris_layout \<Rightarrow> profile_error + agris_layout" where
  "agris_post_init l =
     agris_layout_init (JInt (ag_opcode l)) (JInt (ag_message_length l)) (JInt (ag_remaining_offset l))
       (JInt (ag_maximum_offset l)) (JInt (ag_flag l)) (JStr (ag_encoding l))
       (json_of_opt JStr (ag_observed_date l))"

definition AGRIS_KEYS :: "string list" where
  "AGRIS_KEYS = [''opcode'', ''message_length'', ''remaining_offset'', ''maximum_offset'', ''flag'', ''encoding'']"

definition agris_to_dict :: "agris_layout \<Rightarrow> json" where
  "agris_to_dict l =
     JObj [(''opcode'', JStr (format_opcode (ag_opcode l))), (''message_length'', JInt (ag_message_length l)),
           (''remaining_offset'', JInt (ag_remaining_offset l)), (''maximum_offset'', JInt (ag_maximum_offset l)),
           (''flag'', JInt (ag_flag l)), (''encoding'', JStr (ag_encoding l)),
           (''observed_date'', json_of_opt JStr (ag_observed_date l))]"

definition agris_layout_of :: "json \<Rightarrow> profile_error + agris_layout option" where
  "agris_layout_of v =
     (case v of
        JNull \<Rightarrow> Inr None
      | JObj d \<Rightarrow>
          check (set AGRIS_KEYS \<subseteq> keys_of d \<and> keys_of d - set AGRIS_KEYS \<subseteq> {''observed_date''}) AgrisKeys (
          bind_r (profile_opcode (jget d ''opcode'') (LayoutOpcode ''agris'')) (\<lambda>opcode.
          bind_r (agris_layout_init (JInt opcode) (jget d ''message_length'') (jget d ''remaining_offset'')
              (jget d ''maximum_offset'') (jget d ''flag'') (jget d ''encoding'') (jget d ''observed_date''))
            (\<lambda>l. Inr (Some l))))
      | _ \<Rightarrow> Inl AgrisNotObject)"

section \<open>Origin companion families\<close>

record companion_family =
  cf_delta_opcode :: int
  cf_companion_opcodes :: "int \<times> int"
  cf_companion_lengths :: "int \<times> int"
  cf_detection :: string
  cf_observations :: int
  cf_promoted_at :: "string option"

definition family_key :: "companion_family \<Rightarrow> int \<times> int \<times> int \<times> int \<times> int" where
  "family_key f =
     (cf_delta_opcode f, fst (cf_companion_opcodes f), snd (cf_companion_opcodes f),
      fst (cf_companion_lengths f), snd (cf_companion_lengths f))"

definition family_to_dict :: "companion_family \<Rightarrow> json" where
  "family_to_dict f =
     JObj [(''delta_opcode'', JStr (format_opcode (cf_delta_opcode f))),
           (''companion_opcodes'', JList [JStr (format_opcode (fst (cf_companion_opcodes f))),
                                          JStr (format_opcode (snd (cf_companion_opcodes f)))]),
           (''companion_lengths'', JList [JInt (fst (cf_companion_lengths f)), JInt (snd (cf_companion_lengths f))]),
           (''detection'', JStr (cf_detection f)), (''observations'', JInt (cf_observations f)),
           (''promoted_at'', json_of_opt JStr (cf_promoted_at f))]"

definition DETECTION :: string where
  "DETECTION = ''shared-token-chain-v1''"

definition positive_int :: "json \<Rightarrow> bool" where
  "positive_int v \<longleftrightarrow> (case as_int v of None \<Rightarrow> False | Some i \<Rightarrow> 0 < i)"

definition null_or_str :: "json \<Rightarrow> bool" where
  "null_or_str v \<longleftrightarrow> v = JNull \<or> is_str v"

fun two_values :: "json \<Rightarrow> (json \<times> json) option" where
  "two_values (JList [a, b]) = Some (a, b)"
| "two_values _ = None"

definition origin_companion_family :: "json \<Rightarrow> profile_error + companion_family" where
  "origin_companion_family v =
     (case v of
        JObj d \<Rightarrow>
          (case two_values (jget d ''companion_opcodes'') of
             None \<Rightarrow> Inl FamilyOpcodes
           | Some (opcode_a, opcode_b) \<Rightarrow>
               (case two_values (jget d ''companion_lengths'') of
                  None \<Rightarrow> Inl FamilyLengths
                | Some (length_a, length_b) \<Rightarrow>
                    check (int_in 5 0xFFFF length_a \<and> int_in 5 0xFFFF length_b) FamilyLengths (
                    check (jget d ''detection'' = JStr DETECTION) FamilyDetection (
                    check (positive_int (jget d ''observations'')) FamilyObservations (
                    check (null_or_str (jget d ''promoted_at'')) FamilyPromotedAt (
                    bind_r (profile_opcode (jget d ''delta_opcode'') FamilyOpcodes) (\<lambda>delta.
                    bind_r (profile_opcode opcode_a FamilyOpcodes) (\<lambda>a.
                    bind_r (profile_opcode opcode_b FamilyOpcodes) (\<lambda>b.
                    Inr \<lparr>cf_delta_opcode = delta, cf_companion_opcodes = (a, b),
                         cf_companion_lengths = (the (as_int length_a), the (as_int length_b)),
                         cf_detection = DETECTION, cf_observations = the (as_int (jget d ''observations'')),
                         cf_promoted_at = opt_str (jget d ''promoted_at'')\<rparr>)))))))))
      | _ \<Rightarrow> Inl FamilyNotObject)"

section \<open>Entries\<close>

definition OFFSET_FIELDS :: "string list" where
  "OFFSET_FIELDS =
     [''item_id_offset'', ''quantity_offset'', ''item_instance_offset'', ''context_offset'',
      ''record_count_offset'', ''inventory_slot_offset'', ''source_instance_offset'',
      ''quantity_removed_offset'', ''quantity_added_offset'', ''destination_instance_offset'']"

definition TEXT_FIELDS :: "string list" where
  "TEXT_FIELDS = [''confidence'', ''source'', ''observed_at'']"

definition offset_ok :: "json \<Rightarrow> bool" where
  "offset_ok v \<longleftrightarrow> v = JNull \<or> (case as_int v of None \<Rightarrow> False | Some i \<Rightarrow> 0 \<le> i)"

definition score_ok :: "json \<Rightarrow> bool" where
  "score_ok v \<longleftrightarrow>
     (case v of
        JNull \<Rightarrow> True
      | JInt i \<Rightarrow> 0 \<le> i \<and> i \<le> 1
      | JFloat x \<Rightarrow> isfinite x \<and> Finite 0 \<le> x \<and> x \<le> Finite 1
      | _ \<Rightarrow> False)"

text \<open>
  The geometry a storage entry must have: \<open>offset + width > item_offset\<close> is refused for an
  offset that is present.
\<close>

definition ends_before :: "json \<Rightarrow> int \<Rightarrow> json \<Rightarrow> bool" where
  "ends_before offset width item_offset \<longleftrightarrow>
     (case (as_int item_offset, as_int offset) of
        (Some item, Some start) \<Rightarrow> \<not> start + width > item
      | _ \<Rightarrow> True)"

definition validate_profile_entry :: "string \<Rightarrow> jobject \<Rightarrow> profile_error + unit" where
  "validate_profile_entry event entry =
     check (jget entry ''event'' = JNull \<or> jget entry ''event'' = JStr event) (EventMismatch event) (
     check (opcode_value (jget entry ''opcode'') \<noteq> None) (EntryOpcode event) (
     check (jget entry ''length'' = JNull \<or> int_in 5 0xFFFF (jget entry ''length'')) (EntryLength event) (
     case find (\<lambda>name. \<not> offset_ok (jget entry name)) OFFSET_FIELDS of
       Some name \<Rightarrow> Inl (EntryOffset event name)
     | None \<Rightarrow>
         check (event \<noteq> ''STORAGE_ITEM_DELTA'' \<or>
                ends_before (jget entry ''context_offset'') 4 (jget entry ''item_id_offset''))
           ContextNotBeforeItem (
         check (event \<noteq> ''STORAGE_ITEM_DELTA'' \<or>
                ends_before (jget entry ''record_count_offset'') 2 (jget entry ''item_id_offset''))
           CountNotBeforeItem (
         check (jget entry ''repeat_stride'' = JNull \<or> positive_int (jget entry ''repeat_stride''))
           (EntryStride event) (
         case find (\<lambda>name. \<not> null_or_str (jget entry name)) TEXT_FIELDS of
           Some name \<Rightarrow> Inl (EntryText event name)
         | None \<Rightarrow> check (score_ok (jget entry ''score'')) (EntryScore event) (Inr ())))))))"

section \<open>Profiles\<close>

record opcode_profile =
  op_path :: string
  op_active :: bool
  op_version :: int
  op_updated_at :: "string option"
  op_calibration_item_id :: "int option"
  op_specs :: "(string, jobject list) dict"
  op_origin_companion_families :: "companion_family list"
  op_agris :: "agris_layout option"
  op_xp :: "xp_layout option"
  op_characters :: "character_layout_profile option"
  op_character_profile_error :: "character_error option"

definition OPCODE_PROFILE_SCHEMA_VERSION :: int where
  "OPCODE_PROFILE_SCHEMA_VERSION = 1"

definition check_layout :: "('a \<Rightarrow> 'e + 'a) \<Rightarrow> 'a option \<Rightarrow> 'e + unit" where
  "check_layout post_init layout =
     (case layout of None \<Rightarrow> Inr () | Some l \<Rightarrow> bind_r (post_init l) (\<lambda>_. Inr ()))"

text \<open>\<^verbatim>\<open>OpcodeProfile.__post_init__\<close>: the layouts are checked again, the specs are frozen.\<close>

definition opcode_profile_post_init :: "opcode_profile \<Rightarrow> profile_error + opcode_profile" where
  "opcode_profile_post_init p =
     bind_r (check_layout xp_post_init (op_xp p)) (\<lambda>_.
     bind_r (check_layout agris_post_init (op_agris p)) (\<lambda>_.
     Inr (p\<lparr>op_specs := map (\<lambda>(event, entries). (event, map freeze_profile_mapping entries)) (op_specs p)\<rparr>)))"

definition normalized_entries :: "string \<times> json \<Rightarrow> profile_error + string \<times> jobject list" where
  "normalized_entries item =
     (case item of
        (event, JList entries) \<Rightarrow>
          check (list_all (\<lambda>e. case e of JObj _ \<Rightarrow> True | _ \<Rightarrow> False) entries) (EntryNotObject event) (
          bind_r (map_r (\<lambda>e. case e of
                     JObj d \<Rightarrow> bind_r (validate_profile_entry event d) (\<lambda>_. Inr d)
                   | _ \<Rightarrow> Inl (EntryNotObject event)) entries)
            (\<lambda>ds. Inr (event, ds)))
      | (event, _) \<Rightarrow> Inl (EntriesNotList event))"

definition jget_default :: "jobject \<Rightarrow> string \<Rightarrow> json \<Rightarrow> json" where
  "jget_default d k v = (case map_of d k of None \<Rightarrow> v | Some x \<Rightarrow> x)"

definition specs_from_data :: "jobject \<Rightarrow> profile_error + (string, jobject list) dict" where
  "specs_from_data data =
     (case jget_default data ''specs'' (JObj []) of
        JObj specs \<Rightarrow> map_r normalized_entries specs
      | _ \<Rightarrow> Inl SpecsNotObject)"

definition families_from_data :: "jobject \<Rightarrow> profile_error + companion_family list" where
  "families_from_data data =
     (case jget_default data ''origin_companion_families'' (JList []) of
        JList families \<Rightarrow> map_r origin_companion_family families
      | _ \<Rightarrow> Inl FamiliesNotList)"

text \<open>The embedded character layout is optional: an invalid one is reported, not fatal.\<close>

definition characters_from_data ::
    "jobject \<Rightarrow> character_layout_profile option \<times> character_error option" where
  "characters_from_data data =
     (case map_of data ''characters'' of
        None \<Rightarrow> (None, None)
      | Some v \<Rightarrow>
          (case character_profile_from_dict v of
             Inl e \<Rightarrow> (None, Some e) | Inr p \<Rightarrow> (Some p, None)))"

definition opcode_profile_from_data :: "json \<Rightarrow> string \<Rightarrow> profile_error + opcode_profile" where
  "opcode_profile_from_data v path =
     (case v of
        JObj data \<Rightarrow>
          (case jget_default data ''profile_active'' (JBool False) of
             JBool active \<Rightarrow>
               check (jget data ''version'' = JInt OPCODE_PROFILE_SCHEMA_VERSION) BadVersion (
               check (null_or_str (jget data ''updated_at'')) BadUpdatedAt (
               check (jget data ''calibration_item_id'' = JNull \<or>
                      int_in 1 0xFFFFFFFF (jget data ''calibration_item_id'')) BadCalibrationItem (
               bind_r (specs_from_data data) (\<lambda>specs.
               bind_r (families_from_data data) (\<lambda>families.
               let characters = characters_from_data data in
               bind_r (agris_layout_of (jget data ''agris'')) (\<lambda>agris.
               bind_r (xp_layout_of (jget data ''xp'')) (\<lambda>xp.
               opcode_profile_post_init
                 \<lparr>op_path = path, op_active = active, op_version = OPCODE_PROFILE_SCHEMA_VERSION,
                  op_updated_at = opt_str (jget data ''updated_at''),
                  op_calibration_item_id = as_int (jget data ''calibration_item_id''),
                  op_specs = map (\<lambda>(event, entries). (event, map freeze_profile_mapping entries)) specs,
                  op_origin_companion_families = families, op_agris = agris, op_xp = xp,
                  op_characters = fst characters, op_character_profile_error = snd characters\<rparr>)))))))
           | _ \<Rightarrow> Inl ActiveNotBool)
      | _ \<Rightarrow> Inl NotAnObject)"

definition optional_member :: "string \<Rightarrow> ('a \<Rightarrow> json) \<Rightarrow> 'a option \<Rightarrow> jobject" where
  "optional_member name to_dict v = (case v of None \<Rightarrow> [] | Some x \<Rightarrow> [(name, to_dict x)])"

definition opcode_profile_to_dict :: "opcode_profile \<Rightarrow> json" where
  "opcode_profile_to_dict p =
     JObj ([(''path'', JStr (op_path p)), (''active'', JBool (op_active p)), (''version'', JInt (op_version p)),
            (''updated_at'', json_of_opt JStr (op_updated_at p)),
            (''calibration_item_id'', json_of_opt JInt (op_calibration_item_id p)),
            (''specs'', JObj (map (\<lambda>(event, entries).
               (event, JList (map (\<lambda>d. thaw_profile_value (JObj d)) entries))) (op_specs p))),
            (''origin_companion_families'', JList (map family_to_dict (op_origin_companion_families p)))]
           @ optional_member ''agris'' agris_to_dict (op_agris p)
           @ optional_member ''xp'' xp_to_dict (op_xp p)
           @ optional_member ''characters'' character_profile_to_dict (op_characters p))"

end
