(* ===== verification/Event_Specs.thy ===== *)
theory Event_Specs
  imports Opcode_Profile Protocol
begin

text \<open>
  \<^verbatim>\<open>src/bdo_toolkit/_specs.py\<close> and \<^verbatim>\<open>src/bdo_toolkit/_profile_runtime.py\<close>:
  turning the entries of a profile into the specs the scanner runs on. An entry that is not
  decodable is \<open>Inr None\<close>, as \<^verbatim>\<open>_event_spec_from_entry\<close> returns
  \<^verbatim>\<open>None\<close> for it; a \<^verbatim>\<open>ValueError\<close> is \<open>Inl\<close>.
\<close>

section \<open>Entries\<close>

datatype entry_error = NotNonNegative | InvalidSpec spec_error

definition parse_opcode :: "json \<Rightarrow> int option" where
  "parse_opcode v = opcode_value v"

definition optional_int :: "json \<Rightarrow> entry_error + int option" where
  "optional_int v =
     (case v of
        JNull \<Rightarrow> Inr None
      | JInt i \<Rightarrow> if i < 0 then Inl NotNonNegative else Inr (Some i)
      | _ \<Rightarrow> Inl NotNonNegative)"

text \<open>\<^verbatim>\<open>offset + width if offset is not None else None\<close>\<close>

definition end_of :: "int option \<Rightarrow> int \<Rightarrow> int option" where
  "end_of offset width = map_option (\<lambda>x. x + width) offset"

definition minimum_event_length :: "int option \<Rightarrow> int option list \<Rightarrow> int" where
  "minimum_event_length len ends =
     (let minimum = (case List.map_filter id ends of [] \<Rightarrow> 5 | e # es \<Rightarrow> fold max es e)
      in case len of None \<Rightarrow> minimum | Some n \<Rightarrow> if n > 0 then max minimum n else minimum)"

definition make_spec :: "event_spec \<Rightarrow> entry_error + event_spec option" where
  "make_spec spec =
     (case event_spec_post_init spec of Inl e \<Rightarrow> Inl (InvalidSpec e) | Inr s \<Rightarrow> Inr (Some s))"

text \<open>The defaults of the fields of \<^verbatim>\<open>EventSpec\<close>.\<close>

definition blank_spec :: "string \<Rightarrow> int \<Rightarrow> int \<Rightarrow> int \<Rightarrow> int \<Rightarrow> event_spec" where
  "blank_spec label opcode item_offset quantity_offset min_message_length =
     \<lparr>spec_label = label, spec_opcode = opcode, spec_item_offset = item_offset,
      spec_quantity_offset = quantity_offset, spec_min_message_length = min_message_length,
      spec_inventory_slot_offset = None, spec_source_context_offset = None, spec_source_context_length = 4,
      spec_record_count_offset = None, spec_item_instance_offset = None, spec_storage_instance_offset = None,
      spec_repeat_stride = None, spec_single_record_message_length = None, spec_default_context = None\<rparr>"

definition loot_preview_spec ::
    "jobject \<Rightarrow> int \<Rightarrow> int option \<Rightarrow> int option \<Rightarrow> int option \<Rightarrow> entry_error + event_spec option" where
  "loot_preview_spec entry opcode len item_id_offset quantity_offset =
     (case (item_id_offset, quantity_offset) of
        (Some item, Some quantity) \<Rightarrow>
          bind_r (optional_int (jget entry ''item_instance_offset'')) (\<lambda>item_instance_offset.
          make_spec ((blank_spec ''LOOT_PREVIEW'' opcode item quantity
              (minimum_event_length len
                 [Some (item + 4), Some (quantity + 4), end_of item_instance_offset 8]))
            \<lparr>spec_item_instance_offset := item_instance_offset, spec_single_record_message_length := len,
             spec_default_context := Some ''Gathering''\<rparr>))
      | _ \<Rightarrow> Inr None)"

definition inventory_transfer_spec ::
    "jobject \<Rightarrow> int \<Rightarrow> int option \<Rightarrow> int option \<Rightarrow> int option \<Rightarrow> entry_error + event_spec option" where
  "inventory_transfer_spec entry opcode len item_id_offset quantity_offset =
     (case (item_id_offset, quantity_offset) of
        (Some item, Some quantity) \<Rightarrow>
          bind_r (optional_int (jget entry ''inventory_slot_offset'')) (\<lambda>inventory_slot_offset.
          bind_r (optional_int (jget entry ''context_offset'')) (\<lambda>context_offset.
          bind_r (optional_int (jget entry ''item_instance_offset'')) (\<lambda>item_instance_offset.
          bind_r (optional_int (jget entry ''repeat_stride'')) (\<lambda>repeat_stride.
          make_spec ((blank_spec ''INVENTORY_TRANSFER'' opcode item quantity
              (minimum_event_length len
                 [Some (item + 4), Some (quantity + 4), end_of item_instance_offset 8, end_of context_offset 4,
                  end_of inventory_slot_offset 1]))
            \<lparr>spec_inventory_slot_offset := inventory_slot_offset, spec_source_context_offset := context_offset,
             spec_item_instance_offset := item_instance_offset, spec_repeat_stride := repeat_stride,
             spec_single_record_message_length := len\<rparr>)))))
      | _ \<Rightarrow> Inr None)"

definition storage_delta_spec ::
    "jobject \<Rightarrow> int \<Rightarrow> int option \<Rightarrow> int option \<Rightarrow> entry_error + event_spec option" where
  "storage_delta_spec entry opcode len item_id_offset =
     bind_r (optional_int (jget entry ''quantity_added_offset'')) (\<lambda>quantity_added_offset.
     bind_r (optional_int (jget entry ''destination_instance_offset'')) (\<lambda>destination_instance_offset.
     case (item_id_offset, quantity_added_offset) of
        (Some item, Some quantity) \<Rightarrow>
          bind_r (optional_int (jget entry ''context_offset'')) (\<lambda>context_offset.
          bind_r (optional_int (jget entry ''record_count_offset'')) (\<lambda>record_count_offset.
          bind_r (optional_int (jget entry ''repeat_stride'')) (\<lambda>repeat_stride.
          make_spec ((blank_spec ''INVENTORY_TO_STORAGE'' opcode item quantity
              (minimum_event_length len
                 [Some (item + 4), Some (quantity + 4), end_of destination_instance_offset 8,
                  end_of context_offset 4, end_of record_count_offset 2]))
            \<lparr>spec_source_context_offset := context_offset, spec_record_count_offset := record_count_offset,
             spec_storage_instance_offset := destination_instance_offset, spec_repeat_stride := repeat_stride,
             spec_single_record_message_length := len, spec_default_context := Some ''Storage''\<rparr>))))
      | _ \<Rightarrow> Inr None))"

definition event_spec_from_entry :: "string \<Rightarrow> jobject \<Rightarrow> entry_error + event_spec option" where
  "event_spec_from_entry event entry =
     (case parse_opcode (jget entry ''opcode'') of
        None \<Rightarrow> Inr None
      | Some opcode \<Rightarrow>
          bind_r (optional_int (jget entry ''length'')) (\<lambda>len.
          bind_r (optional_int (jget entry ''item_id_offset'')) (\<lambda>item_id_offset.
          bind_r (optional_int (jget entry ''quantity_offset'')) (\<lambda>quantity_offset.
          if event = ''LOOT_PREVIEW'' then loot_preview_spec entry opcode len item_id_offset quantity_offset
          else if event = ''INVENTORY_TRANSFER''
          then inventory_transfer_spec entry opcode len item_id_offset quantity_offset
          else if event = ''STORAGE_ITEM_DELTA'' then storage_delta_spec entry opcode len item_id_offset
          else Inr None))))"

section \<open>Profiles\<close>

datatype spec_profile_error =
    InvalidEntry string entry_error
  | MissingRequired string
  | AmbiguousLoot int event_spec event_spec

record loaded_spec_profile =
  lsp_active :: bool
  lsp_specs :: "event_spec list"
  lsp_source :: string

definition dedupe_event_specs :: "event_spec list \<Rightarrow> event_spec list" where
  "dedupe_event_specs specs = fold (\<lambda>spec output. if spec \<in> set output then output else output @ [spec]) specs []"

definition loot_message_length_domain :: "event_spec \<Rightarrow> int \<times> int" where
  "loot_message_length_domain spec =
     (case spec_single_record_message_length spec of
        Some exact_length \<Rightarrow> (exact_length, exact_length)
      | None \<Rightarrow> (spec_min_message_length spec, MAX_TARGET_MESSAGE_LENGTH))"

definition domains_overlap :: "event_spec \<Rightarrow> event_spec \<Rightarrow> bool" where
  "domains_overlap first second \<longleftrightarrow>
     (case (loot_message_length_domain first, loot_message_length_domain second) of
        ((first_low, first_high), (second_low, second_high)) \<Rightarrow>
          \<not> max first_low second_low > min first_high second_high)"

text \<open>The two inner loops: the first pair of candidates that overlap.\<close>

fun overlapping_pair :: "event_spec list \<Rightarrow> (event_spec \<times> event_spec) option" where
  "overlapping_pair [] = None"
| "overlapping_pair (first # rest) =
     (case find (domains_overlap first) rest of
        Some second \<Rightarrow> Some (first, second)
      | None \<Rightarrow> overlapping_pair rest)"

definition loot_groups :: "event_spec list \<Rightarrow> (int, event_spec list) dict" where
  "loot_groups specs =
     fold (\<lambda>spec grouped.
             if spec_label spec \<noteq> ''LOOT_PREVIEW'' then grouped
             else AList.update (spec_opcode spec)
               ((case map_of grouped (spec_opcode spec) of None \<Rightarrow> [] | Some specs \<Rightarrow> specs) @ [spec]) grouped)
       specs []"

fun check_groups :: "(int, event_spec list) dict \<Rightarrow> spec_profile_error + unit" where
  "check_groups [] = Inr ()"
| "check_groups ((opcode, candidates) # groups) =
     (case overlapping_pair candidates of
        Some (first, second) \<Rightarrow> Inl (AmbiguousLoot opcode first second)
      | None \<Rightarrow> check_groups groups)"

definition validate_unambiguous_loot_specs :: "event_spec list \<Rightarrow> spec_profile_error + unit" where
  "validate_unambiguous_loot_specs specs = check_groups (loot_groups specs)"

definition decodable_events :: "string list" where
  "decodable_events = [''LOOT_PREVIEW'', ''INVENTORY_TRANSFER'', ''STORAGE_ITEM_DELTA'']"

text \<open>The loop over the entries of one event; the specs it appends.\<close>

definition load_entry :: "string \<Rightarrow> jobject \<Rightarrow> spec_profile_error + event_spec list" where
  "load_entry event entry =
     (case event_spec_from_entry event entry of
        Inl e \<Rightarrow> Inl (InvalidEntry event e)
      | Inr (Some spec) \<Rightarrow> Inr [spec]
      | Inr None \<Rightarrow> if event \<in> set decodable_events then Inl (MissingRequired event) else Inr [])"

definition load_specs :: "(string, jobject list) dict \<Rightarrow> spec_profile_error + event_spec list" where
  "load_specs specs =
     bind_r (map_r (\<lambda>(event, entry). load_entry event entry)
         (concat (map (\<lambda>(event, entries). map (\<lambda>entry. (event, entry)) entries) specs)))
       (\<lambda>loaded. Inr (concat loaded))"

definition event_specs_from_profile :: "opcode_profile \<Rightarrow> spec_profile_error + loaded_spec_profile" where
  "event_specs_from_profile profile =
     (if \<not> op_active profile then Inr \<lparr>lsp_active = False, lsp_specs = [], lsp_source = op_path profile\<rparr>
      else bind_r (load_specs (op_specs profile)) (\<lambda>specs.
           let normalized = dedupe_event_specs specs in
           bind_r (validate_unambiguous_loot_specs normalized) (\<lambda>_.
           Inr \<lparr>lsp_active = True, lsp_specs = normalized, lsp_source = op_path profile\<rparr>)))"

definition validate_loot_profile_entries :: "jobject list \<Rightarrow> spec_profile_error + unit" where
  "validate_loot_profile_entries entries =
     bind_r (map_r (\<lambda>entry. case event_spec_from_entry ''LOOT_PREVIEW'' entry of
                Inl e \<Rightarrow> Inl (InvalidEntry ''LOOT_PREVIEW'' e)
              | Inr None \<Rightarrow> Inl (MissingRequired ''LOOT_PREVIEW'')
              | Inr (Some spec) \<Rightarrow> Inr spec) entries)
       (\<lambda>specs. validate_unambiguous_loot_specs (dedupe_event_specs specs))"

section \<open>The runtime validation\<close>

record decrement_spec =
  ds_opcode :: int
  ds_min_message_length :: int
  ds_quantity_offset :: int
  ds_source_instance_offset :: "int option"
  ds_repeat_stride :: "int option"

datatype decrement_error =
    DecrementOpcode
  | DecrementLength
  | DecrementQuantityOffset
  | DecrementInstanceOffset
  | DecrementStride
  | DecrementPrefix

text \<open>\<^verbatim>\<open>DecrementSpec.__post_init__\<close> of \<^verbatim>\<open>_origin/models.py\<close>.\<close>

definition decrement_post_init :: "decrement_spec \<Rightarrow> decrement_error + decrement_spec" where
  "decrement_post_init s =
     check (0 \<le> ds_opcode s \<and> ds_opcode s \<le> 0xFFFF) DecrementOpcode (
     check (\<not> ds_min_message_length s < 5) DecrementLength (
     check (0 \<le> ds_quantity_offset s \<and> ds_quantity_offset s \<le> ds_min_message_length s - 4) DecrementQuantityOffset (
     check (\<not> opt_sat (\<lambda>i. i < 0 \<or> i + 8 > ds_min_message_length s) (ds_source_instance_offset s))
       DecrementInstanceOffset (
     check (\<not> opt_sat (\<lambda>w. w \<le> 0) (ds_repeat_stride s)) DecrementStride (
     case ds_repeat_stride s of
       None \<Rightarrow> Inr s
     | Some stride \<Rightarrow>
         let prefix_length = ds_min_message_length s - stride in
         check (\<not> (prefix_length < 5 \<or> ds_quantity_offset s < prefix_length \<or>
                   opt_sat (\<lambda>i. i < prefix_length) (ds_source_instance_offset s))) DecrementPrefix (Inr s))))))"

datatype runtime_profile_error =
    RuntimeVersion
  | ProfileInactive
  | RuntimeLayout profile_error
  | RuntimeSpecs spec_profile_error
  | RuntimeDecrement nat string
  | RuntimeDecrementShape nat decrement_error
  | RuntimeFamily nat

definition nonneg_int :: "json \<Rightarrow> int option" where
  "nonneg_int v = (case as_int v of None \<Rightarrow> None | Some i \<Rightarrow> if i < 0 then None else Some i)"

definition required_int :: "nat \<Rightarrow> string \<Rightarrow> json \<Rightarrow> runtime_profile_error + int" where
  "required_int index field v =
     (case nonneg_int v of None \<Rightarrow> Inl (RuntimeDecrement index field) | Some i \<Rightarrow> Inr i)"

definition runtime_optional_int :: "nat \<Rightarrow> string \<Rightarrow> json \<Rightarrow> runtime_profile_error + int option" where
  "runtime_optional_int index field v =
     (if v = JNull then Inr None else bind_r (required_int index field v) (\<lambda>i. Inr (Some i)))"

definition runtime_decrement_spec :: "nat \<Rightarrow> jobject \<Rightarrow> runtime_profile_error + decrement_spec" where
  "runtime_decrement_spec index entry =
     (case parse_opcode (jget entry ''opcode'') of
        None \<Rightarrow> Inl (RuntimeDecrement index ''opcode'')
      | Some opcode \<Rightarrow>
          bind_r (required_int index ''length'' (jget entry ''length'')) (\<lambda>len.
          check (5 \<le> len \<and> len \<le> MAX_TARGET_MESSAGE_LENGTH) (RuntimeDecrement index ''length'') (
          bind_r (required_int index ''quantity_removed_offset'' (jget entry ''quantity_removed_offset''))
            (\<lambda>quantity_offset.
          bind_r (runtime_optional_int index ''source_instance_offset'' (jget entry ''source_instance_offset''))
            (\<lambda>source_instance_offset.
          bind_r (runtime_optional_int index ''repeat_stride'' (jget entry ''repeat_stride'')) (\<lambda>repeat_stride.
          case decrement_post_init
                 \<lparr>ds_opcode = opcode, ds_min_message_length = len, ds_quantity_offset = quantity_offset,
                  ds_source_instance_offset = source_instance_offset, ds_repeat_stride = repeat_stride\<rparr> of
            Inl e \<Rightarrow> Inl (RuntimeDecrementShape index e)
          | Inr s \<Rightarrow> Inr s))))))"

definition uint16 :: "int \<Rightarrow> bool" where
  "uint16 x \<longleftrightarrow> 0 \<le> x \<and> x \<le> 0xFFFF"

definition validate_origin_companion_family :: "nat \<Rightarrow> companion_family \<Rightarrow> runtime_profile_error + unit" where
  "validate_origin_companion_family index f =
     check (list_all uint16 [cf_delta_opcode f, fst (cf_companion_opcodes f), snd (cf_companion_opcodes f)])
       (RuntimeFamily index) (
     check (list_all (\<lambda>n. 5 \<le> n \<and> n \<le> 0xFFFF) [fst (cf_companion_lengths f), snd (cf_companion_lengths f)])
       (RuntimeFamily index) (
     check (cf_detection f = DETECTION) (RuntimeFamily index) (
     check (\<not> cf_observations f \<le> 0) (RuntimeFamily index) (Inr ()))))"

record runtime_profile =
  rp_loaded_specs :: loaded_spec_profile
  rp_decrement_specs :: "decrement_spec list"

definition lift_error :: "('e \<Rightarrow> 'f) \<Rightarrow> 'e + 'a \<Rightarrow> 'f + 'a" where
  "lift_error f r = (case r of Inl e \<Rightarrow> Inl (f e) | Inr x \<Rightarrow> Inr x)"

definition indexed :: "'a list \<Rightarrow> (nat \<times> 'a) list" where
  "indexed xs = zip [0..<length xs] xs"

definition validate_runtime_profile :: "opcode_profile \<Rightarrow> runtime_profile_error + runtime_profile" where
  "validate_runtime_profile profile =
     check (op_version profile = OPCODE_PROFILE_SCHEMA_VERSION) RuntimeVersion (
     check (op_active profile) ProfileInactive (
     bind_r (lift_error RuntimeLayout (check_layout xp_post_init (op_xp profile))) (\<lambda>_.
     bind_r (lift_error RuntimeLayout (check_layout agris_post_init (op_agris profile))) (\<lambda>_.
     bind_r (lift_error RuntimeSpecs (event_specs_from_profile profile)) (\<lambda>loaded.
     bind_r (map_r (\<lambda>(index, entry). runtime_decrement_spec index entry)
         (indexed (case map_of (op_specs profile) ''SOURCE_STACK_DECREMENT'' of
                     None \<Rightarrow> [] | Some entries \<Rightarrow> entries))) (\<lambda>decrements.
     bind_r (map_r (\<lambda>(index, family). validate_origin_companion_family index family)
         (indexed (op_origin_companion_families profile))) (\<lambda>_.
     Inr \<lparr>rp_loaded_specs = loaded, rp_decrement_specs = decrements\<rparr>)))))))"

end
