(* ===== verification/Profile_Facts.thy ===== *)
theory Profile_Facts
  imports Event_Specs Target_Scanner
begin

text \<open>
  Lemmas on the profile loaders: what an accepted profile guarantees to the scanners,
  when it is refused, and that what is written reads back.
\<close>

section \<open>Layouts\<close>

lemma xp_layout_init_Inr:
  assumes "xp_layout_init o' n l c r f e = Inr x"
  shows "o' = JInt (xp_opcode x)" "n = JInt (xp_message_length x)" "l = JInt (xp_level_offset x)"
    "c = JInt (xp_current_offset x)" "r = JInt (xp_required_offset x)" "f = JInt (xp_flag x)"
    "e = JStr (xp_encoding x)" "uint16 (xp_opcode x)"
proof -
  have ok: "int_in 0 65535 o'" "int_in 22 4096 n" "int_in 5 4095 l" "int_in 5 4088 c" "int_in 5 4088 r" "int_in 0 0 f"
    and e: "e = JStr XP_ENCODING" and x: "x = \<lparr>xp_opcode = the (as_int o'), xp_message_length = the (as_int n),
      xp_level_offset = the (as_int l), xp_current_offset = the (as_int c), xp_required_offset = the (as_int r),
      xp_flag = the (as_int f), xp_encoding = XP_ENCODING\<rparr>"
    using assms by (auto simp: xp_layout_init_def Let_def split: if_splits option.splits)
  show "o' = JInt (xp_opcode x)" "n = JInt (xp_message_length x)" "l = JInt (xp_level_offset x)"
    "c = JInt (xp_current_offset x)" "r = JInt (xp_required_offset x)" "f = JInt (xp_flag x)"
    "e = JStr (xp_encoding x)" "uint16 (xp_opcode x)"
    using ok [THEN int_inE] e by (auto simp: x uint16_def)
qed

lemma xp_layout_of_Some:
  assumes "xp_layout_of v = Inr (Some x)"
  shows "xp_post_init x = Inr x"
proof -
  obtain o' n l c r f e where "xp_layout_init o' n l c r f e = Inr x"
    using assms by (auto simp: xp_layout_of_def split: json.splits)
  then show ?thesis
    using xp_layout_init_Inr [of o' n l c r f e x] by (simp add: xp_post_init_def)
qed

lemma xp_to_dict_reads_back:
  assumes "xp_post_init x = Inr x"
  shows "xp_layout_of (xp_to_dict x) = Inr (Some x)"
proof -
  have op: "uint16 (xp_opcode x)"
    using assms xp_layout_init_Inr(8) by (simp add: xp_post_init_def)
  have "keys_of [(''opcode'', a1), (''message_length'', a2), (''level_offset'', a3), (''current_offset'', a4),
      (''required_offset'', a5), (''flag'', a6), (''encoding'', a7)] = set XP_KEYS" for a1 a2 a3 a4 a5 a6 a7
    by (simp add: keys_of_def XP_KEYS_def)
  then show ?thesis
    using assms op parse_format_opcode [of "xp_opcode x"]
    by (simp add: xp_layout_of_def xp_to_dict_def xp_post_init_def profile_opcode_def uint16_def)
qed

lemma agris_layout_init_Inr:
  assumes "agris_layout_init o' n r m f e d = Inr x"
  shows "o' = JInt (ag_opcode x)" "n = JInt (ag_message_length x)" "r = JInt (ag_remaining_offset x)"
    "m = JInt (ag_maximum_offset x)" "f = JInt (ag_flag x)" "e = JStr (ag_encoding x)"
    "d = json_of_opt JStr (ag_observed_date x)" "uint16 (ag_opcode x)"
proof -
  have ok: "int_in 0 65535 o'" "int_in 13 65535 n" "int_in 5 65531 r" "int_in 5 65531 m" "int_in 0 0 f"
    and e: "e = JStr ''uint32_le''" and d: "d = json_of_opt JStr (opt_str d)"
    and x: "x = \<lparr>ag_opcode = the (as_int o'), ag_message_length = the (as_int n),
      ag_remaining_offset = the (as_int r), ag_maximum_offset = the (as_int m), ag_flag = the (as_int f),
      ag_encoding = ''uint32_le'', ag_observed_date = opt_str d\<rparr>"
    using assms by (auto simp: agris_layout_init_def json_of_opt_def Let_def split: if_splits option.splits json.splits)
  show "o' = JInt (ag_opcode x)" "n = JInt (ag_message_length x)" "r = JInt (ag_remaining_offset x)"
    "m = JInt (ag_maximum_offset x)" "f = JInt (ag_flag x)" "e = JStr (ag_encoding x)"
    "d = json_of_opt JStr (ag_observed_date x)" "uint16 (ag_opcode x)"
    using ok [THEN int_inE] e d by (auto simp: x uint16_def)
qed

lemma agris_layout_of_Some:
  assumes "agris_layout_of v = Inr (Some x)"
  shows "agris_post_init x = Inr x"
proof -
  obtain o' n r m f e d where "agris_layout_init o' n r m f e d = Inr x"
    using assms by (auto simp: agris_layout_of_def split: json.splits)
  then show ?thesis
    using agris_layout_init_Inr [of o' n r m f e d x] by (simp add: agris_post_init_def)
qed

lemma agris_to_dict_reads_back:
  assumes "agris_post_init x = Inr x"
  shows "agris_layout_of (agris_to_dict x) = Inr (Some x)"
proof -
  have op: "uint16 (ag_opcode x)"
    using assms agris_layout_init_Inr(8) by (simp add: agris_post_init_def)
  have "keys_of [(''opcode'', a1), (''message_length'', a2), (''remaining_offset'', a3), (''maximum_offset'', a4),
      (''flag'', a5), (''encoding'', a6), (''observed_date'', a7)] = insert ''observed_date'' (set AGRIS_KEYS)"
    for a1 a2 a3 a4 a5 a6 a7
    by (auto simp: keys_of_def AGRIS_KEYS_def)
  then show ?thesis
    using assms op parse_format_opcode [of "ag_opcode x"]
    by (auto simp add: agris_layout_of_def agris_to_dict_def agris_post_init_def profile_opcode_def uint16_def)
qed

lemma profile_opcode_Inr: "profile_opcode v e = Inr n \<Longrightarrow> uint16 n"
  using opcode_value_range [of v n] by (auto simp: profile_opcode_def uint16_def split: option.splits)

lemma profile_opcode_format: "uint16 n \<Longrightarrow> profile_opcode (JStr (format_opcode n)) e = Inr n"
  using parse_format_opcode [of n] by (simp add: profile_opcode_def uint16_def)

lemma family_reads_back:
  assumes "origin_companion_family v = Inr f"
  shows "origin_companion_family (family_to_dict f) = Inr f"
    "validate_origin_companion_family i f = Inr ()"
proof -
  obtain d a b la lb where v: "v = JObj d" "two_values (jget d ''companion_opcodes'') = Some (a, b)"
    "two_values (jget d ''companion_lengths'') = Some (la, lb)"
    using assms by (auto simp: origin_companion_family_def split: json.splits option.splits)
  then have len: "int_in 5 0xFFFF la" "int_in 5 0xFFFF lb" and obs: "positive_int (jget d ''observations'')"
    and prom: "null_or_str (jget d ''promoted_at'')"
    and ops: "profile_opcode (jget d ''delta_opcode'') FamilyOpcodes = Inr (cf_delta_opcode f)"
      "profile_opcode a FamilyOpcodes = Inr (fst (cf_companion_opcodes f))"
      "profile_opcode b FamilyOpcodes = Inr (snd (cf_companion_opcodes f))"
    and f: "cf_companion_lengths f = (the (as_int la), the (as_int lb))" "cf_detection f = DETECTION"
      "cf_observations f = the (as_int (jget d ''observations''))" "cf_promoted_at f = opt_str (jget d ''promoted_at'')"
    using assms by (auto simp: origin_companion_family_def)
  have pos: "0 < cf_observations f"
    using obs by (auto simp: f positive_int_def split: option.splits)
  have prom': "null_or_str (json_of_opt JStr (cf_promoted_at f))"
    "opt_str (json_of_opt JStr (cf_promoted_at f)) = cf_promoted_at f"
    by (simp_all add: null_or_str_def json_of_opt_def split: option.splits)
  have lens: "5 \<le> fst (cf_companion_lengths f)" "fst (cf_companion_lengths f) \<le> 0xFFFF"
    "5 \<le> snd (cf_companion_lengths f)" "snd (cf_companion_lengths f) \<le> 0xFFFF"
    using len [THEN int_inE] by (auto simp: f)
  note u = ops [THEN profile_opcode_Inr]
  show "origin_companion_family (family_to_dict f) = Inr f"
    using u lens pos prom'
    by (simp add: origin_companion_family_def family_to_dict_def profile_opcode_format f(2) positive_int_def)
  show "validate_origin_companion_family i f = Inr ()"
    using u lens pos by (simp add: validate_origin_companion_family_def f(2))
qed

text \<open>The fields of a layout: inside the message and on bytes of their own.\<close>

definition apart :: "int \<times> int \<Rightarrow> int \<times> int \<Rightarrow> bool" where
  "apart p q \<longleftrightarrow> {fst p..<fst p + snd p} \<inter> {fst q..<fst q + snd q} = {}"

lemma spans_disjoint_iff:
  "spans_disjoint n spans occupied \<longleftrightarrow>
     list_all (\<lambda>p. fst p + snd p \<le> n \<and> occupied \<inter> {fst p..<fst p + snd p} = {}) spans \<and> sorted_wrt apart spans"
proof (induction n spans occupied rule: spans_disjoint.induct)
  case (2 n a w spans occupied)
  have span: "{a .. a + w - 1} = {a..<a + w}"
    by auto
  have "list_all (\<lambda>p. fst p + snd p \<le> n \<and> (occupied \<union> {a..<a + w}) \<inter> {fst p..<fst p + snd p} = {}) spans \<longleftrightarrow>
      list_all (\<lambda>p. fst p + snd p \<le> n \<and> occupied \<inter> {fst p..<fst p + snd p} = {}) spans \<and>
      list_all (apart (a, w)) spans"
    unfolding apart_def fst_conv snd_conv Int_Un_distrib2 Un_empty list_all_iff by blast
  then show ?case
    using "2.IH" [OF refl] unfolding spans_disjoint.simps Let_def set_upto span sorted_wrt.simps list.pred_inject
      fst_conv snd_conv
    by (auto simp only: list_all_iff split: if_splits)
qed simp

section \<open>Character tables\<close>

lemma field_offsets_back: "field_offsets w d = Some offsets \<Longrightarrow> map (\<lambda>(k, x). (k, JInt x)) offsets = d"
proof -
  assume "field_offsets w d = Some offsets"
  then have int: "\<forall>(k, v) \<in> set d. int_in 0 (w - 1) v" and o: "offsets = map (\<lambda>(k, v). (k, the (as_int v))) d"
    by (auto simp: field_offsets_def list_all_iff split: if_splits)
  have "(k, JInt (the (as_int v))) = (k, v)" if "(k, v) \<in> set d" for k v
  proof -
    have "int_in 0 (w - 1) v"
      using int that by auto
    then show ?thesis
      using int_inE by fastforce
  qed
  then show ?thesis
    unfolding o map_map by (intro map_idI) auto
qed

lemma json_of_opt_int: "v = JNull \<or> int_in a b v \<Longrightarrow> json_of_opt JInt (as_int v) = v"
  using int_inE [of a b v] by (auto simp: json_of_opt_def)

lemma as_int_Some: "as_int v = Some i \<longleftrightarrow> v = JInt i"
  by (cases v) auto

lemma character_table_init_Inr:
  assumes "character_table_init a b c d e f = Inr t"
  shows "character_table_init (JInt (ct_opcode t)) (JInt (ct_header t)) (JInt (ct_stride t))
      (json_of_opt JInt (ct_count_offset t)) (json_of_opt JInt (ct_fixed_count t))
      (JObj (map (\<lambda>(k, x). (k, JInt x)) (ct_fields t))) = Inr t"
proof -
  obtain op h w where v: "a = JInt op" "b = JInt h" "c = JInt w"
    using assms by (auto simp: character_table_init_def as_int_Some split: option.splits)
  note init = assms [unfolded v character_table_init_def as_int.simps option.case prod.case check_Inr]
  have count: "d = JNull \<or> int_in 0 (h - 2) d"
    and fixed: "case e of JNull \<Rightarrow> True | JInt n \<Rightarrow> \<not> (n < 1 \<or> h + w * n > 65535) | _ \<Rightarrow> False"
    using init by blast+
  obtain fd offsets where fd: "f = JObj fd" "field_offsets w fd = Some offsets"
    and t: "t = \<lparr>ct_opcode = op, ct_header = h, ct_stride = w, ct_count_offset = as_int d,
      ct_fixed_count = as_int e, ct_fields = offsets\<rparr>"
    using init by (cases f) (auto split: option.splits)
  have "json_of_opt JInt (as_int e) = e"
    using fixed by (cases e) (simp_all add: json_of_opt_def)
  with json_of_opt_int [OF count] field_offsets_back [OF fd(2)] show ?thesis
    using assms by (simp only: t v fd character_table.simps)
qed

lemma character_table_reads_back:
  assumes "character_table_of v = Inr t"
  shows "character_table_of (character_table_to_dict t) = Inr t"
proof -
  obtain a b c d e f where "character_table_init a b c d e f = Inr t"
    using assms by (auto simp: character_table_of_def split: json.splits)
  then have "character_table_init (JInt (ct_opcode t)) (JInt (ct_header t)) (JInt (ct_stride t))
      (json_of_opt JInt (ct_count_offset t)) (json_of_opt JInt (ct_fixed_count t))
      (JObj (map (\<lambda>(k, x). (k, JInt x)) (ct_fields t))) = Inr t"
    by (rule character_table_init_Inr)
  moreover have "keys_of [(''opcode'', a1), (''header'', a2), (''stride'', a3), (''count_offset'', a4),
      (''fixed_count'', a5), (''fields'', a6)] = set TABLE_KEYS" for a1 a2 a3 a4 a5 a6
    by (simp add: keys_of_def TABLE_KEYS_def)
  ultimately show ?thesis
    by (simp add: character_table_of_def character_table_to_dict_def)
qed

lemma character_profile_reads_back:
  assumes "character_profile_from_dict v = Inr p"
  shows "character_profile_from_dict (character_profile_to_dict p) = Inr p"
proof -
  obtain tables where t: "map_r (\<lambda>(k, v). bind_r (character_table_of v) (\<lambda>t. Inr (k, t))) tables = Inr p"
    and p: "character_layout_profile_init p = Inr p"
    using assms by (auto simp: character_profile_from_dict_def character_layout_profile_init_def split: json.splits)
  have "\<exists>v. character_table_of v = Inr t" if "(k, t) \<in> set p" for k t
  proof -
    from map_r_source [OF t that]
    obtain x where "(case x of (k, v) \<Rightarrow> bind_r (character_table_of v) (\<lambda>t. Inr (k, t))) = Inr (k, t)" ..
    then show ?thesis
      by (cases x) auto
  qed
  then have "map_r (\<lambda>(k, v). bind_r (character_table_of v) (\<lambda>t. Inr (k, t)))
      (map (\<lambda>(k, t). (k, character_table_to_dict t)) p) = Inr p"
    unfolding map_r_Inr list_all2_map1 list_all2_same using character_table_reads_back by fastforce
  moreover have "keys_of [(''schema_version'', a1), (''tables'', a2)] = {''schema_version'', ''tables''}" for a1 a2
    by (simp add: keys_of_def)
  ultimately show ?thesis
    using p by (simp add: character_profile_from_dict_def character_profile_to_dict_def)
qed

lemma concat_slices:
  "w \<noteq> 0 \<Longrightarrow> length xs = n * w \<Longrightarrow> concat (map (\<lambda>i. take w (drop (i * w) xs)) [0..<n]) = xs"
proof (induction n arbitrary: xs)
  case (Suc n)
  have "concat (map (\<lambda>i. take w (drop (i * w) xs)) [0..<Suc n]) =
      take w xs @ concat (map (\<lambda>i. take w (drop (i * w) (drop w xs))) [0..<n])"
    by (simp add: upt_conv_Cons map_Suc_upt [symmetric] comp_def add.commute del: upt_Suc)
  also have "\<dots> = xs"
    using Suc.IH [of "drop w xs"] Suc.prems by simp
  finally show ?case .
qed simp

lemma table_rows_Inr:
  assumes "table_rows t message = Inr rows" and "\<forall>n. ct_fixed_count t = Some n \<longrightarrow> 0 \<le> n"
  obtains n where "int (length message) = ct_header t + n * ct_stride t" "0 \<le> n"
    "rows = map (\<lambda>i. py_slice message (ct_header t + int i * ct_stride t)
      (ct_header t + int i * ct_stride t + ct_stride t)) [0..<nat n]"
proof -
  let ?count = "case ct_count_offset t of None \<Rightarrow> ct_fixed_count t
    | Some c \<Rightarrow> Some (from_le (py_slice message c (c + 2)))"
  obtain n where n: "?count = Some n"
    using assms(1) by (cases ?count) (simp_all add: table_rows_def)
  have "0 \<le> n"
    using n assms(2) by (auto split: option.splits)
  moreover have "int (length message) = ct_header t + n * ct_stride t"
    "rows = map (\<lambda>i. py_slice message (ct_header t + int i * ct_stride t)
      (ct_header t + int i * ct_stride t + ct_stride t)) [0..<nat n]"
    using assms(1) unfolding table_rows_def Let_def n option.case check_Inr by simp_all
  ultimately show thesis
    by (intro that)
qed

lemma length_take_drop: "k + w \<le> length xs \<Longrightarrow> length (take w (drop k xs)) = w"
  by simp

lemma row_slice:
  fixes h w n :: int
  assumes "0 \<le> h" and "1 \<le> w" and "int (length message) = h + n * w" and "i < nat n"
  shows "py_slice message (h + int i * w) (h + int i * w + w) = take (nat w) (drop (i * nat w) (drop (nat h) message))"
proof -
  have "(int i + 1) * w \<le> n * w"
    using assms(2,4) by (intro mult_right_mono) auto
  then have "h + int i * w + w \<le> int (length message)"
    using assms(3) by (simp add: algebra_simps)
  moreover have "nat (h + int i * w) = i * nat w + nat h"
    using assms(1,2) by (simp add: nat_add_distrib nat_mult_distrib)
  ultimately show ?thesis
    using assms(1,2) by (simp add: py_slice_in add.commute)
qed

section \<open>Specs\<close>

lemma make_spec_Inr: "make_spec s = Inr (Some t) \<Longrightarrow> t = s \<and> spec_ok s"
  using event_spec_post_init_cases [of s t] by (auto simp: make_spec_def split: sum.splits)

lemma fold_max: "x \<in> set (e # es) \<Longrightarrow> x \<le> fold max es (e :: int)"
  by (metis List.finite_set Max.set_eq_fold Max_ge)

lemma minimum_event_length_ge: "Some x \<in> set ends \<Longrightarrow> x \<le> minimum_event_length len ends"
proof -
  assume "Some x \<in> set ends"
  then have "x \<in> set (List.map_filter id ends)"
    by (force simp: set_map_filter_Some)
  then have "x \<le> (case List.map_filter id ends of [] \<Rightarrow> 5 | e # es \<Rightarrow> fold max es e)"
    using fold_max by (cases "List.map_filter id ends") auto
  then show ?thesis
    by (auto simp: minimum_event_length_def Let_def split: option.splits)
qed

text \<open>What every spec of a profile satisfies: the fields end within the minimal length.\<close>

definition spec_covers_fields :: "event_spec \<Rightarrow> bool" where
  "spec_covers_fields spec \<longleftrightarrow>
     list_all (\<lambda>x. x \<le> spec_min_message_length spec)
       (List.map_filter id
          [Some (spec_item_offset spec + 4), Some (spec_quantity_offset spec + 4),
           end_of (spec_item_instance_offset spec) 8, end_of (spec_storage_instance_offset spec) 8,
           end_of (spec_source_context_offset spec) (spec_source_context_length spec),
           end_of (spec_inventory_slot_offset spec) 1, end_of (spec_record_count_offset spec) 2])"

lemma covers_fieldsI:
  assumes "spec_min_message_length spec = minimum_event_length len ends"
    and "set [Some (spec_item_offset spec + 4), Some (spec_quantity_offset spec + 4),
      end_of (spec_item_instance_offset spec) 8, end_of (spec_storage_instance_offset spec) 8,
      end_of (spec_source_context_offset spec) (spec_source_context_length spec),
      end_of (spec_inventory_slot_offset spec) 1, end_of (spec_record_count_offset spec) 2]
      \<subseteq> insert None (set ends)"
  shows "spec_covers_fields spec"
proof -
  have "list_all (\<lambda>x. x \<le> minimum_event_length len ends) (List.map_filter id xs)"
    if "set xs \<subseteq> insert None (set ends)" for xs
    unfolding list_all_iff using that minimum_event_length_ge by (auto simp only: set_map_filter_Some id_apply)
  from this [OF assms(2)] show ?thesis
    unfolding spec_covers_fields_def assms(1) .
qed

lemma loot_preview_spec_Some:
  assumes "loot_preview_spec entry opcode len io qo = Inr (Some spec)"
  shows "spec_ok spec \<and> spec_covers_fields spec \<and> spec_repeat_stride spec = None"
proof -
  obtain item quantity ii where "spec = (blank_spec ''LOOT_PREVIEW'' opcode item quantity
        (minimum_event_length len [Some (item + 4), Some (quantity + 4), end_of ii 8]))
      \<lparr>spec_item_instance_offset := ii, spec_single_record_message_length := len,
       spec_default_context := Some ''Gathering''\<rparr>" "spec_ok spec"
    using assms unfolding loot_preview_spec_def by (auto split: option.splits dest!: make_spec_Inr)
  then show ?thesis
    by (intro conjI covers_fieldsI [of spec len "[Some (item + 4), Some (quantity + 4), end_of ii 8]"])
      (simp_all add: blank_spec_def end_of_def)
qed

lemma inventory_transfer_spec_Some:
  assumes "inventory_transfer_spec entry opcode len io qo = Inr (Some spec)"
  shows "spec_ok spec \<and> spec_covers_fields spec \<and> spec_label spec \<noteq> ''LOOT_PREVIEW''"
proof -
  obtain item quantity slot co ii rs where "spec = (blank_spec ''INVENTORY_TRANSFER'' opcode item quantity
        (minimum_event_length len
           [Some (item + 4), Some (quantity + 4), end_of ii 8, end_of co 4, end_of slot 1]))
      \<lparr>spec_inventory_slot_offset := slot, spec_source_context_offset := co, spec_item_instance_offset := ii,
       spec_repeat_stride := rs, spec_single_record_message_length := len\<rparr>" "spec_ok spec"
    using assms unfolding inventory_transfer_spec_def by (auto split: option.splits dest!: make_spec_Inr)
  then show ?thesis
    by (intro conjI covers_fieldsI [of spec len
          "[Some (item + 4), Some (quantity + 4), end_of ii 8, end_of co 4, end_of slot 1]"])
      (simp_all add: blank_spec_def end_of_def)
qed

lemma storage_delta_spec_Some:
  assumes "storage_delta_spec entry opcode len io = Inr (Some spec)"
  shows "spec_ok spec \<and> spec_covers_fields spec \<and> spec_label spec \<noteq> ''LOOT_PREVIEW''"
proof -
  obtain item quantity co rc di rs where "spec = (blank_spec ''INVENTORY_TO_STORAGE'' opcode item quantity
        (minimum_event_length len
           [Some (item + 4), Some (quantity + 4), end_of di 8, end_of co 4, end_of rc 2]))
      \<lparr>spec_source_context_offset := co, spec_record_count_offset := rc, spec_storage_instance_offset := di,
       spec_repeat_stride := rs, spec_single_record_message_length := len,
       spec_default_context := Some ''Storage''\<rparr>" "spec_ok spec"
    using assms unfolding storage_delta_spec_def
    by clarsimp (auto split: option.splits dest!: make_spec_Inr)
  then show ?thesis
    by (intro conjI covers_fieldsI [of spec len
          "[Some (item + 4), Some (quantity + 4), end_of di 8, end_of co 4, end_of rc 2]"])
      (simp_all add: blank_spec_def end_of_def)
qed

lemma event_spec_from_entry_Some:
  assumes "event_spec_from_entry event entry = Inr (Some spec)"
  shows "spec_ok spec \<and> spec_covers_fields spec \<and>
    (spec_label spec = ''LOOT_PREVIEW'' \<longrightarrow> spec_repeat_stride spec = None)"
proof -
  obtain opcode len io qo where
    "(if event = ''LOOT_PREVIEW'' then loot_preview_spec entry opcode len io qo
      else if event = ''INVENTORY_TRANSFER'' then inventory_transfer_spec entry opcode len io qo
      else if event = ''STORAGE_ITEM_DELTA'' then storage_delta_spec entry opcode len io
      else Inr None) = Inr (Some spec)"
    using assms unfolding event_spec_from_entry_def
    by (cases "parse_opcode (jget entry ''opcode'')") (simp, simp only: option.case bind_r_Inr, blast)
  then show ?thesis
    using loot_preview_spec_Some [of entry opcode len io qo spec]
      inventory_transfer_spec_Some [of entry opcode len io qo spec] storage_delta_spec_Some [of entry opcode len io spec]
    by (simp split: if_splits)
qed

lemma distinct_dedupe: "distinct (dedupe_event_specs specs) \<and> set (dedupe_event_specs specs) = set specs"
proof -
  have "distinct (fold (\<lambda>spec output. if spec \<in> set output then output else output @ [spec]) specs acc) \<and>
      set (fold (\<lambda>spec output. if spec \<in> set output then output else output @ [spec]) specs acc) = set acc \<union> set specs"
    if "distinct acc" for acc
    using that by (induction specs arbitrary: acc) auto
  from this [of "[]"] show ?thesis
    by (simp add: dedupe_event_specs_def)
qed

lemma load_entry_Inr: "load_entry event entry = Inr ss \<Longrightarrow> spec \<in> set ss \<Longrightarrow>
    event_spec_from_entry event entry = Inr (Some spec)"
  by (auto simp: load_entry_def split: sum.splits option.splits if_splits)

lemma loaded_spec:
  assumes "event_specs_from_profile p = Inr l" and "spec \<in> set (lsp_specs l)"
  shows "\<exists>event entry. event_spec_from_entry event entry = Inr (Some spec)"
proof -
  obtain specs where "load_specs (op_specs p) = Inr specs" "spec \<in> set specs"
    using assms distinct_dedupe by (auto simp: event_specs_from_profile_def Let_def split: if_splits)
  then obtain xs yss where l: "list_all2 (\<lambda>(event, entry) ys. load_entry event entry = Inr ys) xs yss" "spec \<in> set (concat yss)"
    by (auto simp: load_specs_def map_r_Inr case_prod_beta')
  then obtain ys where "ys \<in> set yss" "spec \<in> set ys"
    by auto
  then obtain i where "i < length yss" "spec \<in> set (yss ! i)"
    by (metis in_set_conv_nth)
  moreover from this l(1) have "case xs ! i of (event, entry) \<Rightarrow> load_entry event entry = Inr (yss ! i)"
    by (simp add: list_all2_conv_all_nth case_prod_beta)
  ultimately show ?thesis
    by (cases "xs ! i") (use load_entry_Inr in \<open>simp, blast\<close>)
qed

section \<open>Ambiguity\<close>

definition loot_of :: "int \<Rightarrow> event_spec \<Rightarrow> bool" where
  "loot_of opcode spec \<longleftrightarrow> spec_label spec = ''LOOT_PREVIEW'' \<and> spec_opcode spec = opcode"

lemma loot_groups_lookup:
  "map_of (loot_groups specs) opcode =
     (case filter (loot_of opcode) specs of [] \<Rightarrow> None | c # cs \<Rightarrow> Some (c # cs))"
proof (induction specs rule: rev_induct)
  case (snoc spec specs)
  then show ?case
    by (auto simp: loot_groups_def loot_of_def update_conv split: list.splits option.splits)
qed (simp add: loot_groups_def)

lemma distinct_loot_groups: "distinct (map fst (loot_groups specs))"
  unfolding loot_groups_def by (rule fold_invariant [where Q = "\<lambda>_. True"]) (auto intro: distinct_dict_update)

lemma domains_overlap_sym: "domains_overlap a b = domains_overlap b a"
  by (auto simp: domains_overlap_def max.commute min.commute split: prod.splits)

lemma overlapping_pair_None: "overlapping_pair cs = None \<longleftrightarrow> sorted_wrt (\<lambda>a b. \<not> domains_overlap a b) cs"
proof (induction cs)
  case (Cons a cs)
  have "find (domains_overlap a) cs = None \<longleftrightarrow> (\<forall>b \<in> set cs. \<not> domains_overlap a b)"
    by (auto simp: find_None_iff)
  then show ?case
    using Cons.IH by (cases "find (domains_overlap a) cs") auto
qed simp

lemma check_groups_Inr: "check_groups gs = Inr () \<longleftrightarrow> (\<forall>(opcode, cs) \<in> set gs. overlapping_pair cs = None)"
  by (induction gs rule: check_groups.induct) (auto split: option.splits)

lemma sorted_wrt_apart:
  "sorted_wrt P cs \<Longrightarrow> a \<in> set cs \<Longrightarrow> b \<in> set cs \<Longrightarrow> a \<noteq> b \<Longrightarrow> (\<And>x y. P x y \<Longrightarrow> P y x) \<Longrightarrow> P a b"
  by (induction cs) auto

lemma unambiguous_loot:
  assumes "validate_unambiguous_loot_specs specs = Inr ()" and "a \<in> set specs" and "b \<in> set specs" and "a \<noteq> b"
    and "loot_of opcode a" and "loot_of opcode b"
  shows "\<not> domains_overlap a b"
proof -
  let ?cs = "filter (loot_of opcode) specs"
  have "?cs \<noteq> []"
    using assms(2,5) by (auto simp: filter_empty_conv)
  then have "map_of (loot_groups specs) opcode = Some ?cs"
    using loot_groups_lookup [of specs opcode] by (simp split: list.splits)
  then have "(opcode, ?cs) \<in> set (loot_groups specs)"
    by (rule map_of_SomeD)
  then have "sorted_wrt (\<lambda>a b. \<not> domains_overlap a b) ?cs"
    using assms(1) by (auto simp: validate_unambiguous_loot_specs_def check_groups_Inr overlapping_pair_None)
  then show ?thesis
  proof (rule sorted_wrt_apart)
    show "\<not> domains_overlap y x" if "\<not> domains_overlap x y" for x y
      using that domains_overlap_sym [of x y] by simp
  qed (use assms in simp_all)
qed

lemma sorted_wrt_distinct:
  "distinct cs \<Longrightarrow> (\<And>a b. a \<in> set cs \<Longrightarrow> b \<in> set cs \<Longrightarrow> a \<noteq> b \<Longrightarrow> P a b) \<Longrightarrow> sorted_wrt P cs"
  by (induction cs) auto

lemma validate_unambiguous_iff:
  assumes "distinct specs"
  shows "validate_unambiguous_loot_specs specs = Inr () \<longleftrightarrow>
     (\<forall>a \<in> set specs. \<forall>b \<in> set specs. a \<noteq> b \<longrightarrow> loot_of (spec_opcode a) a \<longrightarrow> loot_of (spec_opcode a) b \<longrightarrow>
        \<not> domains_overlap a b)"
proof
  assume apart: "\<forall>a \<in> set specs. \<forall>b \<in> set specs. a \<noteq> b \<longrightarrow> loot_of (spec_opcode a) a \<longrightarrow>
      loot_of (spec_opcode a) b \<longrightarrow> \<not> domains_overlap a b"
  have "overlapping_pair cs = None" if "(opcode, cs) \<in> set (loot_groups specs)" for opcode cs
  proof -
    have "map_of (loot_groups specs) opcode = Some cs"
      using that distinct_loot_groups by (simp add: map_of_eq_Some_iff)
    then have cs: "cs = filter (loot_of opcode) specs"
      by (simp add: loot_groups_lookup split: list.splits)
    have "\<not> domains_overlap a b" if "a \<in> set cs" "b \<in> set cs" "a \<noteq> b" for a b
      using that apart by (auto simp: cs loot_of_def)
    then show ?thesis
      using assms unfolding overlapping_pair_None by (intro sorted_wrt_distinct) (auto simp: cs)
  qed
  then show "validate_unambiguous_loot_specs specs = Inr ()"
    by (auto simp: validate_unambiguous_loot_specs_def check_groups_Inr)
qed (use unambiguous_loot in blast)

section \<open>Validated entries\<close>

lemma jget_freeze: "jget (freeze_profile_mapping d) k = freeze_profile_value (jget d k)"
  by (induction d) (auto simp: freeze_profile_mapping_def)

lemma opcode_value_freeze [simp]: "opcode_value (freeze_profile_value v) = opcode_value v"
  by (cases v) (simp_all add: opcode_value_def)

lemma optional_int_freeze [simp]: "optional_int (freeze_profile_value v) = optional_int v"
  by (cases v) (simp_all add: optional_int_def)

lemma event_spec_from_entry_freeze:
  "event_spec_from_entry event (freeze_profile_mapping entry) = event_spec_from_entry event entry"
  unfolding event_spec_from_entry_def parse_opcode_def loot_preview_spec_def inventory_transfer_spec_def
    storage_delta_spec_def jget_freeze opcode_value_freeze optional_int_freeze ..

definition nonneg :: "int option \<Rightarrow> bool" where
  "nonneg v \<longleftrightarrow> \<not> opt_sat (\<lambda>x. x < 0) v"

lemma offset_ok_optional_int:
  "offset_ok v \<Longrightarrow> \<exists>x. optional_int v = Inr x \<and> nonneg x \<and> x = as_int v"
  by (cases v) (auto simp: offset_ok_def optional_int_def nonneg_def opt_sat_def)

lemma validated_entry:
  assumes "validate_profile_entry event entry = Inr ()"
  shows "opcode_value (jget entry ''opcode'') \<noteq> None"
    and "jget entry ''length'' = JNull \<or> int_in 5 0xFFFF (jget entry ''length'')"
    and "name \<in> set OFFSET_FIELDS \<Longrightarrow> offset_ok (jget entry name)"
    and "event = ''STORAGE_ITEM_DELTA'' \<Longrightarrow>
      ends_before (jget entry ''context_offset'') 4 (jget entry ''item_id_offset'') \<and>
      ends_before (jget entry ''record_count_offset'') 2 (jget entry ''item_id_offset'')"
    and "jget entry ''repeat_stride'' = JNull \<or> positive_int (jget entry ''repeat_stride'')"
proof -
  have f: "find (\<lambda>name. \<not> offset_ok (jget entry name)) OFFSET_FIELDS = None"
    using assms by (auto simp: validate_profile_entry_def split: option.splits)
  note v = assms [unfolded validate_profile_entry_def f option.case]
  show "opcode_value (jget entry ''opcode'') \<noteq> None"
    "jget entry ''length'' = JNull \<or> int_in 5 0xFFFF (jget entry ''length'')"
    "event = ''STORAGE_ITEM_DELTA'' \<Longrightarrow>
      ends_before (jget entry ''context_offset'') 4 (jget entry ''item_id_offset'') \<and>
      ends_before (jget entry ''record_count_offset'') 2 (jget entry ''item_id_offset'')"
    "jget entry ''repeat_stride'' = JNull \<or> positive_int (jget entry ''repeat_stride'')"
    using v unfolding check_Inr by blast+
  show "name \<in> set OFFSET_FIELDS \<Longrightarrow> offset_ok (jget entry name)"
    using f by (simp add: find_None_iff)
qed

text \<open>The errors that validation leaves to \<^verbatim>\<open>EventSpec.__post_init__\<close>.\<close>

definition geometry_error :: "entry_error \<Rightarrow> bool" where
  "geometry_error e \<longleftrightarrow> e \<in> set [InvalidSpec MinMessageLengthRange, InvalidSpec SingleRecordLengthRange]"

definition converts :: "entry_error + event_spec option \<Rightarrow> bool" where
  "converts r \<longleftrightarrow> (case r of Inl e \<Rightarrow> geometry_error e | Inr _ \<Rightarrow> True)"

lemma converts_bind: "r = Inr x \<Longrightarrow> converts (bind_r r f) = converts (f x)"
  by simp

lemma make_spec_converts:
  assumes "spec_label spec \<noteq> []" "uint16 (spec_opcode spec)" "0 \<le> spec_item_offset spec"
    "0 \<le> spec_quantity_offset spec" "nonneg (spec_inventory_slot_offset spec)"
    "nonneg (spec_source_context_offset spec)" "0 < spec_source_context_length spec"
    "nonneg (spec_record_count_offset spec)" "nonneg (spec_storage_instance_offset spec)"
    "nonneg (spec_item_instance_offset spec)" "\<not> opt_sat (\<lambda>x. x \<le> 0) (spec_repeat_stride spec)"
    "spec_label spec = ''INVENTORY_TO_STORAGE'' \<Longrightarrow>
       \<not> opt_sat (\<lambda>x. x + spec_source_context_length spec > spec_item_offset spec) (spec_source_context_offset spec) \<and>
       \<not> opt_sat (\<lambda>x. x + 2 > spec_item_offset spec) (spec_record_count_offset spec)"
  shows "converts (make_spec spec)"
  using assms
  by (auto simp: make_spec_def event_spec_post_init_def converts_def geometry_error_def uint16_def nonneg_def)

lemma positive_stride: "v = JNull \<or> positive_int v \<Longrightarrow> \<exists>x. optional_int v = Inr x \<and> \<not> opt_sat (\<lambda>x. x \<le> 0) x"
  by (cases v) (auto simp: positive_int_def optional_int_def opt_sat_def)

lemma length_optional_int: "v = JNull \<or> int_in 5 0xFFFF v \<Longrightarrow> \<exists>x. optional_int v = Inr x"
  by (cases v) (auto simp: optional_int_def int_in_def)

text \<open>The offsets of a validated entry convert, and none of them is negative.\<close>

lemma validated_offset:
  assumes "validate_profile_entry event entry = Inr ()" and "name \<in> set OFFSET_FIELDS"
  obtains x where "optional_int (jget entry name) = Inr x" "nonneg x" "x = as_int (jget entry name)"
  using offset_ok_optional_int [OF validated_entry(3) [OF assms]] that by blast

lemma converts_None [simp]: "converts (Inr None)"
  by (simp add: converts_def)

lemma nonneg_simps [simp]: "nonneg None" "nonneg (Some x) \<longleftrightarrow> 0 \<le> x"
  by (auto simp: nonneg_def opt_sat_def)

lemma opt_sat_None [simp]: "\<not> opt_sat P None"
  by (simp add: opt_sat_def)

lemma loot_preview_converts:
  assumes "validate_profile_entry event entry = Inr ()" and "uint16 opcode" and "nonneg io" and "nonneg qo"
  shows "converts (loot_preview_spec entry opcode len io qo)"
proof -
  obtain ii where ii: "optional_int (jget entry ''item_instance_offset'') = Inr ii" "nonneg ii"
    by (rule validated_offset [OF assms(1), of "''item_instance_offset''"]) (simp_all add: OFFSET_FIELDS_def)
  show ?thesis
    using assms(2-4) ii unfolding loot_preview_spec_def
    by (cases io; cases qo) (simp_all add: make_spec_converts blank_spec_def)
qed

lemma inventory_transfer_converts:
  assumes "validate_profile_entry event entry = Inr ()" and "uint16 opcode" and "nonneg io" and "nonneg qo"
  shows "converts (inventory_transfer_spec entry opcode len io qo)"
proof -
  obtain slot where slot: "optional_int (jget entry ''inventory_slot_offset'') = Inr slot" "nonneg slot"
    by (rule validated_offset [OF assms(1), of "''inventory_slot_offset''"]) (simp_all add: OFFSET_FIELDS_def)
  obtain co where co: "optional_int (jget entry ''context_offset'') = Inr co" "nonneg co"
    by (rule validated_offset [OF assms(1), of "''context_offset''"]) (simp_all add: OFFSET_FIELDS_def)
  obtain ii where ii: "optional_int (jget entry ''item_instance_offset'') = Inr ii" "nonneg ii"
    by (rule validated_offset [OF assms(1), of "''item_instance_offset''"]) (simp_all add: OFFSET_FIELDS_def)
  obtain rs where rs: "optional_int (jget entry ''repeat_stride'') = Inr rs" "\<not> opt_sat (\<lambda>x. x \<le> 0) rs"
    using positive_stride [OF validated_entry(5) [OF assms(1)]] by blast
  show ?thesis
  proof (cases "io = None \<or> qo = None")
    case True
    then show ?thesis
      by (auto simp: inventory_transfer_spec_def split: option.split)
  next
    case False
    then obtain item quantity where s: "io = Some item" "qo = Some quantity"
      by auto
    show ?thesis
      unfolding inventory_transfer_spec_def s prod.case option.case slot(1) co(1) ii(1) rs(1) bind_r_ok
      by (rule make_spec_converts) (use assms(2-4) slot(2) co(2) ii(2) rs(2) s in \<open>simp_all add: blank_spec_def\<close>)
  qed
qed

lemma storage_delta_converts:
  assumes valid: "validate_profile_entry ''STORAGE_ITEM_DELTA'' entry = Inr ()" and "uint16 opcode"
    and io: "nonneg io" "io = as_int (jget entry ''item_id_offset'')"
  shows "converts (storage_delta_spec entry opcode len io)"
proof -
  obtain qa where qa: "optional_int (jget entry ''quantity_added_offset'') = Inr qa" "nonneg qa"
    by (rule validated_offset [OF valid, of "''quantity_added_offset''"]) (simp_all add: OFFSET_FIELDS_def)
  obtain di where di: "optional_int (jget entry ''destination_instance_offset'') = Inr di" "nonneg di"
    by (rule validated_offset [OF valid, of "''destination_instance_offset''"]) (simp_all add: OFFSET_FIELDS_def)
  obtain co where co: "optional_int (jget entry ''context_offset'') = Inr co" "nonneg co"
    "co = as_int (jget entry ''context_offset'')"
    by (rule validated_offset [OF valid, of "''context_offset''"]) (simp_all add: OFFSET_FIELDS_def)
  obtain rc where rc: "optional_int (jget entry ''record_count_offset'') = Inr rc" "nonneg rc"
    "rc = as_int (jget entry ''record_count_offset'')"
    by (rule validated_offset [OF valid, of "''record_count_offset''"]) (simp_all add: OFFSET_FIELDS_def)
  obtain rs where rs: "optional_int (jget entry ''repeat_stride'') = Inr rs" "\<not> opt_sat (\<lambda>x. x \<le> 0) rs"
    using positive_stride [OF validated_entry(5) [OF valid]] by blast
  have before: "\<not> opt_sat (\<lambda>x. x + 4 > item) co \<and> \<not> opt_sat (\<lambda>x. x + 2 > item) rc" if "io = Some item" for item
    using validated_entry(4) [OF valid refl] that unfolding ends_before_def io(2) co(3) rc(3)
    by (auto simp: opt_sat_def split: option.splits)
  show ?thesis
    using assms(2) io(1) qa di co(1,2) rc(1,2) rs before unfolding storage_delta_spec_def
    by (cases io; cases qa) (simp_all add: make_spec_converts blank_spec_def)
qed

lemma validated_entry_converts:
  assumes valid: "validate_profile_entry event entry = Inr ()"
  shows "converts (event_spec_from_entry event entry)"
proof -
  obtain opcode where op: "opcode_value (jget entry ''opcode'') = Some opcode" "uint16 opcode"
    using validated_entry(1) [OF valid] opcode_value_range [of "jget entry ''opcode''"]
    by (auto simp: uint16_def)
  obtain len where len: "optional_int (jget entry ''length'') = Inr len"
    using length_optional_int [OF validated_entry(2) [OF valid]] by blast
  obtain io where io: "optional_int (jget entry ''item_id_offset'') = Inr io" "nonneg io"
    "io = as_int (jget entry ''item_id_offset'')"
    by (rule validated_offset [OF valid, of "''item_id_offset''"]) (simp_all add: OFFSET_FIELDS_def)
  obtain qo where qo: "optional_int (jget entry ''quantity_offset'') = Inr qo" "nonneg qo"
    by (rule validated_offset [OF valid, of "''quantity_offset''"]) (simp_all add: OFFSET_FIELDS_def)
  note parts = loot_preview_converts [OF valid op(2) io(2) qo(2), of len]
    inventory_transfer_converts [OF valid op(2) io(2) qo(2), of len]
  have storage: "converts (storage_delta_spec entry opcode len io)" if "event = ''STORAGE_ITEM_DELTA''"
    using storage_delta_converts [of entry opcode io len] valid op(2) io(2,3) that by simp
  have "event_spec_from_entry event entry =
      (if event = ''LOOT_PREVIEW'' then loot_preview_spec entry opcode len io qo
       else if event = ''INVENTORY_TRANSFER'' then inventory_transfer_spec entry opcode len io qo
       else if event = ''STORAGE_ITEM_DELTA'' then storage_delta_spec entry opcode len io else Inr None)"
    by (simp add: event_spec_from_entry_def parse_opcode_def op(1) len io(1) qo(1))
  then show ?thesis
    using parts storage by simp
qed

lemma profile_entries_validated:
  assumes "opcode_profile_from_data v path = Inr p" and "(event, entries) \<in> set (op_specs p)" and "entry \<in> set entries"
  shows "\<exists>d. validate_profile_entry event d = Inr () \<and>
    entry = freeze_profile_mapping (freeze_profile_mapping d)"
proof -
  obtain data specs where specs: "specs_from_data data = Inr specs"
    and p: "op_specs p = map (\<lambda>(event, entries). (event, map freeze_profile_mapping entries))
      (map (\<lambda>(event, entries). (event, map freeze_profile_mapping entries)) specs)"
    using assms(1) that
    by (auto simp: opcode_profile_from_data_def opcode_profile_post_init_def Let_def split: json.splits)
  obtain es where es: "(event, es) \<in> set specs" "entries = map freeze_profile_mapping (map freeze_profile_mapping es)"
    using assms(2) unfolding p by auto
  then obtain d where d: "d \<in> set es" "entry = freeze_profile_mapping (freeze_profile_mapping d)"
    using assms(3) by auto
  obtain items where items: "map_r normalized_entries items = Inr specs"
    using specs by (auto simp: specs_from_data_def split: json.splits)
  from map_r_source [OF items es(1)] obtain item where item: "normalized_entries item = Inr (event, es)" ..
  then obtain vs where vs: "item = (event, JList vs)"
    by (cases item; cases "snd item") (auto simp: normalized_entries_def)
  then have entries: "map_r (\<lambda>e. case e of JObj d \<Rightarrow> bind_r (validate_profile_entry event d) (\<lambda>_. Inr d)
      | _ \<Rightarrow> Inl (EntryNotObject event)) vs = Inr es"
    using item by (simp add: normalized_entries_def)
  from map_r_source [OF entries d(1)]
  obtain x where "(case x of JObj d \<Rightarrow> bind_r (validate_profile_entry event d) (\<lambda>_. Inr d)
      | _ \<Rightarrow> Inl (EntryNotObject event)) = Inr d" ..
  then have "validate_profile_entry event d = Inr ()"
    by (cases x) auto
  with d(2) show ?thesis
    by blast
qed

section \<open>What a profile denotes\<close>

definition entry_converts :: "string \<Rightarrow> jobject \<Rightarrow> bool" where
  "entry_converts event entry \<longleftrightarrow>
     (case event_spec_from_entry event entry of
        Inl _ \<Rightarrow> False | Inr None \<Rightarrow> event \<notin> set decodable_events | Inr (Some _) \<Rightarrow> True)"

definition entry_specs :: "string \<Rightarrow> jobject \<Rightarrow> event_spec list" where
  "entry_specs event entry = (case event_spec_from_entry event entry of Inr (Some spec) \<Rightarrow> [spec] | _ \<Rightarrow> [])"

definition profile_entries :: "opcode_profile \<Rightarrow> (string \<times> jobject) list" where
  "profile_entries p = concat (map (\<lambda>(event, entries). map (\<lambda>entry. (event, entry)) entries) (op_specs p))"

definition produced :: "opcode_profile \<Rightarrow> event_spec list" where
  "produced p = dedupe_event_specs (concat (map (\<lambda>(event, entry). entry_specs event entry) (profile_entries p)))"

text \<open>No two distinct loot layouts of one opcode share a message length.\<close>

definition loot_exclusive :: "event_spec list \<Rightarrow> bool" where
  "loot_exclusive specs \<longleftrightarrow>
     list_all (\<lambda>a. list_all (\<lambda>b. a = b \<or> \<not> loot_of (spec_opcode a) a \<or> \<not> loot_of (spec_opcode a) b \<or>
        \<not> domains_overlap a b) specs) specs"

lemma load_entry_eq:
  "(\<exists>ss. load_entry event entry = Inr ss) \<longleftrightarrow> entry_converts event entry"
  "entry_converts event entry \<Longrightarrow> load_entry event entry = Inr (entry_specs event entry)"
  by (auto simp: load_entry_def entry_converts_def entry_specs_def split: sum.splits option.splits)

lemma load_specs_eq:
  "(\<exists>ss. load_specs (op_specs p) = Inr ss) \<longleftrightarrow> list_all (\<lambda>(event, entry). entry_converts event entry) (profile_entries p)"
  "list_all (\<lambda>(event, entry). entry_converts event entry) (profile_entries p) \<Longrightarrow>
     load_specs (op_specs p) = Inr (concat (map (\<lambda>(event, entry). entry_specs event entry) (profile_entries p)))"
proof -
  show *: "load_specs (op_specs p) = Inr (concat (map (\<lambda>(event, entry). entry_specs event entry) (profile_entries p)))"
    if "list_all (\<lambda>(event, entry). entry_converts event entry) (profile_entries p)"
  proof -
    have "map_r (\<lambda>(event, entry). load_entry event entry) (profile_entries p)
        = Inr (map (\<lambda>(event, entry). entry_specs event entry) (profile_entries p))"
      using that load_entry_eq(2) by (intro map_r_ok) (auto simp: list_all_iff)
    then show ?thesis
      by (simp add: load_specs_def profile_entries_def)
  qed
  show "(\<exists>ss. load_specs (op_specs p) = Inr ss) \<longleftrightarrow>
      list_all (\<lambda>(event, entry). entry_converts event entry) (profile_entries p)"
  proof
    assume "\<exists>ss. load_specs (op_specs p) = Inr ss"
    then obtain yss where "map_r (\<lambda>(event, entry). load_entry event entry) (profile_entries p) = Inr yss"
      by (auto simp: load_specs_def profile_entries_def)
    then have "\<exists>ys. (case x of (event, entry) \<Rightarrow> load_entry event entry) = Inr ys" if "x \<in> set (profile_entries p)" for x
      using that unfolding map_r_Inr list_all2_conv_all_nth in_set_conv_nth by metis
    then show "list_all (\<lambda>(event, entry). entry_converts event entry) (profile_entries p)"
      using load_entry_eq(1) by (auto simp: list_all_iff)
  qed (use * in blast)
qed

lemma loot_exclusive_iff: "distinct specs \<Longrightarrow> validate_unambiguous_loot_specs specs = Inr () \<longleftrightarrow> loot_exclusive specs"
  unfolding validate_unambiguous_iff loot_exclusive_def list_all_iff by blast

end
