(* ===== verification/Profile_Properties.thy ===== *)
theory Profile_Properties
  imports Profile_Facts
begin

text \<open>
  The properties of the profile loaders, each with a concrete profile.
\<close>

section \<open>Sample profiles\<close>

definition sample_xp :: json where
  "sample_xp = JObj [(''opcode'', JStr ''0x0FA1''), (''message_length'', JInt 40), (''level_offset'', JInt 5),
     (''current_offset'', JInt 8), (''required_offset'', JInt 16), (''flag'', JInt 0),
     (''encoding'', JStr ''level-u8-xp-u64le-solo-v1'')]"

definition sample_agris :: json where
  "sample_agris = JObj [(''opcode'', JStr ''4001''), (''message_length'', JInt 30), (''remaining_offset'', JInt 9),
     (''maximum_offset'', JInt 13), (''flag'', JInt 0), (''encoding'', JStr ''uint32_le''),
     (''observed_date'', JStr ''2024-02-29'')]"

definition sample_family :: json where
  "sample_family = JObj [(''delta_opcode'', JStr ''0x10''), (''companion_opcodes'', JList [JInt 3, JStr ''0xffff'']),
     (''companion_lengths'', JList [JInt 20, JInt 30]), (''detection'', JStr ''shared-token-chain-v1''),
     (''observations'', JInt 2), (''promoted_at'', JNull)]"

definition loot_entry :: "int \<Rightarrow> jobject" where
  "loot_entry len = [(''opcode'', JStr ''0x1A''), (''length'', JInt len), (''item_id_offset'', JInt 7),
     (''quantity_offset'', JInt 11)]"

definition sample_profile :: "int list \<Rightarrow> opcode_profile" where
  "sample_profile lengths = \<lparr>op_path = ''opcodes.json'', op_active = True, op_version = 1, op_updated_at = None,
     op_calibration_item_id = None, op_specs = [(''LOOT_PREVIEW'', map loot_entry lengths)],
     op_origin_companion_families = [], op_agris = None, op_xp = None, op_characters = None,
     op_character_profile_error = None\<rparr>"

definition sample_loot :: "int \<Rightarrow> event_spec" where
  "sample_loot len = (blank_spec ''LOOT_PREVIEW'' 26 7 11 len)
     \<lparr>spec_single_record_message_length := Some len, spec_default_context := Some ''Gathering''\<rparr>"

lemma sample_layouts_load:
  "xp_layout_of sample_xp = Inr (Some \<lparr>xp_opcode = 4001, xp_message_length = 40, xp_level_offset = 5,
     xp_current_offset = 8, xp_required_offset = 16, xp_flag = 0, xp_encoding = XP_ENCODING\<rparr>)"
  "agris_layout_of sample_agris = Inr (Some \<lparr>ag_opcode = 4001, ag_message_length = 30, ag_remaining_offset = 9,
     ag_maximum_offset = 13, ag_flag = 0, ag_encoding = ''uint32_le'', ag_observed_date = Some ''2024-02-29''\<rparr>)"
  "origin_companion_family sample_family = Inr \<lparr>cf_delta_opcode = 16, cf_companion_opcodes = (3, 65535),
     cf_companion_lengths = (20, 30), cf_detection = DETECTION, cf_observations = 2, cf_promoted_at = None\<rparr>"
  by code_simp+

lemma sample_profile_loads:
  "event_specs_from_profile (sample_profile [20, 30])
     = Inr \<lparr>lsp_active = True, lsp_specs = [sample_loot 20, sample_loot 30], lsp_source = ''opcodes.json''\<rparr>"
  by code_simp

definition sample_characters :: json where
  "sample_characters = JObj [(''schema_version'', JInt 1), (''tables'', JObj
     [(''roster'', JObj [(''opcode'', JInt 5), (''header'', JInt 7), (''stride'', JInt 10), (''count_offset'', JInt 5),
         (''fixed_count'', JNull), (''fields'', JObj [(''owner'', JInt 2)])]),
      (''remote'', JObj [(''opcode'', JInt 6), (''header'', JInt 14), (''stride'', JInt 25), (''count_offset'', JInt 8),
         (''fixed_count'', JNull), (''fields'', JObj [(''owner'', JInt 0), (''container'', JInt 8), (''slot'', JInt 9),
            (''item'', JInt 10), (''quantity'', JInt 14)])])])]"

definition sample_tables :: character_layout_profile where
  "sample_tables =
     [(''roster'', \<lparr>ct_opcode = 5, ct_header = 7, ct_stride = 10, ct_count_offset = Some 5, ct_fixed_count = None,
        ct_fields = [(''owner'', 2)]\<rparr>),
      (''remote'', \<lparr>ct_opcode = 6, ct_header = 14, ct_stride = 25, ct_count_offset = Some 8, ct_fixed_count = None,
        ct_fields = [(''owner'', 0), (''container'', 8), (''slot'', 9), (''item'', 10), (''quantity'', 14)]\<rparr>)]"

lemma sample_characters_load: "character_profile_from_dict sample_characters = Inr sample_tables"
  by code_simp

section \<open>Properties\<close>

text \<open>C28. What a profile writes reads back: a layout or an origin family that was loaded, with
  its opcodes given as numbers or as decimal or hexadecimal text, is written with its opcodes
  as \<^verbatim>\<open>0x%04X\<close> and loads again as the same value.\<close>

theorem layouts_read_back:
  assumes "xp_layout_of v = Inr (Some x)" and "agris_layout_of w = Inr (Some a)"
    and "origin_companion_family u = Inr f"
  shows "xp_layout_of (xp_to_dict x) = Inr (Some x) \<and> agris_layout_of (agris_to_dict a) = Inr (Some a) \<and>
    origin_companion_family (family_to_dict f) = Inr f"
  using assms xp_layout_of_Some xp_to_dict_reads_back agris_layout_of_Some agris_to_dict_reads_back
    family_reads_back(1) by blast

theorem layouts_read_back_witness:
  "xp_layout_of (xp_to_dict \<lparr>xp_opcode = 4001, xp_message_length = 40, xp_level_offset = 5,
     xp_current_offset = 8, xp_required_offset = 16, xp_flag = 0, xp_encoding = XP_ENCODING\<rparr>)
   = Inr (Some \<lparr>xp_opcode = 4001, xp_message_length = 40, xp_level_offset = 5,
     xp_current_offset = 8, xp_required_offset = 16, xp_flag = 0, xp_encoding = XP_ENCODING\<rparr>)"
  using layouts_read_back [OF sample_layouts_load] by blast

text \<open>C29. A character layout reads back: the tables a document was loaded into are written to a
  document that loads into the same tables.\<close>

theorem character_layout_reads_back:
  assumes "character_profile_from_dict v = Inr p"
  shows "character_profile_from_dict (character_profile_to_dict p) = Inr p"
  using assms by (rule character_profile_reads_back)

theorem character_layout_reads_back_witness:
  "character_profile_from_dict (character_profile_to_dict sample_tables) = Inr sample_tables"
  by (rule character_layout_reads_back [OF sample_characters_load])

text \<open>The fields of every accepted layout lie inside its message, behind the frame header,
  and on bytes of their own, so reading them never fails and never reads one byte as part of
  two fields.\<close>

theorem layout_fields_apart:
  assumes "xp_post_init x = Inr x" and "agris_post_init a = Inr a"
  shows "(let spans = [(xp_level_offset x, 1), (xp_current_offset x, 8), (xp_required_offset x, 8)] in
      sorted_wrt apart spans \<and> list_all (\<lambda>(start, width). 5 \<le> start \<and> start + width \<le> xp_message_length x) spans) \<and>
    (let spans = [(ag_remaining_offset a, 4), (ag_maximum_offset a, 4)] in
      sorted_wrt apart spans \<and> list_all (\<lambda>(start, width). 5 \<le> start \<and> start + width \<le> ag_message_length a) spans)"
proof -
  have "spans_disjoint (xp_message_length x)
      [(xp_level_offset x, 1), (xp_current_offset x, 8), (xp_required_offset x, 8)] {}"
    "5 \<le> xp_level_offset x" "5 \<le> xp_current_offset x" "5 \<le> xp_required_offset x"
    using assms(1) by (auto simp: xp_post_init_def xp_layout_init_def Let_def split: if_splits option.splits)
  moreover have "5 \<le> ag_remaining_offset a" "5 \<le> ag_maximum_offset a"
    "max (ag_remaining_offset a) (ag_maximum_offset a) + 4 \<le> ag_message_length a"
    "4 \<le> \<bar>ag_remaining_offset a - ag_maximum_offset a\<bar>"
    using assms(2) by (auto simp: agris_post_init_def agris_layout_init_def Let_def split: if_splits option.splits)
  ultimately show ?thesis
    by (auto simp: spans_disjoint_iff apart_def Let_def)
qed

theorem layout_fields_apart_witness:
  "sorted_wrt apart [(5, 1), (8, 8), (16, 8)]"
proof -
  let ?x = "\<lparr>xp_opcode = 4001, xp_message_length = 40, xp_level_offset = 5,
     xp_current_offset = 8, xp_required_offset = 16, xp_flag = 0, xp_encoding = XP_ENCODING\<rparr>"
  let ?a = "\<lparr>ag_opcode = 4001, ag_message_length = 30, ag_remaining_offset = 9,
     ag_maximum_offset = 13, ag_flag = 0, ag_encoding = ''uint32_le'', ag_observed_date = Some ''2024-02-29''\<rparr>"
  show ?thesis
    using layout_fields_apart [of ?x ?a, OF xp_layout_of_Some [OF sample_layouts_load(1)]
        agris_layout_of_Some [OF sample_layouts_load(2)]] by (simp add: Let_def)
qed

text \<open>The rows of a character message are the message: when its length fits the table, the
  rows are consecutive slices of the table's stride that together are everything behind the
  header.\<close>

theorem table_rows_partition:
  assumes "character_table_of v = Inr t" and "table_rows t message = Inr rows"
  shows "concat rows = drop (nat (ct_header t)) message \<and>
    list_all (\<lambda>row. int (length row) = ct_stride t) rows"
proof -
  obtain d where "character_table_init (jget d ''opcode'') (jget d ''header'') (jget d ''stride'')
      (jget d ''count_offset'') (jget d ''fixed_count'') (jget d ''fields'') = Inr t"
    using assms(1) by (auto simp: character_table_of_def split: json.splits)
  then have geometry: "0 \<le> ct_header t" "1 \<le> ct_stride t" "\<forall>n. ct_fixed_count t = Some n \<longrightarrow> 0 \<le> n"
    by (auto simp: character_table_init_def as_int_Some split: option.splits json.splits)
  obtain n where len: "int (length message) = ct_header t + n * ct_stride t" and n: "0 \<le> n"
    and rows: "rows = map (\<lambda>i. py_slice message (ct_header t + int i * ct_stride t)
      (ct_header t + int i * ct_stride t + ct_stride t)) [0..<nat n]"
    using assms(2) geometry(3) by (rule table_rows_Inr)
  let ?w = "nat (ct_stride t)" and ?h = "nat (ct_header t)"
  have "0 \<le> n * ct_stride t" "nat (n * ct_stride t) = nat n * ?w"
    using n geometry by (simp_all add: nat_mult_distrib)
  then have body: "length (drop ?h message) = nat n * ?w"
    using len geometry(1) by simp
  have rows': "rows = map (\<lambda>i. take ?w (drop (i * ?w) (drop ?h message))) [0..<nat n]"
    unfolding rows by (intro map_cong) (auto simp: row_slice [OF geometry(1,2) len])
  have "length (take ?w (drop (i * ?w) (drop ?h message))) = ?w" if "i < nat n" for i
  proof -
    have "Suc i * ?w \<le> nat n * ?w"
      using that by (intro mult_le_mono1) simp
    then have "i * ?w + ?w \<le> length (drop ?h message)"
      unfolding body by simp
    then show ?thesis
      by (rule length_take_drop)
  qed
  then show ?thesis
    using concat_slices [OF _ body] geometry by (auto simp: rows' list_all_iff)
qed

abbreviation sample_rows :: "bytes list" where
  "sample_rows \<equiv> [map word_of_int [1..10], map word_of_int [11..20]]"

theorem table_rows_partition_witness:
  "concat sample_rows = drop 7 ([0, 0, 0, 0, 0, 2, 0] @ map word_of_int [1..20])"
proof -
  let ?t = "snd (hd sample_tables)"
  have t: "character_table_of (character_table_to_dict ?t) = Inr ?t"
    by code_simp
  have "table_rows ?t ([0, 0, 0, 0, 0, 2, 0] @ map word_of_int [1..20]) = Inr sample_rows"
    by code_simp
  from table_rows_partition [OF t this] show ?thesis
    by (simp add: sample_tables_def)
qed

text \<open>C27. The specs of a loaded profile are specs the scanner can rely on: each satisfies every
  check of \<^verbatim>\<open>EventSpec.__post_init__\<close>, ends all its fields within its minimal
  message length, and appears once.\<close>

theorem loaded_specs_sound:
  assumes "event_specs_from_profile p = Inr l"
  shows "list_all (\<lambda>spec. spec_ok spec \<and> spec_covers_fields spec) (lsp_specs l) \<and> distinct (lsp_specs l)"
proof -
  have "spec_ok spec \<and> spec_covers_fields spec" if "spec \<in> set (lsp_specs l)" for spec
    using loaded_spec [OF assms that] event_spec_from_entry_Some by blast
  moreover have "distinct (lsp_specs l)"
    using assms distinct_dedupe by (auto simp: event_specs_from_profile_def Let_def split: if_splits)
  ultimately show ?thesis
    by (simp add: list_all_iff)
qed

theorem loaded_specs_sound_witness:
  "list_all spec_ok [sample_loot 20, sample_loot 30]"
  using loaded_specs_sound [OF sample_profile_loads] by simp

text \<open>C25. Loot layouts never compete at runtime: the scanner accepts no message length for two
  loot layouts of one opcode, so a loot message of a loaded profile is decoded by one layout
  or not at all.\<close>

theorem loot_layouts_exclusive:
  assumes "event_specs_from_profile p = Inr l" and "a \<in> set (lsp_specs l)" and "b \<in> set (lsp_specs l)"
    and "spec_label a = ''LOOT_PREVIEW''" and "spec_label b = ''LOOT_PREVIEW''" and "spec_opcode a = spec_opcode b"
    and "spec_accepts a n" and "spec_accepts b n"
  shows "a = b"
proof (rule ccontr)
  assume "a \<noteq> b"
  have "validate_unambiguous_loot_specs (lsp_specs l) = Inr ()"
    using assms(1,2) by (auto simp: event_specs_from_profile_def Let_def split: if_splits)
  then have "\<not> domains_overlap a b"
    using assms(2-6) \<open>a \<noteq> b\<close> by (intro unambiguous_loot [of "lsp_specs l" a b "spec_opcode a"]) (auto simp: loot_of_def)
  moreover have inside: "fst (loot_message_length_domain s) \<le> n \<and> n \<le> snd (loot_message_length_domain s)"
    if "s \<in> set (lsp_specs l)" "spec_label s = ''LOOT_PREVIEW''" "spec_accepts s n" for s
    using that loaded_spec [OF assms(1) that(1)] event_spec_from_entry_Some [of _ _ s]
    by (auto simp: spec_accepts_def message_length_matches_spec_def supports_structural_record_scan_def
        structural_instance_offset_def configured_message_length_matches_spec_def
        loot_message_length_domain_def split: option.splits)
  have "domains_overlap a b"
    using inside [OF assms(2,4,7)] inside [OF assms(3,5,8)] by (auto simp: domains_overlap_def split: prod.splits)
  ultimately show False
    by simp
qed

theorem loot_layouts_exclusive_witness:
  "\<not> spec_accepts (sample_loot 30) 20"
proof
  have "spec_accepts (sample_loot 20) 20"
    by code_simp
  moreover assume "spec_accepts (sample_loot 30) 20"
  ultimately have "sample_loot 20 = sample_loot 30"
    by (intro loot_layouts_exclusive [OF sample_profile_loads]) (simp_all add: sample_loot_def blank_spec_def)
  then show False
    by (simp add: sample_loot_def blank_spec_def)
qed



text \<open>Validation leaves only geometry to reject: every entry of a profile that was loaded from
  a document has an opcode, and turning it into a spec fails, if at all, because its fields do
  not fit the largest message or its declared length; no other check of the spec constructor
  can fail at runtime.\<close>

theorem loaded_entries_convert:
  assumes "opcode_profile_from_data v path = Inr p"
  shows "list_all (\<lambda>(event, entry). parse_opcode (jget entry ''opcode'') \<noteq> None \<and>
    (case event_spec_from_entry event entry of
       Inl e \<Rightarrow> e \<in> set [InvalidSpec MinMessageLengthRange, InvalidSpec SingleRecordLengthRange]
     | Inr _ \<Rightarrow> True)) (profile_entries p)"
proof -
  have "parse_opcode (jget entry ''opcode'') \<noteq> None \<and> converts (event_spec_from_entry event entry)"
    if member: "(event, entries) \<in> set (op_specs p)" "entry \<in> set entries" for event entries entry
  proof -
    obtain d where d: "validate_profile_entry event d = Inr ()"
      "entry = freeze_profile_mapping (freeze_profile_mapping d)"
      using profile_entries_validated [OF assms member] by blast
    show ?thesis
      unfolding d(2) event_spec_from_entry_freeze jget_freeze parse_opcode_def opcode_value_freeze
      using validated_entry_converts [OF d(1)] validated_entry(1) [OF d(1)] by blast
  qed
  then show ?thesis
    unfolding converts_def geometry_error_def by (auto simp: profile_entries_def list_all_iff)
qed

definition sample_document :: json where
  "sample_document = JObj [(''version'', JInt 1), (''profile_active'', JBool True),
     (''specs'', JObj [(''LOOT_PREVIEW'', JList [JObj (loot_entry 20), JObj (loot_entry 12)])])]"

theorem loaded_entries_convert_witness:
  "event_spec_from_entry ''LOOT_PREVIEW'' (loot_entry 12) = Inl (InvalidSpec SingleRecordLengthRange) \<and>
   (\<exists>p. opcode_profile_from_data sample_document ''opcodes.json'' = Inr p \<and>
      list_all (\<lambda>(event, entry). parse_opcode (jget entry ''opcode'') \<noteq> None) (profile_entries p))"
proof -
  have "\<not> isl (opcode_profile_from_data sample_document ''opcodes.json'')"
    by code_simp
  then obtain p where p: "opcode_profile_from_data sample_document ''opcodes.json'' = Inr p"
    by (cases "opcode_profile_from_data sample_document ''opcodes.json''") auto
  have "event_spec_from_entry ''LOOT_PREVIEW'' (loot_entry 12) = Inl (InvalidSpec SingleRecordLengthRange)"
    by code_simp
  then show ?thesis
    using loaded_entries_convert [OF p] p by (auto simp: list_all_iff)
qed

end
