(* ===== verification/Bdo_Event.thy ===== *)
theory Bdo_Event
  imports Json_Values Protocol
begin

text \<open>
  The app-facing events of \<^verbatim>\<open>src/bdo_toolkit/events.py\<close>, the filters over them of
  \<^verbatim>\<open>filters.py\<close>, and the normalization of a decoded record into an event of
  \<^verbatim>\<open>_engine.py\<close>. \<^verbatim>\<open>Flow\<close> and \<^verbatim>\<open>FlowKey\<close> have the
  same four fields and share \<open>flow_key\<close>. Freezing the mapping \<^verbatim>\<open>extra\<close>
  changes no value, so it is the object itself.
\<close>

section \<open>Events\<close>

record bdo_event =
  ev_type :: string
  ev_timestamp :: pyfloat
  ev_flow :: flow_key
  ev_item_id :: int
  ev_quantity :: int
  ev_source :: "string option"
  ev_raw_context :: "string option"
  ev_opcode :: "int option"
  ev_message_length :: "int option"
  ev_base_item_id :: "int option"
  ev_enhancement_level :: "int option"
  ev_enhancement :: "string option"
  ev_inventory_slot :: "int option"
  ev_item_instance :: "string option"
  ev_storage_instance :: "string option"
  ev_record_index :: "int option"
  ev_record_count :: "int option"
  ev_record_offset :: "int option"
  ev_confidence :: "string option"
  ev_extra :: jobject
  ev_storage_id :: "int option"
  ev_storage_name :: "string option"
  ev_storage_name_confidence :: "string option"
  ev_flow_generation :: int

section \<open>Filters\<close>

record event_filter =
  ef_event_types :: "string set option"
  ef_sources :: "string set option"
  ef_storage_ids :: "int set option"
  ef_item_ids :: "int set option"

definition unconstrained_filter :: event_filter where
  "unconstrained_filter =
     \<lparr>ef_event_types = None, ef_sources = None, ef_storage_ids = None, ef_item_ids = None\<rparr>"

definition ACTIVITY_EVENT_TYPES :: "string set" where
  "ACTIVITY_EVENT_TYPES = {''loot_preview'', ''item_received'', ''storage_delta''}"

definition SNAPSHOT_RECORD_EVENT_TYPES :: "string set" where
  "SNAPSHOT_RECORD_EVENT_TYPES = {''inventory_snapshot'', ''storage_snapshot''}"

definition activity_filter :: event_filter where
  "activity_filter = unconstrained_filter\<lparr>ef_event_types := Some ACTIVITY_EVENT_TYPES\<rparr>"

definition snapshot_records_filter :: event_filter where
  "snapshot_records_filter = unconstrained_filter\<lparr>ef_event_types := Some SNAPSHOT_RECORD_EVENT_TYPES\<rparr>"

text \<open>\<^verbatim>\<open>None\<close> is in no set of strings or numbers.\<close>

definition allowed_by :: "'a set option \<Rightarrow> 'a option \<Rightarrow> bool" where
  "allowed_by values v \<longleftrightarrow>
     (case values of None \<Rightarrow> True | Some A \<Rightarrow> (case v of None \<Rightarrow> False | Some x \<Rightarrow> x \<in> A))"

definition filter_allows :: "event_filter \<Rightarrow> bdo_event \<Rightarrow> bool" where
  "filter_allows f event =
     (if \<not> allowed_by (ef_event_types f) (Some (ev_type event)) then False
      else if \<not> allowed_by (ef_sources f) (ev_source event) then False
      else if \<not> allowed_by (ef_storage_ids f) (ev_storage_id event) then False
      else allowed_by (ef_item_ids f) (Some (ev_item_id event)))"

section \<open>From a decoded record to an event\<close>

definition hex_of :: "bytes option \<Rightarrow> string option" where
  "hex_of v = (case v of None \<Rightarrow> None | Some b \<Rightarrow> Some (''0x'' @ bytes_hex b))"

text \<open>\<^verbatim>\<open>str.lower\<close> on the code points below 256.\<close>

definition lower_char :: "char \<Rightarrow> char" where
  "lower_char c =
     (let n = of_char c :: nat
      in if (65 \<le> n \<and> n \<le> 90) \<or> (192 \<le> n \<and> n \<le> 222 \<and> n \<noteq> 215) then char_of (n + 32) else c)"

definition event_type_for_label :: "string \<Rightarrow> string" where
  "event_type_for_label label =
     (case map_of [(''LOOT_PREVIEW'', ''loot_preview''), (''INVENTORY_TRANSFER'', ''item_received''),
                   (''INVENTORY_TO_STORAGE'', ''storage_delta'')] label of
        Some t \<Rightarrow> t
      | None \<Rightarrow> map lower_char label)"

definition event_type_for_record :: "loot_event \<Rightarrow> string" where
  "event_type_for_record event =
     (if le_label event = ''INVENTORY_TRANSFER''
      then (if le_source_context_candidate event = Some CHARACTER_LOAD_CONTEXT then ''inventory_snapshot''
            else if le_source_context_candidate event = None then ''inventory_record''
            else ''item_received'')
      else if le_label event = ''INVENTORY_TO_STORAGE''
      then (if le_storage_operation event = Some ''snapshot'' then ''storage_snapshot''
            else if le_storage_operation event = Some ''live'' then ''storage_delta''
            else ''storage_record'')
      else event_type_for_label (le_label event))"

definition record_storage_id :: "loot_event \<Rightarrow> int option" where
  "record_storage_id event =
     (let storage_id = (case le_storage_id event of
            None \<Rightarrow> None
          | Some k \<Rightarrow> if \<not> (0 < k \<and> k \<le> 0xFFFFFFFF) then None else Some k)
      in case (storage_id, le_source_context_candidate event) of
           (None, Some c) \<Rightarrow>
             if le_label event = ''INVENTORY_TO_STORAGE'' \<and> length c = 4 \<and> c \<noteq> [0, 0, 0, 0]
             then Some (from_le c) else None
         | _ \<Rightarrow> storage_id)"

definition toolkit_event_from_record :: "loot_event \<Rightarrow> bdo_event" where
  "toolkit_event_from_record event =
     (let (decoded_base_item_id, enhancement_level, enhancement) = split_item_id_enhancement (le_item_id event);
          is_storage = (le_label event = ''INVENTORY_TO_STORAGE'');
          storage_id = record_storage_id event;
          location = (if is_storage then storage_location storage_id else None)
      in \<lparr>ev_type = event_type_for_record event,
          ev_timestamp = ctx_timestamp (le_context event),
          ev_flow = ctx_flow (le_context event),
          ev_item_id = le_item_id event,
          ev_quantity = le_quantity event,
          ev_source = (if is_storage then None
                       else source_label (le_source_context_candidate event) (le_default_context event)),
          ev_raw_context = hex_of (le_source_context_candidate event),
          ev_opcode = Some (le_opcode event),
          ev_message_length = Some (le_message_length event),
          ev_base_item_id = (if enhancement_level \<noteq> None then Some decoded_base_item_id else None),
          ev_enhancement_level = enhancement_level,
          ev_enhancement = enhancement,
          ev_inventory_slot = le_inventory_slot event,
          ev_item_instance = hex_of (le_item_instance event),
          ev_storage_instance = hex_of (le_storage_instance event),
          ev_record_index = le_record_index event,
          ev_record_count = le_record_count event,
          ev_record_offset = le_record_offset event,
          ev_confidence = Some ''observed'',
          ev_extra = (case le_stream_sequence event of
                        None \<Rightarrow> [] | Some q \<Rightarrow> [(''stream_sequence'', JInt q)]),
          ev_storage_id = storage_id,
          ev_storage_name = map_option loc_name location,
          ev_storage_name_confidence = map_option loc_confidence location,
          ev_flow_generation = ctx_flow_generation (le_context event)\<rparr>)"

end
