(* ===== verification/Storage_Hydration.thy ===== *)
theory Storage_Hydration
  imports Bdo_Event
begin

text \<open>
  \<^verbatim>\<open>src/bdo_toolkit/_storage_hydration.py\<close>: neutral storage records are held back
  per connection until a cohort with enough distinct destinations proves a character load,
  and leave as snapshots then, as they came otherwise.

  Every operation is a section under the lock, which queues events in the outbox, followed
  by \<^verbatim>\<open>_drain_outbox\<close>. The consumer \<^verbatim>\<open>emit\<close> is a parameter; its
  result says whether it raised. The lock is released while it runs, so other threads, or the
  consumer itself, may execute whole sections between two deliveries: \<open>tracker_step\<close> is
  that interleaving, \<open>run_hydration\<close> the sequential use.
\<close>

section \<open>State\<close>

type_synonym hydration_key = "flow_key \<times> int"

definition hydration_key :: "bdo_event \<Rightarrow> hydration_key" where
  "hydration_key event = (ev_flow event, ev_flow_generation event)"

text \<open>The set of destinations is a list without repetitions.\<close>

record hydration_burst =
  hb_first_timestamp :: pyfloat
  hb_last_timestamp :: pyfloat
  hb_anchored :: bool
  hb_opcode :: "int option"
  hb_events :: "bdo_event list"
  hb_destinations :: "int list"
  hb_max_record_count :: int
  hb_confirmed :: bool

definition BURST_GAP_SECONDS :: pyfloat where
  "BURST_GAP_SECONDS = Finite (1 / 2)"

definition MAX_BURST_SECONDS :: pyfloat where
  "MAX_BURST_SECONDS = Finite 1"

definition HYDRATION_EPOCH_SECONDS :: pyfloat where
  "HYDRATION_EPOCH_SECONDS = Finite 30"

definition INVENTORY_GENERATION_GAP_SECONDS :: pyfloat where
  "INVENTORY_GENERATION_GAP_SECONDS = Finite 1"

definition MIN_ANCHORED_DESTINATIONS :: nat where
  "MIN_ANCHORED_DESTINATIONS = 8"

definition MIN_UNANCHORED_DESTINATIONS :: nat where
  "MIN_UNANCHORED_DESTINATIONS = 17"

definition MIN_UNANCHORED_RECORD_COUNT :: int where
  "MIN_UNANCHORED_RECORD_COUNT = 8"

definition MAX_PENDING_EVENTS :: nat where
  "MAX_PENDING_EVENTS = 10000"

record hydration_tracker =
  ht_inventory_anchor :: "(hydration_key, pyfloat) dict"
  ht_inventory_last :: "(hydration_key, pyfloat) dict"
  ht_bursts :: "(hydration_key, hydration_burst) dict"
  ht_outbox :: "bdo_event list"
  ht_dispatching :: bool

definition new_hydration_tracker :: hydration_tracker where
  "new_hydration_tracker =
     \<lparr>ht_inventory_anchor = [], ht_inventory_last = [], ht_bursts = [], ht_outbox = [], ht_dispatching = False\<rparr>"

section \<open>The sections under the lock\<close>

definition queue_locked :: "bdo_event \<Rightarrow> hydration_tracker \<Rightarrow> hydration_tracker" where
  "queue_locked event t = t\<lparr>ht_outbox := ht_outbox t @ [event]\<rparr>"

definition as_snapshot :: "bdo_event \<Rightarrow> bdo_event" where
  "as_snapshot event = event\<lparr>ev_type := ''storage_snapshot'', ev_source := None\<rparr>"

definition flush_key_locked :: "hydration_key \<Rightarrow> hydration_tracker \<Rightarrow> hydration_tracker" where
  "flush_key_locked key t =
     (case map_of (ht_bursts t) key of
        None \<Rightarrow> t
      | Some burst \<Rightarrow>
          fold queue_locked (hb_events burst) (t\<lparr>ht_bursts := AList.delete key (ht_bursts t)\<rparr>))"

definition forget_anchor :: "hydration_key \<Rightarrow> hydration_tracker \<Rightarrow> hydration_tracker" where
  "forget_anchor key t =
     t\<lparr>ht_inventory_anchor := AList.delete key (ht_inventory_anchor t),
       ht_inventory_last := AList.delete key (ht_inventory_last t)\<rparr>"

text \<open>The inventory boundary, before its event is queued.\<close>

definition open_epoch :: "bdo_event \<Rightarrow> hydration_tracker \<Rightarrow> hydration_tracker" where
  "open_epoch event t =
     (let key = hydration_key event;
          t1 = (if (case map_of (ht_inventory_last t) key of
                      None \<Rightarrow> True
                    | Some previous \<Rightarrow> INVENTORY_GENERATION_GAP_SECONDS < ev_timestamp event - previous)
                then (flush_key_locked key t)
                       \<lparr>ht_inventory_anchor := AList.update key (ev_timestamp event) (ht_inventory_anchor t)\<rparr>
                else t)
      in t1\<lparr>ht_inventory_last := AList.update key (ev_timestamp event) (ht_inventory_last t1)\<rparr>)"

definition observe_inventory_locked :: "bdo_event \<Rightarrow> hydration_tracker \<Rightarrow> hydration_tracker" where
  "observe_inventory_locked event t = queue_locked event (open_epoch event t)"

text \<open>
  The branch of \<^verbatim>\<open>observe_storage\<close> for an event that is no neutral record: what its
  timestamp retires, before it is queued.
\<close>

definition retire_state :: "bdo_event \<Rightarrow> hydration_tracker \<Rightarrow> hydration_tracker" where
  "retire_state event t =
     (let key = hydration_key event;
          t1 = (if (case map_of (ht_bursts t) key of
                      None \<Rightarrow> True | Some burst \<Rightarrow> hb_first_timestamp burst \<le> ev_timestamp event)
                then flush_key_locked key t else t)
      in if (case map_of (ht_inventory_anchor t1) key of
               None \<Rightarrow> True | Some anchor \<Rightarrow> anchor \<le> ev_timestamp event)
         then forget_anchor key t1 else t1)"

definition observe_live_locked :: "bdo_event \<Rightarrow> hydration_tracker \<Rightarrow> hydration_tracker" where
  "observe_live_locked event t = queue_locked event (retire_state event t)"

definition is_anchored :: "bdo_event \<Rightarrow> hydration_tracker \<Rightarrow> bool" where
  "is_anchored event t =
     (case map_of (ht_inventory_anchor t) (hydration_key event) of
        None \<Rightarrow> False
      | Some anchor \<Rightarrow> anchor \<le> ev_timestamp event \<and> ev_timestamp event - anchor \<le> HYDRATION_EPOCH_SECONDS)"

definition starts_burst :: "bdo_event \<Rightarrow> bool \<Rightarrow> hydration_burst option \<Rightarrow> bool" where
  "starts_burst event anchored burst =
     (case burst of
        None \<Rightarrow> True
      | Some b \<Rightarrow>
          BURST_GAP_SECONDS < ev_timestamp event - hb_last_timestamp b
          \<or> MAX_BURST_SECONDS < ev_timestamp event - hb_first_timestamp b
          \<or> ev_timestamp event < hb_last_timestamp b
          \<or> hb_anchored b \<noteq> anchored
          \<or> hb_opcode b \<noteq> ev_opcode event)"

definition new_burst :: "bdo_event \<Rightarrow> bool \<Rightarrow> hydration_burst" where
  "new_burst event anchored =
     \<lparr>hb_first_timestamp = ev_timestamp event, hb_last_timestamp = ev_timestamp event,
      hb_anchored = anchored, hb_opcode = ev_opcode event, hb_events = [], hb_destinations = [],
      hb_max_record_count = 0, hb_confirmed = False\<rparr>"

definition join_burst :: "bdo_event \<Rightarrow> hydration_burst \<Rightarrow> hydration_burst" where
  "join_burst event burst =
     burst\<lparr>hb_last_timestamp := ev_timestamp event,
           hb_destinations := (case ev_storage_id event of
               None \<Rightarrow> hb_destinations burst | Some k \<Rightarrow> List.insert k (hb_destinations burst)),
           hb_max_record_count := (case ev_record_count event of
               None \<Rightarrow> hb_max_record_count burst | Some n \<Rightarrow> max (hb_max_record_count burst) n)\<rparr>"

definition proves_hydration :: "hydration_burst \<Rightarrow> bool" where
  "proves_hydration burst \<longleftrightarrow>
     length (hb_destinations burst) \<ge>
        (if hb_anchored burst then MIN_ANCHORED_DESTINATIONS else MIN_UNANCHORED_DESTINATIONS)
     \<and> (hb_anchored burst \<or> hb_max_record_count burst \<ge> MIN_UNANCHORED_RECORD_COUNT)"

definition store_burst :: "hydration_key \<Rightarrow> hydration_burst \<Rightarrow> hydration_tracker \<Rightarrow> hydration_tracker" where
  "store_burst key burst t = t\<lparr>ht_bursts := AList.update key burst (ht_bursts t)\<rparr>"

text \<open>The burst the record belongs to, and the tracker after a replaced burst was flushed.\<close>

definition current_burst ::
    "hydration_key \<Rightarrow> bdo_event \<Rightarrow> hydration_tracker \<Rightarrow> hydration_burst \<times> hydration_tracker" where
  "current_burst key event t =
     (let anchored = is_anchored event t
      in case map_of (ht_bursts t) key of
           None \<Rightarrow> (new_burst event anchored, flush_key_locked key t)
         | Some burst \<Rightarrow>
             if starts_burst event anchored (Some burst)
             then (new_burst event anchored, flush_key_locked key t) else (burst, t))"

definition place_record ::
    "hydration_key \<Rightarrow> bdo_event \<Rightarrow> hydration_burst \<Rightarrow> hydration_tracker \<Rightarrow> hydration_tracker" where
  "place_record key event burst t =
     (if hb_confirmed burst then queue_locked (as_snapshot event) (store_burst key burst t)
      else let pending = hb_events burst @ [event]
           in if proves_hydration burst
              then fold (\<lambda>e. queue_locked (as_snapshot e)) pending
                     (store_burst key (burst\<lparr>hb_confirmed := True, hb_events := []\<rparr>) t)
              else if length pending > MAX_PENDING_EVENTS
              then flush_key_locked key (store_burst key (burst\<lparr>hb_events := pending\<rparr>) t)
              else store_burst key (burst\<lparr>hb_events := pending\<rparr>) t)"

definition observe_record_locked :: "bdo_event \<Rightarrow> hydration_tracker \<Rightarrow> hydration_tracker" where
  "observe_record_locked event t =
     (let key = hydration_key event;
          (burst, t1) = current_burst key event t
      in place_record key event (join_burst event burst) t1)"

definition observe_storage_locked :: "bdo_event \<Rightarrow> hydration_tracker \<Rightarrow> hydration_tracker" where
  "observe_storage_locked event t =
     (if ev_type event \<noteq> ''storage_record'' then observe_live_locked event t
      else observe_record_locked event t)"

definition flush_stale_locked :: "pyfloat \<Rightarrow> hydration_tracker \<Rightarrow> hydration_tracker" where
  "flush_stale_locked now t =
     (let stale = map fst (filter (\<lambda>(key, burst). BURST_GAP_SECONDS < now - hb_last_timestamp burst) (ht_bursts t));
          t1 = fold flush_key_locked stale t;
          expired_anchors = map fst (filter (\<lambda>(key, anchor). HYDRATION_EPOCH_SECONDS < now - anchor)
                                       (ht_inventory_anchor t1))
      in fold forget_anchor expired_anchors t1)"

text \<open>
  The keys are a set in the code; the order in which it is enumerated is not specified. The
  model takes the order of the dictionaries.
\<close>

definition close_flow_locked :: "flow_key \<Rightarrow> hydration_tracker \<Rightarrow> hydration_tracker" where
  "close_flow_locked flow t =
     (let keys = filter (\<lambda>key. fst key = flow)
                   (remdups (map fst (ht_bursts t) @ map fst (ht_inventory_anchor t) @ map fst (ht_inventory_last t)))
      in fold (\<lambda>key t. forget_anchor key (flush_key_locked key t)) keys t)"

definition finalize_all_locked :: "hydration_tracker \<Rightarrow> hydration_tracker" where
  "finalize_all_locked t =
     (fold flush_key_locked (map fst (ht_bursts t)) t)\<lparr>ht_inventory_anchor := [], ht_inventory_last := []\<rparr>"

section \<open>Delivery\<close>

datatype hydration_op =
    ObserveInventory bdo_event
  | ObserveStorage bdo_event
  | FlushStale pyfloat
  | CloseFlow flow_key
  | FinalizeAll

fun hydration_section :: "hydration_op \<Rightarrow> hydration_tracker \<Rightarrow> hydration_tracker" where
  "hydration_section (ObserveInventory event) t = observe_inventory_locked event t"
| "hydration_section (ObserveStorage event) t = observe_storage_locked event t"
| "hydration_section (FlushStale now) t = flush_stale_locked now t"
| "hydration_section (CloseFlow flow) t = close_flow_locked flow t"
| "hydration_section FinalizeAll t = finalize_all_locked t"

text \<open>
  The delivery loop for a consumer that does not come back to the tracker: it takes one event
  at a time from the outbox and stops with the rest still queued when the consumer raises.
\<close>

fun drain_loop :: "(bdo_event \<Rightarrow> 'w \<Rightarrow> bool \<times> 'w) \<Rightarrow> bdo_event list \<Rightarrow> 'w \<Rightarrow> bool \<times> bdo_event list \<times> 'w" where
  "drain_loop emit [] w = (False, [], w)"
| "drain_loop emit (event # outbox) w =
     (case emit event w of
        (True, w') \<Rightarrow> (True, outbox, w')
      | (False, w') \<Rightarrow> drain_loop emit outbox w')"

definition drain_outbox ::
    "(bdo_event \<Rightarrow> 'w \<Rightarrow> bool \<times> 'w) \<Rightarrow> hydration_tracker \<times> 'w \<Rightarrow> bool \<times> hydration_tracker \<times> 'w" where
  "drain_outbox emit s =
     (if ht_dispatching (fst s) then (False, s)
      else case drain_loop emit (ht_outbox (fst s)) (snd s) of
             (raised, outbox, w) \<Rightarrow>
               (raised, (fst s)\<lparr>ht_outbox := outbox, ht_dispatching := False\<rparr>, w))"

definition hydration_call ::
    "(bdo_event \<Rightarrow> 'w \<Rightarrow> bool \<times> 'w) \<Rightarrow> hydration_op \<Rightarrow> hydration_tracker \<times> 'w \<Rightarrow> hydration_tracker \<times> 'w" where
  "hydration_call emit op s = snd (drain_outbox emit (hydration_section op (fst s), snd s))"

definition run_hydration ::
    "(bdo_event \<Rightarrow> 'w \<Rightarrow> bool \<times> 'w) \<Rightarrow> hydration_op list \<Rightarrow> hydration_tracker \<times> 'w \<Rightarrow> hydration_tracker \<times> 'w" where
  "run_hydration emit ops s = fold (hydration_call emit) ops s"

text \<open>
  Interleavings: the atomic steps are a section of any thread, the start of a delivery loop
  (refused while another runs), the removal of one event for delivery, and the end of the
  loop, which is reached with an empty outbox or by an exception of the consumer. The last
  components are the operations received and the events delivered so far.
\<close>

inductive tracker_step ::
    "hydration_tracker \<times> hydration_op list \<times> bdo_event list \<Rightarrow>
     hydration_tracker \<times> hydration_op list \<times> bdo_event list \<Rightarrow> bool" where
  section_step: "tracker_step (t, ops, out) (hydration_section op t, ops @ [op], out)"
| start_step: "\<not> ht_dispatching t \<Longrightarrow> tracker_step (t, ops, out) (t\<lparr>ht_dispatching := True\<rparr>, ops, out)"
| deliver_step: "ht_dispatching t \<Longrightarrow> ht_outbox t = event # outbox \<Longrightarrow>
     tracker_step (t, ops, out) (t\<lparr>ht_outbox := outbox\<rparr>, ops, out @ [event])"
| stop_step: "ht_dispatching t \<Longrightarrow> ht_outbox t = [] \<Longrightarrow> tracker_step (t, ops, out) (t\<lparr>ht_dispatching := False\<rparr>, ops, out)"
| raise_step: "ht_dispatching t \<Longrightarrow> tracker_step (t, ops, out) (t\<lparr>ht_dispatching := False\<rparr>, ops, out)"

inductive_cases tracker_stepE: "tracker_step s s'"

definition reachable_tracker :: "hydration_tracker \<Rightarrow> hydration_op list \<Rightarrow> bdo_event list \<Rightarrow> bool" where
  "reachable_tracker t ops out = tracker_step\<^sup>*\<^sup>* (new_hydration_tracker, [], []) (t, ops, out)"

end
