(* ===== verification/Hydration_Facts.thy ===== *)
theory Hydration_Facts
  imports Storage_Hydration "HOL-Library.Multiset"
begin

text \<open>
  Facts on the hydration tracker: each section under the lock changes the outbox and the
  held-back records in one of a few ways (\<open>flush_key_locked_eq\<close>, \<open>place_record_cases\<close>),
  and keeps \<open>tracker_inv\<close>: what is queued or held back was received, what is queued as a
  snapshot belongs to a cohort that proves a character load, and no proven cohort is held
  back.
\<close>

section \<open>What was received\<close>

fun received_of :: "hydration_op \<Rightarrow> bdo_event list" where
  "received_of (ObserveInventory event) = [event]"
| "received_of (ObserveStorage event) = [event]"
| "received_of _ = []"

definition received :: "hydration_op list \<Rightarrow> bdo_event list" where
  "received ops = concat (map received_of ops)"

lemma received_snoc: "received (ops @ [op]) = received ops @ received_of op"
  by (simp add: received_def)

fun is_record_of :: "hydration_op \<Rightarrow> bool" where
  "is_record_of (ObserveStorage event) = (ev_type event = ''storage_record'')"
| "is_record_of _ = False"

text \<open>An event up to the verdict of the tracker.\<close>

definition erase :: "bdo_event \<Rightarrow> bdo_event" where
  "erase e = e\<lparr>ev_type := [], ev_source := None\<rparr>"

lemma erase_as_snapshot [simp]: "erase (as_snapshot e) = erase e"
  by (simp add: erase_def as_snapshot_def)

lemma hydration_key_as_snapshot [simp]: "hydration_key (as_snapshot e) = hydration_key e"
  by (simp add: hydration_key_def as_snapshot_def)

lemma hydration_key_erase [simp]: "hydration_key (erase e) = hydration_key e"
  by (simp add: hydration_key_def erase_def)

text \<open>
  The evidence a promoted record has: a cohort of records of its connection and opcode
  within one second, with eight destinations behind an inventory load, or seventeen and a
  record of a batch of at least eight.
\<close>

definition after_inventory :: "hydration_op list \<Rightarrow> bdo_event \<Rightarrow> bool" where
  "after_inventory ops m \<longleftrightarrow>
     (\<exists>i. ObserveInventory i \<in> set ops \<and> hydration_key i = hydration_key m
        \<and> ev_timestamp i \<le> ev_timestamp m \<and> ev_timestamp m - ev_timestamp i \<le> HYDRATION_EPOCH_SECONDS)"

definition destinations :: "bdo_event list \<Rightarrow> int set" where
  "destinations members = {k. \<exists>m \<in> set members. ev_storage_id m = Some k}"

definition one_cohort :: "hydration_op list \<Rightarrow> hydration_key \<Rightarrow> int option \<Rightarrow> pyfloat \<Rightarrow> bdo_event list \<Rightarrow> bool" where
  "one_cohort ops key opcode first members \<longleftrightarrow>
     (\<forall>m \<in> set members. ObserveStorage m \<in> set ops \<and> ev_type m = ''storage_record'' \<and> hydration_key m = key
        \<and> ev_opcode m = opcode \<and> \<not> MAX_BURST_SECONDS < ev_timestamp m - first)"

definition proven_load :: "hydration_op list \<Rightarrow> bdo_event \<Rightarrow> bool" where
  "proven_load ops r \<longleftrightarrow>
     (\<exists>members first. r \<in> set members \<and> one_cohort ops (hydration_key r) (ev_opcode r) first members \<and>
        (card (destinations members) \<ge> 8 \<and> (\<forall>m \<in> set members. after_inventory ops m)
         \<or> card (destinations members) \<ge> 17 \<and> (\<exists>m \<in> set members. \<exists>n. ev_record_count m = Some n \<and> n \<ge> 8)))"

definition accounted :: "hydration_op list \<Rightarrow> bdo_event \<Rightarrow> bool" where
  "accounted ops e \<longleftrightarrow> e \<in> set (received ops) \<or> (\<exists>r. e = as_snapshot r \<and> proven_load ops r)"

section \<open>The sections\<close>

definition pending_of :: "hydration_tracker \<Rightarrow> hydration_key \<Rightarrow> bdo_event list" where
  "pending_of t key = (case map_of (ht_bursts t) key of None \<Rightarrow> [] | Some burst \<Rightarrow> hb_events burst)"

lemma fold_queue: "fold queue_locked events t = t\<lparr>ht_outbox := ht_outbox t @ events\<rparr>"
  by (induction events arbitrary: t) (simp_all add: queue_locked_def)

lemma fold_queue_snapshots:
  "fold (\<lambda>e. queue_locked (as_snapshot e)) events t = t\<lparr>ht_outbox := ht_outbox t @ map as_snapshot events\<rparr>"
  by (induction events arbitrary: t) (simp_all add: queue_locked_def)

lemma flush_key_locked_eq:
  "flush_key_locked key t =
     t\<lparr>ht_bursts := AList.delete key (ht_bursts t), ht_outbox := ht_outbox t @ pending_of t key\<rparr>"
proof (cases "map_of (ht_bursts t) key")
  case None
  then have "AList.delete key (ht_bursts t) = ht_bursts t"
    by (simp add: delete_id map_of_eq_None_iff)
  with None show ?thesis
    by (simp add: flush_key_locked_def pending_of_def)
qed (simp add: flush_key_locked_def pending_of_def fold_queue)

lemma pending_of_flush: "pending_of (flush_key_locked key t) k = (if k = key then [] else pending_of t k)"
  by (simp add: flush_key_locked_eq pending_of_def delete_conv)

lemma pending_of_simps [simp]:
  "pending_of (queue_locked e t) = pending_of t"
  "pending_of (forget_anchor key t) = pending_of t"
  "pending_of (store_burst key burst t) = (pending_of t)(key := hb_events burst)"
  by (auto simp: pending_of_def queue_locked_def forget_anchor_def store_burst_def update_conv)

lemma outbox_simps [simp]:
  "ht_outbox (queue_locked e t) = ht_outbox t @ [e]"
  "ht_outbox (forget_anchor key t) = ht_outbox t"
  "ht_outbox (store_burst key burst t) = ht_outbox t"
  "ht_outbox (flush_key_locked key t) = ht_outbox t @ pending_of t key"
  by (simp_all add: queue_locked_def forget_anchor_def store_burst_def flush_key_locked_eq)

section \<open>The order in one connection\<close>

text \<open>What the tracker still owes of a selection of the events of one connection.\<close>

definition lane :: "(bdo_event \<Rightarrow> bool) \<Rightarrow> hydration_key \<Rightarrow> hydration_tracker \<Rightarrow> bdo_event list" where
  "lane P k t = map erase (filter P (ht_outbox t @ pending_of t k))"

definition selects :: "hydration_key \<Rightarrow> (bdo_event \<Rightarrow> bool) \<Rightarrow> bool" where
  "selects k P \<longleftrightarrow> (\<forall>e. P e \<longrightarrow> hydration_key e = k) \<and> (\<forall>e. P (as_snapshot e) = P e)"

definition keys_match :: "hydration_tracker \<Rightarrow> bool" where
  "keys_match t \<longleftrightarrow> (\<forall>k. \<forall>e \<in> set (pending_of t k). hydration_key e = k)"

lemma keys_matchD: "keys_match t \<Longrightarrow> e \<in> set (pending_of t k) \<Longrightarrow> hydration_key e = k"
  unfolding keys_match_def by blast

lemma filter_other_key:
  assumes "selects k P" and "\<forall>e \<in> set es. hydration_key e = key" and "key \<noteq> k"
  shows "filter P es = []"
  using assms by (auto simp: selects_def filter_empty_conv)

lemma keys_match_flush: "keys_match t \<Longrightarrow> keys_match (flush_key_locked key t)"
  by (auto simp: keys_match_def pending_of_flush)

lemma lane_flush:
  assumes "selects k P" and "keys_match t"
  shows "lane P k (flush_key_locked key t) = lane P k t"
proof (cases "key = k")
  case False
  then have "filter P (pending_of t key) = []"
    using assms keys_matchD [OF assms(2)] by (intro filter_other_key) auto
  with False show ?thesis
    by (simp add: lane_def pending_of_flush)
qed (simp add: lane_def pending_of_flush)

lemma lane_simps [simp]:
  "lane P k (forget_anchor key t) = lane P k t"
  by (simp add: lane_def)

lemma lane_fold_flush:
  "selects k P \<Longrightarrow> keys_match t \<Longrightarrow>
    lane P k (fold flush_key_locked keys t) = lane P k t \<and> keys_match (fold flush_key_locked keys t)"
  by (induction keys arbitrary: t) (simp_all add: lane_flush keys_match_flush)

lemma lane_fold_close:
  "selects k P \<Longrightarrow> keys_match t \<Longrightarrow>
    lane P k (fold (\<lambda>key t. forget_anchor key (flush_key_locked key t)) keys t) = lane P k t"
proof (induction keys arbitrary: t)
  case (Cons key keys)
  have "keys_match (forget_anchor key (flush_key_locked key t))"
    using keys_match_flush [OF Cons.prems(2), of key] by (simp add: keys_match_def)
  with Cons show ?case
    by (simp add: lane_flush)
qed simp

lemma pending_of_fold_forget [simp]: "pending_of (fold forget_anchor keys t) = pending_of t"
  by (induction keys arbitrary: t) simp_all

lemma outbox_fold_forget [simp]: "ht_outbox (fold forget_anchor keys t) = ht_outbox t"
  by (induction keys arbitrary: t) simp_all

lemma pending_of_cong [simp]:
  "pending_of (t\<lparr>ht_inventory_anchor := a, ht_inventory_last := l\<rparr>) = pending_of t"
  "pending_of (t\<lparr>ht_inventory_anchor := a\<rparr>) = pending_of t"
  "pending_of (t\<lparr>ht_inventory_last := l\<rparr>) = pending_of t"
  by (auto simp: pending_of_def)

lemma place_record_effect:
  "ht_outbox (place_record key e b t) = ht_outbox t @
     (if hb_confirmed b then [as_snapshot e]
      else if proves_hydration b then map as_snapshot (hb_events b @ [e])
      else if length (hb_events b @ [e]) > MAX_PENDING_EVENTS then hb_events b @ [e] else [])"
  "pending_of (place_record key e b t) = (pending_of t)(key :=
     (if hb_confirmed b then hb_events b
      else if proves_hydration b \<or> length (hb_events b @ [e]) > MAX_PENDING_EVENTS then []
      else hb_events b @ [e]))"
proof -
  have pending: "pending_of (t\<lparr>ht_outbox := u\<rparr>) = pending_of t" for t u
    by (auto simp: pending_of_def)
  have flush: "pending_of (flush_key_locked key t) = (pending_of t)(key := [])" for t
    by (auto simp: pending_of_flush)
  show "ht_outbox (place_record key e b t) = ht_outbox t @
     (if hb_confirmed b then [as_snapshot e]
      else if proves_hydration b then map as_snapshot (hb_events b @ [e])
      else if length (hb_events b @ [e]) > MAX_PENDING_EVENTS then hb_events b @ [e] else [])"
    unfolding place_record_def Let_def by (simp add: fold_queue_snapshots)
  show "pending_of (place_record key e b t) = (pending_of t)(key :=
     (if hb_confirmed b then hb_events b
      else if proves_hydration b \<or> length (hb_events b @ [e]) > MAX_PENDING_EVENTS then []
      else hb_events b @ [e]))"
    unfolding place_record_def Let_def by (simp add: fold_queue_snapshots pending flush)
qed

text \<open>A record that leaves or is held back is the last its connection is owed.\<close>

lemma place_record_cases:
  obtains released kept where "ht_outbox (place_record key e b t) = ht_outbox t @ released"
    and "pending_of (place_record key e b t) = (pending_of t)(key := kept)"
    and "released @ kept = hb_events b @ [e] \<or> released @ kept = map as_snapshot (hb_events b @ [e])
      \<or> hb_confirmed b \<and> released = [as_snapshot e] \<and> kept = hb_events b"
proof -
  consider "hb_confirmed b" | "\<not> hb_confirmed b" "proves_hydration b"
    | "\<not> hb_confirmed b" "\<not> proves_hydration b" "length (hb_events b @ [e]) > MAX_PENDING_EVENTS"
    | "\<not> hb_confirmed b" "\<not> proves_hydration b" "\<not> length (hb_events b @ [e]) > MAX_PENDING_EVENTS"
    by blast
  then show ?thesis
  proof cases
    case 1
    then show ?thesis
      by (intro that [OF place_record_effect]) simp
  next
    case 2
    then show ?thesis
      by (intro that [OF place_record_effect]) simp
  next
    case 3
    then show ?thesis
      by (intro that [OF place_record_effect]) simp
  next
    case 4
    then show ?thesis
      by (intro that [OF place_record_effect]) simp
  qed
qed

lemma lane_place_record:
  assumes P: "selects k P" and match: "keys_match t" and b: "pending_of t key = hb_events b"
    and e: "hydration_key e = key" and confirmed: "hb_confirmed b \<longrightarrow> hb_events b = []"
  shows "lane P k (place_record key e b t) = lane P k t @ map erase (filter P [e])"
proof -
  have snapshots: "map erase (filter P (map as_snapshot es)) = map erase (filter P es)" for es
    using P by (induction es) (simp_all add: selects_def)
  obtain released kept where out: "ht_outbox (place_record key e b t) = ht_outbox t @ released"
    and pending: "pending_of (place_record key e b t) = (pending_of t)(key := kept)"
    and parts: "released @ kept = hb_events b @ [e] \<or> released @ kept = map as_snapshot (hb_events b @ [e])
      \<or> hb_confirmed b \<and> released = [as_snapshot e] \<and> kept = hb_events b"
    by (rule place_record_cases)
  have account: "map erase (filter P (released @ kept)) = map erase (filter P (hb_events b @ [e]))"
    using parts confirmed snapshots [of "hb_events b @ [e]"] snapshots [of "[e]"] by (elim disjE) simp_all
  show ?thesis
  proof (cases "key = k")
    case True
    then show ?thesis
      using account b unfolding lane_def out pending by simp
  next
    case False
    have "\<forall>x \<in> set (hb_events b @ [e]). hydration_key x = key"
      using keys_matchD [OF match, of _ key] b e by auto
    then have "filter P (hb_events b @ [e]) = []"
      using filter_other_key [OF P _ False] by blast
    then have "filter P released = []" and "filter P [e] = []"
      using account by simp_all
    then show ?thesis
      using False unfolding lane_def out pending by simp
  qed
qed

text \<open>One section: a record is appended to what its connection is owed, any other event joins it.\<close>

lemma current_burst_cases:
  assumes current: "current_burst key e t = (b, t1)"
  obtains "b = new_burst e (is_anchored e t)" and "t1 = flush_key_locked key t"
  | "map_of (ht_bursts t) key = Some b" and "t1 = t" and "\<not> starts_burst e (is_anchored e t) (Some b)"
proof (cases "map_of (ht_bursts t) key")
  case None
  then have "(new_burst e (is_anchored e t), flush_key_locked key t) = (b, t1)"
    using current by (simp only: current_burst_def Let_def option.case)
  then show ?thesis
    by (intro that(1)) simp_all
next
  case (Some burst)
  show ?thesis
  proof (cases "starts_burst e (is_anchored e t) (Some burst)")
    case True
    then have "(new_burst e (is_anchored e t), flush_key_locked key t) = (b, t1)"
      using current Some by (simp only: current_burst_def Let_def option.case if_True)
    then show ?thesis
      by (intro that(1)) simp_all
  next
    case False
    then have "(burst, t) = (b, t1)"
      using current Some by (simp only: current_burst_def Let_def option.case if_False)
    then show ?thesis
      using Some False by (intro that(2)) simp_all
  qed
qed

definition confirmed_empty :: "hydration_tracker \<Rightarrow> bool" where
  "confirmed_empty t \<longleftrightarrow> (\<forall>k b. map_of (ht_bursts t) k = Some b \<longrightarrow> hb_confirmed b \<longrightarrow> hb_events b = [])"

lemma confirmed_emptyD:
  "confirmed_empty t \<Longrightarrow> map_of (ht_bursts t) k = Some b \<Longrightarrow> hb_confirmed b \<Longrightarrow> hb_events b = []"
  unfolding confirmed_empty_def by blast

lemma join_burst_simps [simp]:
  "hb_first_timestamp (join_burst e b) = hb_first_timestamp b"
  "hb_last_timestamp (join_burst e b) = ev_timestamp e"
  "hb_anchored (join_burst e b) = hb_anchored b"
  "hb_opcode (join_burst e b) = hb_opcode b"
  "hb_events (join_burst e b) = hb_events b"
  "hb_confirmed (join_burst e b) = hb_confirmed b"
  by (simp_all add: join_burst_def)

lemma lane_record:
  assumes P: "selects k P" and match: "keys_match t" and confirmed: "confirmed_empty t"
  shows "lane P k (observe_record_locked e t) = lane P k t @ map erase (filter P [e])"
proof -
  obtain b t1 where current: "current_burst (hydration_key e) e t = (b, t1)"
    by fastforce
  from this have "pending_of t1 (hydration_key e) = hb_events b \<and> keys_match t1 \<and>
      (hb_confirmed b \<longrightarrow> hb_events b = []) \<and> lane P k t1 = lane P k t"
  proof (cases rule: current_burst_cases)
    case 1
    then show ?thesis
      using keys_match_flush [OF match] lane_flush [OF P match]
      by (simp add: new_burst_def pending_of_flush)
  next
    case 2
    then show ?thesis
      using match confirmed by (auto simp: pending_of_def dest: confirmed_emptyD)
  qed
  then show ?thesis
    using lane_place_record [OF P, of t1 "hydration_key e" "join_burst e b" e] current
    by (simp add: observe_record_locked_def)
qed

lemma lane_queued:
  assumes "lane P k t1 = lane P k t"
  shows "mset (lane P k (queue_locked e t1)) = mset (lane P k t @ map erase (filter P [e]))"
    and "\<not> P e \<Longrightarrow> lane P k (queue_locked e t1) = lane P k t"
proof -
  show "mset (lane P k (queue_locked e t1)) = mset (lane P k t @ map erase (filter P [e]))"
    unfolding assms [symmetric] by (simp add: lane_def ac_simps)
  show "\<not> P e \<Longrightarrow> lane P k (queue_locked e t1) = lane P k t"
    unfolding assms [symmetric] by (simp add: lane_def)
qed

lemma lane_cong [simp]:
  "lane P k (t\<lparr>ht_inventory_anchor := a, ht_inventory_last := l\<rparr>) = lane P k t"
  "lane P k (t\<lparr>ht_inventory_anchor := a\<rparr>) = lane P k t"
  "lane P k (t\<lparr>ht_inventory_last := l\<rparr>) = lane P k t"
  by (simp_all add: lane_def)

lemma lane_boundary:
  assumes "selects k P" and "keys_match t"
  shows "lane P k (open_epoch e t) = lane P k t" and "lane P k (retire_state e t) = lane P k t"
  using assms by (simp_all add: open_epoch_def retire_state_def lane_flush Let_def)

text \<open>What a section adds to the account of a selection of one connection.\<close>

lemma lane_section:
  assumes P: "selects k P" and match: "keys_match t" and confirmed: "confirmed_empty t"
  shows "mset (lane P k (hydration_section op t)) = mset (lane P k t @ map erase (filter P (received_of op)))"
    and "is_record_of op \<or> filter P (received_of op) = [] \<Longrightarrow>
      lane P k (hydration_section op t) = lane P k t @ map erase (filter P (received_of op))"
proof -
  have "lane P k (finalize_all_locked t) = lane P k t"
    by (simp add: finalize_all_locked_def lane_fold_flush [OF P match])
  moreover have "lane P k (fold forget_anchor keys t') = lane P k t'" for keys t'
    by (simp add: lane_def)
  ultimately have "mset (lane P k (hydration_section op t)) = mset (lane P k t @ map erase (filter P (received_of op))) \<and>
    (is_record_of op \<or> filter P (received_of op) = [] \<longrightarrow>
      lane P k (hydration_section op t) = lane P k t @ map erase (filter P (received_of op)))"
    using lane_queued [OF lane_boundary(1) [OF P match]] lane_queued [OF lane_boundary(2) [OF P match]]
      lane_record [OF P match confirmed] lane_fold_flush [OF P match] lane_fold_close [OF P match]
    by (cases op) (auto simp: observe_inventory_locked_def observe_storage_locked_def observe_live_locked_def
        flush_stale_locked_def close_flow_locked_def Let_def)
  then show "mset (lane P k (hydration_section op t)) = mset (lane P k t @ map erase (filter P (received_of op)))"
    and "is_record_of op \<or> filter P (received_of op) = [] \<Longrightarrow>
      lane P k (hydration_section op t) = lane P k t @ map erase (filter P (received_of op))"
    by blast+
qed

section \<open>The evidence behind a burst\<close>

definition burst_members :: "hydration_op list \<Rightarrow> hydration_key \<Rightarrow> hydration_burst \<Rightarrow> bdo_event list \<Rightarrow> bool" where
  "burst_members ops k b ms \<longleftrightarrow>
     one_cohort ops k (hb_opcode b) (hb_first_timestamp b) ms \<and> set (hb_events b) \<subseteq> set ms
     \<and> set (hb_destinations b) = destinations ms \<and> distinct (hb_destinations b)
     \<and> (hb_max_record_count b \<ge> 8 \<longrightarrow> (\<exists>m \<in> set ms. \<exists>n. ev_record_count m = Some n \<and> n \<ge> 8))
     \<and> (hb_anchored b \<longrightarrow> (\<forall>m \<in> set ms. after_inventory ops m))"

lemma members_new: "burst_members ops k (new_burst e anchored) []"
  by (simp add: burst_members_def new_burst_def one_cohort_def destinations_def)

lemma no_span: "\<not> MAX_BURST_SECONDS < a - (a :: pyfloat)"
  by (cases a) (simp_all add: MAX_BURST_SECONDS_def)

lemma destinations_snoc:
  "destinations (ms @ [e]) = (case ev_storage_id e of None \<Rightarrow> destinations ms | Some k \<Rightarrow> insert k (destinations ms))"
  by (auto simp: destinations_def split: option.splits)

lemma members_join:
  assumes members: "burst_members ops k b ms"
    and e: "ObserveStorage e \<in> set ops" "ev_type e = ''storage_record''" "hydration_key e = k"
    and opcode: "hb_opcode b = ev_opcode e" and span: "\<not> MAX_BURST_SECONDS < ev_timestamp e - hb_first_timestamp b"
    and anchored: "hb_anchored b \<longrightarrow> after_inventory ops e"
  shows "burst_members ops k (join_burst e b) (ms @ [e])"
proof -
  have "one_cohort ops k (hb_opcode b) (hb_first_timestamp b) (ms @ [e])"
    using members e opcode span by (auto simp: burst_members_def one_cohort_def)
  moreover have "set (hb_destinations (join_burst e b)) = destinations (ms @ [e]) \<and> distinct (hb_destinations (join_burst e b))"
    using members by (cases "ev_storage_id e") (simp_all add: burst_members_def join_burst_def destinations_snoc)
  moreover have "hb_max_record_count (join_burst e b) \<ge> 8 \<longrightarrow>
      (\<exists>m \<in> set (ms @ [e]). \<exists>n. ev_record_count m = Some n \<and> n \<ge> 8)"
    using members by (cases "ev_record_count e") (auto simp: burst_members_def join_burst_def max_def)
  moreover have "hb_anchored b \<longrightarrow> (\<forall>m \<in> set (ms @ [e]). after_inventory ops m)"
    using members anchored by (auto simp: burst_members_def)
  ultimately show ?thesis
    using members unfolding burst_members_def by auto
qed

lemma members_prove:
  assumes members: "burst_members ops k b ms" and proves: "proves_hydration b" and r: "r \<in> set ms"
  shows "proven_load ops r"
proof -
  have "one_cohort ops (hydration_key r) (ev_opcode r) (hb_first_timestamp b) ms"
    using members r by (auto simp: burst_members_def one_cohort_def)
  moreover have "card (destinations ms) = length (hb_destinations b)"
    using members by (metis burst_members_def distinct_card)
  ultimately show ?thesis
    using members proves r unfolding proven_load_def burst_members_def proves_hydration_def
    by (intro exI [of _ ms] exI [of _ "hb_first_timestamp b"])
      (auto simp: MIN_ANCHORED_DESTINATIONS_def MIN_UNANCHORED_DESTINATIONS_def MIN_UNANCHORED_RECORD_COUNT_def
        split: if_splits)
qed

lemma proves_join: "proves_hydration b \<Longrightarrow> proves_hydration (join_burst e b)"
  by (auto simp: proves_hydration_def join_burst_def List.insert_def split: option.split)

lemma after_inventory_mono: "after_inventory ops m \<Longrightarrow> set ops \<subseteq> set ops' \<Longrightarrow> after_inventory ops' m"
  unfolding after_inventory_def by blast

lemma one_cohort_mono: "one_cohort ops k c a ms \<Longrightarrow> set ops \<subseteq> set ops' \<Longrightarrow> one_cohort ops' k c a ms"
  unfolding one_cohort_def by blast

lemma burst_members_mono: "burst_members ops k b ms \<Longrightarrow> set ops \<subseteq> set ops' \<Longrightarrow> burst_members ops' k b ms"
  using one_cohort_mono after_inventory_mono unfolding burst_members_def by blast

lemma proven_load_mono: "proven_load ops r \<Longrightarrow> set ops \<subseteq> set ops' \<Longrightarrow> proven_load ops' r"
  using one_cohort_mono after_inventory_mono unfolding proven_load_def by blast

lemma set_received: "set (received ops) = (\<Union>op \<in> set ops. set (received_of op))"
  by (simp add: received_def)

lemma accounted_mono: "accounted ops e \<Longrightarrow> set ops \<subseteq> set ops' \<Longrightarrow> accounted ops' e"
  using proven_load_mono unfolding accounted_def set_received by blast

section \<open>The invariant\<close>

definition burst_ok :: "hydration_op list \<Rightarrow> hydration_key \<Rightarrow> hydration_burst \<Rightarrow> bool" where
  "burst_ok ops k b \<longleftrightarrow> (\<exists>ms. burst_members ops k b ms) \<and> length (hb_events b) \<le> MAX_PENDING_EVENTS
     \<and> (hb_confirmed b \<longrightarrow> hb_events b = []) \<and> hb_confirmed b = proves_hydration b"

definition anchor_ok :: "hydration_op list \<Rightarrow> hydration_key \<Rightarrow> pyfloat \<Rightarrow> bool" where
  "anchor_ok ops k a \<longleftrightarrow> (\<exists>i. ObserveInventory i \<in> set ops \<and> hydration_key i = k \<and> ev_timestamp i = a)"

definition tracker_inv :: "hydration_op list \<Rightarrow> hydration_tracker \<Rightarrow> bool" where
  "tracker_inv ops t \<longleftrightarrow>
     (\<forall>k b. map_of (ht_bursts t) k = Some b \<longrightarrow> burst_ok ops k b)
     \<and> (\<forall>k a. map_of (ht_inventory_anchor t) k = Some a \<longrightarrow> anchor_ok ops k a)
     \<and> (\<forall>e \<in> set (ht_outbox t). accounted ops e)"

lemma tracker_invD:
  assumes "tracker_inv ops t"
  shows "map_of (ht_bursts t) k = Some b \<Longrightarrow> burst_ok ops k b"
    and "map_of (ht_inventory_anchor t) k = Some a \<Longrightarrow> anchor_ok ops k a"
    and "e \<in> set (ht_outbox t) \<Longrightarrow> accounted ops e"
  using assms unfolding tracker_inv_def by blast+

lemma tracker_invI:
  assumes "\<And>k b. map_of (ht_bursts t) k = Some b \<Longrightarrow> burst_ok ops k b"
    and "\<And>k a. map_of (ht_inventory_anchor t) k = Some a \<Longrightarrow> anchor_ok ops k a"
    and "\<And>e. e \<in> set (ht_outbox t) \<Longrightarrow> accounted ops e"
  shows "tracker_inv ops t"
  using assms unfolding tracker_inv_def by blast

lemma tracker_inv_mono:
  assumes "tracker_inv ops t" and "set ops \<subseteq> set ops'"
  shows "tracker_inv ops' t"
  using assms burst_members_mono accounted_mono unfolding tracker_inv_def burst_ok_def anchor_ok_def by blast

lemma pending_accounted:
  assumes "tracker_inv ops t" and "e \<in> set (pending_of t k)"
  shows "accounted ops e" and "hydration_key e = k"
proof -
  obtain b where b: "map_of (ht_bursts t) k = Some b" and e: "e \<in> set (hb_events b)"
    using assms(2) by (cases "map_of (ht_bursts t) k") (simp_all add: pending_of_def)
  obtain ms where "burst_members ops k b ms"
    using tracker_invD(1) [OF assms(1) b] unfolding burst_ok_def by blast
  with e have "ObserveStorage e \<in> set ops \<and> hydration_key e = k"
    unfolding burst_members_def one_cohort_def by blast
  then show "accounted ops e" and "hydration_key e = k"
    by (force simp: accounted_def set_received)+
qed

lemma inv_keys_match: "tracker_inv ops t \<Longrightarrow> keys_match t"
  unfolding keys_match_def using pending_accounted(2) by blast

lemma inv_confirmed_empty: "tracker_inv ops t \<Longrightarrow> confirmed_empty t"
  unfolding confirmed_empty_def using tracker_invD(1) unfolding burst_ok_def by blast

lemma inv_flush:
  assumes "tracker_inv ops t"
  shows "tracker_inv ops (flush_key_locked key t)"
  using pending_accounted(1) [OF assms, of _ key]
  by (intro tracker_invI)
    (auto simp: flush_key_locked_eq delete_conv split: if_splits dest: tracker_invD [OF assms])

lemma inv_forget: "tracker_inv ops t \<Longrightarrow> tracker_inv ops (forget_anchor key t)"
  by (intro tracker_invI) (auto simp: forget_anchor_def delete_conv split: if_splits dest: tracker_invD)

lemma inv_queue: "tracker_inv ops t \<Longrightarrow> accounted ops e \<Longrightarrow> tracker_inv ops (queue_locked e t)"
  by (intro tracker_invI) (auto simp: queue_locked_def dest: tracker_invD)

lemma inv_queue_snapshots:
  "tracker_inv ops t \<Longrightarrow> \<forall>e \<in> set es. proven_load ops e \<Longrightarrow>
    tracker_inv ops (fold (\<lambda>e. queue_locked (as_snapshot e)) es t)"
proof (induction es arbitrary: t)
  case (Cons e es)
  then have "accounted ops (as_snapshot e)"
    unfolding accounted_def by auto
  with Cons show ?case
    by (simp add: inv_queue)
qed simp

lemma inv_store:
  assumes "tracker_inv ops t" and "burst_ok ops key b"
  shows "tracker_inv ops (store_burst key b t)"
  using assms by (intro tracker_invI) (auto simp: store_burst_def update_conv split: if_splits dest: tracker_invD)

lemma inv_fold:
  "tracker_inv ops t \<Longrightarrow> (\<And>x t. tracker_inv ops t \<Longrightarrow> tracker_inv ops (f x t)) \<Longrightarrow> tracker_inv ops (fold f xs t)"
  by (induction xs arbitrary: t) simp_all

lemma inv_place_record:
  assumes inv: "tracker_inv ops t" and members: "burst_members ops key b ms" and e: "e \<in> set ms"
    and pending: "length (hb_events b) \<le> MAX_PENDING_EVENTS"
    and confirmed: "hb_confirmed b \<longrightarrow> hb_events b = [] \<and> proves_hydration b"
  shows "tracker_inv ops (place_record key e b t)"
proof -
  have stored: "burst_members ops key (b\<lparr>hb_confirmed := c, hb_events := es\<rparr>) ms"
      "burst_members ops key (b\<lparr>hb_events := es\<rparr>) ms"
    if "set es \<subseteq> set ms" for c es
    using members that by (auto simp: burst_members_def)
  have same: "proves_hydration (b\<lparr>hb_confirmed := c, hb_events := es\<rparr>) = proves_hydration b"
    "proves_hydration (b\<lparr>hb_events := es\<rparr>) = proves_hydration b" for c es
    by (simp_all add: proves_hydration_def)
  have events: "set (hb_events b @ [e]) \<subseteq> set ms"
    using members e by (auto simp: burst_members_def)
  consider "hb_confirmed b" | "\<not> hb_confirmed b" "proves_hydration b"
    | "\<not> hb_confirmed b" "\<not> proves_hydration b"
    by blast
  then show ?thesis
  proof cases
    case 1
    then have "burst_ok ops key b" and "accounted ops (as_snapshot e)"
      using members confirmed members_prove [OF members _ e] unfolding burst_ok_def accounted_def by auto
    with 1 show ?thesis
      by (simp add: place_record_def inv_queue inv_store inv)
  next
    case 2
    have "\<forall>r \<in> set (hb_events b @ [e]). proven_load ops r"
      using events members_prove [OF members 2(2)] by blast
    moreover have "burst_ok ops key (b\<lparr>hb_confirmed := True, hb_events := []\<rparr>)"
      using stored(1) [of "[]"] 2(2) same(1) unfolding burst_ok_def by auto
    ultimately show ?thesis
      unfolding place_record_def Let_def using 2 inv_queue_snapshots inv_store [OF inv] by (simp only: if_False if_True)
  next
    case 3
    have "burst_ok ops key (b\<lparr>hb_events := hb_events b @ [e]\<rparr>)" if "length (hb_events b @ [e]) \<le> MAX_PENDING_EVENTS"
      using stored(2) [OF events] 3 same(2) that unfolding burst_ok_def by auto
    moreover have "tracker_inv ops (flush_key_locked key (store_burst key (b\<lparr>hb_events := hb_events b @ [e]\<rparr>) t))"
    proof (rule tracker_invI)
      let ?t = "store_burst key (b\<lparr>hb_events := hb_events b @ [e]\<rparr>) t"
      have eq: "flush_key_locked key ?t = t\<lparr>ht_bursts := AList.delete key (ht_bursts t),
          ht_outbox := ht_outbox t @ hb_events b @ [e]\<rparr>"
        unfolding flush_key_locked_eq by (simp add: store_burst_def pending_of_def update_conv delete_update_same)
      have "accounted ops x" if "x \<in> set (hb_events b @ [e])" for x
        using events members that by (force simp: accounted_def set_received burst_members_def one_cohort_def)
      then show "accounted ops x" if "x \<in> set (ht_outbox (flush_key_locked key ?t))" for x
        using that tracker_invD(3) [OF inv] unfolding eq by auto
      show "burst_ok ops k b'" if "map_of (ht_bursts (flush_key_locked key ?t)) k = Some b'" for k b'
        using that tracker_invD(1) [OF inv] unfolding eq by (simp add: delete_conv split: if_splits)
      show "anchor_ok ops k a" if "map_of (ht_inventory_anchor (flush_key_locked key ?t)) k = Some a" for k a
        using that tracker_invD(2) [OF inv] unfolding eq by simp
    qed
    ultimately show ?thesis
      unfolding place_record_def Let_def using 3 inv_store [OF inv] by (simp add: not_less)
  qed
qed

lemma inv_record:
  assumes inv: "tracker_inv ops t" and e: "ObserveStorage e \<in> set ops" "ev_type e = ''storage_record''"
  shows "tracker_inv ops (observe_record_locked e t)"
proof -
  let ?key = "hydration_key e"
  obtain b t1 where current: "current_burst ?key e t = (b, t1)"
    by fastforce
  have anchored: "is_anchored e t \<longrightarrow> after_inventory ops e"
    using tracker_invD(2) [OF inv, of ?key]
    unfolding is_anchored_def anchor_ok_def after_inventory_def by (fastforce split: option.splits)
  from current obtain ms where "tracker_inv ops t1" and "burst_members ops ?key (join_burst e b) (ms @ [e])"
    and "length (hb_events b) \<le> MAX_PENDING_EVENTS" and "hb_confirmed b \<longrightarrow> hb_events b = [] \<and> proves_hydration b"
  proof (cases rule: current_burst_cases)
    case 1
    have "burst_members ops ?key (join_burst e b) ([] @ [e])"
      using members_join [OF members_new e(1,2) refl, of e "is_anchored e t"] no_span anchored 1
      by (simp add: new_burst_def)
    then show ?thesis
      using that [of "[]"] inv_flush [OF inv] 1 by (simp add: new_burst_def)
  next
    case 2
    obtain ms where "burst_members ops ?key b ms" and "length (hb_events b) \<le> MAX_PENDING_EVENTS"
      and "hb_confirmed b \<longrightarrow> hb_events b = [] \<and> proves_hydration b"
      using tracker_invD(1) [OF inv 2(1)] unfolding burst_ok_def by blast
    then show ?thesis
      using members_join [of ops ?key b ms e] that [of ms] e 2 anchored inv by (auto simp: starts_burst_def)
  qed
  then show ?thesis
    unfolding observe_record_locked_def current Let_def prod.case
    by (intro inv_place_record [where ms = "ms @ [e]"]) (simp_all add: proves_join)
qed

text \<open>Every section keeps the invariant, with its operation counted as received.\<close>

theorem inv_section:
  assumes "tracker_inv ops t"
  shows "tracker_inv (ops @ [op]) (hydration_section op t)"
proof -
  let ?ops = "ops @ [op]"
  have inv: "tracker_inv ?ops t"
    by (rule tracker_inv_mono [OF assms]) auto
  have got: "accounted ?ops e" if "e \<in> set (received_of op)" for e
    using that by (auto simp: accounted_def received_snoc)
  show ?thesis
  proof (cases op)
    case (ObserveInventory e)
    have "tracker_inv ?ops (t1\<lparr>ht_inventory_anchor := AList.update (hydration_key e) (ev_timestamp e) a, ht_inventory_last := l\<rparr>)"
      if "tracker_inv ?ops t1" and "ht_inventory_anchor t1 = a" for t1 a l
      using that ObserveInventory
      by (intro tracker_invI) (auto simp: update_conv anchor_ok_def split: if_splits dest: tracker_invD)
    from this [OF inv_flush [OF inv]] have "tracker_inv ?ops ((flush_key_locked (hydration_key e) t)
        \<lparr>ht_inventory_anchor := AList.update (hydration_key e) (ev_timestamp e) (ht_inventory_anchor t), ht_inventory_last := l\<rparr>)"
      for l by (simp add: flush_key_locked_eq)
    moreover have "tracker_inv ?ops (t\<lparr>ht_inventory_last := l\<rparr>)" for l
      using inv by (intro tracker_invI) (auto dest: tracker_invD)
    ultimately have "tracker_inv ?ops (open_epoch e t)"
      by (simp add: open_epoch_def Let_def)
    then show ?thesis
      using got ObserveInventory by (simp add: observe_inventory_locked_def inv_queue)
  next
    case (ObserveStorage e)
    have "tracker_inv ?ops (retire_state e t)"
      using inv by (auto simp: retire_state_def Let_def intro!: inv_flush inv_forget)
    then show ?thesis
      using got ObserveStorage inv_record [OF inv, of e]
      by (simp add: observe_storage_locked_def observe_live_locked_def inv_queue)
  next
    case (FlushStale now)
    then show ?thesis
      using inv by (auto simp: flush_stale_locked_def Let_def intro!: inv_fold inv_flush inv_forget)
  next
    case (CloseFlow flow)
    then show ?thesis
      using inv by (auto simp: close_flow_locked_def Let_def intro!: inv_fold inv_flush inv_forget)
  next
    case FinalizeAll
    have "tracker_inv ?ops (fold flush_key_locked (map fst (ht_bursts t)) t)"
      by (intro inv_fold inv inv_flush)
    then show ?thesis
      using FinalizeAll by (auto simp: finalize_all_locked_def intro!: tracker_invI dest: tracker_invD)
  qed
qed

end
