(* ===== verification/Hydration_Properties.thy ===== *)
theory Hydration_Properties
  imports Hydration_Facts
begin

text \<open>
  The properties of the hydration tracker, over every interleaving of its operations and
  deliveries (\<open>reachable_tracker\<close>), and for its sequential use.
\<close>

section \<open>Reachable states\<close>

definition tracker_account :: "hydration_tracker \<Rightarrow> hydration_op list \<Rightarrow> bdo_event list \<Rightarrow> bool" where
  "tracker_account t ops out \<longleftrightarrow> tracker_inv ops t \<and> (\<forall>e \<in> set out. accounted ops e) \<and>
     (\<forall>k P. selects k P \<longrightarrow>
        mset (map erase (filter P out) @ lane P k t) = mset (map erase (filter P (received ops))) \<and>
        ((\<forall>op \<in> set ops. is_record_of op \<or> filter P (received_of op) = []) \<longrightarrow>
          map erase (filter P out) @ lane P k t = map erase (filter P (received ops))))"

lemma account_section:
  assumes "tracker_account t ops out"
  shows "tracker_account (hydration_section op t) (ops @ [op]) out"
proof -
  have inv: "tracker_inv ops t"
    using assms by (simp add: tracker_account_def)
  have lanes: "mset (map erase (filter P out) @ lane P k t) = mset (map erase (filter P (received ops)))"
      "(\<forall>op \<in> set ops. is_record_of op \<or> filter P (received_of op) = []) \<Longrightarrow>
        map erase (filter P out) @ lane P k t = map erase (filter P (received ops))" if "selects k P" for k P
    using assms that unfolding tracker_account_def by blast+
  note section_lane = lane_section [OF _ inv_keys_match [OF inv] inv_confirmed_empty [OF inv], where op = op]
  have "\<forall>e \<in> set out. accounted (ops @ [op]) e"
    using assms accounted_mono [of ops _ "ops @ [op]"] unfolding tracker_account_def by auto
  moreover have "mset (map erase (filter P out) @ lane P k (hydration_section op t)) =
      mset (map erase (filter P (received (ops @ [op]))))" if "selects k P" for k P
  proof -
    have "mset (map erase (filter P out) @ lane P k (hydration_section op t)) =
        mset (map erase (filter P out) @ lane P k t) + mset (map erase (filter P (received_of op)))"
      using section_lane(1) [OF that] by simp
    then show ?thesis
      unfolding lanes(1) [OF that] received_snoc by simp
  qed
  moreover have "map erase (filter P out) @ lane P k (hydration_section op t) = map erase (filter P (received (ops @ [op])))"
    if "selects k P" and "\<forall>op \<in> set (ops @ [op]). is_record_of op \<or> filter P (received_of op) = []" for k P
    using section_lane(2) [OF that(1)] lanes(2) [OF that(1)] that(2) by (simp add: received_snoc)
  ultimately show ?thesis
    using inv_section [OF inv] unfolding tracker_account_def by blast
qed

lemma inv_outside:
  "tracker_inv ops t \<Longrightarrow> set outbox \<subseteq> set (ht_outbox t) \<Longrightarrow> tracker_inv ops (t\<lparr>ht_outbox := outbox\<rparr>)"
  "tracker_inv ops t \<Longrightarrow> tracker_inv ops (t\<lparr>ht_dispatching := d\<rparr>)"
  by (auto intro!: tracker_invI dest: tracker_invD)

lemma lane_outside:
  "lane P k (t\<lparr>ht_dispatching := d\<rparr>) = lane P k t"
  "ht_outbox t = e # outbox \<Longrightarrow> lane P k t = map erase (filter P [e]) @ lane P k (t\<lparr>ht_outbox := outbox\<rparr>)"
  by (simp_all add: lane_def pending_of_def)

lemma account_dispatching: "tracker_account t ops out \<Longrightarrow> tracker_account (t\<lparr>ht_dispatching := d\<rparr>) ops out"
  unfolding tracker_account_def lane_outside using inv_outside(2) by blast

lemma account_deliver:
  assumes "tracker_account t ops out" and "ht_outbox t = e # outbox"
  shows "tracker_account (t\<lparr>ht_outbox := outbox\<rparr>) ops (out @ [e])"
proof -
  have "tracker_inv ops (t\<lparr>ht_outbox := outbox\<rparr>)" and "accounted ops e"
    using assms inv_outside(1) [of ops t outbox] tracker_invD(3) [of ops t e] unfolding tracker_account_def by auto
  moreover have "map erase (filter P (out @ [e])) @ lane P k (t\<lparr>ht_outbox := outbox\<rparr>) =
      map erase (filter P out) @ lane P k t" for k P
    unfolding lane_outside(2) [OF assms(2)] by simp
  ultimately show ?thesis
    using assms(1) unfolding tracker_account_def by auto
qed

lemma account_reachable: "reachable_tracker t ops out \<Longrightarrow> tracker_account t ops out"
proof -
  have "tracker_account t' ops' out'" if "tracker_step\<^sup>*\<^sup>* (new_hydration_tracker, [], []) s" and "s = (t', ops', out')"
    for s t' ops' out'
    using that
  proof (induction arbitrary: t' ops' out' rule: rtranclp_induct)
    case base
    then show ?case
      by (auto simp: tracker_account_def new_hydration_tracker_def received_def lane_def pending_of_def
          intro!: tracker_invI)
  next
    case (step s s')
    obtain t1 ops1 out1 where s: "s = (t1, ops1, out1)"
      by (cases s)
    note account = step.IH [OF s]
    from step.hyps(2) show ?case
      unfolding s step.prems
      by (cases rule: tracker_step.cases)
        (auto intro: account_section [OF account] account_dispatching [OF account] account_deliver [OF account])
  qed
  then show "reachable_tracker t ops out \<Longrightarrow> tracker_account t ops out"
    unfolding reachable_tracker_def by blast
qed

section \<open>The sequential use\<close>

text \<open>A consumer that records what it is handed and never raises.\<close>

definition collect_event :: "bdo_event \<Rightarrow> bdo_event list \<Rightarrow> bool \<times> bdo_event list" where
  "collect_event e out = (False, out @ [e])"

abbreviation collected :: "hydration_op list \<Rightarrow> hydration_tracker \<times> bdo_event list" where
  "collected ops \<equiv> run_hydration collect_event ops (new_hydration_tracker, [])"

lemma drain_loop_collect: "drain_loop collect_event outbox out = (False, [], out @ outbox)"
  by (induction outbox arbitrary: out) (simp_all add: collect_event_def)

lemma hydration_call_collect:
  "\<not> ht_dispatching t \<Longrightarrow> \<not> ht_dispatching (hydration_section op t) \<Longrightarrow>
    hydration_call collect_event op (t, out) =
      ((hydration_section op t)\<lparr>ht_outbox := []\<rparr>, out @ ht_outbox (hydration_section op t))"
  by (simp add: hydration_call_def drain_outbox_def drain_loop_collect)

lemma fold_dispatching:
  "(\<And>x t. ht_dispatching (f x t) = ht_dispatching t) \<Longrightarrow> ht_dispatching (fold f xs t) = ht_dispatching t"
  by (induction xs arbitrary: t) simp_all

lemma dispatching_simps [simp]:
  "ht_dispatching (flush_key_locked key t) = ht_dispatching t"
  "ht_dispatching (forget_anchor key t) = ht_dispatching t"
  "ht_dispatching (queue_locked e t) = ht_dispatching t"
  "ht_dispatching (store_burst key b t) = ht_dispatching t"
  by (simp_all add: flush_key_locked_eq forget_anchor_def queue_locked_def store_burst_def)

lemma section_dispatching [simp]: "ht_dispatching (hydration_section op t) = ht_dispatching t"
proof -
  have "ht_dispatching (place_record key e b t) = ht_dispatching t" for key e b t
    by (simp add: place_record_def Let_def fold_dispatching)
  moreover have "ht_dispatching (snd (current_burst key e t)) = ht_dispatching t" for key e t
    by (simp add: current_burst_def Let_def split: option.split)
  ultimately have "ht_dispatching (observe_record_locked e t) = ht_dispatching t" for e
    by (simp add: observe_record_locked_def Let_def split_beta)
  then show ?thesis
    by (cases op) (simp_all add: observe_inventory_locked_def open_epoch_def observe_storage_locked_def
        observe_live_locked_def retire_state_def flush_stale_locked_def close_flow_locked_def
        finalize_all_locked_def Let_def fold_dispatching)
qed

lemma drain_steps:
  "ht_dispatching t \<Longrightarrow> tracker_step\<^sup>*\<^sup>* (t, ops, out) (t\<lparr>ht_outbox := []\<rparr>, ops, out @ ht_outbox t)"
proof (induction "ht_outbox t" arbitrary: t out)
  case (Cons e outbox)
  have "tracker_step (t, ops, out) (t\<lparr>ht_outbox := outbox\<rparr>, ops, out @ [e])"
    using Cons by (intro deliver_step) auto
  moreover have "tracker_step\<^sup>*\<^sup>* (t\<lparr>ht_outbox := outbox\<rparr>, ops, out @ [e])
      (t\<lparr>ht_outbox := []\<rparr>, ops, out @ ht_outbox t)"
    using Cons.hyps(1) [of "t\<lparr>ht_outbox := outbox\<rparr>" "out @ [e]"] Cons.hyps(2) [symmetric] Cons.prems by simp
  ultimately show ?case
    by (rule converse_rtranclp_into_rtranclp)
next
  case Nil
  then have "t\<lparr>ht_outbox := []\<rparr> = t" and "out @ ht_outbox t = out"
    by (cases t; simp)+
  then show ?case
    by (simp only: rtranclp.rtrancl_refl)
qed

text \<open>A call is one of the interleavings: its section, then a complete delivery.\<close>

lemma call_reachable:
  assumes "reachable_tracker t ops out" and "\<not> ht_dispatching t"
  shows "reachable_tracker ((hydration_section op t)\<lparr>ht_outbox := []\<rparr>) (ops @ [op])
    (out @ ht_outbox (hydration_section op t))"
proof -
  let ?t = "hydration_section op t"
  have "tracker_step (t, ops, out) (?t, ops @ [op], out)"
    by (rule section_step)
  moreover have "tracker_step (?t, ops @ [op], out) (?t\<lparr>ht_dispatching := True\<rparr>, ops @ [op], out)"
    using assms(2) by (intro start_step) simp
  moreover have "tracker_step\<^sup>*\<^sup>* (?t\<lparr>ht_dispatching := True\<rparr>, ops @ [op], out)
      (?t\<lparr>ht_dispatching := True, ht_outbox := []\<rparr>, ops @ [op], out @ ht_outbox ?t)"
    using drain_steps [of "?t\<lparr>ht_dispatching := True\<rparr>" "ops @ [op]" out] by simp
  moreover have "tracker_step (?t\<lparr>ht_dispatching := True, ht_outbox := []\<rparr>, ops @ [op], out @ ht_outbox ?t)
      (?t\<lparr>ht_dispatching := True, ht_outbox := []\<rparr>\<lparr>ht_dispatching := False\<rparr>, ops @ [op], out @ ht_outbox ?t)"
    by (intro stop_step) simp_all
  moreover have "?t\<lparr>ht_dispatching := True, ht_outbox := []\<rparr>\<lparr>ht_dispatching := False\<rparr> = ?t\<lparr>ht_outbox := []\<rparr>"
    using assms(2) section_dispatching [of op t] by simp
  ultimately show ?thesis
    using assms(1) unfolding reachable_tracker_def
    by (metis (no_types, lifting) rtranclp.rtrancl_into_rtrancl rtranclp_trans)
qed

lemma collected_snoc:
  "collected (ops @ [op]) = hydration_call collect_event op (collected ops)"
  by (simp add: run_hydration_def)

lemma collected_reachable:
  "reachable_tracker (fst (collected ops)) ops (snd (collected ops)) \<and>
    \<not> ht_dispatching (fst (collected ops)) \<and> ht_outbox (fst (collected ops)) = []"
proof (induction ops rule: rev_induct)
  case Nil
  then show ?case
    by (simp add: run_hydration_def reachable_tracker_def new_hydration_tracker_def)
next
  case (snoc op ops)
  obtain t out where s: "collected ops = (t, out)"
    by fastforce
  with snoc have t: "reachable_tracker t ops out" "\<not> ht_dispatching t"
    by simp_all
  show ?case
    using call_reachable [OF t, of op] t(2) unfolding collected_snoc s
    by (simp add: hydration_call_collect)
qed

section \<open>A load of eight towns\<close>

abbreviation sample_event :: "string \<Rightarrow> int \<Rightarrow> bdo_event" where
  "sample_event kind town \<equiv>
     \<lparr>ev_type = kind, ev_timestamp = Finite 0, ev_flow = sample_flow, ev_item_id = 7, ev_quantity = 1,
      ev_source = Some ''Storage'', ev_raw_context = None, ev_opcode = Some 3, ev_message_length = None,
      ev_base_item_id = None, ev_enhancement_level = None, ev_enhancement = None, ev_inventory_slot = None,
      ev_item_instance = None, ev_storage_instance = None, ev_record_index = None, ev_record_count = Some 1,
      ev_record_offset = None, ev_confidence = None, ev_extra = [], ev_storage_id = Some town,
      ev_storage_name = None, ev_storage_name_confidence = None, ev_flow_generation = 1\<rparr>"

abbreviation sample_load :: "hydration_op list" where
  "sample_load \<equiv> ObserveInventory (sample_event ''inventory_snapshot'' 0)
     # map (\<lambda>town. ObserveStorage (sample_event ''storage_record'' town)) [1, 2, 3, 4, 5, 6, 7, 8]"


section \<open>Properties\<close>

lemma selects_key:
  "selects k (\<lambda>e. hydration_key e = k \<and> D (erase e))" "selects k (\<lambda>e. hydration_key e = k)"
  by (simp_all add: selects_def)

lemma account_lane:
  assumes "reachable_tracker t ops out" and "selects k P"
  shows "mset (map erase (filter P (out @ ht_outbox t @ pending_of t k))) = mset (map erase (filter P (received ops)))"
    and "(\<forall>op \<in> set ops. is_record_of op \<or> filter P (received_of op) = []) \<Longrightarrow>
      map erase (filter P (out @ ht_outbox t @ pending_of t k)) = map erase (filter P (received ops))"
proof -
  have "map erase (filter P (out @ ht_outbox t @ pending_of t k)) = map erase (filter P out) @ lane P k t"
    by (simp add: lane_def)
  then show "mset (map erase (filter P (out @ ht_outbox t @ pending_of t k))) = mset (map erase (filter P (received ops)))"
    and "(\<forall>op \<in> set ops. is_record_of op \<or> filter P (received_of op) = []) \<Longrightarrow>
      map erase (filter P (out @ ht_outbox t @ pending_of t k)) = map erase (filter P (received ops))"
    using account_reachable [OF assms(1)] assms(2) unfolding tracker_account_def by (simp_all only:)
qed

text \<open>C9. The tracker loses nothing and repeats nothing: in every interleaving of its operations
  and deliveries, and whether or not the consumer raises, the events of a connection that were
  handed out, are queued or are held back are exactly the ones received, up to the verdict.
  Neutral records, however selected, also stay in their order of arrival.\<close>

theorem hydration_conserves:
  assumes "reachable_tracker t ops out"
  shows "mset (map erase (filter (\<lambda>e. hydration_key e = k) (out @ ht_outbox t @ pending_of t k))) =
      mset (map erase (filter (\<lambda>e. hydration_key e = k) (received ops))) \<and>
    ((\<forall>op \<in> set ops. is_record_of op \<or> (\<forall>e \<in> set (received_of op). \<not> (hydration_key e = k \<and> D (erase e)))) \<longrightarrow>
      map erase (filter (\<lambda>e. hydration_key e = k \<and> D (erase e)) (out @ ht_outbox t @ pending_of t k)) =
      map erase (filter (\<lambda>e. hydration_key e = k \<and> D (erase e)) (received ops)))"
proof -
  have "filter (\<lambda>e. hydration_key e = k \<and> D (erase e)) (received_of op) = []"
    if "\<forall>e \<in> set (received_of op). \<not> (hydration_key e = k \<and> D (erase e))" for op
    using that by (simp add: filter_empty_conv)
  then show ?thesis
    using account_lane [OF assms selects_key(2)] account_lane(2) [OF assms selects_key(1)] by blast
qed

theorem hydration_conserves_witness:
  "let k = (sample_flow, 1); s = collected sample_load in
    mset (map erase (filter (\<lambda>e. hydration_key e = k) (snd s @ ht_outbox (fst s) @ pending_of (fst s) k))) =
    mset (map erase (filter (\<lambda>e. hydration_key e = k) (received sample_load)))"
  using hydration_conserves [OF collected_reachable [of sample_load, THEN conjunct1], where k = "(sample_flow, 1)"]
  unfolding Let_def by (rule conjunct1)



text \<open>What is held back is bounded and undecided: a burst keeps at most
  \<^verbatim>\<open>MAX_PENDING_EVENTS\<close> records, and none once its evidence suffices.\<close>

theorem held_back_bounded:
  assumes "reachable_tracker t ops out" and "map_of (ht_bursts t) k = Some b"
  shows "length (hb_events b) \<le> 10000 \<and> (proves_hydration b \<longrightarrow> hb_confirmed b \<and> hb_events b = [])"
proof -
  have "burst_ok ops k b"
    using account_reachable [OF assms(1)] assms(2) tracker_invD(1) unfolding tracker_account_def by blast
  then show ?thesis
    by (simp add: burst_ok_def MAX_PENDING_EVENTS_def)
qed

theorem held_back_bounded_witness:
  "let b = the (map_of (ht_bursts (fst (collected sample_load))) (sample_flow, 1)) in
    length (hb_events b) \<le> 10000 \<and> (proves_hydration b \<longrightarrow> hb_confirmed b \<and> hb_events b = [])"
proof -
  have "map_of (ht_bursts (fst (collected sample_load))) (sample_flow, 1) \<noteq> None"
    by code_simp
  then show ?thesis
    unfolding Let_def
    by (intro held_back_bounded [OF collected_reachable [THEN conjunct1], of sample_load]) simp
qed

lemma delete_all: "bursts = [] \<or> set (map fst bursts) \<subseteq> set keys \<Longrightarrow>
    ht_bursts t = bursts \<Longrightarrow> ht_bursts (fold flush_key_locked keys t) = []"
proof (induction keys arbitrary: t bursts)
  case (Cons key keys)
  have "ht_bursts (flush_key_locked key t) = AList.delete key bursts"
    using Cons.prems(2) by (simp add: flush_key_locked_eq)
  moreover have "set (map fst (AList.delete key bursts)) \<subseteq> set keys"
    using Cons.prems(1) by (auto simp: set_delete)
  ultimately show ?case
    using Cons.IH [of "AList.delete key bursts" "flush_key_locked key t"] by simp
qed auto

text \<open>C31. The end of a capture releases everything: after \<^verbatim>\<open>finalize_all\<close> no burst, no
  anchor and nothing queued is left, and the events delivered over the whole capture are those
  received, up to the verdict.\<close>

theorem finalize_releases_all:
  "let (t, out) = collected (ops @ [FinalizeAll]) in
    ht_bursts t = [] \<and> ht_inventory_anchor t = [] \<and> ht_inventory_last t = [] \<and> ht_outbox t = [] \<and>
    mset (map erase out) = mset (map erase (received ops))"
proof -
  let ?ops = "ops @ [FinalizeAll]" and ?t = "fst (collected (ops @ [FinalizeAll]))" and ?out = "snd (collected (ops @ [FinalizeAll]))"
  obtain t out where s: "collected ops = (t, out)"
    by fastforce
  then have "\<not> ht_dispatching t"
    using collected_reachable [of ops] by simp
  then have "?t = (finalize_all_locked t)\<lparr>ht_outbox := []\<rparr>"
    unfolding collected_snoc s
    using hydration_call_collect [of t FinalizeAll out] section_dispatching [of FinalizeAll t] by simp
  then have empty: "ht_bursts ?t = []" "ht_inventory_anchor ?t = []" "ht_inventory_last ?t = []" "ht_outbox ?t = []"
    using delete_all [of "ht_bursts t" "map fst (ht_bursts t)" t] by (simp_all add: finalize_all_locked_def)
  have "pending_of ?t k = []" for k
    by (simp add: pending_of_def empty)
  moreover have "received ?ops = received ops"
    by (simp add: received_snoc)
  ultimately have per_key: "mset (map erase (filter (\<lambda>e. hydration_key e = k) ?out)) =
      mset (map erase (filter (\<lambda>e. hydration_key e = k) (received ops)))" for k
    using account_lane(1) [OF collected_reachable [of ?ops, THEN conjunct1] selects_key(2) [of k]] by (simp add: empty)
  have count: "count (mset (map erase es)) x =
      count (mset (map erase (filter (\<lambda>e. hydration_key e = hydration_key x) es))) x" for es x
    by (induction es) auto
  have "mset (map erase ?out) = mset (map erase (received ops))"
    by (rule multiset_eqI) (metis count per_key)
  then show ?thesis
    using empty by (simp add: split_beta)
qed

end
