(* ===== verification/Packet_Engine.thy ===== *)
theory Packet_Engine
  imports Bdo_Event Target_Scanner Frame_Collector Flow_Manager
begin

text \<open>
  \<^verbatim>\<open>src/bdo_toolkit/_engine.py\<close>: the engine that puts the flow table, the scanners of
  each flow and the suppression of repeated records together.

  Every callback of the constructor is a parameter on the state \<open>'w\<close> of the application;
  the flow table's shared state is the engine's own fields paired with it. The digest of a
  message (\<^verbatim>\<open>blake2b\<close>) is a parameter: the model uses nothing of it but that it is
  a function. The cached digest is looked up by the identity of the message object; equal
  bytes have equal digests, so the model looks it up by the bytes.
\<close>

section \<open>Configuration and state\<close>

record 'w engine_config =
  ec_server_ports :: "int set"
  ec_event_specs :: "event_spec list"
  ec_on_event :: "loot_event \<Rightarrow> bytes \<Rightarrow> 'w \<Rightarrow> 'w"
  ec_frame_observer :: "(bdo_frame \<Rightarrow> 'w \<Rightarrow> 'w) option"
  ec_stream_observer :: "(bytes \<Rightarrow> packet_context \<Rightarrow> 'w \<Rightarrow> 'w) option"
  ec_flow_close_observer :: "(flow_key \<Rightarrow> 'w \<Rightarrow> 'w) option"
  ec_flow_reset_observer :: "(flow_key \<Rightarrow> int \<Rightarrow> int \<Rightarrow> 'w \<Rightarrow> 'w) option"
  ec_message_observer :: "'w message_observer option"
  ec_max_pending_segments :: int
  ec_max_pending_bytes :: "int option"
  ec_defer_gap_timeouts :: bool
  ec_unhinted_frame_observer :: "(bdo_frame \<Rightarrow> 'w \<Rightarrow> 'w) option"
  ec_digest :: "bytes \<Rightarrow> bytes"

type_synonym event_key = "flow_key \<times> int \<times> int \<times> int \<times> int option \<times> bytes"

record packet_engine =
  pe_events_found :: int
  pe_flow_state_evictions :: int
  pe_seen_event_keys :: "event_key set"
  pe_seen_event_order :: "event_key list"
  pe_last_raw_message :: "bytes option"
  pe_last_raw_message_digest :: "bytes option"

definition new_packet_engine :: packet_engine where
  "new_packet_engine =
     \<lparr>pe_events_found = 0, pe_flow_state_evictions = 0, pe_seen_event_keys = {}, pe_seen_event_order = [],
      pe_last_raw_message = None, pe_last_raw_message_digest = None\<rparr>"

definition ITEM_MAX_ACTIVE_FLOWS :: int where
  "ITEM_MAX_ACTIVE_FLOWS = 64"

definition ITEM_FLOW_IDLE_SECONDS :: pyfloat where
  "ITEM_FLOW_IDLE_SECONDS = Finite 300"

section \<open>Repeated records\<close>

definition raw_message_digest :: "(bytes \<Rightarrow> bytes) \<Rightarrow> bytes \<Rightarrow> packet_engine \<Rightarrow> bytes \<times> packet_engine" where
  "raw_message_digest digest raw_message pe =
     (case pe_last_raw_message_digest pe of
        Some d \<Rightarrow>
          if pe_last_raw_message pe = Some raw_message then (d, pe)
          else (digest raw_message, pe\<lparr>pe_last_raw_message := Some raw_message,
                                       pe_last_raw_message_digest := Some (digest raw_message)\<rparr>)
      | None \<Rightarrow> (digest raw_message, pe\<lparr>pe_last_raw_message := Some raw_message,
                                         pe_last_raw_message_digest := Some (digest raw_message)\<rparr>))"

fun trim_history :: "event_key set \<Rightarrow> event_key list \<Rightarrow> event_key set \<times> event_key list" where
  "trim_history seen [] = (seen, [])"
| "trim_history seen (expired_key # order) =
     (if length (expired_key # order) > DEDUP_HISTORY_LIMIT then trim_history (seen - {expired_key}) order
      else (seen, expired_key # order))"

definition is_duplicate_event ::
    "(bytes \<Rightarrow> bytes) \<Rightarrow> loot_event \<Rightarrow> bytes \<Rightarrow> packet_engine \<Rightarrow> bool \<times> packet_engine" where
  "is_duplicate_event digest event raw_message pe =
     (case le_stream_sequence event of
        None \<Rightarrow> (False, pe)
      | Some stream_sequence \<Rightarrow>
          let (d, pe1) = raw_message_digest digest raw_message pe;
              key = (ctx_flow (le_context event), ctx_flow_generation (le_context event), stream_sequence,
                     le_opcode event, le_record_offset event, d)
          in if key \<in> pe_seen_event_keys pe1 then (True, pe1)
             else let (seen, order) = trim_history (insert key (pe_seen_event_keys pe1)) (pe_seen_event_order pe1 @ [key])
                  in (False, pe1\<lparr>pe_seen_event_keys := seen, pe_seen_event_order := order\<rparr>))"

definition handle_record ::
    "'w engine_config \<Rightarrow> loot_event \<Rightarrow> bytes \<Rightarrow> packet_engine \<times> 'w \<Rightarrow> packet_engine \<times> 'w" where
  "handle_record cfg event raw_message s =
     (case is_duplicate_event (ec_digest cfg) event raw_message (fst s) of
        (True, pe) \<Rightarrow> (pe, snd s)
      | (False, pe) \<Rightarrow>
          (pe\<lparr>pe_events_found := pe_events_found pe + 1\<rparr>, ec_on_event cfg event raw_message (snd s)))"

section \<open>The scanner of a flow\<close>

text \<open>
  \<^verbatim>\<open>_TeeScanner\<close>. Without any observer \<^verbatim>\<open>build_scanner\<close> returns the primary
  scanner itself, which is what a tee without taps does.
\<close>

record tee_scanner =
  te_primary :: target_scanner
  te_tap :: "frame_collector option"
  te_unhinted_tap :: "frame_collector option"

definition on_app :: "('w \<Rightarrow> 'w) \<Rightarrow> packet_engine \<times> 'w \<Rightarrow> packet_engine \<times> 'w" where
  "on_app g s = (fst s, g (snd s))"

definition engine_target_config :: "'w engine_config \<Rightarrow> (packet_engine \<times> 'w) target_config" where
  "engine_target_config cfg =
     \<lparr>tc_signature_groups = signature_groups (ec_event_specs cfg),
      tc_callback = handle_record cfg,
      tc_message_observer = map_option (\<lambda>observe op n outcome k c q. on_app (observe op n outcome k c q))
                              (ec_message_observer cfg)\<rparr>"

definition known_opcodes :: "'w engine_config \<Rightarrow> int set" where
  "known_opcodes cfg = spec_opcode ` set (ec_event_specs cfg)"

text \<open>One tap: it is fed when it exists, and exists when its observer does.\<close>

definition run_tap ::
    "(frame_collector \<times> (packet_engine \<times> 'w) \<Rightarrow> frame_collector \<times> (packet_engine \<times> 'w)) \<Rightarrow>
       frame_collector option \<times> (packet_engine \<times> 'w) \<Rightarrow> frame_collector option \<times> (packet_engine \<times> 'w)" where
  "run_tap g x =
     (case fst x of None \<Rightarrow> x | Some tap \<Rightarrow> (case g (tap, snd x) of (tap', w) \<Rightarrow> (Some tap', w)))"

definition tap_callback ::
    "(bdo_frame \<Rightarrow> 'w \<Rightarrow> 'w) option \<Rightarrow> bdo_frame \<Rightarrow> packet_engine \<times> 'w \<Rightarrow> packet_engine \<times> 'w" where
  "tap_callback observer frame w = (case observer of None \<Rightarrow> w | Some observe \<Rightarrow> on_app (observe frame) w)"

text \<open>Both entry points observe the stream, run the taps, then the primary scanner.\<close>

definition tee_run ::
    "(frame_collector \<times> (packet_engine \<times> 'w) \<Rightarrow> frame_collector \<times> (packet_engine \<times> 'w)) \<Rightarrow>
     (frame_collector \<times> (packet_engine \<times> 'w) \<Rightarrow> frame_collector \<times> (packet_engine \<times> 'w)) \<Rightarrow>
     (target_scanner \<times> (packet_engine \<times> 'w) \<Rightarrow> (target_scanner \<times> (packet_engine \<times> 'w)) option) \<Rightarrow>
     'w engine_config \<Rightarrow> bytes \<Rightarrow> packet_context \<Rightarrow>
     tee_scanner \<times> (packet_engine \<times> 'w) \<Rightarrow> (tee_scanner \<times> (packet_engine \<times> 'w)) option" where
  "tee_run tap unhinted primary cfg data ctx s =
     (let w0 = (case ec_stream_observer cfg of None \<Rightarrow> snd s | Some observe \<Rightarrow> on_app (observe data ctx) (snd s));
          (tap', w1) = run_tap tap (te_tap (fst s), w0);
          (unhinted', w2) = run_tap unhinted (te_unhinted_tap (fst s), w1)
      in map_option (\<lambda>(tm, w3). (\<lparr>te_primary = tm, te_tap = tap', te_unhinted_tap = unhinted'\<rparr>, w3))
           (primary (te_primary (fst s), w2)))"

definition tee_feed ::
    "'w engine_config \<Rightarrow> bytes \<Rightarrow> packet_context \<Rightarrow> tee_scanner \<times> (packet_engine \<times> 'w) \<Rightarrow>
       (tee_scanner \<times> (packet_engine \<times> 'w)) option" where
  "tee_feed cfg data ctx =
     tee_run (fc_feed (known_opcodes cfg) (tap_callback (ec_frame_observer cfg)) data ctx)
       (fc_feed {} (tap_callback (ec_unhinted_frame_observer cfg)) data ctx)
       (tm_feed (engine_target_config cfg) data ctx) cfg data ctx"

definition tee_scan_standalone ::
    "'w engine_config \<Rightarrow> bytes \<Rightarrow> packet_context \<Rightarrow> tee_scanner \<times> (packet_engine \<times> 'w) \<Rightarrow>
       (tee_scanner \<times> (packet_engine \<times> 'w)) option" where
  "tee_scan_standalone cfg data ctx =
     tee_run (fc_scan_standalone (known_opcodes cfg) (tap_callback (ec_frame_observer cfg)) data ctx)
       (fc_scan_standalone {} (tap_callback (ec_unhinted_frame_observer cfg)) data ctx)
       (tm_scan_standalone (engine_target_config cfg) data ctx) cfg data ctx"

definition tee_can_anchor_at_start :: "'w engine_config \<Rightarrow> bytes \<Rightarrow> bool" where
  "tee_can_anchor_at_start cfg = tm_can_anchor_at_start (signature_groups (ec_event_specs cfg))"

definition tee_reset :: "tee_scanner \<Rightarrow> tee_scanner" where
  "tee_reset te =
     \<lparr>te_primary = tm_reset (te_primary te), te_tap = map_option fc_reset (te_tap te),
      te_unhinted_tap = map_option fc_reset (te_unhinted_tap te)\<rparr>"

definition build_scanner :: "'w engine_config \<Rightarrow> tee_scanner" where
  "build_scanner cfg =
     \<lparr>te_primary = new_target_scanner,
      te_tap = map_option (\<lambda>_. new_frame_collector) (ec_frame_observer cfg),
      te_unhinted_tap = map_option (\<lambda>_. new_frame_collector) (ec_unhinted_frame_observer cfg)\<rparr>"

text \<open>As for the target scanner, the operations return for the specs that exist.\<close>

definition tee_stream_scanner :: "'w engine_config \<Rightarrow> (tee_scanner \<times> (packet_engine \<times> 'w)) stream_scanner" where
  "tee_stream_scanner cfg =
     \<lparr>sc_feed = (\<lambda>d c s. the (tee_feed cfg d c s)),
      sc_scan_standalone = (\<lambda>d c s. the (tee_scan_standalone cfg d c s)),
      sc_reset = (\<lambda>s. (tee_reset (fst s), snd s)),
      sc_can_anchor_at_start = Some (tee_can_anchor_at_start cfg),
      sc_on_gap_reset = None\<rparr>"

section \<open>The engine\<close>

definition count_flow_state_eviction :: "packet_engine \<times> 'w \<Rightarrow> packet_engine \<times> 'w" where
  "count_flow_state_eviction s =
     ((fst s)\<lparr>pe_flow_state_evictions := pe_flow_state_evictions (fst s) + 1\<rparr>, snd s)"

definition engine_manager_config :: "'w engine_config \<Rightarrow> (tee_scanner, packet_engine \<times> 'w) manager_config" where
  "engine_manager_config cfg =
     \<lparr>mc_server_ports = ec_server_ports cfg,
      mc_scanner = tee_stream_scanner cfg,
      mc_scanner_factory = (\<lambda>w. (build_scanner cfg, w)),
      mc_max_flows = Some ITEM_MAX_ACTIVE_FLOWS,
      mc_on_flow_eviction = Some count_flow_state_eviction,
      mc_on_flow_close = map_option (\<lambda>observe flow. on_app (observe flow)) (ec_flow_close_observer cfg),
      mc_on_flow_reset = map_option (\<lambda>observe flow g q. on_app (observe flow g q)) (ec_flow_reset_observer cfg),
      mc_idle_timeout = Some ITEM_FLOW_IDLE_SECONDS,
      mc_track_flow_generations = True,
      mc_max_pending_segments = ec_max_pending_segments cfg,
      mc_max_pending_bytes = ec_max_pending_bytes cfg,
      mc_defer_gap_timeouts = ec_defer_gap_timeouts cfg\<rparr>"

definition engine_init :: "'w engine_config \<Rightarrow> 'w \<Rightarrow> manager_error + (tee_scanner, packet_engine \<times> 'w) flow_manager" where
  "engine_init cfg w = flow_manager_init (engine_manager_config cfg) (new_packet_engine, w)"

definition engine_process_tcp_segment ::
    "'w engine_config \<Rightarrow> tcp_packet \<Rightarrow> (tee_scanner, packet_engine \<times> 'w) flow_manager \<Rightarrow>
       (tee_scanner, packet_engine \<times> 'w) flow_manager" where
  "engine_process_tcp_segment cfg = process_tcp_segment (engine_manager_config cfg)"

definition engine_service_gaps ::
    "'w engine_config \<Rightarrow> pyfloat \<Rightarrow> (tee_scanner, packet_engine \<times> 'w) flow_manager \<Rightarrow>
       int \<times> (tee_scanner, packet_engine \<times> 'w) flow_manager" where
  "engine_service_gaps cfg = manager_service_gaps (engine_manager_config cfg)"

definition engine_finish ::
    "'w engine_config \<Rightarrow> (tee_scanner, packet_engine \<times> 'w) flow_manager \<Rightarrow>
       (tee_scanner, packet_engine \<times> 'w) flow_manager" where
  "engine_finish cfg = manager_finish (engine_manager_config cfg)"

end
