(* ===== verification/Manager_World.thy ===== *)
theory Manager_World
  imports Manager_Contract
begin

text \<open>
  The interface \<open>flow_property\<close> extended to what all flows share: the state \<open>'w\<close> the
  scanners and callbacks write. A predicate \<open>W\<close> on it that every operation on an entry
  with \<open>J\<close> keeps, and that the factory and the callbacks keep, holds after every run.
\<close>

locale world_property = flow_property cfg J pkt_ok
  for cfg :: "('s, 'w) manager_config"
    and J :: "flow_key \<Rightarrow> tcp_flow_state \<times> 's \<Rightarrow> bool"
    and pkt_ok :: "tcp_packet \<Rightarrow> bool" +
  fixes W :: "'w \<Rightarrow> bool"
  assumes W_new: "mc_scanner_factory cfg w = (s, w') \<Longrightarrow> W w \<Longrightarrow> W w'"
    and W_anchor: "J k (t, s) \<Longrightarrow> W w \<Longrightarrow>
      anchor_sequence (flow_scanner cfg k (fs_generation t)) q (t, s, n, w) = (t', s', n', w') \<Longrightarrow> W w'"
    and W_add: "J (pk_flow p) (t, s) \<Longrightarrow> pkt_ok p \<Longrightarrow> W w \<Longrightarrow>
      add_segment (flow_scanner cfg (pk_flow p) (fs_generation t)) (packet_position p) (pk_payload p)
        (packet_context_of p (fs_generation t)) (t, s, n, w) = (t', s', n', w') \<Longrightarrow> W w'"
    and W_service: "J k (t, s) \<Longrightarrow> W w \<Longrightarrow>
      snd (service_gaps (flow_scanner cfg k (fs_generation t)) now (t, s, n, w)) = (t', s', n', w') \<Longrightarrow> W w'"
    and W_finish: "J k (t, s) \<Longrightarrow> W w \<Longrightarrow>
      flow_finish (flow_scanner cfg k (fs_generation t)) (t, s, n, w) = (t', s', n', w') \<Longrightarrow> W w'"
    and W_close: "mc_on_flow_close cfg = Some close \<Longrightarrow> W w \<Longrightarrow> W (close k w)"
    and W_evict: "mc_on_flow_eviction cfg = Some evict \<Longrightarrow> W w \<Longrightarrow> W (evict w)"
begin

definition kept :: "('s, 'w) flow_manager \<Rightarrow> bool" where
  "kept m \<longleftrightarrow> all_flows J m \<and> W (fm_world m)"

lemma keptD: "kept m \<Longrightarrow> map_of (fm_flows m) k = Some (t, s) \<Longrightarrow> J k (t, s)"
  using map_of_SomeD by (fastforce simp: kept_def all_flows_def)

lemma on_flow_world:
  assumes "kept m"
    and "\<And>t s n w t' s' n' w'. map_of (fm_flows m) k = Some (t, s) \<Longrightarrow> J k (t, s) \<Longrightarrow> W w \<Longrightarrow>
      f (t, s, n, w) = (t', s', n', w') \<Longrightarrow> W w'"
  shows "W (fm_world (on_flow f k m))"
proof (cases "map_of (fm_flows m) k")
  case None
  then show ?thesis
    using assms(1) by (simp add: on_flow_def kept_def)
next
  case (Some st)
  obtain t s where st: "st = (t, s)"
    by (cases st)
  obtain t' s' n' w' where f: "f (t, s, fm_tcp_gap_resets m, fm_world m) = (t', s', n', w')"
    by (metis prod_cases4)
  have "W w'"
    using assms(2) [OF _ _ _ f] Some st keptD [OF assms(1)] assms(1) by (auto simp: kept_def)
  then show ?thesis
    using Some st f by (simp add: on_flow_def)
qed

lemma notify_world: "W (fm_world m) \<Longrightarrow> W (fm_world (notify_flow_close cfg k m))"
  using W_close by (simp add: notify_flow_close_def split: option.split)

lemma finish_world: "J k (t, s) \<Longrightarrow> W (fm_world m) \<Longrightarrow> W (fm_world (finish_flow cfg k (t, s) m))"
proof -
  assume J: "J k (t, s)" and W: "W (fm_world m)"
  obtain t' s' n' w' where f: "flow_finish (flow_scanner cfg k (fs_generation t)) (t, s, fm_tcp_gap_resets m, fm_world m) = (t', s', n', w')"
    by (metis prod_cases4)
  from W_finish [OF J W f] f show ?thesis
    by (simp add: finish_flow_def)
qed

lemma pop_and_close_kept: "kept m \<Longrightarrow> kept (pop_and_close cfg k m)"
proof -
  assume m: "kept m"
  have "W (fm_world (pop_and_close cfg k m))"
    using m keptD [OF m]
    by (cases "map_of (fm_flows m) k") (auto simp: pop_and_close_def kept_def pop_flow_def intro!: notify_world finish_world)
  with m show ?thesis
    by (simp add: kept_def pop_and_close_all)
qed

lemma close_flow_kept: "kept m \<Longrightarrow> kept (close_flow cfg k m)"
proof -
  assume m: "kept m"
  have "fm_world (pop_flow k m') = fm_world m'" for m' :: "('s, 'w) flow_manager"
    by (simp add: pop_flow_def)
  then have "W (fm_world (close_flow cfg k m))"
    using m keptD [OF m]
    by (cases "map_of (fm_flows m) k") (auto simp: close_flow_def kept_def intro!: notify_world finish_world)
  with m show ?thesis
    by (simp add: kept_def close_flow_all)
qed

lemma evict_kept:
  assumes "kept m"
  shows "kept (evict_oldest cfg m)"
proof -
  have "all_flows J (evict_oldest cfg m)"
    using assms by (intro all_flows_subset [of "evict_oldest cfg m" m])
      (cases "fm_flows m"; auto simp: evict_oldest_table kept_def)+
  moreover have "W (fm_world (evict_oldest cfg m))"
  proof (cases "fm_flows m")
    case (Cons e rest)
    obtain k t s where e: "e = (k, t, s)"
      by (cases e)
    have "J k (t, s)" and W: "W (fm_world m)"
      using assms Cons e by (simp_all add: kept_def all_flows_def)
    then show ?thesis
      using W_evict Cons e
      by (auto simp: evict_oldest_def Let_def split: option.split intro!: notify_world finish_world)
  qed (use assms in \<open>simp add: evict_oldest_def kept_def split: option.split\<close>)
  ultimately show ?thesis
    by (simp add: kept_def)
qed

lemma admit_kept: "kept m \<Longrightarrow> kept (admit_packet cfg p m)"
proof -
  assume m: "kept m"
  let ?k = "pk_flow p"
  have 1: "kept (make_room cfg ?k m)"
    using m evict_kept by (simp add: make_room_def)
  then have 2: "kept (restart_flow cfg (pk_syn p) ?k (make_room cfg ?k m))" (is "kept ?m2")
    by (simp add: restart_flow_def pop_and_close_kept)
  have "W (fm_world (new_flow cfg ?k ?m2))"
    using 2 W_new by (simp add: new_flow_def kept_def Let_def split: prod.split)
  with 2 have "W (fm_world (ensure_flow cfg ?k ?m2))"
    by (simp add: ensure_flow_def kept_def)
  moreover have "fm_world (touch_flow k ts m') = fm_world m'" for k ts and m' :: "('s, 'w) flow_manager"
    by (simp add: touch_flow_def split: option.split prod.split)
  ultimately have "W (fm_world (admit_packet cfg p m))"
    by (simp add: admit_packet_def)
  then show ?thesis
    using m admit_all by (simp add: kept_def)
qed

lemma deliver_kept:
  assumes m: "kept m" and "pkt_ok p"
  shows "kept (deliver_packet cfg p m)"
proof -
  let ?k = "pk_flow p"
  let ?sc = "flow_scanner cfg ?k (flow_generation m ?k)"
  let ?m1 = "if pk_syn p then on_flow (anchor_sequence ?sc ((pk_sequence p + 1) AND 0xFFFFFFFF)) ?k m else m"
  have gen: "flow_generation m' ?k = fs_generation t" if "map_of (fm_flows m') ?k = Some (t, s)"
    for m' :: "('s, 'w) flow_manager" and t s
    using that by (simp add: flow_generation_def)
  have "W (fm_world (on_flow (anchor_sequence ?sc q) ?k m))" for q
    by (rule on_flow_world [OF m]) (metis W_anchor gen)
  moreover have "all_flows J (on_flow (anchor_sequence ?sc q) ?k m)" for q
    using m by (intro all_flows_on_flow) (auto simp: kept_def, metis J_anchor gen)
  ultimately have m1: "kept ?m1"
    using m by (simp add: kept_def)
  have "flow_generation ?m1 ?k = flow_generation m ?k"
    by (simp add: flow_generation_on_flow flow_operations_generation)
  note gen1 = gen [of ?m1, unfolded this]
  have "W (fm_world (on_flow (add_segment ?sc (packet_position p) (pk_payload p)
      (packet_context_of p (flow_generation m ?k))) ?k ?m1))"
    by (rule on_flow_world [OF m1]) (metis W_add assms(2) gen1)
  then have "W (fm_world (deliver_packet cfg p m))"
    using m1 by (simp add: deliver_packet_def Let_def packet_position_def packet_context_of_def kept_def)
  then show ?thesis
    using m deliver_all [OF _ assms(2)] by (simp add: kept_def)
qed

lemma process_kept:
  assumes m: "kept m" and "pkt_ok p"
  shows "kept (process_tcp_segment cfg p m)"
proof -
  let ?m = "deliver_packet cfg p (admit_packet cfg p m)"
  have m': "kept ?m"
    using assms by (intro deliver_kept admit_kept)
  have "kept (on_flow (\<lambda>(t, x). (mark_fin q ts t, x)) k ?m)" for q ts k
    unfolding kept_def
    by (intro conjI all_flows_on_flow on_flow_world [OF m']) (use m' in \<open>auto simp: kept_def intro: J_fin\<close>)
  then have "kept (close_packet cfg p ?m)"
    using m' close_flow_kept by (simp add: close_packet_def Let_def)
  then show ?thesis
    using m by (simp add: process_relevant)
qed

lemma fold_pop_kept: "kept m \<Longrightarrow> kept (fold (pop_and_close cfg) ks m)"
  by (induction ks arbitrary: m) (simp_all add: pop_and_close_kept)

lemma service_flows_kept: "kept m \<Longrightarrow> kept (snd (service_flows cfg now ks completed m))"
proof (induction ks arbitrary: completed m)
  case (Cons k ks)
  let ?f = "\<lambda>s. snd (service_gaps (flow_scanner cfg k (flow_generation m k)) now s)"
  have "W (fm_world (on_flow ?f k m))"
    using Cons.prems by (rule on_flow_world) (metis W_service flow_generation_def option.case(2) prod.case)
  moreover have "all_flows J (on_flow ?f k m)"
    using Cons.prems unfolding kept_def
    by (intro all_flows_on_flow) (auto, metis J_service flow_generation_def option.case(2) prod.case)
  ultimately show ?case
    using Cons.IH by (simp add: Let_def kept_def)
qed simp

lemma service_kept: "kept m \<Longrightarrow> kept (snd (manager_service_gaps cfg now m))"
  using service_flows_kept [of m now "flow_keys m" "[]"]
  by (auto simp: manager_service_gaps_def Let_def fold_pop_kept split: prod.split option.split)

lemma finish_kept:
  assumes "kept m"
  shows "kept (manager_finish cfg m)"
proof -
  have "W (fm_world (fold (\<lambda>(flow, state) m'. notify_flow_close cfg flow (finish_flow cfg flow state m')) d m'))"
    if "\<forall>e \<in> set d. J (fst e) (snd e)" "W (fm_world m')" for d and m' :: "('s, 'w) flow_manager"
    using that
  proof (induction d arbitrary: m')
    case (Cons e d)
    obtain k t s where e: "e = (k, t, s)"
      by (cases e)
    have "W (fm_world (notify_flow_close cfg k (finish_flow cfg k (t, s) m')))"
      using Cons.prems e by (intro notify_world finish_world) simp_all
    then show ?case
      using Cons.IH Cons.prems(1) e by simp
  qed simp
  then have "W (fm_world (manager_finish cfg m))"
    using assms by (simp add: manager_finish_def kept_def all_flows_def)
  then show ?thesis
    unfolding kept_def all_flows_def manager_finish_flows by simp
qed

theorem run_kept:
  assumes "\<And>p. Packet p \<in> set ops \<Longrightarrow> pkt_ok p" and "kept m"
  shows "kept (run_manager cfg ops m)"
  unfolding run_manager_def
proof (rule fold_invariant)
  show "kept m"
    by (rule assms(2))
  show "kept (run_manager_op cfg op m')" if "op \<in> set ops" "kept m'" for op m'
    by (cases op) (use that assms(1) in \<open>simp_all add: process_kept service_kept finish_kept\<close>)
qed

end

section \<open>The scanner of a flow inside the manager\<close>

text \<open>
  The manager wraps the scanner so that it counts gaps and reports them. A contract of the
  scanner is one of the wrapped scanner when the report keeps its invariant.
\<close>

lemma wrapped_contract:
  assumes contract: "flow_contract (mc_scanner cfg) ok I" and plain: "sc_on_gap_reset (mc_scanner cfg) = None"
    and reset: "\<And>report ns s q w. mc_on_flow_reset cfg = Some report \<Longrightarrow> I ns (s, w) \<Longrightarrow> I ns (s, report k g q w)"
  shows "flow_contract (flow_scanner cfg k g) ok (\<lambda>ns (s, n, w). I ns (s, w))"
proof
  let ?sc = "mc_scanner cfg"
  fix x :: "'a \<times> int \<times> 'b" and n s s' d c ns k'
  obtain st i w where x: "x = (st, i, w)"
    by (cases x)
  have lift: "(case lift_scan f x of (s, n, w) \<Rightarrow> J (s, w)) = J (f (st, w))" for f J
    by (simp add: x lift_scan_def split: prod.split)
  show "ok s d c \<Longrightarrow> k' \<le> length d \<Longrightarrow> ok (s + int k') (drop k' d) c"
    by (rule feed_contract.ok_drop [OF flow_contract.axioms(1) [OF contract]])
  show "ok s d c \<Longrightarrow> ok s (take k' d) c"
    by (rule flow_contract.ok_take [OF contract])
  show "ok s d c \<Longrightarrow> s' mod TCP_SEQUENCE_MODULUS = s mod TCP_SEQUENCE_MODULUS \<Longrightarrow> ok s' d c"
    by (rule flow_contract.ok_mod [OF contract])
  show "case sc_feed (flow_scanner cfg k g) d (c\<lparr>ctx_stream_start := Some n\<rparr>) x of
      (s, i, w) \<Rightarrow> I (Some (n + int (length d))) (s, w)"
    if "case x of (s, i, w) \<Rightarrow> I (Some n) (s, w)" "ok n d c"
    using feed_contract.I_feed [OF flow_contract.axioms(1) [OF contract], of n "(st, w)" d c] that
    by (simp add: flow_scanner_def lift) (simp add: x)
  show "case sc_scan_standalone (flow_scanner cfg k g) d (c\<lparr>ctx_stream_start := Some s\<rparr>) x of
      (s, i, w) \<Rightarrow> I (Some n) (s, w)"
    if "case x of (s, i, w) \<Rightarrow> I (Some n) (s, w)" "ok s d c" "s + int (length d) \<le> n"
    using flow_contract.I_standalone [OF contract, of n "(st, w)" s d c] that
    by (simp add: flow_scanner_def lift) (simp add: x)
  show "case gap_reset (flow_scanner cfg k g) s x of (s', i, w) \<Rightarrow> I (Some s) (s', w)"
    if "case x of (s, i, w) \<Rightarrow> I ns (s, w)"
  proof -
    have "I (Some s) (sc_reset ?sc (st, w))"
      using flow_contract.I_gap [OF contract, of ns "(st, w)" s] that plain by (simp add: gap_reset_def x)
    then show ?thesis
      using reset by (auto simp: gap_reset_def flow_scanner_def lift_scan_def record_gap_reset_def x split: prod.split option.split)
  qed
  show "case x of (s', i, w) \<Rightarrow> I (Some s) (s', w)" if "case x of (s', i, w) \<Rightarrow> I None (s', w)"
    using flow_contract.I_anchor [OF contract, of "(st, w)" s] that by (simp add: x)
  show "case sc_reset (flow_scanner cfg k g) x of (s', i, w) \<Rightarrow> I None (s', w)"
    if "case x of (s', i, w) \<Rightarrow> I ns (s', w)"
    using flow_contract.I_reset [OF contract, of ns "(st, w)"] that
    by (simp add: flow_scanner_def lift) (simp add: x)
qed

end
