(* ===== verification/Stream_World.thy ===== *)
theory Stream_World
  imports Manager_World Manager_Trace
begin

text \<open>
  From the contract of a scanner to everything a table of flows does.

  \<open>stream_world\<close> is the interface: a scanner that fulfils the contract of the reassembly
  for the stream of each connection, with an invariant \<open>Is\<close> of its own state and a
  predicate \<open>W\<close> on the state it shares, and callbacks that keep \<open>W\<close>. Its lemmas carry
  both through every operation of a flow; \<open>world_property\<close> then carries them through
  every run of the manager.
\<close>

definition entry_ok ::
    "streams \<Rightarrow> (flow_key \<times> int \<Rightarrow> int option \<Rightarrow> 's \<Rightarrow> bool) \<Rightarrow> flow_key \<Rightarrow> tcp_flow_state \<times> 's \<Rightarrow> bool" where
  "entry_ok S Is k e \<longleftrightarrow>
     (let key = (k, fs_generation (fst e)) in
      flow_wf (fst e) \<and> buffers_ok (agrees_on key (S key)) (fst e) \<and> Is key (fs_next_sequence (fst e)) (snd e))"

locale stream_world =
  fixes cfg :: "('s, 'w) manager_config" and S :: streams
    and Is :: "flow_key \<times> int \<Rightarrow> int option \<Rightarrow> 's \<Rightarrow> bool" and W :: "'w \<Rightarrow> bool"
  assumes contract: "flow_contract (mc_scanner cfg) (agrees_on key (S key)) (\<lambda>ns x. Is key ns (fst x) \<and> W (snd x))"
    and contract_any: "flow_contract (mc_scanner cfg) (agrees_on key (S key)) (\<lambda>ns x. Is key ns (fst x))"
    and plain: "sc_on_gap_reset (mc_scanner cfg) = None"
    and factory: "mc_scanner_factory cfg w = (s, w') \<Longrightarrow> Is key None s"
    and factory_W: "mc_scanner_factory cfg w = (s, w') \<Longrightarrow> W w \<Longrightarrow> W w'"
    and reset_W: "mc_on_flow_reset cfg = Some report \<Longrightarrow> W w \<Longrightarrow> W (report k g q w)"
    and close_W: "mc_on_flow_close cfg = Some close \<Longrightarrow> W w \<Longrightarrow> W (close k w)"
    and evict_W: "mc_on_flow_eviction cfg = Some evict \<Longrightarrow> W w \<Longrightarrow> W (evict w)"
begin

lemma any_world: "stream_world cfg S Is (\<lambda>_. True)"
  by (rule stream_world.intro) (use contract_any plain factory in \<open>simp_all\<close>)

definition inside :: "flow_key \<times> int \<Rightarrow> int option \<Rightarrow> 's \<times> int \<times> 'w \<Rightarrow> bool" where
  "inside key ns x \<longleftrightarrow> Is key ns (fst x) \<and> W (snd (snd x))"

lemma wrapped: "flow_contract (flow_scanner cfg k g) (agrees_on (k, g) (S (k, g))) (inside (k, g))"
proof -
  have "flow_contract (flow_scanner cfg k g) (agrees_on (k, g) (S (k, g)))
      (\<lambda>ns (s, n, w). Is (k, g) ns (fst (s, w)) \<and> W (snd (s, w)))"
    by (rule wrapped_contract [OF contract plain]) (use reset_W in simp)
  moreover have "(\<lambda>ns (s, n, w). Is (k, g) ns (fst (s, w)) \<and> W (snd (s, w))) = inside (k, g)"
    by (intro ext) (auto simp: inside_def split: prod.split)
  ultimately show ?thesis
    by simp
qed

text \<open>An operation of a flow keeps the entry right and the shared state.\<close>

lemma entry_step:
  assumes entry: "entry_ok S Is k (t, s)" and W: "W w" and f: "f (t, s, n :: int, w) = (t', s', n' :: int, w')"
    and wf: "\<And>x. flow_wf (fst x) \<Longrightarrow> flow_wf (fst (f x))"
    and generation: "\<And>x. fs_generation (fst (f x)) = fs_generation (fst x)"
    and inv: "\<And>x. flow_wf (fst x) \<Longrightarrow>
      feed_contract.inv (agrees_on (k, fs_generation t) (S (k, fs_generation t))) (inside (k, fs_generation t)) x \<Longrightarrow>
      feed_contract.inv (agrees_on (k, fs_generation t) (S (k, fs_generation t))) (inside (k, fs_generation t)) (f x)"
  shows "entry_ok S Is k (t', s') \<and> W w'"
proof -
  let ?key = "(k, fs_generation t)"
  note inv_def = feed_contract.inv_def [OF flow_contract.axioms(1) [OF wrapped [of k "fs_generation t"]]]
  have "feed_contract.inv (agrees_on ?key (S ?key)) (inside ?key) (t, s, n, w)"
    unfolding inv_def using entry W by (simp add: entry_ok_def inside_def Let_def)
  from inv [OF _ this] entry have "feed_contract.inv (agrees_on ?key (S ?key)) (inside ?key) (t', s', n', w')"
    by (simp add: f entry_ok_def Let_def)
  moreover have "fs_generation t' = fs_generation t" and "flow_wf t'"
    using generation [of "(t, s, n, w)"] wf [of "(t, s, n, w)"] entry by (simp_all add: f entry_ok_def Let_def)
  ultimately show ?thesis
    unfolding inv_def by (simp add: entry_ok_def inside_def Let_def)
qed

lemmas flow_invs = flow_contract.anchor_sequence_inv [OF wrapped] flow_contract.service_gaps_inv [OF wrapped]
  flow_contract.flow_finish_inv [OF wrapped] flow_contract.add_segment_inv [OF wrapped]

lemma entry_anchor:
  assumes "entry_ok S Is k (t, s)" and "W w"
    and "anchor_sequence (flow_scanner cfg k (fs_generation t)) q (t, s, n, w) = (t', s', n', w')"
  shows "entry_ok S Is k (t', s') \<and> W w'"
  using assms by (rule entry_step) (auto intro: anchor_sequence_wf flow_invs simp: flow_operations_generation)

lemma entry_service:
  assumes "entry_ok S Is k (t, s)" and "W w"
    and "snd (service_gaps (flow_scanner cfg k (fs_generation t)) now (t, s, n, w)) = (t', s', n', w')"
  shows "entry_ok S Is k (t', s') \<and> W w'"
  using assms by (rule entry_step [where f = "\<lambda>x. snd (service_gaps (flow_scanner cfg k (fs_generation t)) now x)"])
    (auto intro: service_gaps_wf flow_invs simp: flow_operations_generation)

lemma entry_finish:
  assumes "entry_ok S Is k (t, s)" and "W w"
    and "flow_finish (flow_scanner cfg k (fs_generation t)) (t, s, n, w) = (t', s', n', w')"
  shows "entry_ok S Is k (t', s') \<and> W w'"
  using assms by (rule entry_step) (auto intro: flow_finish_wf flow_invs fs_generation_config)

lemma entry_add:
  assumes "entry_ok S Is (pk_flow p) (t, s)" and "W w" and "packet_agrees S p"
    and "add_segment (flow_scanner cfg (pk_flow p) (fs_generation t)) (packet_position p) (pk_payload p)
      (packet_context_of p (fs_generation t)) (t, s, n, w) = (t', s', n', w')"
  shows "entry_ok S Is (pk_flow p) (t', s') \<and> W w'"
proof -
  have "agrees_on (pk_flow p, fs_generation t) (S (pk_flow p, fs_generation t)) (packet_position p) (pk_payload p)
      (packet_context_of p (fs_generation t))"
    using assms(3) by (simp add: packet_agrees_def agrees_on_def agrees_def connection_def packet_context_of_def)
  then show ?thesis
    using assms by (intro entry_step [where f = "add_segment (flow_scanner cfg (pk_flow p) (fs_generation t))
          (packet_position p) (pk_payload p) (packet_context_of p (fs_generation t))"])
      (auto intro: add_segment_wf flow_invs simp: flow_operations_generation)
qed

end

sublocale stream_world \<subseteq> world_property cfg "entry_ok S Is" "packet_agrees S" W
proof
  fix k and t t' :: tcp_flow_state and s s' n n' w w' q now p ts g
  show "entry_ok S Is k (fresh_state cfg g, s)" if "mc_scanner_factory cfg w = (s, w')"
  proof -
    have "flow_wf (fresh_state cfg g)"
      unfolding fresh_state_def by (rule new_flow_wf)
    then show ?thesis
      using factory [OF that] by (simp add: entry_ok_def fresh_state_def new_tcp_flow_state_def buffers_ok_def Let_def)
  qed
  show "W (close k w)" if "mc_on_flow_close cfg = Some close" "W w" for close
    using that by (rule close_W)
  show "W (evict w)" if "mc_on_flow_eviction cfg = Some evict" "W w" for evict
    using that by (rule evict_W)
  show "W w'" if "mc_scanner_factory cfg w = (s, w')" "W w"
    using that by (rule factory_W)
  assume entry: "entry_ok S Is k (t, s)"
  show "entry_ok S Is k (t\<lparr>fs_last_activity_at := a\<rparr>, s)" for a
    using entry by (simp add: entry_ok_def flow_wf_def flow_wf0_def buffers_ok_def Let_def)
  show "entry_ok S Is k (mark_fin q ts t, s)"
  proof -
    have "fs_pending (mark_fin q ts t) = fs_pending t" "fs_unanchored (mark_fin q ts t) = fs_unanchored t"
      "fs_next_sequence (mark_fin q ts t) = fs_next_sequence t"
      by (simp_all add: mark_fin_def)
    then show ?thesis
      using entry by (simp add: entry_ok_def mark_fin_wf flow_operations_generation buffers_ok_def Let_def)
  qed
  show "entry_ok S Is k (t', s')"
    if "anchor_sequence (flow_scanner cfg k (fs_generation t)) q (t, s, n, w) = (t', s', n', w')"
    using stream_world.entry_anchor [OF any_world entry _ that] by blast
  show "entry_ok S Is k (t', s')"
    if "snd (service_gaps (flow_scanner cfg k (fs_generation t)) now (t, s, n, w)) = (t', s', n', w')"
    using stream_world.entry_service [OF any_world entry _ that] by blast
  show "W w'" if "W w" "anchor_sequence (flow_scanner cfg k (fs_generation t)) q (t, s, n, w) = (t', s', n', w')"
    using entry_anchor [OF entry that] by blast
  show "W w'" if "W w" "snd (service_gaps (flow_scanner cfg k (fs_generation t)) now (t, s, n, w)) = (t', s', n', w')"
    using entry_service [OF entry that] by blast
  show "W w'" if "W w" "flow_finish (flow_scanner cfg k (fs_generation t)) (t, s, n, w) = (t', s', n', w')"
    using entry_finish [OF entry that] by blast
next
  fix p and t t' :: tcp_flow_state and s s' n n' w w'
  assume entry: "entry_ok S Is (pk_flow p) (t, s)" and p: "packet_agrees S p"
    and f: "add_segment (flow_scanner cfg (pk_flow p) (fs_generation t)) (packet_position p) (pk_payload p)
      (packet_context_of p (fs_generation t)) (t, s, n, w) = (t', s', n', w')"
  show "entry_ok S Is (pk_flow p) (t', s')"
    using stream_world.entry_add [OF any_world entry _ p f] by blast
  show "W w'" if "W w"
    using entry_add [OF entry that p f] by blast
qed

end
