(* ===== verification/Engine_Delivery.thy ===== *)
theory Engine_Delivery
  imports Packet_Engine Stream_World Target_Delivery Frame_Delivery
begin

text \<open>
  The engine as a whole. First the suppression of repeated records against its reference, a
  history of the last keys delivered. Then the composition: \<open>engine_client\<close> is the
  interface to the application, and its lemmas carry the contract of the target scanner
  through the taps, the reassembly of a flow and the table of flows to the application's
  state.
\<close>

section \<open>Repeated records\<close>

definition event_key :: "(bytes \<Rightarrow> bytes) \<Rightarrow> loot_event \<times> bytes \<Rightarrow> event_key option" where
  "event_key digest r =
     (case le_stream_sequence (fst r) of
        None \<Rightarrow> None
      | Some q \<Rightarrow> Some (ctx_flow (le_context (fst r)), ctx_flow_generation (le_context (fst r)), q,
                        le_opcode (fst r), le_record_offset (fst r), digest (snd r)))"

text \<open>The reference: a record without a position is always fresh, another one unless its key is
  among the last \<^verbatim>\<open>DEDUP_HISTORY_LIMIT\<close> fresh ones, latest first.\<close>

fun fresh_records :: "(bytes \<Rightarrow> bytes) \<Rightarrow> event_key list \<Rightarrow> (loot_event \<times> bytes) list \<Rightarrow> (loot_event \<times> bytes) list" where
  "fresh_records digest history [] = []"
| "fresh_records digest history (r # records) =
     (case event_key digest r of
        None \<Rightarrow> r # fresh_records digest history records
      | Some k \<Rightarrow>
          if k \<in> set (take DEDUP_HISTORY_LIMIT history) then fresh_records digest history records
          else r # fresh_records digest (k # history) records)"

text \<open>The engine's fields hold that window, and the digest cache is right.\<close>

definition window_ok :: "(bytes \<Rightarrow> bytes) \<Rightarrow> event_key list \<Rightarrow> packet_engine \<Rightarrow> bool" where
  "window_ok digest history pe \<longleftrightarrow>
     pe_seen_event_order pe = rev (take DEDUP_HISTORY_LIMIT history) \<and>
     pe_seen_event_keys pe = set (pe_seen_event_order pe) \<and> distinct (pe_seen_event_order pe) \<and>
     (\<forall>d. pe_last_raw_message_digest pe = Some d \<longrightarrow> (\<forall>m. pe_last_raw_message pe = Some m \<longrightarrow> d = digest m))"

lemma window_ok_found [simp]: "window_ok digest history (pe\<lparr>pe_events_found := n\<rparr>) = window_ok digest history pe"
  unfolding window_ok_def by simp

lemma raw_message_digest_ok:
  assumes "window_ok digest history pe"
  obtains pe' where "raw_message_digest digest m pe = (digest m, pe')" and "window_ok digest history pe'"
    and "pe_events_found pe' = pe_events_found pe"
proof (cases "pe_last_raw_message pe = Some m \<and> pe_last_raw_message_digest pe \<noteq> None")
  case True
  then have "raw_message_digest digest m pe = (digest m, pe)"
    using assms by (auto simp: raw_message_digest_def window_ok_def)
  then show ?thesis
    using that assms by blast
next
  case False
  let ?pe = "pe\<lparr>pe_last_raw_message := Some m, pe_last_raw_message_digest := Some (digest m)\<rparr>"
  have "raw_message_digest digest m pe = (digest m, ?pe)"
    using False by (auto simp: raw_message_digest_def split: option.split)
  moreover have "window_ok digest history ?pe"
    using assms unfolding window_ok_def by (elim conjE, intro conjI) simp_all
  ultimately show ?thesis
    using that by simp
qed

lemma trim_history_eq:
  "distinct order \<Longrightarrow> seen = set order \<Longrightarrow>
    trim_history seen order =
      (set (drop (length order - DEDUP_HISTORY_LIMIT) order), drop (length order - DEDUP_HISTORY_LIMIT) order)"
proof (induction order arbitrary: seen)
  case (Cons k order)
  show ?case
  proof (cases "length (k # order) > DEDUP_HISTORY_LIMIT")
    case True
    have "seen - {k} = set order"
      using Cons.prems by auto
    then have "trim_history seen (k # order) =
        (set (drop (length order - DEDUP_HISTORY_LIMIT) order), drop (length order - DEDUP_HISTORY_LIMIT) order)"
      using True Cons by simp
    moreover have "length (k # order) - DEDUP_HISTORY_LIMIT = Suc (length order - DEDUP_HISTORY_LIMIT)"
      using True by simp
    ultimately show ?thesis
      by simp
  qed (use Cons.prems in simp)
qed simp

lemma window_drop:
  assumes "0 < n"
  shows "drop (length (rev (k # take n h)) - n) (rev (k # take n h)) = rev (take n (k # h))"
proof -
  have all: "take (length xs - (length xs - n)) xs = take n xs" for xs :: "'a list"
    by (cases "n \<le> length xs") simp_all
  have "take n (k # take n h) = take n (k # h)"
    using assms by (cases n) simp_all
  then show ?thesis
    unfolding drop_rev length_rev all by simp
qed

lemma window_step:
  assumes "window_ok digest history pe" and key: "event_key digest (e, m) = Some k"
  shows "is_duplicate_event digest e m pe = (True, pe') \<Longrightarrow>
      k \<in> set (take DEDUP_HISTORY_LIMIT history) \<and> window_ok digest history pe' \<and> pe_events_found pe' = pe_events_found pe"
    and "is_duplicate_event digest e m pe = (False, pe') \<Longrightarrow>
      k \<notin> set (take DEDUP_HISTORY_LIMIT history) \<and> window_ok digest (k # history) pe' \<and> pe_events_found pe' = pe_events_found pe"
proof -
  obtain q where q: "le_stream_sequence e = Some q"
    and k: "k = (ctx_flow (le_context e), ctx_flow_generation (le_context e), q, le_opcode e, le_record_offset e, digest m)"
    using key by (auto simp: event_key_def split: option.splits)
  obtain pe1 where d: "raw_message_digest digest m pe = (digest m, pe1)" and pe1: "window_ok digest history pe1"
    and found: "pe_events_found pe1 = pe_events_found pe"
    using assms(1) by (rule raw_message_digest_ok)
  let ?order = "pe_seen_event_order pe1"
  have member: "k \<in> pe_seen_event_keys pe1 \<longleftrightarrow> k \<in> set (take DEDUP_HISTORY_LIMIT history)"
    using pe1 by (simp add: window_ok_def)
  have dup: "is_duplicate_event digest e m pe =
      (if k \<in> pe_seen_event_keys pe1 then (True, pe1)
       else let (seen, order) = trim_history (insert k (pe_seen_event_keys pe1)) (?order @ [k])
            in (False, pe1\<lparr>pe_seen_event_keys := seen, pe_seen_event_order := order\<rparr>))"
    by (simp add: is_duplicate_event_def q d k [symmetric] Let_def)
  show "k \<in> set (take DEDUP_HISTORY_LIMIT history) \<and> window_ok digest history pe' \<and> pe_events_found pe' = pe_events_found pe"
    if "is_duplicate_event digest e m pe = (True, pe')"
    using that dup member pe1 found by (auto simp: Let_def split: if_splits prod.splits)
  assume "is_duplicate_event digest e m pe = (False, pe')"
  then have fresh: "k \<notin> pe_seen_event_keys pe1"
    and "pe' = (case trim_history (insert k (pe_seen_event_keys pe1)) (?order @ [k]) of
      (seen, order) \<Rightarrow> pe1\<lparr>pe_seen_event_keys := seen, pe_seen_event_order := order\<rparr>)"
    using dup by (auto simp: Let_def split: if_splits prod.splits)
  moreover have "insert k (pe_seen_event_keys pe1) = set (?order @ [k])" and "distinct (?order @ [k])"
    using pe1 fresh by (auto simp: window_ok_def)
  ultimately have pe': "pe' = pe1\<lparr>
      pe_seen_event_keys := set (drop (length (?order @ [k]) - DEDUP_HISTORY_LIMIT) (?order @ [k])),
      pe_seen_event_order := drop (length (?order @ [k]) - DEDUP_HISTORY_LIMIT) (?order @ [k])\<rparr>"
    using trim_history_eq [of "?order @ [k]"] by simp
  have order: "?order @ [k] = rev (k # take DEDUP_HISTORY_LIMIT history)"
    using pe1 by (simp add: window_ok_def)
  have new: "drop (length (?order @ [k]) - DEDUP_HISTORY_LIMIT) (?order @ [k]) = rev (take DEDUP_HISTORY_LIMIT (k # history))"
    unfolding order by (rule window_drop) (simp add: DEDUP_HISTORY_LIMIT_def)
  have "distinct (rev (take DEDUP_HISTORY_LIMIT (k # history)))"
    unfolding new [symmetric] using \<open>distinct (?order @ [k])\<close> by (rule distinct_drop)
  then have "window_ok digest (k # history) pe'"
    using pe1 unfolding pe' new window_ok_def by simp
  then show "k \<notin> set (take DEDUP_HISTORY_LIMIT history) \<and> window_ok digest (k # history) pe' \<and> pe_events_found pe' = pe_events_found pe"
    using fresh member found unfolding pe' by simp
qed

lemma unpositioned_step:
  "event_key digest (e, m) = None \<Longrightarrow> is_duplicate_event digest e m pe = (False, pe)"
  by (auto simp: event_key_def is_duplicate_event_def split: option.splits)

definition handle_all :: "'w engine_config \<Rightarrow> (loot_event \<times> bytes) list \<Rightarrow> packet_engine \<times> 'w \<Rightarrow> packet_engine \<times> 'w" where
  "handle_all cfg records = fold (\<lambda>(e, m). handle_record cfg e m) records"

lemma handle_all_fresh:
  assumes "window_ok (ec_digest cfg) history pe"
  shows "\<exists>pe' history'. window_ok (ec_digest cfg) history' pe' \<and>
    pe_events_found pe' = pe_events_found pe + int (length (fresh_records (ec_digest cfg) history records)) \<and>
    handle_all cfg records (pe, w) = (pe', fold (\<lambda>(e, m). ec_on_event cfg e m) (fresh_records (ec_digest cfg) history records) w)"
  using assms
proof (induction records arbitrary: history pe w)
  case Nil
  then show ?case
    by (auto simp: handle_all_def)
next
  case (Cons r records)
  let ?d = "ec_digest cfg"
  obtain e m where r: "r = (e, m)"
    by (cases r)
  have step: "handle_all cfg (r # records) (pe, w) = handle_all cfg records (handle_record cfg e m (pe, w))"
    by (simp add: handle_all_def r)
  obtain dup pe1 where dup: "is_duplicate_event ?d e m pe = (dup, pe1)"
    by fastforce
  show ?case
  proof (cases "event_key ?d (e, m)")
    case None
    then have "handle_record cfg e m (pe, w) = (pe\<lparr>pe_events_found := pe_events_found pe + 1\<rparr>, ec_on_event cfg e m w)"
      by (simp add: handle_record_def unpositioned_step)
    then show ?thesis
      using Cons.IH [of history "pe\<lparr>pe_events_found := pe_events_found pe + 1\<rparr>" "ec_on_event cfg e m w"] Cons.prems None
      unfolding step by (auto simp: r)
  next
    case (Some k)
    note window = window_step [OF Cons.prems Some, where pe' = pe1]
    show ?thesis
    proof (cases dup)
      case True
      then have "handle_record cfg e m (pe, w) = (pe1, w)"
        using dup by (simp add: handle_record_def)
      then show ?thesis
        using Cons.IH [of history pe1 w] window(1) dup True Some unfolding step by (simp add: r)
    next
      case False
      let ?pe = "pe1\<lparr>pe_events_found := pe_events_found pe1 + 1\<rparr>"
      have "handle_record cfg e m (pe, w) = (?pe, ec_on_event cfg e m w)"
        using dup False by (simp add: handle_record_def)
      moreover have "window_ok ?d (k # history) ?pe"
        using window(2) dup False by simp
      ultimately show ?thesis
        using Cons.IH [of "k # history" ?pe "ec_on_event cfg e m w"] window(2) dup False Some
        unfolding step by (auto simp: r)
    qed
  qed
qed

lemma new_engine_window: "window_ok digest [] new_packet_engine"
  by (simp add: window_ok_def new_packet_engine_def)

text \<open>While at most as many keys occur as the history holds, each is delivered once.\<close>

lemma fresh_exact:
  assumes "card (set history \<union> set (List.map_filter (event_key digest) records)) \<le> DEDUP_HISTORY_LIMIT"
    and "distinct history"
  shows "distinct (List.map_filter (event_key digest) (fresh_records digest history records)) \<and>
    set (List.map_filter (event_key digest) (fresh_records digest history records)) =
      set (List.map_filter (event_key digest) records) - set history"
  using assms
proof (induction records arbitrary: history)
  case (Cons r records)
  show ?case
  proof (cases "event_key digest r")
    case None
    then show ?thesis
      using Cons by (simp add: map_filter_simps)
  next
    case (Some k)
    have "card (set history) \<le> card (set history \<union> set (List.map_filter (event_key digest) (r # records)))"
      by (rule card_mono) auto
    then have whole: "take DEDUP_HISTORY_LIMIT history = history"
      using Cons.prems by (simp add: distinct_card)
    show ?thesis
    proof (cases "k \<in> set history")
      case True
      then have "set history \<union> set (List.map_filter (event_key digest) (r # records)) =
          set history \<union> set (List.map_filter (event_key digest) records)"
        using Some by (auto simp: map_filter_simps)
      then show ?thesis
        using Cons.IH [of history] Cons.prems Some True whole by (auto simp: map_filter_simps)
    next
      case False
      have "set (k # history) \<union> set (List.map_filter (event_key digest) records) =
          set history \<union> set (List.map_filter (event_key digest) (r # records))"
        using Some by (auto simp: map_filter_simps)
      then have "distinct (List.map_filter (event_key digest) (fresh_records digest (k # history) records)) \<and>
          set (List.map_filter (event_key digest) (fresh_records digest (k # history) records)) =
            set (List.map_filter (event_key digest) records) - set (k # history)"
        using Cons.IH [of "k # history"] Cons.prems False by simp
      then show ?thesis
        using Some False whole by (auto simp: map_filter_simps)
    qed
  qed
qed (simp add: map_filter_simps)

section \<open>From the flow table to the application\<close>

text \<open>An event the application may rely on: it is decoded from the stream of its own connection.\<close>

definition event_from_stream :: "event_spec list \<Rightarrow> streams \<Rightarrow> loot_event \<times> bytes \<Rightarrow> bool" where
  "event_from_stream specs S d \<longleftrightarrow>
     delivered_ok (signature_groups specs) (connection (le_context (fst d))) (S (connection (le_context (fst d)))) d"

locale engine_client =
  fixes cfg :: "'w engine_config" and S :: streams and W :: "'w \<Rightarrow> bool"
  assumes specs: "\<forall>spec \<in> set (ec_event_specs cfg). spec_ok spec"
    and W_event: "W w \<Longrightarrow> event_from_stream (ec_event_specs cfg) S (e, m) \<Longrightarrow> W (ec_on_event cfg e m w)"
    and W_frame: "ec_frame_observer cfg = Some observe \<Longrightarrow> W w \<Longrightarrow> W (observe frame w)"
    and W_unhinted: "ec_unhinted_frame_observer cfg = Some observe \<Longrightarrow> W w \<Longrightarrow> W (observe frame w)"
    and W_stream: "ec_stream_observer cfg = Some watch \<Longrightarrow> W w \<Longrightarrow> W (watch d c w)"
    and W_message: "ec_message_observer cfg = Some look \<Longrightarrow> W w \<Longrightarrow> W (look op n outcome k c q w)"
    and W_flow_close: "ec_flow_close_observer cfg = Some close \<Longrightarrow> W w \<Longrightarrow> W (close flow w)"
    and W_flow_reset: "ec_flow_reset_observer cfg = Some reset \<Longrightarrow> W w \<Longrightarrow> W (reset flow g resume w)"

text \<open>What the target scanner of a tee buffers is the stream's.\<close>

definition tee_ok :: "streams \<Rightarrow> flow_key \<times> int \<Rightarrow> int option \<Rightarrow> tee_scanner \<Rightarrow> bool" where
  "tee_ok S key ns s \<longleftrightarrow> target_inv (\<lambda>_. True) (S key) ns (te_primary s, ())"

text \<open>A frame collector writes through its callback only.\<close>

lemma collector_keeps:
  assumes "\<And>frame w. P w \<Longrightarrow> P (callback frame w)"
  shows "P (snd s) \<Longrightarrow> P (snd (fc_scan known callback ctx s))"
    and "P (snd s) \<Longrightarrow> P (snd (fc_feed known callback d ctx s))"
    and "P (snd s) \<Longrightarrow> P (snd (fc_scan_standalone known callback d ctx s))"
proof -
  have step: "P (snd s')" if "P (snd s)" "fc_scan_step known callback ctx s = Continue s' \<or> fc_scan_step known callback ctx s = Return s'"
    for s s'
    using that assms by (auto simp: fc_scan_step_def Let_def split: if_splits control.splits)
  then show scan: "P (snd s) \<Longrightarrow> P (snd (fc_scan known callback ctx s))" for s
    using fc_loop.run_invariant [where P = "\<lambda>s. P (snd s)" and s = s] by blast
  show "P (snd s) \<Longrightarrow> P (snd (fc_feed known callback d ctx s))"
    by (simp add: fc_feed_def Let_def scan)
  show "P (snd s) \<Longrightarrow> P (snd (fc_scan_standalone known callback d ctx s))"
    using scan by (simp add: fc_scan_standalone_def Let_def split: prod.split) (metis snd_conv)
qed

context engine_client begin

text \<open>The target scanner's client of one connection.\<close>

lemma target_side: "target_client (engine_target_config cfg) key (S key) (\<lambda>s. W (snd s))"
proof
  show "groups_ok (tc_signature_groups (engine_target_config cfg))"
    using specs by (simp add: engine_target_config_def groups_ok_signature_groups)
  fix w :: "packet_engine \<times> 'w" and e m op n outcome k c q observe
  show "W (snd (tc_callback (engine_target_config cfg) e m w))"
    if "W (snd w)" and d: "delivered_ok (tc_signature_groups (engine_target_config cfg)) key (S key) (e, m)"
  proof -
    have "connection (le_context e) = key"
      using d by (simp add: delivered_ok_def)
    then have "event_from_stream (ec_event_specs cfg) S (e, m)"
      using d by (simp add: event_from_stream_def engine_target_config_def)
    then show ?thesis
      using W_event [OF that(1)] that(1) by (auto simp: engine_target_config_def handle_record_def split: prod.split bool.split)
  qed
  show "W (snd (observe op n outcome k c q w))"
    if "tc_message_observer (engine_target_config cfg) = Some observe" "W (snd w)"
    using that W_message by (auto simp: engine_target_config_def on_app_def)
qed

lemma taps_keep:
  "W (snd w) \<Longrightarrow> W (snd (tap_callback (ec_frame_observer cfg) frame w))"
  "W (snd w) \<Longrightarrow> W (snd (tap_callback (ec_unhinted_frame_observer cfg) frame w))"
  using W_frame W_unhinted by (auto simp: tap_callback_def on_app_def split: option.split)

lemma run_tap_keeps:
  assumes "\<And>s. W (snd (snd s)) \<Longrightarrow> W (snd (snd (g s)))" and "W (snd (snd x))"
  shows "W (snd (snd (run_tap g x)))"
proof (cases "fst x")
  case (Some tap)
  then show ?thesis
    using assms(1) [of "(tap, snd x)"] assms(2) by (simp add: run_tap_def case_prod_beta)
qed (use assms(2) in \<open>simp add: run_tap_def\<close>)

definition tee_inv :: "flow_key \<times> int \<Rightarrow> int option \<Rightarrow> tee_scanner \<times> (packet_engine \<times> 'w) \<Rightarrow> bool" where
  "tee_inv key ns x \<longleftrightarrow> target_inv (\<lambda>s. W (snd s)) (S key) ns (te_primary (fst x), snd x)"

text \<open>The taps run before the primary scanner and keep what it needs.\<close>

lemma tee_run_keeps:
  assumes inv: "tee_inv key ns x"
    and taps: "\<And>s. W (snd (snd s)) \<Longrightarrow> W (snd (snd (tap s)))" "\<And>s. W (snd (snd s)) \<Longrightarrow> W (snd (snd (unhinted s)))"
    and primary: "\<And>s. target_inv (\<lambda>s. W (snd s)) (S key) ns s \<Longrightarrow>
      \<exists>s'. primary s = Some s' \<and> target_inv (\<lambda>s. W (snd s)) (S key) ns' s'"
  shows "tee_inv key ns' (the (tee_run tap unhinted primary cfg d c x))"
proof -
  let ?w0 = "case ec_stream_observer cfg of None \<Rightarrow> snd x | Some observe \<Rightarrow> on_app (observe d c) (snd x)"
  obtain tap' w1 where 1: "run_tap tap (te_tap (fst x), ?w0) = (tap', w1)"
    by (meson surj_pair)
  obtain unhinted' w2 where 2: "run_tap unhinted (te_unhinted_tap (fst x), w1) = (unhinted', w2)"
    by (meson surj_pair)
  have "W (snd ?w0)"
    using inv W_stream by (auto simp: tee_inv_def target_inv_def on_app_def split: option.split)
  then have "W (snd w1)"
    using run_tap_keeps [where g = tap and x = "(te_tap (fst x), ?w0)", OF taps(1)] 1 by simp
  then have "W (snd w2)"
    using run_tap_keeps [where g = unhinted and x = "(te_unhinted_tap (fst x), w1)", OF taps(2)] 2 by simp
  then have "target_inv (\<lambda>s. W (snd s)) (S key) ns (te_primary (fst x), w2)"
    using inv by (simp add: tee_inv_def target_inv_def)
  from primary [OF this] obtain tm w3 where "primary (te_primary (fst x), w2) = Some (tm, w3)"
    and "target_inv (\<lambda>s. W (snd s)) (S key) ns' (tm, w3)"
    by auto
  then show ?thesis
    using 1 2 by (simp add: tee_run_def Let_def tee_inv_def)
qed

lemma tee_contract: "flow_contract (tee_stream_scanner cfg) (agrees_on key (S key)) (tee_inv key)"
proof
  note target = target_side [of key]
  fix x :: "tee_scanner \<times> (packet_engine \<times> 'w)" and s s' n ns d c k
  show "agrees_on key (S key) (s + int k) (drop k d) c" if "agrees_on key (S key) s d c" "k \<le> length d"
    using that by (simp add: agrees_on_def agrees_drop)
  show "agrees_on key (S key) s (take k d) c" if "agrees_on key (S key) s d c"
    using that by (simp add: agrees_on_def agrees_take)
  show "agrees_on key (S key) s' d c"
    if "agrees_on key (S key) s d c" "s' mod TCP_SEQUENCE_MODULUS = s mod TCP_SEQUENCE_MODULUS"
    using that agrees_mod by (auto simp: agrees_on_def)
  let ?c = "c\<lparr>ctx_stream_start := Some n\<rparr>"
  show "tee_inv key (Some (n + int (length d))) (sc_feed (tee_stream_scanner cfg) d ?c x)"
    if "tee_inv key (Some n) x" and agree: "agrees_on key (S key) n d c"
    unfolding tee_stream_scanner_def tee_feed_def stream_scanner.simps
    by (rule tee_run_keeps [OF that(1) _ _ target_client.feed_target_returns [OF target _ agree]])
      (simp_all add: collector_keeps(2) [where P = "\<lambda>s. W (snd s)"] taps_keep)
  show "tee_inv key (Some n) (sc_scan_standalone (tee_stream_scanner cfg) d (c\<lparr>ctx_stream_start := Some s\<rparr>) x)"
    if "tee_inv key (Some n) x" and agree: "agrees_on key (S key) s d c"
    unfolding tee_stream_scanner_def tee_scan_standalone_def stream_scanner.simps
    by (rule tee_run_keeps [OF that(1) _ _ target_client.standalone_target_returns [OF target _ agree]])
      (simp_all add: collector_keeps(3) [where P = "\<lambda>s. W (snd s)"] taps_keep)
qed (auto simp: tee_stream_scanner_def gap_reset_def tee_inv_def target_inv_def tee_reset_def tm_reset_def)

lemma tee_inv_eq: "tee_inv key = (\<lambda>ns x. tee_ok S key ns (fst x) \<and> W (snd (snd x)))"
  by (intro ext) (auto simp: tee_inv_def tee_ok_def target_inv_def)

lemma any_client: "engine_client cfg S (\<lambda>_. True)"
  by (rule engine_client.intro) (use specs in simp_all)

end

sublocale engine_client \<subseteq> stream_world "engine_manager_config cfg" S "tee_ok S" "\<lambda>w. W (snd w)"
proof (rule stream_world.intro)
  fix key
  show "flow_contract (mc_scanner (engine_manager_config cfg)) (agrees_on key (S key))
      (\<lambda>ns x. tee_ok S key ns (fst x) \<and> W (snd (snd x)))"
    using tee_contract by (simp add: engine_manager_config_def tee_inv_eq)
  show "flow_contract (mc_scanner (engine_manager_config cfg)) (agrees_on key (S key)) (\<lambda>ns x. tee_ok S key ns (fst x))"
    using engine_client.tee_contract [OF any_client] engine_client.tee_inv_eq [OF any_client]
    by (simp add: engine_manager_config_def)
qed (use W_flow_close W_flow_reset in
  \<open>auto simp: engine_manager_config_def tee_stream_scanner_def on_app_def count_flow_state_eviction_def
    tee_ok_def target_inv_def build_scanner_def new_target_scanner_def\<close>)

end
