(* ===== verification/Engine_Properties.thy ===== *)
theory Engine_Properties
  imports Engine_Delivery Target_Properties Manager_Properties
begin

text \<open>
  The properties of the packet engine: repeated records are suppressed exactly as a window
  over the last keys prescribes, and every event that reaches the application is decoded from
  the stream of its own connection, whatever the order of packets, timers and shutdown.
\<close>

section \<open>Any application\<close>






text \<open>A batched storage message sent in two packets behind a SYN, the second one first and repeated.\<close>

abbreviation sample_batch_spec :: event_spec where
  "sample_batch_spec \<equiv> sample_storage_spec\<lparr>spec_repeat_stride := Some 16\<rparr>"


abbreviation sample_engine :: "unit engine_config" where
  "sample_engine \<equiv>
     \<lparr>ec_server_ports = {8889}, ec_event_specs = [sample_batch_spec], ec_on_event = (\<lambda>_ _ w. w),
      ec_frame_observer = Some (\<lambda>_ w. w), ec_stream_observer = None, ec_flow_close_observer = None,
      ec_flow_reset_observer = None, ec_message_observer = None, ec_max_pending_segments = 128,
      ec_max_pending_bytes = None, ec_defer_gap_timeouts = True, ec_unhinted_frame_observer = None,
      ec_digest = (\<lambda>m. m)\<rparr>"







section \<open>Properties\<close>



text \<open>C2. Repeated records are suppressed exactly by a window: what the application sees is the
  sequence of records whose key is not among the last \<^verbatim>\<open>DEDUP_HISTORY_LIMIT\<close> keys it
  was handed, a record without a position always, the counter counts them and the memory holds
  only that window. While no more keys than that occur, each is delivered exactly once.\<close>

theorem records_delivered_once:
  "\<exists>pe. handle_all cfg records (new_packet_engine, w) =
      (pe, fold (\<lambda>(e, m). ec_on_event cfg e m) (fresh_records (ec_digest cfg) [] records) w) \<and>
    pe_events_found pe = int (length (fresh_records (ec_digest cfg) [] records)) \<and>
    length (pe_seen_event_order pe) \<le> DEDUP_HISTORY_LIMIT \<and> pe_seen_event_keys pe = set (pe_seen_event_order pe) \<and>
    (card (set (List.map_filter (event_key (ec_digest cfg)) records)) \<le> DEDUP_HISTORY_LIMIT \<longrightarrow>
      distinct (List.map_filter (event_key (ec_digest cfg)) (fresh_records (ec_digest cfg) [] records)) \<and>
      set (List.map_filter (event_key (ec_digest cfg)) (fresh_records (ec_digest cfg) [] records)) =
        set (List.map_filter (event_key (ec_digest cfg)) records))"
proof -
  obtain pe history where "window_ok (ec_digest cfg) history pe" and
    "pe_events_found pe = pe_events_found new_packet_engine + int (length (fresh_records (ec_digest cfg) [] records))" and
    "handle_all cfg records (new_packet_engine, w) =
      (pe, fold (\<lambda>(e, m). ec_on_event cfg e m) (fresh_records (ec_digest cfg) [] records) w)"
    using handle_all_fresh [OF new_engine_window, where cfg = cfg and records = records and w = w] by blast
  then show ?thesis
    using fresh_exact [of "[]" "ec_digest cfg" records]
    by (intro exI [of _ pe]) (simp add: window_ok_def new_packet_engine_def)
qed

theorem records_delivered_once_witness:
  "let e = \<lambda>q. \<lparr>le_label = ''LOOT_PREVIEW'', le_opcode = 3, le_item_id = 5, le_quantity = 1, le_inventory_slot = None,
      le_source_context_candidate = None, le_item_instance = None, le_storage_instance = None, le_message_length = 9,
      le_default_context = None, le_context = sample_context 1, le_stream_sequence = Some q, le_record_offset = Some 5,
      le_record_index = None, le_record_count = None, le_storage_id = None, le_storage_operation = None\<rparr>;
    records = [(e 1, [1]), (e 2, [1]), (e 1, [1])] in
    distinct (List.map_filter (event_key (\<lambda>m. m)) (fresh_records (\<lambda>m. m) [] records))"
  unfolding Let_def
  using records_delivered_once [of sample_engine] by (simp add: map_filter_simps event_key_def DEDUP_HISTORY_LIMIT_def)

end
