(* ===== verification/Destination_Validation.thy ===== *)
theory Destination_Validation
  imports Protocol
begin

text \<open>
  \<^verbatim>\<open>src/bdo_toolkit/_storage_destination_validation.py\<close>: evidence, across the storage
  messages of a connection, that the column a profile names for the destination is stale.

  An \<^verbatim>\<open>OrderedDict\<close> is an association list, oldest entry first. The fingerprint
  (\<^verbatim>\<open>blake2s\<close>) is a parameter of which nothing is used but that it is a function.
  The cohort object is shared with the dictionary, so changing it changes the entry.
\<close>

section \<open>State\<close>

definition MIN_PROOF_WRAPPERS :: nat where
  "MIN_PROOF_WRAPPERS = 4"

definition MIN_PROOF_DESTINATIONS :: nat where
  "MIN_PROOF_DESTINATIONS = 3"

definition MAX_COHORTS :: nat where
  "MAX_COHORTS = 64"

definition MAX_WRAPPERS_PER_COHORT :: nat where
  "MAX_WRAPPERS_PER_COHORT = 128"

record schema_mismatch =
  sm_opcode :: int
  sm_configured_offset :: int
  sm_observed_offset :: int
  sm_wrapper_count :: nat
  sm_distinct_destinations :: nat

type_synonym destinations = "(int \<times> int) list"

record destination_cohort =
  dc_wrappers :: "(bytes, destinations) dict"
  dc_mismatch_reported :: bool

definition new_destination_cohort :: destination_cohort where
  "new_destination_cohort = \<lparr>dc_wrappers = [], dc_mismatch_reported = False\<rparr>"

type_synonym cohort_key = "flow_key \<times> int \<times> int \<times> int \<times> int"
type_synonym destination_validator = "(cohort_key, destination_cohort) dict"

section \<open>Evidence\<close>

text \<open>\<^verbatim>\<open>while len(d) > limit: d.popitem(last=False)\<close>\<close>

fun pop_oldest :: "nat \<Rightarrow> ('k, 'v) dict \<Rightarrow> ('k, 'v) dict" where
  "pop_oldest limit [] = []"
| "pop_oldest limit (entry # d) = (if length (entry # d) > limit then pop_oldest limit d else entry # d)"

text \<open>\<^verbatim>\<open>support[offset] += 1\<close> and \<^verbatim>\<open>destination_ids[offset].add(storage_id)\<close>\<close>

definition support_step :: "int \<times> int \<Rightarrow> (int, nat) dict \<Rightarrow> (int, nat) dict" where
  "support_step candidate support =
     (let n = (case map_of support (fst candidate) of None \<Rightarrow> 0 | Some n \<Rightarrow> n)
      in AList.update (fst candidate) (n + 1) support)"

definition ids_step :: "int \<times> int \<Rightarrow> (int, int set) dict \<Rightarrow> (int, int set) dict" where
  "ids_step candidate ids =
     (let seen = (case map_of ids (fst candidate) of None \<Rightarrow> {} | Some seen \<Rightarrow> seen)
      in AList.update (fst candidate) (insert (snd candidate) seen) ids)"

definition column_support :: "destinations list \<Rightarrow> (int, nat) dict" where
  "column_support wrappers = fold support_step (concat wrappers) []"

definition column_ids :: "destinations list \<Rightarrow> int \<Rightarrow> int set" where
  "column_ids wrappers offset =
     (case map_of (fold ids_step (concat wrappers) []) offset of None \<Rightarrow> {} | Some seen \<Rightarrow> seen)"

definition proven_offsets :: "destinations list \<Rightarrow> int list" where
  "proven_offsets wrappers =
     map fst (filter (\<lambda>(offset, count). count = length wrappers \<and>
                        card (column_ids wrappers offset) \<ge> MIN_PROOF_DESTINATIONS)
               (column_support wrappers))"

text \<open>The verdict on the candidate-bearing wrappers of a cohort.\<close>

definition find_mismatch :: "int \<Rightarrow> int \<Rightarrow> destinations list \<Rightarrow> schema_mismatch option" where
  "find_mismatch opcode configured_offset candidate_wrappers =
     (if length candidate_wrappers < MIN_PROOF_WRAPPERS then None
      else case proven_offsets candidate_wrappers of
             [observed_offset] \<Rightarrow>
               if observed_offset = configured_offset then None
               else Some \<lparr>sm_opcode = opcode, sm_configured_offset = configured_offset,
                          sm_observed_offset = observed_offset,
                          sm_wrapper_count = length candidate_wrappers,
                          sm_distinct_destinations = card (column_ids candidate_wrappers observed_offset)\<rparr>
           | _ \<Rightarrow> None)"

section \<open>Operations\<close>

definition observe_cohort ::
    "int \<Rightarrow> int \<Rightarrow> bytes \<Rightarrow> destinations \<Rightarrow> destination_cohort \<Rightarrow> schema_mismatch option \<times> destination_cohort" where
  "observe_cohort opcode configured_offset fingerprint candidates cohort =
     (if map_of (dc_wrappers cohort) fingerprint \<noteq> None then (None, cohort)
      else let wrappers = pop_oldest MAX_WRAPPERS_PER_COHORT
                            (AList.update fingerprint candidates (dc_wrappers cohort));
               cohort1 = cohort\<lparr>dc_wrappers := wrappers\<rparr>
           in if dc_mismatch_reported cohort then (None, cohort1)
              else case find_mismatch opcode configured_offset (filter (\<lambda>c. c \<noteq> []) (map snd wrappers)) of
                     None \<Rightarrow> (None, cohort1)
                   | Some mismatch \<Rightarrow> (Some mismatch, cohort1\<lparr>dc_mismatch_reported := True\<rparr>))"

definition observe_destination ::
    "(bytes \<Rightarrow> bytes) \<Rightarrow> flow_key \<Rightarrow> int \<Rightarrow> int \<Rightarrow> bytes \<Rightarrow> int \<Rightarrow> int option \<Rightarrow> destination_validator \<Rightarrow>
       schema_mismatch option \<times> destination_validator" where
  "observe_destination digest flow flow_generation opcode message first_item_offset configured_offset v =
     (case configured_offset of
        None \<Rightarrow> (None, v)
      | Some configured \<Rightarrow>
          if first_item_offset \<le> 5 then (None, v)
          else let key = (flow, flow_generation, opcode, first_item_offset, configured);
                   cohort = (case map_of v key of None \<Rightarrow> new_destination_cohort | Some c \<Rightarrow> c);
                   cohorts = pop_oldest MAX_COHORTS (AList.delete key v @ [(key, cohort)]);
                   (mismatch, cohort') = observe_cohort opcode configured (digest message)
                                           (storage_destination_candidates message first_item_offset) cohort
               in (mismatch, AList.map_entry key (\<lambda>_. cohort') cohorts))"

definition close_destination_flow :: "flow_key \<Rightarrow> destination_validator \<Rightarrow> destination_validator" where
  "close_destination_flow flow v = filter (\<lambda>(key, _). fst key \<noteq> flow) v"

definition cohort_count :: "destination_validator \<Rightarrow> nat" where
  "cohort_count v = length v"

definition retained_wrapper_count :: "destination_validator \<Rightarrow> nat" where
  "retained_wrapper_count v = sum_list (map (\<lambda>(_, cohort). length (dc_wrappers cohort)) v)"

text \<open>A history of calls, with what each call to \<^verbatim>\<open>observe\<close> returned.\<close>

datatype destination_op =
    Observe flow_key int int bytes int "int option"
  | Close_Flow flow_key

fun destination_step ::
    "(bytes \<Rightarrow> bytes) \<Rightarrow> destination_op \<Rightarrow> destination_validator \<times> schema_mismatch option list \<Rightarrow>
       destination_validator \<times> schema_mismatch option list" where
  "destination_step digest (Observe flow g opcode message first configured) (v, out) =
     (case observe_destination digest flow g opcode message first configured v of
        (r, v') \<Rightarrow> (v', out @ [r]))"
| "destination_step digest (Close_Flow flow) (v, out) = (close_destination_flow flow v, out @ [None])"

end
