(* ===== verification/Destination_Properties.thy ===== *)
theory Destination_Properties
  imports Destination_Validation
begin

text \<open>
  The evidence of the destination validator: the incremental counts against what they count,
  what the validator retains, and when it reports.
\<close>

section \<open>The oldest entries go first\<close>

lemma pop_oldest_drop: "pop_oldest limit d = drop (length d - limit) d"
  by (induction d) (auto simp: Suc_diff_le not_less drop_Cons')

lemma length_pop_oldest [simp]: "length (pop_oldest limit d) = min limit (length d)"
  by (simp add: pop_oldest_drop)

lemma set_pop_oldest: "set (pop_oldest limit d) \<subseteq> set d"
  by (simp add: pop_oldest_drop set_drop_subset)

lemma distinct_pop_oldest: "distinct (map fst d) \<Longrightarrow> distinct (map fst (pop_oldest limit d))"
  by (simp add: pop_oldest_drop drop_map [symmetric] del: drop_map)

lemma pop_oldest_id: "length d \<le> limit \<Longrightarrow> pop_oldest limit d = d"
  by (simp add: pop_oldest_drop)

lemma pop_oldest_keeps_newest: "0 < limit \<Longrightarrow> entry \<in> set (pop_oldest limit (d @ [entry]))"
  by (simp add: pop_oldest_drop)

lemma map_entry_newest:
  "k \<notin> fst ` set xs \<Longrightarrow> AList.map_entry k f (xs @ [(k, x)]) = xs @ [(k, f x)]"
  by (induction xs) auto

lemma pop_oldest_newest: "0 < limit \<Longrightarrow> pop_oldest limit (d @ [entry]) = drop (Suc (length d) - limit) d @ [entry]"
  by (simp add: pop_oldest_drop)

lemma map_filter_append: "List.map_filter f (xs @ ys) = List.map_filter f xs @ List.map_filter f ys"
  by (induction xs) (auto simp: map_filter_simps split: option.split)

lemma map_of_append_delete: "map_of (AList.delete k' d @ [(k', x)]) k = (if k = k' then Some x else map_of d k)"
  by (induction d) (auto simp: AList.delete_eq map_add_def split: option.splits)

section \<open>Counting evidence\<close>

lemma support_fold:
  "(case map_of (fold support_step xs s) k of None \<Rightarrow> 0 | Some n \<Rightarrow> n) =
     (case map_of s k of None \<Rightarrow> 0 | Some n \<Rightarrow> n) + length (filter (\<lambda>c. fst c = k) xs)"
  by (induction xs arbitrary: s) (auto simp: support_step_def Let_def update_conv split: option.splits)

lemma support_dom: "fst ` set (fold support_step xs s) = fst ` set s \<union> fst ` set xs"
  by (induction xs arbitrary: s) (auto simp: support_step_def Let_def dict_simps)

lemma support_distinct: "distinct (map fst s) \<Longrightarrow> distinct (map fst (fold support_step xs s))"
  by (induction xs arbitrary: s) (simp_all add: support_step_def Let_def AList.distinct_update)

lemma ids_fold:
  "(case map_of (fold ids_step xs s) k of None \<Rightarrow> {} | Some seen \<Rightarrow> seen) =
     (case map_of s k of None \<Rightarrow> {} | Some seen \<Rightarrow> seen) \<union> {i. (k, i) \<in> set xs}"
  by (induction xs arbitrary: s) (auto simp: ids_step_def Let_def update_conv split: option.splits)

lemma column_ids_eq: "column_ids wrappers offset = {i. \<exists>c \<in> set wrappers. (offset, i) \<in> set c}"
  using ids_fold [of "concat wrappers" "[]" offset] by (auto simp: column_ids_def)

text \<open>A column is proven when every wrapper has a destination there, and enough of them differ.\<close>

definition proven :: "destinations list \<Rightarrow> int \<Rightarrow> bool" where
  "proven wrappers offset \<longleftrightarrow> list_all (\<lambda>c. offset \<in> fst ` set c) wrappers \<and>
     MIN_PROOF_DESTINATIONS \<le> card {i. \<exists>c \<in> set wrappers. (offset, i) \<in> set c}"

lemma count_key:
  "distinct (map fst c) \<Longrightarrow> length (filter (\<lambda>x. fst x = k) c) = (if k \<in> fst ` set c then 1 else 0)"
  by (induction c) (auto simp: filter_empty_conv image_iff)

lemma count_column:
  assumes "list_all (\<lambda>c. distinct (map fst c)) wrappers"
  shows "length (filter (\<lambda>c. fst c = offset) (concat wrappers)) =
    length (filter (\<lambda>c. offset \<in> fst ` set c) wrappers)"
  using assms
proof (induction wrappers)
  case (Cons c wrappers)
  have "length (filter (\<lambda>x. fst x = offset) c) = (if offset \<in> fst ` set c then 1 else 0)"
    using Cons.prems by (simp add: count_key)
  then show ?case
    using Cons by simp
qed simp

lemma count_all: "length (filter P xs) = length xs \<longleftrightarrow> list_all P xs"
  unfolding list_all_iff by (metis filter_True length_filter_less less_irrefl)

lemma support_count:
  assumes "list_all (\<lambda>c. distinct (map fst c)) wrappers"
  shows "map_of (column_support wrappers) offset =
    (if offset \<in> fst ` set (concat wrappers)
     then Some (length (filter (\<lambda>c. offset \<in> fst ` set c) wrappers)) else None)"
proof -
  have "offset \<in> fst ` set (column_support wrappers) \<longleftrightarrow> offset \<in> fst ` set (concat wrappers)"
    unfolding column_support_def by (simp add: support_dom)
  moreover have "map_of (column_support wrappers) offset \<noteq> None \<longleftrightarrow> offset \<in> fst ` set (column_support wrappers)"
    by (simp add: map_of_eq_None_iff)
  ultimately show ?thesis
    using support_fold [of "concat wrappers" "[]" offset] count_column [OF assms, of offset]
    by (auto simp: column_support_def split: option.splits)
qed

lemma proven_offsets_distinct: "distinct (proven_offsets wrappers)"
  unfolding proven_offsets_def
  by (intro distinct_map_filter) (simp add: column_support_def support_distinct)

lemma set_proven_offsets:
  assumes "list_all (\<lambda>c. distinct (map fst c)) wrappers"
  shows "set (proven_offsets wrappers) = {offset. proven wrappers offset}"
proof (intro set_eqI iffI)
  fix offset
  have distinct: "distinct (map fst (column_support wrappers))"
    by (simp add: column_support_def support_distinct)
  show "offset \<in> {offset. proven wrappers offset}" if "offset \<in> set (proven_offsets wrappers)"
  proof -
    have "(offset, length wrappers) \<in> set (column_support wrappers)"
      and card: "MIN_PROOF_DESTINATIONS \<le> card (column_ids wrappers offset)"
      using that by (auto simp: proven_offsets_def)
    then have "map_of (column_support wrappers) offset = Some (length wrappers)"
      using distinct by simp
    then have "length (filter (\<lambda>c. offset \<in> fst ` set c) wrappers) = length wrappers"
      using support_count [OF assms, of offset] by (metis option.distinct(1) option.inject)
    then show ?thesis
      using card by (simp add: proven_def count_all column_ids_eq)
  qed
  show "offset \<in> set (proven_offsets wrappers)" if "offset \<in> {offset. proven wrappers offset}"
  proof -
    have all: "list_all (\<lambda>c. offset \<in> fst ` set c) wrappers"
      and card: "MIN_PROOF_DESTINATIONS \<le> card (column_ids wrappers offset)"
      using that by (auto simp: proven_def column_ids_eq)
    then have "column_ids wrappers offset \<noteq> {}"
      by (auto simp: MIN_PROOF_DESTINATIONS_def)
    then have "offset \<in> fst ` set (concat wrappers)"
      by (force simp: column_ids_eq)
    then have "map_of (column_support wrappers) offset = Some (length wrappers)"
      using support_count [OF assms, of offset] all count_all [of "\<lambda>c. offset \<in> fst ` set c" wrappers] by metis
    then show ?thesis
      using card map_of_SomeD by (force simp: proven_offsets_def)
  qed
qed

lemma find_mismatch_iff:
  assumes "list_all (\<lambda>c. distinct (map fst c)) wrappers"
  shows "find_mismatch opcode configured wrappers = Some m \<longleftrightarrow>
    MIN_PROOF_WRAPPERS \<le> length wrappers \<and> sm_observed_offset m \<noteq> configured \<and>
    {offset. proven wrappers offset} = {sm_observed_offset m} \<and>
    m = \<lparr>sm_opcode = opcode, sm_configured_offset = configured, sm_observed_offset = sm_observed_offset m,
         sm_wrapper_count = length wrappers,
         sm_distinct_destinations = card {i. \<exists>c \<in> set wrappers. (sm_observed_offset m, i) \<in> set c}\<rparr>"
proof -
  have "proven_offsets wrappers = [offset] \<longleftrightarrow> {offset. proven wrappers offset} = {offset}" for offset
  proof
    assume "{offset. proven wrappers offset} = {offset}"
    then have "set (proven_offsets wrappers) = {offset}"
      using set_proven_offsets [OF assms] by simp
    moreover from this have "length (proven_offsets wrappers) = 1"
      using distinct_card [OF proven_offsets_distinct [of wrappers]] by simp
    ultimately show "proven_offsets wrappers = [offset]"
      by (auto simp: length_Suc_conv)
  qed (use set_proven_offsets [OF assms] in auto)
  note single = this
  show ?thesis
  proof (cases "\<exists>offset. proven_offsets wrappers = [offset]")
    case True
    then obtain offset where "proven_offsets wrappers = [offset]"
      by blast
    moreover from this have "{offset. proven wrappers offset} = {offset}"
      by (simp add: single)
    ultimately show ?thesis
      by (cases m) (auto simp: find_mismatch_def column_ids_eq)
  next
    case False
    then have "find_mismatch opcode configured wrappers = None"
      by (auto simp: find_mismatch_def split: list.splits)
    moreover have "{offset. proven wrappers offset} \<noteq> {sm_observed_offset m}"
      using False single by blast
    ultimately show ?thesis
      by simp
  qed
qed

section \<open>What is retained\<close>

lemma candidates_distinct: "distinct (map fst (storage_destination_candidates message before))"
proof -
  have "distinct (map fst (filter P (map (\<lambda>k. (k, g k)) [a .. b])))" for P and g :: "int \<Rightarrow> int" and a b
    by (rule distinct_map_filter) (simp add: comp_def)
  then show ?thesis
    by (simp add: storage_destination_candidates_def Let_def)
qed

fun op_key :: "destination_op \<Rightarrow> cohort_key option" where
  "op_key (Observe flow g opcode message first configured) =
     (case configured of None \<Rightarrow> None | Some c \<Rightarrow> if first \<le> 5 then None else Some (flow, g, opcode, first, c))"
| "op_key (Close_Flow _) = None"

definition run_destination ::
    "(bytes \<Rightarrow> bytes) \<Rightarrow> destination_op list \<Rightarrow> destination_validator \<times> schema_mismatch option list" where
  "run_destination digest ops = fold (destination_step digest) ops ([], [])"

definition first_item :: "cohort_key \<Rightarrow> int" where
  "first_item key = (case key of (_, _, _, first, _) \<Rightarrow> first)"

text \<open>The messages a history shows for one cohort.\<close>

definition observed :: "destination_op list \<Rightarrow> cohort_key \<Rightarrow> bytes set" where
  "observed ops key = {message. case key of (flow, g, opcode, first, configured) \<Rightarrow>
     Observe flow g opcode message first (Some configured) \<in> set ops \<and> 5 < first}"

definition cohort_ok :: "(bytes \<Rightarrow> bytes) \<Rightarrow> destination_op list \<Rightarrow> cohort_key \<Rightarrow> destination_cohort \<Rightarrow> bool" where
  "cohort_ok digest ops key cohort \<longleftrightarrow>
     distinct (map fst (dc_wrappers cohort)) \<and> length (dc_wrappers cohort) \<le> MAX_WRAPPERS_PER_COHORT \<and>
     (\<forall>wrapper \<in> set (dc_wrappers cohort). \<exists>message \<in> observed ops key.
        wrapper = (digest message, storage_destination_candidates message (first_item key)))"

definition validator_ok :: "(bytes \<Rightarrow> bytes) \<Rightarrow> destination_op list \<Rightarrow> destination_validator \<Rightarrow> bool" where
  "validator_ok digest ops v \<longleftrightarrow>
     distinct (map fst v) \<and> length v \<le> MAX_COHORTS \<and>
     (\<forall>entry \<in> set v. cohort_ok digest ops (fst entry) (snd entry))"

lemma observed_mono: "set ops \<subseteq> set ops' \<Longrightarrow> observed ops key \<subseteq> observed ops' key"
  by (auto simp: observed_def)

lemma cohort_ok_mono: "cohort_ok digest ops key c \<Longrightarrow> set ops \<subseteq> set ops' \<Longrightarrow> cohort_ok digest ops' key c"
  unfolding cohort_ok_def using observed_mono by blast

lemma validator_ok_mono: "validator_ok digest ops v \<Longrightarrow> set ops \<subseteq> set ops' \<Longrightarrow> validator_ok digest ops' v"
  unfolding validator_ok_def using cohort_ok_mono by blast

lemma validator_ok_subset:
  "validator_ok digest ops v \<Longrightarrow> validator_ok digest ops (filter P v)"
  unfolding validator_ok_def using length_filter_le [of P v]
  by (simp add: distinct_map_filter order_trans [of "length (filter P v)" "length v"])

lemma new_cohort_ok: "cohort_ok digest ops key new_destination_cohort"
  by (simp add: cohort_ok_def new_destination_cohort_def)

lemma observe_cohort_ok:
  assumes "cohort_ok digest ops key cohort" and "message \<in> observed ops key"
    and "observe_cohort opcode configured (digest message)
      (storage_destination_candidates message (first_item key)) cohort = (r, cohort')"
  shows "cohort_ok digest ops key cohort'"
proof (cases "map_of (dc_wrappers cohort) (digest message)")
  case None
  define wrappers where "wrappers = pop_oldest MAX_WRAPPERS_PER_COHORT
    (AList.update (digest message) (storage_destination_candidates message (first_item key)) (dc_wrappers cohort))"
  have "dc_wrappers cohort' = wrappers"
    using assms(3) None by (auto simp: observe_cohort_def Let_def wrappers_def split: if_splits option.splits)
  moreover have "distinct (map fst wrappers)"
    unfolding wrappers_def using assms(1)
    by (intro distinct_pop_oldest AList.distinct_update) (simp add: cohort_ok_def)
  moreover have "length wrappers \<le> MAX_WRAPPERS_PER_COHORT"
    by (simp add: wrappers_def)
  moreover have "set wrappers \<subseteq>
      insert (digest message, storage_destination_candidates message (first_item key)) (set (dc_wrappers cohort))"
    unfolding wrappers_def using set_pop_oldest set_update_subset by (rule order_trans)
  ultimately show ?thesis
    using assms(1,2) unfolding cohort_ok_def by blast
qed (use assms in \<open>simp add: observe_cohort_def\<close>)

text \<open>One call to \<^verbatim>\<open>observe\<close> with a configured column.\<close>

lemma observe_destination_cases:
  assumes "observe_destination digest flow g opcode message first configured v = (r, v')"
  obtains "r = None" "v' = v" "op_key (Observe flow g opcode message first configured) = None"
  | c cohort cohort' where "configured = Some c"
    "op_key (Observe flow g opcode message first configured) = Some (flow, g, opcode, first, c)"
    "5 < first"
    "cohort = (case map_of v (flow, g, opcode, first, c) of None \<Rightarrow> new_destination_cohort | Some c \<Rightarrow> c)"
    "observe_cohort opcode c (digest message) (storage_destination_candidates message first) cohort = (r, cohort')"
    "v' = pop_oldest MAX_COHORTS (AList.delete (flow, g, opcode, first, c) v @ [((flow, g, opcode, first, c), cohort')])"
proof (cases configured)
  case None
  then show ?thesis
    using assms by (intro that(1)) (auto simp: observe_destination_def)
next
  case (Some c)
  show ?thesis
  proof (cases "first \<le> 5")
    case True
    then show ?thesis
      using assms Some by (intro that(1)) (auto simp: observe_destination_def)
  next
    case False
    define key where "key = (flow, g, opcode, first, c)"
    define cohort where "cohort = (case map_of v key of None \<Rightarrow> new_destination_cohort | Some c \<Rightarrow> c)"
    obtain r' cohort' where o: "observe_cohort opcode c (digest message)
        (storage_destination_candidates message first) cohort = (r', cohort')"
      by (meson surj_pair)
    define rest where "rest = drop (Suc (length (AList.delete key v)) - MAX_COHORTS) (AList.delete key v)"
    have "key \<notin> fst ` set rest"
      using set_drop_subset by (fastforce simp: rest_def dict_simps)
    then have "AList.map_entry key (\<lambda>_. cohort') (pop_oldest MAX_COHORTS (AList.delete key v @ [(key, cohort)])) =
        pop_oldest MAX_COHORTS (AList.delete key v @ [(key, cohort')])"
      using pop_oldest_newest [of MAX_COHORTS "AList.delete key v"] map_entry_newest
      by (simp add: MAX_COHORTS_def rest_def)
    then have "r = r'" "v' = pop_oldest MAX_COHORTS (AList.delete key v @ [(key, cohort')])"
      using assms Some False o by (simp_all add: observe_destination_def Let_def key_def cohort_def)
    then show ?thesis
      using Some False o by (intro that(2)) (auto simp: key_def cohort_def)
  qed
qed

lemma observed_now: "op_key (Observe flow g opcode message first (Some c)) = Some key \<Longrightarrow>
    message \<in> observed (ops @ [Observe flow g opcode message first (Some c)]) key"
  by (auto simp: observed_def split: if_splits)

lemma map_of_ok: "validator_ok digest ops v \<Longrightarrow>
    cohort_ok digest ops key (case map_of v key of None \<Rightarrow> new_destination_cohort | Some c \<Rightarrow> c)"
  unfolding validator_ok_def by (cases "map_of v key") (force simp: new_cohort_ok dest: map_of_SomeD)+

lemma observe_destination_ok:
  assumes v: "validator_ok digest ops v"
    and "observe_destination digest flow g opcode message first configured v = (r, v')"
  shows "validator_ok digest (ops @ [Observe flow g opcode message first configured]) v'"
proof -
  let ?ops = "ops @ [Observe flow g opcode message first configured]"
  have v': "validator_ok digest ?ops v"
    using v by (rule validator_ok_mono) auto
  from assms(2) show ?thesis
  proof (cases rule: observe_destination_cases)
    case 1
    then show ?thesis
      using v' by simp
  next
    case (2 c cohort cohort')
    define key where "key = (flow, g, opcode, first, c)"
    have "cohort_ok digest ?ops key cohort"
      using map_of_ok [OF v'] 2(4) by (simp add: key_def)
    moreover have "message \<in> observed ?ops key" and "first_item key = first"
      using 2(1,3) by (simp_all add: observed_def key_def first_item_def)
    ultimately have "cohort_ok digest ?ops key cohort'"
      using observe_cohort_ok 2(5) by metis
    moreover have "set v' \<subseteq> insert (key, cohort') (set v)"
      using set_pop_oldest [of MAX_COHORTS] by (force simp: 2(6) key_def AList.delete_eq)
    moreover have "distinct (map fst v')"
      unfolding 2(6) key_def [symmetric] using v
      by (intro distinct_pop_oldest) (auto simp: validator_ok_def AList.distinct_delete AList.delete_eq distinct_map_filter)
    ultimately show ?thesis
      using v' by (auto simp: validator_ok_def 2(6))
  qed
qed

lemma close_destination_ok:
  assumes "validator_ok digest ops v"
  shows "validator_ok digest (ops @ [op]) (close_destination_flow flow v)"
  unfolding close_destination_flow_def
  by (intro validator_ok_subset validator_ok_mono [OF assms]) auto

lemma run_destination_ok: "validator_ok digest ops (fst (run_destination digest ops))"
proof (induction ops rule: rev_induct)
  case Nil
  then show ?case
    by (simp add: run_destination_def validator_ok_def)
next
  case (snoc op ops)
  obtain v out where run: "run_destination digest ops = (v, out)"
    by (meson surj_pair)
  then show ?case
    using snoc observe_destination_ok [of digest ops v] close_destination_ok [of digest ops v]
    by (cases op) (auto simp: run_destination_def split: prod.split)
qed

section \<open>A stale profile\<close>

text \<open>Four messages whose destination is at column 5 while column 9 is configured; the fourth
  proves it, and a fifth is silent.\<close>

abbreviation sample_wrapper :: "int \<Rightarrow> bytes" where
  "sample_wrapper storage_id \<equiv> [30, 0, 0, 0x34, 0x12] @ to_le 4 storage_id @ replicate 8 1"

abbreviation sample_history :: "destination_op list" where
  "sample_history \<equiv> map (\<lambda>i. Observe sample_flow 1 0x1234 (sample_wrapper i) 13 (Some 9))
     (map fst (take 3 STORAGE_LOCATIONS))"

abbreviation sample_observation :: "bytes \<Rightarrow> schema_mismatch option \<times> destination_validator" where
  "sample_observation message \<equiv> observe_destination (\<lambda>m. m) sample_flow 1 0x1234 message 13 (Some 9)
     (fst (run_destination (\<lambda>m. m) sample_history))"

lemma sample_mismatch: "fst (sample_observation (sample_wrapper 77)) =
    Some \<lparr>sm_opcode = 0x1234, sm_configured_offset = 9, sm_observed_offset = 5, sm_wrapper_count = 4,
          sm_distinct_destinations = 4\<rparr>"
  by code_simp

section \<open>Properties\<close>

text \<open>C35. A reported mismatch is proven by evidence that was observed: at least four messages of
  the same connection, opcode and layout, with different fingerprints, every one of which holds
  a registered destination at the reported column, with at least three different destinations
  there; no other column is proven by them, in particular not the configured one.\<close>

theorem mismatches_are_proven:
  assumes "observe_destination digest flow g opcode message first (Some configured)
      (fst (run_destination digest ops)) = (Some m, v')"
  shows "\<exists>messages. distinct (map digest messages) \<and>
    set messages \<subseteq> observed (ops @ [Observe flow g opcode message first (Some configured)])
      (flow, g, opcode, first, configured) \<and>
    length messages = sm_wrapper_count m \<and> MIN_PROOF_WRAPPERS \<le> length messages \<and>
    {offset. proven (map (\<lambda>message. storage_destination_candidates message first) messages) offset} =
      {sm_observed_offset m} \<and>
    sm_observed_offset m \<noteq> configured"
proof -
  let ?key = "(flow, g, opcode, first, configured)"
  let ?ops = "ops @ [Observe flow g opcode message first (Some configured)]"
  let ?candidates = "\<lambda>message. storage_destination_candidates message first"
  from assms obtain cohort cohort' where
    key: "5 < first" and
    c: "cohort = (case map_of (fst (run_destination digest ops)) ?key of None \<Rightarrow> new_destination_cohort | Some c \<Rightarrow> c)" and
    o: "observe_cohort opcode configured (digest message) (?candidates message) cohort = (Some m, cohort')"
    by (cases rule: observe_destination_cases) auto
  have "cohort_ok digest ops ?key cohort"
    unfolding c by (rule map_of_ok) (rule run_destination_ok)
  then have "cohort_ok digest ?ops ?key cohort"
    by (rule cohort_ok_mono) auto
  moreover have "message \<in> observed ?ops ?key"
    using key by (simp add: observed_def)
  ultimately have ok: "cohort_ok digest ?ops ?key cohort'"
    using observe_cohort_ok [of digest ?ops ?key] o by (simp add: first_item_def)
  have m: "find_mismatch opcode configured (filter (\<lambda>c. c \<noteq> []) (map snd (dc_wrappers cohort'))) = Some m"
    using o by (auto simp: observe_cohort_def Let_def split: if_splits option.splits)
  let ?wrappers = "filter (\<lambda>w. snd w \<noteq> []) (dc_wrappers cohort')"
  have "\<forall>w \<in> set ?wrappers. \<exists>message \<in> observed ?ops ?key. w = (digest message, ?candidates message)"
    using ok by (simp add: cohort_ok_def first_item_def)
  then obtain message_of where message_of:
    "\<forall>w \<in> set ?wrappers. message_of w \<in> observed ?ops ?key \<and> w = (digest (message_of w), ?candidates (message_of w))"
    by metis
  define messages where "messages = map message_of ?wrappers"
  have snds: "filter (\<lambda>c. c \<noteq> []) (map snd (dc_wrappers cohort')) = map ?candidates messages"
    using message_of by (auto simp: messages_def filter_map comp_def intro!: map_cong)
  have "map digest messages = map fst ?wrappers"
    using message_of by (auto simp: messages_def)
  then have "distinct (map digest messages)"
    using ok by (simp add: cohort_ok_def distinct_map_filter)
  moreover have "set messages \<subseteq> observed ?ops ?key"
    using message_of by (auto simp: messages_def)
  moreover have distinct: "list_all (\<lambda>c. distinct (map fst c)) (map ?candidates messages)"
    by (simp add: list_all_iff candidates_distinct)
  note verdict = find_mismatch_iff [OF distinct, THEN iffD1, OF m [unfolded snds]]
  moreover have "length messages = sm_wrapper_count m"
    using verdict [THEN conjunct2, THEN conjunct2, THEN conjunct2, THEN arg_cong [of _ _ sm_wrapper_count]]
    by (simp only: schema_mismatch.select_convs length_map)
  moreover have "MIN_PROOF_WRAPPERS \<le> length messages"
    using verdict [THEN conjunct1] by simp
  moreover note verdict [THEN conjunct2, THEN conjunct1] verdict [THEN conjunct2, THEN conjunct2, THEN conjunct1]
  ultimately show ?thesis
    by blast
qed

theorem mismatches_are_proven_witness:
  "\<exists>messages. set messages \<subseteq> observed (sample_history @ [Observe sample_flow 1 0x1234 (sample_wrapper 77) 13 (Some 9)])
      (sample_flow, 1, 0x1234, 13, 9) \<and> length messages = 4"
proof -
  obtain v' where "sample_observation (sample_wrapper 77) =
      (Some \<lparr>sm_opcode = 0x1234, sm_configured_offset = 9, sm_observed_offset = 5, sm_wrapper_count = 4,
          sm_distinct_destinations = 4\<rparr>, v')"
    using sample_mismatch by (metis prod.collapse)
  from mismatches_are_proven [OF this] show ?thesis
    by auto
qed

text \<open>What the validator retains is bounded whatever it observes: at most
  \<^verbatim>\<open>_MAX_COHORTS\<close> cohorts, one per key, of at most \<^verbatim>\<open>_MAX_WRAPPERS_PER_COHORT\<close>
  fingerprints, and nothing of a closed connection.\<close>

theorem destination_memory_bounded:
  "let v = fst (run_destination digest ops) in
    cohort_count v \<le> MAX_COHORTS \<and> retained_wrapper_count v \<le> MAX_COHORTS * MAX_WRAPPERS_PER_COHORT \<and>
    distinct (map fst v) \<and> flow \<notin> fst ` fst ` set (close_destination_flow flow v)"
proof -
  let ?v = "fst (run_destination digest ops)"
  have v: "validator_ok digest ops ?v"
    by (rule run_destination_ok)
  have "sum_list (map (\<lambda>(_, c). length (dc_wrappers c)) w) \<le> length w * MAX_WRAPPERS_PER_COHORT"
    if "\<forall>entry \<in> set w. cohort_ok digest ops (fst entry) (snd entry)" for w
    using that by (induction w) (auto simp: cohort_ok_def)
  then have "retained_wrapper_count ?v \<le> length ?v * MAX_WRAPPERS_PER_COHORT"
    using v by (simp add: validator_ok_def retained_wrapper_count_def)
  also have "\<dots> \<le> MAX_COHORTS * MAX_WRAPPERS_PER_COHORT"
    using v by (simp add: validator_ok_def)
  finally show ?thesis
    using v by (auto simp: Let_def validator_ok_def cohort_count_def close_destination_flow_def)
qed

text \<open>How often a history reports a cohort.\<close>

definition reports_for :: "cohort_key \<Rightarrow> destination_op list \<Rightarrow> schema_mismatch option list \<Rightarrow> nat" where
  "reports_for key ops out = length (filter (\<lambda>(op, r). op_key op = Some key \<and> r \<noteq> None) (zip ops out))"

lemma reports_for_snoc:
  "length out = length ops \<Longrightarrow> reports_for key (ops @ [op]) (out @ [r]) =
     reports_for key ops out + (if op_key op = Some key \<and> r \<noteq> None then 1 else 0)"
  by (auto simp: reports_for_def)

lemma observe_cohort_reports:
  "observe_cohort opcode configured fingerprint candidates cohort = (r, cohort') \<Longrightarrow>
     dc_mismatch_reported cohort' = (dc_mismatch_reported cohort \<or> r \<noteq> None) \<and>
     (dc_mismatch_reported cohort \<longrightarrow> r = None)"
  by (auto simp: observe_cohort_def Let_def split: if_splits option.splits) metis

definition cohort_reported :: "cohort_key \<Rightarrow> destination_validator \<Rightarrow> bool" where
  "cohort_reported key v = (case map_of v key of None \<Rightarrow> False | Some c \<Rightarrow> dc_mismatch_reported c)"

text \<open>While no cohort is evicted and the connection stays open, the flag records the report.\<close>

lemma reports_recorded:
  assumes "card (set (List.map_filter op_key ops)) \<le> MAX_COHORTS" and "Close_Flow (fst key) \<notin> set ops"
    and "run_destination digest ops = (v, out)"
  shows "length out = length ops \<and> fst ` set v \<subseteq> set (List.map_filter op_key ops) \<and>
    reports_for key ops out = (if cohort_reported key v then 1 else 0)"
  using assms
proof (induction ops arbitrary: v out rule: rev_induct)
  case Nil
  then show ?case
    by (simp add: run_destination_def reports_for_def cohort_reported_def)
next
  case (snoc op ops)
  obtain v0 out0 where run0: "run_destination digest ops = (v0, out0)"
    by (meson surj_pair)
  have sub: "set (List.map_filter op_key ops) \<subseteq> set (List.map_filter op_key (ops @ [op]))"
    by (auto simp: map_filter_append)
  then have "card (set (List.map_filter op_key ops)) \<le> MAX_COHORTS"
    using snoc.prems(1) card_mono [OF _ sub] by simp
  then have IH: "length out0 = length ops" "fst ` set v0 \<subseteq> set (List.map_filter op_key ops)"
      "reports_for key ops out0 = (if cohort_reported key v0 then 1 else 0)"
    using snoc.IH [OF _ _ run0] snoc.prems(2) by auto
  have step: "destination_step digest op (v0, out0) = (v, out)"
    using snoc.prems(3) run0 by (simp add: run_destination_def)
  show ?case
  proof (cases op)
    case (Close_Flow flow)
    then have "flow \<noteq> fst key"
      using snoc.prems(2) by auto
    then have "map_of v key = map_of v0 key"
      using step Close_Flow by (auto simp: close_destination_flow_def map_of_filter_key)
    then have "cohort_reported key v = cohort_reported key v0"
      by (simp add: cohort_reported_def)
    moreover have "fst ` set v \<subseteq> fst ` set v0" and "out = out0 @ [None]"
      using step Close_Flow by (auto simp: close_destination_flow_def)
    ultimately show ?thesis
      using IH sub by (auto simp: reports_for_snoc)
  next
    case (Observe flow g opcode message first configured)
    obtain r where obs: "observe_destination digest flow g opcode message first configured v0 = (r, v)"
      and out: "out = out0 @ [r]"
      using step Observe by (auto split: prod.splits)
    from obs show ?thesis
    proof (cases rule: observe_destination_cases)
      case 1
      then show ?thesis
        using IH sub out Observe by (auto simp: reports_for_snoc)
    next
      case (2 c cohort cohort')
      define key' where "key' = (flow, g, opcode, first, c)"
      let ?v = "AList.delete key' v0 @ [(key', cohort')]"
      have dom: "fst ` set ?v \<subseteq> set (List.map_filter op_key (ops @ [op]))"
        using IH(2) sub 2(2) Observe by (auto simp: key'_def dict_simps map_filter_append map_filter_simps AList.delete_eq)
      have "distinct (map fst v0)"
        using run_destination_ok [of digest ops] run0 by (simp add: validator_ok_def)
      then have "distinct (map fst ?v)"
        by (auto simp: AList.delete_eq distinct_map_filter)
      then have "length ?v = card (fst ` set ?v)"
        by (metis distinct_card length_map list.set_map)
      also have "\<dots> \<le> MAX_COHORTS"
        using card_mono [OF _ dom] snoc.prems(1) by simp
      finally have v: "v = ?v"
        using 2(6) by (simp add: pop_oldest_id key'_def)
      show ?thesis
      proof (cases "key' = key")
        case True
        have "cohort_reported key v = dc_mismatch_reported cohort'"
          using True by (simp add: v map_of_append_delete cohort_reported_def del: map_of_append)
        moreover have "cohort_reported key v0 = dc_mismatch_reported cohort"
          using True by (simp add: 2(4) cohort_reported_def key'_def new_destination_cohort_def split: option.split)
        moreover have "op_key op = Some key"
          using 2(1,2) True Observe by (simp add: key'_def)
        ultimately show ?thesis
          using observe_cohort_reports [OF 2(5)] dom IH(1,3) out v by (simp add: reports_for_snoc)
      next
        case False
        then have "cohort_reported key v = cohort_reported key v0"
          by (simp add: v map_of_append_delete cohort_reported_def del: map_of_append)
        moreover have "op_key op \<noteq> Some key"
          using 2(1,2) False Observe by (simp add: key'_def)
        ultimately show ?thesis
          using dom IH(1,3) out v by (simp add: reports_for_snoc)
      qed
    qed
  qed
qed

text \<open>A stale column is reported once: in any history of at most
  \<^verbatim>\<open>_MAX_COHORTS\<close> different cohorts, no cohort whose connection stays open is
  reported more than once.\<close>

theorem mismatch_reported_once:
  assumes "card (set (List.map_filter op_key ops)) \<le> MAX_COHORTS" and "Close_Flow (fst key) \<notin> set ops"
  shows "reports_for key ops (snd (run_destination digest ops)) \<le> 1"
  using reports_recorded [OF assms, of digest "fst (run_destination digest ops)" "snd (run_destination digest ops)"]
  by simp

theorem mismatch_reported_once_witness:
  "reports_for (sample_flow, 1, 0x1234, 13, 9) sample_history (snd (run_destination (\<lambda>m. m) sample_history)) \<le> 1"
  by (rule mismatch_reported_once) code_simp+

end
