(* ===== verification/Raised_Errors.thy ===== *)
theory Raised_Errors
  imports Prelude
begin

text \<open>
  Callbacks that raise. A callback returns \<open>(Some reason, state)\<close> for an exception and
  \<open>(None, state)\<close> for a normal return; the exception propagates through the flow manager to
  the owner of the session, who does not use the manager again. The state the manager shares
  is therefore paired with the exception under way: once there is one, no callback runs.
\<close>

type_synonym 'a raising = "'a \<Rightarrow> string option \<times> 'a"

definition guard :: "'a raising \<Rightarrow> string option \<times> 'a \<Rightarrow> string option \<times> 'a" where
  "guard action s = (case fst s of Some reason \<Rightarrow> s | None \<Rightarrow> action (snd s))"

text \<open>First one action, then the other unless the first one raised.\<close>

definition and_then :: "'a raising \<Rightarrow> 'a raising \<Rightarrow> 'a raising" where
  "and_then first second s = (case first s of (Some reason, s') \<Rightarrow> (Some reason, s') | (None, s') \<Rightarrow> second s')"

lemma guard_keeps:
  assumes "P (snd s)" and "P (snd s) \<Longrightarrow> P (snd (action (snd s)))"
  shows "P (snd (guard action s))"
  using assms by (simp add: guard_def split: option.split)

lemma guard_raised [simp]: "fst s = Some reason \<Longrightarrow> guard action s = s"
  by (simp add: guard_def)

end
