(* ===== verification/Xp_Tracker.thy ===== *)
theory Xp_Tracker
  imports Raised_Errors Opcode_Profile Frame_Collector Flow_Manager
begin

text \<open>
  \<^verbatim>\<open>src/bdo_toolkit/xp/_tracker.py\<close>, \<^verbatim>\<open>xp/models.py\<close> and
  \<^verbatim>\<open>xp/replay.py\<close>: readings of a character's experience, their net change, and the
  conditions under which the tracker gives up its authority.

  An \<^verbatim>\<open>XPTrackingError\<close> is its reason. The callback \<^verbatim>\<open>on_reading\<close> is a
  parameter that may raise and may change the tracker, as the queue of the replay does. The
  message fields are read with the offsets of a layout that \<^verbatim>\<open>XPProfileLayout\<close> has
  accepted, which lie inside the message.
\<close>

section \<open>Readings\<close>

record xp_reading =
  xr_level :: int
  xr_current_xp :: int
  xr_required_xp :: int
  xr_delta_xp :: "int option"
  xr_net_xp :: int
  xr_observed_at :: pyfloat
  xr_flow :: flow_key
  xr_connection_epoch :: int

datatype xp_state = Waiting | Tracking | Invalid

record xp_status =
  xst_status :: xp_state
  xst_reading :: "xp_reading option"
  xst_reason :: "string option"

record xp_tracker =
  xt_reading :: "xp_reading option"
  xt_bound :: "(flow_key \<times> int) option"
  xt_reason :: "string option"

definition new_xp_tracker :: xp_tracker where
  "new_xp_tracker = \<lparr>xt_reading = None, xt_bound = None, xt_reason = None\<rparr>"

definition xp_snapshot :: "xp_tracker \<Rightarrow> xp_status" where
  "xp_snapshot t =
     \<lparr>xst_status = (if xt_reason t \<noteq> None then Invalid else if xt_reading t \<noteq> None then Tracking else Waiting),
      xst_reading = xt_reading t, xst_reason = xt_reason t\<rparr>"

section \<open>The tracker\<close>

type_synonym 'w xp_publish = "xp_reading \<Rightarrow> (xp_tracker \<times> 'w) raising"

definition xp_invalidate :: "string \<Rightarrow> (xp_tracker \<times> 'w) raising" where
  "xp_invalidate reason s =
     (let r = (case xt_reason (fst s) of Some earlier \<Rightarrow> earlier | None \<Rightarrow> reason)
      in (Some r, ((fst s)\<lparr>xt_reason := Some r, xt_reading := None\<rparr>, snd s)))"

definition XP_SHAPE :: string where
  "XP_SHAPE = ''XP message shape changed; fetch/recalibrate this patch'' @ [CHR 0x27] @ ''s profile''"

definition XP_FIELDS :: string where
  "XP_FIELDS = ''XP fields failed validation; review the profile''"

definition XP_EPOCH :: string where
  "XP_EPOCH = ''XP connection/epoch changed; restart after reconnect or character switch''"

definition XP_JUMP :: string where
  "XP_JUMP = ''Unexplained XP level/requirement change; restart tracking''"

definition XP_CLOSED :: string where
  "XP_CLOSED = ''XP connection closed; restart after reconnect or character switch''"

definition XP_GAP :: string where
  "XP_GAP = ''TCP gap detected; XP total is incomplete''"

definition XP_EVICTED :: string where
  "XP_EVICTED = ''Capture flow limit reached; XP total is incomplete''"

definition XP_REPLAY_BOUND :: string where
  "XP_REPLAY_BOUND = ''XP replay event bound exceeded''"

definition xp_uint :: "bytes \<Rightarrow> int \<Rightarrow> int \<Rightarrow> int" where
  "xp_uint message offset width = from_le (py_slice message offset (offset + width))"

text \<open>The change from one reading to the next, when it is explained.\<close>

definition xp_delta :: "xp_reading \<Rightarrow> int \<Rightarrow> int \<Rightarrow> int \<Rightarrow> int option" where
  "xp_delta old level current required =
     (if level = xr_level old \<and> required = xr_required_xp old then Some (current - xr_current_xp old)
      else if level = xr_level old + 1 then Some (xr_required_xp old - xr_current_xp old + current)
      else None)"

text \<open>The part of \<^verbatim>\<open>observe\<close> behind the validation of shape and fields.\<close>

definition xp_accept ::
    "'w xp_publish \<Rightarrow> packet_context \<Rightarrow> int \<Rightarrow> int \<Rightarrow> int \<Rightarrow> (xp_tracker \<times> 'w) raising" where
  "xp_accept publish ctx level current required s =
     (let connection = (ctx_flow ctx, ctx_flow_generation ctx); t = fst s in
      if xt_bound t \<noteq> None \<and> xt_bound t \<noteq> Some connection then xp_invalidate XP_EPOCH s
      else
        let t1 = t\<lparr>xt_bound := Some connection\<rparr>;
            change = (case xt_reading t of
                        None \<Rightarrow> Some (None, 0)
                      | Some old \<Rightarrow> map_option (\<lambda>delta. (Some delta, xr_net_xp old + delta))
                                     (xp_delta old level current required))
        in case change of
             None \<Rightarrow> xp_invalidate XP_JUMP (t1, snd s)
           | Some (delta, net) \<Rightarrow>
               let reading = \<lparr>xr_level = level, xr_current_xp = current, xr_required_xp = required,
                              xr_delta_xp = delta, xr_net_xp = net, xr_observed_at = ctx_timestamp ctx,
                              xr_flow = ctx_flow ctx, xr_connection_epoch = ctx_flow_generation ctx\<rparr>;
                   t2 = t1\<lparr>xt_reading := Some reading\<rparr>;
                   changed = (case xt_reading t of
                                None \<Rightarrow> True
                              | Some old \<Rightarrow> (xr_level old, xr_current_xp old, xr_required_xp old)
                                             \<noteq> (level, current, required))
               in if changed then publish reading (t2, snd s) else (None, (t2, snd s)))"

definition xp_observe :: "xp_layout \<Rightarrow> 'w xp_publish \<Rightarrow> bdo_frame \<Rightarrow> (xp_tracker \<times> 'w) raising" where
  "xp_observe layout publish frame s =
     (case xt_reason (fst s) of
        Some reason \<Rightarrow> (Some reason, s)
      | None \<Rightarrow>
          let message = fr_message frame in
          if frame_opcode frame \<noteq> xp_opcode layout then (None, s)
          else if frame_flag frame \<noteq> Some (xp_flag layout) \<or> frame_length frame \<noteq> xp_message_length layout \<or>
                  int (length message) \<noteq> xp_message_length layout
          then xp_invalidate XP_SHAPE s
          else
            let level = xp_uint message (xp_level_offset layout) 1;
                current = xp_uint message (xp_current_offset layout) 8;
                required = xp_uint message (xp_required_offset layout) 8
            in if \<not> (1 \<le> level \<and> level \<le> 75) \<or> required = 0 \<or> current \<ge> required \<or>
                  \<not> isfinite (ctx_timestamp (fr_context frame))
               then xp_invalidate XP_FIELDS s
               else xp_accept publish (fr_context frame) level current required s)"

definition xp_close_flow :: "flow_key \<Rightarrow> (xp_tracker \<times> 'w) raising" where
  "xp_close_flow flow s =
     (case xt_bound (fst s) of
        Some bound \<Rightarrow> if fst bound = flow then xp_invalidate XP_CLOSED s else (None, s)
      | None \<Rightarrow> (None, s))"

section \<open>The flow manager of the tracker\<close>

record 'w xp_session =
  xs_tracker :: xp_tracker
  xs_finishing :: bool
  xs_evictions :: int
  xs_app :: 'w

definition on_tracker :: "(xp_tracker \<times> 'w) raising \<Rightarrow> 'w xp_session raising" where
  "on_tracker action x =
     (case action (xs_tracker x, xs_app x) of
        (raised, t, w) \<Rightarrow> (raised, x\<lparr>xs_tracker := t, xs_app := w\<rparr>))"

definition xp_closed :: "flow_key \<Rightarrow> 'w xp_session raising" where
  "xp_closed flow x = (if \<not> xs_finishing x then on_tracker (xp_close_flow flow) x else (None, x))"

definition xp_evicted :: "'w xp_session raising" where
  "xp_evicted x = on_tracker (xp_invalidate XP_EVICTED) (x\<lparr>xs_evictions := xs_evictions x + 1\<rparr>)"

type_synonym 'w xp_world = "string option \<times> 'w xp_session"

definition xp_manager_config ::
    "xp_layout \<Rightarrow> 'w xp_publish \<Rightarrow> int set \<Rightarrow> bool \<Rightarrow> (frame_collector, 'w xp_world) manager_config" where
  "xp_manager_config layout publish ports live =
     \<lparr>mc_server_ports = ports,
      mc_scanner = frame_scanner {} (\<lambda>frame. guard (on_tracker (xp_observe layout publish frame))),
      mc_scanner_factory = (\<lambda>w. (new_frame_collector, w)),
      mc_max_flows = Some 64,
      mc_on_flow_eviction = Some (guard xp_evicted),
      mc_on_flow_close = Some (\<lambda>flow. guard (xp_closed flow)),
      mc_on_flow_reset = Some (\<lambda>flow generation resume. guard (on_tracker (xp_invalidate XP_GAP))),
      mc_idle_timeout = None,
      mc_track_flow_generations = True,
      mc_max_pending_segments = 2048,
      mc_max_pending_bytes = Some (8 * 1024 * 1024),
      mc_defer_gap_timeouts = live\<rparr>"

type_synonym 'w xp_manager = "(frame_collector, 'w xp_world) flow_manager"

definition new_xp_session :: "'w \<Rightarrow> 'w xp_session" where
  "new_xp_session w = \<lparr>xs_tracker = new_xp_tracker, xs_finishing = False, xs_evictions = 0, xs_app = w\<rparr>"

definition xp_manager_init ::
    "xp_layout \<Rightarrow> 'w xp_publish \<Rightarrow> int set \<Rightarrow> bool \<Rightarrow> 'w \<Rightarrow> manager_error + 'w xp_manager" where
  "xp_manager_init layout publish ports live w =
     flow_manager_init (xp_manager_config layout publish ports live) (None, new_xp_session w)"

definition set_finishing :: "bool \<Rightarrow> 'w xp_manager \<Rightarrow> 'w xp_manager" where
  "set_finishing b m = m\<lparr>fm_world := (fst (fm_world m), (snd (fm_world m))\<lparr>xs_finishing := b\<rparr>)\<rparr>"

definition xp_finish :: "xp_layout \<Rightarrow> 'w xp_publish \<Rightarrow> int set \<Rightarrow> bool \<Rightarrow> 'w xp_manager \<Rightarrow> 'w xp_manager" where
  "xp_finish layout publish ports live m =
     set_finishing False (manager_finish (xp_manager_config layout publish ports live) (set_finishing True m))"

section \<open>Replay of a recording\<close>

text \<open>
  A recording is the list of its packets; \<open>None\<close> is a packet the handler ignores. The queue
  of readings is the application's state.
\<close>

record xp_replay =
  rp_manager :: "xp_reading list xp_manager"
  rp_packets :: "tcp_packet option list"
  rp_processed :: int
  rp_closed :: bool
  rp_finished :: bool
  rp_error :: "string option"

definition xp_enqueue :: "xp_reading list xp_publish" where
  "xp_enqueue reading s =
     (if length (snd s) \<ge> 4096 then xp_invalidate XP_REPLAY_BOUND s
      else (None, (fst s, snd s @ [reading])))"

abbreviation rp_world :: "xp_replay \<Rightarrow> xp_reading list xp_world" where
  "rp_world r \<equiv> fm_world (rp_manager r)"

abbreviation rp_pending :: "xp_replay \<Rightarrow> xp_reading list" where
  "rp_pending r \<equiv> xs_app (snd (rp_world r))"

definition set_pending :: "xp_reading list \<Rightarrow> xp_replay \<Rightarrow> xp_replay" where
  "set_pending readings r =
     r\<lparr>rp_manager := (rp_manager r)\<lparr>fm_world := (fst (rp_world r), (snd (rp_world r))\<lparr>xs_app := readings\<rparr>)\<rparr>\<rparr>"

definition new_xp_replay :: "xp_layout \<Rightarrow> int set \<Rightarrow> tcp_packet option list \<Rightarrow> manager_error + xp_replay" where
  "new_xp_replay layout ports packets =
     (case xp_manager_init layout xp_enqueue ports False [] of
        Inl e \<Rightarrow> Inl e
      | Inr m \<Rightarrow> Inr \<lparr>rp_manager = m, rp_packets = packets, rp_processed = 0, rp_closed = False,
                      rp_finished = False, rp_error = None\<rparr>)"

definition xp_replay_close :: "xp_replay \<Rightarrow> xp_replay" where
  "xp_replay_close r = (if rp_closed r then r else set_pending [] (r\<lparr>rp_closed := True\<rparr>))"

definition xp_replay_status :: "xp_replay \<Rightarrow> xp_status" where
  "xp_replay_status r =
     (let status = xp_snapshot (xs_tracker (snd (rp_world r)))
      in case rp_error r of
           None \<Rightarrow> status
         | Some e \<Rightarrow> \<lparr>xst_status = Invalid, xst_reading = None, xst_reason = Some e\<rparr>)"

datatype replay_result = Reading xp_reading | Stop_Iteration | Raised string

text \<open>One turn of \<^verbatim>\<open>next(self._packets)\<close>: a packet, or the end of the recording.\<close>

definition pull_packet :: "xp_layout \<Rightarrow> int set \<Rightarrow> xp_replay \<Rightarrow> xp_replay" where
  "pull_packet layout ports r =
     (let cfg = xp_manager_config layout xp_enqueue ports False in
      case rp_packets r of
        [] \<Rightarrow> r\<lparr>rp_manager := xp_finish layout xp_enqueue ports False (rp_manager r), rp_finished := True\<rparr>
      | p # packets \<Rightarrow>
          r\<lparr>rp_manager := (case p of None \<Rightarrow> rp_manager r | Some q \<Rightarrow> process_tcp_segment cfg q (rp_manager r)),
            rp_packets := packets, rp_processed := rp_processed r + 1\<rparr>)"

text \<open>\<^verbatim>\<open>except BaseException\<close>: remember the error, close, raise it again.\<close>

definition replay_failed :: "string \<Rightarrow> xp_replay \<Rightarrow> replay_result \<times> xp_replay" where
  "replay_failed reason r = (Raised reason, xp_replay_close (r\<lparr>rp_error := Some reason\<rparr>))"

function replay_pull :: "xp_layout \<Rightarrow> int set \<Rightarrow> xp_replay \<Rightarrow> replay_result \<times> xp_replay" where
  "replay_pull layout ports r =
     (case rp_pending r of
        reading # readings \<Rightarrow> (Reading reading, set_pending readings r)
      | [] \<Rightarrow>
          if rp_finished r then (Stop_Iteration, xp_replay_close r)
          else let r' = pull_packet layout ports r in
            case fst (rp_world r') of
              Some reason \<Rightarrow> replay_failed reason (r'\<lparr>rp_finished := rp_finished r, rp_processed := rp_processed r\<rparr>)
            | None \<Rightarrow> replay_pull layout ports r')"
  by pat_completeness auto
termination
  by (relation "measure (\<lambda>(layout, ports, r). if rp_finished r then 0 else Suc (length (rp_packets r)))")
    (auto simp: pull_packet_def Let_def split: list.splits)

declare replay_pull.simps [simp del]

definition xp_replay_next :: "xp_layout \<Rightarrow> int set \<Rightarrow> xp_replay \<Rightarrow> replay_result \<times> xp_replay" where
  "xp_replay_next layout ports r = (if rp_closed r then (Stop_Iteration, r) else replay_pull layout ports r)"

end
