(* ===== verification/Xp_Facts.thy ===== *)
theory Xp_Facts
  imports Xp_Tracker
begin

text \<open>
  What a sequence of messages does to a tracker that records its readings: the net change it
  shows against the change of the absolute experience, the levels it passes through and the
  readings it publishes.
\<close>

section \<open>Observing a sequence of messages\<close>

definition record_reading :: "xp_reading list xp_publish" where
  "record_reading reading s = (None, (fst s, snd s @ [reading]))"

type_synonym xp_record = "string option \<times> (xp_tracker \<times> xp_reading list)"

definition observe_all :: "xp_layout \<Rightarrow> bdo_frame list \<Rightarrow> xp_record" where
  "observe_all layout frames =
     fold (\<lambda>frame. guard (xp_observe layout record_reading frame)) frames (None, (new_xp_tracker, []))"

lemma observe_all_snoc:
  "observe_all layout (frames @ [frame]) = guard (xp_observe layout record_reading frame) (observe_all layout frames)"
  by (simp add: observe_all_def)

section \<open>The messages of the layout\<close>

definition xp_frames :: "xp_layout \<Rightarrow> bdo_frame list \<Rightarrow> bdo_frame list" where
  "xp_frames layout = filter (\<lambda>frame. frame_opcode frame = xp_opcode layout)"

definition level_in :: "xp_layout \<Rightarrow> bdo_frame \<Rightarrow> int" where
  "level_in layout frame = xp_uint (fr_message frame) (xp_level_offset layout) 1"

definition current_in :: "xp_layout \<Rightarrow> bdo_frame \<Rightarrow> int" where
  "current_in layout frame = xp_uint (fr_message frame) (xp_current_offset layout) 8"

definition required_in :: "xp_layout \<Rightarrow> bdo_frame \<Rightarrow> int" where
  "required_in layout frame = xp_uint (fr_message frame) (xp_required_offset layout) 8"

definition connection_in :: "bdo_frame \<Rightarrow> flow_key \<times> int" where
  "connection_in frame = (ctx_flow (fr_context frame), ctx_flow_generation (fr_context frame))"

text \<open>The requirement of a level, as the first message at that level states it.\<close>

definition required_of :: "xp_layout \<Rightarrow> bdo_frame list \<Rightarrow> int \<Rightarrow> int" where
  "required_of layout frames level =
     (case find (\<lambda>frame. level_in layout frame = level) frames of None \<Rightarrow> 0 | Some frame \<Rightarrow> required_in layout frame)"

text \<open>The experience gained between two messages: whole levels, and what lies inside a level.\<close>

definition experience_between :: "xp_layout \<Rightarrow> bdo_frame list \<Rightarrow> bdo_frame \<Rightarrow> bdo_frame \<Rightarrow> int" where
  "experience_between layout frames start stop =
     (\<Sum>level \<leftarrow> [level_in layout start .. level_in layout stop - 1]. required_of layout frames level) +
     current_in layout stop - current_in layout start"

definition frame_valid :: "xp_layout \<Rightarrow> bdo_frame \<Rightarrow> bool" where
  "frame_valid layout frame \<longleftrightarrow> 1 \<le> level_in layout frame \<and> level_in layout frame \<le> 75 \<and>
     current_in layout frame < required_in layout frame \<and> isfinite (ctx_timestamp (fr_context frame))"

lemma required_of_append:
  "required_of layout (frames @ [frame]) level =
     (if level \<in> level_in layout ` set frames then required_of layout frames level
      else if level_in layout frame = level then required_in layout frame else 0)"
proof -
  have "find P (xs @ [y]) = (case find P xs of None \<Rightarrow> if P y then Some y else None | Some x \<Rightarrow> Some x)"
    for P and xs :: "bdo_frame list" and y
    by (induction xs) auto
  moreover have "find (\<lambda>frame. level_in layout frame = level) frames = None \<longleftrightarrow> level \<notin> level_in layout ` set frames"
    by (auto simp: find_None_iff)
  ultimately show ?thesis
    by (auto simp: required_of_def split: option.split)
qed

section \<open>The record of a tracker that has not failed\<close>

definition reading_of :: "xp_layout \<Rightarrow> bdo_frame \<Rightarrow> int option \<Rightarrow> int \<Rightarrow> xp_reading" where
  "reading_of layout frame delta net =
     \<lparr>xr_level = level_in layout frame, xr_current_xp = current_in layout frame,
      xr_required_xp = required_in layout frame, xr_delta_xp = delta, xr_net_xp = net,
      xr_observed_at = ctx_timestamp (fr_context frame), xr_flow = fst (connection_in frame),
      xr_connection_epoch = snd (connection_in frame)\<rparr>"

definition recorded_ok :: "xp_layout \<Rightarrow> bdo_frame list \<Rightarrow> xp_tracker \<Rightarrow> xp_reading list \<Rightarrow> bool" where
  "recorded_ok layout xs t out \<longleftrightarrow>
     xt_reason t = None \<and>
     (if xs = [] then xt_reading t = None \<and> xt_bound t = None \<and> out = []
      else list_all (frame_valid layout) xs \<and> list_all (\<lambda>x. connection_in x = connection_in (hd xs)) xs \<and>
        xt_bound t = Some (connection_in (hd xs)) \<and>
        level_in layout ` set xs = {level_in layout (hd xs) .. level_in layout (last xs)} \<and>
        list_all (\<lambda>x. required_in layout x = required_of layout xs (level_in layout x)) xs \<and>
        (\<exists>delta. xt_reading t = Some (reading_of layout (last xs) delta
           (experience_between layout xs (hd xs) (last xs)))) \<and>
        out \<noteq> [] \<and> xr_delta_xp (hd out) = None \<and> list_all (\<lambda>r. xr_delta_xp r \<noteq> None) (tl out) \<and>
        sum_list (map (\<lambda>r. the (xr_delta_xp r)) (tl out)) = experience_between layout xs (hd xs) (last xs))"

lemma first_message:
  assumes "frame_valid layout frame"
  shows "recorded_ok layout [frame] \<lparr>xt_reading = Some (reading_of layout frame None 0),
      xt_bound = Some (connection_in frame), xt_reason = None\<rparr> [reading_of layout frame None 0]"
  using assms
  by (auto simp: recorded_ok_def experience_between_def required_of_def reading_of_def)

text \<open>A message on the same level, and one on the next.\<close>

lemma same_level:
  assumes xs: "xs \<noteq> []" and levels: "level_in layout ` set xs = {level_in layout (hd xs) .. level_in layout (last xs)}"
    and level: "level_in layout frame = level_in layout (last xs)"
  shows "required_of layout (xs @ [frame]) l = required_of layout xs l \<or> l \<notin> level_in layout ` set xs"
    and "experience_between layout (xs @ [frame]) (hd xs) frame =
      experience_between layout xs (hd xs) (last xs) + current_in layout frame - current_in layout (last xs)"
    and "level_in layout ` set (xs @ [frame]) = {level_in layout (hd xs) .. level_in layout frame}"
proof -
  show 1: "required_of layout (xs @ [frame]) l = required_of layout xs l \<or> l \<notin> level_in layout ` set xs" for l
    by (simp add: required_of_append)
  have "map (required_of layout (xs @ [frame])) [level_in layout (hd xs) .. level_in layout (last xs) - 1] =
      map (required_of layout xs) [level_in layout (hd xs) .. level_in layout (last xs) - 1]"
    using levels by (intro map_cong) (auto simp: required_of_append)
  then show "experience_between layout (xs @ [frame]) (hd xs) frame =
      experience_between layout xs (hd xs) (last xs) + current_in layout frame - current_in layout (last xs)"
    unfolding experience_between_def level by (simp del: map_eq_conv)
  have "level_in layout (last xs) \<in> level_in layout ` set xs"
    using xs by simp
  then show "level_in layout ` set (xs @ [frame]) = {level_in layout (hd xs) .. level_in layout frame}"
    using levels level by auto
qed

lemma next_level:
  assumes xs: "xs \<noteq> []" and levels: "level_in layout ` set xs = {level_in layout (hd xs) .. level_in layout (last xs)}"
    and level: "level_in layout frame = level_in layout (last xs) + 1"
    and required: "required_in layout (last xs) = required_of layout xs (level_in layout (last xs))"
  shows "experience_between layout (xs @ [frame]) (hd xs) frame =
      experience_between layout xs (hd xs) (last xs) +
        (required_in layout (last xs) - current_in layout (last xs) + current_in layout frame)"
    and "level_in layout ` set (xs @ [frame]) = {level_in layout (hd xs) .. level_in layout frame}"
proof -
  have last: "level_in layout (last xs) \<in> level_in layout ` set xs"
    using xs by simp
  then have le: "level_in layout (hd xs) \<le> level_in layout (last xs)"
    using levels by simp
  have "map (required_of layout (xs @ [frame])) [level_in layout (hd xs) .. level_in layout (last xs)] =
      map (required_of layout xs) [level_in layout (hd xs) .. level_in layout (last xs)]"
    using levels by (intro map_cong) (auto simp: required_of_append)
  then have "(\<Sum>l \<leftarrow> [level_in layout (hd xs) .. level_in layout (last xs)]. required_of layout (xs @ [frame]) l) =
      (\<Sum>l \<leftarrow> [level_in layout (hd xs) .. level_in layout (last xs) - 1]. required_of layout xs l) +
        required_in layout (last xs)"
    using upto_rec2 [OF le] required by (simp del: map_eq_conv)
  then show "experience_between layout (xs @ [frame]) (hd xs) frame =
      experience_between layout xs (hd xs) (last xs) +
        (required_in layout (last xs) - current_in layout (last xs) + current_in layout frame)"
    unfolding experience_between_def level by simp
  show "level_in layout ` set (xs @ [frame]) = {level_in layout (hd xs) .. level_in layout frame}"
    using levels level le by auto
qed

lemma delta_cases:
  assumes xs: "xs \<noteq> []" and levels: "level_in layout ` set xs = {level_in layout (hd xs) .. level_in layout (last xs)}"
    and req: "list_all (\<lambda>x. required_in layout x = required_of layout xs (level_in layout x)) xs"
    and d: "xp_delta (reading_of layout (last xs) delta net) (level_in layout frame) (current_in layout frame)
      (required_in layout frame) = Some change"
  shows "experience_between layout (xs @ [frame]) (hd xs) frame = experience_between layout xs (hd xs) (last xs) + change"
    and "level_in layout ` set (xs @ [frame]) = {level_in layout (hd xs) .. level_in layout frame}"
    and "list_all (\<lambda>x. required_in layout x = required_of layout (xs @ [frame]) (level_in layout x)) (xs @ [frame])"
proof -
  have last_req: "required_in layout (last xs) = required_of layout xs (level_in layout (last xs))"
    using req xs by (simp add: list_all_iff)
  have last: "level_in layout (last xs) \<in> level_in layout ` set xs"
    using xs by simp
  from d consider
      (same) "level_in layout frame = level_in layout (last xs)" "required_in layout frame = required_in layout (last xs)"
        "change = current_in layout frame - current_in layout (last xs)"
    | (up) "level_in layout frame = level_in layout (last xs) + 1"
        "change = required_in layout (last xs) - current_in layout (last xs) + current_in layout frame"
    by (auto simp: xp_delta_def reading_of_def split: if_splits)
  note cases = this
  from cases show "experience_between layout (xs @ [frame]) (hd xs) frame = experience_between layout xs (hd xs) (last xs) + change"
    by cases (simp_all add: same_level(2) [OF xs levels] next_level(1) [OF xs levels _ last_req])
  from cases show "level_in layout ` set (xs @ [frame]) = {level_in layout (hd xs) .. level_in layout frame}"
    by cases (use same_level(3) [OF xs levels] next_level(2) [OF xs levels _ last_req] in simp_all)
  have "required_in layout frame = required_of layout (xs @ [frame]) (level_in layout frame)"
    using cases
  proof cases
    case same
    then show ?thesis
      using last last_req by (simp add: required_of_append)
  next
    case up
    then have "level_in layout frame \<notin> level_in layout ` set xs"
      using levels by simp
    then show ?thesis
      by (simp add: required_of_append)
  qed
  then show "list_all (\<lambda>x. required_in layout x = required_of layout (xs @ [frame]) (level_in layout x)) (xs @ [frame])"
    using req by (auto simp: list_all_iff required_of_append)
qed

text \<open>What one message of the layout does to the record.\<close>

lemma recorded_snoc:
  assumes ok: "recorded_ok layout xs t out" and opcode: "frame_opcode frame = xp_opcode layout"
    and step: "xp_observe layout record_reading frame (t, out) = (None, t', out')"
  shows "recorded_ok layout (xs @ [frame]) t' out'"
proof -
  let ?l = "level_in layout frame" and ?c = "current_in layout frame" and ?r = "required_in layout frame"
  have reason: "xt_reason t = None"
    using ok by (simp add: recorded_ok_def)
  have "xp_invalidate r s \<noteq> (None, s')" for r and s s' :: "xp_tracker \<times> xp_reading list"
    by (simp add: xp_invalidate_def Let_def)
  then have valid: "frame_valid layout frame"
    and accept: "xp_accept record_reading (fr_context frame) ?l ?c ?r (t, out) = (None, t', out')"
    using step reason opcode
    by (auto simp: xp_observe_def Let_def frame_valid_def level_in_def current_in_def required_in_def split: if_splits)
  show ?thesis
  proof (cases "xs = []")
    case True
    then have "t = new_xp_tracker" "out = []"
      using ok by (auto simp: recorded_ok_def new_xp_tracker_def)
    then have "t' = \<lparr>xt_reading = Some (reading_of layout frame None 0), xt_bound = Some (connection_in frame),
        xt_reason = None\<rparr>" "out' = [reading_of layout frame None 0]"
      using accept
      by (auto simp: xp_accept_def new_xp_tracker_def Let_def record_reading_def reading_of_def connection_in_def)
    then show ?thesis
      using first_message [OF valid] True by simp
  next
    case False
    let ?e = "experience_between layout xs (hd xs) (last xs)"
    obtain delta where old: "xt_reading t = Some (reading_of layout (last xs) delta ?e)"
      and bound: "xt_bound t = Some (connection_in (hd xs))"
      and all: "list_all (frame_valid layout) xs" "list_all (\<lambda>x. connection_in x = connection_in (hd xs)) xs"
      and levels: "level_in layout ` set xs = {level_in layout (hd xs) .. level_in layout (last xs)}"
      and req: "list_all (\<lambda>x. required_in layout x = required_of layout xs (level_in layout x)) xs"
      and out: "out \<noteq> []" "xr_delta_xp (hd out) = None" "list_all (\<lambda>r. xr_delta_xp r \<noteq> None) (tl out)"
        "sum_list (map (\<lambda>r. the (xr_delta_xp r)) (tl out)) = ?e"
      using ok False by (auto simp: recorded_ok_def)
    have same: "connection_in frame = connection_in (hd xs)"
      using accept bound by (auto simp: xp_accept_def Let_def connection_in_def xp_invalidate_def split: if_splits)
    define d where "d = xp_delta (reading_of layout (last xs) delta ?e) ?l ?c ?r"
    obtain change where d: "d = Some change"
      using accept bound same old
      by (cases d) (auto simp: xp_accept_def Let_def connection_in_def xp_invalidate_def d_def)
    have e: "experience_between layout (xs @ [frame]) (hd xs) frame = ?e + change"
      and levels': "level_in layout ` set (xs @ [frame]) = {level_in layout (hd xs) .. ?l}"
      and req': "list_all (\<lambda>x. required_in layout x = required_of layout (xs @ [frame]) (level_in layout x)) (xs @ [frame])"
      using d delta_cases [OF False levels req, of delta ?e frame change] by (simp_all add: d_def)
    let ?reading = "reading_of layout frame (Some change) (?e + change)"
    let ?old = "reading_of layout (last xs) delta ?e"
    have "xp_accept record_reading (fr_context frame) ?l ?c ?r (t, out) =
        (None, t\<lparr>xt_bound := Some (connection_in frame), xt_reading := Some ?reading\<rparr>,
         if (xr_level ?old, xr_current_xp ?old, xr_required_xp ?old) \<noteq> (?l, ?c, ?r) then out @ [?reading] else out)"
      using bound same old d [unfolded d_def]
      by (simp add: xp_accept_def Let_def record_reading_def connection_in_def reading_of_def)
    then have t': "xt_bound t' = Some (connection_in frame)" "xt_reading t' = Some ?reading" "xt_reason t' = None"
      and out': "out' = out @ [?reading] \<or> out' = out \<and> (xr_level ?old, xr_current_xp ?old, xr_required_xp ?old) = (?l, ?c, ?r)"
      using accept reason by (auto split: if_splits)
    have "(xr_level ?old, xr_current_xp ?old, xr_required_xp ?old) = (?l, ?c, ?r) \<Longrightarrow> change = 0"
      using d by (simp add: d_def xp_delta_def)
    with out' have out': "out' = out @ [?reading] \<or> out' = out \<and> change = 0"
      by blast
    have "out' \<noteq> [] \<and> xr_delta_xp (hd out') = None \<and> list_all (\<lambda>r. xr_delta_xp r \<noteq> None) (tl out') \<and>
        sum_list (map (\<lambda>r. the (xr_delta_xp r)) (tl out')) = ?e + change"
      using out out' by (auto simp: reading_of_def)
    then show ?thesis
      unfolding recorded_ok_def
      using False reason all same valid levels' req' e t' by (simp add: exI [of _ "Some change"])
  qed
qed

text \<open>Messages of other opcodes change nothing, and a failure is final.\<close>

lemma observe_failed:
  assumes "xp_observe layout record_reading frame (t, out) = (Some reason, t', out')" and "xt_reason t = None"
  shows "xt_reason t' = Some reason \<and> xt_reading t' = None"
  using assms
  by (auto simp: xp_observe_def xp_accept_def xp_invalidate_def record_reading_def Let_def split: if_splits option.splits)

lemma observe_all_recorded:
  "case observe_all layout frames of
     (None, t, out) \<Rightarrow> recorded_ok layout (xp_frames layout frames) t out
   | (Some reason, t, out) \<Rightarrow> xt_reason t = Some reason \<and> xt_reading t = None"
proof (induction frames rule: rev_induct)
  case Nil
  then show ?case
    by (simp add: observe_all_def recorded_ok_def xp_frames_def new_xp_tracker_def)
next
  case (snoc frame frames)
  obtain e t out where o: "observe_all layout frames = (e, t, out)"
    by (metis prod_cases3)
  show ?case
  proof (cases e)
    case (Some reason)
    then show ?thesis
      using snoc o by (simp add: observe_all_snoc)
  next
    case None
    then have ok: "recorded_ok layout (xp_frames layout frames) t out"
      using snoc o by simp
    then have reason: "xt_reason t = None"
      by (simp add: recorded_ok_def)
    obtain e' t' out' where s: "xp_observe layout record_reading frame (t, out) = (e', t', out')"
      by (metis prod_cases3)
    have "observe_all layout (frames @ [frame]) = (e', t', out')"
      using o s None by (simp add: observe_all_snoc guard_def)
    moreover have "recorded_ok layout (xp_frames layout (frames @ [frame])) t' out'" if "e' = None"
    proof (cases "frame_opcode frame = xp_opcode layout")
      case True
      then show ?thesis
        using recorded_snoc [OF ok True] s that by (simp add: xp_frames_def)
    next
      case False
      then show ?thesis
        using ok s reason that by (simp add: xp_frames_def xp_observe_def Let_def)
    qed
    ultimately show ?thesis
      using observe_failed [OF _ reason] s by (cases e') auto
  qed
qed

end
