(* ===== verification/Framed_World.thy ===== *)
theory Framed_World
  imports Stream_World Frame_Delivery
begin

text \<open>
  Consumers of generic frames behind a flow manager. \<open>framed_world\<close> is their interface: the
  manager gives every flow a frame collector, and the consumer keeps a predicate on its
  state whenever it is handed a frame cut from a connection's stream, or told of a flow that
  was closed, evicted or reset.
\<close>

definition collector_ok :: "streams \<Rightarrow> flow_key \<times> int \<Rightarrow> int option \<Rightarrow> frame_collector \<Rightarrow> bool" where
  "collector_ok S key ns fc \<longleftrightarrow> collector_inv (\<lambda>_. True) (S key) ns (fc, ())"

text \<open>A whole message of the stream of the connection it names.\<close>

definition cut_from :: "streams \<Rightarrow> bdo_frame \<Rightarrow> bool" where
  "cut_from S frame \<longleftrightarrow> frame_ok (connection (fr_context frame)) (S (connection (fr_context frame))) frame"

locale framed_world =
  fixes cfg :: "(frame_collector, 'w) manager_config" and known :: "int set"
    and callback :: "bdo_frame \<Rightarrow> 'w \<Rightarrow> 'w" and S :: streams and W :: "'w \<Rightarrow> bool"
  assumes scanner: "mc_scanner cfg = frame_scanner known callback"
    and new_scanner: "mc_scanner_factory cfg = (\<lambda>w. (new_frame_collector, w))"
    and W_frame: "W w \<Longrightarrow> frame_ok key (S key) frame \<Longrightarrow> W (callback frame w)"
    and W_reset: "mc_on_flow_reset cfg = Some report \<Longrightarrow> W w \<Longrightarrow> W (report k g q w)"
    and W_closed: "mc_on_flow_close cfg = Some close \<Longrightarrow> W w \<Longrightarrow> W (close k w)"
    and W_evicted: "mc_on_flow_eviction cfg = Some evict \<Longrightarrow> W w \<Longrightarrow> W (evict w)"

context framed_world begin

lemma client: "frame_client callback key (S key) W"
  by (rule frame_client.intro) (rule W_frame)

lemma any_frame_client: "frame_client callback key (S key) (\<lambda>_. True)"
  by (rule frame_client.intro) simp

lemma collector_parts: "collector_inv P (S key) = (\<lambda>ns x. collector_ok S key ns (fst x) \<and> P (snd x))"
  by (intro ext) (auto simp: collector_inv_def collector_ok_def)

lemma client_contract:
  assumes "frame_client callback key (S key) P"
  shows "flow_contract (mc_scanner cfg) (agrees_on key (S key)) (\<lambda>ns x. collector_ok S key ns (fst x) \<and> P (snd x))"
  unfolding scanner collector_parts [symmetric] by (rule frame_client.collector_contract [OF assms])

end

sublocale framed_world \<subseteq> stream_world cfg S "collector_ok S" W
proof (rule stream_world.intro)
  show "flow_contract (mc_scanner cfg) (agrees_on key (S key)) (\<lambda>ns x. collector_ok S key ns (fst x) \<and> W (snd x))" for key
    by (rule client_contract) (rule client)
  show "flow_contract (mc_scanner cfg) (agrees_on key (S key)) (\<lambda>ns x. collector_ok S key ns (fst x))" for key
    using client_contract [OF any_frame_client] by simp
qed (use W_reset W_closed W_evicted in
  \<open>auto simp: scanner new_scanner frame_scanner_def collector_ok_def collector_inv_def new_frame_collector_def\<close>)

end
