(* ===== verification/Xp_Properties.thy ===== *)
theory Xp_Properties
  imports Xp_Facts Framed_World Manager_Properties
    "HOL-Library.Code_Target_Nat"
begin

text \<open>
  The properties of the XP tracker: the net change it shows, the tracker behind the
  reassembly, and the replay of a recording.
\<close>

section \<open>What the tracker shows\<close>

definition sample_xp_layout :: xp_layout where
  "sample_xp_layout = \<lparr>xp_opcode = 7, xp_message_length = 22, xp_level_offset = 5, xp_current_offset = 6,
     xp_required_offset = 14, xp_flag = 0, xp_encoding = XP_ENCODING\<rparr>"

definition sample_xp_frame :: "int \<Rightarrow> int \<Rightarrow> int \<Rightarrow> bdo_frame" where
  "sample_xp_frame level current required =
     \<lparr>fr_index = 0, fr_message = [22, 0, 0, 7, 0, word_of_int level] @ to_le 8 current @ to_le 8 required,
      fr_context = sample_context 1, fr_stream_sequence = None\<rparr>"

text \<open>C33. The net change a tracker shows is the experience gained: as long as it has not given up,
  its reading is that of the last message of the layout, all messages came from one connection,
  the levels rose without a gap with one requirement each, and the net change, which is also
  the sum of the published deltas, is the whole levels passed plus the difference inside them.\<close>

theorem net_xp_is_gain:
  assumes "observe_all layout frames = (None, t, out)" and "xp_frames layout frames \<noteq> []"
  shows "let xs = xp_frames layout frames; gain = experience_between layout xs (hd xs) (last xs) in
    (\<exists>delta. xt_reading t = Some (reading_of layout (last xs) delta gain)) \<and>
    list_all (\<lambda>x. connection_in x = connection_in (hd xs)) xs \<and>
    level_in layout ` set xs = {level_in layout (hd xs) .. level_in layout (last xs)} \<and>
    list_all (\<lambda>x. required_in layout x = required_of layout xs (level_in layout x)) xs \<and>
    out \<noteq> [] \<and> sum_list (map (\<lambda>r. the (xr_delta_xp r)) (tl out)) = gain"
  using observe_all_recorded [of layout frames] assms by (simp add: recorded_ok_def Let_def)

theorem net_xp_is_gain_witness:
  "let frames = [sample_xp_frame 3 40 100, sample_xp_frame 3 90 100, sample_xp_frame 4 20 300];
       out = snd (snd (observe_all sample_xp_layout frames)) in
    map xr_net_xp out = [0, 50, 80] \<and> sum_list (map (\<lambda>r. the (xr_delta_xp r)) (tl out)) = 80"
proof -
  let ?frames = "[sample_xp_frame 3 40 100, sample_xp_frame 3 90 100, sample_xp_frame 4 20 300]"
  have out: "map xr_net_xp (snd (snd (observe_all sample_xp_layout ?frames))) = [0, 50, 80] \<and>
      fst (observe_all sample_xp_layout ?frames) = None"
    by code_simp
  then obtain t out where o: "observe_all sample_xp_layout ?frames = (None, t, out)"
    by (metis prod.collapse)
  have "xp_frames sample_xp_layout ?frames = ?frames"
    by code_simp
  moreover have "experience_between sample_xp_layout ?frames (hd ?frames) (last ?frames) = 80"
    by code_simp
  ultimately show ?thesis
    using net_xp_is_gain [OF o] out by (simp add: o Let_def)
qed

section \<open>The tracker behind the reassembly\<close>

definition xp_world_ok :: "streams \<Rightarrow> xp_layout \<Rightarrow> xp_reading list \<Rightarrow> xp_reading list xp_world \<Rightarrow> bool" where
  "xp_world_ok S layout taken w \<longleftrightarrow>
     (case fst w of
        None \<Rightarrow> xs_evictions (snd w) = 0 \<and>
          (\<exists>frames. list_all (cut_from S) frames \<and>
             observe_all layout frames = (None, xs_tracker (snd w), taken @ xs_app (snd w)))
      | Some reason \<Rightarrow> xt_reason (xs_tracker (snd w)) = Some reason \<and> xt_reading (xs_tracker (snd w)) = None)"

text \<open>
  A queue that appends a reading or gives up. What the tracker does with it mirrors what it
  does with a record that also holds the readings already taken.
\<close>

definition mirrors ::
    "xp_reading list \<Rightarrow> string option \<times> (xp_tracker \<times> xp_reading list) \<Rightarrow> xp_record \<Rightarrow> bool" where
  "mirrors taken r r' \<longleftrightarrow>
     (case r of
        (None, t, readings) \<Rightarrow> r' = (None, t, taken @ readings)
      | (Some reason, t, _) \<Rightarrow> xt_reason t = Some reason \<and> xt_reading t = None)"

locale xp_queue =
  fixes publish :: "xp_reading list xp_publish"
  assumes appends: "mirrors taken (publish reading (t, w)) (record_reading reading (t, taken @ w))"
begin

lemma mirrors_steps:
  "mirrors taken (xp_invalidate reason s) r" "mirrors taken (None, t, w) (None, t, taken @ w)"
  by (simp_all add: mirrors_def xp_invalidate_def Let_def)

lemma accept_mirrors:
  "mirrors taken (xp_accept publish ctx l c r (t, w)) (xp_accept record_reading ctx l c r (t, taken @ w))"
  unfolding xp_accept_def Let_def by (simp add: mirrors_steps appends split: option.split)

lemma observe_mirrors:
  "xt_reason t = None \<Longrightarrow>
     mirrors taken (xp_observe layout publish frame (t, w)) (xp_observe layout record_reading frame (t, taken @ w))"
  unfolding xp_observe_def Let_def by (simp add: mirrors_steps accept_mirrors)

lemma frame_keeps:
  assumes W: "xp_world_ok S layout taken w" and frame: "frame_ok key (S key) frame"
  shows "xp_world_ok S layout taken (guard (on_tracker (xp_observe layout publish frame)) w)"
proof (cases "fst w")
  case None
  then obtain frames where frames: "list_all (cut_from S) frames"
      "observe_all layout frames = (None, xs_tracker (snd w), taken @ xs_app (snd w))"
    and evictions: "xs_evictions (snd w) = 0"
    using W by (auto simp: xp_world_ok_def)
  have reason: "xt_reason (xs_tracker (snd w)) = None"
    using observe_all_recorded [of layout frames] by (simp add: frames(2) recorded_ok_def)
  obtain e t q where o: "xp_observe layout publish frame (xs_tracker (snd w), xs_app (snd w)) = (e, t, q)"
    by (metis prod_cases3)
  have m: "mirrors taken (e, t, q)
      (xp_observe layout record_reading frame (xs_tracker (snd w), taken @ xs_app (snd w)))"
    using observe_mirrors [OF reason, of taken layout frame "xs_app (snd w)"] by (simp add: o)
  have cut: "cut_from S frame"
    using frame by (simp add: cut_from_def frame_ok_def)
  show ?thesis
  proof (cases e)
    case None': None
    then have "observe_all layout (frames @ [frame]) = (None, t, taken @ q)"
      using m frames(2) by (simp add: observe_all_snoc guard_def mirrors_def)
    then show ?thesis
      using None None' o evictions frames(1) cut
      by (auto simp: xp_world_ok_def guard_def on_tracker_def intro!: exI [of _ "frames @ [frame]"])
  next
    case (Some reason)
    then show ?thesis
      using m None o by (simp add: xp_world_ok_def guard_def on_tracker_def mirrors_def)
  qed
qed (use W in simp)

lemma failing_keeps:
  assumes "xp_world_ok S layout taken w"
  shows "xp_world_ok S layout taken (guard (on_tracker (xp_invalidate reason)) w)"
    and "xp_world_ok S layout taken (guard xp_evicted w)"
    and "xp_world_ok S layout taken (guard (xp_closed flow) w)"
  using assms
  by (auto simp: xp_world_ok_def guard_def on_tracker_def xp_evicted_def xp_closed_def xp_close_flow_def
      xp_invalidate_def Let_def split: option.splits)

end

sublocale xp_queue \<subseteq> framed_world "xp_manager_config layout publish ports live" "{}"
    "\<lambda>frame. guard (on_tracker (xp_observe layout publish frame))" S "xp_world_ok S layout taken"
  by unfold_locales (auto simp: xp_manager_config_def frame_keeps failing_keeps)

interpretation recording_queue: xp_queue record_reading
  by unfold_locales (simp add: mirrors_def record_reading_def)

interpretation replay_queue: xp_queue xp_enqueue
  by unfold_locales (auto simp: mirrors_def xp_enqueue_def record_reading_def xp_invalidate_def Let_def)

text \<open>The flag around the end of a capture does not matter to what is kept.\<close>

lemma set_finishing_kept:
  "replay_queue.kept S layout taken (set_finishing b m) = replay_queue.kept S layout taken m"
  "recording_queue.kept S layout taken (set_finishing b m) = recording_queue.kept S layout taken m"
  unfolding replay_queue.kept_def recording_queue.kept_def
  by (simp_all add: set_finishing_def all_flows_def xp_world_ok_def split: option.split)

lemma new_session_kept:
  "xp_manager_init layout publish ports live [] = Inr m \<Longrightarrow>
     fm_flows m = [] \<and> fst (fm_world m) = None \<and> xs_app (snd (fm_world m)) = [] \<and> xp_world_ok S layout [] (fm_world m)"
  using exI [of "\<lambda>frames. list_all (cut_from S) frames \<and> observe_all layout frames = (None, new_xp_tracker, [])" "[]"]
  by (auto simp: xp_manager_init_def init_manager new_xp_session_def xp_world_ok_def observe_all_def)

section \<open>Replaying a recording\<close>












section \<open>Properties of whole runs\<close>

text \<open>Behind the reassembly the tracker shows only what the streams say. After any packets,
  timers and the end of the capture either no flow was evicted and the tracker, with all it
  published, is what whole messages cut from the connections' streams make of it, or it has
  given up: it shows no reading, and the reason is that of the exception.\<close>

theorem xp_readings_from_stream:
  assumes "xp_manager_init layout record_reading ports live [] = Inr m"
    and "\<forall>p. Packet p \<in> set ops \<longrightarrow> packet_agrees S p"
  shows "let w = fm_world (xp_finish layout record_reading ports live
      (run_manager (xp_manager_config layout record_reading ports live) ops m));
      status = xp_snapshot (xs_tracker (snd w)) in
    case fst w of
      None \<Rightarrow> xs_evictions (snd w) = 0 \<and>
        (\<exists>frames. list_all (cut_from S) frames \<and>
           observe_all layout frames = (None, xs_tracker (snd w), xs_app (snd w)))
    | Some reason \<Rightarrow> status = \<lparr>xst_status = Invalid, xst_reading = None, xst_reason = Some reason\<rparr>"
proof -
  have "recording_queue.kept S layout [] m"
    using new_session_kept [OF assms(1)] by (simp add: recording_queue.kept_def all_flows_def)
  then have "recording_queue.kept S layout []
      (run_manager (xp_manager_config layout record_reading ports live) ops m)"
    by (intro recording_queue.run_kept) (use assms(2) in simp_all)
  then have "recording_queue.kept S layout [] (xp_finish layout record_reading ports live
      (run_manager (xp_manager_config layout record_reading ports live) ops m))"
    by (simp add: xp_finish_def set_finishing_kept recording_queue.finish_kept)
  then show ?thesis
    unfolding recording_queue.kept_def by (simp add: xp_world_ok_def xp_snapshot_def Let_def split: option.splits)
qed

text \<open>Two messages behind a SYN.\<close>

definition sample_xp_bytes :: bytes where
  "sample_xp_bytes = fr_message (sample_xp_frame 3 40 100) @ fr_message (sample_xp_frame 3 90 100)"

definition sample_xp_packets :: "tcp_packet list" where
  "sample_xp_packets = [sample_packet 50000 0 [] True, sample_packet 50000 1 (take 22 sample_xp_bytes) False,
     sample_packet 50000 23 (drop 22 sample_xp_bytes) False]"

definition sample_xp_streams :: streams where
  "sample_xp_streams key i = (if 1 \<le> i \<and> i \<le> 44 then sample_xp_bytes ! nat (i - 1) else 0)"

lemma sample_xp_length: "length sample_xp_bytes = 44"
  by (simp add: sample_xp_bytes_def sample_xp_frame_def)

lemma sample_xp_packets_agree:
  assumes "p \<in> set sample_xp_packets"
  shows "packet_agrees sample_xp_streams p"
proof -
  have small: "(1 + int i) mod TCP_SEQUENCE_MODULUS = 1 + int i" "(23 + int i) mod TCP_SEQUENCE_MODULUS = 23 + int i"
    if "i < 22" for i
    using that by (simp_all add: TCP_SEQUENCE_MODULUS_eq)
  have "stream_slice (sample_xp_streams key) 1 22 = take 22 sample_xp_bytes"
      "stream_slice (sample_xp_streams key) 23 22 = drop 22 sample_xp_bytes" for key
    by (auto intro!: nth_equalityI simp: stream_slice_def sample_xp_streams_def sample_xp_length nat_add_distrib small)
  then show ?thesis
    using assms
    by (auto simp: sample_xp_packets_def packet_agrees_def packet_position_def agrees_def sample_xp_length
        TCP_SEQUENCE_MODULUS_eq connection_def stream_slice_def [of _ _ 0])
qed

definition sample_xp_manager :: "xp_reading list xp_manager" where
  "sample_xp_manager = \<lparr>fm_next_flow_generation = 0, fm_flows = [], fm_tcp_gap_resets = 0,
     fm_world = (None, new_xp_session [])\<rparr>"

lemma sample_xp_init: "xp_manager_init sample_xp_layout publish {8889} live [] = Inr sample_xp_manager"
  by (simp add: xp_manager_init_def flow_manager_init_def xp_manager_config_def opt_sat_def sample_xp_manager_def)

theorem xp_readings_from_stream_witness:
  "let w = fm_world (xp_finish sample_xp_layout record_reading {8889} True
      (run_manager (xp_manager_config sample_xp_layout record_reading {8889} True) (map Packet sample_xp_packets)
        sample_xp_manager)) in
    fst w = None \<and> map xr_net_xp (xs_app (snd w)) = [0, 50] \<and>
    (\<exists>frames. list_all (cut_from sample_xp_streams) frames \<and>
       observe_all sample_xp_layout frames = (None, xs_tracker (snd w), xs_app (snd w)))"
proof -
  let ?w = "fm_world (xp_finish sample_xp_layout record_reading {8889} True
      (run_manager (xp_manager_config sample_xp_layout record_reading {8889} True) (map Packet sample_xp_packets)
        sample_xp_manager))"
  have w: "fst ?w = None \<and> map xr_net_xp (xs_app (snd ?w)) = [0, 50]"
    by code_simp
  have "\<forall>p. Packet p \<in> set (map Packet sample_xp_packets) \<longrightarrow> packet_agrees sample_xp_streams p"
    using sample_xp_packets_agree by auto
  from xp_readings_from_stream [OF sample_xp_init this, of True] w show ?thesis
    by (simp add: Let_def)
qed




end
