(* ===== verification/Agris_Tracker.thy ===== *)
theory Agris_Tracker
  imports Raised_Errors Opcode_Profile Record_Decode Frame_Collector Flow_Manager
begin

text \<open>
  \<^verbatim>\<open>src/bdo_toolkit/agris/_discovery.py\<close>, \<^verbatim>\<open>agris/models.py\<close>,
  \<^verbatim>\<open>agris/_validation.py\<close> and \<^verbatim>\<open>agris/_capture.py\<close>: the discovery of the column
  of a message that holds a decreasing balance under a known cap, and the balances read from
  it or from the layout of a profile.

  An \<^verbatim>\<open>AgrisDetectionError\<close> is its reason. The callback \<^verbatim>\<open>on_balance\<close> is a
  parameter that may raise and may change the tracker, as the queue of a replay does.
\<close>

section \<open>Models\<close>

datatype agris_error = Agris_Type_Error string | Agris_Value_Error string

text \<open>A cap given as an integer; other types are rejected before.\<close>

definition validate_expected_maximum_points :: "int \<Rightarrow> agris_error + int" where
  "validate_expected_maximum_points value =
     (if 1 \<le> value \<and> value \<le> 0xFFFFFFFF then Inr value
      else Inl (Agris_Value_Error ''expected_maximum_points must be between 1 and 4294967295''))"

record agris_options =
  ao_minimum_updates :: int
  ao_settle_seconds :: pyfloat
  ao_max_families :: int
  ao_max_columns :: int
  ao_max_candidates :: int

definition default_agris_options :: agris_options where
  "default_agris_options =
     \<lparr>ao_minimum_updates = 5, ao_settle_seconds = Finite 3, ao_max_families = 2048, ao_max_columns = 65536,
      ao_max_candidates = 4096\<rparr>"

definition agris_options_init :: "agris_options \<Rightarrow> agris_error + agris_options" where
  "agris_options_init options =
     (if ao_minimum_updates options < 3 then Inl (Agris_Value_Error ''minimum_updates must be >= 3'')
      else if ao_max_families options < 1 then Inl (Agris_Value_Error ''max_families must be >= 1'')
      else if ao_max_columns options < 1 then Inl (Agris_Value_Error ''max_columns must be >= 1'')
      else if ao_max_candidates options < 1 then Inl (Agris_Value_Error ''max_candidates must be >= 1'')
      else if \<not> isfinite (ao_settle_seconds options) \<or> ao_settle_seconds options < Finite 0
      then Inl (Agris_Value_Error ''settle_seconds must be finite and nonnegative'')
      else Inr options)"

record agris_balance =
  ab_remaining_points :: int
  ab_maximum_points :: int
  ab_observed_at :: pyfloat
  ab_flow :: flow_key
  ab_connection_epoch :: int

text \<open>\<^verbatim>\<open>AgrisLayout\<close>, the evidence shown in a status.\<close>

record agris_candidate =
  ac_opcode :: int
  ac_message_length :: int
  ac_remaining_offset :: int
  ac_maximum_offset :: int
  ac_flow :: flow_key
  ac_connection_epoch :: int

datatype agris_state = Agris_Searching | Agris_Settling | Agris_Tracking | Agris_Ambiguous | Agris_Invalid

record agris_status =
  as_status :: agris_state
  as_expected_maximum_points :: int
  as_balance :: "agris_balance option"
  as_candidates :: "agris_candidate list"
  as_observed_frames :: int
  as_reason :: "string option"

section \<open>The tracker\<close>

record agris_column =
  col_last :: int
  col_distinct :: int

record agris_family =
  fam_caps :: "int set"
  fam_columns :: "(int, agris_column) dict"
  fam_observed_at :: pyfloat

type_synonym family_key = "flow_key \<times> int \<times> int \<times> int"
type_synonym candidate_key = "family_key \<times> int \<times> int"

record agris_tracker =
  at_families :: "(family_key, agris_family) dict"
  at_column_count :: int
  at_observed_frames :: int
  at_clock :: pyfloat
  at_selected :: "candidate_key option"
  at_unique :: "candidate_key option"
  at_unique_since :: pyfloat
  at_candidates :: "candidate_key list"
  at_candidates_dirty :: bool
  at_invalid_reason :: "string option"
  at_latest_balance :: "agris_balance option"
  at_selected_version :: int
  at_published_version :: int
  at_tracking :: bool

definition new_agris_tracker :: agris_tracker where
  "new_agris_tracker =
     \<lparr>at_families = [], at_column_count = 0, at_observed_frames = 0, at_clock = Finite 0, at_selected = None,
      at_unique = None, at_unique_since = Finite 0, at_candidates = [], at_candidates_dirty = False,
      at_invalid_reason = None, at_latest_balance = None, at_selected_version = 0, at_published_version = -1,
      at_tracking = False\<rparr>"

type_synonym 'w agris = "(agris_tracker \<times> 'w) raising"

record 'w agris_config =
  agc_expected_maximum_points :: int
  agc_options :: agris_options
  agc_on_balance :: "(agris_balance \<Rightarrow> 'w agris) option"
  agc_profile_layout :: "agris_layout option"

definition agris_invalidate :: "string \<Rightarrow> 'w agris" where
  "agris_invalidate reason s =
     (let r = (case at_invalid_reason (fst s) of None \<Rightarrow> reason | Some earlier \<Rightarrow> earlier)
      in (Some r, ((fst s)\<lparr>at_invalid_reason := Some r, at_tracking := False\<rparr>, snd s)))"

text \<open>A step on the tracker alone.\<close>

definition agris_step :: "(agris_tracker \<Rightarrow> agris_tracker) \<Rightarrow> 'w agris" where
  "agris_step f s = (None, (f (fst s), snd s))"

definition uint32_at :: "bytes \<Rightarrow> int \<Rightarrow> int" where
  "uint32_at message offset = from_le (py_slice message offset (offset + 4))"

definition family_key_of :: "bdo_frame \<Rightarrow> family_key" where
  "family_key_of frame =
     (ctx_flow (fr_context frame), ctx_flow_generation (fr_context frame), frame_opcode frame,
      int (length (fr_message frame)))"

definition same_flow :: "family_key \<Rightarrow> family_key \<Rightarrow> bool" where
  "same_flow a b \<longleftrightarrow> fst a = fst b"

definition same_connection :: "family_key \<Rightarrow> family_key \<Rightarrow> bool" where
  "same_connection a b \<longleftrightarrow> fst a = fst b \<and> fst (snd a) = fst (snd b)"

definition same_opcode :: "family_key \<Rightarrow> family_key \<Rightarrow> bool" where
  "same_opcode a b \<longleftrightarrow> same_connection a b \<and> fst (snd (snd a)) = fst (snd (snd b))"

section \<open>Hypotheses\<close>

text \<open>The loop over the offsets of a new family; \<open>None\<close> when the column limit is reached.\<close>

fun new_columns ::
    "int \<Rightarrow> int \<Rightarrow> int \<Rightarrow> bytes \<Rightarrow> int list \<Rightarrow> (int, agris_column) dict \<Rightarrow> (int, agris_column) dict option" where
  "new_columns expected max_columns column_count message [] columns = Some columns"
| "new_columns expected max_columns column_count message (offset # offsets) columns =
     (let value = uint32_at message offset in
      if value \<le> expected
      then if column_count + int (length columns) \<ge> max_columns then None
           else new_columns expected max_columns column_count message offsets
                  (columns @ [(offset, \<lparr>col_last = value, col_distinct = 1\<rparr>)])
      else new_columns expected max_columns column_count message offsets columns)"

definition add_family :: "'w agris_config \<Rightarrow> family_key \<Rightarrow> bytes \<Rightarrow> pyfloat \<Rightarrow> 'w agris" where
  "add_family cfg key message observed_at s =
     (let t = fst s; expected = agc_expected_maximum_points cfg in
      if int (length (at_families t)) \<ge> ao_max_families (agc_options cfg)
      then agris_invalidate ''Discovery family limit reached; no hypotheses were silently evicted.'' s
      else
        let caps = set (occurrences (to_le 4 expected) message 5);
            columns = (if caps = {} then Some []
                       else new_columns expected (ao_max_columns (agc_options cfg)) (at_column_count t) message
                              [5 .. int (length message) - 4] [])
        in case columns of
             None \<Rightarrow> agris_invalidate ''Discovery column limit reached; no hypotheses were silently evicted.'' s
           | Some columns \<Rightarrow>
               (None, (t\<lparr>at_column_count := at_column_count t + int (length columns),
                         at_families := at_families t @
                           [(key, \<lparr>fam_caps = caps, fam_columns = columns, fam_observed_at = observed_at\<rparr>)],
                         at_candidates_dirty := True\<rparr>, snd s)))"

definition surviving_caps :: "int \<Rightarrow> bytes \<Rightarrow> int set \<Rightarrow> int set" where
  "surviving_caps expected message caps = Set.filter (\<lambda>offset. uint32_at message offset = expected) caps"

text \<open>One column: dropped when contradicted, except that the selected one may rise.\<close>

definition update_column ::
    "int \<Rightarrow> int \<Rightarrow> int set \<Rightarrow> bytes \<Rightarrow> (int \<Rightarrow> bool) \<Rightarrow> int \<times> agris_column \<Rightarrow> (int \<times> agris_column) option" where
  "update_column expected minimum_updates caps message is_selected entry =
     (case entry of (offset, column) \<Rightarrow>
        let value = uint32_at message offset in
        if caps = {} \<or> value > expected \<or> (value > col_last column \<and> \<not> is_selected offset) then None
        else Some (offset, \<lparr>col_last = value,
                            col_distinct = (if value < col_last column \<and> col_distinct column < minimum_updates
                                            then col_distinct column + 1 else col_distinct column)\<rparr>))"

definition update_family :: "'w agris_config \<Rightarrow> family_key \<Rightarrow> bytes \<Rightarrow> pyfloat \<Rightarrow> agris_tracker \<Rightarrow> agris_tracker" where
  "update_family cfg key message observed_at t =
     (case map_of (at_families t) key of
        None \<Rightarrow> t
      | Some family \<Rightarrow>
          let expected = agc_expected_maximum_points cfg;
              caps = surviving_caps expected message (fam_caps family);
              is_selected = (\<lambda>offset. case at_selected t of
                               None \<Rightarrow> False | Some (k, o', _) \<Rightarrow> k = key \<and> o' = offset);
              columns = List.map_filter
                (update_column expected (ao_minimum_updates (agc_options cfg)) caps message is_selected)
                (fam_columns family)
          in t\<lparr>at_families := AList.update key \<lparr>fam_caps = caps, fam_columns = columns, fam_observed_at = observed_at\<rparr>
                                (at_families t),
               at_column_count := at_column_count t - (int (length (fam_columns family)) - int (length columns)),
               at_candidates_dirty := True\<rparr>)"

text \<open>Every pair of a qualified column and a cap that do not overlap, in the order of the loops.\<close>

definition family_candidates :: "int \<Rightarrow> family_key \<times> agris_family \<Rightarrow> candidate_key list" where
  "family_candidates minimum_updates entry =
     (case entry of (key, family) \<Rightarrow>
        concat (map (\<lambda>(offset, column).
            if col_distinct column < minimum_updates then []
            else map (\<lambda>cap_offset. (key, offset, cap_offset))
                   (filter (\<lambda>cap_offset. \<not> \<bar>cap_offset - offset\<bar> < 4) (sorted_list_of_set (fam_caps family))))
          (fam_columns family)))"

definition all_candidates :: "int \<Rightarrow> agris_tracker \<Rightarrow> candidate_key list" where
  "all_candidates minimum_updates t = concat (map (family_candidates minimum_updates) (at_families t))"

definition find_candidates :: "'w agris_config \<Rightarrow> 'w agris" where
  "find_candidates cfg s =
     (let t = fst s; found = all_candidates (ao_minimum_updates (agc_options cfg)) t in
      if \<not> at_candidates_dirty t then (None, s)
      else if int (length found) > ao_max_candidates (agc_options cfg)
      then agris_invalidate ''Discovery candidate limit reached; uniqueness is unresolved.'' s
      else (None, (t\<lparr>at_candidates := found, at_candidates_dirty := False\<rparr>, snd s)))"

section \<open>Selection and balances\<close>

definition decode_selected :: "'w agris_config \<Rightarrow> bdo_frame \<Rightarrow> 'w agris" where
  "decode_selected cfg frame s =
     (case at_selected (fst s) of
        None \<Rightarrow> (None, s)
      | Some (_, offset, cap_offset) \<Rightarrow>
          let remaining = uint32_at (fr_message frame) offset;
              maximum = uint32_at (fr_message frame) cap_offset
          in if maximum \<noteq> agc_expected_maximum_points cfg \<or> remaining > maximum
             then agris_invalidate ''Selected balance or cap is outside the validated layout constraints.'' s
             else (None, ((fst s)\<lparr>at_latest_balance :=
                            Some \<lparr>ab_remaining_points = remaining, ab_maximum_points = maximum,
                                  ab_observed_at = ctx_timestamp (fr_context frame),
                                  ab_flow = ctx_flow (fr_context frame),
                                  ab_connection_epoch = ctx_flow_generation (fr_context frame)\<rparr>,
                                  at_selected_version := at_selected_version (fst s) + 1\<rparr>, snd s)))"

text \<open>The first balance of a hypothesis that has just been selected.\<close>

definition select_unique :: "'w agris_config \<Rightarrow> candidate_key \<Rightarrow> agris_tracker \<Rightarrow> agris_tracker" where
  "select_unique cfg unique t =
     (case unique of (key, offset, _) \<Rightarrow>
        case map_of (at_families t) key of
          None \<Rightarrow> t
        | Some family \<Rightarrow>
            t\<lparr>at_selected := Some unique,
              at_latest_balance := map_option (\<lambda>column.
                \<lparr>ab_remaining_points = col_last column, ab_maximum_points = agc_expected_maximum_points cfg,
                 ab_observed_at = fam_observed_at family, ab_flow = fst key, ab_connection_epoch = fst (snd key)\<rparr>)
                (map_of (fam_columns family) offset)\<rparr>)"

definition publish_balance :: "'w agris_config \<Rightarrow> 'w agris" where
  "publish_balance cfg s =
     (case (agc_on_balance cfg, at_latest_balance (fst s)) of
        (Some callback, Some balance) \<Rightarrow> callback balance s
      | _ \<Rightarrow> (None, s))"

text \<open>The part of \<^verbatim>\<open>refresh\<close> behind \<^verbatim>\<open>_find_candidates\<close>.\<close>

definition settle :: "'w agris_config \<Rightarrow> 'w agris" where
  "settle cfg s =
     (let t = fst s;
          unique = (case at_candidates t of [candidate] \<Rightarrow> Some candidate | _ \<Rightarrow> None);
          t1 = (if unique \<noteq> at_unique t then t\<lparr>at_unique := unique, at_unique_since := at_clock t\<rparr> else t);
          was_tracking = at_tracking t1;
          t2 = t1\<lparr>at_tracking := False\<rparr>;
          settled = (unique \<noteq> None \<and> at_clock t2 - at_unique_since t2 \<ge> ao_settle_seconds (agc_options cfg))
      in if settled \<and> at_selected t2 \<noteq> None \<and> unique \<noteq> at_selected t2
         then agris_invalidate ''A different hypothesis replaced the selected layout; restart discovery.'' (t2, snd s)
         else
           let t3 = (if \<not> settled then t2
                     else (case (at_selected t2, unique) of
                             (None, Some candidate) \<Rightarrow> select_unique cfg candidate t2
                           | _ \<Rightarrow> t2)\<lparr>at_tracking := True\<rparr>)
           in if at_tracking t3 \<and> (\<not> was_tracking \<or> at_published_version t3 \<noteq> at_selected_version t3)
              then publish_balance cfg (t3\<lparr>at_published_version := at_selected_version t3\<rparr>, snd s)
              else (None, (t3, snd s)))"

definition agris_refresh :: "'w agris_config \<Rightarrow> pyfloat option \<Rightarrow> 'w agris" where
  "agris_refresh cfg now s =
     (case now of
        Some moment \<Rightarrow> if \<not> isfinite moment then (Some ''now must be finite'', s)
                        else (let s' = ((fst s)\<lparr>at_clock := py_max (at_clock (fst s)) moment\<rparr>, snd s) in
                              if at_invalid_reason (fst s') \<noteq> None \<or> agc_profile_layout cfg \<noteq> None then (None, s')
                              else and_then (find_candidates cfg) (settle cfg) s')
      | None \<Rightarrow> if at_invalid_reason (fst s) \<noteq> None \<or> agc_profile_layout cfg \<noteq> None then (None, s)
                 else and_then (find_candidates cfg) (settle cfg) s)"

section \<open>Observing\<close>

definition observe_profile :: "'w agris_config \<Rightarrow> agris_layout \<Rightarrow> bdo_frame \<Rightarrow> 'w agris" where
  "observe_profile cfg layout frame s =
     (let key = family_key_of frame; chosen = at_selected (fst s) in
      if chosen \<noteq> None \<and> same_flow key (fst (the chosen)) \<and> \<not> same_connection key (fst (the chosen))
      then agris_invalidate ''Selected connection epoch changed; restart capture.'' s
      else if frame_opcode frame \<noteq> ag_opcode layout then (None, s)
      else if frame_flag frame \<noteq> Some (ag_flag layout) \<or> frame_length frame \<noteq> ag_message_length layout \<or>
              int (length (fr_message frame)) \<noteq> ag_message_length layout
      then agris_invalidate ''Agris profile message shape rejected; recalibrate Agris.'' s
      else if chosen \<noteq> None \<and> \<not> same_connection key (fst (the chosen))
      then agris_invalidate ''Agris profile matched multiple connections; balance is ambiguous.'' s
      else
        let selected = (key, ag_remaining_offset layout, ag_maximum_offset layout)
        in and_then (agris_step (\<lambda>t. t\<lparr>at_selected := Some selected\<rparr>))
             (and_then (decode_selected cfg frame)
               (and_then (agris_step (\<lambda>t. t\<lparr>at_candidates := [selected], at_tracking := True\<rparr>))
                 (publish_balance cfg))) s)"

text \<open>The checks against the selected layout, before the hypotheses are updated.\<close>

definition observe_selected :: "'w agris_config \<Rightarrow> bdo_frame \<Rightarrow> 'w agris" where
  "observe_selected cfg frame s =
     (let key = family_key_of frame in
      case at_selected (fst s) of
        None \<Rightarrow> (None, s)
      | Some (chosen, _, _) \<Rightarrow>
          if same_opcode key chosen
          then if key \<noteq> chosen \<or> frame_flag frame \<noteq> Some 0 \<or> frame_length frame \<noteq> int (length (fr_message frame))
               then agris_invalidate ''Selected message shape changed; restart discovery.'' s
               else decode_selected cfg frame s
          else (None, s))"

definition observe_hypotheses :: "'w agris_config \<Rightarrow> bdo_frame \<Rightarrow> 'w agris" where
  "observe_hypotheses cfg frame s =
     (let key = family_key_of frame; message = fr_message frame; observed_at = ctx_timestamp (fr_context frame) in
      if frame_flag frame \<noteq> Some 0 \<or> frame_length frame \<noteq> int (length message) then (None, s)
      else if map_of (at_families (fst s)) key = None then add_family cfg key message observed_at s
      else agris_step (update_family cfg key message observed_at) s)"

definition observe_discovery :: "'w agris_config \<Rightarrow> bdo_frame \<Rightarrow> 'w agris" where
  "observe_discovery cfg frame s =
     (let key = family_key_of frame; chosen = at_selected (fst s) in
      if chosen \<noteq> None \<and> same_flow key (fst (the chosen)) \<and> \<not> same_connection key (fst (the chosen))
      then agris_invalidate ''Selected connection epoch changed; restart discovery.'' s
      else if length (fr_message frame) < 5 then agris_refresh cfg None s
      else and_then (observe_selected cfg frame)
             (and_then (observe_hypotheses cfg frame) (agris_refresh cfg None)) s)"

definition agris_observe :: "'w agris_config \<Rightarrow> bdo_frame \<Rightarrow> 'w agris" where
  "agris_observe cfg frame s =
     (case at_invalid_reason (fst s) of
        Some reason \<Rightarrow> (Some reason, s)
      | None \<Rightarrow>
          if \<not> isfinite (ctx_timestamp (fr_context frame))
          then agris_invalidate ''A frame has a non-finite observation timestamp.'' s
          else
            let t = (fst s)\<lparr>at_observed_frames := at_observed_frames (fst s) + 1,
                           at_clock := py_max (at_clock (fst s)) (ctx_timestamp (fr_context frame))\<rparr>
            in case agc_profile_layout cfg of
                 Some layout \<Rightarrow> observe_profile cfg layout frame (t, snd s)
               | None \<Rightarrow> observe_discovery cfg frame (t, snd s))"

definition agris_snapshot :: "'w agris_config \<Rightarrow> agris_tracker \<Rightarrow> agris_status" where
  "agris_snapshot cfg t =
     (let state = (if at_invalid_reason t \<noteq> None then Agris_Invalid
                   else if length (at_candidates t) > 1 then Agris_Ambiguous
                   else if at_candidates t = [] then Agris_Searching
                   else if at_tracking t then Agris_Tracking else Agris_Settling)
      in \<lparr>as_status = state, as_expected_maximum_points = agc_expected_maximum_points cfg,
          as_balance = (if state = Agris_Tracking then at_latest_balance t else None),
          as_candidates = map (\<lambda>((flow, epoch, opcode, n), offset, cap_offset).
             \<lparr>ac_opcode = opcode, ac_message_length = n, ac_remaining_offset = offset, ac_maximum_offset = cap_offset,
              ac_flow = flow, ac_connection_epoch = epoch\<rparr>) (at_candidates t),
          as_observed_frames = at_observed_frames t, as_reason = at_invalid_reason t\<rparr>)"

definition drop_families :: "flow_key \<Rightarrow> agris_tracker \<Rightarrow> agris_tracker" where
  "drop_families flow t =
     (let (gone, kept) = partition (\<lambda>(key, _). fst key = flow) (at_families t)
      in t\<lparr>at_families := kept,
           at_column_count := at_column_count t - sum_list (map (\<lambda>(_, family). int (length (fam_columns family))) gone),
           at_candidates_dirty := at_candidates_dirty t \<or> gone \<noteq> []\<rparr>)"

definition agris_close_flow :: "'w agris_config \<Rightarrow> flow_key \<Rightarrow> 'w agris" where
  "agris_close_flow cfg flow s =
     (if at_selected (fst s) \<noteq> None \<and> fst (fst (the (at_selected (fst s)))) = flow
      then agris_invalidate ''Selected connection ended; restart discovery for a new connection.'' s
      else and_then (agris_step (drop_families flow)) (agris_refresh cfg None) s)"

definition agris_gap_reset :: "'w agris" where
  "agris_gap_reset = agris_invalidate ''TCP gap detected; restart discovery with an intact capture.''"

section \<open>The flow manager of the tracker\<close>

record 'w agris_session =
  ags_tracker :: agris_tracker
  ags_finishing :: bool
  ags_clock :: pyfloat
  ags_evictions :: int
  ags_app :: 'w

definition new_agris_session :: "'w \<Rightarrow> 'w agris_session" where
  "new_agris_session w =
     \<lparr>ags_tracker = new_agris_tracker, ags_finishing = False, ags_clock = Finite 0, ags_evictions = 0, ags_app = w\<rparr>"

definition on_agris :: "'w agris \<Rightarrow> 'w agris_session raising" where
  "on_agris action x =
     (case action (ags_tracker x, ags_app x) of
        (raised, t, w) \<Rightarrow> (raised, x\<lparr>ags_tracker := t, ags_app := w\<rparr>))"

definition agris_closed :: "'w agris_config \<Rightarrow> flow_key \<Rightarrow> 'w agris_session raising" where
  "agris_closed cfg flow x = (if \<not> ags_finishing x then on_agris (agris_close_flow cfg flow) x else (None, x))"

definition agris_evicted :: "'w agris_session raising" where
  "agris_evicted x =
     on_agris (agris_invalidate ''Agris flow-state limit reached; discovery is incomplete'')
       (x\<lparr>ags_evictions := ags_evictions x + 1\<rparr>)"

type_synonym 'w agris_world = "string option \<times> 'w agris_session"

definition agris_manager_config ::
    "'w agris_config \<Rightarrow> int set \<Rightarrow> bool \<Rightarrow> (frame_collector, 'w agris_world) manager_config" where
  "agris_manager_config cfg ports live =
     \<lparr>mc_server_ports = ports,
      mc_scanner = frame_scanner {} (\<lambda>frame. guard (on_agris (agris_observe cfg frame))),
      mc_scanner_factory = (\<lambda>w. (new_frame_collector, w)),
      mc_max_flows = Some 64,
      mc_on_flow_eviction = Some (guard agris_evicted),
      mc_on_flow_close = Some (\<lambda>flow. guard (agris_closed cfg flow)),
      mc_on_flow_reset = Some (\<lambda>flow generation resume. guard (on_agris agris_gap_reset)),
      mc_idle_timeout = None,
      mc_track_flow_generations = True,
      mc_max_pending_segments = int MAX_PENDING_SEGMENTS,
      mc_max_pending_bytes = Some (4 * 1024 * 1024),
      mc_defer_gap_timeouts = live\<rparr>"

type_synonym 'w agris_manager = "(frame_collector, 'w agris_world) flow_manager"

definition agris_manager_init :: "'w agris_config \<Rightarrow> int set \<Rightarrow> bool \<Rightarrow> 'w \<Rightarrow> manager_error + 'w agris_manager" where
  "agris_manager_init cfg ports live w = flow_manager_init (agris_manager_config cfg ports live) (None, new_agris_session w)"

definition on_session :: "'w agris_session raising \<Rightarrow> 'w agris_manager \<Rightarrow> 'w agris_manager" where
  "on_session action m = m\<lparr>fm_world := guard action (fm_world m)\<rparr>"

definition agris_process :: "'w agris_config \<Rightarrow> int set \<Rightarrow> bool \<Rightarrow> tcp_packet \<Rightarrow> 'w agris_manager \<Rightarrow> 'w agris_manager" where
  "agris_process cfg ports live p m =
     (let m' = process_tcp_segment (agris_manager_config cfg ports live) p m in
      if fk_source_port (pk_flow p) \<in> ports
      then on_session (\<lambda>x. (None, x\<lparr>ags_clock := py_max (ags_clock x) (pk_timestamp p)\<rparr>)) m' else m')"

definition agris_manager_refresh :: "'w agris_config \<Rightarrow> pyfloat option \<Rightarrow> 'w agris_manager \<Rightarrow> 'w agris_manager" where
  "agris_manager_refresh cfg now =
     on_session (\<lambda>x.
       let clock = py_max (ags_clock x) (case now of None \<Rightarrow> ags_clock x | Some moment \<Rightarrow> moment)
       in on_agris (agris_refresh cfg (Some clock)) (x\<lparr>ags_clock := clock\<rparr>))"

text \<open>The flag is reset in a \<^verbatim>\<open>finally\<close> clause, so also behind an exception.\<close>

definition ags_set_finishing :: "bool \<Rightarrow> 'w agris_manager \<Rightarrow> 'w agris_manager" where
  "ags_set_finishing b m = m\<lparr>fm_world := (fst (fm_world m), (snd (fm_world m))\<lparr>ags_finishing := b\<rparr>)\<rparr>"

definition agris_finish :: "'w agris_config \<Rightarrow> int set \<Rightarrow> bool \<Rightarrow> 'w agris_manager \<Rightarrow> 'w agris_manager" where
  "agris_finish cfg ports live m =
     ags_set_finishing False (agris_manager_refresh cfg None
       (manager_finish (agris_manager_config cfg ports live) (ags_set_finishing True m)))"

end
