(* ===== verification/Byte_Search.thy ===== *)
theory Byte_Search
  imports Record_Decode
begin

text \<open>
  The search loops over bytes against their meaning: \<open>bytes_find\<close> finds the first place of a
  needle, and \<open>occurrences\<close> finds them all.
\<close>

lemma find_from_none: "find_from needle hay i = -1 \<Longrightarrow> 0 \<le> i \<Longrightarrow> needle \<noteq> [] \<Longrightarrow> k \<le> length hay \<Longrightarrow>
    take (length needle) (drop k hay) \<noteq> needle"
proof (induction hay arbitrary: i k)
  case (Cons b bs)
  have no: "take (length needle) (b # bs) \<noteq> needle" and rest: "find_from needle bs (i + 1) = -1"
    using Cons.prems by (auto split: if_splits)
  show ?case
  proof (cases k)
    case (Suc k')
    then show ?thesis
      using Cons.IH [OF rest] Cons.prems by simp
  qed (use no in simp)
qed simp

lemma find_from_first:
  "find_from needle hay i = j \<Longrightarrow> j \<noteq> -1 \<Longrightarrow> 0 \<le> i \<Longrightarrow> needle \<noteq> [] \<Longrightarrow> i + int k < j \<Longrightarrow>
     take (length needle) (drop k hay) \<noteq> needle"
proof (induction hay arbitrary: i k)
  case (Cons b bs)
  then have no: "take (length needle) (b # bs) \<noteq> needle" and rest: "find_from needle bs (i + 1) = j"
    by (auto split: if_splits)
  show ?case
  proof (cases k)
    case (Suc k')
    then show ?thesis
      using Cons.IH [OF rest, of k'] Cons.prems by simp
  qed (use no in simp)
qed (auto split: if_splits)

definition found_at :: "bytes \<Rightarrow> bytes \<Rightarrow> int \<Rightarrow> bool" where
  "found_at needle hay offset \<longleftrightarrow> 0 \<le> offset \<and> take (length needle) (drop (nat offset) hay) = needle"

lemma bytes_find_first:
  assumes "needle \<noteq> []" and "0 \<le> start" and "start \<le> offset" and "found_at needle hay offset"
  shows "0 \<le> bytes_find hay needle start \<and> bytes_find hay needle start \<le> offset"
proof -
  let ?hay = "drop (nat start) hay" and ?k = "nat (offset - start)"
  have k: "take (length needle) (drop ?k ?hay) = needle"
    using assms(2,3,4) by (simp add: found_at_def) (metis add.commute diff_add_cancel nat_diff_distrib' nat_le_iff
        nat_add_distrib diff_ge_0_iff_ge)
  have "?k \<le> length ?hay"
  proof (rule ccontr)
    assume "\<not> ?k \<le> length ?hay"
    then have "drop ?k ?hay = []"
      by simp
    then show False
      using k assms(1) by simp
  qed
  let ?j = "find_from needle ?hay start"
  have ne: "?j \<noteq> -1"
    using find_from_none [OF _ assms(2,1) \<open>?k \<le> length ?hay\<close>] k by blast
  then have "start \<le> ?j"
    using find_from_found [OF refl ne assms(1)] by blast
  moreover have "?j \<le> offset"
    using find_from_first [OF refl ne assms(2,1), of ?k] k assms(3) by fastforce
  ultimately show ?thesis
    using assms(2) by (simp add: bytes_find_def)
qed

lemma set_occurrences:
  "needle \<noteq> [] \<Longrightarrow> 0 \<le> start \<Longrightarrow> set (occurrences needle hay start) = {offset. start \<le> offset \<and> found_at needle hay offset}"
proof (induction needle hay start rule: occurrences.induct)
  case (1 needle hay start)
  let ?j = "bytes_find hay needle start"
  show ?case
  proof (cases "?j < 0")
    case True
    then show ?thesis
      using bytes_find_first [OF "1.prems", of _ hay] by (subst occurrences.simps) (force simp: Let_def)
  next
    case False
    then have found: "start \<le> ?j" "found_at needle hay ?j"
      using bytes_find_found [OF refl _ "1.prems", of hay] "1.prems" by (auto simp: found_at_def)
    have "set (occurrences needle hay (?j + 1)) = {offset. ?j + 1 \<le> offset \<and> found_at needle hay offset}"
      using "1.IH" [OF refl] False "1.prems" by simp
    moreover have "?j \<le> offset" if "start \<le> offset" "found_at needle hay offset" for offset
      using bytes_find_first [OF "1.prems" that] by blast
    moreover have "occurrences needle hay start = ?j # occurrences needle hay (?j + 1)"
      using False "1.prems" by (subst occurrences.simps) (simp add: Let_def)
    ultimately show ?thesis
      using found by fastforce
  qed
qed

lemma occurrences_first:
  assumes "occurrences needle hay start = offset # offsets" and "0 \<le> start"
  shows "needle \<noteq> []" and "start \<le> offset" and "found_at needle hay offset"
    and "start \<le> other \<Longrightarrow> found_at needle hay other \<Longrightarrow> offset \<le> other"
proof -
  show ne: "needle \<noteq> []"
    using assms(1) by (auto simp: occurrences.simps [of needle hay start] Let_def split: if_splits)
  have offset: "offset = bytes_find hay needle start"
    using assms by (auto simp: occurrences.simps [of needle hay start] Let_def split: if_splits)
  have "offset \<in> {offset. start \<le> offset \<and> found_at needle hay offset}"
    unfolding set_occurrences [OF ne assms(2), symmetric] assms(1) by simp
  then show "start \<le> offset" and "found_at needle hay offset"
    by simp_all
  show "offset \<le> other" if "start \<le> other" "found_at needle hay other"
    using bytes_find_first [OF ne assms(2) that] by (simp add: offset)
qed

lemma occurrences_none:
  "needle \<noteq> [] \<Longrightarrow> 0 \<le> start \<Longrightarrow> occurrences needle hay start = [] \<longleftrightarrow> (\<forall>offset \<ge> start. \<not> found_at needle hay offset)"
  using set_occurrences [of needle start hay] by (metis (mono_tags) empty_iff empty_set mem_Collect_eq list.set_intros(1) neq_Nil_conv)

end
