(* ===== verification/Agris_Facts.thy ===== *)
theory Agris_Facts
  imports Agris_Tracker Byte_Search
begin

text \<open>
  The hypotheses a tracker keeps against the history of a capture: a family remembers, for
  every column of a message, exactly whether the whole history of that message is consistent
  with a balance there, and how many different balances it has seen.
\<close>

section \<open>Searching a cap\<close>

lemma found_uint32:
  assumes "0 \<le> e" and "e < 2 ^ 32"
  shows "found_at (to_le 4 e) message offset \<longleftrightarrow>
    0 \<le> offset \<and> offset + 4 \<le> int (length message) \<and> uint32_at message offset = e"
proof -
  have le: "from_le (to_le 4 e) = e"
    using assms by (simp add: from_le_to_le)
  show ?thesis
  proof (cases "0 \<le> offset \<and> offset + 4 \<le> int (length message)")
    case True
    then have "uint32_at message offset = from_le (take 4 (drop (nat offset) message))"
      by (simp add: uint32_at_def py_slice_in)
    moreover have "nat offset + 4 \<le> length message"
      using True by linarith
    then have "length (take 4 (drop (nat offset) message)) = 4"
      by simp
    then have "take 4 (drop (nat offset) message) = to_le 4 e \<longleftrightarrow> from_le (take 4 (drop (nat offset) message)) = e"
      using le from_le_inject [of "take 4 (drop (nat offset) message)" "to_le 4 e"] by force
    ultimately show ?thesis
      using True by (simp add: found_at_def)
  next
    case False
    have "take 4 (drop (nat offset) message) \<noteq> to_le 4 e" if "0 \<le> offset"
    proof
      assume "take 4 (drop (nat offset) message) = to_le 4 e"
      then have "length (take 4 (drop (nat offset) message)) = 4"
        by (simp only: length_to_le)
      then show False
        using False that by simp
    qed
    then show ?thesis
      using False by (auto simp: found_at_def)
  qed
qed

section \<open>The history of a message\<close>

datatype agris_event = Seen bdo_frame | Closed flow_key | Refreshed "pyfloat option"

definition plain_frame :: "bdo_frame \<Rightarrow> bool" where
  "plain_frame frame \<longleftrightarrow> 5 \<le> length (fr_message frame) \<and> frame_flag frame = Some 0 \<and>
     frame_length frame = int (length (fr_message frame))"

fun note_event :: "family_key \<Rightarrow> agris_event \<Rightarrow> bytes list \<Rightarrow> bytes list" where
  "note_event key (Seen frame) messages =
     (if family_key_of frame = key \<and> plain_frame frame then messages @ [fr_message frame] else messages)"
| "note_event key (Closed flow) messages = (if fst key = flow then [] else messages)"
| "note_event key (Refreshed now) messages = messages"

definition history :: "agris_event list \<Rightarrow> family_key \<Rightarrow> bytes list" where
  "history events key = fold (note_event key) events []"

lemma history_snoc: "history (events @ [e]) key = note_event key e (history events key)"
  by (simp add: history_def)

section \<open>What a history says of a column\<close>

definition values_at :: "bytes list \<Rightarrow> int \<Rightarrow> int list" where
  "values_at messages offset = map (\<lambda>m. uint32_at m offset) messages"

definition column_inside :: "family_key \<Rightarrow> int \<Rightarrow> bool" where
  "column_inside key offset \<longleftrightarrow> 5 \<le> offset \<and> offset + 4 \<le> snd (snd (snd key))"

definition caps_of :: "int \<Rightarrow> family_key \<Rightarrow> bytes list \<Rightarrow> int set" where
  "caps_of expected key messages =
     {offset. column_inside key offset \<and> list_all (\<lambda>v. v = expected) (values_at messages offset)}"

definition decreasing_to :: "int \<Rightarrow> int list \<Rightarrow> bool" where
  "decreasing_to expected vs \<longleftrightarrow> list_all (\<lambda>v. v \<le> expected) vs \<and> sorted_wrt (\<ge>) vs"

text \<open>A consistent column: inside the message, and the values never rise nor pass the cap.\<close>

definition consistent :: "int \<Rightarrow> family_key \<Rightarrow> bytes list \<Rightarrow> int \<Rightarrow> bool" where
  "consistent expected key messages offset \<longleftrightarrow>
     caps_of expected key messages \<noteq> {} \<and> column_inside key offset \<and> decreasing_to expected (values_at messages offset)"

definition column_of :: "int \<Rightarrow> bytes list \<Rightarrow> int \<Rightarrow> agris_column" where
  "column_of minimum_updates messages offset =
     \<lparr>col_last = last (values_at messages offset),
      col_distinct = min minimum_updates (int (card (set (values_at messages offset))))\<rparr>"

definition family_ok :: "int \<Rightarrow> int \<Rightarrow> family_key \<Rightarrow> bytes list \<Rightarrow> agris_family \<Rightarrow> bool" where
  "family_ok expected minimum_updates key messages family \<longleftrightarrow>
     messages \<noteq> [] \<and> list_all (\<lambda>m. int (length m) = snd (snd (snd key))) messages \<and>
     fam_caps family = caps_of expected key messages \<and>
     distinct (map fst (fam_columns family)) \<and>
     (\<forall>offset. map_of (fam_columns family) offset =
        (if consistent expected key messages offset then Some (column_of minimum_updates messages offset) else None))"

lemma caps_finite: "finite (caps_of expected key messages)"
proof (rule finite_subset)
  show "caps_of expected key messages \<subseteq> {5 .. snd (snd (snd key))}"
    by (auto simp: caps_of_def column_inside_def)
qed simp

lemma values_snoc: "values_at (messages @ [m]) offset = values_at messages offset @ [uint32_at m offset]"
  by (simp add: values_at_def)

lemma caps_snoc: "caps_of expected key (messages @ [m]) = surviving_caps expected m (caps_of expected key messages)"
  by (auto simp: caps_of_def surviving_caps_def values_snoc)

lemma decreasing_snoc:
  "vs \<noteq> [] \<Longrightarrow> decreasing_to expected (vs @ [v]) \<longleftrightarrow> decreasing_to expected vs \<and> v \<le> expected \<and> v \<le> last vs"
proof -
  assume "vs \<noteq> []"
  have "last vs \<le> x" if "sorted_wrt (\<ge>) vs" "x \<in> set vs" for x
    using that by (induction vs) (auto split: if_splits)
  then show ?thesis
    using \<open>vs \<noteq> []\<close> by (fastforce simp: decreasing_to_def sorted_wrt_append)
qed

text \<open>A value of a decreasing column is new exactly when it is smaller than the last.\<close>

lemma card_decreasing:
  assumes "vs \<noteq> []" and "decreasing_to expected (vs @ [v])"
  shows "card (set (vs @ [v])) = (if v < last vs then card (set vs) + 1 else card (set vs))"
proof -
  have le: "v \<le> x" if "x \<in> set vs" for x
    using assms that by (auto simp: decreasing_to_def sorted_wrt_append)
  have "last vs \<le> x" if "x \<in> set vs" for x
    using assms that by (induction vs) (auto simp: decreasing_to_def sorted_wrt_append split: if_splits)
  then have "v \<notin> set vs" if "v < last vs"
    using that by fastforce
  moreover have "v \<in> set vs" if "\<not> v < last vs"
    using le [of "last vs"] that assms(1) by (metis last_in_set le_less)
  ultimately show ?thesis
    by (simp add: insert_absorb)
qed

section \<open>Families against their history\<close>

lemma new_columns_Some:
  "new_columns expected limit n message offsets columns = Some columns' \<Longrightarrow>
     columns' = columns @ map (\<lambda>offset. (offset, \<lparr>col_last = uint32_at message offset, col_distinct = 1\<rparr>))
       (filter (\<lambda>offset. uint32_at message offset \<le> expected) offsets)"
proof (induction offsets arbitrary: columns)
  case (Cons offset offsets)
  show ?case
  proof (cases "uint32_at message offset \<le> expected")
    case True
    then have "new_columns expected limit n message offsets
        (columns @ [(offset, \<lparr>col_last = uint32_at message offset, col_distinct = 1\<rparr>)]) = Some columns'"
      using Cons.prems by (simp add: Let_def split: if_splits)
    from Cons.IH [OF this] True show ?thesis
      by simp
  qed (use Cons in \<open>simp add: Let_def\<close>)
qed simp

lemma new_columns_bound:
  "new_columns expected limit n message offsets columns = Some columns' \<Longrightarrow>
     n + int (length columns') \<le> max limit (n + int (length columns))"
  by (induction offsets arbitrary: columns) (fastforce simp: Let_def split: if_splits)+

lemma caps_of_single:
  assumes "0 \<le> expected" and "expected < 2 ^ 32" and "snd (snd (snd key)) = int (length message)"
  shows "set (occurrences (to_le 4 expected) message 5) = caps_of expected key [message]"
proof -
  have "to_le 4 expected \<noteq> []"
    by (metis length_to_le list.size(3) zero_neq_numeral)
  then show ?thesis
    using assms by (auto simp: set_occurrences found_uint32 caps_of_def column_inside_def values_at_def)
qed

lemma new_family_ok:
  assumes e: "0 \<le> expected" "expected < 2 ^ 32" and m: "1 \<le> minimum_updates"
    and n: "snd (snd (snd key)) = int (length message)"
    and caps: "caps = set (occurrences (to_le 4 expected) message 5)"
    and columns: "(if caps = {} then Some [] else
      new_columns expected limit count message [5 .. int (length message) - 4] []) = Some columns"
  shows "family_ok expected minimum_updates key [message]
    \<lparr>fam_caps = caps, fam_columns = columns, fam_observed_at = observed_at\<rparr>"
proof -
  have c: "caps = caps_of expected key [message]"
    using caps caps_of_single [OF e n] by simp
  have "columns = (if caps = {} then [] else
      map (\<lambda>offset. (offset, \<lparr>col_last = uint32_at message offset, col_distinct = 1\<rparr>))
        (filter (\<lambda>offset. uint32_at message offset \<le> expected) [5 .. int (length message) - 4]))"
    using columns new_columns_Some [of expected limit count message _ "[]" columns] by (auto split: if_splits)
  moreover have "map_of (map (\<lambda>offset. (offset, g offset)) offsets) k = (if k \<in> set offsets then Some (g k) else None)"
    for g :: "int \<Rightarrow> agris_column" and offsets k
    by (induction offsets) auto
  moreover have "distinct (map fst (map (\<lambda>offset. (offset, g offset)) (filter P [a .. b])))"
    for g :: "int \<Rightarrow> agris_column" and P and a b :: int
    by (simp add: comp_def)
  ultimately show ?thesis
    using m n by (auto simp: family_ok_def c consistent_def column_inside_def decreasing_to_def values_at_def column_of_def)
qed

lemma keys_map_filter:
  assumes "\<And>k v. f (k, v) = map_option (Pair k) (g k v)"
  shows "fst ` set (List.map_filter f d) \<subseteq> fst ` set d"
  using assms by (induction d) (auto simp: map_filter_simps split: option.splits)

lemma distinct_map_filter_keys:
  assumes "\<And>k v. f (k, v) = map_option (Pair k) (g k v)" and "distinct (map fst d)"
  shows "distinct (map fst (List.map_filter f d))"
  using assms(2)
proof (induction d)
  case (Cons x d)
  obtain k v where x: "x = (k, v)"
    by (cases x)
  have "fst ` set (List.map_filter f d) \<subseteq> fst ` set d"
    by (rule keys_map_filter) (rule assms(1))
  then show ?case
    using Cons x by (cases "g k v") (auto simp: map_filter_simps assms(1))
qed (simp add: map_filter_simps)

lemma map_of_map_filter:
  assumes "\<And>k v. f (k, v) = map_option (Pair k) (g k v)" and "distinct (map fst d)"
  shows "map_of (List.map_filter f d) k = Option.bind (map_of d k) (g k)"
  using assms(2)
proof (induction d)
  case (Cons x d)
  obtain k' v where x: "x = (k', v)"
    by (cases x)
  have "fst ` set (List.map_filter f d) \<subseteq> fst ` set d"
    by (rule keys_map_filter) (rule assms(1))
  then have none: "map_of (List.map_filter f d) k' = None" "map_of d k' = None"
    using Cons.prems x by (auto simp: map_of_eq_None_iff)
  show ?case
    using Cons x none by (cases "g k' v") (simp_all add: map_filter_simps assms(1))
qed (simp add: map_filter_simps)

lemma update_family_ok:
  assumes ok: "family_ok expected minimum_updates key messages family" and m: "snd (snd (snd key)) = int (length message)"
    and caps: "caps = surviving_caps expected message (fam_caps family)"
  shows "family_ok expected minimum_updates key (messages @ [message])
    \<lparr>fam_caps = caps, fam_columns = List.map_filter
       (update_column expected minimum_updates caps message (\<lambda>_. False)) (fam_columns family),
     fam_observed_at = observed_at\<rparr>"
proof -
  define g :: "int \<Rightarrow> agris_column \<Rightarrow> agris_column option" where "g offset column =
    (let value = uint32_at message offset in
     if caps = {} \<or> value > expected \<or> value > col_last column then None
     else Some \<lparr>col_last = value, col_distinct = (if value < col_last column \<and> col_distinct column < minimum_updates
        then col_distinct column + 1 else col_distinct column)\<rparr>)" for offset column
  have f: "update_column expected minimum_updates caps message (\<lambda>_. False) (offset, column) =
      map_option (Pair offset) (g offset column)" for offset column
    by (simp add: update_column_def g_def Let_def)
  have ne: "messages \<noteq> []" and dist: "distinct (map fst (fam_columns family))"
    and cols: "\<And>offset. map_of (fam_columns family) offset =
      (if consistent expected key messages offset then Some (column_of minimum_updates messages offset) else None)"
    using ok by (simp_all add: family_ok_def)
  have caps': "caps = caps_of expected key (messages @ [message])"
    using caps ok by (simp add: family_ok_def caps_snoc)
  have sub: "caps_of expected key (messages @ [message]) \<subseteq> caps_of expected key messages"
    by (auto simp: caps_snoc surviving_caps_def)
  have vs: "values_at messages offset \<noteq> []" for offset
    using ne by (simp add: values_at_def)
  have "Option.bind (map_of (fam_columns family) offset) (g offset) =
      (if consistent expected key (messages @ [message]) offset
       then Some (column_of minimum_updates (messages @ [message]) offset) else None)" for offset
  proof (cases "consistent expected key (messages @ [message]) offset")
    case True
    then have dec: "decreasing_to expected (values_at messages offset @ [uint32_at message offset])"
      and old: "consistent expected key messages offset" and "caps \<noteq> {}"
      using sub vs by (auto simp: consistent_def values_snoc decreasing_snoc caps')
    then show ?thesis
      using True decreasing_snoc [OF vs [of offset]] card_decreasing [OF vs dec]
      by (auto simp: cols g_def column_of_def values_snoc min_def Let_def)
  next
    case False
    then show ?thesis
      using vs decreasing_snoc [OF vs [of offset]]
      by (auto simp: cols g_def column_of_def consistent_def values_snoc caps' Let_def)
  qed
  then show ?thesis
    using ok m ne map_of_map_filter [OF f dist] distinct_map_filter_keys [OF f dist] caps'
    by (simp add: family_ok_def)
qed

section \<open>The table of hypotheses\<close>

text \<open>The abstract set of hypotheses: the columns a history does not contradict.\<close>

definition hypothesis :: "int \<Rightarrow> int \<Rightarrow> agris_event list \<Rightarrow> candidate_key \<Rightarrow> bool" where
  "hypothesis expected minimum_updates events candidate \<longleftrightarrow>
     (case candidate of (key, offset, cap_offset) \<Rightarrow>
        let messages = history events key in
        messages \<noteq> [] \<and> column_inside key offset \<and> decreasing_to expected (values_at messages offset) \<and>
        minimum_updates \<le> int (card (set (values_at messages offset))) \<and>
        cap_offset \<in> caps_of expected key messages \<and> \<not> \<bar>cap_offset - offset\<bar> < 4)"

definition hypotheses :: "'w agris_config \<Rightarrow> agris_event list \<Rightarrow> candidate_key set" where
  "hypotheses cfg events =
     {c. hypothesis (agc_expected_maximum_points cfg) (ao_minimum_updates (agc_options cfg)) events c}"

definition total_columns :: "(family_key, agris_family) dict \<Rightarrow> int" where
  "total_columns families = sum_list (map (\<lambda>(_, family). int (length (fam_columns family))) families)"

definition hypotheses_ok :: "int \<Rightarrow> int \<Rightarrow> agris_event list \<Rightarrow> agris_tracker \<Rightarrow> bool" where
  "hypotheses_ok expected minimum_updates events t \<longleftrightarrow>
     distinct (map fst (at_families t)) \<and>
     (\<forall>key. case map_of (at_families t) key of
        None \<Rightarrow> history events key = []
      | Some family \<Rightarrow> family_ok expected minimum_updates key (history events key) family) \<and>
     (\<not> at_candidates_dirty t \<longrightarrow> at_candidates t = all_candidates minimum_updates t)"

lemma hypotheses_okD:
  assumes "hypotheses_ok expected minimum_updates events t"
  shows "distinct (map fst (at_families t))"
    and "map_of (at_families t) key = None \<Longrightarrow> history events key = []"
    and "map_of (at_families t) key = Some family \<Longrightarrow> family_ok expected minimum_updates key (history events key) family"
    and "\<not> at_candidates_dirty t \<Longrightarrow> at_candidates t = all_candidates minimum_updates t"
  using assms [unfolded hypotheses_ok_def, THEN conjunct1] assms [unfolded hypotheses_ok_def, THEN conjunct2, THEN conjunct2]
    assms [unfolded hypotheses_ok_def, THEN conjunct2, THEN conjunct1, THEN spec [of _ key]]
  by simp_all

lemma hypotheses_okI:
  assumes "distinct (map fst (at_families t))"
    and "\<And>key. map_of (at_families t) key = None \<Longrightarrow> history events key = []"
    and "\<And>key family. map_of (at_families t) key = Some family \<Longrightarrow>
      family_ok expected minimum_updates key (history events key) family"
    and "\<not> at_candidates_dirty t \<Longrightarrow> at_candidates t = all_candidates minimum_updates t"
  shows "hypotheses_ok expected minimum_updates events t"
  unfolding hypotheses_ok_def using assms by (intro conjI allI) (simp_all split: option.split)

lemma set_family_candidates:
  "(key', offset, cap_offset) \<in> set (family_candidates minimum_updates (key, family)) \<longleftrightarrow>
     key' = key \<and> (\<exists>column. (offset, column) \<in> set (fam_columns family) \<and> minimum_updates \<le> col_distinct column) \<and>
     cap_offset \<in> set (sorted_list_of_set (fam_caps family)) \<and> \<not> \<bar>cap_offset - offset\<bar> < 4"
  by (force simp: family_candidates_def split: if_splits)

lemma candidates_hypotheses:
  assumes "hypotheses_ok expected minimum_updates events t"
  shows "set (all_candidates minimum_updates t) = {c. hypothesis expected minimum_updates events c}"
proof (intro set_eqI)
  fix c :: candidate_key
  obtain key offset cap_offset where c: "c = (key, offset, cap_offset)"
    by (metis prod_cases3)
  let ?ms = "history events key"
  note dist = hypotheses_okD(1) [OF assms] and ok = hypotheses_okD(2,3) [OF assms, of key]
  have "c \<in> set (all_candidates minimum_updates t) \<longleftrightarrow>
      (\<exists>family. map_of (at_families t) key = Some family \<and> c \<in> set (family_candidates minimum_updates (key, family)))"
    using dist by (force simp: all_candidates_def c set_family_candidates)
  also have "\<dots> \<longleftrightarrow> hypothesis expected minimum_updates events c"
  proof (cases "map_of (at_families t) key")
    case None
    then show ?thesis
      using ok by (simp add: hypothesis_def c)
  next
    case (Some family)
    then have f: "family_ok expected minimum_updates key ?ms family"
      using ok by simp
    then have caps: "fam_caps family = caps_of expected key ?ms" and ms: "?ms \<noteq> []"
      by (simp_all add: family_ok_def)
    have "(offset, column) \<in> set (fam_columns family) \<longleftrightarrow>
        consistent expected key ?ms offset \<and> column = column_of minimum_updates ?ms offset" for column
      using f map_of_eq_Some_iff [of "fam_columns family" offset column] by (auto simp: family_ok_def split: if_splits)
    then show ?thesis
      using Some ms caps_finite [of expected key ?ms]
      by (auto simp: c set_family_candidates hypothesis_def caps consistent_def column_of_def Let_def)
  qed
  finally show "c \<in> set (all_candidates minimum_updates t) \<longleftrightarrow> c \<in> {c. hypothesis expected minimum_updates events c}"
    by simp
qed

lemma candidates_of_families: "at_families t' = at_families t \<Longrightarrow> all_candidates m t' = all_candidates m t"
  by (simp add: all_candidates_def)

lemma hypotheses_ok_cong:
  "hypotheses_ok expected m events t \<Longrightarrow> at_families t' = at_families t \<Longrightarrow> at_candidates t' = at_candidates t \<Longrightarrow>
     at_candidates_dirty t' = at_candidates_dirty t \<Longrightarrow> hypotheses_ok expected m events t'"
  by (simp add: hypotheses_ok_def all_candidates_def)

section \<open>What the operations do to the table\<close>

definition agris_cfg_ok :: "'w agris_config \<Rightarrow> bool" where
  "agris_cfg_ok cfg \<longleftrightarrow> agc_profile_layout cfg = None \<and> 1 \<le> agc_expected_maximum_points cfg \<and>
     agc_expected_maximum_points cfg \<le> 0xFFFFFFFF \<and> 3 \<le> ao_minimum_updates (agc_options cfg)"

abbreviation sound :: "'w agris_config \<Rightarrow> agris_event list \<Rightarrow> agris_tracker \<Rightarrow> bool" where
  "sound cfg \<equiv> hypotheses_ok (agc_expected_maximum_points cfg) (ao_minimum_updates (agc_options cfg))"

lemma invalidate_raises [simp]: "fst (agris_invalidate reason s) \<noteq> None" "agris_invalidate reason s \<noteq> (None, s')"
  by (simp_all add: agris_invalidate_def Let_def)

lemma add_family_sound:
  assumes cfg: "agris_cfg_ok cfg" and t: "sound cfg events t" and fresh: "map_of (at_families t) (family_key_of frame) = None"
    and plain: "plain_frame frame"
    and step: "add_family cfg (family_key_of frame) (fr_message frame) observed_at (t, w) = (None, t', w')"
  shows "sound cfg (events @ [Seen frame]) t'" and "at_selected t' = at_selected t" "at_tracking t' = at_tracking t" "w' = w"
proof -
  let ?key = "family_key_of frame" and ?m = "fr_message frame" and ?e = "agc_expected_maximum_points cfg"
  let ?caps = "set (occurrences (to_le 4 ?e) ?m 5)"
  obtain columns where columns: "(if ?caps = {} then Some [] else
      new_columns ?e (ao_max_columns (agc_options cfg)) (at_column_count t) ?m [5 .. int (length ?m) - 4] []) = Some columns"
    and t': "t' = t\<lparr>at_column_count := at_column_count t + int (length columns),
      at_families := at_families t @ [(?key, \<lparr>fam_caps = ?caps, fam_columns = columns, fam_observed_at = observed_at\<rparr>)],
      at_candidates_dirty := True\<rparr>" "w' = w"
    using step by (auto simp: add_family_def Let_def split: if_splits option.splits)
  have n: "snd (snd (snd ?key)) = int (length ?m)"
    by (simp add: family_key_of_def)
  have "family_ok ?e (ao_minimum_updates (agc_options cfg)) ?key [?m]
      \<lparr>fam_caps = ?caps, fam_columns = columns, fam_observed_at = observed_at\<rparr>"
    by (rule new_family_ok [OF _ _ _ n refl columns]) (use cfg in \<open>simp_all add: agris_cfg_ok_def\<close>)
  moreover have "history events ?key = []"
    by (rule hypotheses_okD(2) [OF t fresh])
  ultimately have now: "family_ok ?e (ao_minimum_updates (agc_options cfg)) ?key (history (events @ [Seen frame]) ?key)
      \<lparr>fam_caps = ?caps, fam_columns = columns, fam_observed_at = observed_at\<rparr>"
    using plain by (simp add: history_snoc)
  have other: "history (events @ [Seen frame]) key = history events key" if "key \<noteq> ?key" for key
    using that by (auto simp: history_snoc)
  have at: "map_of (at_families t') key = (if key = ?key then
      Some \<lparr>fam_caps = ?caps, fam_columns = columns, fam_observed_at = observed_at\<rparr> else map_of (at_families t) key)" for key
    using fresh by (auto simp: t' map_add_def split: option.split)
  show "sound cfg (events @ [Seen frame]) t'"
  proof (rule hypotheses_okI)
    show "distinct (map fst (at_families t'))"
      using hypotheses_okD(1) [OF t] fresh by (auto simp: t' map_of_eq_None_iff)
  qed (use now other at hypotheses_okD(2,3) [OF t] in \<open>simp_all add: t'(1) split: if_splits\<close>)
  show "at_selected t' = at_selected t" "at_tracking t' = at_tracking t" "w' = w"
    by (simp_all add: t')
qed

lemma update_family_sound:
  assumes t: "sound cfg events t" and old: "map_of (at_families t) (family_key_of frame) = Some family"
    and plain: "plain_frame frame" and free: "at_selected t = None"
  shows "sound cfg (events @ [Seen frame]) (update_family cfg (family_key_of frame) (fr_message frame) observed_at t)"
    (is "sound cfg _ ?t")
proof -
  let ?key = "family_key_of frame" and ?m = "fr_message frame"
  let ?caps = "surviving_caps (agc_expected_maximum_points cfg) ?m (fam_caps family)"
  let ?family = "\<lparr>fam_caps = ?caps, fam_columns = List.map_filter
      (update_column (agc_expected_maximum_points cfg) (ao_minimum_updates (agc_options cfg)) ?caps ?m (\<lambda>_. False))
      (fam_columns family), fam_observed_at = observed_at\<rparr>"
  have "family_ok (agc_expected_maximum_points cfg) (ao_minimum_updates (agc_options cfg)) ?key
      (history events ?key @ [?m]) ?family"
    by (rule update_family_ok [OF hypotheses_okD(3) [OF t old] _ refl]) (simp add: family_key_of_def)
  then have now: "family_ok (agc_expected_maximum_points cfg) (ao_minimum_updates (agc_options cfg)) ?key
      (history (events @ [Seen frame]) ?key) ?family"
    using plain by (simp add: history_snoc)
  have other: "history (events @ [Seen frame]) key = history events key" if "key \<noteq> ?key" for key
    using that by (auto simp: history_snoc)
  have families: "at_families ?t = AList.update ?key ?family (at_families t)" "at_candidates_dirty ?t"
    using old free by (simp_all add: update_family_def Let_def)
  then have at: "map_of (at_families ?t) key = (if key = ?key then Some ?family else map_of (at_families t) key)" for key
    by (simp add: update_conv')
  show ?thesis
  proof (rule hypotheses_okI)
    show "distinct (map fst (at_families ?t))"
      using hypotheses_okD(1) [OF t] by (simp add: families AList.distinct_update)
  qed (use now other at families(2) hypotheses_okD(2,3) [OF t] in \<open>simp_all split: if_splits\<close>)
qed

lemma map_of_filter_flow:
  "map_of (filter (\<lambda>(key, _). \<not> fst key = flow) d) key = (if fst key = flow then None else map_of d key)"
  by (induction d) auto

text \<open>Closing a connection forgets its families, and every other event leaves them.\<close>

lemma drop_families_sound:
  assumes t: "sound cfg events t"
  shows "sound cfg (events @ [Closed flow]) (drop_families flow t)"
proof -
  let ?keep = "filter (\<lambda>(key, _). \<not> fst key = flow) (at_families t)"
  have fields: "at_families (drop_families flow t) = ?keep"
      "at_candidates (drop_families flow t) = at_candidates t"
      "at_candidates_dirty (drop_families flow t) = (at_candidates_dirty t \<or> filter (\<lambda>(key, _). fst key = flow) (at_families t) \<noteq> [])"
    by (simp_all add: drop_families_def partition_filter_conv comp_def case_prod_unfold)
  have at: "map_of ?keep key = (if fst key = flow then None else map_of (at_families t) key)" for key
    by (rule map_of_filter_flow)
  show ?thesis
  proof (rule hypotheses_okI)
    show "distinct (map fst (at_families (drop_families flow t)))"
      using hypotheses_okD(1) [OF t] by (simp add: fields distinct_map_filter)
    show "at_candidates (drop_families flow t) = all_candidates (ao_minimum_updates (agc_options cfg)) (drop_families flow t)"
      if "\<not> at_candidates_dirty (drop_families flow t)"
    proof -
      have "\<not> at_candidates_dirty t" and "filter (\<lambda>(key, _). fst key = flow) (at_families t) = []"
        using that by (simp_all add: fields)
      moreover from this(2) have "?keep = at_families t"
        by (auto simp: filter_empty_conv filter_id_conv)
      ultimately show ?thesis
        using hypotheses_okD(4) [OF t] by (simp add: fields all_candidates_def)
    qed
  qed (use hypotheses_okD(2,3) [OF t] in \<open>auto simp: fields at history_snoc split: if_splits\<close>)
qed

lemma same_history_sound:
  "sound cfg events t \<Longrightarrow> (\<And>key. note_event key e (history events key) = history events key) \<Longrightarrow> sound cfg (events @ [e]) t"
  by (rule hypotheses_okI) (auto simp: history_snoc dest: hypotheses_okD)

text \<open>The end of every operation: the candidates are found and the unique one is selected.\<close>

definition selected_ok :: "'w agris_config \<Rightarrow> agris_event list \<Rightarrow> agris_tracker \<Rightarrow> bool" where
  "selected_ok cfg events t \<longleftrightarrow>
     (case at_selected t of
        None \<Rightarrow> sound cfg events t \<and> \<not> at_tracking t
      | Some c \<Rightarrow> hypotheses cfg events = {c})"

lemma find_candidates_sound:
  assumes t: "sound cfg events t" and step: "find_candidates cfg (t, w) = (None, t', w')"
  shows "sound cfg events t'" and "\<not> at_candidates_dirty t'" and "w' = w"
    and "at_selected t' = at_selected t" "at_tracking t' = at_tracking t" "at_families t' = at_families t"
proof -
  have "(t' = t \<and> \<not> at_candidates_dirty t \<or>
      t' = t\<lparr>at_candidates := all_candidates (ao_minimum_updates (agc_options cfg)) t, at_candidates_dirty := False\<rparr>) \<and> w' = w"
    using step by (auto simp: find_candidates_def Let_def split: if_splits)
  then show "sound cfg events t'" and "\<not> at_candidates_dirty t'" and "w' = w"
    and "at_selected t' = at_selected t" "at_tracking t' = at_tracking t" "at_families t' = at_families t"
    using t by (auto simp: hypotheses_ok_def all_candidates_def)
qed

text \<open>A callback that only records.\<close>

definition record_balance :: "agris_balance \<Rightarrow> agris_balance list agris" where
  "record_balance balance s = (None, (fst s, snd s @ [balance]))"

definition recording_agris :: "agris_balance list agris_config \<Rightarrow> bool" where
  "recording_agris cfg \<longleftrightarrow> agc_on_balance cfg = Some record_balance"

lemma publish_records:
  assumes "recording_agris cfg"
  shows "publish_balance cfg (t, w) = (None, t, w @ (case at_latest_balance t of None \<Rightarrow> [] | Some b \<Rightarrow> [b]))"
  using assms by (simp add: publish_balance_def recording_agris_def record_balance_def split: option.split)

lemma settle_sound:
  assumes cfg: "recording_agris cfg" and t: "sound cfg events t" "\<not> at_candidates_dirty t"
    and free: "at_selected t = None" "\<not> at_tracking t"
    and step: "settle cfg (t, w) = (None, t', w')"
  shows "selected_ok cfg events t'"
proof (cases "at_selected t'")
  case None
  have known: "map_of (at_families t) key \<noteq> None" if "at_candidates t = [(key, offset, cap_offset)]" for key offset cap_offset
  proof -
    have "(key, offset, cap_offset) \<in> set (all_candidates (ao_minimum_updates (agc_options cfg)) t)"
      using hypotheses_okD(4) [OF t] that by (metis list.set_intros(1))
    then have "key \<in> fst ` set (at_families t)"
      by (force simp: all_candidates_def set_family_candidates)
    then show ?thesis
      by (simp add: map_of_eq_None_iff)
  qed
  have "at_families t' = at_families t \<and> at_candidates t' = at_candidates t \<and>
      at_candidates_dirty t' = at_candidates_dirty t \<and> \<not> at_tracking t'"
    using step free known None
    by (auto simp: settle_def Let_def publish_records [OF cfg] select_unique_def split: if_splits option.splits list.splits prod.splits)
  then show ?thesis
    using None hypotheses_ok_cong [OF t(1)] by (simp add: selected_ok_def)
next
  case (Some c)
  then have "at_candidates t = [c]"
    using step free
    by (auto simp: settle_def Let_def publish_records [OF cfg] select_unique_def split: if_splits option.splits list.splits prod.splits)
  then show ?thesis
    using Some candidates_hypotheses [OF t(1)] hypotheses_okD(4) [OF t] by (simp add: selected_ok_def hypotheses_def)
qed

section \<open>Runs of the tracker\<close>

fun agris_do :: "'w agris_config \<Rightarrow> agris_event \<Rightarrow> 'w agris" where
  "agris_do cfg (Seen frame) = agris_observe cfg frame"
| "agris_do cfg (Closed flow) = agris_close_flow cfg flow"
| "agris_do cfg (Refreshed now) = agris_refresh cfg now"

definition run_agris :: "'w agris_config \<Rightarrow> agris_event list \<Rightarrow> 'w \<Rightarrow> string option \<times> (agris_tracker \<times> 'w)" where
  "run_agris cfg events w = fold (\<lambda>e. guard (agris_do cfg e)) events (None, (new_agris_tracker, w))"

lemma run_agris_snoc: "run_agris cfg (events @ [e]) w = guard (agris_do cfg e) (run_agris cfg events w)"
  by (simp add: run_agris_def)

text \<open>A tracker at work that has selected nothing yet.\<close>

definition searching :: "'w agris_config \<Rightarrow> agris_event list \<Rightarrow> agris_tracker \<Rightarrow> bool" where
  "searching cfg events t \<longleftrightarrow> sound cfg events t \<and> at_selected t = None \<and> \<not> at_tracking t \<and> at_invalid_reason t = None"

lemma and_then_None: "and_then f g s = (None, s'') \<longleftrightarrow> (\<exists>s'. f s = (None, s') \<and> g s' = (None, s''))"
  by (auto simp: and_then_def split: prod.splits option.splits)

lemma finish_event:
  assumes cfg: "recording_agris cfg" and t: "searching cfg events t"
    and step: "and_then (find_candidates cfg) (settle cfg) (t, w) = (None, t', w')"
  shows "selected_ok cfg events t'"
proof -
  obtain t1 w1 where f: "find_candidates cfg (t, w) = (None, t1, w1)" and s: "settle cfg (t1, w1) = (None, t', w')"
    using step by (auto simp: and_then_None)
  have t': "sound cfg events t" "at_selected t = None" "\<not> at_tracking t"
    using t by (simp_all add: searching_def)
  note found = find_candidates_sound [OF t'(1) f]
  show ?thesis
    by (rule settle_sound [OF cfg found(1,2) _ _ s]) (use t' found(4,5) in simp_all)
qed

lemma refresh_event:
  assumes cfg: "agris_cfg_ok cfg" and t: "searching cfg events t" and step: "agris_refresh cfg now (t, w) = (None, t', w')"
  obtains t1 where "searching cfg events t1" and "at_latest_balance t1 = at_latest_balance t"
    and "and_then (find_candidates cfg) (settle cfg) (t1, w) = (None, t', w')"
proof -
  let ?ending = "and_then (find_candidates cfg) (settle cfg)"
  have s: "searching cfg events (t\<lparr>at_clock := c\<rparr>)" for c
    using t hypotheses_ok_cong [of _ _ events t "t\<lparr>at_clock := c\<rparr>"] by (simp add: searching_def)
  have "?ending (t, w) = (None, t', w') \<or> (\<exists>c. ?ending (t\<lparr>at_clock := c\<rparr>, w) = (None, t', w'))"
    using step cfg t
    by (auto simp: agris_refresh_def agris_cfg_ok_def searching_def Let_def split: option.splits if_splits)
  then show thesis
    using that [OF t] that [OF s] by fastforce
qed

lemma hypotheses_event:
  assumes cfg: "agris_cfg_ok cfg" and t: "searching cfg events t" and long: "\<not> length (fr_message frame) < 5"
    and step: "observe_hypotheses cfg frame (t, w) = (None, t1, w1)"
  shows "searching cfg (events @ [Seen frame]) t1"
proof (cases "plain_frame frame")
  case True
  then have plain: "frame_flag frame = Some 0" "frame_length frame = int (length (fr_message frame))"
    by (simp_all add: plain_frame_def)
  show ?thesis
  proof (cases "map_of (at_families t) (family_key_of frame)")
    case None
    then have "add_family cfg (family_key_of frame) (fr_message frame) (ctx_timestamp (fr_context frame)) (t, w) = (None, t1, w1)"
      using step plain by (simp add: observe_hypotheses_def Let_def)
    moreover from this have "at_invalid_reason t1 = at_invalid_reason t"
      by (auto simp: add_family_def Let_def split: if_splits option.splits)
    ultimately show ?thesis
      using add_family_sound [OF cfg _ None True, of events _ w t1 w1] t by (auto simp: searching_def)
  next
    case (Some family)
    then have "t1 = update_family cfg (family_key_of frame) (fr_message frame) (ctx_timestamp (fr_context frame)) t"
      using step plain by (simp add: observe_hypotheses_def Let_def agris_step_def)
    moreover have "at_selected t1 = at_selected t" "at_tracking t1 = at_tracking t" "at_invalid_reason t1 = at_invalid_reason t"
      by (simp_all add: calculation update_family_def Let_def split: option.split)
    moreover have "sound cfg events t" "at_selected t = None"
      using t by (simp_all add: searching_def)
    note update_family_sound [OF this(1) Some True this(2), of "ctx_timestamp (fr_context frame)"]
    ultimately show ?thesis
      using t by (simp add: searching_def)
  qed
next
  case False
  then have "t1 = t"
    using step long by (auto simp: observe_hypotheses_def plain_frame_def Let_def)
  moreover have "sound cfg (events @ [Seen frame]) t"
    using t False by (intro same_history_sound) (auto simp: searching_def)
  ultimately show ?thesis
    using t by (simp add: searching_def)
qed

lemma hypotheses_quiet:
  "observe_hypotheses cfg frame (t, w) = (None, t', w') \<Longrightarrow> at_latest_balance t' = at_latest_balance t \<and> w' = w"
  by (auto simp: observe_hypotheses_def add_family_def update_family_def agris_step_def Let_def
      split: if_splits option.splits)

text \<open>Every event of a searching tracker updates the table and then looks at the candidates.\<close>

lemma event_ends:
  assumes cfg: "agris_cfg_ok cfg" and t: "searching cfg events t" and step: "agris_do cfg e (t, w) = (None, t', w')"
  obtains t1 where "searching cfg (events @ [e]) t1" and "at_latest_balance t1 = at_latest_balance t"
    and "and_then (find_candidates cfg) (settle cfg) (t1, w) = (None, t', w')"
proof -
  have "\<exists>t1 now. searching cfg (events @ [e]) t1 \<and> at_latest_balance t1 = at_latest_balance t \<and>
      agris_refresh cfg now (t1, w) = (None, t', w')"
  proof (cases e)
    case (Refreshed now)
    have "searching cfg (events @ [e]) t"
      using t Refreshed same_history_sound [of cfg events t e] by (simp add: searching_def)
    then show ?thesis
      using step Refreshed by auto
  next
    case (Closed flow)
    have "searching cfg (events @ [e]) (drop_families flow t)" "at_latest_balance (drop_families flow t) = at_latest_balance t"
      using t Closed drop_families_sound [of cfg events t flow]
      by (simp_all add: searching_def drop_families_def case_prod_unfold)
    moreover have "agris_refresh cfg None (drop_families flow t, w) = (None, t', w')"
      using step Closed t by (simp add: agris_close_flow_def searching_def and_then_def agris_step_def)
    ultimately show ?thesis
      by blast
  next
    case (Seen frame)
    define t0 where "t0 = t\<lparr>at_observed_frames := at_observed_frames t + 1,
      at_clock := py_max (at_clock t) (ctx_timestamp (fr_context frame))\<rparr>"
    have t0: "searching cfg events t0" "at_latest_balance t0 = at_latest_balance t"
      using t hypotheses_ok_cong [of _ _ events t t0] by (simp_all add: searching_def t0_def)
    have obs: "observe_discovery cfg frame (t0, w) = (None, t', w')"
      using step Seen t cfg
      by (auto simp: agris_observe_def searching_def agris_cfg_ok_def t0_def [symmetric] Let_def split: if_splits)
    show ?thesis
    proof (cases "length (fr_message frame) < 5")
      case True
      have "searching cfg (events @ [e]) t0"
        using t0 Seen True same_history_sound [of cfg events t0 e] by (simp add: searching_def plain_frame_def)
      moreover have "agris_refresh cfg None (t0, w) = (None, t', w')"
        using obs True t0 by (simp add: observe_discovery_def searching_def Let_def)
      ultimately show ?thesis
        using t0(2) by blast
    next
      case False
      then obtain t1 w1 where h: "observe_hypotheses cfg frame (t0, w) = (None, t1, w1)"
        and r: "agris_refresh cfg None (t1, w1) = (None, t', w')"
        using obs t0 by (auto simp: observe_discovery_def searching_def Let_def observe_selected_def and_then_None)
      from hypotheses_event [OF cfg t0(1) False h] have "searching cfg (events @ [e]) t1"
        by (simp add: Seen)
      then show ?thesis
        using r hypotheses_quiet [OF h] t0(2) by metis
    qed
  qed
  then show thesis
    using refresh_event [OF cfg] that by metis
qed

lemma event_sound:
  assumes cfg: "recording_agris cfg" "agris_cfg_ok cfg" and t: "searching cfg events t"
    and step: "agris_do cfg e (t, w) = (None, t', w')"
  shows "selected_ok cfg (events @ [e]) t'"
  using event_ends [OF cfg(2) t step] finish_event [OF cfg(1)] by metis

end
