(* ===== verification/Agris_Properties.thy ===== *)
theory Agris_Properties
  imports Agris_Facts Framed_World Manager_Properties
    "HOL-Library.Code_Target_Nat"
begin

text \<open>
  The properties of the Agris tracker: what is discovered, what is reported of it, the limits
  of discovery, and the tracker behind the reassembly.
\<close>

section \<open>Once selected, a layout stays\<close>

lemma decode_selected_None:
  "decode_selected cfg frame (t, w) = (None, t', w') \<Longrightarrow> at_selected t' = at_selected t"
  by (auto simp: decode_selected_def Let_def split: option.splits if_splits)

lemma settle_selected:
  assumes "recording_agris cfg" and "settle cfg (t, w) = (None, t', w')" and "at_selected t = Some c"
  shows "at_selected t' = Some c"
  using assms by (auto simp: settle_def Let_def publish_records split: if_splits option.splits)

lemma refresh_selected:
  assumes cfg: "recording_agris cfg" and "agris_refresh cfg now (t, w) = (None, t', w')" and "at_selected t = Some c"
  shows "at_selected t' = Some c"
proof -
  have "at_selected t1 = at_selected t0" if "find_candidates cfg (t0, w) = (None, t1, w1)" for t0 t1 w1
    using that by (auto simp: find_candidates_def Let_def split: if_splits)
  with assms show ?thesis
    by (auto simp: agris_refresh_def and_then_None Let_def split: option.splits if_splits dest!: settle_selected [OF cfg])
qed

lemma hypotheses_selected:
  "observe_hypotheses cfg frame (t, w) = (None, t', w') \<Longrightarrow> at_selected t' = at_selected t"
  by (auto simp: observe_hypotheses_def add_family_def update_family_def agris_step_def Let_def split: if_splits option.splits)

lemma selected_stays:
  assumes cfg: "recording_agris cfg" "agris_cfg_ok cfg"
    and step: "agris_do cfg e (t, w) = (None, t', w')" and s: "at_selected t = Some c"
  shows "at_selected t' = Some c"
proof (cases e)
  case (Seen frame)
  define t0 where "t0 = t\<lparr>at_observed_frames := at_observed_frames t + 1,
    at_clock := py_max (at_clock t) (ctx_timestamp (fr_context frame))\<rparr>"
  have t0: "at_selected t0 = Some c"
    using s by (simp add: t0_def)
  have obs: "observe_discovery cfg frame (t0, w) = (None, t', w')"
    using step Seen cfg(2)
    by (auto simp: agris_observe_def agris_cfg_ok_def t0_def [symmetric] Let_def split: if_splits option.splits)
  show ?thesis
  proof (cases "length (fr_message frame) < 5")
    case True
    then show ?thesis
      using refresh_selected [OF cfg(1) _ t0] obs by (simp add: observe_discovery_def Let_def split: if_splits)
  next
    case False
    then obtain t1 w1 t2 w2 where 1: "observe_selected cfg frame (t0, w) = (None, t1, w1)"
      and 2: "observe_hypotheses cfg frame (t1, w1) = (None, t2, w2)" and 3: "agris_refresh cfg None (t2, w2) = (None, t', w')"
      using obs by (auto simp: observe_discovery_def Let_def and_then_None split: if_splits)
    have "at_selected t1 = Some c"
      using 1 t0 decode_selected_None [of cfg frame t0 w t1 w1] by (auto simp: observe_selected_def Let_def split: option.splits if_splits prod.splits)
    then show ?thesis
      using hypotheses_selected [OF 2] refresh_selected [OF cfg(1) 3] by simp
  qed
next
  case (Closed flow)
  then show ?thesis
    using step s refresh_selected [OF cfg(1)]
    by (auto simp: agris_close_flow_def and_then_None agris_step_def drop_families_def case_prod_unfold split: if_splits)
next
  case (Refreshed now)
  then show ?thesis
    using refresh_selected [OF cfg(1) _ s] step by simp
qed

lemma select_unique_fields [simp]:
  "at_invalid_reason (select_unique cfg c t) = at_invalid_reason t" "at_families (select_unique cfg c t) = at_families t"
  "at_column_count (select_unique cfg c t) = at_column_count t" "at_candidates (select_unique cfg c t) = at_candidates t"
  "at_tracking (select_unique cfg c t) = at_tracking t"
  by (simp_all add: select_unique_def split: prod.split option.split)

text \<open>What the end of an operation leaves alone, whether it raises or not.\<close>

definition same_table :: "agris_tracker \<Rightarrow> agris_tracker \<Rightarrow> bool" where
  "same_table t t' \<longleftrightarrow> at_families t' = at_families t \<and> at_column_count t' = at_column_count t"

lemma invalidate_table: "agris_invalidate reason (t, w) = (r, t', w') \<Longrightarrow> same_table t t' \<and> at_candidates t' = at_candidates t"
  by (auto simp: agris_invalidate_def same_table_def Let_def)

lemma settle_table:
  assumes "recording_agris cfg" and "settle cfg (t, w) = (r, t', w')"
  shows "same_table t t' \<and> at_candidates t' = at_candidates t \<and> (r = None \<longrightarrow> at_invalid_reason t' = at_invalid_reason t)"
  using assms(2)
  by (auto simp: settle_def publish_records [OF assms(1)] agris_invalidate_def same_table_def Let_def
      split: if_splits option.splits)

lemma find_candidates_table:
  "find_candidates cfg (t, w) = (r, t', w') \<Longrightarrow> same_table t t' \<and> (r = None \<longrightarrow> at_invalid_reason t' = at_invalid_reason t) \<and>
     (int (length (at_candidates t)) \<le> ao_max_candidates (agc_options cfg) \<longrightarrow>
      int (length (at_candidates t')) \<le> ao_max_candidates (agc_options cfg))"
  by (auto simp: find_candidates_def agris_invalidate_def same_table_def Let_def split: if_splits)

section \<open>Limits\<close>

definition bounds_ok :: "'w agris_config \<Rightarrow> agris_tracker \<Rightarrow> bool" where
  "bounds_ok cfg t \<longleftrightarrow>
     distinct (map fst (at_families t)) \<and> at_column_count t = total_columns (at_families t) \<and>
     at_column_count t \<le> ao_max_columns (agc_options cfg) \<and>
     int (length (at_families t)) \<le> ao_max_families (agc_options cfg) \<and>
     int (length (at_candidates t)) \<le> ao_max_candidates (agc_options cfg)"

lemma bounds_table: "bounds_ok cfg t \<Longrightarrow> same_table t t' \<Longrightarrow>
    int (length (at_candidates t')) \<le> ao_max_candidates (agc_options cfg) \<Longrightarrow> bounds_ok cfg t'"
  by (simp add: bounds_ok_def same_table_def)

lemma bounds_candidates: "bounds_ok cfg t \<Longrightarrow> int (length (at_candidates t)) \<le> ao_max_candidates (agc_options cfg)"
  by (simp add: bounds_ok_def)

lemma end_bounds:
  assumes cfg: "recording_agris cfg" and t: "bounds_ok cfg t"
    and step: "and_then (find_candidates cfg) (settle cfg) (t, w) = (r, t', w')"
  shows "bounds_ok cfg t' \<and> (r = None \<longrightarrow> at_invalid_reason t' = at_invalid_reason t)"
proof -
  obtain r1 t1 w1 where f: "find_candidates cfg (t, w) = (r1, t1, w1)"
    by (metis prod_cases3)
  have 1: "bounds_ok cfg t1"
    by (rule bounds_table [OF t]) (use find_candidates_table [OF f] bounds_candidates [OF t] in simp_all)
  show ?thesis
  proof (cases r1)
    case None
    then have s: "settle cfg (t1, w1) = (r, t', w')"
      using step f by (simp add: and_then_def)
    from settle_table [OF cfg s] 1 find_candidates_table [OF f] None show ?thesis
      by (auto intro: bounds_table bounds_candidates simp: bounds_candidates)
  next
    case (Some reason)
    then show ?thesis
      using step f 1 by (auto simp: and_then_def)
  qed
qed

lemma bounds_fields [simp]:
  "bounds_ok cfg (t\<lparr>at_clock := c\<rparr>) = bounds_ok cfg t"
  "bounds_ok cfg (t\<lparr>at_invalid_reason := y\<rparr>) = bounds_ok cfg t"
  "bounds_ok cfg (t\<lparr>at_tracking := b''\<rparr>) = bounds_ok cfg t"
  "bounds_ok cfg (t\<lparr>at_selected := x\<rparr>) = bounds_ok cfg t"
  "bounds_ok cfg (t\<lparr>at_observed_frames := n\<rparr>) = bounds_ok cfg t"
  "bounds_ok cfg (t\<lparr>at_latest_balance := b, at_selected_version := n\<rparr>) = bounds_ok cfg t"
  "bounds_ok cfg (t\<lparr>at_invalid_reason := x', at_tracking := b'\<rparr>) = bounds_ok cfg t"
  by (simp_all add: bounds_ok_def)

lemma refresh_bounds:
  assumes cfg: "recording_agris cfg" and t: "bounds_ok cfg t" and step: "agris_refresh cfg now (t, w) = (r, t', w')"
  shows "bounds_ok cfg t' \<and> (r = None \<longrightarrow> at_invalid_reason t' = at_invalid_reason t)"
proof -
  have "bounds_ok cfg (t\<lparr>at_clock := c\<rparr>)" for c
    using t by simp
  note clock = end_bounds [OF cfg this]
  from step t show ?thesis
    by (auto simp: agris_refresh_def Let_def split: option.splits if_splits dest!: end_bounds [OF cfg t] clock)
qed

lemma total_columns_update:
  "distinct (map fst d) \<Longrightarrow> map_of d k = Some family \<Longrightarrow> total_columns (AList.update k family' d) =
     total_columns d - int (length (fam_columns family)) + int (length (fam_columns family'))"
  by (induction d) (auto simp: total_columns_def dest: weak_map_of_SomeI split: if_splits)

lemma total_columns_filter:
  "total_columns (filter P d) + total_columns (filter (\<lambda>x. \<not> P x) d) = total_columns d"
  by (induction d) (auto simp: total_columns_def)

lemma total_columns_nonneg: "0 \<le> total_columns d"
  by (induction d) (auto simp: total_columns_def)

lemma length_map_filter_le: "length (List.map_filter f xs) \<le> length xs"
  by (induction xs) (auto simp: map_filter_simps split: option.split)

lemma add_family_bounds:
  assumes t: "bounds_ok cfg t" and fresh: "map_of (at_families t) key = None"
    and step: "add_family cfg key message observed_at (t, w) = (r, t', w')"
  shows "bounds_ok cfg t' \<and> (r = None \<longrightarrow> at_invalid_reason t' = at_invalid_reason t)"
proof (cases r)
  case (Some reason)
  then show ?thesis
    using step t by (auto simp: add_family_def agris_invalidate_def Let_def split: if_splits option.splits)
next
  case None
  let ?e = "agc_expected_maximum_points cfg"
  let ?caps = "set (occurrences (to_le 4 ?e) message 5)"
  obtain columns where columns: "(if ?caps = {} then Some [] else
      new_columns ?e (ao_max_columns (agc_options cfg)) (at_column_count t) message [5 .. int (length message) - 4] []) = Some columns"
    and t': "t' = t\<lparr>at_column_count := at_column_count t + int (length columns),
      at_families := at_families t @ [(key, \<lparr>fam_caps = ?caps, fam_columns = columns, fam_observed_at = observed_at\<rparr>)],
      at_candidates_dirty := True\<rparr>"
    and room: "int (length (at_families t)) < ao_max_families (agc_options cfg)"
    using step None by (auto simp: add_family_def Let_def split: if_splits option.splits)
  have "at_column_count t + int (length columns) \<le> ao_max_columns (agc_options cfg)"
    using columns t new_columns_bound [of ?e _ "at_column_count t" message _ "[]" columns]
    by (fastforce simp: bounds_ok_def split: if_splits)
  then show ?thesis
    using t fresh room by (auto simp: t' bounds_ok_def total_columns_def map_of_eq_None_iff)
qed

lemma update_family_bounds:
  assumes t: "bounds_ok cfg t"
  shows "bounds_ok cfg (update_family cfg key message observed_at t)"
proof (cases "map_of (at_families t) key")
  case (Some family)
  define family' where "family' = \<lparr>fam_caps = surviving_caps (agc_expected_maximum_points cfg) message (fam_caps family),
    fam_columns = List.map_filter (update_column (agc_expected_maximum_points cfg) (ao_minimum_updates (agc_options cfg))
      (surviving_caps (agc_expected_maximum_points cfg) message (fam_caps family)) message
      (\<lambda>offset. case at_selected t of None \<Rightarrow> False | Some (k, o', _) \<Rightarrow> k = key \<and> o' = offset)) (fam_columns family),
    fam_observed_at = observed_at\<rparr>"
  have eq: "update_family cfg key message observed_at t = t\<lparr>at_families := AList.update key family' (at_families t),
      at_column_count := at_column_count t - (int (length (fam_columns family)) - int (length (fam_columns family'))),
      at_candidates_dirty := True\<rparr>"
    using Some by (simp add: update_family_def family'_def Let_def)
  have dist: "distinct (map fst (at_families t))"
    using t by (simp add: bounds_ok_def)
  have "length (fam_columns family') \<le> length (fam_columns family)"
    by (simp add: family'_def length_map_filter_le)
  moreover have "key \<in> fst ` set (at_families t)"
    using Some map_of_SomeD by force
  ultimately show ?thesis
    unfolding eq using t total_columns_update [OF dist Some, of family']
    by (auto simp: bounds_ok_def AList.distinct_update dict_simps)
qed (use t in \<open>simp add: update_family_def\<close>)

lemma drop_families_bounds:
  assumes t: "bounds_ok cfg t"
  shows "bounds_ok cfg (drop_families flow t)"
proof -
  let ?gone = "\<lambda>(key, _). fst key = flow"
  have eq: "at_families (drop_families flow t) = filter (\<lambda>x. \<not> ?gone x) (at_families t)"
      "at_column_count (drop_families flow t) = at_column_count t - total_columns (filter ?gone (at_families t))"
      "at_candidates (drop_families flow t) = at_candidates t"
    by (simp_all add: drop_families_def partition_filter_conv comp_def total_columns_def)
  have "int (length (filter (\<lambda>x. \<not> ?gone x) (at_families t))) \<le> ao_max_families (agc_options cfg)"
    using t length_filter_le [of "\<lambda>x. \<not> ?gone x" "at_families t"] unfolding bounds_ok_def by linarith
  then show ?thesis
    using t total_columns_filter [of ?gone "at_families t"] total_columns_nonneg [of "filter ?gone (at_families t)"]
    unfolding bounds_ok_def eq by (simp add: distinct_map_filter)
qed

text \<open>Every operation keeps the limits, also when it raises, and none but a failing one invalidates.\<close>

lemma observe_selected_bounds:
  "bounds_ok cfg t \<Longrightarrow> observe_selected cfg frame (t, w) = (r, t', w') \<Longrightarrow>
     bounds_ok cfg t' \<and> (r = None \<longrightarrow> at_invalid_reason t' = at_invalid_reason t)"
  by (auto simp: observe_selected_def decode_selected_def agris_invalidate_def Let_def split: option.splits if_splits prod.splits)

lemma update_family_valid [simp]: "at_invalid_reason (update_family cfg key message q t) = at_invalid_reason t"
  by (simp add: update_family_def Let_def split: option.split)

lemma observe_hypotheses_bounds:
  "bounds_ok cfg t \<Longrightarrow> observe_hypotheses cfg frame (t, w) = (r, t', w') \<Longrightarrow>
     bounds_ok cfg t' \<and> (r = None \<longrightarrow> at_invalid_reason t' = at_invalid_reason t)"
  by (auto simp: observe_hypotheses_def Let_def agris_step_def update_family_bounds split: if_splits dest: add_family_bounds)

lemma and_then_keeps:
  assumes "and_then f g s = (r, s'')"
    and "\<And>r1 s1. f s = (r1, s1) \<Longrightarrow> P s1 \<and> (r1 = None \<longrightarrow> Q s1)"
    and "\<And>s1. f s = (None, s1) \<Longrightarrow> g s1 = (r, s'') \<Longrightarrow> P s1 \<Longrightarrow> Q s1 \<Longrightarrow> P s'' \<and> (r = None \<longrightarrow> Q s'')"
  shows "P s'' \<and> (r = None \<longrightarrow> Q s'')"
proof -
  obtain r1 s1 where f: "f s = (r1, s1)"
    by (meson surj_pair)
  from assms(2) [OF f] assms(1,3) f show ?thesis
    by (cases r1) (auto simp: and_then_def)
qed

lemma do_bounds:
  assumes cfg: "recording_agris cfg" "agris_cfg_ok cfg" and t: "bounds_ok cfg t"
    and step: "agris_do cfg e (t, w) = (r, t', w')"
  shows "bounds_ok cfg t' \<and> (r = None \<longrightarrow> at_invalid_reason t' = at_invalid_reason t)"
proof (cases e)
  case (Refreshed now)
  then show ?thesis
    using refresh_bounds [OF cfg(1) t] step by simp
next
  case (Closed flow)
  have "at_invalid_reason (drop_families flow t) = at_invalid_reason t"
    by (simp add: drop_families_def case_prod_unfold)
  then show ?thesis
    using step Closed t refresh_bounds [OF cfg(1) drop_families_bounds [OF t]]
    by (auto simp: agris_close_flow_def agris_invalidate_def and_then_def agris_step_def Let_def split: if_splits)
next
  case (Seen frame)
  define t0 where "t0 = t\<lparr>at_observed_frames := at_observed_frames t + 1,
    at_clock := py_max (at_clock t) (ctx_timestamp (fr_context frame))\<rparr>"
  have t0: "bounds_ok cfg t0" "at_invalid_reason t0 = at_invalid_reason t"
    using t by (simp_all add: t0_def)
  let ?rest = "and_then (observe_hypotheses cfg frame) (agris_refresh cfg None)"
  have tail: "bounds_ok cfg t' \<and> (r = None \<longrightarrow> at_invalid_reason t' = at_invalid_reason t)"
    if "and_then (observe_selected cfg frame) ?rest (t0, w) = (r, t', w')"
  proof -
    have "bounds_ok cfg (fst (t', w')) \<and> (r = None \<longrightarrow> at_invalid_reason (fst (t', w')) = at_invalid_reason t)"
    proof (rule and_then_keeps [OF that, where P = "\<lambda>s. bounds_ok cfg (fst s)" and Q = "\<lambda>s. at_invalid_reason (fst s) = at_invalid_reason t"])
      show "bounds_ok cfg (fst s1) \<and> (r1 = None \<longrightarrow> at_invalid_reason (fst s1) = at_invalid_reason t)"
        if "observe_selected cfg frame (t0, w) = (r1, s1)" for r1 s1
        using observe_selected_bounds [OF t0(1), of frame w r1 "fst s1" "snd s1"] that t0(2) by simp
    next
      fix s1
      assume s1: "bounds_ok cfg (fst s1)" "at_invalid_reason (fst s1) = at_invalid_reason t" and r: "?rest s1 = (r, t', w')"
      show "bounds_ok cfg (fst (t', w')) \<and> (r = None \<longrightarrow> at_invalid_reason (fst (t', w')) = at_invalid_reason t)"
      proof (rule and_then_keeps [OF r, where P = "\<lambda>s. bounds_ok cfg (fst s)" and Q = "\<lambda>s. at_invalid_reason (fst s) = at_invalid_reason t"])
        show "bounds_ok cfg (fst s2) \<and> (r2 = None \<longrightarrow> at_invalid_reason (fst s2) = at_invalid_reason t)"
          if "observe_hypotheses cfg frame s1 = (r2, s2)" for r2 s2
          using observe_hypotheses_bounds [OF s1(1), of frame "snd s1" r2 "fst s2" "snd s2"] that s1(2) by simp
        show "bounds_ok cfg (fst (t', w')) \<and> (r = None \<longrightarrow> at_invalid_reason (fst (t', w')) = at_invalid_reason t)"
          if "agris_refresh cfg None s2 = (r, t', w')" "bounds_ok cfg (fst s2)" "at_invalid_reason (fst s2) = at_invalid_reason t" for s2
          using refresh_bounds [OF cfg(1) that(2), of None "snd s2"] that by simp
      qed
    qed
    then show ?thesis
      by simp
  qed
  have inv: "bounds_ok cfg t' \<and> (r = None \<longrightarrow> at_invalid_reason t' = at_invalid_reason t)"
    if "agris_invalidate reason (t1, w) = (r, t', w')" "bounds_ok cfg t1" for reason t1
    using that by (auto simp: agris_invalidate_def Let_def)
  consider "r \<noteq> None" "t' = t" | reason where "agris_invalidate reason (t, w) = (r, t', w')"
    | "observe_discovery cfg frame (t0, w) = (r, t', w')"
  proof (cases "at_invalid_reason t")
    case None
    then show ?thesis
      using that(2,3) step Seen cfg(2)
      by (simp add: agris_observe_def agris_cfg_ok_def t0_def [symmetric] Let_def split: if_splits)
  next
    case (Some reason)
    then have "r = Some reason \<and> t' = t"
      using step Seen by (simp add: agris_observe_def)
    then show ?thesis
      using that(1) by blast
  qed
  then show ?thesis
  proof cases
    case 3
    then consider reason where "agris_invalidate reason (t0, w) = (r, t', w')"
      | "agris_refresh cfg None (t0, w) = (r, t', w')"
      | "and_then (observe_selected cfg frame) ?rest (t0, w) = (r, t', w')"
      by (auto simp: observe_discovery_def Let_def split: if_splits)
    then show ?thesis
    proof cases
      case 2
      then show ?thesis
        using refresh_bounds [OF cfg(1) t0(1)] t0(2) by metis
    qed (use inv t0(1) tail in blast)+
  qed (use t inv in blast)+
qed

section \<open>Balances\<close>

text \<open>A balance of the selected layout: under the cap, and of the selected connection.\<close>

definition balance_ok :: "'w agris_config \<Rightarrow> candidate_key \<Rightarrow> agris_balance \<Rightarrow> bool" where
  "balance_ok cfg c b \<longleftrightarrow>
     ab_maximum_points b = agc_expected_maximum_points cfg \<and> 0 \<le> ab_remaining_points b \<and>
     ab_remaining_points b \<le> ab_maximum_points b \<and>
     ab_flow b = fst (fst c) \<and> ab_connection_epoch b = fst (snd (fst c))"

lemma uint32_nonneg: "0 \<le> uint32_at m k"
  by (simp add: uint32_at_def)

text \<open>The balances of an operation on a tracker that has selected \<open>c\<close>.\<close>

definition books :: "'w agris_config \<Rightarrow> candidate_key \<Rightarrow> agris_tracker \<Rightarrow> agris_balance list \<Rightarrow> bool" where
  "books cfg c t out \<longleftrightarrow> list_all (balance_ok cfg c) out \<and> (\<forall>b. at_latest_balance t = Some b \<longrightarrow> balance_ok cfg c b)"

lemma settle_books:
  assumes "recording_agris cfg" and "settle cfg (t, out) = (None, t', out')" and "at_selected t = Some c" and "books cfg c t out"
  shows "books cfg c t' out'"
  using assms(2-4)
  by (auto simp: settle_def Let_def publish_records [OF assms(1)] books_def split: if_splits option.splits)

lemma refresh_books:
  assumes cfg: "recording_agris cfg" and "agris_refresh cfg now (t, out) = (None, t', out')" and s: "at_selected t = Some c"
    and "books cfg c t out"
  shows "books cfg c t' out'"
proof -
  have ending: "books cfg c t' out'" if e: "and_then (find_candidates cfg) (settle cfg) (t0, out) = (None, t', out')"
    and s0: "at_selected t0 = Some c" and b0: "books cfg c t0 out" for t0
  proof -
    obtain t1 w1 where f: "find_candidates cfg (t0, out) = (None, t1, w1)" and g: "settle cfg (t1, w1) = (None, t', out')"
      using e by (auto simp: and_then_None)
    from f have "at_selected t1 = at_selected t0" "at_latest_balance t1 = at_latest_balance t0" "w1 = out"
      by (auto simp: find_candidates_def Let_def split: if_splits)
    note same = this
    have "at_selected t1 = Some c"
      by (simp only: same(1) s0)
    moreover have "books cfg c t1 w1"
      using b0 unfolding books_def same(2,3) .
    ultimately show ?thesis
      by (rule settle_books [OF cfg g])
  qed
  have clock: "books cfg c (t\<lparr>at_clock := m\<rparr>) out" for m
    using assms(4) by (simp add: books_def)
  let ?ending = "and_then (find_candidates cfg) (settle cfg)"
  have part: "books cfg c t' out'"
    if "(if P then (None, t0, out) else ?ending (t0, out)) = (None, t', out')" "at_selected t0 = Some c" "books cfg c t0 out"
    for P t0
  proof (cases P)
    case True
    from that(1) [unfolded if_P [OF True]] have "t' = t0" "out' = out"
      by simp_all
    with that(3) show ?thesis
      by simp
  next
    case False
    show ?thesis
      by (rule ending [OF that(1) [unfolded if_not_P [OF False]] that(2,3)])
  qed
  show ?thesis
  proof (cases now)
    case None
    with assms(2) have "(if at_invalid_reason t \<noteq> None \<or> agc_profile_layout cfg \<noteq> None then (None, t, out)
        else ?ending (t, out)) = (None, t', out')"
      by (simp only: agris_refresh_def option.case fst_conv)
    then show ?thesis
      by (rule part) (use s assms(4) in simp_all)
  next
    case (Some moment)
    let ?t = "t\<lparr>at_clock := py_max (at_clock t) moment\<rparr>"
    from assms(2) Some have "isfinite moment"
      by (simp add: agris_refresh_def split: if_splits)
    with assms(2) Some have "(if at_invalid_reason ?t \<noteq> None \<or> agc_profile_layout cfg \<noteq> None then (None, ?t, out)
        else ?ending (?t, out)) = (None, t', out')"
      by (simp only: agris_refresh_def option.case fst_conv snd_conv Let_def not_True_eq_False if_False)
    then show ?thesis
      by (rule part) (use s clock in simp_all)
  qed
qed

lemma decode_books:
  assumes "decode_selected cfg frame (t, out) = (None, t', out')" and "at_selected t = Some c" and "books cfg c t out"
    and "fst c = family_key_of frame"
  shows "books cfg c t' out'"
  using assms
  by (cases c) (auto simp: decode_selected_def Let_def books_def balance_ok_def uint32_nonneg family_key_of_def split: if_splits)

lemma do_books:
  assumes cfg: "recording_agris cfg" "agris_cfg_ok cfg"
    and step: "agris_do cfg e (t, out) = (None, t', out')" and s: "at_selected t = Some c" and b: "books cfg c t out"
  shows "books cfg c t' out'"
proof (cases e)
  case (Refreshed now)
  then show ?thesis
    using refresh_books [OF cfg(1) _ s b] step by simp
next
  case (Closed flow)
  have "at_selected (drop_families flow t) = Some c" "books cfg c (drop_families flow t) out"
    using s b by (simp_all add: drop_families_def case_prod_unfold books_def)
  then show ?thesis
    using step Closed refresh_books [OF cfg(1)]
    by (auto simp: agris_close_flow_def and_then_None agris_step_def split: if_splits)
next
  case (Seen frame)
  define t0 where "t0 = t\<lparr>at_observed_frames := at_observed_frames t + 1,
    at_clock := py_max (at_clock t) (ctx_timestamp (fr_context frame))\<rparr>"
  have t0: "at_selected t0 = Some c" "books cfg c t0 out"
    using s b by (simp_all add: t0_def books_def)
  have obs: "observe_discovery cfg frame (t0, out) = (None, t', out')"
    using step Seen cfg(2)
    by (auto simp: agris_observe_def agris_cfg_ok_def t0_def [symmetric] Let_def split: if_splits option.splits)
  show ?thesis
  proof (cases "length (fr_message frame) < 5")
    case True
    then show ?thesis
      using refresh_books [OF cfg(1) _ t0] obs by (simp add: observe_discovery_def Let_def split: if_splits)
  next
    case False
    then obtain t1 w1 t2 w2 where 1: "observe_selected cfg frame (t0, out) = (None, t1, w1)"
      and 2: "observe_hypotheses cfg frame (t1, w1) = (None, t2, w2)" and 3: "agris_refresh cfg None (t2, w2) = (None, t', out')"
      using obs by (auto simp: observe_discovery_def Let_def and_then_None split: if_splits)
    have "at_selected t1 = Some c \<and> books cfg c t1 w1"
      using 1 t0 decode_selected_None [of cfg frame t0 out t1 w1] decode_books [OF _ t0, of frame t1 w1]
      by (cases c) (auto simp: observe_selected_def Let_def split: if_splits)
    then show ?thesis
      using hypotheses_quiet [OF 2] hypotheses_selected [OF 2] refresh_books [OF cfg(1) 3] by (simp add: books_def)
  qed
qed

lemma sound_columns:
  assumes "sound cfg events t" and "map_of (at_families t) key = Some family"
    and "map_of (fam_columns family) offset = Some column"
  shows "0 \<le> col_last column" and "col_last column \<le> agc_expected_maximum_points cfg"
proof -
  let ?ms = "history events key" and ?e = "agc_expected_maximum_points cfg"
  have f: "family_ok ?e (ao_minimum_updates (agc_options cfg)) key ?ms family"
    by (rule hypotheses_okD(3) [OF assms(1,2)])
  from f [unfolded family_ok_def, THEN conjunct2, THEN conjunct2, THEN conjunct2, THEN conjunct2, THEN spec, of offset]
  have "consistent ?e key ?ms offset" and column: "col_last column = last (values_at ?ms offset)"
    using assms(3) by (auto simp: column_of_def split: if_splits)
  moreover have "?ms \<noteq> []"
    using f by (simp add: family_ok_def)
  then have "last (values_at ?ms offset) \<in> set (values_at ?ms offset)"
    by (intro last_in_set) (simp add: values_at_def)
  ultimately show "0 \<le> col_last column" and "col_last column \<le> ?e"
    by (auto simp: consistent_def decreasing_to_def list_all_iff values_at_def uint32_nonneg)
qed

text \<open>The first balance: of the hypothesis that has just been selected, and published at once.\<close>

definition first_ok :: "'w agris_config \<Rightarrow> agris_tracker \<Rightarrow> agris_balance list \<Rightarrow> bool" where
  "first_ok cfg t out \<longleftrightarrow>
     (case at_selected t of None \<Rightarrow> out = [] \<and> at_latest_balance t = None | Some c \<Rightarrow> books cfg c t out)"

lemma select_unique_first:
  assumes "sound cfg events t0" and "at_families t = at_families t0" and "at_selected t = None" and "at_latest_balance t = None"
  shows "first_ok cfg (select_unique cfg c t) (case at_latest_balance (select_unique cfg c t) of None \<Rightarrow> [] | Some b \<Rightarrow> [b])"
proof -
  obtain key offset cap_offset where c: "c = (key, offset, cap_offset)"
    by (metis prod_cases3)
  show ?thesis
  proof (cases "map_of (at_families t0) key")
    case None
    then show ?thesis
      using assms by (simp add: first_ok_def select_unique_def c)
  next
    case (Some family)
    then show ?thesis
      using assms sound_columns [OF assms(1) Some]
      by (cases "map_of (fam_columns family) offset") (auto simp: first_ok_def select_unique_def c books_def balance_ok_def)
  qed
qed

lemma first_ok_cong:
  "at_selected t' = at_selected t \<Longrightarrow> at_latest_balance t' = at_latest_balance t \<Longrightarrow> first_ok cfg t' out = first_ok cfg t out"
  by (simp add: first_ok_def books_def split: option.split)

lemma first_ok_tracking: "first_ok cfg (t\<lparr>at_tracking := b, at_published_version := v\<rparr>) out = first_ok cfg t out"
  by (rule first_ok_cong) simp_all

lemma settle_first:
  assumes cfg: "recording_agris cfg" and t: "sound cfg events t"
    and free: "at_selected t = None" "\<not> at_tracking t" "at_latest_balance t = None"
    and step: "settle cfg (t, []) = (None, t', out')"
  shows "first_ok cfg t' out'"
proof -
  define u where "u = (case at_candidates t of [candidate] \<Rightarrow> Some candidate | _ \<Rightarrow> None)"
  define t1 where "t1 = (if u \<noteq> at_unique t then t\<lparr>at_unique := u, at_unique_since := at_clock t\<rparr> else t)"
  define t2 where "t2 = t1\<lparr>at_tracking := False\<rparr>"
  define settled where "settled \<longleftrightarrow> u \<noteq> None \<and> at_clock t2 - at_unique_since t2 \<ge> ao_settle_seconds (agc_options cfg)"
  note step' = step [unfolded settle_def fst_conv snd_conv Let_def, folded u_def, folded t1_def, folded t2_def, folded settled_def]
  have t2: "at_families t2 = at_families t" "at_selected t2 = None" "at_latest_balance t2 = None"
      "\<not> at_tracking t2" and t1: "\<not> at_tracking t1"
    using free by (simp_all add: t2_def t1_def)
  show ?thesis
  proof (cases settled)
    case False
    then have "t' = t2 \<and> out' = []"
      using step' t2(4) by auto
    then show ?thesis
      using t2 by (simp add: first_ok_def)
  next
    case True
    then obtain c where c: "u = Some c"
      by (auto simp: settled_def)
    have "publish_balance cfg ((select_unique cfg c t2)\<lparr>at_tracking := True,
        at_published_version := at_selected_version (select_unique cfg c t2)\<rparr>, []) = (None, t', out')"
      using step' True t1 t2(2) c by simp
    then have "out' = (case at_latest_balance (select_unique cfg c t2) of None \<Rightarrow> [] | Some b \<Rightarrow> [b])"
      and "t' = (select_unique cfg c t2)\<lparr>at_tracking := True,
        at_published_version := at_selected_version (select_unique cfg c t2)\<rparr>"
      by (simp_all add: publish_records [OF cfg])
    then show ?thesis
      using select_unique_first [OF t t2(1-3), of c] by (simp add: first_ok_tracking)
  qed
qed

lemma event_first:
  assumes cfg: "recording_agris cfg" "agris_cfg_ok cfg" and t: "searching cfg events t" "at_latest_balance t = None"
    and step: "agris_do cfg e (t, []) = (None, t', out')"
  shows "first_ok cfg t' out'"
proof -
  obtain t1 where t1: "searching cfg (events @ [e]) t1" "at_latest_balance t1 = None"
    and "and_then (find_candidates cfg) (settle cfg) (t1, []) = (None, t', out')"
    using event_ends [OF cfg(2) t(1) step] t(2) by metis
  then obtain t2 w2 where f: "find_candidates cfg (t1, []) = (None, t2, w2)" and s: "settle cfg (t2, w2) = (None, t', out')"
    by (auto simp: and_then_None)
  have "sound cfg (events @ [e]) t1" "at_selected t1 = None" "\<not> at_tracking t1"
    using t1(1) by (simp_all add: searching_def)
  note found = find_candidates_sound [OF this(1) f]
  have "at_latest_balance t2 = None"
    using f t1(2) by (auto simp: find_candidates_def Let_def split: if_splits)
  then show ?thesis
    using settle_first [OF cfg(1) found(1)] s found(3-5) \<open>at_selected t1 = None\<close> \<open>\<not> at_tracking t1\<close> by simp
qed

section \<open>Runs\<close>

lemma run_agris_Nil [simp]: "run_agris cfg [] w = (None, new_agris_tracker, w)"
  by (simp add: run_agris_def)

lemma new_tracker_bounds: "agris_options_init (agc_options cfg) = Inr options \<Longrightarrow> bounds_ok cfg new_agris_tracker"
  by (auto simp: agris_options_init_def bounds_ok_def new_agris_tracker_def total_columns_def split: if_splits)

lemma run_bounds:
  assumes cfg: "recording_agris cfg" "agris_cfg_ok cfg" and options: "agris_options_init (agc_options cfg) = Inr options"
  shows "run_agris cfg events out0 = (r, t, out) \<Longrightarrow> bounds_ok cfg t \<and> (r = None \<longrightarrow> at_invalid_reason t = None)"
proof (induction events arbitrary: r t out rule: rev_induct)
  case Nil
  then show ?case
    using new_tracker_bounds [OF options] by (auto simp: new_agris_tracker_def)
next
  case (snoc e events)
  obtain r1 t1 out1 where run: "run_agris cfg events out0 = (r1, t1, out1)"
    by (metis prod_cases3)
  note IH = snoc.IH [OF run]
  show ?case
  proof (cases r1)
    case None
    then have "agris_do cfg e (t1, out1) = (r, t, out)"
      using snoc.prems run by (simp add: run_agris_snoc guard_def)
    then show ?thesis
      using do_bounds [OF cfg, of t1 e out1 r t out] IH None by simp
  next
    case (Some reason)
    then show ?thesis
      using snoc.prems run IH by (simp add: run_agris_snoc)
  qed
qed

text \<open>What a run of the recording tracker has come to.\<close>

definition progress :: "agris_balance list agris_config \<Rightarrow> agris_event list \<Rightarrow> agris_tracker \<Rightarrow> agris_balance list \<Rightarrow> bool" where
  "progress cfg events t out \<longleftrightarrow>
     (case at_selected t of
        None \<Rightarrow> searching cfg events t \<and> out = [] \<and> at_latest_balance t = None
      | Some c \<Rightarrow> books cfg c t out \<and>
          (\<exists>n \<le> length events. hypotheses cfg (take n events) = {c}))"

lemma progress_step:
  assumes cfg: "recording_agris cfg" "agris_cfg_ok cfg" and p: "progress cfg events t out"
    and step: "agris_do cfg e (t, out) = (None, t', out')" and valid: "at_invalid_reason t' = None"
  shows "progress cfg (events @ [e]) t' out'"
proof (cases "at_selected t")
  case None
  then have t: "searching cfg events t" "at_latest_balance t = None" and out: "out = []"
    using p by (simp_all add: progress_def)
  have "selected_ok cfg (events @ [e]) t'" and "first_ok cfg t' out'"
    using event_sound [OF cfg t(1) step] event_first [OF cfg t] step out by simp_all
  then show ?thesis
  proof (cases "at_selected t'")
    case None
    then show ?thesis
      using \<open>selected_ok cfg (events @ [e]) t'\<close> \<open>first_ok cfg t' out'\<close> valid
      by (simp add: progress_def selected_ok_def first_ok_def searching_def)
  next
    case (Some c)
    then have "hypotheses cfg (take (length (events @ [e])) (events @ [e])) = {c}" and "books cfg c t' out'"
      using \<open>selected_ok cfg (events @ [e]) t'\<close> \<open>first_ok cfg t' out'\<close>
      by (simp_all add: selected_ok_def first_ok_def)
    then show ?thesis
      unfolding progress_def Some option.case by (intro conjI exI [of _ "length (events @ [e])"] order_refl)
  qed
next
  case (Some c)
  then obtain n where n: "n \<le> length events" "books cfg c t out" "hypotheses cfg (take n events) = {c}"
    using p unfolding progress_def by auto
  then have "n \<le> length (events @ [e]) \<and> hypotheses cfg (take n (events @ [e])) = {c}"
    by simp
  then show ?thesis
    using selected_stays [OF cfg step Some] do_books [OF cfg step Some n(2)] unfolding progress_def by auto
qed

lemma run_progress:
  assumes cfg: "recording_agris cfg" "agris_cfg_ok cfg" and options: "agris_options_init (agc_options cfg) = Inr options"
  shows "run_agris cfg events [] = (None, t, out) \<Longrightarrow> progress cfg events t out"
proof (induction events arbitrary: t out rule: rev_induct)
  case Nil
  have "hypotheses_ok e m [] new_agris_tracker" for e m
    by (rule hypotheses_okI) (simp_all add: new_agris_tracker_def history_def all_candidates_def)
  then show ?case
    using Nil by (auto simp: progress_def new_agris_tracker_def searching_def)
next
  case (snoc e events)
  obtain r1 t1 out1 where run: "run_agris cfg events [] = (r1, t1, out1)"
    by (metis prod_cases3)
  with snoc.prems have "r1 = None" and step: "agris_do cfg e (t1, out1) = (None, t, out)"
    by (auto simp: run_agris_snoc guard_def split: option.splits)
  then show ?case
    using progress_step [OF cfg snoc.IH step] run run_bounds [OF cfg options snoc.prems] by simp
qed


text \<open>Whatever raises has invalidated the tracker for the same reason, a time that is not finite apart.\<close>

lemma end_raises:
  assumes cfg: "recording_agris cfg" and step: "and_then (find_candidates cfg) (settle cfg) (t, w) = (Some reason, t', w')"
  shows "at_invalid_reason t' = Some reason"
  using step
  by (auto simp: and_then_def find_candidates_def settle_def publish_records [OF cfg] agris_invalidate_def Let_def
      split: if_splits option.splits prod.splits)

lemma refresh_raises:
  assumes cfg: "recording_agris cfg" and step: "agris_refresh cfg now (t, w) = (Some reason, t', w')"
  shows "at_invalid_reason t' = Some reason \<or> reason = ''now must be finite''"
  using step by (auto simp: agris_refresh_def Let_def split: option.splits if_splits dest: end_raises [OF cfg])

lemma invalidate_raised: "agris_invalidate text' s = (Some reason, t', w') \<Longrightarrow> at_invalid_reason t' = Some reason"
  by (auto simp: agris_invalidate_def Let_def)

lemma and_then_raised:
  "and_then f g s = (Some reason, s'') \<longleftrightarrow> f s = (Some reason, s'') \<or> (\<exists>s'. f s = (None, s') \<and> g s' = (Some reason, s''))"
  by (auto simp: and_then_def split: prod.split option.split)

lemma observe_raises:
  "observe_selected cfg frame s = (Some reason, t', w') \<Longrightarrow> at_invalid_reason t' = Some reason"
  "observe_hypotheses cfg frame s = (Some reason, t', w') \<Longrightarrow> at_invalid_reason t' = Some reason"
  by (auto simp: observe_selected_def decode_selected_def observe_hypotheses_def add_family_def agris_step_def Let_def
      split: if_splits option.splits prod.splits dest: invalidate_raised)

lemma do_raises:
  assumes cfg: "recording_agris cfg" "agris_cfg_ok cfg" and step: "agris_do cfg e (t, w) = (Some reason, t', w')"
  shows "at_invalid_reason t' = Some reason \<or> reason = ''now must be finite''"
proof (cases e)
  case (Refreshed now)
  then show ?thesis
    using refresh_raises [OF cfg(1)] step by simp
next
  case (Closed flow)
  then show ?thesis
    using step refresh_raises [OF cfg(1)]
    by (auto simp: agris_close_flow_def and_then_raised agris_step_def split: if_splits dest: invalidate_raised)
next
  case (Seen frame)
  define t0 where "t0 = t\<lparr>at_observed_frames := at_observed_frames t + 1,
    at_clock := py_max (at_clock t) (ctx_timestamp (fr_context frame))\<rparr>"
  show ?thesis
  proof (cases "observe_discovery cfg frame (t0, w) = (Some reason, t', w')")
    case True
    then show ?thesis
      by (auto simp: observe_discovery_def and_then_raised Let_def split: if_splits
          dest: invalidate_raised observe_raises refresh_raises [OF cfg(1)])
  next
    case False
    then show ?thesis
      using step Seen cfg(2)
      by (auto simp: agris_observe_def agris_cfg_ok_def t0_def [symmetric] Let_def split: option.splits if_splits
          dest: invalidate_raised)
  qed
qed

section \<open>The tracker behind the reassembly\<close>

definition agris_world_ok :: "agris_balance list agris_config \<Rightarrow> streams \<Rightarrow> agris_balance list agris_world \<Rightarrow> bool" where
  "agris_world_ok cfg S w \<longleftrightarrow>
     (case fst w of
        None \<Rightarrow> ags_evictions (snd w) = 0 \<and>
          (\<exists>events. (\<forall>frame. Seen frame \<in> set events \<longrightarrow> cut_from S frame) \<and>
             run_agris cfg events [] = (None, ags_tracker (snd w), ags_app (snd w)))
      | Some reason \<Rightarrow> at_invalid_reason (ags_tracker (snd w)) = Some reason \<or> reason = ''now must be finite'')"

lemma event_keeps:
  assumes cfg: "recording_agris cfg" "agris_cfg_ok cfg" and W: "agris_world_ok cfg S w"
    and cut: "\<And>frame. e = Seen frame \<Longrightarrow> cut_from S frame"
  shows "agris_world_ok cfg S (guard (on_agris (agris_do cfg e)) w)"
proof (cases "fst w")
  case None
  then obtain events where events: "\<forall>frame. Seen frame \<in> set events \<longrightarrow> cut_from S frame"
      "run_agris cfg events [] = (None, ags_tracker (snd w), ags_app (snd w))"
    and evictions: "ags_evictions (snd w) = 0"
    using W by (auto simp: agris_world_ok_def)
  obtain r t out where o: "agris_do cfg e (ags_tracker (snd w), ags_app (snd w)) = (r, t, out)"
    by (metis prod_cases3)
  show ?thesis
  proof (cases r)
    case None': None
    then have "run_agris cfg (events @ [e]) [] = (None, t, out)"
      by (simp add: run_agris_snoc events(2) guard_def o)
    moreover have "\<forall>frame. Seen frame \<in> set (events @ [e]) \<longrightarrow> cut_from S frame"
      using events(1) cut by auto
    moreover have "guard (on_agris (agris_do cfg e)) w = (None, (snd w)\<lparr>ags_tracker := t, ags_app := out\<rparr>)"
      using None None' o by (simp add: guard_def on_agris_def)
    ultimately show ?thesis
      using evictions by (simp add: agris_world_ok_def) (rule exI [of _ "events @ [e]"], simp)
  next
    case (Some reason)
    then show ?thesis
      using None o do_raises [OF cfg] by (simp add: agris_world_ok_def guard_def on_agris_def)
  qed
qed (use W in simp)

lemma giving_up_keeps:
  assumes "agris_world_ok cfg S w"
  shows "agris_world_ok cfg S (guard (on_agris (agris_invalidate reason)) w)"
    and "agris_world_ok cfg S (guard agris_evicted w)"
  using assms
  by (auto simp: agris_world_ok_def guard_def on_agris_def agris_evicted_def agris_invalidate_def Let_def
      split: option.splits)

lemma closed_keeps:
  assumes "recording_agris cfg" "agris_cfg_ok cfg" and W: "agris_world_ok cfg S w"
  shows "agris_world_ok cfg S (guard (agris_closed cfg flow) w)"
proof (cases "ags_finishing (snd w)")
  case True
  then show ?thesis
    using W by (auto simp: agris_world_ok_def guard_def agris_closed_def split: option.splits)
next
  case False
  then have "guard (agris_closed cfg flow) w = guard (on_agris (agris_do cfg (agris_event.Closed flow))) w"
    by (simp add: guard_def agris_closed_def split: option.split)
  then show ?thesis
    using event_keeps [OF assms, of "agris_event.Closed flow"] by simp
qed

text \<open>A discovering session is a client of the reassembly, whatever its options.\<close>

definition discovery_ok :: "agris_balance list agris_config \<Rightarrow> streams \<Rightarrow> agris_balance list agris_world \<Rightarrow> bool" where
  "discovery_ok cfg S w \<longleftrightarrow> (recording_agris cfg \<and> agris_cfg_ok cfg \<longrightarrow> agris_world_ok cfg S w)"

interpretation discovering: framed_world "agris_manager_config cfg ports live" "{}"
    "\<lambda>frame. guard (on_agris (agris_observe cfg frame))" S "discovery_ok cfg S"
proof (rule framed_world.intro)
  show "discovery_ok cfg S (guard (on_agris (agris_observe cfg frame)) w)"
    if W: "discovery_ok cfg S w" and frame: "frame_ok key (S key) frame" for w key frame
  proof -
    have "cut_from S frame"
      using frame by (auto simp: cut_from_def frame_ok_def)
    then show ?thesis
      using W event_keeps [of cfg S w "Seen frame"] by (simp add: discovery_ok_def)
  qed
qed (use giving_up_keeps closed_keeps in
  \<open>auto simp: agris_manager_config_def agris_gap_reset_def discovery_ok_def\<close>)

text \<open>The operations of a session: those of the table, and the refreshes with a time of its own.\<close>

datatype agris_op = Agris_Packet tcp_packet | Agris_Service pyfloat | Agris_Refresh "pyfloat option" | Agris_Finish

fun run_agris_op :: "'w agris_config \<Rightarrow> int set \<Rightarrow> bool \<Rightarrow> agris_op \<Rightarrow> 'w agris_manager \<Rightarrow> 'w agris_manager" where
  "run_agris_op cfg ports live (Agris_Packet p) = agris_process cfg ports live p"
| "run_agris_op cfg ports live (Agris_Service now) = (\<lambda>m. snd (manager_service_gaps (agris_manager_config cfg ports live) now m))"
| "run_agris_op cfg ports live (Agris_Refresh now) = agris_manager_refresh cfg now"
| "run_agris_op cfg ports live Agris_Finish = agris_finish cfg ports live"

definition run_agris_session ::
    "'w agris_config \<Rightarrow> int set \<Rightarrow> bool \<Rightarrow> agris_op list \<Rightarrow> 'w agris_manager \<Rightarrow> 'w agris_manager" where
  "run_agris_session cfg ports live ops m = fold (run_agris_op cfg ports live) ops m"

lemma session_world_kept:
  assumes "discovering.kept S cfg m" and "discovery_ok cfg S (fm_world m) \<Longrightarrow> discovery_ok cfg S w"
  shows "discovering.kept S cfg (m\<lparr>fm_world := w\<rparr>)"
  using assms by (simp add: discovering.kept_def all_flows_def)

lemma world_fields:
  "discovery_ok cfg S w \<Longrightarrow> discovery_ok cfg S (guard (\<lambda>x. (None, x\<lparr>ags_clock := c x\<rparr>)) w)"
  "discovery_ok cfg S w \<Longrightarrow> discovery_ok cfg S (fst w, (snd w)\<lparr>ags_finishing := b\<rparr>)"
  by (auto simp: discovery_ok_def agris_world_ok_def guard_def split: option.splits)

lemma refresh_kept:
  assumes "discovering.kept S cfg m"
  shows "discovering.kept S cfg (agris_manager_refresh cfg now m)"
  unfolding agris_manager_refresh_def on_session_def
proof (rule session_world_kept [OF assms])
  let ?clock = "\<lambda>x. py_max (ags_clock x) (case now of None \<Rightarrow> ags_clock x | Some moment \<Rightarrow> moment)"
  assume W: "discovery_ok cfg S (fm_world m)"
  let ?w = "guard (\<lambda>x. (None, x\<lparr>ags_clock := ?clock x\<rparr>)) (fm_world m)"
  have "guard (\<lambda>x. let clock = ?clock x in on_agris (agris_refresh cfg (Some clock)) (x\<lparr>ags_clock := clock\<rparr>)) (fm_world m) =
      guard (on_agris (agris_do cfg (Refreshed (Some (?clock (snd (fm_world m))))))) ?w"
    by (simp add: guard_def Let_def split: option.split)
  moreover have "discovery_ok cfg S ?w"
    by (rule world_fields(1) [OF W])
  ultimately show "discovery_ok cfg S
      (guard (\<lambda>x. let clock = ?clock x in on_agris (agris_refresh cfg (Some clock)) (x\<lparr>ags_clock := clock\<rparr>)) (fm_world m))"
    using event_keeps [of cfg S ?w "Refreshed (Some (?clock (snd (fm_world m))))"] by (simp add: discovery_ok_def)
qed

lemma op_kept:
  assumes m: "discovering.kept S cfg m" and p: "\<And>p. op = Agris_Packet p \<Longrightarrow> packet_agrees S p"
  shows "discovering.kept S cfg (run_agris_op cfg ports live op m)"
proof (cases op)
  case (Agris_Packet q)
  then have "discovering.kept S cfg (process_tcp_segment (agris_manager_config cfg ports live) q m)"
    using discovering.process_kept [OF m] p by blast
  then show ?thesis
    by (auto simp: Agris_Packet agris_process_def on_session_def Let_def intro: session_world_kept world_fields)
next
  case (Agris_Service now)
  then show ?thesis
    by (simp add: discovering.service_kept m)
next
  case (Agris_Refresh now)
  then show ?thesis
    by (simp add: refresh_kept m)
next
  case Agris_Finish
  have flag: "discovering.kept S cfg (ags_set_finishing b m')" if "discovering.kept S cfg m'" for b m'
    unfolding ags_set_finishing_def by (rule session_world_kept [OF that world_fields(2)])
  then show ?thesis
    using m by (simp add: Agris_Finish agris_finish_def discovering.finish_kept refresh_kept)
qed

lemma session_kept:
  assumes "agris_manager_init cfg ports live [] = Inr m" and "\<forall>p. Agris_Packet p \<in> set ops \<longrightarrow> packet_agrees S p"
  shows "discovering.kept S cfg (run_agris_session cfg ports live ops m)"
  unfolding run_agris_session_def
proof (rule fold_invariant)
  have "fm_flows m = []" "fm_world m = (None, new_agris_session [])"
    using assms(1) by (auto simp: agris_manager_init_def init_manager)
  moreover have "agris_world_ok cfg S (None, new_agris_session [])"
    by (simp add: agris_world_ok_def new_agris_session_def) (rule exI [of _ "[]"], simp)
  ultimately show "discovering.kept S cfg m"
    by (simp add: discovering.kept_def all_flows_def discovery_ok_def)
  show "discovering.kept S cfg (run_agris_op cfg ports live op m')"
    if "op \<in> set ops" "discovering.kept S cfg m'" for op m'
    using op_kept [OF that(2)] that(1) assms(2) by metis
qed

section \<open>Properties of the tracker\<close>

text \<open>C12. Discovery is exact. As long as nothing is selected, the candidates are exactly the pairs
  of a cap and a column that the whole history allows, and nothing is published. A layout is
  selected only when it was the single one the history allowed at some moment, and from then on
  every published balance, and the one a status shows, lies between zero and the cap and comes
  from the connection of that layout.\<close>

theorem discovery_is_exact:
  assumes "recording_agris cfg" and "agris_cfg_ok cfg" and "agris_options_init (agc_options cfg) = Inr options"
    and "run_agris cfg events [] = (None, t, out)"
  shows "case at_selected t of
      None \<Rightarrow> set (all_candidates (ao_minimum_updates (agc_options cfg)) t) = hypotheses cfg events \<and> out = [] \<and>
        as_balance (agris_snapshot cfg t) = None
    | Some c \<Rightarrow> (\<exists>n \<le> length events. hypotheses cfg (take n events) = {c}) \<and> list_all (balance_ok cfg c) out \<and>
        (\<forall>b. as_balance (agris_snapshot cfg t) = Some b \<longrightarrow> balance_ok cfg c b)"
proof (cases "at_selected t")
  case None
  then show ?thesis
    using run_progress [OF assms] candidates_hypotheses [of _ _ events t]
    by (simp add: progress_def searching_def hypotheses_def agris_snapshot_def Let_def)
next
  case (Some c)
  have "as_balance (agris_snapshot cfg t) = Some b \<Longrightarrow> at_latest_balance t = Some b" for b
    by (simp add: agris_snapshot_def Let_def split: if_splits)
  then show ?thesis
    using run_progress [OF assms] Some unfolding progress_def books_def by auto
qed

text \<open>Four messages with a falling balance under a cap of ten.\<close>

definition sample_agris_frame :: "int \<Rightarrow> bdo_frame" where
  "sample_agris_frame points =
     \<lparr>fr_index = 0, fr_message = [13, 0, 0, 7, 0] @ to_le 4 points @ to_le 4 10, fr_context = sample_context 1,
      fr_stream_sequence = None\<rparr>"

definition sample_agris_config :: "agris_balance list agris_config" where
  "sample_agris_config =
     \<lparr>agc_expected_maximum_points = 10,
      agc_options = default_agris_options\<lparr>ao_minimum_updates := 3, ao_settle_seconds := Finite 0\<rparr>,
      agc_on_balance = Some record_balance, agc_profile_layout = None\<rparr>"

definition sample_agris_events :: "agris_event list" where
  "sample_agris_events = map (\<lambda>points. Seen (sample_agris_frame points)) [9, 8, 7, 5]"

lemma sample_agris_ok:
  "recording_agris sample_agris_config" "agris_cfg_ok sample_agris_config"
  "agris_options_init (agc_options sample_agris_config) = Inr (agc_options sample_agris_config)"
  by (simp_all add: sample_agris_config_def recording_agris_def agris_cfg_ok_def agris_options_init_def
      default_agris_options_def)

definition sample_agris_run :: "agris_tracker \<times> agris_balance list" where
  "sample_agris_run = snd (run_agris sample_agris_config sample_agris_events [])"

theorem discovery_is_exact_witness:
  "map ab_remaining_points (snd sample_agris_run) = [7, 5] \<and>
   (\<exists>c. at_selected (fst sample_agris_run) = Some c \<and> snd c = (5, 9) \<and>
      (\<exists>n \<le> length sample_agris_events. hypotheses sample_agris_config (take n sample_agris_events) = {c}) \<and>
      list_all (balance_ok sample_agris_config c) (snd sample_agris_run))"
proof -
  have run: "run_agris sample_agris_config sample_agris_events [] = (None, fst sample_agris_run, snd sample_agris_run)"
    and out: "map ab_remaining_points (snd sample_agris_run) = [7, 5]"
    and c: "map_option snd (at_selected (fst sample_agris_run)) = Some (5, 9)"
    by code_simp+
  then obtain c where "at_selected (fst sample_agris_run) = Some c" "snd c = (5, 9)"
    by (cases "at_selected (fst sample_agris_run)") auto
  then show ?thesis
    using discovery_is_exact [OF sample_agris_ok run] out by auto
qed

text \<open>Discovery is bounded. After any events, also when the tracker has given up, it keeps no
  more families, columns and candidates than its options allow, a family once only, and its
  column count is the number of columns it holds.\<close>

theorem discovery_bounded:
  assumes "recording_agris cfg" and "agris_cfg_ok cfg" and "agris_options_init (agc_options cfg) = Inr options"
  shows "bounds_ok cfg (fst (snd (run_agris cfg events [])))"
  using run_bounds [OF assms, of events "[]"] by (metis prod.collapse)

theorem discovery_bounded_witness: "bounds_ok sample_agris_config (fst sample_agris_run)"
  unfolding sample_agris_run_def by (rule discovery_bounded [OF sample_agris_ok])

text \<open>C32. Behind the reassembly. After any packets, timers, refreshes and ends of a capture, either
  no flow was evicted and the tracker, with all it published, is what a run on whole messages
  cut from the connections' streams makes of it, or it has given up and its status says why; a
  time that is not finite is the one error that leaves it untouched.\<close>

theorem balances_from_streams:
  assumes "recording_agris cfg" and "agris_cfg_ok cfg" and "agris_manager_init cfg ports live [] = Inr m"
    and "\<forall>p. Agris_Packet p \<in> set ops \<longrightarrow> packet_agrees S p"
  shows "let w = fm_world (run_agris_session cfg ports live ops m); status = agris_snapshot cfg (ags_tracker (snd w)) in
    case fst w of
      None \<Rightarrow> ags_evictions (snd w) = 0 \<and>
        (\<exists>events. (\<forall>frame. Seen frame \<in> set events \<longrightarrow> cut_from S frame) \<and>
           run_agris cfg events [] = (None, ags_tracker (snd w), ags_app (snd w)))
    | Some reason \<Rightarrow> reason = ''now must be finite'' \<or>
        (as_status status = Agris_Invalid \<and> as_balance status = None \<and> as_reason status = Some reason)"
  using session_kept [OF assms(3,4)] assms(1,2)
  by (auto simp: discovering.kept_def discovery_ok_def agris_world_ok_def agris_snapshot_def Let_def split: option.splits)

definition sample_agris_bytes :: bytes where
  "sample_agris_bytes = concat (map (\<lambda>points. fr_message (sample_agris_frame points)) [9, 8, 7, 5])"

definition sample_agris_ops :: "agris_op list" where
  "sample_agris_ops = [Agris_Packet (sample_packet 50000 0 [] True),
     Agris_Packet (sample_packet 50000 1 sample_agris_bytes False), Agris_Refresh None, Agris_Finish]"

definition sample_agris_streams :: streams where
  "sample_agris_streams key i = (if 1 \<le> i \<and> i \<le> 52 then sample_agris_bytes ! nat (i - 1) else 0)"

lemma sample_agris_length: "length sample_agris_bytes = 52"
  by (simp add: sample_agris_bytes_def sample_agris_frame_def)

lemma sample_agris_packets_agree: "\<forall>p. Agris_Packet p \<in> set sample_agris_ops \<longrightarrow> packet_agrees sample_agris_streams p"
proof -
  have small: "(1 + int i) mod TCP_SEQUENCE_MODULUS = 1 + int i" if "i < 52" for i
    using that by (simp add: TCP_SEQUENCE_MODULUS_eq)
  have "stream_slice (sample_agris_streams key) 1 52 = sample_agris_bytes" for key
    by (rule nth_equalityI) (auto simp: stream_slice_def sample_agris_streams_def sample_agris_length small)
  then show ?thesis
    by (auto simp: sample_agris_ops_def packet_agrees_def packet_position_def agrees_def sample_agris_length
        TCP_SEQUENCE_MODULUS_eq connection_def stream_slice_def [of _ _ 0])
qed

definition sample_agris_manager :: "agris_balance list agris_manager" where
  "sample_agris_manager = \<lparr>fm_next_flow_generation = 0, fm_flows = [], fm_tcp_gap_resets = 0,
     fm_world = (None, new_agris_session [])\<rparr>"

definition sample_agris_world :: "agris_balance list agris_world" where
  "sample_agris_world =
     fm_world (run_agris_session sample_agris_config {8889} True sample_agris_ops sample_agris_manager)"

theorem balances_from_streams_witness:
  "fst sample_agris_world = None \<and> map ab_remaining_points (ags_app (snd sample_agris_world)) = [7, 5] \<and>
   (\<exists>events. (\<forall>frame. Seen frame \<in> set events \<longrightarrow> cut_from sample_agris_streams frame) \<and>
      run_agris sample_agris_config events [] = (None, ags_tracker (snd sample_agris_world), ags_app (snd sample_agris_world)))"
proof -
  have "fst sample_agris_world = None" "map ab_remaining_points (ags_app (snd sample_agris_world)) = [7, 5]"
    by code_simp+
  moreover have "agris_manager_init sample_agris_config {8889} True [] = Inr sample_agris_manager"
    by (simp add: agris_manager_init_def flow_manager_init_def agris_manager_config_def opt_sat_def sample_agris_manager_def
        MAX_PENDING_SEGMENTS_def)
  note balances_from_streams [OF sample_agris_ok(1,2) this sample_agris_packets_agree]
  ultimately show ?thesis
    by (simp add: sample_agris_world_def Let_def)
qed

end
