(* ===== verification/Companion_Discovery.thy ===== *)
theory Companion_Discovery
  imports Byte_Search Opcode_Profile
begin

text \<open>
  The structural discovery of \<^verbatim>\<open>src/bdo_toolkit/origin_learning.py\<close>: a storage message
  and two messages behind it belong to one worker delivery when they share a token of eight
  bytes; and the cache of \<^verbatim>\<open>_origin/discovery.py\<close> in front of it. The digest of a token
  (\<^verbatim>\<open>blake2b\<close>) is a parameter.
\<close>

section \<open>Shared tokens\<close>

definition TOKEN_WIDTH :: int where
  "TOKEN_WIDTH = 8"

definition MIN_TOKEN_UNIQUE_BYTES :: nat where
  "MIN_TOKEN_UNIQUE_BYTES = 6"

definition find_all :: "bytes \<Rightarrow> bytes \<Rightarrow> int list" where
  "find_all message token = occurrences token message 5"

type_synonym token_candidate = "nat \<times> int \<times> bytes \<times> (int \<times> int \<times> int)"

text \<open>One turn of the loop over the offsets of the delta message.\<close>

definition token_candidate :: "bytes \<Rightarrow> bytes \<Rightarrow> bytes \<Rightarrow> int \<Rightarrow> token_candidate option" where
  "token_candidate delta_message first_message second_message delta_offset =
     (let token = py_slice delta_message delta_offset (delta_offset + TOKEN_WIDTH);
          unique_bytes = card (set token)
      in if unique_bytes < MIN_TOKEN_UNIQUE_BYTES then None
         else case find_all first_message token of
                [] \<Rightarrow> None
              | first_position # _ \<Rightarrow>
                  (case find_all second_message token of
                     [] \<Rightarrow> None
                   | second_position # _ \<Rightarrow>
                       Some (unique_bytes, delta_offset, token, (delta_offset, first_position, second_position))))"

text \<open>
  \<^verbatim>\<open>max(candidates)\<close> over tuples that begin with the number of different bytes and the
  negated offset; no two candidates agree in both.
\<close>

definition weaker_candidate :: "token_candidate \<Rightarrow> token_candidate \<Rightarrow> bool" where
  "weaker_candidate a b \<longleftrightarrow> fst a < fst b \<or> (fst a = fst b \<and> fst (snd b) < fst (snd a))"

fun max_candidate :: "token_candidate \<Rightarrow> token_candidate list \<Rightarrow> token_candidate" where
  "max_candidate best [] = best"
| "max_candidate best (c # cs) = max_candidate (if weaker_candidate best c then c else best) cs"

definition shared_token :: "bytes \<Rightarrow> bytes \<Rightarrow> bytes \<Rightarrow> int \<Rightarrow> (bytes \<times> (int \<times> int \<times> int)) option" where
  "shared_token delta_message first_message second_message delta_prefix_end =
     (let prefix_end = min delta_prefix_end (int (length delta_message));
          candidates = List.map_filter (token_candidate delta_message first_message second_message)
                         [5 .. prefix_end - TOKEN_WIDTH]
      in case candidates of [] \<Rightarrow> None | c # cs \<Rightarrow> Some (snd (snd (max_candidate c cs))))"

section \<open>Observations\<close>

type_synonym family = "int \<times> int \<times> int \<times> int \<times> int"

record companion_observation =
  co_timestamp :: pyfloat
  co_flow :: flow_key
  co_stream_sequence :: "int option"
  co_delta_opcode :: int
  co_delta_length :: int
  co_companion_opcodes :: "int \<times> int"
  co_companion_lengths :: "int \<times> int"
  co_token_digest :: string
  co_token_offsets :: "int \<times> int \<times> int"

definition observation_family :: "companion_observation \<Rightarrow> family" where
  "observation_family o' =
     (co_delta_opcode o', fst (co_companion_opcodes o'), snd (co_companion_opcodes o'),
      fst (co_companion_lengths o'), snd (co_companion_lengths o'))"

definition framed_message :: "bytes \<Rightarrow> bool" where
  "framed_message message \<longleftrightarrow>
     5 \<le> int (length message) \<and> int (length message) \<le> MAX_TARGET_MESSAGE_LENGTH \<and>
     from_le (py_slice message 0 2) = int (length message)"

definition message_opcode :: "bytes \<Rightarrow> int" where
  "message_opcode message = from_le (py_slice message 3 5)"

definition discover_companion_observation ::
    "(bytes \<Rightarrow> string) \<Rightarrow> bytes \<Rightarrow> bytes \<Rightarrow> bytes \<Rightarrow> pyfloat \<Rightarrow> flow_key \<Rightarrow> int option \<Rightarrow> int \<Rightarrow>
       companion_observation option" where
  "discover_companion_observation digest delta_message first_message second_message timestamp flow stream_sequence
       delta_prefix_end =
     (if \<not> (framed_message delta_message \<and> framed_message first_message \<and> framed_message second_message) then None
      else if \<not> (5 + TOKEN_WIDTH \<le> delta_prefix_end \<and> delta_prefix_end \<le> int (length delta_message)) then None
      else
        let delta_opcode = message_opcode delta_message;
            first_opcode = message_opcode first_message;
            second_opcode = message_opcode second_message
        in if first_opcode = delta_opcode \<or> second_opcode = delta_opcode \<or> first_opcode = second_opcode then None
           else map_option (\<lambda>(token, offsets).
             \<lparr>co_timestamp = timestamp, co_flow = flow, co_stream_sequence = stream_sequence,
              co_delta_opcode = delta_opcode, co_delta_length = int (length delta_message),
              co_companion_opcodes = (first_opcode, second_opcode),
              co_companion_lengths = (int (length first_message), int (length second_message)),
              co_token_digest = digest token, co_token_offsets = offsets\<rparr>)
             (shared_token delta_message first_message second_message delta_prefix_end))"

section \<open>The cache\<close>

type_synonym discovery_key = "bytes \<times> int \<times> int \<times> bytes \<times> bytes"

record discovery_cache =
  cdc_discoveries :: "(discovery_key, companion_observation option \<times> int) dict"
  cdc_bytes :: int

definition new_discovery_cache :: discovery_cache where
  "new_discovery_cache = \<lparr>cdc_discoveries = [], cdc_bytes = 0\<rparr>"

definition COMPANION_DISCOVERY_CACHE_LIMIT :: int where
  "COMPANION_DISCOVERY_CACHE_LIMIT = 4096"

definition COMPANION_DISCOVERY_CACHE_BYTES :: int where
  "COMPANION_DISCOVERY_CACHE_BYTES = 2 * 1024 * 1024"

text \<open>The loop that makes room for an entry of the given size.\<close>

fun evict_discoveries :: "int \<Rightarrow> (discovery_key, companion_observation option \<times> int) dict \<Rightarrow> int \<Rightarrow> discovery_cache" where
  "evict_discoveries entry_size [] retained = \<lparr>cdc_discoveries = [], cdc_bytes = retained\<rparr>"
| "evict_discoveries entry_size ((key, value) # d) retained =
     (if int (length ((key, value) # d)) \<ge> COMPANION_DISCOVERY_CACHE_LIMIT \<or> retained + entry_size > COMPANION_DISCOVERY_CACHE_BYTES
      then evict_discoveries entry_size d (retained - snd value)
      else \<lparr>cdc_discoveries = (key, value) # d, cdc_bytes = retained\<rparr>)"

definition discovery_key :: "bytes \<Rightarrow> bytes \<Rightarrow> bytes \<Rightarrow> int \<Rightarrow> discovery_key" where
  "discovery_key delta_message first_message second_message delta_prefix_end =
     (py_slice delta_message 0 delta_prefix_end, int (length delta_message), delta_prefix_end, first_message, second_message)"

definition discover ::
    "(bytes \<Rightarrow> string) \<Rightarrow> pyfloat \<Rightarrow> flow_key \<Rightarrow> int option \<Rightarrow> bytes \<Rightarrow> bytes \<Rightarrow> bytes \<Rightarrow> int \<Rightarrow> discovery_cache \<Rightarrow>
       companion_observation option \<times> discovery_cache" where
  "discover digest timestamp flow stream_sequence delta_message first_message second_message delta_prefix_end cache =
     (let key = discovery_key delta_message first_message second_message delta_prefix_end in
      case map_of (cdc_discoveries cache) key of
        Some cached \<Rightarrow>
          (map_option (\<lambda>o'. o'\<lparr>co_timestamp := timestamp, co_flow := flow, co_stream_sequence := stream_sequence\<rparr>) (fst cached),
           cache\<lparr>cdc_discoveries := AList.delete key (cdc_discoveries cache) @ [(key, cached)]\<rparr>)
      | None \<Rightarrow>
          let observation = discover_companion_observation digest delta_message first_message second_message timestamp
                              flow stream_sequence delta_prefix_end;
              entry_size = int (length (fst key)) + int (length first_message) + int (length second_message);
              room = evict_discoveries entry_size (cdc_discoveries cache) (cdc_bytes cache)
          in if entry_size \<le> COMPANION_DISCOVERY_CACHE_BYTES
             then (observation, \<lparr>cdc_discoveries = AList.update key (observation, entry_size) (cdc_discoveries room),
                                 cdc_bytes = cdc_bytes room + entry_size\<rparr>)
             else (observation, cache))"

end
