(* ===== verification/Companion_Facts.thy ===== *)
theory Companion_Facts
  imports Companion_Discovery
begin

text \<open>
  What a companion observation proves, and why the cache in front of the discovery may be
  forgotten: its key determines the observation up to the identity of the operation.
\<close>

section \<open>The strongest shared token\<close>

text \<open>An informative token of the prefix that both messages repeat behind their headers.\<close>

definition token_at :: "bytes \<Rightarrow> int \<Rightarrow> bytes" where
  "token_at message offset = take 8 (drop (nat offset) message)"

definition informative :: "bytes \<Rightarrow> bool" where
  "informative token \<longleftrightarrow> length token = 8 \<and> MIN_TOKEN_UNIQUE_BYTES \<le> card (set token)"

definition repeated :: "bytes \<Rightarrow> bytes \<Rightarrow> bool" where
  "repeated token message \<longleftrightarrow> (\<exists>offset \<ge> 5. found_at token message offset)"

definition shares_token :: "bytes \<Rightarrow> int \<Rightarrow> bytes \<Rightarrow> bytes \<Rightarrow> int \<Rightarrow> bool" where
  "shares_token delta_message prefix_end first_message second_message offset \<longleftrightarrow>
     5 \<le> offset \<and> offset + 8 \<le> prefix_end \<and> informative (token_at delta_message offset) \<and>
     repeated (token_at delta_message offset) first_message \<and> repeated (token_at delta_message offset) second_message"

lemma max_candidate_in: "max_candidate c cs \<in> set (c # cs)"
  by (induction c cs rule: max_candidate.induct) (auto split: if_splits)

lemma weaker_trans: "weaker_candidate a b \<Longrightarrow> weaker_candidate b c \<Longrightarrow> weaker_candidate a c"
  by (auto simp: weaker_candidate_def)

lemma max_candidate_ge: "\<not> weaker_candidate (max_candidate c cs) c"
proof (induction c cs rule: max_candidate.induct)
  case (2 best c cs)
  then show ?case
    by (auto simp: weaker_candidate_def split: if_splits)
qed (simp add: weaker_candidate_def)

lemma max_candidate_max: "x \<in> set (c # cs) \<Longrightarrow> \<not> weaker_candidate (max_candidate c cs) x"
proof (induction c cs rule: max_candidate.induct)
  case (2 best c cs)
  let ?best = "if weaker_candidate best c then c else best"
  have "\<not> weaker_candidate (max_candidate ?best cs) ?best"
    by (rule max_candidate_ge)
  then show ?case
    using 2 by (auto simp: weaker_candidate_def split: if_splits)
qed (simp add: weaker_candidate_def)

lemma py_slice_token:
  "5 \<le> offset \<Longrightarrow> offset + 8 \<le> int (length message) \<Longrightarrow> py_slice message offset (offset + TOKEN_WIDTH) = token_at message offset"
  by (simp add: TOKEN_WIDTH_def token_at_def py_slice_in)

lemma token_candidate_Some:
  assumes o: "5 \<le> offset" "offset + 8 \<le> int (length d)" and c: "token_candidate d f s offset = Some c"
  shows "\<exists>p q. c = (card (set (token_at d offset)), offset, token_at d offset, (offset, p, q)) \<and>
    MIN_TOKEN_UNIQUE_BYTES \<le> card (set (token_at d offset)) \<and>
    5 \<le> p \<and> found_at (token_at d offset) f p \<and> (\<forall>p' \<ge> 5. found_at (token_at d offset) f p' \<longrightarrow> p \<le> p') \<and>
    5 \<le> q \<and> found_at (token_at d offset) s q \<and> (\<forall>q' \<ge> 5. found_at (token_at d offset) s q' \<longrightarrow> q \<le> q')"
proof -
  note token = py_slice_token [OF o]
  from c obtain p ps q qs where parts: "occurrences (token_at d offset) f 5 = p # ps" "occurrences (token_at d offset) s 5 = q # qs"
      "c = (card (set (token_at d offset)), offset, token_at d offset, (offset, p, q))"
      "MIN_TOKEN_UNIQUE_BYTES \<le> card (set (token_at d offset))"
    by (auto simp: token_candidate_def token find_all_def Let_def split: if_splits list.splits)
  then show ?thesis
    using occurrences_first [OF parts(1)] occurrences_first [OF parts(2)] by auto
qed

lemma token_candidate_None:
  assumes o: "5 \<le> offset" "offset + 8 \<le> int (length d)"
  shows "token_candidate d f s offset = None \<longleftrightarrow>
    \<not> (MIN_TOKEN_UNIQUE_BYTES \<le> card (set (token_at d offset)) \<and> repeated (token_at d offset) f \<and> repeated (token_at d offset) s)"
proof -
  note token = py_slice_token [OF o]
  have ne: "token_at d offset \<noteq> []"
    using o by (simp add: token_at_def)
  show ?thesis
    using occurrences_none [OF ne, of 5 f] occurrences_none [OF ne, of 5 s]
    by (auto simp: token_candidate_def token find_all_def repeated_def Let_def split: list.splits)
qed

lemma shared_token_None:
  assumes "prefix_end \<le> int (length d)"
  shows "shared_token d f s prefix_end = None \<longleftrightarrow> (\<forall>offset. \<not> shares_token d prefix_end f s offset)"
proof -
  have "shared_token d f s prefix_end = None \<longleftrightarrow> (\<forall>offset \<in> {5 .. prefix_end - 8}. token_candidate d f s offset = None)"
  proof -
    have "shared_token d f s prefix_end = None \<longleftrightarrow> List.map_filter (token_candidate d f s) [5 .. prefix_end - 8] = []"
      using assms by (simp add: shared_token_def Let_def TOKEN_WIDTH_def min_def split: list.split)
    then show ?thesis
      by (simp only: map_filter_Nil set_upto)
  qed
  also have "\<dots> \<longleftrightarrow> (\<forall>offset. \<not> shares_token d prefix_end f s offset)"
  proof (intro iffI allI ballI)
    fix offset assume *: "\<forall>offset \<in> {5 .. prefix_end - 8}. token_candidate d f s offset = None"
    show "\<not> shares_token d prefix_end f s offset"
    proof
      assume sh: "shares_token d prefix_end f s offset"
      then have o: "5 \<le> offset" "offset + 8 \<le> int (length d)" "offset \<in> {5 .. prefix_end - 8}"
        using assms by (auto simp: shares_token_def)
      then show False
        using bspec [OF * o(3)] sh token_candidate_None [OF o(1,2), of f s] by (simp add: shares_token_def informative_def)
    qed
  next
    fix offset assume *: "\<forall>offset. \<not> shares_token d prefix_end f s offset" and "offset \<in> {5 .. prefix_end - 8}"
    then have o: "5 \<le> offset" "offset + 8 \<le> int (length d)" "offset + 8 \<le> prefix_end"
      using assms by auto
    then have "length (token_at d offset) = 8"
      by (simp add: token_at_def)
    then show "token_candidate d f s offset = None"
      using * o token_candidate_None [OF o(1,2)] by (auto simp: shares_token_def informative_def)
  qed
  finally show ?thesis .
qed

text \<open>The token chosen: shared, at its first places, and no shared token is stronger or earlier.\<close>

definition strongest_token :: "bytes \<Rightarrow> int \<Rightarrow> bytes \<Rightarrow> bytes \<Rightarrow> int \<Rightarrow> bool" where
  "strongest_token d prefix_end f s offset \<longleftrightarrow> shares_token d prefix_end f s offset \<and>
     (\<forall>other. shares_token d prefix_end f s other \<longrightarrow>
        card (set (token_at d other)) < card (set (token_at d offset)) \<or>
        (card (set (token_at d other)) = card (set (token_at d offset)) \<and> offset \<le> other))"

lemma shared_token_Some:
  assumes len: "prefix_end \<le> int (length d)" and shared: "shared_token d f s prefix_end = Some (token, (offset, p, q))"
  shows "strongest_token d prefix_end f s offset" and "token = token_at d offset"
    and "5 \<le> p" "found_at token f p" "5 \<le> q" "found_at token s q"
proof -
  let ?cs = "List.map_filter (token_candidate d f s) [5 .. prefix_end - 8]"
  obtain c cs where cs: "?cs = c # cs" and m: "snd (snd (max_candidate c cs)) = (token, (offset, p, q))"
    using len shared by (auto simp: shared_token_def Let_def TOKEN_WIDTH_def min_def split: list.splits)
  have in_cs: "max_candidate c cs \<in> set ?cs"
    unfolding cs by (rule max_candidate_in)
  then obtain o' where o': "o' \<in> {5 .. prefix_end - 8}" "token_candidate d f s o' = Some (max_candidate c cs)"
    by (auto simp: set_map_filter_Some)
  then have o: "5 \<le> o'" "o' + 8 \<le> int (length d)" "o' + 8 \<le> prefix_end"
    using len by auto
  note found = token_candidate_Some [OF o(1,2) o'(2)]
  then have max: "max_candidate c cs = (card (set (token_at d o')), o', token, (o', p, q))" "o' = offset" "token = token_at d o'"
    using m by auto
  show "token = token_at d offset" and "5 \<le> p" "found_at token f p" "5 \<le> q" "found_at token s q"
    using found max by auto
  have len8: "length (token_at d other) = 8" if "5 \<le> other" "other + 8 \<le> prefix_end" for other
    using that len by (simp add: token_at_def)
  have sh: "shares_token d prefix_end f s offset"
    using found o max len8 by (auto simp: shares_token_def informative_def repeated_def)
  moreover have "card (set (token_at d other)) < card (set (token_at d offset)) \<or>
        (card (set (token_at d other)) = card (set (token_at d offset)) \<and> offset \<le> other)"
    if other: "shares_token d prefix_end f s other" for other
  proof -
    have b: "5 \<le> other" "other + 8 \<le> int (length d)" "other \<in> {5 .. prefix_end - 8}"
      using other len by (auto simp: shares_token_def)
    then obtain x where x: "token_candidate d f s other = Some x"
      using token_candidate_None [OF b(1,2), of f s] other by (auto simp: shares_token_def informative_def)
    then have "x \<in> set (c # cs)"
      unfolding cs [symmetric] set_map_filter_Some using b(3) by auto
    then have "\<not> weaker_candidate (max_candidate c cs) x"
      by (rule max_candidate_max)
    moreover have "fst x = card (set (token_at d other))" "fst (snd x) = other"
      using token_candidate_Some [OF b(1,2) x] by auto
    ultimately show ?thesis
      unfolding max(1) by (auto simp: weaker_candidate_def max(2))
  qed
  ultimately show "strongest_token d prefix_end f s offset"
    by (simp add: strongest_token_def)
qed


section \<open>The key of the cache determines the observation\<close>

definition of_operation :: "pyfloat \<Rightarrow> flow_key \<Rightarrow> int option \<Rightarrow> companion_observation \<Rightarrow> companion_observation" where
  "of_operation timestamp flow q o' = o'\<lparr>co_timestamp := timestamp, co_flow := flow, co_stream_sequence := q\<rparr>"

lemma discovery_prefix:
  assumes "13 \<le> e" and "e \<le> int (length d)"
  shows "0 \<le> a \<Longrightarrow> a \<le> b \<Longrightarrow> b \<le> e \<Longrightarrow> py_slice d a b = py_slice (py_slice d 0 e) a b"
proof -
  assume ab: "0 \<le> a" "a \<le> b" "b \<le> e"
  have "py_slice d 0 e = take (nat e) d"
    using assms by (simp add: py_slice_prefix)
  moreover have "py_slice (take (nat e) d @ drop (nat e) d) a b = py_slice (take (nat e) d) a b"
    by (rule py_slice_append) (use ab assms in auto)
  ultimately show "py_slice d a b = py_slice (py_slice d 0 e) a b"
    by simp
qed

lemma same_key_slices:
  assumes key: "discovery_key d f s e = discovery_key d' f' s' e'" and e: "13 \<le> e" "e \<le> int (length d)"
    and ab: "0 \<le> a" "a \<le> b" "b \<le> e"
  shows "py_slice d' a b = py_slice d a b"
proof -
  have "e' = e" "length d' = length d" "py_slice d' 0 e = py_slice d 0 e"
    using key by (auto simp: discovery_key_def)
  then show ?thesis
    using discovery_prefix [OF e ab] discovery_prefix [of e d' a b] e ab by simp
qed

lemma same_key_observation:
  assumes key: "discovery_key d f s e = discovery_key d' f' s' e'"
  shows "discover_companion_observation digest d' f' s' ts' flow' q' e' =
    map_option (of_operation ts' flow' q') (discover_companion_observation digest d f s ts flow q e)"
proof (cases "5 + TOKEN_WIDTH \<le> e \<and> e \<le> int (length d)")
  case True
  then have e: "13 \<le> e" "e \<le> int (length d)"
    by (simp_all add: TOKEN_WIDTH_def)
  have same: "e' = e" "length d' = length d" "f' = f" "s' = s"
    using key by (simp_all add: discovery_key_def)
  note slices = same_key_slices [OF key e]
  have heads: "py_slice d' 0 2 = py_slice d 0 2" "py_slice d' 3 5 = py_slice d 3 5"
    using slices [of 0 2] slices [of 3 5] e by simp_all
  have "List.map_filter (token_candidate d' f s) [5 .. e - TOKEN_WIDTH] = List.map_filter (token_candidate d f s) [5 .. e - TOKEN_WIDTH]"
  proof (rule map_filter_cong)
    fix offset assume "offset \<in> set [5 .. e - TOKEN_WIDTH]"
    then have "py_slice d' offset (offset + TOKEN_WIDTH) = py_slice d offset (offset + TOKEN_WIDTH)"
      by (intro slices) (auto simp: TOKEN_WIDTH_def)
    then show "token_candidate d' f s offset = token_candidate d f s offset"
      by (simp add: token_candidate_def)
  qed
  then have "shared_token d' f s e = shared_token d f s e"
    using same e by (simp add: shared_token_def min_def)
  then show ?thesis
    using heads
    by (auto simp: same discover_companion_observation_def framed_message_def message_opcode_def of_operation_def Let_def
        option.map_comp comp_def case_prod_unfold)
next
  case False
  then show ?thesis
    using key by (auto simp: discover_companion_observation_def discovery_key_def)
qed

section \<open>The cache is transparent and bounded\<close>

definition entry_from :: "(bytes \<Rightarrow> string) \<Rightarrow> discovery_key \<times> companion_observation option \<times> int \<Rightarrow> bool" where
  "entry_from digest entry \<longleftrightarrow>
     (\<exists>d f s e ts flow q. fst entry = discovery_key d f s e \<and>
        fst (snd entry) = discover_companion_observation digest d f s ts flow q e) \<and> 0 \<le> snd (snd entry)"

definition cache_ok :: "(bytes \<Rightarrow> string) \<Rightarrow> discovery_cache \<Rightarrow> bool" where
  "cache_ok digest cache \<longleftrightarrow>
     distinct (map fst (cdc_discoveries cache)) \<and> list_all (entry_from digest) (cdc_discoveries cache) \<and>
     cdc_bytes cache = sum_list (map (\<lambda>entry. snd (snd entry)) (cdc_discoveries cache)) \<and>
     int (length (cdc_discoveries cache)) \<le> COMPANION_DISCOVERY_CACHE_LIMIT \<and>
     cdc_bytes cache \<le> COMPANION_DISCOVERY_CACHE_BYTES"

lemma evict_discoveries_suffix:
  "\<exists>gone. d = gone @ cdc_discoveries (evict_discoveries n d held) \<and>
     cdc_bytes (evict_discoveries n d held) = held - sum_list (map (\<lambda>entry. snd (snd entry)) gone)"
proof (induction n d held rule: evict_discoveries.induct)
  case (2 n key v d held)
  show ?case
  proof (cases "int (length ((key, v) # d)) \<ge> COMPANION_DISCOVERY_CACHE_LIMIT \<or> held + n > COMPANION_DISCOVERY_CACHE_BYTES")
    case True
    with 2 obtain gone where "d = gone @ cdc_discoveries (evict_discoveries n d (held - snd v))"
      "cdc_bytes (evict_discoveries n d (held - snd v)) = held - snd v - sum_list (map (\<lambda>entry. snd (snd entry)) gone)"
      by blast
    then show ?thesis
      using True by (intro exI [of _ "(key, v) # gone"]) simp
  next
    case False
    then show ?thesis
      by (intro exI [of _ "[]"]) simp
  qed
qed simp

lemma evict_discoveries_room:
  assumes "n \<le> COMPANION_DISCOVERY_CACHE_BYTES" and "held = sum_list (map (\<lambda>entry. snd (snd entry)) d)"
  shows "int (length (cdc_discoveries (evict_discoveries n d held))) < COMPANION_DISCOVERY_CACHE_LIMIT \<and>
    cdc_bytes (evict_discoveries n d held) + n \<le> COMPANION_DISCOVERY_CACHE_BYTES"
  using assms by (induction n d held rule: evict_discoveries.induct)
    (auto simp: COMPANION_DISCOVERY_CACHE_LIMIT_def)

lemma sum_delete:
  fixes g :: "'k \<times> 'v \<Rightarrow> int"
  assumes "distinct (map fst d)" and "map_of d k = Some v"
  shows "sum_list (map g (AList.delete k d)) + g (k, v) = sum_list (map g d)"
    and "Suc (length (AList.delete k d)) = length d"
  using assms by (induction d) (auto simp: AList.delete_notin_dom dest: map_of_SomeD)

lemma discover_ok:
  assumes ok: "cache_ok digest cache" and step: "discover digest ts flow q d f s e cache = (r, cache')"
  shows "r = discover_companion_observation digest d f s ts flow q e" and "cache_ok digest cache'"
proof -
  let ?key = "discovery_key d f s e"
  show "r = discover_companion_observation digest d f s ts flow q e"
  proof (cases "map_of (cdc_discoveries cache) ?key")
    case (Some cached)
    then have "entry_from digest (?key, cached)"
      using ok map_of_SomeD by (fastforce simp: cache_ok_def list_all_iff)
    then obtain d' f' s' e' ts' flow' q' where "?key = discovery_key d' f' s' e'"
      "fst cached = discover_companion_observation digest d' f' s' ts' flow' q' e'"
      by (auto simp: entry_from_def)
    then show ?thesis
      using step Some same_key_observation [of d' f' s' e' d f s e digest ts flow q ts' flow' q']
      by (auto simp: discover_def Let_def of_operation_def [abs_def])
  qed (use step in \<open>auto simp: discover_def Let_def split: if_splits\<close>)
  show "cache_ok digest cache'"
  proof (cases "map_of (cdc_discoveries cache) ?key")
    case (Some cached)
    let ?rest = "AList.delete ?key (cdc_discoveries cache)"
    have cache': "cache' = cache\<lparr>cdc_discoveries := ?rest @ [(?key, cached)]\<rparr>"
      using step Some by (simp add: discover_def Let_def)
    have member: "(?key, cached) \<in> set (cdc_discoveries cache)"
      using Some by (rule map_of_SomeD)
    have "distinct (map fst (cdc_discoveries cache))"
      using ok by (simp add: cache_ok_def)
    note sums = sum_delete [OF this Some]
    have "sum_list (map (\<lambda>entry. snd (snd entry)) (?rest @ [(?key, cached)])) =
        sum_list (map (\<lambda>entry. snd (snd entry)) (cdc_discoveries cache))"
      and "length (?rest @ [(?key, cached)]) = length (cdc_discoveries cache)"
      using sums(1) [of "\<lambda>entry. snd (snd entry)"] sums(2) by simp_all
    then show ?thesis
      using ok member by (auto simp: cache_ok_def cache' list_all_iff dict_simps AList.distinct_delete)
  next
    case None
    let ?n = "int (length (fst ?key)) + int (length f) + int (length s)"
    define room where "room = evict_discoveries ?n (cdc_discoveries cache) (cdc_bytes cache)"
    show ?thesis
    proof (cases "?n \<le> COMPANION_DISCOVERY_CACHE_BYTES")
      case False
      then show ?thesis
        using step None ok by (auto simp: discover_def Let_def)
    next
      case True
      let ?entry = "(?key, discover_companion_observation digest d f s ts flow q e, ?n)"
      obtain gone where gone: "cdc_discoveries cache = gone @ cdc_discoveries room"
        "cdc_bytes room = cdc_bytes cache - sum_list (map (\<lambda>entry. snd (snd entry)) gone)"
        unfolding room_def using evict_discoveries_suffix by blast
      have fresh: "?key \<notin> fst ` set (cdc_discoveries room)"
      proof -
        have "?key \<notin> fst ` set (cdc_discoveries cache)"
          using None by (simp add: map_of_eq_None_iff)
        then show ?thesis
          by (subst (asm) gone(1)) (simp add: image_Un)
      qed
      have cache': "cache' = \<lparr>cdc_discoveries = cdc_discoveries room @ [?entry], cdc_bytes = cdc_bytes room + ?n\<rparr>"
        using step None True fresh by (auto simp: discover_def Let_def update_absent room_def [symmetric])
      have "int (length (cdc_discoveries room)) < COMPANION_DISCOVERY_CACHE_LIMIT \<and>
          cdc_bytes room + ?n \<le> COMPANION_DISCOVERY_CACHE_BYTES"
        unfolding room_def by (rule evict_discoveries_room) (use True ok in \<open>simp_all add: cache_ok_def\<close>)
      moreover have "entry_from digest ?entry"
        unfolding entry_from_def fst_conv snd_conv by (intro conjI exI, rule refl, rule refl, simp)
      moreover have "distinct (map fst (cdc_discoveries room))" "list_all (entry_from digest) (cdc_discoveries room)"
        "cdc_bytes room = sum_list (map (\<lambda>entry. snd (snd entry)) (cdc_discoveries room))"
      proof -
        have "distinct (map fst (gone @ cdc_discoveries room))" "list_all (entry_from digest) (gone @ cdc_discoveries room)"
          "cdc_bytes cache = sum_list (map (\<lambda>entry. snd (snd entry)) (gone @ cdc_discoveries room))"
          using ok unfolding cache_ok_def gone(1) by blast+
        then show "distinct (map fst (cdc_discoveries room))" "list_all (entry_from digest) (cdc_discoveries room)"
          "cdc_bytes room = sum_list (map (\<lambda>entry. snd (snd entry)) (cdc_discoveries room))"
          using gone(2) by simp_all
      qed
      ultimately show ?thesis
        using fresh by (simp add: cache_ok_def cache')
    qed
  qed
qed

lemma new_cache_ok: "cache_ok digest new_discovery_cache"
  by (simp add: cache_ok_def new_discovery_cache_def COMPANION_DISCOVERY_CACHE_LIMIT_def COMPANION_DISCOVERY_CACHE_BYTES_def)

end
