(* ===== verification/Companion_Properties.thy ===== *)
theory Companion_Properties
  imports Companion_Facts "HOL-Library.Code_Target_Nat"
begin

text \<open>
  The properties of the companion discovery: what an observation is, and that the cache in front
  of it changes nothing but the work.
\<close>

section \<open>The cache\<close>






section \<open>Observations\<close>

text \<open>C39. An observation is made exactly when three whole messages of different opcodes share an
  informative token behind their headers, inside the prefix of the first; and it names the
  strongest such token, the one with the most different bytes and of these the first, and where
  the companions repeat it.\<close>

theorem observation_is_strongest:
  "(discover_companion_observation digest d f s ts flow q prefix_end \<noteq> None \<longleftrightarrow>
     framed_message d \<and> framed_message f \<and> framed_message s \<and> distinct (map message_opcode [d, f, s]) \<and>
     prefix_end \<le> int (length d) \<and> (\<exists>offset. shares_token d prefix_end f s offset)) \<and>
   (\<forall>o'. discover_companion_observation digest d f s ts flow q prefix_end = Some o' \<longrightarrow>
     (\<exists>offset i j. co_token_offsets o' = (offset, i, j) \<and> strongest_token d prefix_end f s offset \<and>
        found_at (token_at d offset) f i \<and> found_at (token_at d offset) s j \<and>
        co_token_digest o' = digest (token_at d offset)))"
proof (intro conjI allI impI)
  let ?ok = "framed_message d \<and> framed_message f \<and> framed_message s \<and> distinct (map message_opcode [d, f, s]) \<and>
     13 \<le> prefix_end \<and> prefix_end \<le> int (length d)"
  have unfold: "discover_companion_observation digest d f s ts flow q prefix_end \<noteq> None \<longleftrightarrow>
      ?ok \<and> shared_token d f s prefix_end \<noteq> None"
    by (auto simp: discover_companion_observation_def TOKEN_WIDTH_def Let_def)
  have wide: "shares_token d prefix_end f s offset \<Longrightarrow> 13 \<le> prefix_end" for offset
    by (simp add: shares_token_def)
  have some: "prefix_end \<le> int (length d) \<Longrightarrow> shared_token d f s prefix_end \<noteq> None \<longleftrightarrow> (\<exists>offset. shares_token d prefix_end f s offset)"
    by (metis shared_token_None)
  show "discover_companion_observation digest d f s ts flow q prefix_end \<noteq> None \<longleftrightarrow>
     framed_message d \<and> framed_message f \<and> framed_message s \<and> distinct (map message_opcode [d, f, s]) \<and>
     prefix_end \<le> int (length d) \<and> (\<exists>offset. shares_token d prefix_end f s offset)"
    unfolding unfold using wide some by blast
  fix o' assume o': "discover_companion_observation digest d f s ts flow q prefix_end = Some o'"
  then have inside: "prefix_end \<le> int (length d)"
    by (auto simp: discover_companion_observation_def split: if_splits)
  obtain token offset i j where shared: "shared_token d f s prefix_end = Some (token, (offset, i, j))"
      and fields: "co_token_offsets o' = (offset, i, j)" "co_token_digest o' = digest token"
    using o' by (auto simp: discover_companion_observation_def Let_def split: if_splits prod.splits)
  note found = shared_token_Some [OF inside shared]
  show "\<exists>offset i j. co_token_offsets o' = (offset, i, j) \<and> strongest_token d prefix_end f s offset \<and>
        found_at (token_at d offset) f i \<and> found_at (token_at d offset) s j \<and>
        co_token_digest o' = digest (token_at d offset)"
    using found fields by (intro exI [of _ offset] exI [of _ i] exI [of _ j]) simp
qed

abbreviation sample_message :: "byte \<Rightarrow> bytes" where
  "sample_message b \<equiv> [13, 0, 0, b, b, 1, 2, 3, 4, 5, 6, 7, 8]"

theorem observation_is_strongest_witness:
  "\<exists>o' offset i j. discover_companion_observation (\<lambda>_. ''d'') (sample_message 1) (sample_message 2) (sample_message 3)
       (Finite 0) sample_flow None 13 = Some o' \<and> co_token_offsets o' = (offset, i, j) \<and>
     strongest_token (sample_message 1) 13 (sample_message 2) (sample_message 3) offset"
proof -
  have "discover_companion_observation (\<lambda>_. ''d'') (sample_message 1) (sample_message 2) (sample_message 3)
       (Finite 0) sample_flow None 13 \<noteq> None"
    by code_simp
  then obtain o' where o': "discover_companion_observation (\<lambda>_. ''d'') (sample_message 1) (sample_message 2) (sample_message 3)
       (Finite 0) sample_flow None 13 = Some o'"
    by blast
  then show ?thesis
    using observation_is_strongest [of "\<lambda>_. ''d''" "sample_message 1" "sample_message 2" "sample_message 3" "Finite 0" sample_flow None 13]
    by metis
qed

end
