(* ===== verification/Manual_Ledger.thy ===== *)
theory Manual_Ledger
  imports Bdo_Event Event_Specs "HOL-Library.Product_Lexorder"
begin

text \<open>
  \<^verbatim>\<open>src/bdo_toolkit/_origin/manual.py\<close>: the ledger of calibrated decrement frames, each
  of which may prove at most one later storage message to be a deposit from the player's
  inventory. A candidate is an object that only the ledger of its flow refers to, so it is a
  value of that list. A storage record's quantity is read from four bytes, so its conversion
  back to four bytes does not raise.
\<close>

section \<open>Evidence\<close>

definition STALE_SECONDS :: pyfloat where
  "STALE_SECONDS = Finite 2"

text \<open>Addition of timestamps, with the special values of a float.\<close>

fun plus_seconds :: "pyfloat \<Rightarrow> pyfloat \<Rightarrow> pyfloat" where
  "plus_seconds (Finite a) (Finite b) = Finite (a + b)"
| "plus_seconds NaN _ = NaN"
| "plus_seconds _ NaN = NaN"
| "plus_seconds PosInf NegInf = NaN"
| "plus_seconds NegInf PosInf = NaN"
| "plus_seconds PosInf _ = PosInf"
| "plus_seconds NegInf _ = NegInf"
| "plus_seconds _ PosInf = PosInf"
| "plus_seconds _ NegInf = NegInf"

datatype match_confidence = Conf_Observed | Conf_Structural | Conf_Heuristic

fun confidence_rank :: "match_confidence \<Rightarrow> int" where
  "confidence_rank Conf_Observed = 0"
| "confidence_rank Conf_Structural = 1"
| "confidence_rank Conf_Heuristic = 2"

fun confidence_text :: "match_confidence \<Rightarrow> string" where
  "confidence_text Conf_Observed = ''observed''"
| "confidence_text Conf_Structural = ''structural''"
| "confidence_text Conf_Heuristic = ''heuristic''"

record manual_match =
  mm_opcode :: int
  mm_message_length :: int
  mm_quantity_offset :: int
  mm_source_instance_offset :: "int option"
  mm_match_kind :: string
  mm_confidence :: match_confidence
  mm_instance_matches_destination :: "bool option"

definition match_to_dict :: "manual_match \<Rightarrow> jobject" where
  "match_to_dict m =
     [(''opcode'', JStr (format_opcode (mm_opcode m))), (''message_length'', JInt (mm_message_length m)),
      (''quantity_offset'', JInt (mm_quantity_offset m)), (''match_kind'', JStr (mm_match_kind m)),
      (''confidence'', JStr (confidence_text (mm_confidence m)))] @
     (case mm_source_instance_offset m of None \<Rightarrow> [] | Some offset \<Rightarrow> [(''source_instance_offset'', JInt offset)]) @
     (case mm_instance_matches_destination m of None \<Rightarrow> [] | Some b \<Rightarrow> [(''instance_matches_destination'', JBool b)])"

type_synonym manual_flow_key = "flow_key \<times> int"
type_synonym manual_operation_key = "flow_key \<times> int \<times> int option \<times> int option \<times> int option \<times> pyfloat"

record manual_candidate =
  md_stream_start :: int
  md_stream_end :: int
  md_timestamp :: pyfloat
  md_opcode :: int
  md_message :: bytes
  md_specs :: "decrement_spec list"
  md_successor_starts :: "int list"
  md_reserved_by :: "manual_operation_key option"

definition md_message_length :: "manual_candidate \<Rightarrow> int" where
  "md_message_length c = int (length (md_message c))"

section \<open>State\<close>

definition MANUAL_IMMEDIATE_SUCCESSORS :: nat where
  "MANUAL_IMMEDIATE_SUCCESSORS = 2"

definition MAX_MANUAL_CANDIDATES_PER_FLOW :: int where
  "MAX_MANUAL_CANDIDATES_PER_FLOW = 128"

definition MAX_MANUAL_CANDIDATES_TOTAL :: int where
  "MAX_MANUAL_CANDIDATES_TOTAL = 4096"

definition MAX_MANUAL_CANDIDATE_BYTES_PER_FLOW :: int where
  "MAX_MANUAL_CANDIDATE_BYTES_PER_FLOW = 2 * 1024 * 1024"

definition MAX_MANUAL_CANDIDATE_BYTES_TOTAL :: int where
  "MAX_MANUAL_CANDIDATE_BYTES_TOTAL = 32 * 1024 * 1024"

record manual_ledger =
  ml_specs :: "(int, decrement_spec list) dict"
  ml_candidates :: "(manual_flow_key, manual_candidate list) dict"
  ml_count :: int
  ml_bytes :: int
  ml_bytes_by_flow :: "(manual_flow_key, int) dict"
  ml_active :: "(flow_key, int) dict"
  ml_frontiers :: "(manual_flow_key, int) dict"
  ml_floors :: "(manual_flow_key, int) dict"
  ml_latest :: "(manual_flow_key, pyfloat) dict"
  ml_suppressed :: "(manual_flow_key, pyfloat) dict"

text \<open>\<^verbatim>\<open>d.get(k, default)\<close>\<close>

definition dict_get :: "('k, 'v) dict \<Rightarrow> 'k \<Rightarrow> 'v \<Rightarrow> 'v" where
  "dict_get d k v0 = (case map_of d k of None \<Rightarrow> v0 | Some v \<Rightarrow> v)"

definition add_decrement_spec :: "decrement_spec \<Rightarrow> (int, decrement_spec list) dict \<Rightarrow> (int, decrement_spec list) dict" where
  "add_decrement_spec spec d =
     (let matches = dict_get d (ds_opcode spec) []
      in AList.update (ds_opcode spec) (if spec \<in> set matches then matches else matches @ [spec]) d)"

definition new_manual_ledger :: "decrement_spec list \<Rightarrow> manual_ledger" where
  "new_manual_ledger decrement_specs =
     \<lparr>ml_specs = fold add_decrement_spec decrement_specs [], ml_candidates = [], ml_count = 0, ml_bytes = 0,
      ml_bytes_by_flow = [], ml_active = [], ml_frontiers = [], ml_floors = [], ml_latest = [], ml_suppressed = []\<rparr>"

section \<open>Forgetting\<close>

definition candidates_bytes :: "manual_candidate list \<Rightarrow> int" where
  "candidates_bytes cs = sum_list (map md_message_length cs)"

definition remove_manual_key :: "manual_flow_key \<Rightarrow> manual_ledger \<Rightarrow> manual_ledger" where
  "remove_manual_key key l =
     (let candidates = dict_get (ml_candidates l) key []
      in l\<lparr>ml_candidates := AList.delete key (ml_candidates l),
           ml_count := ml_count l - int (length candidates),
           ml_bytes := ml_bytes l - candidates_bytes candidates,
           ml_bytes_by_flow := AList.delete key (ml_bytes_by_flow l),
           ml_frontiers := AList.delete key (ml_frontiers l),
           ml_floors := AList.delete key (ml_floors l),
           ml_latest := AList.delete key (ml_latest l),
           ml_suppressed := AList.delete key (ml_suppressed l)\<rparr>)"

text \<open>The keys are a set in the code; removing them in any order gives the same ledger.\<close>

definition purge_manual_flow :: "flow_key \<Rightarrow> manual_ledger \<Rightarrow> manual_ledger" where
  "purge_manual_flow flow l =
     (let keys = filter (\<lambda>key. fst key = flow)
                   (remdups (map fst (ml_candidates l) @ map fst (ml_bytes_by_flow l) @ map fst (ml_frontiers l) @
                             map fst (ml_floors l) @ map fst (ml_latest l) @ map fst (ml_suppressed l)));
          l1 = fold remove_manual_key keys l
      in l1\<lparr>ml_active := AList.delete flow (ml_active l1)\<rparr>)"

definition activate_generation :: "flow_key \<Rightarrow> int \<Rightarrow> manual_ledger \<Rightarrow> bool \<times> manual_ledger" where
  "activate_generation flow generation l =
     (case map_of (ml_active l) flow of
        None \<Rightarrow> (True, l\<lparr>ml_active := AList.update flow generation (ml_active l)\<rparr>)
      | Some active \<Rightarrow>
          if generation = active then (True, l)
          else if generation < active then (False, l)
          else (let l1 = purge_manual_flow flow l
                in (True, l1\<lparr>ml_active := AList.update flow generation (ml_active l1)\<rparr>)))"

definition manual_key_is_suppressed :: "manual_flow_key \<Rightarrow> manual_ledger \<Rightarrow> bool \<times> manual_ledger" where
  "manual_key_is_suppressed key l =
     (case map_of (ml_suppressed l) key of
        None \<Rightarrow> (False, l)
      | Some suppressed_until \<Rightarrow>
          if dict_get (ml_latest l) key suppressed_until \<le> suppressed_until then (True, l)
          else (False, l\<lparr>ml_suppressed := AList.delete key (ml_suppressed l)\<rparr>))"

definition suppress_manual_key :: "manual_flow_key \<Rightarrow> pyfloat \<Rightarrow> manual_ledger \<Rightarrow> manual_ledger" where
  "suppress_manual_key key timestamp l =
     (let suppression_clock = py_max timestamp (dict_get (ml_latest l) key timestamp)
      in l\<lparr>ml_suppressed := AList.update key
             (py_max (dict_get (ml_suppressed l) key suppression_clock) (plus_seconds suppression_clock STALE_SECONDS))
             (ml_suppressed l)\<rparr>)"

definition is_stale :: "pyfloat \<Rightarrow> manual_candidate \<Rightarrow> bool" where
  "is_stale now c \<longleftrightarrow> STALE_SECONDS < now - md_timestamp c"

definition prune_key :: "pyfloat \<Rightarrow> manual_flow_key \<times> manual_candidate list \<Rightarrow> manual_ledger \<Rightarrow> manual_ledger" where
  "prune_key now entry l =
     (let key = fst entry;
          retained = filter (\<lambda>c. \<not> is_stale now c) (snd entry);
          removed = filter (is_stale now) (snd entry);
          l1 = l\<lparr>ml_candidates := (if retained \<noteq> [] then AList.update key retained (ml_candidates l)
                                  else AList.delete key (ml_candidates l))\<rparr>
      in if removed = [] then l1
         else let remaining = dict_get (ml_bytes_by_flow l1) key 0 - candidates_bytes removed
              in l1\<lparr>ml_count := ml_count l1 - int (length removed),
                    ml_bytes := ml_bytes l1 - candidates_bytes removed,
                    ml_bytes_by_flow := (if remaining \<noteq> 0 then AList.update key remaining (ml_bytes_by_flow l1)
                                         else AList.delete key (ml_bytes_by_flow l1))\<rparr>)"

definition prune_manual_candidates :: "pyfloat \<Rightarrow> manual_ledger \<Rightarrow> manual_ledger" where
  "prune_manual_candidates now l =
     (let l1 = fold (prune_key now) (ml_candidates l) l
      in l1\<lparr>ml_suppressed := filter
             (\<lambda>(key, suppressed_until). \<not> suppressed_until < py_max now (dict_get (ml_latest l1) key now))
             (ml_suppressed l1)\<rparr>)"

section \<open>Observing frames\<close>

definition spec_accepts_message :: "bytes \<Rightarrow> decrement_spec \<Rightarrow> bool" where
  "spec_accepts_message message spec \<longleftrightarrow>
     \<not> int (length message) < ds_min_message_length spec \<and>
     (case ds_repeat_stride spec of
        None \<Rightarrow> True
      | Some stride \<Rightarrow> (int (length message) - ds_min_message_length spec) mod stride = 0)"

definition note_successor :: "int \<Rightarrow> manual_candidate \<Rightarrow> manual_candidate" where
  "note_successor start c =
     (if md_stream_end c \<le> start \<and> length (md_successor_starts c) < MANUAL_IMMEDIATE_SUCCESSORS
          \<and> start \<notin> set (md_successor_starts c)
      then c\<lparr>md_successor_starts := md_successor_starts c @ [start]\<rparr> else c)"

text \<open>\<^verbatim>\<open>max(end, frontier or end)\<close>: a frontier of zero counts as none.\<close>

definition advance_frontier :: "manual_flow_key \<Rightarrow> int \<Rightarrow> int \<Rightarrow> manual_ledger \<Rightarrow> manual_ledger" where
  "advance_frontier key start end' l =
     l\<lparr>ml_candidates := AList.map_entry key (map (note_successor start)) (ml_candidates l),
       ml_frontiers := AList.update key
         (case map_of (ml_frontiers l) key of
            None \<Rightarrow> end' | Some frontier \<Rightarrow> py_max end' (if frontier = 0 then end' else frontier))
         (ml_frontiers l)\<rparr>"

text \<open>The end of the operation: a frame that some calibrated shape accepts becomes a candidate.\<close>

definition admit_candidate :: "manual_flow_key \<Rightarrow> manual_candidate \<Rightarrow> manual_ledger \<Rightarrow> manual_ledger" where
  "admit_candidate key c l =
     (let ledger = dict_get (ml_candidates l) key [];
          l1 = (if map_of (ml_candidates l) key = None then l\<lparr>ml_candidates := AList.update key [] (ml_candidates l)\<rparr> else l);
          (suppressed, l2) = manual_key_is_suppressed key l1;
          message_size = md_message_length c;
          flow_bytes = dict_get (ml_bytes_by_flow l2) key 0
      in if \<exists>other \<in> set ledger. md_stream_start other = md_stream_start c \<and> md_stream_end other = md_stream_end c
              \<and> md_opcode other = md_opcode c then l1
         else if suppressed then suppress_manual_key key (md_timestamp c) l2
         else if int (length ledger) \<ge> MAX_MANUAL_CANDIDATES_PER_FLOW \<or> ml_count l2 \<ge> MAX_MANUAL_CANDIDATES_TOTAL
              \<or> flow_bytes + message_size > MAX_MANUAL_CANDIDATE_BYTES_PER_FLOW
              \<or> ml_bytes l2 + message_size > MAX_MANUAL_CANDIDATE_BYTES_TOTAL
         then suppress_manual_key key (md_timestamp c) l2
         else l2\<lparr>ml_candidates := AList.update key (ledger @ [c]) (ml_candidates l2),
                 ml_count := ml_count l2 + 1,
                 ml_bytes := ml_bytes l2 + message_size,
                 ml_bytes_by_flow := AList.update key (flow_bytes + message_size) (ml_bytes_by_flow l2)\<rparr>)"

definition observe_manual_frame :: "bdo_frame \<Rightarrow> manual_ledger \<Rightarrow> manual_ledger" where
  "observe_manual_frame frame l =
     (let flow = ctx_flow (fr_context frame);
          generation = ctx_flow_generation (fr_context frame);
          (active, l1) = activate_generation flow generation l;
          key = (flow, generation);
          now = ctx_timestamp (fr_context frame);
          l2 = l1\<lparr>ml_latest := AList.update key (py_max now (dict_get (ml_latest l1) key now)) (ml_latest l1)\<rparr>
      in if \<not> active then l1
         else case fr_stream_sequence frame of
                None \<Rightarrow> l2
              | Some start \<Rightarrow>
                  if opt_sat (\<lambda>floor. start < floor) (map_of (ml_floors l2) key) then l2
                  else if opt_sat (\<lambda>frontier. start < frontier) (map_of (ml_frontiers l2) key) then l2
                  else
                    let end' = start + int (length (fr_message frame));
                        l3 = advance_frontier key start end' l2;
                        specs = filter (spec_accepts_message (fr_message frame))
                                  (dict_get (ml_specs l3) (frame_opcode frame) [])
                    in if specs = [] then l3
                       else admit_candidate key
                              \<lparr>md_stream_start = start, md_stream_end = end', md_timestamp = now,
                               md_opcode = frame_opcode frame, md_message = fr_message frame, md_specs = specs,
                               md_successor_starts = [], md_reserved_by = None\<rparr>
                              (prune_manual_candidates now l3))"

section \<open>Matching\<close>

text \<open>\<^verbatim>\<open>bytes.fromhex\<close>, which skips white space between bytes.\<close>

definition hex_value :: "char \<Rightarrow> int option" where
  "hex_value c =
     (let n = of_char c :: int
      in if 48 \<le> n \<and> n \<le> 57 then Some (n - 48)
         else if 65 \<le> n \<and> n \<le> 70 then Some (n - 55)
         else if 97 \<le> n \<and> n \<le> 102 then Some (n - 87)
         else None)"

definition is_hex_space :: "char \<Rightarrow> bool" where
  "is_hex_space c \<longleftrightarrow> (let n = of_char c :: int in n = 32 \<or> (9 \<le> n \<and> n \<le> 13))"

fun bytes_fromhex :: "string \<Rightarrow> bytes option" where
  "bytes_fromhex [] = Some []"
| "bytes_fromhex (c # cs) =
     (if is_hex_space c then bytes_fromhex cs
      else case cs of
             [] \<Rightarrow> None
           | d # ds \<Rightarrow>
               (case (hex_value c, hex_value d, bytes_fromhex ds) of
                  (Some high, Some low, Some bs) \<Rightarrow> Some (word_of_int (16 * high + low) # bs)
                | _ \<Rightarrow> None))"

definition event_storage_instance :: "bdo_event \<Rightarrow> bytes option" where
  "event_storage_instance event =
     (case ev_storage_instance event of
        None \<Rightarrow> None
      | Some value \<Rightarrow>
          if take 2 value \<noteq> ''0x'' then None
          else case bytes_fromhex (drop 2 value) of
                 None \<Rightarrow> None
               | Some decoded \<Rightarrow> if length decoded = 8 then Some decoded else None)"

definition nonempty_source_instance :: "bytes \<Rightarrow> bool" where
  "nonempty_source_instance value \<longleftrightarrow> length value = 8 \<and> value \<noteq> replicate 8 0 \<and> value \<noteq> replicate 8 0xFF"

definition structural_source_instance :: "bytes \<Rightarrow> bool" where
  "structural_source_instance value \<longleftrightarrow>
     nonempty_source_instance value \<and>
     take 4 value \<notin> {replicate 4 0, replicate 4 0xFF} \<and> drop 4 value \<notin> {replicate 4 0, replicate 4 0xFF}"

definition quantity_only_is_immediate :: "manual_candidate \<Rightarrow> int \<Rightarrow> bool" where
  "quantity_only_is_immediate c storage_sequence \<longleftrightarrow>
     length (filter (\<lambda>successor. successor < storage_sequence) (md_successor_starts c)) < MANUAL_IMMEDIATE_SUCCESSORS"

text \<open>\<^verbatim>\<open>range(0, stop, step)\<close> for a positive step.\<close>

definition py_range :: "int \<Rightarrow> int \<Rightarrow> int list" where
  "py_range stop step = map (\<lambda>i. int i * step) [0 ..< nat ((stop + step - 1) div step)]"

text \<open>
  The offsets of the records of a candidate under a shape, with the stride that was inferred
  when the shape has none: from the number of records of the batch, and only for exact identity.
\<close>

definition record_deltas_of :: "manual_candidate \<Rightarrow> bdo_event \<Rightarrow> decrement_spec \<Rightarrow> int option \<times> int list" where
  "record_deltas_of c event spec =
     (let extra_length = md_message_length c - ds_min_message_length spec in
      case (ds_repeat_stride spec, ds_source_instance_offset spec, event_storage_instance event,
            ev_record_index event, ev_record_count event) of
        (Some stride, _) \<Rightarrow> (None, py_range (extra_length + 1) stride)
      | (None, Some source_offset, Some _, Some index, Some count) \<Rightarrow>
          if count > 1 \<and> 1 \<le> index \<and> index \<le> count
          then let divisor = count - 1 in
               if extra_length \<le> 0 \<or> extra_length mod divisor \<noteq> 0 then (None, [0])
               else let inferred_stride = extra_length div divisor;
                        prefix_length = ds_min_message_length spec - inferred_stride
                    in if inferred_stride \<le> 0 \<or> prefix_length < 5 \<or> ds_quantity_offset spec < prefix_length
                            \<or> source_offset < prefix_length
                       then (None, [0])
                       else (Some inferred_stride, py_range (extra_length + 1) inferred_stride)
          else (None, [0])
      | _ \<Rightarrow> (None, [0]))"

type_synonym record_key = "int \<times> int option"

text \<open>One record of a candidate against an event.\<close>

definition match_record ::
    "manual_candidate \<Rightarrow> bdo_event \<Rightarrow> int \<Rightarrow> decrement_spec \<Rightarrow> int option \<Rightarrow> int \<Rightarrow> (record_key \<times> manual_match) option" where
  "match_record c event storage_sequence spec inferred_repeat_stride delta =
     (let quantity_offset = ds_quantity_offset spec + delta;
          quantity_end = quantity_offset + 4;
          destination_instance = event_storage_instance event
      in if quantity_end > md_message_length c \<or>
            py_slice (md_message c) quantity_offset quantity_end \<noteq> to_le 4 (ev_quantity event)
         then None
         else case ds_source_instance_offset spec of
           None \<Rightarrow>
             if \<not> quantity_only_is_immediate c storage_sequence then None
             else Some ((quantity_offset, None),
               \<lparr>mm_opcode = md_opcode c, mm_message_length = md_message_length c, mm_quantity_offset = quantity_offset,
                mm_source_instance_offset = None, mm_match_kind = ''quantity-only'', mm_confidence = Conf_Heuristic,
                mm_instance_matches_destination = None\<rparr>)
         | Some offset \<Rightarrow>
             let source_offset = offset + delta;
                 source_end = source_offset + 8;
                 source_instance = py_slice (md_message c) source_offset source_end;
                 exact = (destination_instance = Some source_instance)
             in if source_end > md_message_length c \<or> \<not> nonempty_source_instance source_instance then None
                else if \<not> exact \<and> inferred_repeat_stride \<noteq> None \<and> delta \<noteq> 0 then None
                else if \<not> exact \<and> \<not> structural_source_instance source_instance then None
                else Some ((quantity_offset, Some source_offset),
                  \<lparr>mm_opcode = md_opcode c, mm_message_length = md_message_length c, mm_quantity_offset = quantity_offset,
                   mm_source_instance_offset = Some source_offset,
                   mm_match_kind = (if exact then ''instance-and-quantity'' else ''anchored-instance-and-quantity''),
                   mm_confidence = (if exact then Conf_Observed else Conf_Structural),
                   mm_instance_matches_destination = (if destination_instance \<noteq> None then Some exact else None)\<rparr>))"

definition note_match ::
    "record_key \<times> manual_match \<Rightarrow> (record_key, manual_match) dict \<Rightarrow> (record_key, manual_match) dict" where
  "note_match entry matches =
     (if (case map_of matches (fst entry) of
            None \<Rightarrow> True
          | Some previous \<Rightarrow> confidence_rank (mm_confidence (snd entry)) < confidence_rank (mm_confidence previous))
      then AList.update (fst entry) (snd entry) matches else matches)"

text \<open>The \<^verbatim>\<open>min\<close> of a nonempty list.\<close>

fun list_min :: "'a::linorder list \<Rightarrow> 'a" where
  "list_min (x # xs) = py_min x xs"

definition candidate_record_matches ::
    "manual_candidate \<Rightarrow> bdo_event \<Rightarrow> int \<Rightarrow> (record_key \<times> manual_match) list" where
  "candidate_record_matches c event storage_sequence =
     (let found = concat (map (\<lambda>spec.
             case record_deltas_of c event spec of
               (inferred, deltas) \<Rightarrow> List.map_filter (match_record c event storage_sequence spec inferred) deltas)
             (md_specs c));
          matches = fold note_match found []
      in if matches = [] then []
         else let best_rank = list_min (map (\<lambda>(_, m). confidence_rank (mm_confidence m)) matches)
              in filter (\<lambda>(_, m). confidence_rank (mm_confidence m) = best_rank) matches)"

type_synonym score = "int \<times> int \<times> int"

text \<open>\<^verbatim>\<open>event.record_index or fallback_index\<close>\<close>

definition index_or :: "int option \<Rightarrow> int \<Rightarrow> int" where
  "index_or v fallback = (case v of None \<Rightarrow> fallback | Some i \<Rightarrow> if i = 0 then fallback else i)"

definition candidate_group_match ::
    "manual_candidate \<Rightarrow> bdo_event list \<Rightarrow> int \<Rightarrow> (score \<times> (int \<times> manual_match) list) option" where
  "candidate_group_match c events storage_sequence =
     (let choices = map (\<lambda>(i, event). (index_or (ev_record_index event) (int i), candidate_record_matches c event storage_sequence))
                      (enumerate 1 events);
          compatible = filter (\<lambda>(_, ms). ms \<noteq> []) choices;
          compatible_ranks = map (\<lambda>(_, ms). confidence_rank (mm_confidence (snd (hd ms)))) compatible;
          selected = map (\<lambda>(i, ms). (i, hd ms)) (filter (\<lambda>(_, ms). length ms = 1) compatible);
          keys = map (\<lambda>(_, key, _). key) selected;
          unique = map (\<lambda>(i, _, m). (i, m)) (filter (\<lambda>(_, key, _). count_list keys key = 1) selected)
      in if compatible_ranks = [] then None
         else let best_rank = list_min compatible_ranks;
                  best_count = int (count_list compatible_ranks best_rank)
              in Some ((best_rank, - best_count, - int (length compatible_ranks)), unique))"

section \<open>Reserving a decrement\<close>

definition evaluate_candidate ::
    "int \<Rightarrow> bdo_event list \<Rightarrow> manual_candidate \<Rightarrow> (score \<times> (int \<times> manual_match) list) option" where
  "evaluate_candidate stream_sequence events c =
     (if md_reserved_by c \<noteq> None then None
      else if md_stream_end c > stream_sequence then None
      else if is_stale (ev_timestamp (hd events)) c then None
      else candidate_group_match c events stream_sequence)"

text \<open>The candidates with the best score are reserved; only a single one yields its matches.\<close>

definition reserve_best ::
    "manual_operation_key \<Rightarrow> int \<Rightarrow> bdo_event list \<Rightarrow> manual_candidate list \<Rightarrow> (int \<times> manual_match) list \<times> manual_candidate list" where
  "reserve_best operation_key stream_sequence events candidates =
     (let evaluated = List.map_filter (evaluate_candidate stream_sequence events) candidates in
      if evaluated = [] then ([], candidates)
      else
        let best_score = list_min (map fst evaluated);
            winners = filter (\<lambda>(score, _). score = best_score) evaluated;
            reserved = map (\<lambda>c. case evaluate_candidate stream_sequence events c of
                None \<Rightarrow> c
              | Some (score, _) \<Rightarrow> if score = best_score then c\<lparr>md_reserved_by := Some operation_key\<rparr> else c) candidates
        in (case winners of [(_, matches)] \<Rightarrow> matches | _ \<Rightarrow> [], reserved))"

definition reserve_matching_decrement ::
    "flow_key \<Rightarrow> int \<Rightarrow> int option \<Rightarrow> bdo_event list \<Rightarrow> manual_ledger \<Rightarrow> (int \<times> manual_match) list \<times> manual_ledger" where
  "reserve_matching_decrement flow generation stream_sequence events l =
     (case (stream_sequence, events) of
        (Some q, event # _) \<Rightarrow>
          (let (active, l1) = activate_generation flow generation l in
           if \<not> active then ([], l1)
           else
             let key = (flow, generation);
                 now = ev_timestamp event;
                 l2 = l1\<lparr>ml_latest := AList.update key (py_max now (dict_get (ml_latest l1) key now)) (ml_latest l1)\<rparr>;
                 l3 = prune_manual_candidates now l2;
                 (suppressed, l4) = manual_key_is_suppressed key l3
             in if suppressed then ([], l4)
                else case map_of (ml_candidates l4) key of
                       None \<Rightarrow> ([], l4)
                     | Some candidates \<Rightarrow>
                         (case reserve_best (flow, generation, stream_sequence, ev_opcode event, ev_message_length event, now)
                                 q events candidates of
                            (matches, candidates') \<Rightarrow>
                              (matches, l4\<lparr>ml_candidates := AList.update key candidates' (ml_candidates l4)\<rparr>)))
      | _ \<Rightarrow> ([], l))"

section \<open>Resets\<close>

definition manual_reset :: "flow_key \<Rightarrow> int \<Rightarrow> int \<Rightarrow> manual_ledger \<Rightarrow> manual_ledger" where
  "manual_reset flow generation resume_sequence l =
     (let key = (flow, generation) in
      if map_of (ml_active l) flow \<noteq> None \<and> map_of (ml_active l) flow \<noteq> Some generation then l
      else let l1 = remove_manual_key key l
           in l1\<lparr>ml_active := AList.update flow generation (ml_active l1),
                 ml_floors := AList.update key (py_max resume_sequence (dict_get (ml_floors l1) key resume_sequence)) (ml_floors l1),
                 ml_frontiers := AList.update key (py_max resume_sequence (dict_get (ml_frontiers l1) key resume_sequence))
                   (ml_frontiers l1)\<rparr>)"

definition clear_ledger :: "manual_ledger \<Rightarrow> manual_ledger" where
  "clear_ledger l = (new_manual_ledger [])\<lparr>ml_specs := ml_specs l\<rparr>"

end
