(* ===== verification/Manual_Facts.thy ===== *)
theory Manual_Facts
  imports Manual_Ledger
begin

text \<open>
  What the ledger of decrement frames keeps: its candidates are observed frames that a
  calibrated shape accepts, its counters are exact and its limits hold; and what a match that
  it hands out proves.
\<close>

section \<open>Matches\<close>

text \<open>The bytes of the candidate hold the quantity of the event.\<close>

definition match_proof :: "manual_candidate \<Rightarrow> bdo_event \<Rightarrow> manual_match \<Rightarrow> bool" where
  "match_proof c e m \<longleftrightarrow>
     mm_opcode m = md_opcode c \<and> mm_message_length m = md_message_length c \<and>
     mm_quantity_offset m + 4 \<le> md_message_length c \<and>
     py_slice (md_message c) (mm_quantity_offset m) (mm_quantity_offset m + 4) = to_le 4 (ev_quantity e)"

lemma match_record_proof: "match_record c e q spec inferred delta = Some (k, m) \<Longrightarrow> match_proof c e m"
  by (auto simp: match_record_def match_proof_def Let_def split: option.splits if_splits)

lemma note_match_subset: "set (note_match entry ms) \<subseteq> insert entry (set ms)"
  using set_update_subset [of "fst entry" "snd entry" ms] by (auto simp: note_match_def)

lemma fold_note_match: "set (fold note_match found ms) \<subseteq> set found \<union> set ms"
proof (induction found arbitrary: ms)
  case (Cons entry found)
  then show ?case
    using note_match_subset [of entry ms] Cons [of "note_match entry ms"] by auto
qed simp

lemma record_match_proof:
  assumes "(k, m) \<in> set (candidate_record_matches c e q)"
  shows "match_proof c e m"
proof -
  define found where "found = concat (map (\<lambda>spec.
             case record_deltas_of c e spec of
               (inferred, deltas) \<Rightarrow> List.map_filter (match_record c e q spec inferred) deltas) (md_specs c))"
  have "(k, m) \<in> set (fold note_match found [])"
    using assms by (auto simp: candidate_record_matches_def Let_def found_def split: if_splits)
  then have "(k, m) \<in> set found"
    using fold_note_match [of found "[]"] by auto
  then obtain spec inferred deltas delta where "record_deltas_of c e spec = (inferred, deltas)"
      "match_record c e q spec inferred delta = Some (k, m)"
    by (auto simp: found_def set_map_filter_Some split: prod.splits) (metis surj_pair)
  then show ?thesis
    by (auto dest: match_record_proof)
qed

lemma drop_key: "(i, m) \<in> set (map (\<lambda>(i, _, m). (i, m)) (filter P xs)) \<Longrightarrow> \<exists>key. (i, key, m) \<in> set xs"
  by auto

lemma take_head:
  "(i, key, m) \<in> set (map (\<lambda>(i, ms). (i, hd ms)) (filter P xs)) \<Longrightarrow> \<exists>ms. (i, ms) \<in> set xs \<and> P (i, ms) \<and> hd ms = (key, m)"
  by auto

lemma group_match_proof:
  assumes "candidate_group_match c events q = Some (score, ms)" and "(i, m) \<in> set ms"
  shows "\<exists>e \<in> set events. match_proof c e m"
proof -
  define choices where "choices = map (\<lambda>(i, event). (index_or (ev_record_index event) (int i), candidate_record_matches c event q))
                      (enumerate 1 events)"
  define selected where "selected = map (\<lambda>(i, ms). (i, hd ms)) (filter (\<lambda>(_, ms). length ms = 1) (filter (\<lambda>(_, ms). ms \<noteq> []) choices))"
  have "ms = map (\<lambda>(i, _, m). (i, m)) (filter (\<lambda>(_, key, _). count_list (map (\<lambda>(_, key, _). key) selected) key = 1) selected)"
    using assms(1) unfolding candidate_group_match_def choices_def [symmetric] Let_def selected_def [symmetric] by (simp split: if_splits)
  then obtain key where "(i, key, m) \<in> set selected"
    using assms(2) drop_key by metis
  then obtain matches where "(i, matches) \<in> set (filter (\<lambda>(_, ms). ms \<noteq> []) choices)" and head: "hd matches = (key, m)"
    unfolding selected_def using take_head by metis
  then have choice: "(i, matches) \<in> set choices" "matches \<noteq> []"
    by simp_all
  then obtain j e where e: "(j, e) \<in> set (enumerate 1 events)" "matches = candidate_record_matches c e q"
    by (auto simp: choices_def)
  have "(key, m) \<in> set matches"
    using choice(2) head by (metis hd_in_set)
  then have "match_proof c e m"
    unfolding e(2) by (rule record_match_proof)
  moreover have "e \<in> set events"
    using e(1) by (metis in_set_enumerate_eq snd_conv nth_mem diff_less less_diff_conv2 le_add1 add.commute)
  ultimately show ?thesis
    by blast
qed

lemma evaluate_Some:
  assumes "evaluate_candidate q events c = Some (score, ms)"
  shows "md_reserved_by c = None" "md_stream_end c \<le> q" "\<not> is_stale (ev_timestamp (hd events)) c"
    "candidate_group_match c events q = Some (score, ms)"
  using assms unfolding evaluate_candidate_def by (auto split: if_split_asm simp del: not_None_eq)

lemma reserve_best_match:
  assumes "reserve_best key q events candidates = (matches, reserved)" and "matches \<noteq> []"
  shows "\<exists>c \<in> set candidates. \<exists>score. evaluate_candidate q events c = Some (score, matches)"
proof -
  define evaluated where "evaluated = List.map_filter (evaluate_candidate q events) candidates"
  have "\<exists>score. (score, matches) \<in> set evaluated"
  proof -
    have "matches = (case filter (\<lambda>(score, _). score = list_min (map fst evaluated)) evaluated of [(_, matches)] \<Rightarrow> matches | _ \<Rightarrow> [])"
      using assms unfolding reserve_best_def evaluated_def [symmetric] by (auto simp: Let_def split: if_splits)
    then obtain score where "filter (\<lambda>(score, _). score = list_min (map fst evaluated)) evaluated = [(score, matches)]"
      using assms(2) by (auto split: list.splits prod.splits)
    then have "(score, matches) \<in> set (filter (\<lambda>(score, _). score = list_min (map fst evaluated)) evaluated)"
      by simp
    then have "(score, matches) \<in> set evaluated"
      by (simp only: set_filter mem_Collect_eq)
    then show ?thesis ..
  qed
  then show ?thesis
    by (auto simp: evaluated_def set_map_filter_Some)
qed

section \<open>Candidates are observed frames\<close>

definition candidates_at :: "manual_ledger \<Rightarrow> manual_flow_key \<Rightarrow> manual_candidate list" where
  "candidates_at l key = dict_get (ml_candidates l) key []"

text \<open>The frame of a candidate, without the notes made later.\<close>

definition candidate_frame :: "manual_candidate \<Rightarrow> manual_candidate" where
  "candidate_frame c = c\<lparr>md_successor_starts := [], md_reserved_by := None\<rparr>"

definition retained :: "manual_ledger \<Rightarrow> manual_ledger \<Rightarrow> bool" where
  "retained l l' \<longleftrightarrow> ml_specs l' = ml_specs l \<and>
     (\<forall>key. candidate_frame ` set (candidates_at l' key) \<subseteq> candidate_frame ` set (candidates_at l key))"

lemma retained_refl: "retained l l"
  by (simp add: retained_def)

lemma retained_trans: "retained l l' \<Longrightarrow> retained l' l'' \<Longrightarrow> retained l l''"
  by (simp add: retained_def) (meson subset_trans)

lemma retained_same: "ml_candidates l' = ml_candidates l \<Longrightarrow> ml_specs l' = ml_specs l \<Longrightarrow> retained l l'"
  by (simp add: retained_def candidates_at_def)

lemma candidates_at_simps:
  "candidates_at (l\<lparr>ml_candidates := AList.update key cs (ml_candidates l)\<rparr>) k = (if k = key then cs else candidates_at l k)"
  "candidates_at (l\<lparr>ml_candidates := AList.delete key (ml_candidates l)\<rparr>) k = (if k = key then [] else candidates_at l k)"
  by (simp_all add: candidates_at_def dict_get_def AList.update_conv' AList.delete_conv')

lemma retained_update:
  "candidate_frame ` set cs \<subseteq> candidate_frame ` set (candidates_at l key) \<Longrightarrow>
    retained l (l\<lparr>ml_candidates := AList.update key cs (ml_candidates l)\<rparr>)"
  by (auto simp: retained_def candidates_at_simps)

lemma retained_fields:
  "candidates_at (l\<lparr>ml_count := n\<rparr>) k = candidates_at l k" "candidates_at (l\<lparr>ml_bytes := n\<rparr>) k = candidates_at l k"
  "candidates_at (l\<lparr>ml_bytes_by_flow := d\<rparr>) k = candidates_at l k" "candidates_at (l\<lparr>ml_active := a\<rparr>) k = candidates_at l k"
  "candidates_at (l\<lparr>ml_frontiers := f\<rparr>) k = candidates_at l k" "candidates_at (l\<lparr>ml_floors := f\<rparr>) k = candidates_at l k"
  "candidates_at (l\<lparr>ml_latest := t\<rparr>) k = candidates_at l k" "candidates_at (l\<lparr>ml_suppressed := t\<rparr>) k = candidates_at l k"
  by (simp_all add: candidates_at_def)

lemma retained_remove: "retained l (remove_manual_key key l)"
  by (simp add: retained_def remove_manual_key_def Let_def retained_fields candidates_at_simps)

lemma fold_retained: "(\<And>x l. retained l (f x l)) \<Longrightarrow> retained l (fold f xs l)"
  by (induction xs arbitrary: l) (auto intro: retained_refl retained_trans)

lemma retained_purge: "retained l (purge_manual_flow flow l)"
  unfolding purge_manual_flow_def Let_def
  by (rule retained_trans [OF fold_retained [OF retained_remove]]) (rule retained_same; simp)

lemma retained_activate: "retained l (snd (activate_generation flow g l))"
  using retained_trans [OF retained_purge [of l flow] retained_same]
  by (auto simp: activate_generation_def Let_def retained_refl retained_same split: option.split)

lemma retained_suppressed: "retained l (snd (manual_key_is_suppressed key l))"
  by (auto simp: manual_key_is_suppressed_def retained_refl retained_same split: option.split)

lemma retained_suppress: "retained l (suppress_manual_key key ts l)"
  by (simp add: suppress_manual_key_def Let_def retained_same)

lemma prune_key_candidates:
  "candidates_at (prune_key now (key, cs) l) k = (if k = key then filter (\<lambda>c. \<not> is_stale now c) cs else candidates_at l k)"
  by (auto simp: prune_key_def Let_def retained_fields candidates_at_simps)

lemma prune_key_specs: "ml_specs (prune_key now entry l) = ml_specs l"
  by (simp add: prune_key_def Let_def)

lemma prune_candidates_at:
  assumes "distinct (map fst (ml_candidates l))"
  shows "candidates_at (prune_manual_candidates now l) k = filter (\<lambda>c. \<not> is_stale now c) (candidates_at l k)"
proof -
  have "candidates_at (fold (prune_key now) d u) k =
      (case map_of d k of None \<Rightarrow> candidates_at u k | Some cs \<Rightarrow> filter (\<lambda>c. \<not> is_stale now c) cs)"
    if "distinct (map fst d)" for d u
    using that
  proof (induction d arbitrary: u)
    case (Cons entry d)
    obtain key cs where entry: "entry = (key, cs)"
      by (cases entry)
    have fresh: "key \<notin> fst ` set d" and d: "distinct (map fst d)"
      using Cons.prems by (simp_all add: entry)
    show ?case
    proof (cases "k = key")
      case True
      then have "map_of d k = None"
        using fresh by (simp add: map_of_eq_None_iff)
      then show ?thesis
        using Cons.IH [OF d] True by (simp add: entry prune_key_candidates)
    next
      case False
      then have "candidates_at (prune_key now entry u) k = candidates_at u k"
        by (simp add: entry prune_key_candidates)
      then show ?thesis
        using Cons.IH [OF d, of "prune_key now entry u"] False by (simp add: entry split: option.split)
    qed
  qed simp
  from this [OF assms] show ?thesis
    by (simp add: prune_manual_candidates_def Let_def retained_fields) (simp add: candidates_at_def dict_get_def split: option.split)
qed

lemma prune_specs: "ml_specs (prune_manual_candidates now l) = ml_specs l"
proof -
  have "ml_specs (fold (prune_key now) d l) = ml_specs l" for d
    by (induction d arbitrary: l) (simp_all add: prune_key_specs)
  then show ?thesis
    by (simp add: prune_manual_candidates_def Let_def)
qed

lemma retained_prune: "distinct (map fst (ml_candidates l)) \<Longrightarrow> retained l (prune_manual_candidates now l)"
  by (auto simp: retained_def prune_candidates_at prune_specs)

lemma map_entry_at: "dict_get (AList.map_entry key f d) k v0 = (if k = key \<and> map_of d k \<noteq> None then f (dict_get d k v0) else dict_get d k v0)"
  by (auto simp: dict_get_def map_of_map_entry split: option.split)

lemma candidate_frame_note [simp]: "candidate_frame (note_successor start c) = candidate_frame c"
  by (simp add: note_successor_def candidate_frame_def)

lemma advance_candidates:
  "candidates_at (advance_frontier key start e l) k =
    (if k = key then map (note_successor start) (candidates_at l k) else candidates_at l k)"
  by (auto simp: advance_frontier_def candidates_at_def map_entry_at) (simp add: dict_get_def)

lemma retained_advance: "retained l (advance_frontier key start e l)"
  unfolding retained_def by (simp add: advance_candidates image_image) (simp add: advance_frontier_def)

lemma candidate_frame_reserved [simp]: "candidate_frame (c\<lparr>md_reserved_by := r\<rparr>) = candidate_frame c"
  by (simp add: candidate_frame_def)

lemma reserve_best_frames:
  "reserve_best key q events candidates = (matches, reserved) \<Longrightarrow> map candidate_frame reserved = map candidate_frame candidates"
  by (auto simp: reserve_best_def Let_def split: if_splits option.split prod.split)

text \<open>The keys of the candidates stay distinct.\<close>

definition keyed :: "manual_ledger \<Rightarrow> bool" where
  "keyed l \<longleftrightarrow> distinct (map fst (ml_candidates l))"

lemma keyed_remove: "keyed l \<Longrightarrow> keyed (remove_manual_key key l)"
  by (simp add: keyed_def remove_manual_key_def Let_def AList.distinct_delete)

lemma fold_keyed: "(\<And>x l. keyed l \<Longrightarrow> keyed (f x l)) \<Longrightarrow> keyed l \<Longrightarrow> keyed (fold f xs l)"
  by (induction xs arbitrary: l) auto

lemma keyed_purge: "keyed l \<Longrightarrow> keyed (purge_manual_flow flow l)"
  using fold_keyed [of remove_manual_key l] keyed_remove by (simp add: purge_manual_flow_def Let_def) (simp add: keyed_def)

lemma keyed_activate: "keyed l \<Longrightarrow> keyed (snd (activate_generation flow g l))"
  using keyed_purge [of l flow] by (auto simp: activate_generation_def Let_def keyed_def split: option.split)

lemma keyed_suppressed: "keyed (snd (manual_key_is_suppressed key l)) = keyed l"
  by (auto simp: manual_key_is_suppressed_def keyed_def split: option.split)

lemma keyed_suppress: "keyed (suppress_manual_key key ts l) = keyed l"
  by (simp add: suppress_manual_key_def Let_def keyed_def)

lemma keyed_prune: "keyed l \<Longrightarrow> keyed (prune_manual_candidates now l)"
proof -
  assume "keyed l"
  then have "keyed (fold (prune_key now) (ml_candidates l) l)"
    by (intro fold_keyed) (simp_all add: keyed_def prune_key_def Let_def AList.distinct_delete AList.distinct_update)
  then show ?thesis
    by (simp add: prune_manual_candidates_def Let_def) (simp add: keyed_def)
qed

lemma keyed_advance: "keyed l \<Longrightarrow> keyed (advance_frontier key start e l)"
  by (simp add: keyed_def advance_frontier_def AList.distinct_map_entry)

lemma keyed_admit: "keyed l \<Longrightarrow> keyed (admit_candidate key c l)"
proof -
  assume l: "keyed l"
  define l1 where "l1 = (if map_of (ml_candidates l) key = None then l\<lparr>ml_candidates := AList.update key [] (ml_candidates l)\<rparr> else l)"
  obtain s l2 where l2: "manual_key_is_suppressed key l1 = (s, l2)"
    by (meson surj_pair)
  have l1: "keyed l1"
    using l by (simp add: l1_def keyed_def AList.distinct_update)
  then have "keyed l2"
    using keyed_suppressed [of key l1] l2 by simp
  then show ?thesis
    using l1 l2 by (simp add: admit_candidate_def Let_def l1_def [symmetric] keyed_suppress)
      (simp add: keyed_def AList.distinct_update)
qed

definition candidate_from :: "bdo_frame list \<Rightarrow> decrement_spec list \<Rightarrow> manual_flow_key \<Rightarrow> manual_candidate \<Rightarrow> bool" where
  "candidate_from frames specs key c \<longleftrightarrow>
     (\<exists>frame \<in> set frames.
        key = (ctx_flow (fr_context frame), ctx_flow_generation (fr_context frame)) \<and>
        fr_stream_sequence frame = Some (md_stream_start c) \<and> md_message c = fr_message frame \<and>
        md_stream_end c = md_stream_start c + int (length (fr_message frame)) \<and>
        md_timestamp c = ctx_timestamp (fr_context frame) \<and> md_opcode c = frame_opcode frame \<and> md_specs c \<noteq> [] \<and>
        (\<forall>spec \<in> set (md_specs c). spec \<in> set specs \<and> ds_opcode spec = frame_opcode frame \<and>
           spec_accepts_message (fr_message frame) spec))"

definition ledger_from :: "bdo_frame list \<Rightarrow> decrement_spec list \<Rightarrow> manual_ledger \<Rightarrow> bool" where
  "ledger_from frames specs l \<longleftrightarrow> keyed l \<and>
     (\<forall>key c. c \<in> set (candidates_at l key) \<longrightarrow> candidate_from frames specs key c) \<and>
     (\<forall>k spec. spec \<in> set (dict_get (ml_specs l) k []) \<longrightarrow> spec \<in> set specs \<and> ds_opcode spec = k)"

lemma candidate_from_frame: "candidate_frame c = candidate_frame c' \<Longrightarrow> candidate_from frames specs key c = candidate_from frames specs key c'"
  by (cases c; cases c') (simp add: candidate_frame_def candidate_from_def)

lemma candidate_from_mono: "candidate_from frames specs key c \<Longrightarrow> set frames \<subseteq> set frames' \<Longrightarrow> candidate_from frames' specs key c"
  unfolding candidate_from_def by blast

lemma ledger_from_mono: "ledger_from frames specs l \<Longrightarrow> set frames \<subseteq> set frames' \<Longrightarrow> ledger_from frames' specs l"
  unfolding ledger_from_def using candidate_from_mono by blast

lemma ledger_keyed: "ledger_from frames specs l \<Longrightarrow> keyed l"
  by (simp add: ledger_from_def)

lemma retainedD: "retained l l' \<Longrightarrow> candidate_frame ` set (candidates_at l' key) \<subseteq> candidate_frame ` set (candidates_at l key)"
  unfolding retained_def by (elim conjE allE)

lemma ledger_from_retained: "ledger_from frames specs l \<Longrightarrow> retained l l' \<Longrightarrow> keyed l' \<Longrightarrow> ledger_from frames specs l'"
proof -
  assume l: "ledger_from frames specs l" and kept: "retained l l'" and l': "keyed l'"
  have "candidate_from frames specs key c" if c: "c \<in> set (candidates_at l' key)" for key c
  proof -
    have "candidate_frame c \<in> candidate_frame ` set (candidates_at l key)"
      using retainedD [OF kept] imageI [OF c] by (rule subsetD)
    then obtain c' where "c' \<in> set (candidates_at l key)" "candidate_frame c = candidate_frame c'"
      by blast
    then show ?thesis
      using l candidate_from_frame unfolding ledger_from_def by blast
  qed
  then show ?thesis
    using l kept l' by (simp add: ledger_from_def retained_def)
qed

lemma add_spec_get:
  "spec \<in> set (dict_get (add_decrement_spec s d) k []) \<Longrightarrow> spec \<in> set (dict_get d k []) \<or> (spec = s \<and> ds_opcode s = k)"
  by (auto simp: add_decrement_spec_def dict_get_def Let_def AList.update_conv' split: if_splits)

lemma new_ledger_from: "ledger_from [] specs (new_manual_ledger specs)"
proof -
  have "spec \<in> set (dict_get (fold add_decrement_spec ss d) k []) \<Longrightarrow>
      spec \<in> set (dict_get d k []) \<or> (spec \<in> set ss \<and> ds_opcode spec = k)" for ss d spec k
    by (induction ss arbitrary: d) (auto dest: add_spec_get)
  from this [of _ specs "[]"] show ?thesis
    by (auto simp: ledger_from_def new_manual_ledger_def keyed_def candidates_at_def dict_get_def)
qed

lemma keyed_latest: "keyed (l\<lparr>ml_latest := d\<rparr>) = keyed l" "keyed (l\<lparr>ml_active := a\<rparr>) = keyed l"
  by (simp_all add: keyed_def)

lemma ledger_from_latest: "ledger_from frames specs (l\<lparr>ml_latest := d\<rparr>) = ledger_from frames specs l"
  by (simp add: ledger_from_def keyed_latest retained_fields)

lemma ledger_from_activate: "ledger_from frames specs l \<Longrightarrow> ledger_from frames specs (snd (activate_generation flow g l))"
  by (blast intro: ledger_from_retained retained_activate keyed_activate ledger_keyed)

lemma ledger_from_prune: "ledger_from frames specs l \<Longrightarrow> ledger_from frames specs (prune_manual_candidates now l)"
  using ledger_keyed [of frames specs l] by (blast intro: ledger_from_retained retained_prune keyed_prune dest: keyed_def [THEN iffD1])

lemma ledger_from_purge: "ledger_from frames specs l \<Longrightarrow> ledger_from frames specs (purge_manual_flow flow l)"
  by (blast intro: ledger_from_retained retained_purge keyed_purge ledger_keyed)

lemma ledger_from_clear: "ledger_from frames specs l \<Longrightarrow> ledger_from frames specs (clear_ledger l)"
  by (simp add: ledger_from_def clear_ledger_def new_manual_ledger_def keyed_def candidates_at_def dict_get_def)

lemma ledger_from_suppressed: "ledger_from frames specs l \<Longrightarrow> ledger_from frames specs (snd (manual_key_is_suppressed key l))"
  by (rule ledger_from_retained [OF _ retained_suppressed]) (simp_all add: keyed_suppressed ledger_keyed)

lemma ledger_from_reset: "ledger_from frames specs l \<Longrightarrow> ledger_from frames specs (manual_reset flow g q l)"
proof -
  assume l: "ledger_from frames specs l"
  then have "keyed l"
    by (simp add: ledger_from_def)
  have "retained l (manual_reset flow g q l)"
    by (simp add: manual_reset_def Let_def retained_refl retained_trans [OF retained_remove retained_same])
  moreover have "keyed (manual_reset flow g q l)"
    using keyed_remove [OF \<open>keyed l\<close>, of "(flow, g)"] \<open>keyed l\<close> by (simp add: manual_reset_def Let_def keyed_def)
  ultimately show ?thesis
    using l ledger_from_retained by blast
qed

lemma ledger_from_admit:
  assumes l: "ledger_from frames specs l" and c: "candidate_from frames specs key c"
  shows "ledger_from frames specs (admit_candidate key c l)"
proof -
  define l1 where "l1 = (if map_of (ml_candidates l) key = None then l\<lparr>ml_candidates := AList.update key [] (ml_candidates l)\<rparr> else l)"
  have "keyed l"
    using l by (simp add: ledger_from_def)
  have "retained l l1"
    by (simp add: l1_def retained_refl retained_update)
  moreover have "keyed l1"
    using \<open>keyed l\<close> by (simp add: l1_def keyed_def AList.distinct_update)
  ultimately have l1: "ledger_from frames specs l1"
    using l ledger_from_retained by blast
  obtain s l2 where l2: "manual_key_is_suppressed key l1 = (s, l2)"
    by (meson surj_pair)
  have l2_from: "ledger_from frames specs l2"
    using ledger_from_suppressed [OF l1, of key] l2 by simp
  have suppress: "ledger_from frames specs (suppress_manual_key key ts l2)" for ts
    by (rule ledger_from_retained [OF l2_from retained_suppress]) (use l2_from in \<open>simp add: keyed_suppress ledger_from_def\<close>)
  have same: "dict_get (ml_candidates l) key [] = candidates_at l2 key"
  proof -
    have "ml_candidates l2 = ml_candidates l1"
      using l2 by (auto simp: manual_key_is_suppressed_def split: option.splits if_splits)
    then show ?thesis
      by (simp add: candidates_at_def l1_def dict_get_def AList.update_conv')
  qed
  have "ledger_from frames specs (l2\<lparr>ml_candidates := AList.update key (candidates_at l2 key @ [c]) (ml_candidates l2),
      ml_count := n, ml_bytes := b, ml_bytes_by_flow := d\<rparr>)" for n b d
    using l2_from c
    by (simp add: ledger_from_def retained_fields candidates_at_simps) (auto simp: keyed_def AList.distinct_update)
  then show ?thesis
    using l1 l2 suppress by (simp add: admit_candidate_def Let_def l1_def [symmetric] same)
qed

lemma ledger_from_observe:
  assumes l: "ledger_from frames specs l"
  shows "ledger_from (frames @ [frame]) specs (observe_manual_frame frame l)"
proof -
  define flow where "flow = ctx_flow (fr_context frame)"
  define g where "g = ctx_flow_generation (fr_context frame)"
  obtain active l1 where l1: "activate_generation flow g l = (active, l1)"
    by (meson surj_pair)
  let ?frames = "frames @ [frame]"
  have from1: "ledger_from ?frames specs l1"
    using ledger_from_mono [OF ledger_from_activate [OF l, of flow g], of ?frames] l1 by auto
  define l2 where "l2 = l1\<lparr>ml_latest := AList.update (flow, g) (py_max (ctx_timestamp (fr_context frame))
      (dict_get (ml_latest l1) (flow, g) (ctx_timestamp (fr_context frame)))) (ml_latest l1)\<rparr>"
  have from2: "ledger_from ?frames specs l2"
    using from1 by (simp add: l2_def ledger_from_latest)
  show ?thesis
  proof (cases "fr_stream_sequence frame")
    case None
    then show ?thesis
      using from1 from2 by (simp add: observe_manual_frame_def Let_def flow_def [symmetric] g_def [symmetric] l1 l2_def [symmetric])
  next
    case (Some start)
    define e where "e = start + int (length (fr_message frame))"
    define l3 where "l3 = advance_frontier (flow, g) start e l2"
    define found where "found = filter (spec_accepts_message (fr_message frame)) (dict_get (ml_specs l3) (frame_opcode frame) [])"
    have from3: "ledger_from ?frames specs l3"
      unfolding l3_def by (rule ledger_from_retained [OF from2 retained_advance])
        (use from2 in \<open>simp add: ledger_from_def keyed_advance\<close>)
    let ?c = "\<lparr>md_stream_start = start, md_stream_end = e, md_timestamp = ctx_timestamp (fr_context frame),
        md_opcode = frame_opcode frame, md_message = fr_message frame, md_specs = found, md_successor_starts = [], md_reserved_by = None\<rparr>"
    have "candidate_from ?frames specs (flow, g) ?c" if "found \<noteq> []"
      using from3 that Some by (auto simp: candidate_from_def flow_def g_def e_def found_def ledger_from_def)
    then have "ledger_from ?frames specs (admit_candidate (flow, g) ?c (prune_manual_candidates (ctx_timestamp (fr_context frame)) l3))"
      if "found \<noteq> []"
      using that by (intro ledger_from_admit ledger_from_prune from3)
    then show ?thesis
      using from1 from2 from3 Some
      by (simp add: observe_manual_frame_def Let_def flow_def [symmetric] g_def [symmetric] l1 l2_def [symmetric] e_def [symmetric]
          l3_def [symmetric] found_def [symmetric])
  qed
qed

section \<open>What a reserved decrement proves\<close>

definition decrement_proof ::
    "bdo_frame list \<Rightarrow> decrement_spec list \<Rightarrow> flow_key \<Rightarrow> int \<Rightarrow> int \<Rightarrow> bdo_event list \<Rightarrow> manual_match \<Rightarrow> bool" where
  "decrement_proof frames specs flow g q events m \<longleftrightarrow>
     (\<exists>frame \<in> set frames. \<exists>start e.
        ctx_flow (fr_context frame) = flow \<and> ctx_flow_generation (fr_context frame) = g \<and>
        fr_stream_sequence frame = Some start \<and> start + int (length (fr_message frame)) \<le> q \<and>
        \<not> STALE_SECONDS < ev_timestamp (hd events) - ctx_timestamp (fr_context frame) \<and>
        (\<exists>spec \<in> set specs. ds_opcode spec = frame_opcode frame \<and> spec_accepts_message (fr_message frame) spec) \<and>
        e \<in> set events \<and> mm_quantity_offset m + 4 \<le> int (length (fr_message frame)) \<and>
        py_slice (fr_message frame) (mm_quantity_offset m) (mm_quantity_offset m + 4) = to_le 4 (ev_quantity e))"

lemma reserve_proven:
  assumes l: "ledger_from frames specs l" and step: "reserve_matching_decrement flow g (Some q) events l = (ms, l')"
    and m: "(i, m) \<in> set ms"
  shows "decrement_proof frames specs flow g q events m"
proof -
  obtain event rest where events: "events = event # rest"
    using step m by (cases events) (auto simp: reserve_matching_decrement_def)
  obtain active l1 where l1: "activate_generation flow g l = (active, l1)"
    by (meson surj_pair)
  define l2 where "l2 = l1\<lparr>ml_latest := AList.update (flow, g) (py_max (ev_timestamp event)
      (dict_get (ml_latest l1) (flow, g) (ev_timestamp event))) (ml_latest l1)\<rparr>"
  define l3 where "l3 = prune_manual_candidates (ev_timestamp event) l2"
  obtain s l4 where l4: "manual_key_is_suppressed (flow, g) l3 = (s, l4)"
    by (meson surj_pair)
  have "ledger_from frames specs l1"
    using ledger_from_activate [OF l, of flow g] l1 by simp
  then have "ledger_from frames specs l3"
    unfolding l3_def l2_def by (intro ledger_from_prune) (simp add: ledger_from_latest)
  then have from4: "ledger_from frames specs l4"
    using ledger_from_suppressed [of frames specs l3 "(flow, g)"] l4 by simp
  obtain candidates where candidates: "map_of (ml_candidates l4) (flow, g) = Some candidates"
      "fst (reserve_best (flow, g, Some q, ev_opcode event, ev_message_length event, ev_timestamp event) q events candidates) = ms"
    using step m
    by (auto simp: reserve_matching_decrement_def events l1 Let_def l2_def [symmetric] l3_def [symmetric] l4
        split: if_splits option.splits prod.splits)
  then obtain c score where c: "c \<in> set candidates" "evaluate_candidate q events c = Some (score, ms)"
    using reserve_best_match [of _ q events candidates ms] m by (metis empty_iff empty_set prod.collapse)
  note evaluated = evaluate_Some [OF c(2)]
  obtain e where e: "e \<in> set events" "match_proof c e m"
    using group_match_proof [OF evaluated(4) m] by blast
  have "candidate_from frames specs (flow, g) c"
    using from4 c(1) candidates(1) by (auto simp: ledger_from_def candidates_at_def dict_get_def)
  then obtain frame where frame: "frame \<in> set frames" "ctx_flow (fr_context frame) = flow" "ctx_flow_generation (fr_context frame) = g"
      "fr_stream_sequence frame = Some (md_stream_start c)" "md_message c = fr_message frame"
      "md_stream_end c = md_stream_start c + int (length (fr_message frame))" "md_timestamp c = ctx_timestamp (fr_context frame)"
      "md_specs c \<noteq> []" "\<forall>spec \<in> set (md_specs c). spec \<in> set specs \<and> ds_opcode spec = frame_opcode frame \<and>
           spec_accepts_message (fr_message frame) spec"
    by (auto simp: candidate_from_def)
  obtain spec where "spec \<in> set (md_specs c)"
    using frame(8) by (metis list.set_sel(1))
  then show ?thesis
    unfolding decrement_proof_def
    using frame e evaluated(2,3)
    by (intro bexI [OF _ frame(1)] exI [of _ "md_stream_start c"] exI [of _ e])
      (auto simp: match_proof_def md_message_length_def is_stale_def)
qed

lemma ledger_from_reserve:
  assumes l: "ledger_from frames specs l"
  shows "ledger_from frames specs (snd (reserve_matching_decrement flow g q events l))"
proof (cases "\<exists>q' event rest. q = Some q' \<and> events = event # rest")
  case False
  then show ?thesis
    using l by (auto simp: reserve_matching_decrement_def split: option.split list.split)
next
  case True
  then obtain q' event rest where q: "q = Some q'" and events: "events = event # rest"
    by blast
  obtain active l1 where l1: "activate_generation flow g l = (active, l1)"
    by (meson surj_pair)
  define l2 where "l2 = l1\<lparr>ml_latest := AList.update (flow, g) (py_max (ev_timestamp event)
      (dict_get (ml_latest l1) (flow, g) (ev_timestamp event))) (ml_latest l1)\<rparr>"
  define l3 where "l3 = prune_manual_candidates (ev_timestamp event) l2"
  obtain s l4 where l4: "manual_key_is_suppressed (flow, g) l3 = (s, l4)"
    by (meson surj_pair)
  have from1: "ledger_from frames specs l1"
    using ledger_from_activate [OF l, of flow g] l1 by simp
  then have "ledger_from frames specs l3"
    unfolding l3_def l2_def by (intro ledger_from_prune) (simp add: ledger_from_latest)
  then have from4: "ledger_from frames specs l4"
    using ledger_from_suppressed [of frames specs l3 "(flow, g)"] l4 by simp
  have "ledger_from frames specs (l4\<lparr>ml_candidates := AList.update (flow, g) reserved (ml_candidates l4)\<rparr>)"
    if "map_of (ml_candidates l4) (flow, g) = Some candidates" and "reserve_best key q' events candidates = (ms, reserved)"
    for candidates key ms reserved
  proof (rule ledger_from_retained [OF from4 retained_update])
    have "candidate_frame ` set reserved = candidate_frame ` set candidates"
      using reserve_best_frames [OF that(2)] by (metis list.set_map)
    then show "candidate_frame ` set reserved \<subseteq> candidate_frame ` set (candidates_at l4 (flow, g))"
      using that(1) by (simp add: candidates_at_def dict_get_def)
    show "keyed (l4\<lparr>ml_candidates := AList.update (flow, g) reserved (ml_candidates l4)\<rparr>)"
      using from4 by (simp add: ledger_from_def keyed_def AList.distinct_update)
  qed
  then show ?thesis
    using from1 from4 by (auto simp: reserve_matching_decrement_def q events l1 Let_def l2_def [symmetric] l3_def [symmetric] l4
        split: option.split prod.split)
qed

end
