(* ===== verification/Manual_Bounds.thy ===== *)
theory Manual_Bounds
  imports Manual_Facts
begin

text \<open>
  The counters of the decrement ledger are exact and its limits hold, through every operation.
\<close>

section \<open>Sums over the candidates\<close>

definition weight :: "(manual_candidate list \<Rightarrow> int) \<Rightarrow> (manual_flow_key, manual_candidate list) dict \<Rightarrow> int" where
  "weight w d = sum_list (map (\<lambda>(_, cs). w cs) d)"

lemma weight_simps [simp]: "weight w [] = 0" "weight w ((k, cs) # d) = w cs + weight w d"
  by (simp_all add: weight_def)

lemma dict_get_Cons: "dict_get ((k, v) # d) k' v0 = (if k' = k then v else dict_get d k' v0)"
  by (simp add: dict_get_def)

lemma dict_get_absent: "k \<notin> fst ` set d \<Longrightarrow> dict_get d k v0 = v0"
  by (metis dict_get_def map_of_eq_None_iff option.case(1))

lemma weight_update:
  "distinct (map fst d) \<Longrightarrow> w [] = 0 \<Longrightarrow> weight w (AList.update k cs d) = weight w d - w (dict_get d k []) + w cs"
proof (induction d)
  case (Cons entry d)
  obtain k' cs' where entry: "entry = (k', cs')"
    by (cases entry)
  show ?case
    using Cons by (auto simp: entry dict_get_Cons)
qed (simp add: dict_get_def)

lemma weight_delete:
  "distinct (map fst d) \<Longrightarrow> w [] = 0 \<Longrightarrow> weight w (AList.delete k d) = weight w d - w (dict_get d k [])"
proof (induction d)
  case (Cons entry d)
  obtain k' cs' where entry: "entry = (k', cs')"
    by (cases entry)
  show ?case
    using Cons by (auto simp: entry dict_get_Cons dict_get_absent AList.delete_notin_dom)
qed (simp add: dict_get_def)

lemma weight_map_entry:
  "(\<And>cs. w (f cs) = w cs) \<Longrightarrow> weight w (AList.map_entry k f d) = weight w d"
  by (induction d) auto

abbreviation counted :: "(manual_flow_key, manual_candidate list) dict \<Rightarrow> int" where
  "counted \<equiv> weight (\<lambda>cs. int (length cs))"

abbreviation sized :: "(manual_flow_key, manual_candidate list) dict \<Rightarrow> int" where
  "sized \<equiv> weight candidates_bytes"

lemma candidates_bytes_simps [simp]:
  "candidates_bytes [] = 0" "candidates_bytes (c # cs) = md_message_length c + candidates_bytes cs"
  "candidates_bytes (cs @ cs') = candidates_bytes cs + candidates_bytes cs'"
  by (simp_all add: candidates_bytes_def)

lemma message_length_nonneg: "0 \<le> md_message_length c"
  by (simp add: md_message_length_def)

lemma candidates_bytes_nonneg: "0 \<le> candidates_bytes cs"
  by (induction cs) (simp_all add: message_length_nonneg)

lemma candidates_bytes_filter: "candidates_bytes (filter (\<lambda>c. \<not> P c) cs) = candidates_bytes cs - candidates_bytes (filter P cs)"
  by (induction cs) simp_all

lemma length_filter_not: "int (length (filter (\<lambda>c. \<not> P c) cs)) = int (length cs) - int (length (filter P cs))"
  by (induction cs) simp_all

lemma frame_bytes: "map candidate_frame cs = map candidate_frame cs' \<Longrightarrow> candidates_bytes cs = candidates_bytes cs'"
proof (induction cs arbitrary: cs')
  case (Cons c cs)
  then obtain d ds where cs': "cs' = d # ds" "candidate_frame c = candidate_frame d" "map candidate_frame cs = map candidate_frame ds"
    by (cases cs') auto
  have "md_message_length c = md_message_length d"
    using cs'(2) by (cases c; cases d) (simp add: candidate_frame_def md_message_length_def)
  then show ?case
    using Cons.IH [OF cs'(3)] cs'(1) by simp
qed simp

section \<open>The invariant\<close>

definition exact :: "manual_ledger \<Rightarrow> bool" where
  "exact l \<longleftrightarrow> keyed l \<and> ml_count l = counted (ml_candidates l) \<and> ml_bytes l = sized (ml_candidates l) \<and>
     (\<forall>key. dict_get (ml_bytes_by_flow l) key 0 = candidates_bytes (candidates_at l key)) \<and>
     distinct (map fst (ml_bytes_by_flow l))"

definition limited :: "manual_ledger \<Rightarrow> bool" where
  "limited l \<longleftrightarrow> ml_count l \<le> MAX_MANUAL_CANDIDATES_TOTAL \<and> ml_bytes l \<le> MAX_MANUAL_CANDIDATE_BYTES_TOTAL \<and>
     (\<forall>key. int (length (candidates_at l key)) \<le> MAX_MANUAL_CANDIDATES_PER_FLOW \<and>
        candidates_bytes (candidates_at l key) \<le> MAX_MANUAL_CANDIDATE_BYTES_PER_FLOW)"

definition bounded_ledger :: "manual_ledger \<Rightarrow> bool" where
  "bounded_ledger l \<longleftrightarrow> exact l \<and> limited l"

lemma bounded_fields:
  "bounded_ledger (l\<lparr>ml_active := a\<rparr>) = bounded_ledger l" "bounded_ledger (l\<lparr>ml_latest := d\<rparr>) = bounded_ledger l"
  "bounded_ledger (l\<lparr>ml_suppressed := d\<rparr>) = bounded_ledger l" "bounded_ledger (l\<lparr>ml_frontiers := f\<rparr>) = bounded_ledger l"
  "bounded_ledger (l\<lparr>ml_floors := f\<rparr>) = bounded_ledger l"
  by (simp_all add: bounded_ledger_def exact_def limited_def keyed_def retained_fields)

text \<open>The effect of replacing the candidates of one key, with the counters the code writes.\<close>

definition replaced :: "manual_flow_key \<Rightarrow> manual_candidate list \<Rightarrow> manual_ledger \<Rightarrow> manual_ledger \<Rightarrow> bool" where
  "replaced key cs l l' \<longleftrightarrow>
     (ml_candidates l' = AList.update key cs (ml_candidates l) \<or> cs = [] \<and> ml_candidates l' = AList.delete key (ml_candidates l)) \<and>
     ml_count l' = ml_count l - int (length (candidates_at l key)) + int (length cs) \<and>
     ml_bytes l' = ml_bytes l - candidates_bytes (candidates_at l key) + candidates_bytes cs \<and>
     (\<forall>k. dict_get (ml_bytes_by_flow l') k 0 = (if k = key then candidates_bytes cs else dict_get (ml_bytes_by_flow l) k 0)) \<and>
     distinct (map fst (ml_bytes_by_flow l'))"

lemma replaced_exact:
  assumes l: "exact l" and step: "replaced key cs l l'"
  shows "exact l'" and "candidates_at l' k = (if k = key then cs else candidates_at l k)"
proof -
  have keys: "distinct (map fst (ml_candidates l))"
    using l by (simp add: exact_def keyed_def)
  have at: "candidates_at l' k = (if k = key then cs else candidates_at l k)" for k
    using step by (auto simp: replaced_def candidates_at_def dict_get_def AList.update_conv' AList.delete_conv')
  then show "candidates_at l' k = (if k = key then cs else candidates_at l k)" .
  have sums: "counted (ml_candidates l') = counted (ml_candidates l) - int (length (candidates_at l key)) + int (length cs)"
    "sized (ml_candidates l') = sized (ml_candidates l) - candidates_bytes (candidates_at l key) + candidates_bytes cs"
    "keyed l'"
    using step keys
    by (auto simp: replaced_def candidates_at_def weight_update weight_delete keyed_def AList.distinct_update AList.distinct_delete)
  show "exact l'"
    using l step sums at by (simp add: exact_def replaced_def)
qed

lemma replaced_limited:
  assumes l: "exact l" "limited l" and step: "replaced key cs l l'"
    and less: "int (length cs) \<le> int (length (candidates_at l key))" "candidates_bytes cs \<le> candidates_bytes (candidates_at l key)"
  shows "limited l'"
proof -
  have "ml_count l' \<le> ml_count l" "ml_bytes l' \<le> ml_bytes l"
    using step less by (simp_all add: replaced_def)
  then show ?thesis
    using l(2) less replaced_exact(2) [OF l(1) step] unfolding limited_def by (metis dual_order.trans)
qed

lemma replaced_bounded:
  "bounded_ledger l \<Longrightarrow> replaced key cs l l' \<Longrightarrow> int (length cs) \<le> int (length (candidates_at l key)) \<Longrightarrow>
    candidates_bytes cs \<le> candidates_bytes (candidates_at l key) \<Longrightarrow> bounded_ledger l'"
  using replaced_exact(1) replaced_limited unfolding bounded_ledger_def by blast

section \<open>Operations\<close>

lemma get_delete: "dict_get (AList.delete key d) k v0 = (if k = key then v0 else dict_get d k v0)"
  by (simp add: dict_get_def AList.delete_conv')

lemma get_update: "dict_get (AList.update key v d) k v0 = (if k = key then v else dict_get d k v0)"
  by (simp add: dict_get_def AList.update_conv')

lemma bounded_flow: "bounded_ledger l \<Longrightarrow> dict_get (ml_bytes_by_flow l) key 0 = candidates_bytes (candidates_at l key)"
  unfolding bounded_ledger_def exact_def by blast

lemma bounded_limits:
  "bounded_ledger l \<Longrightarrow> int (length (candidates_at l key)) \<le> MAX_MANUAL_CANDIDATES_PER_FLOW \<and>
    candidates_bytes (candidates_at l key) \<le> MAX_MANUAL_CANDIDATE_BYTES_PER_FLOW"
  unfolding bounded_ledger_def limited_def by blast

lemma bounded_flows: "bounded_ledger l \<Longrightarrow> distinct (map fst (ml_bytes_by_flow l))"
  by (simp add: bounded_ledger_def exact_def)

lemma bounded_keys: "bounded_ledger l \<Longrightarrow> distinct (map fst (ml_candidates l))"
  by (simp add: bounded_ledger_def exact_def keyed_def)

lemma bounded_remove: "bounded_ledger l \<Longrightarrow> bounded_ledger (remove_manual_key key l)"
proof -
  assume l: "bounded_ledger l"
  define l' where "l' = l\<lparr>ml_candidates := AList.delete key (ml_candidates l), ml_count := ml_count l - int (length (candidates_at l key)),
      ml_bytes := ml_bytes l - candidates_bytes (candidates_at l key), ml_bytes_by_flow := AList.delete key (ml_bytes_by_flow l)\<rparr>"
  have "distinct (map fst (ml_bytes_by_flow l))"
    using l by (simp add: bounded_ledger_def exact_def)
  then have "replaced key [] l l'"
    by (simp add: replaced_def l'_def get_delete AList.distinct_delete)
  then have "bounded_ledger l'"
    by (rule replaced_bounded [OF l]) (simp_all add: candidates_bytes_nonneg)
  then have "bounded_ledger (l'\<lparr>ml_frontiers := f, ml_floors := g, ml_latest := t, ml_suppressed := s\<rparr>)" for f g t s
    by (simp add: bounded_fields)
  then show ?thesis
    by (simp add: remove_manual_key_def Let_def l'_def candidates_at_def)
qed

lemma bounded_fold: "bounded_ledger l \<Longrightarrow> (\<And>x l. bounded_ledger l \<Longrightarrow> bounded_ledger (f x l)) \<Longrightarrow> bounded_ledger (fold f xs l)"
  by (induction xs arbitrary: l) auto

lemma bounded_purge: "bounded_ledger l \<Longrightarrow> bounded_ledger (purge_manual_flow flow l)"
  by (simp add: purge_manual_flow_def Let_def bounded_fields bounded_fold bounded_remove)

lemma bounded_activate: "bounded_ledger l \<Longrightarrow> bounded_ledger (snd (activate_generation flow g l))"
  by (auto simp: activate_generation_def Let_def bounded_fields bounded_purge split: option.split)

lemma bounded_suppressed: "bounded_ledger l \<Longrightarrow> bounded_ledger (snd (manual_key_is_suppressed key l))"
  by (auto simp: manual_key_is_suppressed_def bounded_fields split: option.split)

lemma bounded_suppress: "bounded_ledger (suppress_manual_key key ts l) = bounded_ledger l"
  by (simp add: suppress_manual_key_def Let_def bounded_fields)

lemma bounded_prune_key:
  assumes l: "bounded_ledger l" and entry: "candidates_at l key = cs"
  shows "bounded_ledger (prune_key now (key, cs) l)"
proof -
  let ?kept = "filter (\<lambda>c. \<not> is_stale now c) cs" and ?gone = "filter (is_stale now) cs"
  have flows: "dict_get (ml_bytes_by_flow l) key 0 = candidates_bytes cs" "distinct (map fst (ml_bytes_by_flow l))"
    using bounded_flow [OF l, of key] entry bounded_flows [OF l] by simp_all
  have "replaced key ?kept l (prune_key now (key, cs) l)"
  proof (cases "?gone = []")
    case True
    then have "?kept = cs"
      by (auto simp: filter_empty_conv intro!: filter_True)
    then show ?thesis
      using True flows entry by (auto simp: prune_key_def Let_def replaced_def)
  next
    case False
    have "candidates_bytes cs - candidates_bytes ?gone = candidates_bytes ?kept"
      by (simp add: candidates_bytes_filter)
    moreover have "int (length cs) - int (length ?gone) = int (length ?kept)"
      by (simp add: length_filter_not)
    ultimately show ?thesis
      using False flows entry
      by (auto simp: prune_key_def Let_def replaced_def get_update get_delete AList.distinct_update AList.distinct_delete)
  qed
  then show ?thesis
    by (rule replaced_bounded [OF l]) (simp_all add: entry candidates_bytes_filter candidates_bytes_nonneg)
qed

lemma bounded_prune:
  assumes l: "bounded_ledger l"
  shows "bounded_ledger (prune_manual_candidates now l)"
proof -
  have loop: "bounded_ledger (fold (prune_key now) d u)"
    if "bounded_ledger u" and "distinct (map fst d)" and "\<forall>entry \<in> set d. candidates_at u (fst entry) = snd entry" for d u
    using that
  proof (induction d arbitrary: u)
    case (Cons entry d)
    have "bounded_ledger (prune_key now entry u)"
      using bounded_prune_key [OF Cons.prems(1), of "fst entry" "snd entry"] Cons.prems(3) by simp
    moreover have "candidates_at (prune_key now entry u) (fst other) = snd other" if "other \<in> set d" for other
    proof -
      have "fst other \<noteq> fst entry"
        using Cons.prems(2) that by (metis distinct.simps(2) image_eqI list.set_map list.simps(9))
      then show ?thesis
        using prune_key_candidates [of now "fst entry" "snd entry" u] Cons.prems(3) that by simp
    qed
    ultimately show ?case
      using Cons by simp
  qed simp
  have "bounded_ledger (fold (prune_key now) (ml_candidates l) l)"
  proof (rule loop [OF l])
    show keys: "distinct (map fst (ml_candidates l))"
      using l by (simp add: bounded_ledger_def exact_def keyed_def)
    show "\<forall>entry \<in> set (ml_candidates l). candidates_at l (fst entry) = snd entry"
      using keys by (auto simp: candidates_at_def dict_get_def)
  qed
  then show ?thesis
    by (simp add: prune_manual_candidates_def Let_def bounded_fields)
qed

lemma same_frames_bounded:
  assumes l: "bounded_ledger l" and candidates: "ml_candidates l' = AList.update key cs (ml_candidates l)"
    and frames: "map candidate_frame cs = map candidate_frame (candidates_at l key)"
    and fields: "ml_count l' = ml_count l" "ml_bytes l' = ml_bytes l" "ml_bytes_by_flow l' = ml_bytes_by_flow l"
  shows "bounded_ledger l'"
proof (rule replaced_bounded [OF l])
  have same: "length cs = length (candidates_at l key)" "candidates_bytes cs = candidates_bytes (candidates_at l key)"
    using frames frame_bytes [OF frames] by (metis length_map, simp)
  then show "replaced key cs l l'"
    using l candidates fields by (auto simp: replaced_def bounded_ledger_def exact_def)
  show "int (length cs) \<le> int (length (candidates_at l key))" "candidates_bytes cs \<le> candidates_bytes (candidates_at l key)"
    using same by simp_all
qed

lemma note_bytes: "candidates_bytes (map (note_successor start) cs) = candidates_bytes cs"
  by (rule frame_bytes) simp

lemma bounded_advance: "bounded_ledger l \<Longrightarrow> bounded_ledger (advance_frontier key start e l)"
proof -
  assume l: "bounded_ledger l"
  let ?l = "advance_frontier key start e l"
  have "ml_count ?l = counted (ml_candidates ?l)" "ml_bytes ?l = sized (ml_candidates ?l)"
    using l by (simp_all add: advance_frontier_def weight_map_entry note_bytes bounded_ledger_def exact_def)
  moreover have "keyed ?l"
    using l by (simp add: keyed_advance bounded_ledger_def exact_def)
  moreover have "dict_get (ml_bytes_by_flow ?l) k 0 = candidates_bytes (candidates_at ?l k)" for k
    using bounded_flow [OF l, of k] by (auto simp: advance_candidates note_bytes) (simp_all add: advance_frontier_def)
  moreover have "int (length (candidates_at ?l k)) \<le> MAX_MANUAL_CANDIDATES_PER_FLOW \<and>
      candidates_bytes (candidates_at ?l k) \<le> MAX_MANUAL_CANDIDATE_BYTES_PER_FLOW" for k
    using bounded_limits [OF l, of k] bounded_limits [OF l, of key] by (simp add: advance_candidates note_bytes)
  moreover have "ml_count ?l = ml_count l" "ml_bytes ?l = ml_bytes l" "ml_bytes_by_flow ?l = ml_bytes_by_flow l"
    by (simp_all add: advance_frontier_def)
  ultimately show ?thesis
    using l unfolding bounded_ledger_def exact_def limited_def by simp
qed

lemma bounded_admit: "bounded_ledger l \<Longrightarrow> bounded_ledger (admit_candidate key c l)"
proof -
  assume l: "bounded_ledger l"
  define l1 where "l1 = (if map_of (ml_candidates l) key = None then l\<lparr>ml_candidates := AList.update key [] (ml_candidates l)\<rparr> else l)"
  have "bounded_ledger (l\<lparr>ml_candidates := AList.update key [] (ml_candidates l)\<rparr>)" if "map_of (ml_candidates l) key = None"
    by (rule same_frames_bounded [OF l, where key = key and cs = "[]"]) (use that in \<open>simp_all add: candidates_at_def dict_get_def\<close>)
  then have l1: "bounded_ledger l1"
    using l by (simp add: l1_def)
  obtain s l2 where l2: "manual_key_is_suppressed key l1 = (s, l2)"
    by (meson surj_pair)
  have b2: "bounded_ledger l2"
    using bounded_suppressed [OF l1, of key] l2 by simp
  have "ml_candidates l2 = ml_candidates l1"
    using l2 by (auto simp: manual_key_is_suppressed_def split: option.splits if_splits)
  then have same: "dict_get (ml_candidates l) key [] = candidates_at l2 key"
    by (simp add: candidates_at_def l1_def dict_get_def AList.update_conv')
  let ?l = "l2\<lparr>ml_candidates := AList.update key (candidates_at l2 key @ [c]) (ml_candidates l2), ml_count := ml_count l2 + 1,
      ml_bytes := ml_bytes l2 + md_message_length c,
      ml_bytes_by_flow := AList.update key (dict_get (ml_bytes_by_flow l2) key 0 + md_message_length c) (ml_bytes_by_flow l2)\<rparr>"
  have admitted: "bounded_ledger ?l"
    if room: "\<not> (int (length (candidates_at l2 key)) \<ge> MAX_MANUAL_CANDIDATES_PER_FLOW \<or> ml_count l2 \<ge> MAX_MANUAL_CANDIDATES_TOTAL
              \<or> dict_get (ml_bytes_by_flow l2) key 0 + md_message_length c > MAX_MANUAL_CANDIDATE_BYTES_PER_FLOW
              \<or> ml_bytes l2 + md_message_length c > MAX_MANUAL_CANDIDATE_BYTES_TOTAL)"
  proof -
    have step: "replaced key (candidates_at l2 key @ [c]) l2 ?l"
      using bounded_flows [OF b2] bounded_flow [OF b2, of key] by (simp add: replaced_def get_update AList.distinct_update)
    have exact: "exact l2" "limited l2"
      using b2 by (simp_all add: bounded_ledger_def)
    have "limited ?l"
      using room exact(2) bounded_flow [OF b2, of key] unfolding limited_def replaced_exact(2) [OF exact(1) step] by simp
    then show ?thesis
      using replaced_exact(1) [OF exact(1) step] by (simp add: bounded_ledger_def)
  qed
  show ?thesis
    using l1 b2 admitted by (auto simp: admit_candidate_def Let_def l1_def [symmetric] l2 same bounded_suppress)
qed

lemma bounded_observe: "bounded_ledger l \<Longrightarrow> bounded_ledger (observe_manual_frame frame l)"
proof -
  assume l: "bounded_ledger l"
  obtain active l1 where l1: "activate_generation (ctx_flow (fr_context frame)) (ctx_flow_generation (fr_context frame)) l = (active, l1)"
    by (meson surj_pair)
  have "bounded_ledger l1"
    using bounded_activate [OF l] l1 by (metis snd_conv)
  then show ?thesis
    by (simp add: observe_manual_frame_def Let_def l1 bounded_fields bounded_advance bounded_admit bounded_prune split: option.split)
qed

lemma bounded_reserve: "bounded_ledger l \<Longrightarrow> bounded_ledger (snd (reserve_matching_decrement flow g q events l))"
proof (cases "\<exists>q' event rest. q = Some q' \<and> events = event # rest")
  case False
  assume "bounded_ledger l"
  then show ?thesis
    using False by (auto simp: reserve_matching_decrement_def split: option.split list.split)
next
  case True
  assume l: "bounded_ledger l"
  obtain q' event rest where q: "q = Some q'" and events: "events = event # rest"
    using True by blast
  obtain active l1 where l1: "activate_generation flow g l = (active, l1)"
    by (meson surj_pair)
  define l2 where "l2 = l1\<lparr>ml_latest := AList.update (flow, g) (py_max (ev_timestamp event)
      (dict_get (ml_latest l1) (flow, g) (ev_timestamp event))) (ml_latest l1)\<rparr>"
  define l3 where "l3 = prune_manual_candidates (ev_timestamp event) l2"
  obtain s l4 where l4: "manual_key_is_suppressed (flow, g) l3 = (s, l4)"
    by (meson surj_pair)
  have b1: "bounded_ledger l1"
    using bounded_activate [OF l, of flow g] l1 by simp
  then have "bounded_ledger l3"
    unfolding l3_def l2_def by (intro bounded_prune) (simp add: bounded_fields)
  then have b4: "bounded_ledger l4"
    using bounded_suppressed [of l3 "(flow, g)"] l4 by simp
  have "bounded_ledger (l4\<lparr>ml_candidates := AList.update (flow, g) reserved (ml_candidates l4)\<rparr>)"
    if "map_of (ml_candidates l4) (flow, g) = Some candidates" and "reserve_best key q' events candidates = (ms, reserved)"
    for candidates key ms reserved
    by (rule same_frames_bounded [OF b4, where key = "(flow, g)" and cs = reserved])
      (use that reserve_best_frames [OF that(2)] in \<open>simp_all add: candidates_at_def dict_get_def\<close>)
  then show ?thesis
    using b1 b4 by (auto simp: reserve_matching_decrement_def q events l1 Let_def l2_def [symmetric] l3_def [symmetric] l4
        split: option.split prod.split)
qed

lemma bounded_reset: "bounded_ledger l \<Longrightarrow> bounded_ledger (manual_reset flow g q l)"
  by (simp add: manual_reset_def Let_def bounded_fields bounded_remove)

lemma bounded_start: "ml_candidates l = [] \<Longrightarrow> ml_count l = 0 \<Longrightarrow> ml_bytes l = 0 \<Longrightarrow> ml_bytes_by_flow l = [] \<Longrightarrow> bounded_ledger l"
  by (simp add: bounded_ledger_def exact_def limited_def keyed_def candidates_at_def dict_get_def
      MAX_MANUAL_CANDIDATES_TOTAL_def MAX_MANUAL_CANDIDATE_BYTES_TOTAL_def MAX_MANUAL_CANDIDATES_PER_FLOW_def
      MAX_MANUAL_CANDIDATE_BYTES_PER_FLOW_def)

lemma bounded_new: "bounded_ledger (new_manual_ledger specs)" "bounded_ledger (clear_ledger l)"
  by (rule bounded_start; simp add: new_manual_ledger_def clear_ledger_def)+

end
