(* ===== verification/Manual_Credit.thy ===== *)
theory Manual_Credit
  imports Manual_Facts "HOL-Library.Multiset"
begin

text \<open>
  A physical decrement frame is credited to one storage message at most: every reservation that
  yields matches takes one candidate out of those that are free, and only an observed frame adds
  one.
\<close>

section \<open>The free candidates\<close>

text \<open>The frame of a candidate, without what the ledger notes about it.\<close>

definition physical :: "manual_candidate \<Rightarrow> manual_candidate" where
  "physical c = c\<lparr>md_specs := [], md_successor_starts := [], md_reserved_by := None\<rparr>"

definition free_of :: "manual_candidate list \<Rightarrow> manual_candidate multiset" where
  "free_of cs = mset (map physical (filter (\<lambda>c. md_reserved_by c = None) cs))"

definition free_at :: "manual_ledger \<Rightarrow> manual_flow_key \<Rightarrow> manual_candidate multiset" where
  "free_at l key = free_of (candidates_at l key)"

lemma free_of_simps [simp]:
  "free_of [] = {#}"
  "free_of (c # cs) = (if md_reserved_by c = None then add_mset (physical c) (free_of cs) else free_of cs)"
  "free_of (cs @ cs') = free_of cs + free_of cs'"
  by (simp_all add: free_of_def)

lemma free_of_filter: "free_of (filter P cs) \<subseteq># free_of cs"
  by (induction cs) (auto intro: subset_mset.order_trans)

lemma free_of_note [simp]: "free_of (map (note_successor start) cs) = free_of cs"
  by (induction cs) (auto simp: note_successor_def physical_def)

definition narrows :: "manual_ledger \<Rightarrow> manual_ledger \<Rightarrow> bool" where
  "narrows l l' \<longleftrightarrow> (\<forall>key. free_at l' key \<subseteq># free_at l key)"

lemma narrowsD: "narrows l l' \<Longrightarrow> free_at l' key \<subseteq># free_at l key"
  unfolding narrows_def by (rule spec)

lemma narrows_refl: "narrows l l"
  by (simp add: narrows_def)

lemma narrows_trans: "narrows l l' \<Longrightarrow> narrows l' l'' \<Longrightarrow> narrows l l''"
  unfolding narrows_def by (meson subset_mset.order_trans)

lemma narrows_same: "ml_candidates l' = ml_candidates l \<Longrightarrow> narrows l l'"
  by (simp add: narrows_def free_at_def candidates_at_def)

lemma narrows_remove: "narrows l (remove_manual_key key l)"
  by (simp add: narrows_def free_at_def remove_manual_key_def Let_def retained_fields candidates_at_simps)

lemma narrows_fold: "(\<And>x l. narrows l (f x l)) \<Longrightarrow> narrows l (fold f xs l)"
  by (induction xs arbitrary: l) (auto intro: narrows_refl narrows_trans)

lemma narrows_purge: "narrows l (purge_manual_flow flow l)"
  unfolding purge_manual_flow_def Let_def
  by (rule narrows_trans [OF narrows_fold [OF narrows_remove]]) (rule narrows_same; simp)

lemma narrows_activate: "narrows l (snd (activate_generation flow g l))"
  using narrows_trans [OF narrows_purge [of l flow] narrows_same]
  by (auto simp: activate_generation_def Let_def narrows_refl narrows_same split: option.split)

lemma suppressed_candidates: "ml_candidates (snd (manual_key_is_suppressed key l)) = ml_candidates l"
  by (auto simp: manual_key_is_suppressed_def split: option.split)

lemma narrows_suppress: "narrows l (suppress_manual_key key ts l)"
  by (simp add: suppress_manual_key_def Let_def narrows_same)

lemma narrows_prune: "keyed l \<Longrightarrow> narrows l (prune_manual_candidates now l)"
  by (simp add: narrows_def free_at_def keyed_def prune_candidates_at free_of_filter)

lemma narrows_advance: "narrows l (advance_frontier key start e l)"
  by (simp add: narrows_def free_at_def advance_candidates)

lemma narrows_reset: "narrows l (manual_reset flow g q l)"
  using narrows_trans [OF narrows_remove [of l "(flow, g)"] narrows_same]
  by (simp add: manual_reset_def Let_def narrows_refl)

lemma narrows_clear: "narrows l (clear_ledger l)"
  by (simp add: narrows_def free_at_def clear_ledger_def new_manual_ledger_def candidates_at_def dict_get_def)

section \<open>Observed frames\<close>

definition frame_decrement :: "bdo_frame \<Rightarrow> (manual_flow_key \<times> manual_candidate) option" where
  "frame_decrement frame =
     map_option (\<lambda>start.
       ((ctx_flow (fr_context frame), ctx_flow_generation (fr_context frame)),
        \<lparr>md_stream_start = start, md_stream_end = start + int (length (fr_message frame)),
         md_timestamp = ctx_timestamp (fr_context frame), md_opcode = frame_opcode frame,
         md_message = fr_message frame, md_specs = [], md_successor_starts = [], md_reserved_by = None\<rparr>))
       (fr_stream_sequence frame)"

lemma admit_free:
  assumes "md_reserved_by c = None"
  shows "free_at (admit_candidate key c l) k \<subseteq># free_at l k + (if k = key then {#physical c#} else {#})"
proof -
  define l1 where "l1 = (if map_of (ml_candidates l) key = None then l\<lparr>ml_candidates := AList.update key [] (ml_candidates l)\<rparr> else l)"
  obtain s l2 where l2: "manual_key_is_suppressed key l1 = (s, l2)"
    by (meson surj_pair)
  have l1: "candidates_at l1 k = candidates_at l k" for k
    by (auto simp: l1_def candidates_at_simps) (simp add: candidates_at_def dict_get_def)
  have l2': "candidates_at l2 k = candidates_at l k" for k
    using l1 suppressed_candidates [of key l1] l2 by (simp add: candidates_at_def)
  have suppress: "candidates_at (suppress_manual_key key ts l2) k = candidates_at l k" for ts k
    using l2' by (simp add: suppress_manual_key_def Let_def retained_fields)
  have here: "dict_get (ml_candidates l) key [] = candidates_at l key"
    by (simp add: candidates_at_def)
  show ?thesis
    using assms
    by (simp add: admit_candidate_def Let_def l1_def [symmetric] l2 free_at_def l1 suppress here)
      (simp add: retained_fields candidates_at_simps l2')
qed

lemma observe_free:
  assumes l: "keyed l"
  shows "free_at (observe_manual_frame frame l) key \<subseteq>#
    free_at l key + mset (map snd (filter (\<lambda>(k, _). k = key) (List.map_filter frame_decrement [frame])))"
proof -
  define flow where "flow = ctx_flow (fr_context frame)"
  define g where "g = ctx_flow_generation (fr_context frame)"
  obtain active l1 where l1: "activate_generation flow g l = (active, l1)"
    by (meson surj_pair)
  define l2 where "l2 = l1\<lparr>ml_latest := AList.update (flow, g) (py_max (ctx_timestamp (fr_context frame))
      (dict_get (ml_latest l1) (flow, g) (ctx_timestamp (fr_context frame)))) (ml_latest l1)\<rparr>"
  have n1: "narrows l l1" and k1: "keyed l1"
    using narrows_activate [of l flow g] keyed_activate [OF l, of flow g] l1 by simp_all
  have n2: "narrows l l2" and k2: "keyed l2"
    using narrows_trans [OF n1 narrows_same [of l2 l1]] k1 by (simp_all add: l2_def keyed_latest)
  show ?thesis
  proof (cases "fr_stream_sequence frame")
    case None
    then show ?thesis
      using narrowsD [OF n1, of key] narrowsD [OF n2, of key]
      by (simp add: observe_manual_frame_def Let_def flow_def [symmetric] g_def [symmetric] l1 l2_def [symmetric]
          frame_decrement_def map_filter_simps)
  next
    case (Some start)
    define e where "e = start + int (length (fr_message frame))"
    define l3 where "l3 = advance_frontier (flow, g) start e l2"
    define found where "found = filter (spec_accepts_message (fr_message frame)) (dict_get (ml_specs l3) (frame_opcode frame) [])"
    define l4 where "l4 = prune_manual_candidates (ctx_timestamp (fr_context frame)) l3"
    have n3: "narrows l l3" and k3: "keyed l3"
      using narrows_trans [OF n2 narrows_advance] keyed_advance [OF k2] by (simp_all add: l3_def)
    have n4: "narrows l l4"
      using narrows_trans [OF n3 narrows_prune [OF k3]] by (simp add: l4_def)
    let ?c = "\<lparr>md_stream_start = start, md_stream_end = e, md_timestamp = ctx_timestamp (fr_context frame),
        md_opcode = frame_opcode frame, md_message = fr_message frame, md_specs = found, md_successor_starts = [], md_reserved_by = None\<rparr>"
    have added: "mset (map snd (filter (\<lambda>(k, _). k = key) (List.map_filter frame_decrement [frame]))) =
        (if key = (flow, g) then {#physical ?c#} else {#})"
      using Some by (simp add: frame_decrement_def map_filter_simps flow_def g_def e_def physical_def)
    have "free_at (admit_candidate (flow, g) ?c l4) key \<subseteq># free_at l key + (if key = (flow, g) then {#physical ?c#} else {#})"
      using admit_free [of ?c "(flow, g)" l4 key] narrowsD [OF n4, of key]
      by (meson manual_candidate.select_convs(8) subset_mset.add_right_mono subset_mset.order_trans)
    then show ?thesis
      unfolding added
      using narrowsD [OF n1, of key] narrowsD [OF n2, of key] narrowsD [OF n3, of key] Some
      by (auto simp: observe_manual_frame_def Let_def flow_def [symmetric] g_def [symmetric] l1 l2_def [symmetric] e_def [symmetric]
          l3_def [symmetric] found_def [symmetric] l4_def [symmetric] intro: subset_mset.order_trans)
  qed
qed

section \<open>Reservations\<close>

text \<open>What a reservation of a frame for a storage message means.\<close>

definition credited :: "int \<Rightarrow> bdo_event list \<Rightarrow> (int \<times> manual_match) list \<Rightarrow> manual_candidate \<Rightarrow> bool" where
  "credited q events matches c \<longleftrightarrow>
     md_stream_end c \<le> q \<and> \<not> is_stale (ev_timestamp (hd events)) c \<and>
     (\<forall>(i, m) \<in> set matches. \<exists>e \<in> set events. match_proof c e m)"

lemma credited_physical: "credited q events matches (physical c) = credited q events matches c"
  by (simp add: credited_def physical_def match_proof_def is_stale_def md_message_length_def)

lemma free_reserved:
  "free_of (map (\<lambda>c. if best c then c\<lparr>md_reserved_by := Some key\<rparr> else c) cs) = free_of (filter (\<lambda>c. \<not> best c) cs)"
  by (induction cs) simp_all

lemma free_taken:
  "c \<in> set cs \<Longrightarrow> best c \<Longrightarrow> md_reserved_by c = None \<Longrightarrow>
    add_mset (physical c) (free_of (filter (\<lambda>c. \<not> best c) cs)) \<subseteq># free_of cs"
proof (induction cs)
  case (Cons d cs)
  show ?case
  proof (cases "c = d")
    case True
    then show ?thesis
      using Cons.prems free_of_filter [of "\<lambda>c. \<not> best c" cs] by simp
  next
    case False
    then have "add_mset (physical c) (free_of (filter (\<lambda>c. \<not> best c) cs)) \<subseteq># free_of cs"
      using Cons by simp
    then show ?thesis
      by (auto simp: add_mset_commute intro: subset_mset.order_trans)
  qed
qed simp

lemma reserve_best_free:
  assumes step: "reserve_best key q events candidates = (matches, reserved)"
  shows "free_of reserved \<subseteq># free_of candidates"
    and "matches \<noteq> [] \<Longrightarrow> \<exists>c. add_mset (physical c) (free_of reserved) \<subseteq># free_of candidates \<and> credited q events matches c"
proof -
  define evaluated where "evaluated = List.map_filter (evaluate_candidate q events) candidates"
  define best where "best c \<longleftrightarrow> (case evaluate_candidate q events c of None \<Rightarrow> False
      | Some (score, _) \<Rightarrow> score = list_min (map fst evaluated))" for c
  have reserve: "(case evaluate_candidate q events c of None \<Rightarrow> c
      | Some (score, _) \<Rightarrow> if score = list_min (map fst evaluated) then c\<lparr>md_reserved_by := Some key\<rparr> else c) =
      (if best c then c\<lparr>md_reserved_by := Some key\<rparr> else c)" for c
    by (simp add: best_def split: option.split)
  have cases: "matches = [] \<and> reserved = candidates \<or>
      matches = (case filter (\<lambda>(score, _). score = list_min (map fst evaluated)) evaluated of [(_, matches)] \<Rightarrow> matches | _ \<Rightarrow> []) \<and>
      reserved = map (\<lambda>c. if best c then c\<lparr>md_reserved_by := Some key\<rparr> else c) candidates"
    using step unfolding reserve_best_def evaluated_def [symmetric] Let_def reserve by (simp split: if_splits)
  then show "free_of reserved \<subseteq># free_of candidates"
    using free_of_filter [of "\<lambda>c. \<not> best c" candidates] by (auto simp: free_reserved)
  assume "matches \<noteq> []"
  then have reserved: "reserved = map (\<lambda>c. if best c then c\<lparr>md_reserved_by := Some key\<rparr> else c) candidates"
    and winner: "matches = (case filter (\<lambda>(score, _). score = list_min (map fst evaluated)) evaluated of [(_, matches)] \<Rightarrow> matches | _ \<Rightarrow> [])"
    using cases by blast+
  obtain score where "filter (\<lambda>(score, _). score = list_min (map fst evaluated)) evaluated = [(score, matches)]"
    using winner \<open>matches \<noteq> []\<close> by (auto split: list.splits prod.splits)
  then have "(score, matches) \<in> set (filter (\<lambda>(score, _). score = list_min (map fst evaluated)) evaluated)"
    by simp
  then have "(score, matches) \<in> set evaluated \<and> score = list_min (map fst evaluated)"
    unfolding set_filter mem_Collect_eq prod.case .
  then have score: "(score, matches) \<in> set evaluated" "score = list_min (map fst evaluated)"
    by (rule conjunct1, rule conjunct2)
  then obtain c where c: "c \<in> set candidates" "evaluate_candidate q events c = Some (score, matches)"
    by (auto simp: evaluated_def set_map_filter_Some)
  note chosen = evaluate_Some [OF c(2)]
  have "best c"
    using c(2) score(2) by (simp add: best_def)
  then have "add_mset (physical c) (free_of reserved) \<subseteq># free_of candidates"
    using free_taken [OF c(1), of best] chosen(1) by (simp add: reserved free_reserved)
  moreover have "credited q events matches c"
    using chosen(2,3) group_match_proof [OF chosen(4)] by (auto simp: credited_def)
  ultimately show "\<exists>c. add_mset (physical c) (free_of reserved) \<subseteq># free_of candidates \<and> credited q events matches c"
    by blast
qed

lemma reserve_free:
  assumes l: "keyed l" and step: "reserve_matching_decrement flow g q events l = (matches, l')"
  shows "narrows l l'"
    and "matches \<noteq> [] \<Longrightarrow> \<exists>c q'. q = Some q' \<and> credited q' events matches c \<and>
      add_mset (physical c) (free_at l' (flow, g)) \<subseteq># free_at l (flow, g)"
proof -
  have "narrows l l' \<and> (matches \<noteq> [] \<longrightarrow> (\<exists>c q'. q = Some q' \<and> credited q' events matches c \<and>
      add_mset (physical c) (free_at l' (flow, g)) \<subseteq># free_at l (flow, g)))"
  proof (cases "\<exists>q' event rest. q = Some q' \<and> events = event # rest")
    case False
    then have "matches = []" "l' = l"
      using step by (auto simp: reserve_matching_decrement_def split: option.splits list.splits)
    then show ?thesis
      by (simp add: narrows_refl)
  next
    case True
    then obtain q' event rest where q: "q = Some q'" and events: "events = event # rest"
      by blast
    obtain active l1 where l1: "activate_generation flow g l = (active, l1)"
      by (meson surj_pair)
    define l2 where "l2 = l1\<lparr>ml_latest := AList.update (flow, g) (py_max (ev_timestamp event)
        (dict_get (ml_latest l1) (flow, g) (ev_timestamp event))) (ml_latest l1)\<rparr>"
    define l3 where "l3 = prune_manual_candidates (ev_timestamp event) l2"
    obtain s l4 where l4: "manual_key_is_suppressed (flow, g) l3 = (s, l4)"
      by (meson surj_pair)
    have n1: "narrows l l1" and k1: "keyed l1"
      using narrows_activate [of l flow g] keyed_activate [OF l, of flow g] l1 by simp_all
    have n3: "narrows l l3"
      unfolding l3_def
      by (rule narrows_trans [OF narrows_trans [OF n1 narrows_same [of l2]] narrows_prune]) (use k1 in \<open>simp_all add: l2_def keyed_latest\<close>)
    have n4: "narrows l l4"
      by (rule narrows_trans [OF n3 narrows_same]) (use suppressed_candidates [of "(flow, g)" l3] l4 in simp)
    show ?thesis
    proof (cases "active \<and> \<not> s \<and> map_of (ml_candidates l4) (flow, g) \<noteq> None")
      case False
      then have "matches = [] \<and> (l' = l1 \<or> l' = l4)"
        using step
        by (auto simp: reserve_matching_decrement_def q events l1 Let_def l2_def [symmetric] l3_def [symmetric] l4 split: if_splits)
      then show ?thesis
        using n1 n4 by blast
    next
      case True
      then obtain candidates where at: "map_of (ml_candidates l4) (flow, g) = Some candidates"
        by blast
      obtain ms reserved where best: "reserve_best (flow, g, Some q', ev_opcode event, ev_message_length event, ev_timestamp event)
          q' events candidates = (ms, reserved)"
        by (meson surj_pair)
      have l': "matches = ms" "l' = l4\<lparr>ml_candidates := AList.update (flow, g) reserved (ml_candidates l4)\<rparr>"
        using step True at best
        by (simp_all add: reserve_matching_decrement_def q events l1 Let_def l2_def [symmetric] l3_def [symmetric] l4)
      have free: "free_at l' k = (if k = (flow, g) then free_of reserved else free_at l4 k)" for k
        by (simp add: free_at_def l'(2) candidates_at_simps)
      have here: "free_at l4 (flow, g) = free_of candidates"
        using at by (simp add: free_at_def candidates_at_def dict_get_def)
      note taken = reserve_best_free [OF best]
      have "narrows l4 l'"
        using taken(1) here by (simp add: narrows_def free)
      then have "narrows l l'"
        using n4 narrows_trans by blast
      moreover have "\<exists>c q'. q = Some q' \<and> credited q' events matches c \<and>
          add_mset (physical c) (free_at l' (flow, g)) \<subseteq># free_at l (flow, g)" if some: "matches \<noteq> []"
      proof -
        obtain c where c: "add_mset (physical c) (free_of reserved) \<subseteq># free_of candidates" "credited q' events ms c"
          using taken(2) [OF some [unfolded l'(1)]] by blast
        have "add_mset (physical c) (free_at l' (flow, g)) \<subseteq># free_at l (flow, g)"
          using c(1) narrowsD [OF n4, of "(flow, g)"] here by (auto simp: free intro: subset_mset.order_trans)
        then show ?thesis
          using c(2) q l'(1) by blast
      qed
      ultimately show ?thesis
        by blast
    qed
  qed
  then show "narrows l l'" and "matches \<noteq> [] \<Longrightarrow> \<exists>c q'. q = Some q' \<and> credited q' events matches c \<and>
      add_mset (physical c) (free_at l' (flow, g)) \<subseteq># free_at l (flow, g)"
    by blast+
qed

end
