(* ===== verification/Manual_Properties.thy ===== *)
theory Manual_Properties
  imports Manual_Bounds Manual_Credit
begin

text \<open>
  The properties of the decrement ledger over every sequence of its operations.
\<close>

datatype ledger_op =
    Ledger_Frame bdo_frame
  | Ledger_Reserve flow_key int "int option" "bdo_event list"
  | Ledger_Prune pyfloat
  | Ledger_Activate flow_key int
  | Ledger_Reset flow_key int int
  | Ledger_Purge flow_key
  | Ledger_Clear

fun ledger_step :: "ledger_op \<Rightarrow> manual_ledger \<Rightarrow> manual_ledger" where
  "ledger_step (Ledger_Frame frame) l = observe_manual_frame frame l"
| "ledger_step (Ledger_Reserve flow g q events) l = snd (reserve_matching_decrement flow g q events l)"
| "ledger_step (Ledger_Prune now) l = prune_manual_candidates now l"
| "ledger_step (Ledger_Activate flow g) l = snd (activate_generation flow g l)"
| "ledger_step (Ledger_Reset flow g q) l = manual_reset flow g q l"
| "ledger_step (Ledger_Purge flow) l = purge_manual_flow flow l"
| "ledger_step Ledger_Clear l = clear_ledger l"

lemma bounded_step: "bounded_ledger l \<Longrightarrow> bounded_ledger (ledger_step op l)"
  by (cases op) (simp_all add: bounded_observe bounded_reserve bounded_prune bounded_activate bounded_reset bounded_purge bounded_new)

lemma bounded_ops: "bounded_ledger l \<Longrightarrow> bounded_ledger (fold ledger_step ops l)"
  by (induction ops arbitrary: l) (simp_all add: bounded_step)

text \<open>C37. The decrement ledger is bounded and counts exactly, after any operations: 4096 candidates
  of 32 megabytes at most, 128 of two megabytes for one connection, and the three counters are the
  number and the bytes of the candidates held.\<close>

theorem ledger_is_bounded:
  "let l = fold ledger_step ops (new_manual_ledger specs) in
    ml_count l = counted (ml_candidates l) \<and> ml_bytes l = sized (ml_candidates l) \<and> ml_count l \<le> 4096 \<and> ml_bytes l \<le> 33554432 \<and>
    length (candidates_at l key) \<le> 128 \<and> candidates_bytes (candidates_at l key) \<le> 2097152 \<and>
    dict_get (ml_bytes_by_flow l) key 0 = candidates_bytes (candidates_at l key)"
proof -
  define l where "l = fold ledger_step ops (new_manual_ledger specs)"
  have l: "bounded_ledger l"
    unfolding l_def by (rule bounded_ops) (rule bounded_new)
  show ?thesis
    unfolding l_def [symmetric] Let_def
    using bounded_limits [OF l, of key] bounded_flow [OF l, of key] l
    by (simp add: bounded_ledger_def exact_def limited_def MAX_MANUAL_CANDIDATES_TOTAL_def MAX_MANUAL_CANDIDATE_BYTES_TOTAL_def
        MAX_MANUAL_CANDIDATES_PER_FLOW_def MAX_MANUAL_CANDIDATE_BYTES_PER_FLOW_def)
qed

section \<open>Credits\<close>

text \<open>The storage messages of a run that a reservation found a decrement for.\<close>

type_synonym credit = "flow_key \<times> int \<times> int option \<times> bdo_event list \<times> (int \<times> manual_match) list"

definition credit_of_op :: "ledger_op \<Rightarrow> manual_ledger \<Rightarrow> credit list" where
  "credit_of_op op l =
     (case op of
        Ledger_Reserve flow g q events \<Rightarrow>
          (let matches = fst (reserve_matching_decrement flow g q events l)
           in if matches = [] then [] else [(flow, g, q, events, matches)])
      | _ \<Rightarrow> [])"

fun credited_messages :: "ledger_op list \<Rightarrow> manual_ledger \<Rightarrow> credit list" where
  "credited_messages [] l = []"
| "credited_messages (op # ops) l = credit_of_op op l @ credited_messages ops (ledger_step op l)"

definition credit_for :: "credit \<Rightarrow> manual_flow_key \<times> manual_candidate \<Rightarrow> bool" where
  "credit_for c d \<longleftrightarrow>
     (case c of (flow, g, q, events, matches) \<Rightarrow>
        fst d = (flow, g) \<and> (\<exists>q'. q = Some q' \<and> credited q' events matches (snd d)))"

definition op_decrements :: "ledger_op \<Rightarrow> (manual_flow_key \<times> manual_candidate) list" where
  "op_decrements op = (case op of Ledger_Frame frame \<Rightarrow> List.map_filter frame_decrement [frame] | _ \<Rightarrow> [])"

definition observed_decrements :: "ledger_op list \<Rightarrow> (manual_flow_key \<times> manual_candidate) list" where
  "observed_decrements ops = concat (map op_decrements ops)"

definition decrements_at :: "manual_flow_key \<Rightarrow> (manual_flow_key \<times> manual_candidate) list \<Rightarrow> manual_candidate multiset" where
  "decrements_at key ds = mset (map snd (filter (\<lambda>(k, _). k = key) ds))"

lemma at_simps [simp]:
  "decrements_at key [] = {#}" "decrements_at key ((k, c) # ds) = (if k = key then add_mset c (decrements_at key ds) else decrements_at key ds)"
  "decrements_at key (ds @ ds') = decrements_at key ds + decrements_at key ds'"
  by (simp_all add: decrements_at_def)

lemma count_at: "count (decrements_at key ds) c = count (mset ds) (key, c)"
proof (induction ds)
  case (Cons d ds)
  then show ?case
    by (cases d) auto
qed simp

lemma at_subset: "(\<And>key. decrements_at key ds \<subseteq># decrements_at key ds') \<Longrightarrow> mset ds \<subseteq># mset ds'"
  by (rule mset_subset_eqI) (metis count_at mset_subset_eq_count surj_pair)

lemma step_credit:
  assumes l: "bounded_ledger l"
  shows "\<exists>ds. list_all2 credit_for (credit_of_op op l) ds \<and>
    (\<forall>key. decrements_at key ds + free_at (ledger_step op l) key \<subseteq># free_at l key + decrements_at key (op_decrements op))"
proof -
  have l': "keyed l"
    using l by (simp add: bounded_ledger_def exact_def)
  have narrow: ?thesis if "credit_of_op op l = []" "narrows l (ledger_step op l)"
  proof -
    have "free_at (ledger_step op l) key \<subseteq># free_at l key + decrements_at key (op_decrements op)" for key
      by (rule subset_mset.order_trans [OF narrowsD [OF that(2)]]) simp
    then show ?thesis
      using that(1) by (intro exI [of _ "[]"]) simp
  qed
  show ?thesis
  proof (cases op)
    case (Ledger_Frame frame)
    then show ?thesis
      using observe_free [OF l', of frame] by (intro exI [of _ "[]"]) (simp add: credit_of_op_def op_decrements_def decrements_at_def)
  next
    case (Ledger_Reserve flow g q events)
    obtain matches l1 where step: "reserve_matching_decrement flow g q events l = (matches, l1)"
      by (meson surj_pair)
    note free = reserve_free [OF l' step]
    show ?thesis
    proof (cases "matches = []")
      case True
      then show ?thesis
        using Ledger_Reserve step free(1) by (intro narrow) (simp_all add: credit_of_op_def)
    next
      case False
      then obtain c q' where c: "q = Some q'" "credited q' events matches c"
          "add_mset (physical c) (free_at l1 (flow, g)) \<subseteq># free_at l (flow, g)"
        using free(2) by blast
      have "decrements_at key [((flow, g), physical c)] + free_at l1 key \<subseteq># free_at l key" for key
        using c(3) narrowsD [OF free(1), of key] by (cases "key = (flow, g)") simp_all
      moreover have "ledger_step op l = l1" "decrements_at key (op_decrements op) = {#}" for key
        using Ledger_Reserve step by (simp_all add: op_decrements_def)
      moreover have "list_all2 credit_for (credit_of_op op l) [((flow, g), physical c)]"
        using Ledger_Reserve step False c(1,2) by (simp add: credit_of_op_def credit_for_def credited_physical)
      ultimately show ?thesis
        by (intro exI [of _ "[((flow, g), physical c)]"]) (simp only: add_0_right empty_neutral simp_thms)
    qed
  qed (rule narrow; simp add: credit_of_op_def narrows_prune [OF l'] narrows_activate narrows_reset narrows_purge narrows_clear)+
qed

lemma run_credits:
  "bounded_ledger l \<Longrightarrow> \<exists>ds. list_all2 credit_for (credited_messages ops l) ds \<and>
    (\<forall>key. decrements_at key ds \<subseteq># free_at l key + decrements_at key (observed_decrements ops))"
proof (induction ops arbitrary: l)
  case Nil
  then show ?case
    by (intro exI [of _ "[]"]) (simp add: observed_decrements_def)
next
  case (Cons op ops)
  obtain ds where ds: "list_all2 credit_for (credit_of_op op l) ds"
      "\<And>key. decrements_at key ds + free_at (ledger_step op l) key \<subseteq># free_at l key + decrements_at key (op_decrements op)"
    using step_credit [OF Cons.prems, of op] by blast
  obtain ds' where ds': "list_all2 credit_for (credited_messages ops (ledger_step op l)) ds'"
      "\<And>key. decrements_at key ds' \<subseteq># free_at (ledger_step op l) key + decrements_at key (observed_decrements ops)"
    using Cons.IH [OF bounded_step [OF Cons.prems, of op]] by blast
  have "decrements_at key (ds @ ds') \<subseteq># free_at l key + decrements_at key (observed_decrements (op # ops))" for key
  proof -
    have "decrements_at key ds + decrements_at key ds' \<subseteq># decrements_at key ds + (free_at (ledger_step op l) key + decrements_at key (observed_decrements ops))"
      using ds'(2) by simp
    also have "\<dots> \<subseteq># free_at l key + decrements_at key (op_decrements op) + decrements_at key (observed_decrements ops)"
      using ds(2) [of key] by (simp flip: add.assoc)
    finally show ?thesis
      by (simp add: observed_decrements_def ac_simps)
  qed
  then show ?case
    using ds(1) ds'(1) by (intro exI [of _ "ds @ ds'"]) (simp add: list_all2_appendI)
qed

text \<open>C11. A decrement is credited once: after any operations every storage message that was
  credited has a decrement frame of its own, observed on its connection and in its generation,
  which ends before the message, is at most two seconds older, and holds the quantity of a record
  for every match; and no frame is credited more often than it was observed.\<close>

theorem decrement_credited_once:
  "\<exists>frames. list_all2 credit_for (credited_messages ops (new_manual_ledger specs)) frames \<and>
    mset frames \<subseteq># mset (observed_decrements ops)"
proof -
  obtain ds where ds: "list_all2 credit_for (credited_messages ops (new_manual_ledger specs)) ds"
      "\<And>key. decrements_at key ds \<subseteq># free_at (new_manual_ledger specs) key + decrements_at key (observed_decrements ops)"
    using run_credits [OF bounded_new(1), of ops specs] by blast
  have "free_at (new_manual_ledger specs) key = {#}" for key
    by (simp add: free_at_def candidates_at_def dict_get_def new_manual_ledger_def)
  then have "mset ds \<subseteq># mset (observed_decrements ops)"
    using ds(2) by (intro at_subset) simp
  then show ?thesis
    using ds(1) by blast
qed

end
