(* ===== verification/Origin_Tracker.thy ===== *)
theory Origin_Tracker
  imports Companion_Discovery Manual_Ledger
begin

text \<open>
  \<^verbatim>\<open>src/bdo_toolkit/_origin/tracker.py\<close>: storage events are held back until evidence
  of their origin is found: a worker's two companion messages that repeat a token of the
  storage message, or a calibrated decrement of the player's inventory.

  A pending deposit is an object that several lists refer to while one of them is iterated and
  the others are replaced, so it lives in a store: \<open>ot_store\<close> maps its number to its value,
  and \<^verbatim>\<open>self._pending\<close> is the list \<open>ot_pending\<close> of numbers. Every operation is one
  section under the lock, followed by the delivery of the outbox. The digest of a token and the
  text of a time are parameters of the configuration.
\<close>

section \<open>State\<close>

definition LOOKAHEAD_FRAMES :: int where
  "LOOKAHEAD_FRAMES = 32"

definition MAX_PENDING_OPERATIONS_PER_FLOW :: nat where
  "MAX_PENDING_OPERATIONS_PER_FLOW = 64"

definition MAX_PENDING_OPERATIONS_TOTAL :: nat where
  "MAX_PENDING_OPERATIONS_TOTAL = 4096"

definition BACKWARD_WINDOW :: nat where
  "BACKWARD_WINDOW = 16"

definition STREAM_SPAN_HISTORY_LIMIT :: nat where
  "STREAM_SPAN_HISTORY_LIMIT = 64"

definition OBSERVATION_HISTORY_LIMIT :: nat where
  "OBSERVATION_HISTORY_LIMIT = 4096"

definition COMPANION_PAIR_HISTORY_LIMIT :: nat where
  "COMPANION_PAIR_HISTORY_LIMIT = 4096"

definition RECORD_BOUNDARY_HISTORY_LIMIT :: nat where
  "RECORD_BOUNDARY_HISTORY_LIMIT = 4096"

definition RUNTIME_CONFIRMED_FAMILY_LIMIT :: nat where
  "RUNTIME_CONFIRMED_FAMILY_LIMIT = 4096"

definition FAMILY_CONFIRMATION_OBSERVATIONS :: nat where
  "FAMILY_CONFIRMATION_OBSERVATIONS = 2"

record pending_deposit =
  pd_event :: bdo_event
  pd_flow :: flow_key
  pd_stream_sequence :: "int option"
  pd_timestamp :: pyfloat
  pd_matching_decrement :: bool
  pd_events :: "bdo_event list"
  pd_matching_indexes :: "int list"
  pd_manual_matches :: "(int \<times> manual_match) list"
  pd_frames_after :: int
  pd_end_sequence :: "int option"
  pd_companion :: "companion_observation option"
  pd_delta_message :: "bytes option"
  pd_delta_prefix_end :: "int option"
  pd_candidates :: "(family, companion_observation) dict"
  pd_awaiting :: "int set"
  pd_finalized :: bool

record staged_batch =
  sb_expected_count :: int
  sb_entries :: "(int, bdo_event \<times> bytes option) dict"
  sb_invalid :: bool

type_synonym staged_key = "flow_key \<times> int \<times> int option \<times> int option \<times> int option \<times> pyfloat"
type_synonym chain = "flow_key \<times> int option"
type_synonym observed_key = "flow_key \<times> int option \<times> family"
type_synonym pair_key = "flow_key \<times> int \<times> int"
type_synonym operation_key = "flow_key \<times> int option \<times> int option \<times> int option \<times> pyfloat"

datatype outbox_item = Emit bdo_event | Observer companion_observation

record origin_tracker =
  ot_manual :: manual_ledger
  ot_discovery :: discovery_cache
  ot_outbox :: "outbox_item list"
  ot_dispatching :: bool
  ot_known :: "family set"
  ot_confirmed :: "family set"
  ot_confirmation :: "(family, string) dict"
  ot_runtime_order :: "family list"
  ot_family_chains :: "(family, chain set) dict"
  ot_family_chain_order :: "(family \<times> chain) list"
  ot_storage_opcodes :: "int set"
  ot_recent :: "(flow_key, bdo_frame list) dict"
  ot_spans :: "(flow_key, (int \<times> bytes) list) dict"
  ot_store :: "nat \<Rightarrow> pending_deposit"
  ot_allocated :: nat
  ot_pending :: "nat list"
  ot_staged :: "(staged_key, staged_batch) dict"
  ot_observed :: "observed_key set"
  ot_observed_order :: "observed_key list"
  ot_contested :: "pair_key set"
  ot_contested_order :: "pair_key list"
  ot_overflow :: "flow_key set"
  ot_boundaries :: "(flow_key \<times> int, int) dict"
  ot_boundary_order :: "(flow_key \<times> int) list"

record origin_config =
  oc_digest :: "bytes \<Rightarrow> string"
  oc_utc_text :: "pyfloat \<Rightarrow> string"
  oc_observer :: bool

definition new_origin_tracker :: "decrement_spec list \<Rightarrow> companion_family list \<Rightarrow> int list \<Rightarrow> origin_tracker" where
  "new_origin_tracker decrement_specs known_families storage_delta_opcodes =
     (let known = map family_key known_families in
      \<lparr>ot_manual = new_manual_ledger decrement_specs, ot_discovery = new_discovery_cache, ot_outbox = [],
       ot_dispatching = False, ot_known = set known, ot_confirmed = set known,
       ot_confirmation = fold (\<lambda>f. AList.update f ''profile'') known [], ot_runtime_order = [], ot_family_chains = [],
       ot_family_chain_order = [],
       ot_storage_opcodes = set (map cf_delta_opcode known_families) \<union> set storage_delta_opcodes,
       ot_recent = [], ot_spans = [], ot_store = (\<lambda>_. undefined), ot_allocated = 0, ot_pending = [], ot_staged = [],
       ot_observed = {}, ot_observed_order = [], ot_contested = {}, ot_contested_order = [], ot_overflow = {},
       ot_boundaries = [], ot_boundary_order = []\<rparr>)"

definition update_deposit :: "nat \<Rightarrow> (pending_deposit \<Rightarrow> pending_deposit) \<Rightarrow> origin_tracker \<Rightarrow> origin_tracker" where
  "update_deposit p f t = t\<lparr>ot_store := (ot_store t)(p := f (ot_store t p))\<rparr>"

text \<open>\<^verbatim>\<open>deque(maxlen=limit).append(x)\<close>\<close>

definition deque_append :: "nat \<Rightarrow> 'a list \<Rightarrow> 'a \<Rightarrow> 'a list" where
  "deque_append limit xs x = (let ys = xs @ [x] in drop (length ys - limit) ys)"

section \<open>Delivery of a decision\<close>

definition queue_emit :: "bdo_event \<Rightarrow> origin_tracker \<Rightarrow> origin_tracker" where
  "queue_emit event t = t\<lparr>ot_outbox := ot_outbox t @ [Emit event]\<rparr>"

definition observation_to_dict :: "origin_config \<Rightarrow> companion_observation \<Rightarrow> jobject" where
  "observation_to_dict cfg o' =
     [(''detection'', JStr ''shared-token-chain-v1''), (''delta_opcode'', JStr (format_opcode (co_delta_opcode o'))),
      (''delta_length'', JInt (co_delta_length o')),
      (''companion_opcodes'', JList [JStr (format_opcode (fst (co_companion_opcodes o'))),
                                     JStr (format_opcode (snd (co_companion_opcodes o')))]),
      (''companion_lengths'', JList [JInt (fst (co_companion_lengths o')), JInt (snd (co_companion_lengths o'))]),
      (''shared_token_digest'', JStr (co_token_digest o')),
      (''token_offsets'', JObj [(''delta'', JInt (fst (co_token_offsets o'))),
                                (''first_companion'', JInt (fst (snd (co_token_offsets o')))),
                                (''second_companion'', JInt (snd (snd (co_token_offsets o'))))]),
      (''observed_at'', JStr (oc_utc_text cfg (co_timestamp o')))]"

definition chain_evidence :: "origin_config \<Rightarrow> origin_tracker \<Rightarrow> companion_observation \<Rightarrow> jobject" where
  "chain_evidence cfg t o' =
     observation_to_dict cfg o' @
     [(''known_family'', JBool (observation_family o' \<in> ot_known t)),
      (''confirmed_family'', JBool (observation_family o' \<in> ot_confirmed t)),
      (''confirmation'', (case map_of (ot_confirmation t) (observation_family o') of
                            None \<Rightarrow> JNull | Some reason \<Rightarrow> JStr reason))]"

datatype deposit_origin = Origin_Worker | Origin_Manual | Origin_Unknown

definition deposit_origin_of :: "pending_deposit \<Rightarrow> deposit_origin" where
  "deposit_origin_of d =
     (if pd_companion d \<noteq> None then Origin_Worker
      else if pd_matching_decrement d then Origin_Manual else Origin_Unknown)"

definition is_neutral :: "pending_deposit \<Rightarrow> bool" where
  "is_neutral d \<longleftrightarrow> ev_type (pd_event d) = ''storage_record''"

definition origin_evidence :: "origin_config \<Rightarrow> origin_tracker \<Rightarrow> pending_deposit \<Rightarrow> jobject" where
  "origin_evidence cfg t d =
     [(''worker_companions'', JBool (pd_companion d \<noteq> None)), (''matching_decrement'', JBool (pd_matching_decrement d))] @
     (if length (pd_manual_matches d) > 1
      then [(''manual_decrement_matches'',
             JTuple (map (\<lambda>(i, m). JObj ((''record_index'', JInt i) # match_to_dict m)) (pd_manual_matches d)))]
      else []) @
     (case pd_companion d of None \<Rightarrow> [] | Some o' \<Rightarrow> [(''companion_chain'', JObj (chain_evidence cfg t o'))]) @
     (if is_neutral d \<and> length (pd_events d) > 1 \<and> pd_matching_indexes d \<noteq> []
      then [(''matching_decrement_record_indexes'', JTuple (map JInt (pd_matching_indexes d)))] else [])"

text \<open>\<^verbatim>\<open>min(pool, key=...)\<close>: the first of the strongest matches.\<close>

fun strongest_match :: "int \<times> manual_match \<Rightarrow> (int \<times> manual_match) list \<Rightarrow> int \<times> manual_match" where
  "strongest_match best [] = best"
| "strongest_match best (m # ms) =
     strongest_match (if confidence_rank (mm_confidence (snd m)) < confidence_rank (mm_confidence (snd best))
                      then m else best) ms"

definition event_evidence :: "pending_deposit \<Rightarrow> jobject \<Rightarrow> bdo_event \<Rightarrow> jobject" where
  "event_evidence d evidence original =
     (let matching = filter (\<lambda>m. Some (fst m) = ev_record_index original) (pd_manual_matches d);
          pool = (if matching \<noteq> [] then matching else pd_manual_matches d)
      in case pool of
           [] \<Rightarrow> evidence
         | m # ms \<Rightarrow>
             (case strongest_match m ms of (i, best) \<Rightarrow>
                AList.update ''manual_decrement'' (JObj (match_to_dict best @ [(''record_index'', JInt i)])) evidence))"

text \<open>The event as it leaves: relabelled and with its evidence.\<close>

definition classified_event :: "pending_deposit \<Rightarrow> jobject \<Rightarrow> bdo_event \<Rightarrow> bdo_event" where
  "classified_event d evidence original =
     original\<lparr>ev_type := (if is_neutral d then ''storage_delta'' else ev_type original),
              ev_source := (case deposit_origin_of d of
                 Origin_Worker \<Rightarrow> Some ''Worker Production''
               | Origin_Manual \<Rightarrow> Some ''Player Inventory''
               | Origin_Unknown \<Rightarrow> None),
              ev_extra :=
                (let extra = AList.update ''deposit_origin_evidence'' (JObj (event_evidence d evidence original))
                               (ev_extra original)
                 in if is_neutral d
                    then AList.update ''storage_operation_evidence''
                           (JObj [(''wire_operation'', JStr ''unknown''), (''inferred_operation'', JStr ''live''),
                                  (''signal'', JStr (if pd_companion d \<noteq> None then ''worker_companions''
                                                    else ''matching_decrement''))]) extra
                    else extra)\<rparr>"

definition finalize_deposit :: "origin_config \<Rightarrow> nat \<Rightarrow> origin_tracker \<Rightarrow> origin_tracker" where
  "finalize_deposit cfg p t =
     (if pd_finalized (ot_store t p) then t
      else
        let t1 = update_deposit p (\<lambda>d. d\<lparr>pd_finalized := True\<rparr>) t;
            d = ot_store t1 p;
            events = (if pd_events d \<noteq> [] then pd_events d else [pd_event d])
        in if is_neutral d \<and> deposit_origin_of d = Origin_Unknown then fold queue_emit events t1
           else fold (\<lambda>event. queue_emit (classified_event d (origin_evidence cfg t1 d) event)) events t1)"

section \<open>Families\<close>

definition select_confirmed :: "nat \<Rightarrow> origin_tracker \<Rightarrow> bool \<times> origin_tracker" where
  "select_confirmed p t =
     (let d = ot_store t p in
      if pd_flow d \<in> ot_overflow t
      then (False, update_deposit p (\<lambda>d. d\<lparr>pd_candidates := [], pd_companion := None\<rparr>) t)
      else
        let eligible = filter (\<lambda>key. key \<in> ot_confirmed t) (map fst (pd_candidates d)) in
        if eligible = [] then (False, t)
        else let chosen = snd (list_min (map (\<lambda>key. (key \<notin> ot_known t, key)) eligible))
             in (True, update_deposit p (\<lambda>d. d\<lparr>pd_companion := map_of (pd_candidates d) chosen\<rparr>) t))"

text \<open>A later chain can resolve an earlier ambiguous one: the loop of \<^verbatim>\<open>_confirm_family\<close>.\<close>

definition resolve_confirmed :: "origin_config \<Rightarrow> family \<Rightarrow> nat \<Rightarrow> origin_tracker \<Rightarrow> origin_tracker" where
  "resolve_confirmed cfg fam p t =
     (let d = ot_store t p in
      if pd_finalized d \<or> map_of (pd_candidates d) fam = None then t
      else case select_confirmed p t of
             (True, t') \<Rightarrow> finalize_deposit cfg p t'
           | (False, t') \<Rightarrow> t')"

definition remember_runtime_family :: "family \<Rightarrow> origin_tracker \<Rightarrow> origin_tracker" where
  "remember_runtime_family fam t =
     (if fam \<in> ot_known t then t
      else
        let t1 = (case ot_runtime_order t of
                    expired # order \<Rightarrow>
                      if length (ot_runtime_order t) \<ge> RUNTIME_CONFIRMED_FAMILY_LIMIT
                      then t\<lparr>ot_runtime_order := order, ot_confirmed := ot_confirmed t - {expired},
                             ot_confirmation := AList.delete expired (ot_confirmation t)\<rparr>
                      else t
                  | [] \<Rightarrow> t)
        in t1\<lparr>ot_runtime_order := ot_runtime_order t1 @ [fam]\<rparr>)"

text \<open>The state of a newly confirmed family, before the operations that wait for it are visited.\<close>

definition mark_family_confirmed :: "family \<Rightarrow> string \<Rightarrow> origin_tracker \<Rightarrow> origin_tracker" where
  "mark_family_confirmed fam reason t =
     (let t1 = remember_runtime_family fam
                 (t\<lparr>ot_confirmed := insert fam (ot_confirmed t),
                    ot_confirmation := AList.update fam reason (ot_confirmation t)\<rparr>)
      in t1\<lparr>ot_family_chains := AList.delete fam (ot_family_chains t1)\<rparr>)"

definition confirm_family :: "origin_config \<Rightarrow> family \<Rightarrow> string \<Rightarrow> origin_tracker \<Rightarrow> origin_tracker" where
  "confirm_family cfg fam reason t =
     (if fam \<in> ot_confirmed t then t
      else let t1 = mark_family_confirmed fam reason t
           in fold (resolve_confirmed cfg fam) (ot_pending t1) t1)"

definition notify_origin_observer :: "origin_config \<Rightarrow> companion_observation \<Rightarrow> origin_tracker \<Rightarrow> origin_tracker" where
  "notify_origin_observer cfg o' t =
     (let key = (co_flow o', co_stream_sequence o', observation_family o') in
      if key \<in> ot_observed t then t
      else
        let t1 = (case ot_observed_order t of
                    expired # order \<Rightarrow>
                      if length (ot_observed_order t) \<ge> OBSERVATION_HISTORY_LIMIT
                      then t\<lparr>ot_observed_order := order, ot_observed := ot_observed t - {expired}\<rparr> else t
                  | [] \<Rightarrow> t)
        in t1\<lparr>ot_observed := insert key (ot_observed t1), ot_observed_order := ot_observed_order t1 @ [key],
              ot_outbox := (if oc_observer cfg then ot_outbox t1 @ [Observer o'] else ot_outbox t1)\<rparr>)"

definition expire_family_chain :: "origin_tracker \<Rightarrow> origin_tracker" where
  "expire_family_chain t =
     (case ot_family_chain_order t of
        (expired_family, expired_chain) # order \<Rightarrow>
          if length (ot_family_chain_order t) \<ge> OBSERVATION_HISTORY_LIMIT
          then t\<lparr>ot_family_chain_order := order,
                 ot_family_chains :=
                   (case map_of (ot_family_chains t) expired_family of
                      None \<Rightarrow> ot_family_chains t
                    | Some seen_chains \<Rightarrow>
                        if seen_chains - {expired_chain} = {} then AList.delete expired_family (ot_family_chains t)
                        else AList.update expired_family (seen_chains - {expired_chain}) (ot_family_chains t))\<rparr>
          else t
      | [] \<Rightarrow> t)"

definition extend_family_chain :: "family \<Rightarrow> chain \<Rightarrow> origin_tracker \<Rightarrow> origin_tracker" where
  "extend_family_chain fam chain_key t =
     (let t1 = expire_family_chain t
      in t1\<lparr>ot_family_chains :=
              AList.update fam (insert chain_key (dict_get (ot_family_chains t1) fam {})) (ot_family_chains t1),
            ot_family_chain_order := ot_family_chain_order t1 @ [(fam, chain_key)]\<rparr>)"

definition record_family_observation :: "origin_config \<Rightarrow> companion_observation \<Rightarrow> origin_tracker \<Rightarrow> origin_tracker" where
  "record_family_observation cfg o' t =
     (let chain_key = (co_flow o', co_stream_sequence o'); fam = observation_family o' in
      if fam \<in> ot_confirmed t then notify_origin_observer cfg o' t
      else
        let is_new = (case map_of (ot_family_chains t) fam of None \<Rightarrow> True | Some seen_chains \<Rightarrow> chain_key \<notin> seen_chains);
            t1 = (if is_new then notify_origin_observer cfg o' (extend_family_chain fam chain_key t) else t);
            seen_chains = dict_get (ot_family_chains t1) fam {}
        in if card seen_chains \<ge> FAMILY_CONFIRMATION_OBSERVATIONS
           then confirm_family cfg fam ''repeated-structural-chain'' t1 else t1)"

definition close_pending :: "origin_config \<Rightarrow> nat \<Rightarrow> origin_tracker \<Rightarrow> origin_tracker" where
  "close_pending cfg p t =
     (if pd_finalized (ot_store t p) then t
      else case select_confirmed p t of
        (True, t1) \<Rightarrow> finalize_deposit cfg p t1
      | (False, t1) \<Rightarrow>
          (case pd_candidates (ot_store t1 p) of
             [(fam, _)] \<Rightarrow>
               let t2 = confirm_family cfg fam ''unambiguous-bounded-window'' t1;
                   t3 = (if pd_finalized (ot_store t2 p) then t2 else snd (select_confirmed p t2))
               in finalize_deposit cfg p t3
           | _ \<Rightarrow> finalize_deposit cfg p t1))"

section \<open>Reading the stream\<close>

text \<open>The newest span, or else the newest frame, that holds the byte at a position.\<close>

definition holds_position :: "int \<Rightarrow> int \<times> bytes \<Rightarrow> bool" where
  "holds_position position piece \<longleftrightarrow>
     0 \<le> position - fst piece \<and> position - fst piece < int (length (snd piece))"

definition frame_spans :: "bdo_frame list \<Rightarrow> (int \<times> bytes) list" where
  "frame_spans frames = List.map_filter (\<lambda>f. map_option (\<lambda>q. (q, fr_message f)) (fr_stream_sequence f)) frames"

definition find_source :: "flow_key \<Rightarrow> int \<Rightarrow> origin_tracker \<Rightarrow> (int \<times> bytes) option" where
  "find_source flow position t =
     (case find (holds_position position) (rev (dict_get (ot_spans t) flow [])) of
        Some piece \<Rightarrow> Some piece
      | None \<Rightarrow> find (holds_position position) (rev (frame_spans (dict_get (ot_recent t) flow []))))"

function read_loop :: "flow_key \<Rightarrow> origin_tracker \<Rightarrow> int \<Rightarrow> int \<Rightarrow> bytes \<Rightarrow> bytes option" where
  "read_loop flow t position remaining output =
     (if remaining \<le> 0 then Some output
      else case find_source flow position t of
             None \<Rightarrow> None
           | Some (source_start, source_data) \<Rightarrow>
               let offset = position - source_start;
                   chunk = py_slice source_data offset (offset + remaining)
               in if chunk = [] then None
                  else read_loop flow t (position + int (length chunk)) (remaining - int (length chunk)) (output @ chunk))"
  by pat_completeness auto
termination
  by (relation "measure (\<lambda>(flow, t, position, remaining, output). nat remaining)") auto

declare read_loop.simps [simp del]

definition read_span :: "flow_key \<Rightarrow> int \<Rightarrow> int \<Rightarrow> origin_tracker \<Rightarrow> bytes option" where
  "read_span flow start length' t = (if length' \<le> 0 then None else read_loop flow t start length' [])"

section \<open>Ownership of a companion pair\<close>

definition suppress_flow_candidates :: "flow_key \<Rightarrow> origin_tracker \<Rightarrow> origin_tracker" where
  "suppress_flow_candidates flow t =
     fold (\<lambda>p t. if pd_flow (ot_store t p) \<noteq> flow \<or> pd_finalized (ot_store t p) then t
                 else update_deposit p (\<lambda>d. d\<lparr>pd_candidates := [], pd_companion := None\<rparr>) t)
       (ot_pending t) (t\<lparr>ot_overflow := insert flow (ot_overflow t)\<rparr>)"

definition expire_contested_pair :: "origin_tracker \<Rightarrow> origin_tracker" where
  "expire_contested_pair t =
     (case ot_contested_order t of
        expired # order \<Rightarrow>
          if length (ot_contested_order t) \<ge> COMPANION_PAIR_HISTORY_LIMIT
          then suppress_flow_candidates (fst expired)
                 (t\<lparr>ot_contested_order := order, ot_contested := ot_contested t - {expired}\<rparr>)
          else t
      | [] \<Rightarrow> t)"

definition mark_pair_contested :: "pair_key \<Rightarrow> origin_tracker \<Rightarrow> origin_tracker" where
  "mark_pair_contested pair t =
     (let flow = fst pair in
      if flow \<in> ot_overflow t \<or> pair \<in> ot_contested t then t
      else
        let t1 = expire_contested_pair t
        in if flow \<in> ot_overflow t1 then t1
           else t1\<lparr>ot_contested := insert pair (ot_contested t1), ot_contested_order := ot_contested_order t1 @ [pair]\<rparr>)"

definition discover_for ::
    "origin_config \<Rightarrow> nat \<Rightarrow> bytes \<Rightarrow> bytes \<Rightarrow> bytes \<Rightarrow> int \<Rightarrow> origin_tracker \<Rightarrow> companion_observation option \<times> origin_tracker" where
  "discover_for cfg p delta_message first_message second_message delta_prefix_end t =
     (let d = ot_store t p in
      case discover (oc_digest cfg) (pd_timestamp d) (pd_flow d) (pd_stream_sequence d) delta_message first_message
             second_message delta_prefix_end (ot_discovery t) of
        (o', cache) \<Rightarrow> (o', t\<lparr>ot_discovery := cache\<rparr>))"

definition claims_pair ::
    "origin_config \<Rightarrow> nat \<Rightarrow> bytes \<Rightarrow> bytes \<Rightarrow> bytes \<Rightarrow> int \<Rightarrow> origin_tracker \<Rightarrow> bool \<times> origin_tracker" where
  "claims_pair cfg p message first_message second_message prefix_end t =
     (if prefix_end < 5 + TOKEN_WIDTH then (False, t)
      else case discover_for cfg p message first_message second_message (min prefix_end (int (length message))) t of
             (o', t') \<Rightarrow> (o' \<noteq> None, t'))"

text \<open>Whether a storage message between the operation and the pair repeats the token.\<close>

fun crossed_claims ::
    "origin_config \<Rightarrow> nat \<Rightarrow> bytes \<Rightarrow> bytes \<Rightarrow> (int \<times> bytes \<times> int) list \<Rightarrow> origin_tracker \<Rightarrow> bool \<times> origin_tracker" where
  "crossed_claims cfg p first_message second_message [] t = (False, t)"
| "crossed_claims cfg p first_message second_message ((_, message, boundary) # crossed) t =
     (case claims_pair cfg p message first_message second_message boundary t of
        (True, t') \<Rightarrow> (True, t')
      | (False, t') \<Rightarrow> crossed_claims cfg p first_message second_message crossed t')"

text \<open>The bytes of the storage message of an operation, kept or read again.\<close>

definition delta_message_of :: "nat \<Rightarrow> origin_tracker \<Rightarrow> bytes option" where
  "delta_message_of p t =
     (let d = ot_store t p in
      case pd_delta_message d of
        Some message \<Rightarrow> Some message
      | None \<Rightarrow> (case (pd_stream_sequence d, ev_message_length (pd_event d)) of
                   (Some q, Some n) \<Rightarrow> read_span (pd_flow d) q n t
                 | _ \<Rightarrow> None))"

definition same_wrapper :: "pending_deposit \<Rightarrow> pending_deposit \<Rightarrow> bool" where
  "same_wrapper other d \<longleftrightarrow>
     pd_stream_sequence d \<noteq> None \<and> pd_stream_sequence other = pd_stream_sequence d \<and>
     ev_opcode (pd_event other) = ev_opcode (pd_event d) \<and>
     ev_message_length (pd_event other) = ev_message_length (pd_event d) \<and> pd_timestamp other = pd_timestamp d"

fun pending_claims ::
    "origin_config \<Rightarrow> nat \<Rightarrow> bytes \<Rightarrow> bytes \<Rightarrow> nat list \<Rightarrow> origin_tracker \<Rightarrow> bool \<times> origin_tracker" where
  "pending_claims cfg p first_message second_message [] t = (False, t)"
| "pending_claims cfg p first_message second_message (other # others) t =
     (let d = ot_store t p; d' = ot_store t other in
      if other = p \<or> pd_finalized d' \<or> pd_flow d' \<noteq> pd_flow d \<or> same_wrapper d' d
      then pending_claims cfg p first_message second_message others t
      else case (delta_message_of other t, pd_delta_prefix_end d') of
        (Some other_message, Some prefix) \<Rightarrow>
          (case claims_pair cfg other other_message first_message second_message
                  (min prefix (int (length other_message))) t of
             (True, t') \<Rightarrow> (True, t')
           | (False, t') \<Rightarrow> pending_claims cfg p first_message second_message others t')
      | _ \<Rightarrow> pending_claims cfg p first_message second_message others t)"

definition unique_owner ::
    "origin_config \<Rightarrow> nat \<Rightarrow> companion_observation \<Rightarrow> (int \<times> bytes \<times> int) list \<Rightarrow> bytes \<Rightarrow> bytes \<Rightarrow> pair_key \<Rightarrow>
       origin_tracker \<Rightarrow> bool \<times> origin_tracker" where
  "unique_owner cfg p o' crossed first_message second_message pair t =
     (if pd_flow (ot_store t p) \<in> ot_overflow t \<or> pair \<in> ot_contested t then (False, t)
      else case delta_message_of p t of
        None \<Rightarrow> (False, t)
      | Some delta_message \<Rightarrow>
          let offset = fst (co_token_offsets o') in
          if int (length (py_slice delta_message offset (offset + TOKEN_WIDTH))) \<noteq> TOKEN_WIDTH then (False, t)
          else
            case crossed_claims cfg p first_message second_message crossed t of
              (True, t1) \<Rightarrow> (False, mark_pair_contested pair t1)
            | (False, t1) \<Rightarrow>
                (case pending_claims cfg p first_message second_message (ot_pending t1) t1 of
                   (True, t2) \<Rightarrow> (False, mark_pair_contested pair t2)
                 | (False, t2) \<Rightarrow> (True, t2)))"

section \<open>The scan behind an operation\<close>

record companion_scan =
  cs_observations :: "(family, companion_observation) dict"
  cs_immediate :: "family set"
  cs_awaiting :: "int set"
  cs_complete :: bool

definition no_companions :: companion_scan where
  "no_companions = \<lparr>cs_observations = [], cs_immediate = {}, cs_awaiting = {}, cs_complete = False\<rparr>"

definition missing_boundaries :: "flow_key \<Rightarrow> (int \<times> bytes) list \<Rightarrow> origin_tracker \<Rightarrow> int list" where
  "missing_boundaries flow crossed t =
     filter (\<lambda>q. map_of (ot_boundaries t) (flow, q) = None) (map fst crossed)"

definition bounded_storage_messages :: "flow_key \<Rightarrow> (int \<times> bytes) list \<Rightarrow> origin_tracker \<Rightarrow> (int \<times> bytes \<times> int) list" where
  "bounded_storage_messages flow crossed t =
     map (\<lambda>(q, message). (q, message, dict_get (ot_boundaries t) (flow, q) 0)) crossed"

text \<open>One earlier message paired with the message at \<open>position\<close>.\<close>

definition scan_pair ::
    "origin_config \<Rightarrow> nat \<Rightarrow> bytes \<Rightarrow> int \<Rightarrow> (int \<times> bytes) list \<Rightarrow> nat \<Rightarrow> int \<Rightarrow> bytes \<Rightarrow> nat \<times> int \<times> bytes \<Rightarrow>
       companion_scan \<times> origin_tracker \<Rightarrow> companion_scan \<times> origin_tracker" where
  "scan_pair cfg p delta_message prefix_end crossed message_index position message earlier s =
     (case (earlier, s) of ((first_index, first_sequence, first_message), (scan, t)) \<Rightarrow>
        case discover_for cfg p delta_message first_message message prefix_end t of
          (None, t1) \<Rightarrow> (scan, t1)
        | (Some o', t1) \<Rightarrow>
            let flow = pd_flow (ot_store t1 p); missing = missing_boundaries flow crossed t1 in
            if missing \<noteq> [] then (scan\<lparr>cs_awaiting := cs_awaiting scan \<union> set missing\<rparr>, t1)
            else case unique_owner cfg p o' (bounded_storage_messages flow crossed t1) first_message message
                        (flow, first_sequence, position) t1 of
                   (False, t2) \<Rightarrow> (scan, t2)
                 | (True, t2) \<Rightarrow>
                     let fam = observation_family o' in
                     (scan\<lparr>cs_observations := (if map_of (cs_observations scan) fam = None
                              then cs_observations scan @ [(fam, o')] else cs_observations scan),
                           cs_immediate := (if crossed = [] \<and> first_index = 0 \<and> message_index = 1
                              then insert fam (cs_immediate scan) else cs_immediate scan)\<rparr>, t2))"

fun scan_messages ::
    "origin_config \<Rightarrow> nat \<Rightarrow> bytes \<Rightarrow> int \<Rightarrow> nat list \<Rightarrow> int \<Rightarrow> (int \<times> bytes) list \<Rightarrow> (int \<times> bytes) list \<Rightarrow>
       companion_scan \<Rightarrow> origin_tracker \<Rightarrow> companion_scan \<times> origin_tracker" where
  "scan_messages cfg p delta_message prefix_end [] position following crossed scan t =
     (scan\<lparr>cs_complete := True\<rparr>, t)"
| "scan_messages cfg p delta_message prefix_end (message_index # indexes) position following crossed scan t =
     (let flow = pd_flow (ot_store t p) in
      case read_span flow position 5 t of
        None \<Rightarrow> (scan\<lparr>cs_complete := False\<rparr>, t)
      | Some header \<Rightarrow>
          let length' = from_le (py_slice header 0 2) in
          if \<not> (5 \<le> length' \<and> length' \<le> MAX_TARGET_MESSAGE_LENGTH) then (scan\<lparr>cs_complete := True\<rparr>, t)
          else case read_span flow position length' t of
            None \<Rightarrow> (scan\<lparr>cs_complete := False\<rparr>, t)
          | Some message \<Rightarrow>
              if message_opcode message \<in> ot_storage_opcodes t
              then scan_messages cfg p delta_message prefix_end indexes (position + length') following
                     (crossed @ [(position, message)]) scan t
              else case fold (scan_pair cfg p delta_message prefix_end crossed message_index position message)
                          (map (\<lambda>(i, q, m). (i, q, m)) (enumerate 0 following)) (scan, t) of
                     (scan', t') \<Rightarrow>
                       scan_messages cfg p delta_message prefix_end indexes (position + length')
                         (following @ [(position, message)]) crossed scan' t')"

definition scan_companions_after :: "origin_config \<Rightarrow> nat \<Rightarrow> origin_tracker \<Rightarrow> companion_scan option \<times> origin_tracker" where
  "scan_companions_after cfg p t =
     (let d = ot_store t p in
      case (pd_end_sequence d, pd_stream_sequence d, ev_message_length (pd_event d), pd_delta_prefix_end d) of
        (Some position, Some _, Some _, Some prefix_end) \<Rightarrow>
          (case delta_message_of p t of
             None \<Rightarrow> (None, t)
           | Some delta_message \<Rightarrow>
               (case scan_messages cfg p delta_message prefix_end [0 ..< nat LOOKAHEAD_FRAMES] position [] [] no_companions t of
                  (scan, t') \<Rightarrow> (Some scan, t')))
      | _ \<Rightarrow> (None, t))"

definition note_observation :: "origin_config \<Rightarrow> nat \<Rightarrow> companion_observation \<Rightarrow> origin_tracker \<Rightarrow> origin_tracker" where
  "note_observation cfg p o' t =
     record_family_observation cfg o'
       (update_deposit p (\<lambda>d. if map_of (pd_candidates d) (observation_family o') = None
          then d\<lparr>pd_candidates := pd_candidates d @ [(observation_family o', o')]\<rparr> else d) t)"

text \<open>The end of a scan that has not decided: a complete window closes the operation.\<close>

definition settle_scan :: "origin_config \<Rightarrow> companion_scan \<Rightarrow> nat \<Rightarrow> origin_tracker \<Rightarrow> bool \<times> origin_tracker" where
  "settle_scan cfg scan p t =
     (if pd_awaiting (ot_store t p) \<noteq> {} then (False, t)
      else if cs_complete scan then (let t' = close_pending cfg p t in (pd_finalized (ot_store t' p), t'))
      else (False, t))"

text \<open>An adjacent pair of the only candidate family confirms that family at once.\<close>

definition bootstrap_family :: "origin_config \<Rightarrow> family \<Rightarrow> nat \<Rightarrow> origin_tracker \<Rightarrow> origin_tracker" where
  "bootstrap_family cfg fam p t =
     (let t' = confirm_family cfg fam ''adjacent-structural-chain'' t
      in if pd_finalized (ot_store t' p) then t' else finalize_deposit cfg p (snd (select_confirmed p t')))"

definition resolve_companions :: "origin_config \<Rightarrow> nat \<Rightarrow> origin_tracker \<Rightarrow> bool \<times> origin_tracker" where
  "resolve_companions cfg p t =
     (if pd_finalized (ot_store t p) then (True, t)
      else case select_confirmed p t of
        (True, t1) \<Rightarrow> (True, finalize_deposit cfg p t1)
      | (False, t1) \<Rightarrow>
          (case scan_companions_after cfg p t1 of
             (None, t2) \<Rightarrow> (False, t2)
           | (Some scan, t2) \<Rightarrow>
               let t3 = fold (note_observation cfg p) (map snd (cs_observations scan))
                          (update_deposit p (\<lambda>d. d\<lparr>pd_awaiting := cs_awaiting scan\<rparr>) t2)
               in if pd_finalized (ot_store t3 p) then (True, t3)
                  else case select_confirmed p t3 of
                    (True, t4) \<Rightarrow> (True, finalize_deposit cfg p t4)
                  | (False, t4) \<Rightarrow>
                      (case pd_candidates (ot_store t4 p) of
                         [(fam, _)] \<Rightarrow> if fam \<in> cs_immediate scan then (True, bootstrap_family cfg fam p t4)
                                        else settle_scan cfg scan p t4
                       | _ \<Rightarrow> settle_scan cfg scan p t4)))"

end
