(* ===== verification/Origin_Operations.thy ===== *)
theory Origin_Operations
  imports Origin_Tracker
begin

text \<open>
  The operations of the origin tracker (\<^verbatim>\<open>_origin/tracker.py\<close>): observing the bytes and
  frames of the streams, registering storage events, and the end of flows, batches and the
  capture; and the delivery of the outbox with its interleavings.
\<close>

section \<open>Observing\<close>

text \<open>One pending deposit in the loop of \<^verbatim>\<open>_observe_stream_locked\<close>.\<close>

definition visit_span ::
    "origin_config \<Rightarrow> packet_context \<Rightarrow> int \<Rightarrow> nat \<Rightarrow> nat list \<times> origin_tracker \<Rightarrow> nat list \<times> origin_tracker" where
  "visit_span cfg ctx span_end p s =
     (case s of (still, t) \<Rightarrow>
        let d = ot_store t p in
        if pd_finalized d then (still, t)
        else if pd_flow d \<noteq> ctx_flow ctx then (still @ [p], t)
        else if opt_sat (\<lambda>end'. span_end \<le> end') (pd_end_sequence d) then (still @ [p], t)
        else if STALE_SECONDS < ctx_timestamp ctx - pd_timestamp d then (still, close_pending cfg p t)
        else case resolve_companions cfg p t of (resolved, t') \<Rightarrow> (if resolved then still else still @ [p], t'))"

text \<open>The end of a loop: \<^verbatim>\<open>self._pending = still\<close>.\<close>

definition visit_pending ::
    "(nat \<Rightarrow> nat list \<times> origin_tracker \<Rightarrow> nat list \<times> origin_tracker) \<Rightarrow> origin_tracker \<Rightarrow> origin_tracker" where
  "visit_pending visit t = (case fold visit (ot_pending t) ([], t) of (still, t') \<Rightarrow> t'\<lparr>ot_pending := still\<rparr>)"

definition observe_stream_locked :: "origin_config \<Rightarrow> bytes \<Rightarrow> packet_context \<Rightarrow> origin_tracker \<Rightarrow> origin_tracker" where
  "observe_stream_locked cfg data ctx t =
     (case ctx_stream_start ctx of
        None \<Rightarrow> t
      | Some start \<Rightarrow>
          if data = [] then t
          else
            let window = deque_append STREAM_SPAN_HISTORY_LIMIT (dict_get (ot_spans t) (ctx_flow ctx) []) (start, data);
                t1 = t\<lparr>ot_spans := AList.update (ctx_flow ctx) window (ot_spans t)\<rparr>
            in if ot_pending t1 = [] then t1
               else visit_pending (visit_span cfg ctx (start + int (length data))) t1)"

definition frame_is_after :: "bdo_frame \<Rightarrow> pending_deposit \<Rightarrow> bool" where
  "frame_is_after frame d \<longleftrightarrow>
     (case (pd_stream_sequence d, fr_stream_sequence frame) of
        (Some q, Some r) \<Rightarrow> q < r
      | _ \<Rightarrow> True)"

definition visit_frame ::
    "origin_config \<Rightarrow> bdo_frame \<Rightarrow> nat \<Rightarrow> nat list \<times> origin_tracker \<Rightarrow> nat list \<times> origin_tracker" where
  "visit_frame cfg frame p s =
     (case s of (still, t) \<Rightarrow>
        let d = ot_store t p; ctx = fr_context frame;
            stale = (STALE_SECONDS < ctx_timestamp ctx - pd_timestamp d)
        in if pd_finalized d then (still, t)
           else if pd_flow d \<noteq> ctx_flow ctx then (if stale then (still, close_pending cfg p t) else (still @ [p], t))
           else if \<not> frame_is_after frame d then (still @ [p], t)
           else if stale then (still, close_pending cfg p t)
           else case resolve_companions cfg p t of
             (True, t') \<Rightarrow> (still, t')
           | (False, t') \<Rightarrow>
               let t1 = update_deposit p (\<lambda>d. d\<lparr>pd_frames_after := pd_frames_after d + 1\<rparr>) t' in
               if pd_awaiting (ot_store t1 p) = {} \<and> pd_frames_after (ot_store t1 p) \<ge> LOOKAHEAD_FRAMES
               then (still, close_pending cfg p t1) else (still @ [p], t1))"

definition observe_frame_locked :: "origin_config \<Rightarrow> bdo_frame \<Rightarrow> origin_tracker \<Rightarrow> origin_tracker" where
  "observe_frame_locked cfg frame t =
     (let flow = ctx_flow (fr_context frame);
          window = deque_append BACKWARD_WINDOW (dict_get (ot_recent t) flow []) frame;
          t1 = t\<lparr>ot_manual := observe_manual_frame frame (ot_manual t), ot_recent := AList.update flow window (ot_recent t)\<rparr>
      in if ot_pending t1 = [] then t1 else visit_pending (visit_frame cfg frame) t1)"

section \<open>Registering\<close>

definition emit_neutral_entries :: "staged_batch \<Rightarrow> origin_tracker \<Rightarrow> origin_tracker" where
  "emit_neutral_entries batch t =
     fold (\<lambda>i. queue_emit (fst (the (map_of (sb_entries batch) i)))) (sort (map fst (sb_entries batch))) t"

definition pending_operation_key :: "pending_deposit \<Rightarrow> operation_key" where
  "pending_operation_key d =
     (pd_flow d, pd_stream_sequence d, ev_opcode (pd_event d), ev_message_length (pd_event d), pd_timestamp d)"

definition unfinalized :: "origin_tracker \<Rightarrow> nat list \<Rightarrow> nat list" where
  "unfinalized t ps = filter (\<lambda>p. \<not> pd_finalized (ot_store t p)) ps"

definition evict_fail_closed :: "origin_config \<Rightarrow> nat \<Rightarrow> origin_tracker \<Rightarrow> origin_tracker" where
  "evict_fail_closed cfg p t =
     (if pd_finalized (ot_store t p) then t
      else finalize_deposit cfg p
             (update_deposit p (\<lambda>d. d\<lparr>pd_candidates := [], pd_companion := None, pd_awaiting := {}\<rparr>) t))"

definition operation_keys :: "origin_tracker \<Rightarrow> operation_key list" where
  "operation_keys t = remdups (map (\<lambda>p. pending_operation_key (ot_store t p)) (ot_pending t))"

definition flow_operation_keys :: "flow_key \<Rightarrow> origin_tracker \<Rightarrow> operation_key list" where
  "flow_operation_keys flow t = filter (\<lambda>key. fst key = flow) (operation_keys t)"

text \<open>The oldest operation gives way: of the same flow when that is full, of all else.\<close>

definition evict_oldest_operation :: "origin_config \<Rightarrow> flow_key \<Rightarrow> origin_tracker \<Rightarrow> origin_tracker" where
  "evict_oldest_operation cfg flow t =
     (let oldest = (if length (flow_operation_keys flow t) \<ge> MAX_PENDING_OPERATIONS_PER_FLOW
                    then hd (filter (\<lambda>p. pd_flow (ot_store t p) = flow) (ot_pending t))
                    else hd (ot_pending t));
          key = pending_operation_key (ot_store t oldest);
          (victims, kept) = partition (\<lambda>p. pending_operation_key (ot_store t p) = key) (ot_pending t);
          t1 = fold (evict_fail_closed cfg) victims (t\<lparr>ot_pending := kept\<rparr>)
      in t1\<lparr>ot_pending := unfinalized t1 (ot_pending t1)\<rparr>)"

text \<open>The loop of \<^verbatim>\<open>_append_pending\<close>; every turn removes at least one entry.\<close>

fun make_operation_room :: "nat \<Rightarrow> origin_config \<Rightarrow> nat \<Rightarrow> origin_tracker \<Rightarrow> origin_tracker" where
  "make_operation_room 0 cfg p t = t"
| "make_operation_room (Suc n) cfg p t =
     (let d = ot_store t p in
      if pending_operation_key d \<notin> set (operation_keys t) \<and>
         (length (flow_operation_keys (pd_flow d) t) \<ge> MAX_PENDING_OPERATIONS_PER_FLOW
          \<or> length (operation_keys t) \<ge> MAX_PENDING_OPERATIONS_TOTAL)
      then make_operation_room n cfg p (evict_oldest_operation cfg (pd_flow d) t)
      else t)"

definition append_pending :: "origin_config \<Rightarrow> nat \<Rightarrow> origin_tracker \<Rightarrow> origin_tracker" where
  "append_pending cfg p t =
     (let t1 = t\<lparr>ot_pending := unfinalized t (ot_pending t)\<rparr>;
          t2 = make_operation_room (Suc (length (ot_pending t1))) cfg p t1
      in t2\<lparr>ot_pending := ot_pending t2 @ [p]\<rparr>)"

definition visit_waiter ::
    "origin_config \<Rightarrow> flow_key \<Rightarrow> int \<Rightarrow> nat \<Rightarrow> nat list \<times> origin_tracker \<Rightarrow> nat list \<times> origin_tracker" where
  "visit_waiter cfg flow stream_sequence p s =
     (case s of (still, t) \<Rightarrow>
        let d = ot_store t p in
        if pd_finalized d then (still, t)
        else if pd_flow d \<noteq> flow \<or> stream_sequence \<notin> pd_awaiting d then (still @ [p], t)
        else case resolve_companions cfg p t of
          (True, t') \<Rightarrow> (still, t')
        | (False, t') \<Rightarrow>
            if pd_frames_after (ot_store t' p) \<ge> LOOKAHEAD_FRAMES \<and> pd_awaiting (ot_store t' p) = {}
            then (still, close_pending cfg p t') else (still @ [p], t'))"

definition retry_boundary_waiters :: "origin_config \<Rightarrow> flow_key \<Rightarrow> int \<Rightarrow> origin_tracker \<Rightarrow> origin_tracker" where
  "retry_boundary_waiters cfg flow stream_sequence t =
     (let t' = visit_pending (visit_waiter cfg flow stream_sequence) t
      in t'\<lparr>ot_pending := unfinalized t' (ot_pending t')\<rparr>)"

text \<open>The first record of a message is where its transaction prefix ends.\<close>

definition record_boundary :: "flow_key \<times> int \<Rightarrow> int \<Rightarrow> origin_tracker \<Rightarrow> int \<times> origin_tracker" where
  "record_boundary key prefix_end t =
     (case map_of (ot_boundaries t) key of
        None \<Rightarrow>
          let t1 = (case ot_boundary_order t of
                      expired # order \<Rightarrow>
                        if length (ot_boundary_order t) \<ge> RECORD_BOUNDARY_HISTORY_LIMIT
                        then t\<lparr>ot_boundary_order := order, ot_boundaries := AList.delete expired (ot_boundaries t)\<rparr> else t
                    | [] \<Rightarrow> t)
          in (prefix_end, t1\<lparr>ot_boundary_order := ot_boundary_order t1 @ [key],
                             ot_boundaries := AList.update key prefix_end (ot_boundaries t1)\<rparr>)
      | Some previous \<Rightarrow>
          (let earliest = (if prefix_end < previous then prefix_end else previous)
           in (earliest, t\<lparr>ot_boundaries := AList.update key earliest (ot_boundaries t)\<rparr>)))"

definition delta_message_from :: "bytes option \<Rightarrow> bdo_event \<Rightarrow> bytes option" where
  "delta_message_from raw_message event =
     (case (raw_message, ev_message_length event) of
        (Some candidate, Some n) \<Rightarrow>
          if int (length candidate) = n \<and> 5 \<le> length candidate \<and> from_le (py_slice candidate 0 2) = int (length candidate)
          then Some candidate else None
      | _ \<Rightarrow> None)"

definition first_boundary :: "bdo_event list \<Rightarrow> int option" where
  "first_boundary events =
     (case List.map_filter (\<lambda>event. case (ev_record_offset event, ev_message_length event) of
              (Some offset, Some n) \<Rightarrow> if 5 + 8 \<le> offset \<and> offset \<le> n then Some offset else None
            | _ \<Rightarrow> None) events of
        [] \<Rightarrow> None
      | boundaries \<Rightarrow> Some (list_min boundaries))"

text \<open>\<^verbatim>\<open>_PendingDeposit(...)\<close>, a new object.\<close>

definition new_deposit ::
    "bdo_event list \<Rightarrow> bytes option \<Rightarrow> flow_key \<Rightarrow> int option \<Rightarrow> int option \<Rightarrow> (int \<times> manual_match) list \<Rightarrow> pending_deposit" where
  "new_deposit events raw_message flow stream_sequence prefix_end manual_matches =
     (let event = hd events in
      \<lparr>pd_event = event, pd_flow = flow, pd_stream_sequence = stream_sequence, pd_timestamp = ev_timestamp event,
       pd_matching_decrement = (manual_matches \<noteq> []), pd_events = events,
       pd_matching_indexes = map fst manual_matches, pd_manual_matches = manual_matches, pd_frames_after = 0,
       pd_end_sequence = (case (stream_sequence, ev_message_length event) of
                            (Some q, Some n) \<Rightarrow> Some (q + n) | _ \<Rightarrow> None),
       pd_companion = None, pd_delta_message = delta_message_from raw_message event,
       pd_delta_prefix_end = prefix_end, pd_candidates = [], pd_awaiting = {}, pd_finalized = False\<rparr>)"

definition allocate_deposit :: "pending_deposit \<Rightarrow> origin_tracker \<Rightarrow> nat \<times> origin_tracker" where
  "allocate_deposit d t =
     (ot_allocated t, t\<lparr>ot_store := (ot_store t)(ot_allocated t := d), ot_allocated := ot_allocated t + 1\<rparr>)"

text \<open>The opcode and the end of the prefix of a group are learned before its evidence is looked for.\<close>

definition learn_boundary ::
    "origin_config \<Rightarrow> bdo_event list \<Rightarrow> flow_key \<Rightarrow> int option \<Rightarrow> origin_tracker \<Rightarrow> int option \<times> origin_tracker" where
  "learn_boundary cfg events flow stream_sequence t =
     (let t1 = (case ev_opcode (hd events) of
                  None \<Rightarrow> t | Some opcode \<Rightarrow> t\<lparr>ot_storage_opcodes := insert opcode (ot_storage_opcodes t)\<rparr>)
      in case (first_boundary events, stream_sequence) of
           (Some boundary, Some q) \<Rightarrow>
             (case record_boundary (flow, q) boundary t1 of
                (earliest, t') \<Rightarrow> (Some earliest, retry_boundary_waiters cfg flow q t'))
         | (boundary, _) \<Rightarrow> (boundary, t1))"

text \<open>The end of \<^verbatim>\<open>_register_group\<close>: the new operation is decided at once or waits.\<close>

definition start_operation :: "origin_config \<Rightarrow> nat \<Rightarrow> flow_key \<Rightarrow> origin_tracker \<Rightarrow> origin_tracker" where
  "start_operation cfg p flow t =
     (case resolve_companions cfg p t of
        (True, t1) \<Rightarrow> t1
      | (False, t1) \<Rightarrow>
          let after = int (length (filter (\<lambda>frame. frame_is_after frame (ot_store t1 p)) (dict_get (ot_recent t1) flow [])));
              t2 = update_deposit p (\<lambda>d. d\<lparr>pd_frames_after := pd_frames_after d + after\<rparr>) t1
          in if pd_frames_after (ot_store t2 p) \<ge> LOOKAHEAD_FRAMES \<and> pd_awaiting (ot_store t2 p) = {}
             then close_pending cfg p t2 else append_pending cfg p t2)"

definition register_group ::
    "origin_config \<Rightarrow> bdo_event list \<Rightarrow> bytes option \<Rightarrow> flow_key \<Rightarrow> int option \<Rightarrow> origin_tracker \<Rightarrow> origin_tracker" where
  "register_group cfg events raw_message flow stream_sequence t =
     (case learn_boundary cfg events flow stream_sequence t of
        (prefix_end, t1) \<Rightarrow>
          (case reserve_matching_decrement flow (ev_flow_generation (hd events)) stream_sequence events (ot_manual t1) of
             (manual_matches, ledger) \<Rightarrow>
               (case allocate_deposit (new_deposit events raw_message flow stream_sequence prefix_end manual_matches)
                       (t1\<lparr>ot_manual := ledger\<rparr>) of
                  (p, t2) \<Rightarrow> start_operation cfg p flow t2)))"

text \<open>The wrapper of a record that is one of several.\<close>

definition staged_index :: "bdo_event \<Rightarrow> (int \<times> int) option" where
  "staged_index event =
     (case (ev_record_index event, ev_record_count event) of
        (Some index, Some count) \<Rightarrow> if count \<le> 1 \<or> \<not> (1 \<le> index \<and> index \<le> count) then None else Some (index, count)
      | _ \<Rightarrow> None)"

definition staged_key_of :: "bdo_event \<Rightarrow> int option \<Rightarrow> staged_key" where
  "staged_key_of event stream_sequence =
     (ev_flow event, ev_flow_generation event, stream_sequence, ev_opcode event, ev_message_length event, ev_timestamp event)"

definition add_to_batch :: "int \<Rightarrow> int \<Rightarrow> bdo_event \<Rightarrow> bytes option \<Rightarrow> staged_batch option \<Rightarrow> staged_batch" where
  "add_to_batch index count event raw_message staged =
     (let batch = (case staged of
                     None \<Rightarrow> \<lparr>sb_expected_count = count, sb_entries = [], sb_invalid = False\<rparr>
                   | Some b \<Rightarrow> if sb_expected_count b \<noteq> count then b\<lparr>sb_invalid := True\<rparr> else b)
      in case map_of (sb_entries batch) index of
           Some previous \<Rightarrow> if previous \<noteq> (event, raw_message) then batch\<lparr>sb_invalid := True\<rparr> else batch
         | None \<Rightarrow> batch\<lparr>sb_entries := AList.update index (event, raw_message) (sb_entries batch)\<rparr>)"

text \<open>A complete batch: one decision for all its records, or each as it came.\<close>

definition close_batch :: "origin_config \<Rightarrow> staged_batch \<Rightarrow> flow_key \<Rightarrow> int option \<Rightarrow> origin_tracker \<Rightarrow> origin_tracker" where
  "close_batch cfg batch flow stream_sequence t =
     (let ordered = map (\<lambda>i. the (map_of (sb_entries batch) i)) (sort (map fst (sb_entries batch)));
          types = remdups (map (\<lambda>entry. ev_type (fst entry)) ordered);
          messages = remdups (List.map_filter snd ordered)
      in if sb_invalid batch \<or> set (map fst (sb_entries batch)) \<noteq> {1 .. sb_expected_count batch}
         then emit_neutral_entries batch t
         else if length types \<noteq> 1 then emit_neutral_entries batch t
         else if length messages > 1 then emit_neutral_entries batch t
         else register_group cfg (map fst ordered) (case messages of [] \<Rightarrow> None | m # _ \<Rightarrow> Some m) flow stream_sequence t)"

definition stage_batch ::
    "origin_config \<Rightarrow> int \<times> int \<Rightarrow> bdo_event \<Rightarrow> bytes option \<Rightarrow> int option \<Rightarrow> origin_tracker \<Rightarrow> origin_tracker" where
  "stage_batch cfg position event raw_message stream_sequence t =
     (let key = staged_key_of event stream_sequence;
          batch = add_to_batch (fst position) (snd position) event raw_message (map_of (ot_staged t) key)
      in if int (length (sb_entries batch)) < sb_expected_count batch
         then t\<lparr>ot_staged := AList.update key batch (ot_staged t)\<rparr>
         else close_batch cfg batch (ev_flow event) stream_sequence
                (t\<lparr>ot_staged := AList.delete key (ot_staged t)\<rparr>))"

definition event_sequence :: "bdo_event \<Rightarrow> int option" where
  "event_sequence event = (case map_of (ev_extra event) ''stream_sequence'' of Some (JInt q) \<Rightarrow> Some q
     | Some (JBool b) \<Rightarrow> Some (if b then 1 else 0) | _ \<Rightarrow> None)"

definition register_locked :: "origin_config \<Rightarrow> bdo_event \<Rightarrow> bytes option \<Rightarrow> origin_tracker \<Rightarrow> origin_tracker" where
  "register_locked cfg event raw_message t =
     (let flow = ev_flow event;
          stream_sequence = event_sequence event;
          t1 = t\<lparr>ot_manual := snd (activate_generation flow (ev_flow_generation event) (ot_manual t))\<rparr>
      in case staged_index event of
           Some position \<Rightarrow> stage_batch cfg position event raw_message stream_sequence t1
         | None \<Rightarrow> register_group cfg [event] raw_message flow stream_sequence t1)"

section \<open>Flushing\<close>

definition stale_batch :: "pyfloat \<Rightarrow> staged_batch \<Rightarrow> bool" where
  "stale_batch now batch \<longleftrightarrow>
     (case map (\<lambda>(_, event, _). ev_timestamp event) (sb_entries batch) of
        [] \<Rightarrow> False
      | ts # tss \<Rightarrow> STALE_SECONDS < now - py_min ts tss)"

definition release_staged :: "(staged_key \<times> staged_batch \<Rightarrow> bool) \<Rightarrow> origin_tracker \<Rightarrow> origin_tracker" where
  "release_staged stale t =
     fold (\<lambda>(key, batch) t. emit_neutral_entries batch (t\<lparr>ot_staged := AList.delete key (ot_staged t)\<rparr>))
       (filter stale (ot_staged t)) t"

definition visit_stale ::
    "origin_config \<Rightarrow> pyfloat \<Rightarrow> nat \<Rightarrow> nat list \<times> origin_tracker \<Rightarrow> nat list \<times> origin_tracker" where
  "visit_stale cfg now p s =
     (case s of (still, t) \<Rightarrow>
        if STALE_SECONDS < now - pd_timestamp (ot_store t p) then (still, close_pending cfg p t) else (still @ [p], t))"

definition flush_stale_origin_locked :: "origin_config \<Rightarrow> pyfloat \<Rightarrow> origin_tracker \<Rightarrow> origin_tracker" where
  "flush_stale_origin_locked cfg now t =
     (let t1 = t\<lparr>ot_manual := prune_manual_candidates now (ot_manual t)\<rparr>
      in visit_pending (visit_stale cfg now) (release_staged (\<lambda>(_, batch). stale_batch now batch) t1))"

definition purge_flow_history :: "flow_key \<Rightarrow> origin_tracker \<Rightarrow> origin_tracker" where
  "purge_flow_history flow t =
     t\<lparr>ot_discovery := new_discovery_cache,
       ot_recent := AList.delete flow (ot_recent t),
       ot_spans := AList.delete flow (ot_spans t),
       ot_manual := purge_manual_flow flow (ot_manual t),
       ot_family_chain_order := filter (\<lambda>(_, chain). fst chain \<noteq> flow) (ot_family_chain_order t),
       ot_family_chains := filter (\<lambda>(_, seen). seen \<noteq> {})
         (map (\<lambda>(fam, seen). (fam, Set.filter (\<lambda>chain. fst chain \<noteq> flow) seen)) (ot_family_chains t)),
       ot_observed_order := filter (\<lambda>key. fst key \<noteq> flow) (ot_observed_order t),
       ot_observed := Set.filter (\<lambda>key. fst key \<noteq> flow) (ot_observed t),
       ot_contested_order := filter (\<lambda>key. fst key \<noteq> flow) (ot_contested_order t),
       ot_contested := Set.filter (\<lambda>key. fst key \<noteq> flow) (ot_contested t),
       ot_overflow := ot_overflow t - {flow},
       ot_boundary_order := filter (\<lambda>key. fst key \<noteq> flow) (ot_boundary_order t),
       ot_boundaries := filter (\<lambda>(key, _). fst key \<noteq> flow) (ot_boundaries t)\<rparr>"

definition close_origin_flow_locked :: "origin_config \<Rightarrow> flow_key \<Rightarrow> origin_tracker \<Rightarrow> origin_tracker" where
  "close_origin_flow_locked cfg flow t =
     (let t1 = release_staged (\<lambda>(key, _). fst key = flow) t;
          t2 = fold (\<lambda>p t. if pd_flow (ot_store t p) = flow \<and> \<not> pd_finalized (ot_store t p) then close_pending cfg p t else t)
                 (ot_pending t1) t1;
          t3 = t2\<lparr>ot_pending := filter (\<lambda>p. pd_flow (ot_store t2 p) \<noteq> flow \<and> \<not> pd_finalized (ot_store t2 p)) (ot_pending t2)\<rparr>
      in purge_flow_history flow t3)"

definition reset_origin_flow :: "flow_key \<Rightarrow> int \<Rightarrow> int \<Rightarrow> origin_tracker \<Rightarrow> origin_tracker" where
  "reset_origin_flow flow generation resume_sequence t =
     t\<lparr>ot_manual := manual_reset flow generation resume_sequence (ot_manual t)\<rparr>"

definition finalize_all_origin_locked :: "origin_config \<Rightarrow> origin_tracker \<Rightarrow> origin_tracker" where
  "finalize_all_origin_locked cfg t =
     (let t1 = fold (\<lambda>(_, batch). emit_neutral_entries batch) (ot_staged t) (t\<lparr>ot_staged := []\<rparr>);
          t2 = fold (close_pending cfg) (ot_pending t1) (t1\<lparr>ot_pending := []\<rparr>)
      in t2\<lparr>ot_discovery := new_discovery_cache, ot_recent := [], ot_spans := [], ot_manual := clear_ledger (ot_manual t2),
            ot_family_chains := [], ot_family_chain_order := [], ot_observed := {}, ot_observed_order := [],
            ot_contested := {}, ot_contested_order := [], ot_overflow := {}, ot_boundaries := [], ot_boundary_order := []\<rparr>)"

section \<open>Sections and delivery\<close>

datatype origin_op =
    Origin_Stream bytes packet_context
  | Origin_Frame bdo_frame
  | Origin_Register bdo_event "bytes option"
  | Origin_Stale pyfloat
  | Origin_Close flow_key
  | Origin_Reset flow_key int int
  | Origin_Finalize

fun origin_section :: "origin_config \<Rightarrow> origin_op \<Rightarrow> origin_tracker \<Rightarrow> origin_tracker" where
  "origin_section cfg (Origin_Stream data ctx) t = observe_stream_locked cfg data ctx t"
| "origin_section cfg (Origin_Frame frame) t = observe_frame_locked cfg frame t"
| "origin_section cfg (Origin_Register event raw_message) t = register_locked cfg event raw_message t"
| "origin_section cfg (Origin_Stale now) t = flush_stale_origin_locked cfg now t"
| "origin_section cfg (Origin_Close flow) t = close_origin_flow_locked cfg flow t"
| "origin_section cfg (Origin_Reset flow generation resume) t = reset_origin_flow flow generation resume t"
| "origin_section cfg Origin_Finalize t = finalize_all_origin_locked cfg t"

text \<open>The delivery loop for callbacks that do not come back to the tracker; it stops when one raises.\<close>

fun drain_origin :: "(outbox_item \<Rightarrow> 'w \<Rightarrow> bool \<times> 'w) \<Rightarrow> outbox_item list \<Rightarrow> 'w \<Rightarrow> bool \<times> outbox_item list \<times> 'w" where
  "drain_origin deliver [] w = (False, [], w)"
| "drain_origin deliver (item # outbox) w =
     (case deliver item w of
        (True, w') \<Rightarrow> (True, outbox, w')
      | (False, w') \<Rightarrow> drain_origin deliver outbox w')"

text \<open>Every method but \<^verbatim>\<open>reset_flow\<close> ends with a delivery loop.\<close>

definition drains_outbox :: "origin_op \<Rightarrow> bool" where
  "drains_outbox op \<longleftrightarrow> (case op of Origin_Reset _ _ _ \<Rightarrow> False | _ \<Rightarrow> True)"

definition origin_call ::
    "origin_config \<Rightarrow> (outbox_item \<Rightarrow> 'w \<Rightarrow> bool \<times> 'w) \<Rightarrow> origin_op \<Rightarrow> origin_tracker \<times> 'w \<Rightarrow> bool \<times> origin_tracker \<times> 'w" where
  "origin_call cfg deliver op s =
     (let t = origin_section cfg op (fst s) in
      if ot_dispatching t \<or> \<not> drains_outbox op then (False, t, snd s)
      else case drain_origin deliver (ot_outbox t) (snd s) of
             (raised, outbox, w) \<Rightarrow> (raised, t\<lparr>ot_outbox := outbox, ot_dispatching := False\<rparr>, w))"

text \<open>
  Interleavings of several threads: a section, the start of a delivery loop (refused while
  another runs), one delivery, and the end of the loop, reached with an empty outbox or by an
  exception. The last components are the operations received and the items delivered so far.
\<close>

inductive origin_step ::
    "origin_config \<Rightarrow> origin_tracker \<times> origin_op list \<times> outbox_item list \<Rightarrow>
     origin_tracker \<times> origin_op list \<times> outbox_item list \<Rightarrow> bool" for cfg where
  origin_section_step: "origin_step cfg (t, ops, out) (origin_section cfg op t, ops @ [op], out)"
| origin_start_step: "\<not> ot_dispatching t \<Longrightarrow> origin_step cfg (t, ops, out) (t\<lparr>ot_dispatching := True\<rparr>, ops, out)"
| origin_deliver_step: "ot_dispatching t \<Longrightarrow> ot_outbox t = item # outbox \<Longrightarrow>
     origin_step cfg (t, ops, out) (t\<lparr>ot_outbox := outbox\<rparr>, ops, out @ [item])"
| origin_stop_step: "ot_dispatching t \<Longrightarrow> origin_step cfg (t, ops, out) (t\<lparr>ot_dispatching := False\<rparr>, ops, out)"

inductive_cases origin_stepE: "origin_step cfg s s'"

end
