(* ===== verification/Origin_Decisions.thy ===== *)
theory Origin_Decisions
  imports Origin_Operations
begin

text \<open>
  What every decision of the origin tracker keeps. The decisions call each other: the scan
  behind one operation can confirm a family, which decides other operations. They touch the
  state only through the few updates below, so an invariant of those updates is an invariant of
  them all: the locale \<open>origin_decisions\<close> states this once, for whatever a client proves of
  the tracker.

  Besides the invariant \<open>I\<close> a client says what it knows of the messages that were read
  (\<open>Seen\<close>), of the storage message of an operation (\<open>D\<close>) and of an observation
  made from them (\<open>G\<close>); \<open>ids\<close> are the operations, \<open>F\<close> and \<open>E\<close> their
  flow and the end of their message.
\<close>

lemma select_undecided:
  "select_confirmed p t = (False, t') \<Longrightarrow>
    t' = t \<or> t' = update_deposit p (\<lambda>d. d\<lparr>pd_candidates := [], pd_companion := None\<rparr>) t"
  by (auto simp: select_confirmed_def Let_def split: if_splits)

lemma suppress_order [simp]: "ot_contested_order (suppress_flow_candidates flow t) = ot_contested_order t"
proof -
  have "ot_contested_order (fold (\<lambda>p t. if pd_flow (ot_store t p) \<noteq> flow \<or> pd_finalized (ot_store t p) then t
      else update_deposit p (\<lambda>d. d\<lparr>pd_candidates := [], pd_companion := None\<rparr>) t) ps t') = ot_contested_order t'" for ps t'
    by (induction ps arbitrary: t') (simp_all add: update_deposit_def)
  then show ?thesis
    by (simp add: suppress_flow_candidates_def)
qed

lemma source_holds: "find_source flow position t = Some piece \<Longrightarrow> holds_position position piece"
  by (auto simp: find_source_def find_Some_iff split: option.splits)

lemma source_chunk:
  assumes "find_source flow position t = Some (start, piece)" and "0 < n"
  shows "0 \<le> position - start" and "position - start < int (length piece)"
    and "int (length (py_slice piece (position - start) (position - start + n))) \<le> n"
  using source_holds [OF assms(1)] length_py_slice_width [of "position - start" n piece] assms(2)
  by (simp_all add: holds_position_def)

lemma read_loop_length:
  "0 \<le> n \<Longrightarrow> read_loop flow t position n acc = Some message \<Longrightarrow> int (length message) = int (length acc) + n"
proof (induction "nat n" arbitrary: position n acc rule: less_induct)
  case less
  show ?case
  proof (cases "n = 0")
    case True
    then show ?thesis
      using less.prems(2) by (simp add: read_loop.simps)
  next
    case False
    then obtain start piece where source: "find_source flow position t = Some (start, piece)"
      using less.prems by (auto simp: read_loop.simps [of flow t position] split: option.splits prod.splits)
    let ?chunk = "py_slice piece (position - start) (position - start + n)"
    have chunk: "?chunk \<noteq> []" and rest: "read_loop flow t (position + int (length ?chunk)) (n - int (length ?chunk))
        (acc @ ?chunk) = Some message"
      using less.prems False source by (auto simp: read_loop.simps [of flow t position] Let_def split: if_splits)
    have "int (length ?chunk) \<le> n"
      using source_chunk(3) [OF source] False less.prems(1) by simp
    moreover have "0 < length ?chunk"
      using chunk by simp
    ultimately show ?thesis
      using less.hyps [OF _ _ rest] False less.prems(1) by simp
  qed
qed

lemma read_span_length: "read_span flow position n t = Some message \<Longrightarrow> int (length message) = n"
  using read_loop_length [of n flow t position "[]" message] by (simp add: read_span_def split: if_splits)

locale origin_decisions =
  fixes cfg :: origin_config and I :: "origin_tracker \<Rightarrow> bool" and ids :: "nat set"
    and G :: "nat \<Rightarrow> companion_observation \<Rightarrow> bool" and D :: "nat \<Rightarrow> bytes \<Rightarrow> bool"
    and Seen :: "flow_key \<Rightarrow> int \<Rightarrow> bytes \<Rightarrow> bool" and F :: "nat \<Rightarrow> flow_key" and E :: "nat \<Rightarrow> int option"
  assumes pending_ids: "I t \<Longrightarrow> set (ot_pending t) \<subseteq> ids"
    and static: "I t \<Longrightarrow> p \<in> ids \<Longrightarrow> pd_flow (ot_store t p) = F p \<and> pd_end_sequence (ot_store t p) = E p"
    and read: "I t \<Longrightarrow> read_span flow position n t = Some message \<Longrightarrow> Seen flow position message"
    and delta: "I t \<Longrightarrow> p \<in> ids \<Longrightarrow> delta_message_of p t = Some message \<Longrightarrow> D p message"
    and discovered: "I t \<Longrightarrow> I (snd (discover_for cfg p d f s e t))"
    and genuine: "I t \<Longrightarrow> p \<in> ids \<Longrightarrow> D p d \<Longrightarrow> E p = Some b \<Longrightarrow> Seen (F p) i f \<Longrightarrow> Seen (F p) j s \<Longrightarrow> b \<le> i \<Longrightarrow>
          i + int (length f) \<le> j \<Longrightarrow> fst (discover_for cfg p d f s e t) = Some o' \<Longrightarrow> G p o'"
    and candidate: "I t \<Longrightarrow> p \<in> ids \<Longrightarrow> G p o' \<Longrightarrow>
          map_of (pd_candidates (ot_store t p)) (observation_family o') = None \<Longrightarrow>
          I (update_deposit p (\<lambda>d. d\<lparr>pd_candidates := pd_candidates d @ [(observation_family o', o')]\<rparr>) t)"
    and awaiting: "I t \<Longrightarrow> p \<in> ids \<Longrightarrow> I (update_deposit p (\<lambda>d. d\<lparr>pd_awaiting := w\<rparr>) t)"
    and counted: "I t \<Longrightarrow> p \<in> ids \<Longrightarrow> I (update_deposit p (\<lambda>d. d\<lparr>pd_frames_after := pd_frames_after d + k\<rparr>) t)"
    and dropped: "I t \<Longrightarrow> p \<in> ids \<Longrightarrow> I (update_deposit p (\<lambda>d. d\<lparr>pd_candidates := [], pd_companion := None\<rparr>) t)"
    and decided: "I t \<Longrightarrow> p \<in> ids \<Longrightarrow> I (finalize_deposit cfg p (snd (select_confirmed p t)))"
    and finalized: "I t \<Longrightarrow> p \<in> ids \<Longrightarrow> I (finalize_deposit cfg p t)"
    and family: "I t \<Longrightarrow> fam \<notin> ot_confirmed t \<Longrightarrow> I (mark_family_confirmed fam reason t)"
    and chain: "I t \<Longrightarrow> I (extend_family_chain fam c t)"
    and notified: "I t \<Longrightarrow> I (notify_origin_observer cfg o' t)"
    and overflow: "I t \<Longrightarrow> I (t\<lparr>ot_overflow := insert flow (ot_overflow t)\<rparr>)"
    and uncontested: "I t \<Longrightarrow> ot_contested_order t = pair # order \<Longrightarrow>
          I (t\<lparr>ot_contested_order := order, ot_contested := ot_contested t - {pair}\<rparr>)"
    and contested: "I t \<Longrightarrow> I u \<Longrightarrow>
          ot_contested_order u = (if length (ot_contested_order t) \<ge> COMPANION_PAIR_HISTORY_LIMIT
            then tl (ot_contested_order t) else ot_contested_order t) \<Longrightarrow>
          I (u\<lparr>ot_contested := insert pair (ot_contested u), ot_contested_order := ot_contested_order u @ [pair]\<rparr>)"
begin

lemma fold_kept: "I t \<Longrightarrow> (\<And>p t. p \<in> set ps \<Longrightarrow> I t \<Longrightarrow> I (f p t)) \<Longrightarrow> I (fold f ps t)"
  by (rule fold_invariant [where P = I and Q = "\<lambda>p. p \<in> set ps"])

lemma pending_in: "I t \<Longrightarrow> p \<in> set (ot_pending t) \<Longrightarrow> p \<in> ids"
  using pending_ids by blast

lemma undecided: "I t \<Longrightarrow> p \<in> ids \<Longrightarrow> select_confirmed p t = (False, t') \<Longrightarrow> I t'"
  using select_undecided [of p t t'] dropped by blast

lemma decide: "I t \<Longrightarrow> p \<in> ids \<Longrightarrow> select_confirmed p t = (b, t') \<Longrightarrow> I (finalize_deposit cfg p t')"
  using decided [of t p] by simp

section \<open>Contested pairs\<close>

lemma suppress: "I t \<Longrightarrow> I (suppress_flow_candidates flow t)"
  unfolding suppress_flow_candidates_def
  by (rule fold_kept) (auto intro: overflow dropped pending_in)

lemma mark_contested: "I t \<Longrightarrow> I (mark_pair_contested pair t)"
proof -
  assume t: "I t"
  define u where "u = expire_contested_pair t"
  have "I u"
    unfolding u_def expire_contested_pair_def using t by (simp add: suppress uncontested split: list.split)
  moreover have "ot_contested_order u = (if length (ot_contested_order t) \<ge> COMPANION_PAIR_HISTORY_LIMIT
      then tl (ot_contested_order t) else ot_contested_order t)"
    by (simp add: u_def expire_contested_pair_def COMPANION_PAIR_HISTORY_LIMIT_def split: list.split)
  ultimately show ?thesis
    using t contested [of t u pair] by (simp add: mark_pair_contested_def Let_def u_def)
qed

section \<open>Families\<close>

lemma confirm: "I t \<Longrightarrow> I (confirm_family cfg fam reason t)"
proof (cases "fam \<in> ot_confirmed t")
  case True
  assume "I t"
  then show ?thesis
    using True by (simp add: confirm_family_def)
next
  case False
  assume "I t"
  then have marked: "I (mark_family_confirmed fam reason t)"
    using False by (rule family)
  have "I (resolve_confirmed cfg fam p t')" if "p \<in> ids" "I t'" for p t'
    using that undecided decide by (auto simp: resolve_confirmed_def Let_def split: prod.split bool.split)
  then show ?thesis
    using False pending_ids [OF marked] by (auto simp: confirm_family_def Let_def intro!: fold_kept marked)
qed

lemma record_observation: "I t \<Longrightarrow> I (record_family_observation cfg o' t)"
  by (simp add: record_family_observation_def Let_def notified chain confirm)

lemma closed_pending:
  assumes t: "I t" and p: "p \<in> ids"
  shows "I (close_pending cfg p t)"
proof -
  obtain b t1 where select: "select_confirmed p t = (b, t1)"
    by (meson surj_pair)
  show ?thesis
  proof (cases b)
    case True
    then show ?thesis
      using t decide [OF t p select] by (simp add: close_pending_def select)
  next
    case False
    then have t1: "I t1"
      using undecided [OF t p] select by simp
    show ?thesis
    proof (cases "pd_candidates (ot_store t1 p)")
      case Nil
      then show ?thesis
        using False t finalized [OF t1 p] by (simp add: close_pending_def select)
    next
      case (Cons c cs)
      let ?t2 = "confirm_family cfg (fst c) ''unambiguous-bounded-window'' t1"
      have "I ?t2"
        using t1 by (rule confirm)
      then show ?thesis
        using False t finalized [OF t1 p] finalized [OF \<open>I ?t2\<close> p] decided [OF \<open>I ?t2\<close> p] Cons
        by (cases c; cases cs) (simp_all add: close_pending_def select Let_def)
    qed
  qed
qed

section \<open>The scan\<close>

lemma claims_kept: "claims_pair cfg p d f s e t = (b, t') \<Longrightarrow> I t \<Longrightarrow> I t'"
  using discovered [of t p d f s "min e (int (length d))"] by (auto simp: claims_pair_def split: if_splits prod.splits)

lemma crossed_kept: "crossed_claims cfg p f s crossed t = (b, t') \<Longrightarrow> I t \<Longrightarrow> I t'"
proof (induction crossed arbitrary: t)
  case (Cons c crossed)
  obtain q d e where c: "c = (q, d, e)"
    by (metis prod_cases3)
  obtain claimed t1 where claim: "claims_pair cfg p d f s e t = (claimed, t1)"
    by (meson surj_pair)
  then have "I t1"
    using Cons.prems(2) by (rule claims_kept)
  then show ?case
    using Cons.prems(1) Cons.IH c claim by (cases claimed) auto
qed simp

lemma pending_kept: "pending_claims cfg p f s others t = (b, t') \<Longrightarrow> I t \<Longrightarrow> I t'"
proof (induction others arbitrary: t)
  case (Cons other others)
  show ?case
  proof (cases "\<exists>d e. delta_message_of other t = Some d \<and> pd_delta_prefix_end (ot_store t other) = Some e \<and>
      \<not> (other = p \<or> pd_finalized (ot_store t other) \<or> pd_flow (ot_store t other) \<noteq> pd_flow (ot_store t p) \<or>
         same_wrapper (ot_store t other) (ot_store t p))")
    case True
    then obtain d e where de: "delta_message_of other t = Some d" "pd_delta_prefix_end (ot_store t other) = Some e"
        "\<not> (other = p \<or> pd_finalized (ot_store t other) \<or> pd_flow (ot_store t other) \<noteq> pd_flow (ot_store t p) \<or>
         same_wrapper (ot_store t other) (ot_store t p))"
      by blast
    obtain c t1 where claim: "claims_pair cfg other d f s (min e (int (length d))) t = (c, t1)"
      by (meson surj_pair)
    then have "I t1"
      using Cons.prems(2) by (rule claims_kept)
    then show ?thesis
      using Cons.prems(1) Cons.IH de claim by (cases c) (auto simp: Let_def)
  next
    case False
    then have "pending_claims cfg p f s others t = (b, t')"
      using Cons.prems(1) by (auto simp: Let_def split: if_splits option.splits)
    then show ?thesis
      using Cons.IH Cons.prems(2) by blast
  qed
qed simp

lemma owner_kept: "unique_owner cfg p o' crossed f s pair t = (b, t') \<Longrightarrow> I t \<Longrightarrow> I t'"
proof -
  assume owner: "unique_owner cfg p o' crossed f s pair t = (b, t')" and "I t"
  obtain c t1 where crossed: "crossed_claims cfg p f s crossed t = (c, t1)"
    by (meson surj_pair)
  obtain c' t2 where pending: "pending_claims cfg p f s (ot_pending t1) t1 = (c', t2)"
    by (meson surj_pair)
  have "I t1"
    using crossed \<open>I t\<close> by (rule crossed_kept)
  have "I t2"
    using pending \<open>I t1\<close> by (rule pending_kept)
  show ?thesis
    using owner \<open>I t\<close> \<open>I t1\<close> \<open>I t2\<close> crossed pending mark_contested [OF \<open>I t1\<close>, of pair] mark_contested [OF \<open>I t2\<close>, of pair]
    by (cases c; cases c') (auto simp: unique_owner_def Let_def split: if_splits option.splits)
qed

text \<open>What a scan has read: messages behind the operation, in the order of the stream.\<close>

definition passed :: "nat \<Rightarrow> int \<Rightarrow> (int \<times> bytes) list \<Rightarrow> bool" where
  "passed p position messages \<longleftrightarrow>
     (\<exists>b. E p = Some b \<and> b \<le> position \<and>
        (\<forall>i f. (i, f) \<in> set messages \<longrightarrow> Seen (F p) i f \<and> b \<le> i \<and> i + int (length f) \<le> position))"

definition scanned :: "nat \<Rightarrow> companion_scan \<times> origin_tracker \<Rightarrow> bool" where
  "scanned p s \<longleftrightarrow> I (snd s) \<and> (\<forall>fam o'. (fam, o') \<in> set (cs_observations (fst s)) \<longrightarrow> fam = observation_family o' \<and> G p o')"

lemma passedD: "passed p position messages \<Longrightarrow> (i, f) \<in> set messages \<Longrightarrow>
    \<exists>b. E p = Some b \<and> Seen (F p) i f \<and> b \<le> i \<and> i + int (length f) \<le> position"
  by (auto simp: passed_def)

lemma passed_later: "passed p position messages \<Longrightarrow> position \<le> later \<Longrightarrow> passed p later messages"
  by (fastforce simp: passed_def)

lemma passed_snoc:
  "passed p position messages \<Longrightarrow> Seen (F p) position f \<Longrightarrow> passed p (position + int (length f)) (messages @ [(position, f)])"
  by (fastforce simp: passed_def)

lemma scan_pair_kept:
  assumes s: "scanned p s" and p: "p \<in> ids" and d: "D p d" and passed: "passed p position messages"
    and earlier: "snd earlier \<in> set messages" and seen: "Seen (F p) position message"
  shows "scanned p (scan_pair cfg p d e crossed k position message earlier s)"
proof -
  obtain i j f scan t where es: "earlier = (i, j, f)" "s = (scan, t)"
    by (metis prod_cases3 surj_pair)
  obtain found t1 where found: "discover_for cfg p d f message e t = (found, t1)"
    by (meson surj_pair)
  have "I t"
    using s es by (simp add: scanned_def)
  then have "I t1"
    using discovered [of t p d f message e] found by simp
  show ?thesis
  proof (cases found)
    case None
    then show ?thesis
      using s es found \<open>I t1\<close> by (simp add: scan_pair_def scanned_def)
  next
    case (Some o')
    obtain b where b: "E p = Some b" "Seen (F p) j f" "b \<le> j" "j + int (length f) \<le> position"
      using passedD [OF passed, of j f] earlier es by auto
    have "fst (discover_for cfg p d f message e t) = Some o'"
      using found Some by simp
    then have g: "G p o'"
      by (rule genuine [OF \<open>I t\<close> p d b(1,2) seen b(3,4)])
    let ?flow = "pd_flow (ot_store t1 p)"
    obtain own t2 where own: "unique_owner cfg p o' (bounded_storage_messages ?flow crossed t1) f message (?flow, j, position) t1 = (own, t2)"
      by (meson surj_pair)
    have "I t2"
      using own \<open>I t1\<close> by (rule owner_kept)
    then show ?thesis
      using s es found Some \<open>I t1\<close> own g
      by (cases own) (auto simp: scan_pair_def scanned_def Let_def)
  qed
qed

lemma scan_messages_kept:
  "scanned p (scan, t) \<Longrightarrow> p \<in> ids \<Longrightarrow> D p d \<Longrightarrow> passed p position following \<Longrightarrow>
    scanned p (scan_messages cfg p d e indexes position following crossed scan t)"
proof (induction indexes arbitrary: position following crossed scan t)
  case Nil
  then show ?case
    by (simp add: scanned_def)
next
  case (Cons k indexes)
  have t: "I t"
    using Cons.prems(1) by (simp add: scanned_def)
  have flow: "pd_flow (ot_store t p) = F p"
    using static [OF t Cons.prems(2)] by simp
  show ?case
  proof (cases "read_span (F p) position 5 t")
    case None
    then show ?thesis
      using Cons.prems(1) by (simp add: flow scanned_def)
  next
    case header: (Some header)
    define n where "n = from_le (py_slice header 0 2)"
    show ?thesis
    proof (cases "5 \<le> n \<and> n \<le> MAX_TARGET_MESSAGE_LENGTH")
      case False
      then show ?thesis
        using Cons.prems(1) header by (auto simp: flow scanned_def Let_def n_def)
    next
      case n: True
      show ?thesis
      proof (cases "read_span (F p) position n t")
        case None
        then show ?thesis
          using Cons.prems(1) header n by (simp add: flow scanned_def Let_def n_def)
      next
        case message: (Some message)
        have seen: "Seen (F p) position message"
          using t message by (rule read)
        have n_message: "int (length message) = n"
          using read_span_length [OF message] .
        have later: "passed p (position + n) following"
          using Cons.prems(4) n by (auto intro: passed_later)
        show ?thesis
        proof (cases "message_opcode message \<in> ot_storage_opcodes t")
          case True
          have "scanned p (scan_messages cfg p d e indexes (position + n) following (crossed @ [(position, message)]) scan t)"
            by (rule Cons.IH) (use Cons.prems later in auto)
          then show ?thesis
            using header n message True by (simp add: flow Let_def n_def)
        next
          case False
          let ?s = "fold (scan_pair cfg p d e crossed k position message) (enumerate 0 following) (scan, t)"
          have pairs: "scanned p ?s"
          proof (rule fold_invariant [where Q = "\<lambda>earlier. snd earlier \<in> set following"])
            show "snd earlier \<in> set following" if "earlier \<in> set (enumerate 0 following)" for earlier
              using that by (metis in_set_zip enumerate_eq_zip nth_mem)
          qed (use Cons.prems seen in \<open>auto intro: scan_pair_kept\<close>)
          obtain scan' t' where s: "?s = (scan', t')"
            by (meson surj_pair)
          have "scanned p (scan_messages cfg p d e indexes (position + n) (following @ [(position, message)]) crossed scan' t')"
            by (rule Cons.IH) (use Cons.prems pairs s passed_snoc [OF Cons.prems(4) seen] n_message in auto)
          then show ?thesis
            using header n message False s by (simp add: flow Let_def n_def)
        qed
      qed
    qed
  qed
qed

lemma scan_after_kept:
  assumes scan: "scan_companions_after cfg p t = (found, t')" and t: "I t" and p: "p \<in> ids"
  shows "I t'" and "found = Some scan' \<Longrightarrow> scanned p (scan', t')"
proof -
  have "I t' \<and> (\<forall>scan'. found = Some scan' \<longrightarrow> scanned p (scan', t'))"
  proof (cases found)
    case None
    then have "t' = t"
      using scan by (auto simp: scan_companions_after_def Let_def split: option.splits prod.splits)
    then show ?thesis
      using t None by simp
  next
    case (Some scan')
    then obtain position e d where parts: "pd_end_sequence (ot_store t p) = Some position"
        "delta_message_of p t = Some d"
        "scan_messages cfg p d e [0 ..< nat LOOKAHEAD_FRAMES] position [] [] no_companions t = (scan', t')"
      using scan by (auto simp: scan_companions_after_def Let_def split: option.splits prod.splits)
    have "D p d"
      using t p parts(2) by (rule delta)
    moreover have "E p = Some position"
      using static [OF t p] parts(1) by simp
    then have "passed p position []"
      by (auto simp: passed_def)
    moreover have "scanned p (no_companions, t)"
      using t by (simp add: scanned_def no_companions_def)
    ultimately have "scanned p (scan', t')"
      using scan_messages_kept [of p no_companions t d position "[]" e "[0 ..< nat LOOKAHEAD_FRAMES]" "[]"] p parts(3) by simp
    then show ?thesis
      using Some by (auto simp: scanned_def)
  qed
  then show "I t'" and "found = Some scan' \<Longrightarrow> scanned p (scan', t')"
    by auto
qed

section \<open>Resolving\<close>

lemma note_kept: "I t \<Longrightarrow> p \<in> ids \<Longrightarrow> G p o' \<Longrightarrow> I (note_observation cfg p o' t)"
  unfolding note_observation_def
  by (rule record_observation)
    (cases "map_of (pd_candidates (ot_store t p)) (observation_family o') = None",
      use candidate [of t p o'] in \<open>simp_all add: update_deposit_def\<close>)

lemma resolved: "I t \<Longrightarrow> p \<in> ids \<Longrightarrow> resolve_companions cfg p t = (b, t') \<Longrightarrow> I t'"
proof -
  assume t: "I t" and p: "p \<in> ids" and step: "resolve_companions cfg p t = (b, t')"
  obtain b1 t1 where s1: "select_confirmed p t = (b1, t1)"
    by (meson surj_pair)
  obtain found t2 where s2: "scan_companions_after cfg p t1 = (found, t2)"
    by (meson surj_pair)
  show ?thesis
  proof (cases "pd_finalized (ot_store t p) \<or> b1")
    case True
    then show ?thesis
      using step t decide [OF t p s1] by (cases b1) (auto simp: resolve_companions_def s1 split: if_splits)
  next
    case False
    then have t1: "I t1"
      using undecided [OF t p] s1 by simp
    have t2: "I t2"
      using s2 t1 p by (rule scan_after_kept(1))
    show ?thesis
    proof (cases found)
      case None
      then show ?thesis
        using step False t2 by (simp add: resolve_companions_def s1 s2)
    next
      case (Some scan)
      let ?t = "update_deposit p (\<lambda>d. d\<lparr>pd_awaiting := cs_awaiting scan\<rparr>) t2"
      define t3 where "t3 = fold (note_observation cfg p) (map snd (cs_observations scan)) ?t"
      have obs: "G p o'" if "o' \<in> set (map snd (cs_observations scan))" for o'
        using that scan_after_kept(2) [OF s2 t1 p Some] by (auto simp: scanned_def)
      have t3: "I t3"
        unfolding t3_def by (rule fold_kept) (use awaiting [OF t2 p] note_kept p obs in blast)+
      obtain b4 t4 where s4: "select_confirmed p t3 = (b4, t4)"
        by (meson surj_pair)
      have settle: "I (snd (settle_scan cfg scan p u))" if "I u" for u
        using that closed_pending [OF that p] by (simp add: settle_scan_def Let_def)
      have boot: "I (bootstrap_family cfg fam p u)" if "I u" for u fam
        using confirm [OF that, of fam "''adjacent-structural-chain''"] decided p by (simp add: bootstrap_family_def Let_def)
      have step': "(b, t') = (if pd_finalized (ot_store t3 p) then (True, t3) else if b4 then (True, finalize_deposit cfg p t4)
          else (case pd_candidates (ot_store t4 p) of
             [(fam, _)] \<Rightarrow> if fam \<in> cs_immediate scan then (True, bootstrap_family cfg fam p t4) else settle_scan cfg scan p t4
           | _ \<Rightarrow> settle_scan cfg scan p t4))"
        using step False Some s4 unfolding t3_def
        by (cases b4) (auto simp: resolve_companions_def s1 s2 Let_def cong: list.case_cong)
      show ?thesis
      proof (cases "pd_finalized (ot_store t3 p) \<or> b4")
        case True
        then show ?thesis
          using step' t3 decide [OF t3 p s4] by (auto split: if_splits)
      next
        case False
        then have t4: "I t4"
          using undecided [OF t3 p] s4 by simp
        show ?thesis
          using step' False settle [OF t4] boot [OF t4]
          by (auto split: list.splits if_splits simp: prod_eq_iff)
      qed
    qed
  qed
qed

section \<open>The loops over the operations\<close>

lemma evicted: "I t \<Longrightarrow> p \<in> ids \<Longrightarrow> I (evict_fail_closed cfg p t)"
proof -
  assume t: "I t" and p: "p \<in> ids"
  let ?drop = "update_deposit p (\<lambda>d. d\<lparr>pd_candidates := [], pd_companion := None\<rparr>) t"
  have "update_deposit p (\<lambda>d. d\<lparr>pd_candidates := [], pd_companion := None, pd_awaiting := {}\<rparr>) t =
      update_deposit p (\<lambda>d. d\<lparr>pd_awaiting := {}\<rparr>) ?drop"
    by (simp add: update_deposit_def)
  moreover have "I (finalize_deposit cfg p (update_deposit p (\<lambda>d. d\<lparr>pd_awaiting := {}\<rparr>) ?drop))"
    by (intro finalized awaiting dropped t p)
  ultimately show "I (evict_fail_closed cfg p t)"
    using t by (simp add: evict_fail_closed_def)
qed

lemma visit_span_kept: "I (snd s) \<Longrightarrow> p \<in> ids \<Longrightarrow> I (snd (visit_span cfg ctx e p s))"
proof -
  assume s: "I (snd s)" and p: "p \<in> ids"
  obtain b t' where "resolve_companions cfg p (snd s) = (b, t')"
    by (meson surj_pair)
  then show ?thesis
    using resolved [OF s p] closed_pending [OF s p] s by (cases s) (simp add: visit_span_def Let_def)
qed

lemma visit_frame_kept: "I (snd s) \<Longrightarrow> p \<in> ids \<Longrightarrow> I (snd (visit_frame cfg frame p s))"
proof -
  assume s: "I (snd s)" and p: "p \<in> ids"
  obtain b t' where step: "resolve_companions cfg p (snd s) = (b, t')"
    by (meson surj_pair)
  note t' = resolved [OF s p step]
  show ?thesis
    using closed_pending [OF s p] s step t' counted [OF t' p, of 1] closed_pending [OF counted [OF t' p, of 1] p]
    by (cases s; cases b) (simp_all add: visit_frame_def Let_def)
qed

lemma visit_waiter_kept: "I (snd s) \<Longrightarrow> p \<in> ids \<Longrightarrow> I (snd (visit_waiter cfg flow q p s))"
proof -
  assume s: "I (snd s)" and p: "p \<in> ids"
  obtain b t' where step: "resolve_companions cfg p (snd s) = (b, t')"
    by (meson surj_pair)
  note t' = resolved [OF s p step]
  show ?thesis
    using s step t' closed_pending [OF t' p] by (cases s; cases b) (simp_all add: visit_waiter_def Let_def)
qed

lemma visit_stale_kept: "I (snd s) \<Longrightarrow> p \<in> ids \<Longrightarrow> I (snd (visit_stale cfg now p s))"
  using closed_pending by (cases s) (simp add: visit_stale_def)

lemma visits_kept:
  assumes "I t" and "set ps \<subseteq> ids" and "\<And>p s. I (snd s) \<Longrightarrow> p \<in> ids \<Longrightarrow> I (snd (visit p s))"
  shows "I (snd (fold visit ps (still, t)))"
  by (rule fold_invariant [where P = "\<lambda>s. I (snd s)" and Q = "\<lambda>p. p \<in> ids"]) (use assms in auto)

lemma fold_evicted: "I t \<Longrightarrow> set ps \<subseteq> ids \<Longrightarrow> I (fold (evict_fail_closed cfg) ps t)"
  by (rule fold_kept) (auto intro: evicted)

lemma fold_closed: "I t \<Longrightarrow> set ps \<subseteq> ids \<Longrightarrow> I (fold (close_pending cfg) ps t)"
  by (rule fold_kept) (auto intro: closed_pending)

end

end
