(* ===== verification/Origin_Facts.thy ===== *)
theory Origin_Facts
  imports Origin_Decisions
begin

text \<open>
  What a decision of the origin tracker leaves alone, as the first instance of
  \<open>origin_decisions\<close>, and when an operation has been decided: the account of the
  events that the tracker holds rests on both.
\<close>

section \<open>The effect of a decision\<close>

lemma fold_queue_emit: "fold queue_emit es t = t\<lparr>ot_outbox := ot_outbox t @ map Emit es\<rparr>"
  by (induction es arbitrary: t) (simp_all add: queue_emit_def)

lemma fold_queue_map: "fold (\<lambda>e. queue_emit (f e)) es t = t\<lparr>ot_outbox := ot_outbox t @ map (\<lambda>e. Emit (f e)) es\<rparr>"
  by (induction es arbitrary: t) (simp_all add: queue_emit_def)

definition deposit_events :: "pending_deposit \<Rightarrow> bdo_event list" where
  "deposit_events d = (if pd_events d \<noteq> [] then pd_events d else [pd_event d])"

text \<open>The events of an operation as they leave.\<close>

definition released_events :: "origin_config \<Rightarrow> origin_tracker \<Rightarrow> pending_deposit \<Rightarrow> bdo_event list" where
  "released_events cfg t d =
     (if is_neutral d \<and> deposit_origin_of d = Origin_Unknown then deposit_events d
      else map (classified_event d (origin_evidence cfg t d)) (deposit_events d))"

lemma finalize_eq:
  "finalize_deposit cfg p t =
     (if pd_finalized (ot_store t p) then t
      else (update_deposit p (\<lambda>d. d\<lparr>pd_finalized := True\<rparr>) t)
             \<lparr>ot_outbox := ot_outbox t @ map Emit (released_events cfg t (ot_store t p))\<rparr>)"
proof -
  let ?t = "update_deposit p (\<lambda>d. d\<lparr>pd_finalized := True\<rparr>) t" and ?d = "ot_store t p"
  let ?d' = "?d\<lparr>pd_finalized := True\<rparr>"
  have d: "ot_store ?t p = ?d'"
    by (simp add: update_deposit_def)
  have "chain_evidence cfg ?t = chain_evidence cfg t"
    by (rule ext) (simp add: chain_evidence_def update_deposit_def)
  moreover have "deposit_origin_of ?d' = deposit_origin_of ?d" "is_neutral ?d' = is_neutral ?d"
    by (simp_all add: deposit_origin_of_def is_neutral_def)
  ultimately have "origin_evidence cfg ?t ?d' = origin_evidence cfg t ?d"
    and "classified_event ?d' ev e = classified_event ?d ev e" for ev e
    by (simp_all add: origin_evidence_def classified_event_def event_evidence_def Let_def cong: option.case_cong)
  then show ?thesis
    by (simp add: finalize_deposit_def Let_def d fold_queue_emit fold_queue_map released_events_def deposit_events_def
        is_neutral_def deposit_origin_of_def comp_def)
      (simp add: update_deposit_def)
qed

lemma finalized_at [simp]: "pd_finalized (ot_store (finalize_deposit cfg p t) p)"
  by (simp add: finalize_eq update_deposit_def)

lemma closed_finalized: "pd_finalized (ot_store (close_pending cfg p t) p)"
  by (auto simp: close_pending_def Let_def split: prod.split bool.split list.split)

lemma resolved_finalized: "resolve_companions cfg p t = (True, t') \<Longrightarrow> pd_finalized (ot_store t' p)"
  by (auto simp: resolve_companions_def bootstrap_family_def settle_scan_def Let_def
      split: if_splits prod.splits bool.splits option.splits list.splits)

section \<open>What stays\<close>

definition deposit_identity :: "pending_deposit \<Rightarrow> pending_deposit" where
  "deposit_identity d =
     d\<lparr>pd_frames_after := 0, pd_companion := None, pd_candidates := [], pd_awaiting := {}, pd_finalized := False\<rparr>"

definition unmoved :: "origin_tracker \<Rightarrow> origin_tracker \<Rightarrow> bool" where
  "unmoved t t' \<longleftrightarrow>
     (ot_pending t', ot_staged t', ot_allocated t', ot_manual t') = (ot_pending t, ot_staged t, ot_allocated t, ot_manual t) \<and>
     (ot_recent t', ot_spans t', ot_boundaries t', ot_boundary_order t') =
       (ot_recent t, ot_spans t, ot_boundaries t, ot_boundary_order t) \<and>
     (ot_storage_opcodes t', ot_dispatching t', ot_known t') = (ot_storage_opcodes t, ot_dispatching t, ot_known t) \<and>
     (\<forall>p. deposit_identity (ot_store t' p) = deposit_identity (ot_store t p) \<and>
        (pd_finalized (ot_store t p) \<longrightarrow> pd_finalized (ot_store t' p)))"

lemma unmoved_refl: "unmoved t t"
  by (simp add: unmoved_def)

lemma unmoved_trans: "unmoved t t' \<Longrightarrow> unmoved t' t'' \<Longrightarrow> unmoved t t''"
  by (simp add: unmoved_def)

lemma unmovedD:
  assumes "unmoved t t'"
  shows "ot_pending t' = ot_pending t" "ot_staged t' = ot_staged t" "ot_allocated t' = ot_allocated t"
    "ot_manual t' = ot_manual t" "ot_recent t' = ot_recent t" "ot_spans t' = ot_spans t"
    "ot_boundaries t' = ot_boundaries t" "ot_boundary_order t' = ot_boundary_order t"
    "ot_storage_opcodes t' = ot_storage_opcodes t" "ot_dispatching t' = ot_dispatching t" "ot_known t' = ot_known t"
    "deposit_identity (ot_store t' p) = deposit_identity (ot_store t p)"
    "pd_finalized (ot_store t p) \<Longrightarrow> pd_finalized (ot_store t' p)"
  using assms by (auto simp: unmoved_def)

lemma identityD:
  assumes "deposit_identity d' = deposit_identity d"
  shows "pd_event d' = pd_event d" "pd_flow d' = pd_flow d" "pd_stream_sequence d' = pd_stream_sequence d"
    "pd_timestamp d' = pd_timestamp d" "pd_events d' = pd_events d" "pd_end_sequence d' = pd_end_sequence d"
    "pd_delta_message d' = pd_delta_message d" "pd_delta_prefix_end d' = pd_delta_prefix_end d"
    "pd_manual_matches d' = pd_manual_matches d" "pd_matching_decrement d' = pd_matching_decrement d"
    "deposit_events d' = deposit_events d" "pending_operation_key d' = pending_operation_key d"
  using assms
  by (cases d; cases d'; simp add: deposit_identity_def deposit_events_def pending_operation_key_def)+

lemma unmoved_update:
  "(\<And>d. deposit_identity (f d) = deposit_identity d \<and> (pd_finalized d \<longrightarrow> pd_finalized (f d))) \<Longrightarrow>
    unmoved t (update_deposit p f t)"
  by (simp add: unmoved_def update_deposit_def)

lemma unmoved_select: "unmoved t (snd (select_confirmed p t))"
  by (auto simp: select_confirmed_def Let_def deposit_identity_def intro!: unmoved_update unmoved_refl)

lemma unmoved_outbox: "unmoved t (u\<lparr>ot_outbox := outbox\<rparr>) = unmoved t u"
  by (simp add: unmoved_def)

lemma unmoved_finalize: "unmoved t (finalize_deposit cfg p t)"
  by (auto simp: finalize_eq unmoved_refl unmoved_outbox deposit_identity_def intro!: unmoved_update)

lemma unmoved_family: "unmoved t (mark_family_confirmed fam reason t)"
  by (simp add: mark_family_confirmed_def remember_runtime_family_def Let_def unmoved_def split: list.split)

lemma unmoved_chain: "unmoved t (extend_family_chain fam c t)"
  by (simp add: extend_family_chain_def expire_family_chain_def Let_def unmoved_def split: list.split prod.split)

lemma unmoved_notify: "unmoved t (notify_origin_observer cfg o' t)"
  by (simp add: notify_origin_observer_def Let_def unmoved_def split: list.split)

lemma discover_for_eq:
  "snd (discover_for cfg p d f s e t) = t\<lparr>ot_discovery := ot_discovery (snd (discover_for cfg p d f s e t))\<rparr>"
  by (simp add: discover_for_def Let_def split: prod.split)

lemma unmoved_discover: "unmoved t (snd (discover_for cfg p d f s e t))"
  by (subst discover_for_eq) (simp add: unmoved_def)

lemma unmoved_deposit:
  "unmoved t (update_deposit p (\<lambda>d. d\<lparr>pd_candidates := cs d\<rparr>) t)"
  "unmoved t (update_deposit p (\<lambda>d. d\<lparr>pd_awaiting := w\<rparr>) t)"
  "unmoved t (update_deposit p (\<lambda>d. d\<lparr>pd_frames_after := k d\<rparr>) t)"
  "unmoved t (update_deposit p (\<lambda>d. d\<lparr>pd_candidates := [], pd_companion := None\<rparr>) t)"
  by (simp_all add: deposit_identity_def unmoved_update)

lemma unmoved_contests:
  "unmoved t (t\<lparr>ot_overflow := flows\<rparr>)"
  "unmoved t (t\<lparr>ot_contested_order := order, ot_contested := pairs\<rparr>)"
  "unmoved t (t\<lparr>ot_contested := pairs, ot_contested_order := order\<rparr>)"
  by (simp_all add: unmoved_def)

lemmas unmoved_steps = unmoved_finalize unmoved_family unmoved_chain unmoved_notify unmoved_discover
  unmoved_deposit unmoved_contests

interpretation staying: origin_decisions cfg "unmoved t0" UNIV "\<lambda>_ _. True" "\<lambda>_ _. True" "\<lambda>_ _ _. True"
  "\<lambda>p. pd_flow (ot_store t0 p)" "\<lambda>p. pd_end_sequence (ot_store t0 p)"
proof (rule origin_decisions.intro)
  fix t u :: origin_tracker and p :: nat
  assume t: "unmoved t0 t"
  show "pd_flow (ot_store t p) = pd_flow (ot_store t0 p) \<and> pd_end_sequence (ot_store t p) = pd_end_sequence (ot_store t0 p)"
    using identityD(2,6) [OF unmovedD(12) [OF t]] by simp
  show "unmoved t0 (finalize_deposit cfg p (snd (select_confirmed p t)))"
    using unmoved_trans [OF unmoved_trans [OF t unmoved_select] unmoved_finalize] .
qed (simp_all add: unmoved_trans [OF _ unmoved_steps(1)] unmoved_trans [OF _ unmoved_steps(2)]
    unmoved_trans [OF _ unmoved_steps(3)] unmoved_trans [OF _ unmoved_steps(4)] unmoved_trans [OF _ unmoved_steps(5)]
    unmoved_trans [OF _ unmoved_steps(6)] unmoved_trans [OF _ unmoved_steps(7)] unmoved_trans [OF _ unmoved_steps(8)]
    unmoved_trans [OF _ unmoved_steps(9)] unmoved_trans [OF _ unmoved_steps(10)] unmoved_trans [OF _ unmoved_steps(11)]
    unmoved_trans [OF _ unmoved_steps(12)])

lemma unmoved_close: "unmoved t (close_pending cfg p t)"
  by (rule staying.closed_pending [OF unmoved_refl]) simp

lemma unmoved_resolve: "resolve_companions cfg p t = (b, t') \<Longrightarrow> unmoved t t'"
  by (rule staying.resolved [OF unmoved_refl]) simp

lemma unmoved_evict: "unmoved t (evict_fail_closed cfg p t)"
  by (rule staying.evicted [OF unmoved_refl]) simp

lemma evicted_finalized: "pd_finalized (ot_store (evict_fail_closed cfg p t) p)"
  by (simp add: evict_fail_closed_def)

section \<open>The loops over the pending operations\<close>

text \<open>
  The interface of a loop that rebuilds \<^verbatim>\<open>self._pending\<close>: a turn keeps the operation in
  the new list or has decided it.
\<close>

locale pending_visit =
  fixes visit :: "nat \<Rightarrow> nat list \<times> origin_tracker \<Rightarrow> nat list \<times> origin_tracker"
  assumes turn: "unmoved (snd s) (snd (visit p s))"
    and outcome: "fst (visit p s) = fst s @ [p] \<or> fst (visit p s) = fst s \<and> pd_finalized (ot_store (snd (visit p s)) p)"
begin

lemma loop:
  "unmoved (snd s) (snd (fold visit ps s)) \<and>
    (\<exists>kept. fst (fold visit ps s) = fst s @ kept \<and> set kept \<subseteq> set ps \<and>
      (\<forall>p \<in> set ps. p \<in> set kept \<or> pd_finalized (ot_store (snd (fold visit ps s)) p)))"
proof (induction ps arbitrary: s)
  case (Cons p ps)
  let ?s = "visit p s" and ?r = "fold visit ps (visit p s)"
  from Cons [of ?s] obtain kept where kept: "unmoved (snd ?s) (snd ?r)" "fst ?r = fst ?s @ kept" "set kept \<subseteq> set ps"
      "\<forall>q \<in> set ps. q \<in> set kept \<or> pd_finalized (ot_store (snd ?r) q)"
    by blast
  have moved: "unmoved (snd s) (snd ?r)"
    using turn kept(1) by (rule unmoved_trans)
  show ?case
  proof (cases "fst ?s = fst s @ [p]")
    case True
    then show ?thesis
      using kept moved by (intro conjI exI [of _ "p # kept"]) auto
  next
    case False
    then have "fst ?s = fst s" "pd_finalized (ot_store (snd ?r) p)"
      using outcome [of p s] unmovedD(13) [OF kept(1), of p] by auto
    then show ?thesis
      using kept moved by (intro conjI exI [of _ kept]) auto
  qed
qed (simp add: unmoved_refl)

lemma visited:
  "unmoved t ((visit_pending visit t)\<lparr>ot_pending := ot_pending t\<rparr>)"
  "set (ot_pending (visit_pending visit t)) \<subseteq> set (ot_pending t)"
  "p \<in> set (ot_pending t) \<Longrightarrow>
    p \<in> set (ot_pending (visit_pending visit t)) \<or> pd_finalized (ot_store (visit_pending visit t) p)"
  using loop [of "([], t)" "ot_pending t"] by (auto simp: visit_pending_def unmoved_def split: prod.split)

end

lemma unmoved_count: "unmoved t t' \<Longrightarrow> unmoved t (update_deposit p (\<lambda>d. d\<lparr>pd_frames_after := pd_frames_after d + k\<rparr>) t')"
  by (rule unmoved_trans [OF _ unmoved_deposit(3)])

interpretation span_visit: pending_visit "visit_span cfg ctx e"
proof
  fix s :: "nat list \<times> origin_tracker" and p
  obtain b t' where step: "resolve_companions cfg p (snd s) = (b, t')"
    by (meson surj_pair)
  show "unmoved (snd s) (snd (visit_span cfg ctx e p s))"
    using unmoved_resolve [OF step] step by (cases s) (simp add: visit_span_def Let_def unmoved_refl unmoved_close)
  show "fst (visit_span cfg ctx e p s) = fst s @ [p] \<or>
      fst (visit_span cfg ctx e p s) = fst s \<and> pd_finalized (ot_store (snd (visit_span cfg ctx e p s)) p)"
    using step resolved_finalized [of cfg p "snd s" t'] by (cases s; cases b) (auto simp: visit_span_def Let_def closed_finalized)
qed

interpretation frame_visit: pending_visit "visit_frame cfg frame"
proof
  fix s :: "nat list \<times> origin_tracker" and p
  obtain b t' where step: "resolve_companions cfg p (snd s) = (b, t')"
    by (meson surj_pair)
  show "unmoved (snd s) (snd (visit_frame cfg frame p s))"
    using unmoved_resolve [OF step] step
    by (cases s; cases b) (auto simp: visit_frame_def Let_def unmoved_refl unmoved_close
        intro: unmoved_count unmoved_trans [OF unmoved_count unmoved_close])
  show "fst (visit_frame cfg frame p s) = fst s @ [p] \<or>
      fst (visit_frame cfg frame p s) = fst s \<and> pd_finalized (ot_store (snd (visit_frame cfg frame p s)) p)"
    using step resolved_finalized [of cfg p "snd s" t'] by (cases s; cases b) (auto simp: visit_frame_def Let_def closed_finalized)
qed

interpretation waiter_visit: pending_visit "visit_waiter cfg flow q"
proof
  fix s :: "nat list \<times> origin_tracker" and p
  obtain b t' where step: "resolve_companions cfg p (snd s) = (b, t')"
    by (meson surj_pair)
  show "unmoved (snd s) (snd (visit_waiter cfg flow q p s))"
    using unmoved_resolve [OF step] step unmoved_trans [OF unmoved_resolve [OF step] unmoved_close]
    by (cases s; cases b) (auto simp: visit_waiter_def Let_def unmoved_refl)
  show "fst (visit_waiter cfg flow q p s) = fst s @ [p] \<or>
      fst (visit_waiter cfg flow q p s) = fst s \<and> pd_finalized (ot_store (snd (visit_waiter cfg flow q p s)) p)"
    using step resolved_finalized [of cfg p "snd s" t'] by (cases s; cases b) (auto simp: visit_waiter_def Let_def closed_finalized)
qed

interpretation stale_visit: pending_visit "visit_stale cfg now"
proof
  fix s :: "nat list \<times> origin_tracker" and p
  show "unmoved (snd s) (snd (visit_stale cfg now p s))"
    by (cases s) (simp add: visit_stale_def unmoved_refl unmoved_close)
  show "fst (visit_stale cfg now p s) = fst s @ [p] \<or>
      fst (visit_stale cfg now p s) = fst s \<and> pd_finalized (ot_store (snd (visit_stale cfg now p s)) p)"
    by (cases s) (simp add: visit_stale_def closed_finalized)
qed

end
