(* ===== verification/Origin_Account.thy ===== *)
theory Origin_Account
  imports Origin_Facts "HOL-Library.Multiset"
begin

text \<open>
  The account of the storage events: the events in the outbox, those of operations that are not
  decided and those of incomplete batches, up to the label and the evidence a decision adds.
\<close>

section \<open>The account\<close>

text \<open>The event without its label and without the evidence of its origin.\<close>

definition core :: "bdo_event \<Rightarrow> bdo_event" where
  "core e = e\<lparr>ev_type := '''', ev_source := None,
              ev_extra := filter (\<lambda>(k, _). k \<notin> {''deposit_origin_evidence'', ''storage_operation_evidence''}) (ev_extra e)\<rparr>"

definition cores :: "bdo_event list \<Rightarrow> bdo_event multiset" where
  "cores es = mset (map core es)"

lemma cores_simps [simp]:
  "cores [] = {#}" "cores (e # es) = add_mset (core e) (cores es)" "cores (es @ fs) = cores es + cores fs"
  by (simp_all add: cores_def)

definition emitted :: "outbox_item list \<Rightarrow> bdo_event list" where
  "emitted items = List.map_filter (\<lambda>item. case item of Emit e \<Rightarrow> Some e | Observer _ \<Rightarrow> None) items"

lemma emitted_simps [simp]:
  "emitted [] = []" "emitted (Emit e # items) = e # emitted items" "emitted (Observer o' # items) = emitted items"
  by (simp_all add: emitted_def map_filter_simps)

lemma emitted_append [simp]: "emitted (items @ items') = emitted items @ emitted items'"
  by (induction items) (auto simp: emitted_def map_filter_simps split: option.split)

lemma emitted_map [simp]: "emitted (map (\<lambda>x. Emit (f x)) xs) = map f xs"
  by (induction xs) simp_all

lemma emitted_map_Emit [simp]: "emitted (map Emit es) = es"
  by (induction es) simp_all

definition batch_events :: "staged_batch \<Rightarrow> bdo_event list" where
  "batch_events b = map (\<lambda>(_, e, _). e) (sb_entries b)"

definition staged_events :: "origin_tracker \<Rightarrow> bdo_event list" where
  "staged_events t = concat (map (\<lambda>(_, b). batch_events b) (ot_staged t))"

definition undecided :: "origin_tracker \<Rightarrow> nat \<Rightarrow> bdo_event list" where
  "undecided t p = (if pd_finalized (ot_store t p) then [] else deposit_events (ot_store t p))"

definition account :: "origin_tracker \<Rightarrow> bdo_event multiset" where
  "account t = cores (emitted (ot_outbox t)) + (\<Sum>p < ot_allocated t. cores (undecided t p)) + cores (staged_events t)"

definition inside :: "origin_tracker \<Rightarrow> bool" where
  "inside t \<longleftrightarrow> (\<forall>p \<in> set (ot_pending t). p < ot_allocated t)"

text \<open>Every undecided operation, but those of a set, is in the list.\<close>

definition tracked_but :: "nat set \<Rightarrow> origin_tracker \<Rightarrow> bool" where
  "tracked_but X t \<longleftrightarrow> inside t \<and>
     (\<forall>p < ot_allocated t. p \<in> X \<or> pd_finalized (ot_store t p) \<or> p \<in> set (ot_pending t))"

lemma filter_update: "\<not> P k \<Longrightarrow> filter (\<lambda>(k, _). P k) (AList.update k v d) = filter (\<lambda>(k, _). P k) d"
  by (induction d) auto

lemma core_classified: "core (classified_event d evidence e) = core e"
  by (simp add: core_def classified_event_def Let_def
      filter_update [where P = "\<lambda>k. k \<noteq> ''deposit_origin_evidence'' \<and> k \<noteq> ''storage_operation_evidence''"])

lemma core_released: "cores (released_events cfg t d) = cores (deposit_events d)"
proof -
  have "map core (map (classified_event d evidence) es) = map core es" for evidence es
    by (simp add: core_classified)
  then show ?thesis
    by (simp add: cores_def released_events_def del: map_map mset_map)
qed

section \<open>Decisions keep the account\<close>

lemma account_cong:
  assumes "emitted (ot_outbox t') = emitted (ot_outbox t)" and "ot_allocated t' = ot_allocated t" and "ot_staged t' = ot_staged t"
    and "\<And>p. undecided t' p = undecided t p"
  shows "account t' = account t"
  using assms by (simp add: account_def staged_events_def)

lemma account_finalize:
  assumes "p < ot_allocated t"
  shows "account (finalize_deposit cfg p t) = account t"
proof (cases "pd_finalized (ot_store t p)")
  case True
  then show ?thesis
    by (simp add: finalize_eq)
next
  case False
  let ?u = "finalize_deposit cfg p t"
  have gone: "undecided ?u q = (if q = p then [] else undecided t q)" for q
    using False by (simp add: finalize_eq undecided_def update_deposit_def)
  have "(\<Sum>q < ot_allocated t. cores (undecided ?u q)) + cores (undecided t p) = (\<Sum>q < ot_allocated t. cores (undecided t q))"
    using assms by (simp add: gone sum.remove [of "{..<ot_allocated t}" p] add.commute)
  moreover have "cores (emitted (ot_outbox ?u)) = cores (emitted (ot_outbox t)) + cores (undecided t p)"
    using False by (simp add: finalize_eq core_released undecided_def)
  moreover have "ot_allocated ?u = ot_allocated t" "staged_events ?u = staged_events t"
    by (simp_all add: finalize_eq update_deposit_def staged_events_def)
  ultimately show ?thesis
    by (simp add: account_def ac_simps)
qed

lemma undecided_update:
  "(\<And>d. deposit_identity (f d) = deposit_identity d \<and> pd_finalized (f d) = pd_finalized d) \<Longrightarrow>
    undecided (update_deposit p f t) q = undecided t q"
  using identityD(11) [of "f (ot_store t p)" "ot_store t p"] by (simp add: undecided_def update_deposit_def)

lemma account_update:
  "(\<And>d. deposit_identity (f d) = deposit_identity d \<and> pd_finalized (f d) = pd_finalized d) \<Longrightarrow>
    account (update_deposit p f t) = account t"
proof (rule account_cong)
  assume kept: "\<And>d. deposit_identity (f d) = deposit_identity d \<and> pd_finalized (f d) = pd_finalized d"
  show "undecided (update_deposit p f t) q = undecided t q" for q
    using kept by (rule undecided_update)
qed (simp_all add: update_deposit_def)

lemma account_deposit:
  "account (update_deposit p (\<lambda>d. d\<lparr>pd_candidates := cs d\<rparr>) t) = account t"
  "account (update_deposit p (\<lambda>d. d\<lparr>pd_awaiting := w\<rparr>) t) = account t"
  "account (update_deposit p (\<lambda>d. d\<lparr>pd_frames_after := k d\<rparr>) t) = account t"
  "account (update_deposit p (\<lambda>d. d\<lparr>pd_candidates := [], pd_companion := None\<rparr>) t) = account t"
  "account (update_deposit p (\<lambda>d. d\<lparr>pd_companion := c d\<rparr>) t) = account t"
  by (simp_all add: account_update deposit_identity_def)

lemma account_select: "account (snd (select_confirmed p t)) = account t"
  by (simp add: select_confirmed_def Let_def account_deposit)

lemma account_family: "account (mark_family_confirmed fam reason t) = account t"
  by (rule account_cong)
    (simp_all add: mark_family_confirmed_def remember_runtime_family_def Let_def undecided_def split: list.split)

lemma account_chain: "account (extend_family_chain fam c t) = account t"
  by (rule account_cong)
    (simp_all add: extend_family_chain_def expire_family_chain_def Let_def undecided_def split: list.split prod.split)

lemma account_notify: "account (notify_origin_observer cfg o' t) = account t"
  by (rule account_cong) (simp_all add: notify_origin_observer_def Let_def undecided_def split: list.split)

lemma account_discover: "account (snd (discover_for cfg p d f s e t)) = account t"
  by (subst discover_for_eq) (rule account_cong, simp_all add: undecided_def)

lemma account_contests:
  "account (t\<lparr>ot_overflow := flows\<rparr>) = account t"
  "account (t\<lparr>ot_contested_order := order, ot_contested := pairs\<rparr>) = account t"
  "account (t\<lparr>ot_contested := pairs, ot_contested_order := order\<rparr>) = account t"
  "account (t\<lparr>ot_pending := still\<rparr>) = account t"
  "account (t\<lparr>ot_manual := ledger\<rparr>) = account t"
  "account (t\<lparr>ot_spans := spans\<rparr>) = account t"
  "account (t\<lparr>ot_recent := recent\<rparr>) = account t"
  "account (t\<lparr>ot_dispatching := dispatching\<rparr>) = account t"
  "account (t\<lparr>ot_storage_opcodes := opcodes\<rparr>) = account t"
  by (rule account_cong; simp add: undecided_def)+

lemmas account_steps = account_family account_chain account_notify account_discover account_deposit account_contests

definition kept_account :: "origin_tracker \<Rightarrow> origin_tracker \<Rightarrow> bool" where
  "kept_account t t' \<longleftrightarrow> inside t \<and> unmoved t t' \<and> account t' = account t"

interpretation accounting: origin_decisions cfg "kept_account t0" "{..<ot_allocated t0}" "\<lambda>_ _. True" "\<lambda>_ _. True" "\<lambda>_ _ _. True"
  "\<lambda>p. pd_flow (ot_store t0 p)" "\<lambda>p. pd_end_sequence (ot_store t0 p)"
proof (rule origin_decisions.intro)
  fix t u :: origin_tracker and p :: nat
  assume t: "kept_account t0 t"
  then have moved: "unmoved t0 t"
    by (simp add: kept_account_def)
  show "set (ot_pending t) \<subseteq> {..<ot_allocated t0}"
    using t unmovedD(1) [OF moved] by (auto simp: kept_account_def inside_def)
  show "pd_flow (ot_store t p) = pd_flow (ot_store t0 p) \<and> pd_end_sequence (ot_store t p) = pd_end_sequence (ot_store t0 p)"
    using identityD(2,6) [OF unmovedD(12) [OF moved]] by simp
  assume p: "p \<in> {..<ot_allocated t0}"
  show "kept_account t0 (finalize_deposit cfg p t)"
    using t p account_finalize [of p t cfg] unmovedD(3) [OF moved] unmoved_trans [OF moved unmoved_finalize]
    by (simp add: kept_account_def)
  show "kept_account t0 (finalize_deposit cfg p (snd (select_confirmed p t)))"
    using t p account_finalize [of p "snd (select_confirmed p t)" cfg] unmovedD(3) [OF moved] unmovedD(3) [OF unmoved_select]
      unmoved_trans [OF unmoved_trans [OF moved unmoved_select] unmoved_finalize]
    by (simp add: kept_account_def account_select)
qed (auto simp: kept_account_def account_steps intro: unmoved_trans unmoved_steps)

lemma kept_refl: "inside t \<Longrightarrow> kept_account t t"
  by (simp add: kept_account_def unmoved_refl)

section \<open>The list of pending operations\<close>

text \<open>The list shrinks by decided operations only.\<close>

definition narrowed :: "origin_tracker \<Rightarrow> origin_tracker \<Rightarrow> bool" where
  "narrowed t t' \<longleftrightarrow> unmoved t (t'\<lparr>ot_pending := ot_pending t\<rparr>) \<and> account t' = account t \<and>
     set (ot_pending t') \<subseteq> set (ot_pending t) \<and>
     (\<forall>p \<in> set (ot_pending t). p \<in> set (ot_pending t') \<or> pd_finalized (ot_store t' p))"

lemma narrowed_refl: "narrowed t t"
  by (simp add: narrowed_def unmoved_refl)

lemma narrowed_trans: "narrowed t t' \<Longrightarrow> narrowed t' t'' \<Longrightarrow> narrowed t t''"
  unfolding narrowed_def unmoved_def by auto

lemma unmoved_narrowed: "unmoved t t' \<Longrightarrow> account t' = account t \<Longrightarrow> narrowed t t'"
  by (auto simp: narrowed_def unmoved_def)

lemma narrowed_allocated: "narrowed t t' \<Longrightarrow> ot_allocated t' = ot_allocated t"
  by (simp add: narrowed_def unmoved_def)

lemma narrowed_inside: "narrowed t t' \<Longrightarrow> inside t \<Longrightarrow> inside t'"
  by (auto simp: narrowed_def unmoved_def inside_def)

lemma narrowed_tracked: "narrowed t t' \<Longrightarrow> tracked_but X t \<Longrightarrow> tracked_but X t'"
  using narrowed_inside [of t t'] unfolding narrowed_def unmoved_def tracked_but_def by (auto simp: subset_iff)

lemma narrowed_close: "inside t \<Longrightarrow> p < ot_allocated t \<Longrightarrow> narrowed t (close_pending cfg p t)"
  using accounting.closed_pending [OF kept_refl, of t p cfg] by (simp add: kept_account_def unmoved_narrowed)

lemma narrowed_resolve: "inside t \<Longrightarrow> p < ot_allocated t \<Longrightarrow> resolve_companions cfg p t = (b, t') \<Longrightarrow> narrowed t t'"
  using accounting.resolved [OF kept_refl, of t p cfg b t'] by (simp add: kept_account_def unmoved_narrowed)

lemma narrowed_unfinalized: "narrowed t (t\<lparr>ot_pending := unfinalized t (ot_pending t)\<rparr>)"
  by (auto simp: narrowed_def unmoved_refl account_contests unfinalized_def)

lemma narrowed_visit:
  assumes visit: "pending_visit visit" and t: "inside t"
    and kept: "\<And>p s. kept_account t (snd s) \<Longrightarrow> p \<in> {..<ot_allocated t} \<Longrightarrow> kept_account t (snd (visit p s))"
  shows "narrowed t (visit_pending visit t)"
proof -
  have "kept_account t (snd (fold visit (ot_pending t) ([], t)))"
    by (rule accounting.visits_kept [OF kept_refl [OF t] _ kept]) (use t in \<open>auto simp: inside_def\<close>)
  then have "account (visit_pending visit t) = account t"
    by (cases "fold visit (ot_pending t) ([], t)") (simp add: visit_pending_def kept_account_def account_contests)
  then show ?thesis
    using pending_visit.visited [OF visit] by (simp add: narrowed_def)
qed

lemma narrowed_visits:
  assumes "inside t"
  shows "narrowed t (visit_pending (visit_span cfg ctx e) t)" "narrowed t (visit_pending (visit_frame cfg frame) t)"
    "narrowed t (visit_pending (visit_waiter cfg flow q) t)" "narrowed t (visit_pending (visit_stale cfg now) t)"
  by (rule narrowed_visit [OF _ assms],
    (rule span_visit.pending_visit_axioms frame_visit.pending_visit_axioms waiter_visit.pending_visit_axioms
      stale_visit.pending_visit_axioms),
    (rule accounting.visit_span_kept accounting.visit_frame_kept accounting.visit_waiter_kept accounting.visit_stale_kept;
      assumption))+

lemma fold_finalizes:
  assumes moved: "\<And>p t. unmoved t (f p t)" and fin: "\<And>p t. pd_finalized (ot_store (f p t) p)"
  shows "unmoved t (fold f ps t)" "p \<in> set ps \<Longrightarrow> pd_finalized (ot_store (fold f ps t) p)"
proof -
  have all: "unmoved t (fold f ps t)" for t ps
    by (induction ps arbitrary: t) (auto intro: unmoved_refl unmoved_trans [OF moved])
  then show "unmoved t (fold f ps t)" .
  show "p \<in> set ps \<Longrightarrow> pd_finalized (ot_store (fold f ps t) p)"
    by (induction ps arbitrary: t) (auto intro: unmovedD(13) [OF all] fin)
qed

lemma narrowed_evict_oldest:
  assumes t: "inside t"
  shows "narrowed t (evict_oldest_operation cfg flow t)"
proof -
  define oldest where "oldest = (if length (flow_operation_keys flow t) \<ge> MAX_PENDING_OPERATIONS_PER_FLOW
                    then hd (filter (\<lambda>p. pd_flow (ot_store t p) = flow) (ot_pending t)) else hd (ot_pending t))"
  define P where "P p \<longleftrightarrow> pending_operation_key (ot_store t p) = pending_operation_key (ot_store t oldest)" for p
  let ?u = "t\<lparr>ot_pending := filter (Not \<circ> P) (ot_pending t)\<rparr>"
  let ?v = "fold (evict_fail_closed cfg) (filter P (ot_pending t)) ?u"
  have result: "evict_oldest_operation cfg flow t = ?v\<lparr>ot_pending := unfinalized ?v (ot_pending ?v)\<rparr>"
    by (simp add: evict_oldest_operation_def Let_def oldest_def [symmetric] P_def [abs_def] comp_def)
  have inside: "inside ?u"
    using t by (auto simp: inside_def)
  have "kept_account ?u ?v"
    by (rule accounting.fold_evicted [OF kept_refl [OF inside]]) (use t in \<open>auto simp: inside_def\<close>)
  then have v: "unmoved ?u ?v" "account ?v = account t"
    by (simp_all add: kept_account_def account_contests)
  have gone: "pd_finalized (ot_store ?v p)" if "p \<in> set (ot_pending t)" "P p" for p
    by (rule fold_finalizes(2)) (use that in \<open>auto intro: unmoved_evict evicted_finalized\<close>)
  show ?thesis
    using v gone unfolding result narrowed_def unmoved_def by (auto simp: account_contests unfinalized_def)
qed

lemma narrowed_room: "inside t \<Longrightarrow> narrowed t (make_operation_room n cfg p t)"
proof (induction n arbitrary: t)
  case (Suc n)
  let ?u = "evict_oldest_operation cfg (pd_flow (ot_store t p)) t"
  have "narrowed t ?u"
    using Suc.prems by (rule narrowed_evict_oldest)
  then show ?case
    using Suc narrowed_inside narrowed_trans by (auto simp: Let_def narrowed_refl)
qed (simp add: narrowed_refl)

end
