(* ===== verification/Origin_Conservation.thy ===== *)
theory Origin_Conservation
  imports Origin_Account
begin

text \<open>
  Every section of the origin tracker against the account: registering an event adds it, unless
  it repeats a record of an incomplete batch; every other section keeps the account.
\<close>

section \<open>Batches\<close>

definition neutral_entries :: "staged_batch \<Rightarrow> bdo_event list" where
  "neutral_entries b = map (\<lambda>i. fst (the (map_of (sb_entries b) i))) (sort (map fst (sb_entries b)))"

lemma emit_neutral_eq: "emit_neutral_entries b t = t\<lparr>ot_outbox := ot_outbox t @ map Emit (neutral_entries b)\<rparr>"
  by (simp add: emit_neutral_entries_def neutral_entries_def fold_queue_map comp_def)

lemma cores_sorted:
  assumes "distinct (map fst d)"
  shows "cores (map (\<lambda>i. f (the (map_of d i))) (sort (map fst d))) = cores (map (\<lambda>(_, v). f v) d)"
proof -
  have "map (\<lambda>i. f (the (map_of d i))) (map fst d) = map (\<lambda>(_, v). f v) d"
    using assms by (auto simp: map_of_is_SomeI)
  moreover have "cores (map (\<lambda>i. f (the (map_of d i))) (sort (map fst d))) = cores (map (\<lambda>i. f (the (map_of d i))) (map fst d))"
    by (simp add: cores_def multiset.map_comp comp_assoc)
  ultimately show ?thesis
    by (simp only:)
qed

lemma cores_neutral: "distinct (map fst (sb_entries b)) \<Longrightarrow> cores (neutral_entries b) = cores (batch_events b)"
  using cores_sorted [of "sb_entries b" fst] by (simp add: neutral_entries_def batch_events_def case_prod_unfold)

definition entry_ok :: "staged_key \<Rightarrow> int \<times> bdo_event \<times> bytes option \<Rightarrow> bool" where
  "entry_ok key entry \<longleftrightarrow> (let e = fst (snd entry) in
     staged_key_of e (event_sequence e) = key \<and> ev_record_index e = Some (fst entry) \<and> staged_index e \<noteq> None)"

definition batch_ok :: "staged_key \<times> staged_batch \<Rightarrow> bool" where
  "batch_ok s \<longleftrightarrow> distinct (map fst (sb_entries (snd s))) \<and> list_all (entry_ok (fst s)) (sb_entries (snd s))"

definition staged_ok :: "origin_tracker \<Rightarrow> bool" where
  "staged_ok t \<longleftrightarrow> distinct (map fst (ot_staged t)) \<and> list_all batch_ok (ot_staged t)"

definition in_batches :: "(staged_key, staged_batch) dict \<Rightarrow> bdo_event list" where
  "in_batches d = concat (map (\<lambda>(_, b). batch_events b) d)"

lemma staged_events_eq: "staged_events t = in_batches (ot_staged t)"
  by (simp add: staged_events_def in_batches_def)

lemma in_batches_simps [simp]:
  "in_batches [] = []" "in_batches ((k, b) # d) = batch_events b @ in_batches d" "in_batches (d @ d') = in_batches d @ in_batches d'"
  by (simp_all add: in_batches_def)

definition batch_at :: "staged_key \<Rightarrow> (staged_key, staged_batch) dict \<Rightarrow> bdo_event list" where
  "batch_at key d = (case map_of d key of None \<Rightarrow> [] | Some b \<Rightarrow> batch_events b)"

lemma batches_delete:
  "distinct (map fst d) \<Longrightarrow> cores (in_batches (AList.delete k d)) + cores (batch_at k d) = cores (in_batches d)"
  by (induction d) (auto simp: batch_at_def AList.delete_notin_dom map_of_eq_None_iff split: option.split)

lemma batches_update:
  "distinct (map fst d) \<Longrightarrow> cores (in_batches (AList.update k b d)) + cores (batch_at k d) = cores (in_batches d) + cores (batch_events b)"
proof (induction d)
  case (Cons x d)
  obtain k' b' where x: "x = (k', b')"
    by (cases x)
  show ?case
  proof (cases "k' = k")
    case True
    then show ?thesis
      by (simp add: x batch_at_def ac_simps)
  next
    case False
    then have "batch_at k (x # d) = batch_at k d"
      by (simp add: x batch_at_def)
    then show ?thesis
      using Cons False by (simp add: x ac_simps)
  qed
qed (simp add: batch_at_def)

definition repeated_record :: "bdo_event \<Rightarrow> origin_tracker \<Rightarrow> bool" where
  "repeated_record event t \<longleftrightarrow>
     (\<exists>i b. staged_index event \<noteq> None \<and> ev_record_index event = Some i \<and>
        map_of (ot_staged t) (staged_key_of event (event_sequence event)) = Some b \<and> map_of (sb_entries b) i \<noteq> None)"

section \<open>Releasing batches\<close>

lemma delete_eq: "AList.delete k d = filter (\<lambda>x. fst x \<noteq> k) d"
  by (induction d) auto

lemma fold_release:
  "fold (\<lambda>(key, batch) t. emit_neutral_entries batch (t\<lparr>ot_staged := AList.delete key (ot_staged t)\<rparr>)) xs t =
     t\<lparr>ot_outbox := ot_outbox t @ map Emit (concat (map (\<lambda>x. neutral_entries (snd x)) xs)),
       ot_staged := filter (\<lambda>x. fst x \<notin> fst ` set xs) (ot_staged t)\<rparr>"
proof (induction xs arbitrary: t)
  case (Cons x xs)
  have "filter (\<lambda>y. fst y \<notin> fst ` set xs) (filter (\<lambda>y. fst y \<noteq> fst x) d) = filter (\<lambda>y. fst y \<notin> fst ` set (x # xs)) d"
    for d :: "(staged_key \<times> staged_batch) list"
    by (auto intro: filter_cong)
  then show ?case
    using Cons by (cases x) (simp add: emit_neutral_eq delete_eq)
qed simp

lemma distinct_filter_keys:
  assumes "distinct (map fst d)"
  shows "filter (\<lambda>x. fst x \<notin> fst ` set (filter P d)) d = filter (Not \<circ> P) d"
proof (rule filter_cong [OF refl])
  fix x assume "x \<in> set d"
  have "y = x" if "y \<in> set d" "fst y = fst x" for y
  proof -
    have "(fst x, snd y) \<in> set d" "(fst x, snd x) \<in> set d"
      using that \<open>x \<in> set d\<close> by (metis prod.collapse)+
    then show ?thesis
      using eq_key_imp_eq_value [OF assms] that(2) by (simp add: prod_eq_iff)
  qed
  then show "fst x \<notin> fst ` set (filter P d) \<longleftrightarrow> (Not \<circ> P) x"
    using \<open>x \<in> set d\<close> by force
qed

lemma release_staged_eq:
  assumes "distinct (map fst (ot_staged t))"
  shows "release_staged P t =
    t\<lparr>ot_outbox := ot_outbox t @ map Emit (concat (map (\<lambda>x. neutral_entries (snd x)) (filter P (ot_staged t)))),
      ot_staged := filter (Not \<circ> P) (ot_staged t)\<rparr>"
  unfolding release_staged_def fold_release distinct_filter_keys [OF assms] ..

lemma cores_released_batches:
  "list_all batch_ok d \<Longrightarrow> cores (concat (map (\<lambda>x. neutral_entries (snd x)) d)) = cores (in_batches d)"
  by (induction d) (auto simp: batch_ok_def cores_neutral)

lemma cores_partition: "cores (in_batches (filter P d)) + cores (in_batches (filter (Not \<circ> P) d)) = cores (in_batches d)"
  by (induction d) (auto simp: ac_simps)

lemma account_release:
  assumes "staged_ok t"
  shows "account (release_staged P t) = account t" and "staged_ok (release_staged P t)"
proof -
  have ok: "distinct (map fst (ot_staged t))" "list_all batch_ok (ot_staged t)"
    using assms by (simp_all add: staged_ok_def)
  have "list_all batch_ok (filter P (ot_staged t))"
    using ok(2) by (auto simp: list_all_iff)
  note released = cores_released_batches [OF this]
  have "cores (emitted (ot_outbox (release_staged P t))) + cores (staged_events (release_staged P t)) =
      cores (emitted (ot_outbox t)) + cores (staged_events t)"
    using cores_partition [of P "ot_staged t"]
    by (simp add: release_staged_eq [OF ok(1)] staged_events_eq released ac_simps)
  moreover have "ot_allocated (release_staged P t) = ot_allocated t" "undecided (release_staged P t) p = undecided t p" for p
    by (simp_all add: release_staged_eq [OF ok(1)] undecided_def)
  ultimately show "account (release_staged P t) = account t"
    by (simp add: account_def ac_simps)
  show "staged_ok (release_staged P t)"
    using ok by (auto simp: staged_ok_def release_staged_eq [OF ok(1)] list_all_iff distinct_map_filter)
qed

section \<open>Registering a group\<close>

definition books :: "nat set \<Rightarrow> nat \<Rightarrow> bdo_event multiset \<Rightarrow> (staged_key, staged_batch) dict \<Rightarrow> origin_tracker \<Rightarrow> bool" where
  "books X n M S t \<longleftrightarrow> tracked_but X t \<and> ot_allocated t = n \<and> account t = M \<and> ot_staged t = S"

lemma books_inside: "books X n M S t \<Longrightarrow> inside t"
  by (simp add: books_def tracked_but_def)

lemma books_narrowed: "books X n M S t \<Longrightarrow> narrowed t t' \<Longrightarrow> books X n M S t'"
  using narrowed_tracked [of t t' X] narrowed_allocated [of t t'] by (auto simp: books_def narrowed_def unmoved_def)

lemma books_fields:
  "books X n M S (t\<lparr>ot_manual := ledger\<rparr>) = books X n M S t"
  "books X n M S (t\<lparr>ot_spans := spans\<rparr>) = books X n M S t"
  "books X n M S (t\<lparr>ot_recent := recent\<rparr>) = books X n M S t"
  "books X n M S (t\<lparr>ot_dispatching := dispatching\<rparr>) = books X n M S t"
  "books X n M S (t\<lparr>ot_storage_opcodes := opcodes\<rparr>) = books X n M S t"
  by (simp_all add: books_def tracked_but_def inside_def account_contests)

lemma books_boundary: "books X n M S t \<Longrightarrow> record_boundary key e t = (e', t') \<Longrightarrow> books X n M S t'"
proof -
  assume t: "books X n M S t" and step: "record_boundary key e t = (e', t')"
  then have fields: "ot_pending t' = ot_pending t" "ot_allocated t' = ot_allocated t" "ot_store t' = ot_store t"
      "ot_outbox t' = ot_outbox t" "ot_staged t' = ot_staged t"
    by (auto simp: record_boundary_def Let_def split: option.splits list.splits if_splits)
  then have "account t' = account t"
    by (intro account_cong) (simp_all add: undecided_def)
  then show ?thesis
    using t fields by (auto simp: books_def tracked_but_def inside_def)
qed

lemma books_retry: "books X n M S t \<Longrightarrow> books X n M S (retry_boundary_waiters cfg flow q t)"
proof -
  assume t: "books X n M S t"
  let ?t = "visit_pending (visit_waiter cfg flow q) t"
  have "books X n M S ?t"
    by (rule books_narrowed [OF t narrowed_visits(3) [OF books_inside [OF t]]])
  then show ?thesis
    unfolding retry_boundary_waiters_def Let_def by (rule books_narrowed) (rule narrowed_unfinalized)
qed

lemma books_allocate:
  assumes "books {} n M S t" and "\<not> pd_finalized d" and "deposit_events d = es"
  shows "books {n} (Suc n) (M + cores es) S (snd (allocate_deposit d t))"
proof -
  let ?t = "snd (allocate_deposit d t)"
  have n: "ot_allocated t = n"
    using assms(1) by (simp add: books_def)
  have store: "ot_store ?t p = (if p = n then d else ot_store t p)" for p
    by (simp add: allocate_deposit_def n)
  have "undecided ?t p = undecided t p" if "p < n" for p
    using that by (simp add: undecided_def store)
  then have "(\<Sum>p < Suc n. cores (undecided ?t p)) = (\<Sum>p < n. cores (undecided t p)) + cores es"
    using assms(2,3) by (simp add: undecided_def store)
  then have "account ?t = account t + cores es"
    by (simp add: account_def allocate_deposit_def n staged_events_def ac_simps)
  then show ?thesis
    using assms(1) store by (auto simp: books_def tracked_but_def inside_def allocate_deposit_def less_Suc_eq)
qed

lemma books_finalized: "books {p} n M S t \<Longrightarrow> pd_finalized (ot_store t p) \<Longrightarrow> books {} n M S t"
  by (auto simp: books_def tracked_but_def)

lemma books_append:
  assumes "books {p} n M S t" and "p < n"
  shows "books {} n M S (append_pending cfg p t)"
proof -
  let ?t1 = "t\<lparr>ot_pending := unfinalized t (ot_pending t)\<rparr>"
  let ?t2 = "make_operation_room (Suc (length (ot_pending ?t1))) cfg p ?t1"
  have t1: "books {p} n M S ?t1"
    using assms(1) narrowed_unfinalized by (rule books_narrowed)
  have "books {p} n M S ?t2"
    using t1 narrowed_room [OF books_inside [OF t1]] by (rule books_narrowed)
  then have "books {} n M S (?t2\<lparr>ot_pending := ot_pending ?t2 @ [p]\<rparr>)"
    using assms(2) by (auto simp: books_def tracked_but_def inside_def account_contests)
  then show ?thesis
    by (simp only: append_pending_def Let_def)
qed

lemma books_count:
  "books X n M S t \<Longrightarrow> books X n M S (update_deposit p (\<lambda>d. d\<lparr>pd_frames_after := k d\<rparr>) t)"
  by (rule books_narrowed) (auto intro: unmoved_narrowed unmoved_deposit account_deposit)

lemma new_deposit_events:
  "es \<noteq> [] \<Longrightarrow> deposit_events (new_deposit es raw flow q e ms) = es"
  "\<not> pd_finalized (new_deposit es raw flow q e ms)"
  by (simp_all add: new_deposit_def deposit_events_def Let_def)

lemma books_learn: "books X n M S t \<Longrightarrow> learn_boundary cfg es flow q t = (e, t') \<Longrightarrow> books X n M S t'"
proof -
  assume t: "books X n M S t" and step: "learn_boundary cfg es flow q t = (e, t')"
  define t1 where "t1 = (case ev_opcode (hd es) of
      None \<Rightarrow> t | Some opcode \<Rightarrow> t\<lparr>ot_storage_opcodes := insert opcode (ot_storage_opcodes t)\<rparr>)"
  have "books X n M S t1"
    using t by (simp add: t1_def books_fields split: option.split)
  then show ?thesis
    using step books_boundary [of X n M S t1] books_retry
    unfolding learn_boundary_def Let_def t1_def [symmetric] by (auto split: option.splits prod.splits)
qed

lemma books_start:
  assumes t: "books {p} n M S t" and p: "p < n"
  shows "books {} n M S (start_operation cfg p flow t)"
proof -
  obtain b t1 where resolve: "resolve_companions cfg p t = (b, t1)"
    by (meson surj_pair)
  have "p < ot_allocated t"
    using t p by (simp add: books_def)
  then have t1: "books {p} n M S t1"
    by (rule books_narrowed [OF t narrowed_resolve [OF books_inside [OF t] _ resolve]])
  define after where "after = int (length (filter (\<lambda>frame. frame_is_after frame (ot_store t1 p)) (dict_get (ot_recent t1) flow [])))"
  let ?t2 = "update_deposit p (\<lambda>d. d\<lparr>pd_frames_after := pd_frames_after d + after\<rparr>) t1"
  have t2: "books {p} n M S ?t2"
    using t1 by (rule books_count)
  then have "books {p} n M S (close_pending cfg p ?t2)"
    by (rule books_narrowed) (rule narrowed_close [OF books_inside [OF t2]], use p t2 in \<open>simp add: books_def\<close>)
  then have closed: "books {} n M S (close_pending cfg p ?t2)"
    by (rule books_finalized) (rule closed_finalized)
  show ?thesis
    using books_finalized [OF t1] resolved_finalized resolve closed books_append [OF t2 p]
    by (cases b) (simp_all add: start_operation_def Let_def after_def [symmetric])
qed

lemma books_register_group:
  assumes t: "books {} n M S t" and es: "es \<noteq> []"
  shows "books {} (Suc n) (M + cores es) S (register_group cfg es raw flow q t)"
proof -
  obtain e t1 where learn: "learn_boundary cfg es flow q t = (e, t1)"
    by (meson surj_pair)
  obtain ms ledger where reserved: "reserve_matching_decrement flow (ev_flow_generation (hd es)) q es (ot_manual t1) = (ms, ledger)"
    by (meson surj_pair)
  let ?d = "new_deposit es raw flow q e ms"
  have t1: "books {} n M S t1"
    using t learn by (rule books_learn)
  have "books {n} (Suc n) (M + cores es) S (snd (allocate_deposit ?d (t1\<lparr>ot_manual := ledger\<rparr>)))"
    by (rule books_allocate) (use t1 es in \<open>simp_all add: books_fields new_deposit_events\<close>)
  then have "books {} (Suc n) (M + cores es) S (start_operation cfg n flow (snd (allocate_deposit ?d (t1\<lparr>ot_manual := ledger\<rparr>))))"
    by (rule books_start) simp
  moreover have "fst (allocate_deposit ?d (t1\<lparr>ot_manual := ledger\<rparr>)) = n"
    using t1 by (simp add: allocate_deposit_def books_def)
  ultimately show ?thesis
    by (simp add: register_group_def learn reserved case_prod_unfold)
qed

section \<open>Registering an event\<close>

lemma books_neutral:
  assumes "books X n M S t" and "distinct (map fst (sb_entries b))"
  shows "books X n (M + cores (batch_events b)) S (emit_neutral_entries b t)"
proof -
  have "undecided (emit_neutral_entries b t) p = undecided t p" for p
    by (simp add: undecided_def emit_neutral_eq)
  moreover have "ot_allocated (emit_neutral_entries b t) = ot_allocated t" "ot_staged (emit_neutral_entries b t) = ot_staged t"
    "emitted (ot_outbox (emit_neutral_entries b t)) = emitted (ot_outbox t) @ neutral_entries b"
    by (simp_all add: emit_neutral_eq)
  ultimately have "account (emit_neutral_entries b t) = account t + cores (batch_events b)"
    using assms(2) by (simp add: account_def cores_neutral staged_events_def ac_simps)
  then show ?thesis
    using assms(1) by (auto simp: books_def tracked_but_def inside_def emit_neutral_eq)
qed

lemma books_close_batch:
  assumes t: "books {} n M S t" and b: "distinct (map fst (sb_entries b))" and ne: "sb_entries b \<noteq> []"
  shows "\<exists>n'. books {} n' (M + cores (batch_events b)) S (close_batch cfg b flow q t)"
proof -
  define ordered where "ordered = map (\<lambda>i. the (map_of (sb_entries b) i)) (sort (map fst (sb_entries b)))"
  have events: "map fst ordered = neutral_entries b"
    by (simp add: ordered_def neutral_entries_def)
  moreover have "ordered \<noteq> []"
    using ne by (simp add: ordered_def) (metis length_0_conv length_sort map_is_Nil_conv)
  ultimately have "neutral_entries b \<noteq> []"
    by (metis map_is_Nil_conv)
  then have "books {} (Suc n) (M + cores (batch_events b)) S (register_group cfg (neutral_entries b) raw flow q t)" for raw
    using books_register_group [OF t, of "neutral_entries b"] cores_neutral [OF b] by simp
  then show ?thesis
    using books_neutral [OF t b] events unfolding close_batch_def Let_def ordered_def [symmetric] by auto
qed

lemma add_to_batch_entries:
  "sb_entries (add_to_batch i expected e raw staged) =
    (let entries = (case staged of None \<Rightarrow> [] | Some b \<Rightarrow> sb_entries b)
     in if map_of entries i = None then AList.update i (e, raw) entries else entries)"
  by (auto simp: add_to_batch_def Let_def split: option.splits)

lemma add_to_batch_ok:
  assumes staged: "\<And>b. staged = Some b \<Longrightarrow> batch_ok (key, b)" and e: "entry_ok key (i, e, raw)"
  shows "batch_ok (key, add_to_batch i expected e raw staged)"
    and "batch_events (add_to_batch i expected e raw staged) =
      (case staged of None \<Rightarrow> [] | Some b \<Rightarrow> batch_events b) @
      (if \<exists>b. staged = Some b \<and> map_of (sb_entries b) i \<noteq> None then [] else [e])"
    and "sb_entries (add_to_batch i expected e raw staged) \<noteq> []"
proof -
  define entries where "entries = (case staged of None \<Rightarrow> [] | Some b \<Rightarrow> sb_entries b)"
  have new: "sb_entries (add_to_batch i expected e raw staged) = (if map_of entries i = None then AList.update i (e, raw) entries else entries)"
    by (simp add: add_to_batch_entries Let_def entries_def)
  have fresh: "AList.update i (e, raw) entries = entries @ [(i, e, raw)]" if "map_of entries i = None"
    using that by (simp add: update_absent map_of_eq_None_iff)
  have ok: "distinct (map fst entries)" "list_all (entry_ok key) entries"
    using staged by (auto simp: entries_def batch_ok_def split: option.splits)
  then show "batch_ok (key, add_to_batch i expected e raw staged)"
    using e by (auto simp: batch_ok_def new fresh map_of_eq_None_iff)
  show "sb_entries (add_to_batch i expected e raw staged) \<noteq> []"
    by (auto simp: new fresh)
  have "(\<exists>b. staged = Some b \<and> map_of (sb_entries b) i \<noteq> None) \<longleftrightarrow> map_of entries i \<noteq> None"
    by (auto simp: entries_def split: option.splits)
  moreover have "(case staged of None \<Rightarrow> [] | Some b \<Rightarrow> batch_events b) = map (\<lambda>(_, e, _). e) entries"
    by (simp add: entries_def batch_events_def split: option.split)
  ultimately show "batch_events (add_to_batch i expected e raw staged) =
      (case staged of None \<Rightarrow> [] | Some b \<Rightarrow> batch_events b) @
      (if \<exists>b. staged = Some b \<and> map_of (sb_entries b) i \<noteq> None then [] else [e])"
    by (simp add: batch_events_def new fresh)
qed

definition ledgered :: "origin_tracker \<Rightarrow> bool" where
  "ledgered t \<longleftrightarrow> tracked_but {} t \<and> staged_ok t"

definition registered_cores :: "bdo_event \<Rightarrow> origin_tracker \<Rightarrow> bdo_event multiset" where
  "registered_cores event t = (if repeated_record event t then {#} else {#core event#})"

lemma books_staged:
  "tracked_but {} (t\<lparr>ot_staged := S\<rparr>) = tracked_but {} t"
  "account (t\<lparr>ot_staged := S\<rparr>) = cores (emitted (ot_outbox t)) + (\<Sum>p < ot_allocated t. cores (undecided t p)) + cores (in_batches S)"
proof -
  show "tracked_but {} (t\<lparr>ot_staged := S\<rparr>) = tracked_but {} t"
    by (simp add: tracked_but_def inside_def)
  have "undecided (t\<lparr>ot_staged := S\<rparr>) p = undecided t p" for p
    by (simp add: undecided_def)
  then show "account (t\<lparr>ot_staged := S\<rparr>) =
      cores (emitted (ot_outbox t)) + (\<Sum>p < ot_allocated t. cores (undecided t p)) + cores (in_batches S)"
    by (simp add: account_def staged_events_eq)
qed

lemma staged_ok_cong: "ot_staged t' = ot_staged t \<Longrightarrow> staged_ok t' = staged_ok t"
  by (simp add: staged_ok_def)

lemma stage_batch_ledgered:
  assumes t: "ledgered t" and index: "staged_index e = Some (i, expected)"
  shows "ledgered (stage_batch cfg (i, expected) e raw (event_sequence e) t)"
    and "account (stage_batch cfg (i, expected) e raw (event_sequence e) t) = account t + registered_cores e t"
proof -
  define key where "key = staged_key_of e (event_sequence e)"
  define batch where "batch = add_to_batch i expected e raw (map_of (ot_staged t) key)"
  have staged: "distinct (map fst (ot_staged t))" "list_all batch_ok (ot_staged t)"
    using t by (simp_all add: ledgered_def staged_ok_def)
  have i: "ev_record_index e = Some i"
    using index by (auto simp: staged_index_def split: option.splits if_splits)
  then have "entry_ok key (i, e, raw)"
    using index by (simp add: entry_ok_def key_def)
  moreover have "batch_ok (key, b)" if "map_of (ot_staged t) key = Some b" for b
    using map_of_SomeD [OF that] staged(2) by (auto simp: list_all_iff)
  ultimately have batch: "batch_ok (key, batch)" "sb_entries batch \<noteq> []"
      "batch_events batch = batch_at key (ot_staged t) @ (if repeated_record e t then [] else [e])"
    using add_to_batch_ok [of "map_of (ot_staged t) key" key i e raw expected] i index
    by (auto simp: batch_def batch_at_def repeated_record_def key_def)
  then have added: "cores (batch_events batch) = cores (batch_at key (ot_staged t)) + registered_cores e t"
    by (simp add: registered_cores_def)
  define others where "others = cores (emitted (ot_outbox t)) + (\<Sum>p < ot_allocated t. cores (undecided t p))"
  have account: "account t = others + cores (in_batches (ot_staged t))"
    by (simp add: account_def others_def staged_events_eq)
  have "ledgered (stage_batch cfg (i, expected) e raw (event_sequence e) t) \<and>
      account (stage_batch cfg (i, expected) e raw (event_sequence e) t) = account t + registered_cores e t"
  proof (cases "int (length (sb_entries batch)) < sb_expected_count batch")
    case True
    let ?t = "t\<lparr>ot_staged := AList.update key batch (ot_staged t)\<rparr>"
    have "cores (in_batches (AList.update key batch (ot_staged t))) + cores (batch_at key (ot_staged t)) =
        cores (in_batches (ot_staged t)) + registered_cores e t + cores (batch_at key (ot_staged t))"
      using batches_update [OF staged(1), of key batch] by (simp add: added ac_simps)
    then have "account ?t = account t + registered_cores e t"
      unfolding books_staged(2) account others_def [symmetric] by (simp add: add.assoc)
    moreover have "ledgered ?t"
      using t batch(1) set_update_subset [of key batch "ot_staged t"] staged
      by (auto simp: ledgered_def books_staged(1) staged_ok_def list_all_iff AList.distinct_update)
    ultimately show ?thesis
      using True by (simp add: stage_batch_def Let_def key_def [symmetric] batch_def [symmetric])
  next
    case False
    let ?S = "AList.delete key (ot_staged t)"
    let ?t = "t\<lparr>ot_staged := ?S\<rparr>"
    have "books {} (ot_allocated t) (account ?t) ?S ?t"
      using t books_staged(1) [of ?S t] by (simp add: books_def ledgered_def)
    moreover have "distinct (map fst (sb_entries batch))"
      using batch(1) by (simp add: batch_ok_def)
    ultimately obtain n' where closed: "books {} n' (account ?t + cores (batch_events batch)) ?S
        (close_batch cfg batch (ev_flow e) (event_sequence e) ?t)"
      using books_close_batch batch(2) by blast
    have "account ?t + cores (batch_events batch) = others + (cores (in_batches ?S) + cores (batch_at key (ot_staged t))) + registered_cores e t"
      by (simp add: books_staged(2) others_def [symmetric] added ac_simps)
    also have "\<dots> = account t + registered_cores e t"
      by (simp only: batches_delete [OF staged(1)] account)
    finally have "account ?t + cores (batch_events batch) = account t + registered_cores e t" .
    moreover have "distinct (map fst ?S)" "list_all batch_ok ?S"
      using staged by (auto simp: AList.distinct_delete list_all_iff set_delete)
    ultimately show ?thesis
      using closed False
      by (simp add: stage_batch_def Let_def key_def [symmetric] batch_def [symmetric] books_def ledgered_def staged_ok_def)
  qed
  then show "ledgered (stage_batch cfg (i, expected) e raw (event_sequence e) t)"
    and "account (stage_batch cfg (i, expected) e raw (event_sequence e) t) = account t + registered_cores e t"
    by simp_all
qed

section \<open>Sections\<close>

lemma ledgered_books: "ledgered t \<longleftrightarrow> (\<exists>n. books {} n (account t) (ot_staged t) t) \<and> staged_ok t"
  by (simp add: ledgered_def books_def)

lemma books_ledgered:
  assumes "books {} n M S t'" and "staged_ok t" and "S = ot_staged t"
  shows "ledgered t' \<and> account t' = M"
  using assms by (auto simp: ledgered_def books_def staged_ok_def)

lemma ledgered_narrowed: "ledgered t \<Longrightarrow> narrowed t t' \<Longrightarrow> ledgered t' \<and> account t' = account t"
  using narrowed_tracked [of t t' "{}"] by (auto simp: ledgered_def narrowed_def unmoved_def staged_ok_def)

lemma ledgered_inside: "ledgered t \<Longrightarrow> inside t"
  by (simp add: ledgered_def tracked_but_def)

lemma ledgered_fields:
  "ledgered (t\<lparr>ot_manual := ledger\<rparr>) = ledgered t"
  "ledgered (t\<lparr>ot_spans := spans\<rparr>) = ledgered t"
  "ledgered (t\<lparr>ot_recent := recent\<rparr>) = ledgered t"
  "ledgered (t\<lparr>ot_dispatching := dispatching\<rparr>) = ledgered t"
  by (simp_all add: ledgered_def tracked_but_def inside_def staged_ok_def)

lemma register_ledgered:
  assumes t: "ledgered t"
  shows "ledgered (register_locked cfg e raw t) \<and> account (register_locked cfg e raw t) = account t + registered_cores e t"
proof -
  let ?t = "t\<lparr>ot_manual := snd (activate_generation (ev_flow e) (ev_flow_generation e) (ot_manual t))\<rparr>"
  have t1: "ledgered ?t" "account ?t = account t" "registered_cores e ?t = registered_cores e t"
    using t by (simp_all add: ledgered_fields account_contests registered_cores_def repeated_record_def)
  show ?thesis
  proof (cases "staged_index e")
    case None
    then have "registered_cores e t = {#core e#}"
      by (simp add: registered_cores_def repeated_record_def)
    moreover have "books {} (ot_allocated ?t) (account ?t) (ot_staged ?t) ?t"
      using t1(1) by (simp add: ledgered_def books_def)
    from books_register_group [OF this, of "[e]" cfg raw "ev_flow e" "event_sequence e"] have
      "ledgered (register_group cfg [e] raw (ev_flow e) (event_sequence e) ?t) \<and>
        account (register_group cfg [e] raw (ev_flow e) (event_sequence e) ?t) = account ?t + {#core e#}"
      using t1(1) by (intro books_ledgered [of _ _ _ _ ?t]) (simp_all add: ledgered_def)
    ultimately show ?thesis
      using None t1(2) by (simp add: register_locked_def Let_def)
  next
    case (Some position)
    then show ?thesis
      using stage_batch_ledgered [OF t1(1), of e "fst position" "snd position" cfg raw] t1 by (simp add: register_locked_def Let_def)
  qed
qed

lemma stream_ledgered: "ledgered t \<Longrightarrow> ledgered (observe_stream_locked cfg data ctx t) \<and> account (observe_stream_locked cfg data ctx t) = account t"
proof -
  assume t: "ledgered t"
  have "ledgered (visit_pending (visit_span cfg ctx e) (t\<lparr>ot_spans := spans\<rparr>)) \<and>
      account (visit_pending (visit_span cfg ctx e) (t\<lparr>ot_spans := spans\<rparr>)) = account t" for e spans
    using t ledgered_narrowed [OF _ narrowed_visits(1), of "t\<lparr>ot_spans := spans\<rparr>" cfg ctx e] ledgered_inside
    by (simp add: ledgered_fields account_contests)
  then show ?thesis
    using t by (simp add: observe_stream_locked_def Let_def ledgered_fields account_contests split: option.split)
qed

lemma frame_ledgered: "ledgered t \<Longrightarrow> ledgered (observe_frame_locked cfg frame t) \<and> account (observe_frame_locked cfg frame t) = account t"
proof -
  assume t: "ledgered t"
  have fields: "ledgered (t\<lparr>ot_manual := ledger, ot_recent := recent\<rparr>)"
      "account (t\<lparr>ot_manual := ledger, ot_recent := recent\<rparr>) = account t" for ledger recent
    using t ledgered_fields account_contests by (metis (no_types, lifting))+
  have "ledgered (visit_pending (visit_frame cfg frame) (t\<lparr>ot_manual := ledger, ot_recent := recent\<rparr>)) \<and>
      account (visit_pending (visit_frame cfg frame) (t\<lparr>ot_manual := ledger, ot_recent := recent\<rparr>)) = account t" for ledger recent
    using fields [where ledger = ledger and recent = recent]
      ledgered_narrowed [OF _ narrowed_visits(2), of "t\<lparr>ot_manual := ledger, ot_recent := recent\<rparr>" cfg frame] ledgered_inside
    by simp
  then show ?thesis
    using fields by (simp add: observe_frame_locked_def Let_def)
qed

lemma stale_ledgered: "ledgered t \<Longrightarrow> ledgered (flush_stale_origin_locked cfg now t) \<and> account (flush_stale_origin_locked cfg now t) = account t"
proof -
  assume t: "ledgered t"
  let ?t = "t\<lparr>ot_manual := prune_manual_candidates now (ot_manual t)\<rparr>"
  let ?u = "release_staged (\<lambda>(_, batch). stale_batch now batch) ?t"
  have "staged_ok ?t" "distinct (map fst (ot_staged ?t))" "tracked_but {} t"
    using t by (simp_all add: ledgered_def staged_ok_def)
  then have u: "ledgered ?u" "account ?u = account t"
    using account_release [of ?t "\<lambda>(_, batch). stale_batch now batch"]
    by (simp_all add: ledgered_def account_contests tracked_but_def inside_def release_staged_eq)
  show ?thesis
    using ledgered_narrowed [OF u(1) narrowed_visits(4) [OF ledgered_inside [OF u(1)]]] u(2)
    by (simp add: flush_stale_origin_locked_def Let_def)
qed

lemma account_purge: "account (purge_flow_history flow t) = account t"
  by (rule account_cong) (simp_all add: purge_flow_history_def undecided_def)

text \<open>The loop of \<^verbatim>\<open>close_flow\<close>.\<close>

lemma close_flow_loop:
  fixes cfg flow
  defines "f \<equiv> \<lambda>p t. if pd_flow (ot_store t p) = flow \<and> \<not> pd_finalized (ot_store t p) then close_pending cfg p t else t"
  shows "unmoved t (fold f ps t)"
    and "inside t \<Longrightarrow> set ps \<subseteq> {..<ot_allocated t} \<Longrightarrow> account (fold f ps t) = account t"
    and "p \<in> set ps \<Longrightarrow> pd_flow (ot_store t p) = flow \<Longrightarrow> pd_finalized (ot_store (fold f ps t) p)"
proof -
  have step: "unmoved t (f p t)" for p t
    by (simp add: f_def unmoved_close unmoved_refl)
  have all: "unmoved t (fold f ps t)" for t ps
    by (induction ps arbitrary: t) (auto intro: unmoved_refl unmoved_trans [OF step])
  then show "unmoved t (fold f ps t)" .
  show "account (fold f ps t) = account t" if "inside t" and "set ps \<subseteq> {..<ot_allocated t}"
  proof -
    have "kept_account t (fold f ps t)"
      by (rule accounting.fold_kept [OF kept_refl [OF that(1)]]) (use that(2) accounting.closed_pending in \<open>auto simp: f_def\<close>)
    then show ?thesis
      by (simp add: kept_account_def)
  qed
  show "p \<in> set ps \<Longrightarrow> pd_flow (ot_store t p) = flow \<Longrightarrow> pd_finalized (ot_store (fold f ps t) p)"
  proof (induction ps arbitrary: t)
    case (Cons q ps)
    show ?case
    proof (cases "p = q")
      case True
      have "pd_finalized (ot_store (f p t) p)"
        using Cons.prems(2) by (simp add: f_def closed_finalized)
      then show ?thesis
        using unmovedD(13) [OF all] True by simp
    next
      case False
      then show ?thesis
        using Cons identityD(2) [OF unmovedD(12) [OF step]] by simp
    qed
  qed simp
qed

lemma close_ledgered: "ledgered t \<Longrightarrow> ledgered (close_origin_flow_locked cfg flow t) \<and> account (close_origin_flow_locked cfg flow t) = account t"
proof -
  assume t: "ledgered t"
  define t1 where "t1 = release_staged (\<lambda>(key, _). fst key = flow) t"
  have ok: "staged_ok t" "distinct (map fst (ot_staged t))"
    using t by (simp_all add: ledgered_def staged_ok_def)
  have t1: "ledgered t1" "account t1 = account t"
    using t account_release [OF ok(1)] by (simp_all add: t1_def ledgered_def tracked_but_def inside_def release_staged_eq [OF ok(2)])
  define t2 where "t2 = fold (\<lambda>p t. if pd_flow (ot_store t p) = flow \<and> \<not> pd_finalized (ot_store t p) then close_pending cfg p t else t)
      (ot_pending t1) t1"
  have pending: "set (ot_pending t1) \<subseteq> {..<ot_allocated t1}"
    using ledgered_inside [OF t1(1)] by (auto simp: inside_def)
  have moved: "unmoved t1 t2" and account: "account t2 = account t1"
    and closed: "p \<in> set (ot_pending t1) \<Longrightarrow> pd_flow (ot_store t1 p) = flow \<Longrightarrow> pd_finalized (ot_store t2 p)" for p
    unfolding t2_def using close_flow_loop [where t = t1] ledgered_inside [OF t1(1)] pending by blast+
  let ?t3 = "t2\<lparr>ot_pending := filter (\<lambda>p. pd_flow (ot_store t2 p) \<noteq> flow \<and> \<not> pd_finalized (ot_store t2 p)) (ot_pending t2)\<rparr>"
  have "unmoved t1 (?t3\<lparr>ot_pending := ot_pending t1\<rparr>)"
    using moved by (simp add: unmoved_def)
  moreover have "p \<in> set (ot_pending ?t3) \<or> pd_finalized (ot_store ?t3 p)" if "p \<in> set (ot_pending t1)" for p
    using that closed [OF that] unmovedD(1) [OF moved] identityD(2) [OF unmovedD(12) [OF moved]] by auto
  ultimately have "narrowed t1 ?t3"
    using account unmovedD(1) [OF moved] by (auto simp: narrowed_def account_contests)
  then have "ledgered ?t3 \<and> account ?t3 = account t1"
    by (rule ledgered_narrowed [OF t1(1)])
  then have "ledgered (purge_flow_history flow ?t3) \<and> account (purge_flow_history flow ?t3) = account t"
    using t1(2) by (simp add: account_purge) (simp add: purge_flow_history_def ledgered_def tracked_but_def inside_def staged_ok_def)
  then show ?thesis
    by (simp add: close_origin_flow_locked_def Let_def t1_def [symmetric] t2_def [symmetric])
qed

lemma fold_emit_batches:
  "fold (\<lambda>(_, batch). emit_neutral_entries batch) xs t =
     t\<lparr>ot_outbox := ot_outbox t @ map Emit (concat (map (\<lambda>x. neutral_entries (snd x)) xs))\<rparr>"
  by (induction xs arbitrary: t) (auto simp: emit_neutral_eq)

text \<open>The end of the capture decides every operation and empties every list.\<close>

lemma finalize_all_ledgered:
  fixes cfg t
  assumes t: "ledgered t"
  defines "u \<equiv> finalize_all_origin_locked cfg t"
  shows "ledgered u" "account u = account t" "ot_pending u = []" "ot_staged u = []" "account u = cores (emitted (ot_outbox u))"
proof -
  define t1 where "t1 = fold (\<lambda>(_, batch). emit_neutral_entries batch) (ot_staged t) (t\<lparr>ot_staged := []\<rparr>)"
  have eq: "t1 = t\<lparr>ot_outbox := ot_outbox t @ map Emit (concat (map (\<lambda>x. neutral_entries (snd x)) (ot_staged t))), ot_staged := []\<rparr>"
    by (simp add: t1_def fold_emit_batches)
  have batches: "list_all batch_ok (ot_staged t)"
    using t by (simp add: ledgered_def staged_ok_def)
  have "undecided t1 p = undecided t p" for p
    by (simp add: eq undecided_def)
  moreover have "cores (emitted (ot_outbox t1)) = cores (emitted (ot_outbox t)) + cores (in_batches (ot_staged t))"
    using cores_released_batches [OF batches] by (simp add: eq)
  moreover have "ot_allocated t1 = ot_allocated t" "ot_staged t1 = []" "ot_pending t1 = ot_pending t"
    by (simp_all add: eq)
  ultimately have account1: "account t1 = account t"
    by (simp add: account_def staged_events_eq ac_simps)
  have t1: "tracked_but {} t1"
    using t by (simp add: eq ledgered_def tracked_but_def inside_def)
  let ?t = "t1\<lparr>ot_pending := []\<rparr>"
  define t2 where "t2 = fold (close_pending cfg) (ot_pending t1) ?t"
  have "kept_account ?t t2"
    unfolding t2_def by (rule accounting.fold_closed [OF kept_refl]) (use t1 in \<open>auto simp: inside_def tracked_but_def\<close>)
  then have t2: "unmoved ?t t2" "account t2 = account t1"
    by (simp_all add: kept_account_def account_contests)
  have closed: "pd_finalized (ot_store t2 p)" if "p \<in> set (ot_pending t1)" for p
    unfolding t2_def by (rule fold_finalizes(2)) (use that in \<open>auto intro: unmoved_close closed_finalized\<close>)
  have all: "pd_finalized (ot_store t2 p)" if "p < ot_allocated t2" for p
    using that t1 closed [of p] unmovedD(3) [OF t2(1)] unmovedD(13) [OF t2(1), of p] by (auto simp: tracked_but_def)
  have u: "ot_pending u = ot_pending t2" "ot_allocated u = ot_allocated t2" "ot_store u = ot_store t2" "ot_outbox u = ot_outbox t2"
      "ot_staged u = ot_staged t2"
    by (simp_all add: u_def finalize_all_origin_locked_def Let_def t1_def [symmetric] t2_def [symmetric])
  show "ot_pending u = []" "ot_staged u = []"
    using u unmovedD(1,2) [OF t2(1)] by (simp_all add: eq)
  have same: "account u = account t2"
    by (rule account_cong) (simp_all add: u undecided_def)
  show "account u = account t"
    using same t2(2) account1 by simp
  have "undecided u p = []" if "p < ot_allocated u" for p
    using all that by (simp add: undecided_def u)
  then have "(\<Sum>p < ot_allocated u. cores (undecided u p)) = {#}"
    by simp
  then show "account u = cores (emitted (ot_outbox u))"
    using \<open>ot_staged u = []\<close> by (simp add: account_def staged_events_eq)
  show "ledgered u"
    using all \<open>ot_pending u = []\<close> \<open>ot_staged u = []\<close> by (simp add: ledgered_def tracked_but_def inside_def staged_ok_def u)
qed

definition received_cores :: "origin_op \<Rightarrow> origin_tracker \<Rightarrow> bdo_event multiset" where
  "received_cores op t = (case op of Origin_Register e raw \<Rightarrow> registered_cores e t | _ \<Rightarrow> {#})"

lemma section_ledgered:
  "ledgered t \<Longrightarrow> ledgered (origin_section cfg op t) \<and> account (origin_section cfg op t) = account t + received_cores op t"
  using register_ledgered stream_ledgered frame_ledgered stale_ledgered close_ledgered finalize_all_ledgered
  by (cases op) (simp_all add: received_cores_def reset_origin_flow_def ledgered_fields account_contests)

section \<open>All interleavings\<close>

definition origin_run ::
    "origin_config \<Rightarrow> decrement_spec list \<Rightarrow> companion_family list \<Rightarrow> int list \<Rightarrow> origin_tracker \<Rightarrow> origin_op list \<Rightarrow>
       outbox_item list \<Rightarrow> bool" where
  "origin_run cfg specs families opcodes t ops out \<longleftrightarrow>
     (origin_step cfg)\<^sup>*\<^sup>* (new_origin_tracker specs families opcodes, [], []) (t, ops, out)"

definition received_events :: "origin_op list \<Rightarrow> bdo_event list" where
  "received_events ops = List.map_filter (\<lambda>op. case op of Origin_Register e raw \<Rightarrow> Some e | _ \<Rightarrow> None) ops"

lemma received_simps [simp]: "received_events [] = []"
  "received_events (ops @ [op]) = received_events ops @ (case op of Origin_Register e raw \<Rightarrow> [e] | _ \<Rightarrow> [])"
  by (induction ops) (auto simp: received_events_def map_filter_simps split: origin_op.split option.split)

text \<open>The record of a storage message that an event stands for.\<close>

definition record_slot :: "bdo_event \<Rightarrow> staged_key \<times> int option" where
  "record_slot e = (staged_key_of e (event_sequence e), ev_record_index e)"

lemma core_slot [simp]: "record_slot (core e) = record_slot e" "staged_index (core e) = staged_index e"
proof -
  have "event_sequence (core e) = event_sequence e"
    by (simp add: event_sequence_def core_def map_of_filter_key [where P = "\<lambda>k. k \<noteq> ''deposit_origin_evidence'' \<and> k \<noteq> ''storage_operation_evidence''"])
  then show "record_slot (core e) = record_slot e"
    by (simp add: record_slot_def staged_key_of_def) (simp add: core_def)
  show "staged_index (core e) = staged_index e"
    by (simp add: staged_index_def core_def)
qed

definition run_account :: "origin_tracker \<Rightarrow> origin_op list \<Rightarrow> outbox_item list \<Rightarrow> bool" where
  "run_account t ops out \<longleftrightarrow> ledgered t \<and>
     (\<exists>dropped. cores (emitted out) + account t + dropped = cores (received_events ops) \<and>
        (\<forall>d \<in># dropped. staged_index d \<noteq> None \<and> (\<exists>c \<in># cores (emitted out) + account t. record_slot c = record_slot d)))"

lemma repeated_slot:
  assumes "ledgered t" and "repeated_record e t"
  shows "\<exists>c \<in># account t. record_slot c = record_slot (core e)"
proof -
  obtain i b e' raw' where b: "ev_record_index e = Some i" "map_of (ot_staged t) (staged_key_of e (event_sequence e)) = Some b"
      "map_of (sb_entries b) i = Some (e', raw')"
    using assms(2) by (auto simp: repeated_record_def)
  have in_t: "(staged_key_of e (event_sequence e), b) \<in> set (ot_staged t)" and in_b: "(i, e', raw') \<in> set (sb_entries b)"
    using b by (auto dest: map_of_SomeD)
  then have "entry_ok (staged_key_of e (event_sequence e)) (i, e', raw')"
  proof -
    have "list_all batch_ok (ot_staged t)"
      using assms(1) by (simp add: ledgered_def staged_ok_def)
    then have "list_all (entry_ok (staged_key_of e (event_sequence e))) (sb_entries b)"
      using in_t by (auto simp: list_all_iff batch_ok_def dest!: bspec)
    then show ?thesis
      using in_b by (simp only: list_all_iff)
  qed
  then have slot: "record_slot e' = record_slot e"
    using b(1) by (simp add: entry_ok_def record_slot_def)
  have "e' \<in> set (batch_events b)"
    using in_b by (force simp: batch_events_def)
  moreover have "batch_events b \<in> (\<lambda>(_, b). batch_events b) ` set (ot_staged t)"
    using in_t by (rule rev_image_eqI) simp
  ultimately have "e' \<in> set (staged_events t)"
    unfolding staged_events_def set_concat set_map by blast
  then have "core e' \<in># cores (staged_events t)"
    by (simp add: cores_def)
  then have "core e' \<in># account t"
    by (simp add: account_def)
  then show ?thesis
    using slot by (intro bexI [of _ "core e'"]) simp_all
qed

lemma run_account_section: "run_account t ops out \<Longrightarrow> run_account (origin_section cfg op t) (ops @ [op]) out"
proof -
  assume run: "run_account t ops out"
  then obtain dropped where t: "ledgered t" and sum: "cores (emitted out) + account t + dropped = cores (received_events ops)"
      and slots: "\<forall>d \<in># dropped. staged_index d \<noteq> None \<and> (\<exists>c \<in># cores (emitted out) + account t. record_slot c = record_slot d)"
    by (auto simp: run_account_def)
  let ?t = "origin_section cfg op t"
  have next_t: "ledgered ?t" "account ?t = account t + received_cores op t"
    using section_ledgered [OF t] by blast+
  show ?thesis
  proof (cases "\<exists>e raw. op = Origin_Register e raw \<and> repeated_record e t")
    case False
    then have "cores (received_events (ops @ [op])) = cores (received_events ops) + received_cores op t"
      by (auto simp: received_cores_def registered_cores_def split: origin_op.split)
    then have "cores (emitted out) + account ?t + dropped = cores (received_events (ops @ [op]))"
      unfolding next_t(2) using sum by (simp add: ac_simps)
    moreover have "\<forall>d \<in># dropped. staged_index d \<noteq> None \<and> (\<exists>c \<in># cores (emitted out) + account ?t. record_slot c = record_slot d)"
      using slots unfolding next_t(2) by auto
    ultimately show ?thesis
      using next_t(1) unfolding run_account_def by blast
  next
    case True
    then obtain e raw where op: "op = Origin_Register e raw" and rep: "repeated_record e t"
      by blast
    have same: "account ?t = account t"
      using next_t(2) op rep by (simp add: received_cores_def registered_cores_def)
    obtain c where c: "c \<in># account t" "record_slot c = record_slot (core e)"
      using repeated_slot [OF t rep] by blast
    have "cores (emitted out) + account ?t + add_mset (core e) dropped = cores (received_events (ops @ [op]))"
      unfolding same using sum by (simp add: op)
    moreover have "staged_index (core e) \<noteq> None"
      using rep by (auto simp: repeated_record_def)
    moreover have "\<exists>c \<in># cores (emitted out) + account ?t. record_slot c = record_slot (core e)"
      using c unfolding same by (intro bexI [of _ c]) simp_all
    ultimately show ?thesis
      using slots next_t(1) unfolding run_account_def same by (intro conjI exI [of _ "add_mset (core e) dropped"]) auto
  qed
qed

lemma run_account_deliver:
  assumes "run_account t ops out" and "ot_outbox t = item # outbox"
  shows "run_account (t\<lparr>ot_outbox := outbox\<rparr>) ops (out @ [item])"
proof -
  have "undecided (t\<lparr>ot_outbox := outbox\<rparr>) p = undecided t p" for p
    by (simp add: undecided_def)
  then have "cores (emitted (out @ [item])) + account (t\<lparr>ot_outbox := outbox\<rparr>) = cores (emitted out) + account t"
    by (simp add: account_def staged_events_def assms(2)) (cases item; simp add: ac_simps)
  moreover have "ledgered (t\<lparr>ot_outbox := outbox\<rparr>) = ledgered t"
    by (simp add: ledgered_def tracked_but_def inside_def staged_ok_def)
  ultimately show ?thesis
    using assms(1) by (simp only: run_account_def)
qed

lemma run_account_start: "run_account (new_origin_tracker specs families opcodes) [] []"
  by (simp add: run_account_def ledgered_def tracked_but_def inside_def staged_ok_def account_def staged_events_def
      new_origin_tracker_def Let_def)

lemma run_accounted: "origin_run cfg specs families opcodes t ops out \<Longrightarrow> run_account t ops out"
proof -
  have "run_account t' ops' out'"
    if "(origin_step cfg)\<^sup>*\<^sup>* (new_origin_tracker specs families opcodes, [], []) s" and "s = (t', ops', out')" for s t' ops' out'
    using that
  proof (induction arbitrary: t' ops' out' rule: rtranclp_induct)
    case base
    then show ?case
      using run_account_start by auto
  next
    case (step s s')
    obtain t1 ops1 out1 where s: "s = (t1, ops1, out1)"
      by (cases s)
    note run = step.IH [OF s]
    have dispatching: "run_account (t1\<lparr>ot_dispatching := d\<rparr>) ops1 out1" for d
      using run by (simp add: run_account_def ledgered_fields account_contests)
    from step.hyps(2) show ?case
      unfolding s step.prems by (cases rule: origin_stepE) (auto intro: run_account_section run_account_deliver run dispatching)
  qed
  then show "origin_run cfg specs families opcodes t ops out \<Longrightarrow> run_account t ops out"
    unfolding origin_run_def by blast
qed

end
