(* ===== verification/Origin_Provenance.thy ===== *)
theory Origin_Provenance
  imports Origin_Conservation Companion_Facts Manual_Facts
begin

text \<open>
  What a released event rests on: an event is only relabelled when the bytes that the tracker
  observed prove its origin.
\<close>

section \<open>Observed bytes\<close>

text \<open>What the operations received so far have shown of a stream.\<close>

definition pieces_of :: "origin_op list \<Rightarrow> flow_key \<Rightarrow> (int \<times> bytes) set" where
  "pieces_of ops flow =
     {(start, data). (\<exists>ctx. Origin_Stream data ctx \<in> set ops \<and> ctx_flow ctx = flow \<and> ctx_stream_start ctx = Some start) \<or>
        (\<exists>frame. Origin_Frame frame \<in> set ops \<and> ctx_flow (fr_context frame) = flow \<and>
           fr_stream_sequence frame = Some start \<and> fr_message frame = data)}"

definition byte_seen :: "origin_op list \<Rightarrow> flow_key \<Rightarrow> int \<Rightarrow> byte \<Rightarrow> bool" where
  "byte_seen ops flow position b \<longleftrightarrow>
     (\<exists>(start, data) \<in> pieces_of ops flow. holds_position position (start, data) \<and> data ! nat (position - start) = b)"

definition seen :: "origin_op list \<Rightarrow> flow_key \<Rightarrow> int \<Rightarrow> bytes \<Rightarrow> bool" where
  "seen ops flow position message \<longleftrightarrow> (\<forall>i < length message. byte_seen ops flow (position + int i) (message ! i))"

lemma pieces_mono: "set ops \<subseteq> set ops' \<Longrightarrow> pieces_of ops flow \<subseteq> pieces_of ops' flow"
  unfolding pieces_of_def by blast

lemma seen_mono: "seen ops flow position message \<Longrightarrow> set ops \<subseteq> set ops' \<Longrightarrow> seen ops' flow position message"
  using pieces_mono unfolding seen_def byte_seen_def by blast

lemma seen_append:
  "seen ops flow position xs \<Longrightarrow> seen ops flow (position + int (length xs)) ys \<Longrightarrow> seen ops flow position (xs @ ys)"
proof -
  assume xs: "seen ops flow position xs" and ys: "seen ops flow (position + int (length xs)) ys"
  have "byte_seen ops flow (position + int i) ((xs @ ys) ! i)" if "i < length (xs @ ys)" for i
  proof (cases "i < length xs")
    case True
    then show ?thesis
      using xs by (simp add: seen_def nth_append)
  next
    case False
    then have "i - length xs < length ys" "position + int (length xs) + int (i - length xs) = position + int i"
      using that by auto
    then show ?thesis
      using ys False unfolding seen_def by (metis nth_append)
  qed
  then show ?thesis
    by (simp add: seen_def)
qed

definition retained_pieces :: "flow_key \<Rightarrow> origin_tracker \<Rightarrow> (int \<times> bytes) list" where
  "retained_pieces flow t = dict_get (ot_spans t) flow [] @ frame_spans (dict_get (ot_recent t) flow [])"

definition pieces_ok :: "origin_op list \<Rightarrow> origin_tracker \<Rightarrow> bool" where
  "pieces_ok ops t \<longleftrightarrow> (\<forall>flow. set (retained_pieces flow t) \<subseteq> pieces_of ops flow)"

lemma find_source_retained: "find_source flow position t = Some piece \<Longrightarrow> piece \<in> set (retained_pieces flow t)"
proof -
  have member: "find P (rev xs) = Some x \<Longrightarrow> x \<in> set xs" for P and xs :: "(int \<times> bytes) list" and x
    by (auto simp: find_Some_iff) (metis nth_mem length_rev set_rev)
  then show "find_source flow position t = Some piece \<Longrightarrow> piece \<in> set (retained_pieces flow t)"
    by (auto simp: find_source_def retained_pieces_def split: option.splits)
qed

lemma read_loop_seen:
  "pieces_ok ops t \<Longrightarrow> 0 \<le> n \<Longrightarrow> seen ops flow (position - int (length acc)) acc \<Longrightarrow>
    read_loop flow t position n acc = Some message \<Longrightarrow> seen ops flow (position - int (length acc)) message"
proof (induction "nat n" arbitrary: position n acc rule: less_induct)
  case less
  show ?case
  proof (cases "n = 0")
    case True
    then show ?thesis
      using less.prems by (simp add: read_loop.simps)
  next
    case False
    then obtain start piece where source: "find_source flow position t = Some (start, piece)"
      using less.prems by (auto simp: read_loop.simps [of flow t position] split: option.splits prod.splits)
    let ?chunk = "py_slice piece (position - start) (position - start + n)"
    have chunk: "?chunk \<noteq> []" and rest: "read_loop flow t (position + int (length ?chunk)) (n - int (length ?chunk))
        (acc @ ?chunk) = Some message"
      using less.prems False source by (auto simp: read_loop.simps [of flow t position] Let_def split: if_splits)
    have pos: "0 < n"
      using False less.prems(2) by simp
    note holds = source_chunk [OF source pos]
    have piece: "(start, piece) \<in> pieces_of ops flow"
      using less.prems(1) find_source_retained [OF source] by (auto simp: pieces_ok_def)
    have slice: "?chunk = take (nat n) (drop (nat (position - start)) piece)"
      using holds(1,2) pos by (auto simp: py_slice_def py_bound_def Let_def min_def nat_add_distrib)
    have "seen ops flow position ?chunk"
      unfolding seen_def
    proof (intro allI impI)
      fix i assume i: "i < length ?chunk"
      then have within_piece: "i < nat n" "nat (position - start) + i < length piece"
        unfolding slice by auto
      moreover have place: "nat (position + int i - start) = nat (position - start) + i"
        using holds(1) by simp
      ultimately have "holds_position (position + int i) (start, piece)"
        using holds(1) by (simp add: holds_position_def)
      moreover have "piece ! nat (position + int i - start) = ?chunk ! i"
        unfolding slice place using within_piece by simp
      ultimately show "byte_seen ops flow (position + int i) (?chunk ! i)"
        using piece unfolding byte_seen_def by blast
    qed
    then have "seen ops flow (position - int (length acc)) (acc @ ?chunk)"
      using seen_append [OF less.prems(3)] by simp
    then have "seen ops flow (position + int (length ?chunk) - int (length (acc @ ?chunk))) message"
      using less.hyps [OF _ less.prems(1) _ _ rest] chunk holds(3) pos by simp
    then show ?thesis
      by simp
  qed
qed

lemma read_span_seen: "pieces_ok ops t \<Longrightarrow> read_span flow position n t = Some message \<Longrightarrow> seen ops flow position message"
  using read_loop_seen [of ops t n flow position "[]" message] by (simp add: read_span_def seen_def split: if_splits)

section \<open>Proofs of an origin\<close>

definition frames_of :: "origin_op list \<Rightarrow> bdo_frame list" where
  "frames_of ops = List.map_filter (\<lambda>op. case op of Origin_Frame frame \<Rightarrow> Some frame | _ \<Rightarrow> None) ops"

lemma set_frames_of: "frame \<in> set (frames_of ops) \<longleftrightarrow> Origin_Frame frame \<in> set ops"
proof -
  have case_op: "((case op of Origin_Frame frame \<Rightarrow> Some frame | _ \<Rightarrow> None) = Some frame) = (op = Origin_Frame frame)" for op
    by (cases op) auto
  show ?thesis
    unfolding frames_of_def set_map_filter_Some case_op by blast
qed

lemma received_event: "e \<in> set (received_events ops) \<longleftrightarrow> (\<exists>raw. Origin_Register e raw \<in> set ops)"
proof -
  have case_op: "((case op of Origin_Register e raw \<Rightarrow> Some e | _ \<Rightarrow> None) = Some e) = (\<exists>raw. op = Origin_Register e raw)" for op
    by (cases op) auto
  show ?thesis
    unfolding received_events_def set_map_filter_Some case_op by blast
qed

definition wrapper_of :: "bdo_event \<Rightarrow> staged_key" where
  "wrapper_of e = staged_key_of e (event_sequence e)"

text \<open>The bytes of the storage message of an event: registered with its wrapper, or seen in the stream.\<close>

definition storage_message :: "origin_op list \<Rightarrow> bdo_event \<Rightarrow> bytes \<Rightarrow> bool" where
  "storage_message ops e m \<longleftrightarrow> ev_message_length e = Some (int (length m)) \<and>
     ((\<exists>e'. Origin_Register e' (Some m) \<in> set ops \<and> wrapper_of e' = wrapper_of e) \<or>
      (\<exists>q. event_sequence e = Some q \<and> seen ops (ev_flow e) q m))"

text \<open>
  A worker's chain: behind the storage message the stream held two messages, one after the
  other, and an observation was made from the three.
\<close>

definition chain_proof :: "origin_config \<Rightarrow> origin_op list \<Rightarrow> bdo_event \<Rightarrow> companion_observation \<Rightarrow> bool" where
  "chain_proof cfg ops e o' \<longleftrightarrow>
     (\<exists>m f s i j q n prefix_end. storage_message ops e m \<and> event_sequence e = Some q \<and> ev_message_length e = Some n \<and>
        q + n \<le> i \<and> i + int (length f) \<le> j \<and> seen ops (ev_flow e) i f \<and> seen ops (ev_flow e) j s \<and>
        discover_companion_observation (oc_digest cfg) m f s (ev_timestamp e) (ev_flow e) (event_sequence e) prefix_end = Some o')"

definition group_ok :: "origin_op list \<Rightarrow> bdo_event list \<Rightarrow> bool" where
  "group_ok ops es \<longleftrightarrow> es \<noteq> [] \<and> set es \<subseteq> set (received_events ops) \<and>
     (\<forall>e \<in> set es. wrapper_of e = wrapper_of (hd es) \<and> ev_type e = ev_type (hd es))"

definition matches_ok :: "decrement_spec list \<Rightarrow> origin_op list \<Rightarrow> bdo_event list \<Rightarrow> (int \<times> manual_match) list \<Rightarrow> bool" where
  "matches_ok specs ops es ms \<longleftrightarrow>
     (\<forall>i m. (i, m) \<in> set ms \<longrightarrow> (\<exists>q. event_sequence (hd es) = Some q \<and>
        decrement_proof (frames_of ops) specs (ev_flow (hd es)) (ev_flow_generation (hd es)) q es m))"

lemma group_okD:
  assumes "group_ok ops es" and "e \<in> set es"
  shows "wrapper_of e = wrapper_of (hd es)" "ev_type e = ev_type (hd es)" "e \<in> set (received_events ops)"
  using assms unfolding group_ok_def by blast+

lemma group_ok_nonempty: "group_ok ops es \<Longrightarrow> es \<noteq> []"
  unfolding group_ok_def by (rule conjunct1)

text \<open>What an operation keeps from its registration.\<close>

definition origin_static :: "decrement_spec list \<Rightarrow> origin_op list \<Rightarrow> pending_deposit \<Rightarrow> bool" where
  "origin_static specs ops d \<longleftrightarrow>
     (let es = pd_events d; e = hd es in
      group_ok ops es \<and> pd_event d = e \<and> pd_flow d = ev_flow e \<and> pd_stream_sequence d = event_sequence e \<and>
      pd_timestamp d = ev_timestamp e \<and>
      pd_end_sequence d = (case (event_sequence e, ev_message_length e) of (Some q, Some n) \<Rightarrow> Some (q + n) | _ \<Rightarrow> None) \<and>
      (\<forall>m. pd_delta_message d = Some m \<longrightarrow> storage_message ops e m) \<and>
      matches_ok specs ops es (pd_manual_matches d) \<and> (pd_matching_decrement d \<longleftrightarrow> pd_manual_matches d \<noteq> []))"

text \<open>What the decisions keep of it.\<close>

definition origin_open :: "origin_config \<Rightarrow> origin_op list \<Rightarrow> pending_deposit \<Rightarrow> bool" where
  "origin_open cfg ops d \<longleftrightarrow>
     (\<forall>fam o'. (fam, o') \<in> set (pd_candidates d) \<longrightarrow> fam = observation_family o' \<and> chain_proof cfg ops (pd_event d) o') \<and>
     (\<not> pd_finalized d \<longrightarrow> pd_companion d = None)"

section \<open>Released events\<close>

definition confirmed_evidence :: "bdo_event \<Rightarrow> bool" where
  "confirmed_evidence r \<longleftrightarrow>
     (\<exists>evidence chain. map_of (ev_extra r) ''deposit_origin_evidence'' = Some (JObj evidence) \<and>
        map_of evidence ''companion_chain'' = Some (JObj chain) \<and> map_of chain ''confirmed_family'' = Some (JBool True))"

definition worker_proof :: "origin_config \<Rightarrow> origin_op list \<Rightarrow> bdo_event \<Rightarrow> bool" where
  "worker_proof cfg ops e \<longleftrightarrow> (\<exists>o'. chain_proof cfg ops e o')"

definition manual_proof :: "decrement_spec list \<Rightarrow> origin_op list \<Rightarrow> bdo_event \<Rightarrow> bool" where
  "manual_proof specs ops e \<longleftrightarrow>
     (\<exists>es q m. group_ok ops es \<and> e \<in> set es \<and> event_sequence e = Some q \<and>
        decrement_proof (frames_of ops) specs (ev_flow e) (ev_flow_generation e) q es m)"

definition explained :: "origin_config \<Rightarrow> decrement_spec list \<Rightarrow> origin_op list \<Rightarrow> bdo_event \<Rightarrow> bool" where
  "explained cfg specs ops r \<longleftrightarrow>
     (\<exists>e \<in> set (received_events ops). r = e \<or>
        core r = core e \<and> ev_type r = (if ev_type e = ''storage_record'' then ''storage_delta'' else ev_type e) \<and>
        (ev_source r = None \<and> ev_type e \<noteq> ''storage_record'' \<or>
         ev_source r = Some ''Worker Production'' \<and> worker_proof cfg ops e \<and> confirmed_evidence r \<or>
         ev_source r = Some ''Player Inventory'' \<and> manual_proof specs ops e))"

lemma wrapper_fields:
  assumes "wrapper_of e = wrapper_of e'"
  shows "ev_flow e = ev_flow e'" "ev_flow_generation e = ev_flow_generation e'" "event_sequence e = event_sequence e'"
    "ev_opcode e = ev_opcode e'" "ev_message_length e = ev_message_length e'" "ev_timestamp e = ev_timestamp e'"
  using assms by (simp_all add: wrapper_of_def staged_key_of_def)

lemma storage_message_wrapper: "wrapper_of e = wrapper_of e' \<Longrightarrow> storage_message ops e m = storage_message ops e' m"
  using wrapper_fields [of e e'] by (simp add: storage_message_def)

lemma chain_proof_wrapper: "wrapper_of e = wrapper_of e' \<Longrightarrow> chain_proof cfg ops e o' = chain_proof cfg ops e' o'"
  using wrapper_fields [of e e'] storage_message_wrapper [of e e'] by (simp add: chain_proof_def)

lemma event_evidence_cases: "event_evidence d evidence e = evidence \<or> (\<exists>v. event_evidence d evidence e = AList.update ''manual_decrement'' v evidence)"
proof -
  define pool where "pool = (let matching = filter (\<lambda>m. Some (fst m) = ev_record_index e) (pd_manual_matches d)
      in if matching \<noteq> [] then matching else pd_manual_matches d)"
  show ?thesis
    unfolding event_evidence_def Let_def pool_def [unfolded Let_def, symmetric] by (cases pool) (auto simp: case_prod_unfold)
qed

lemma confirmed_classified:
  assumes "pd_companion d = Some o'" and "observation_family o' \<in> ot_confirmed t"
  shows "confirmed_evidence (classified_event d (origin_evidence cfg t d) e)"
proof -
  define chain where "chain = chain_evidence cfg t o'"
  have chain: "map_of chain ''confirmed_family'' = Some (JBool True)"
    using assms(2) by (simp add: chain_def chain_evidence_def observation_to_dict_def)
  define evidence where "evidence = event_evidence d (origin_evidence cfg t d) e"
  have "map_of (origin_evidence cfg t d) ''companion_chain'' = Some (JObj chain)"
    using assms(1) by (simp add: origin_evidence_def chain_def)
  then have "map_of evidence ''companion_chain'' = Some (JObj chain)"
    using event_evidence_cases [of d "origin_evidence cfg t d" e] by (auto simp: evidence_def AList.update_conv')
  moreover have "map_of (ev_extra (classified_event d (origin_evidence cfg t d) e)) ''deposit_origin_evidence'' = Some (JObj evidence)"
    by (simp add: classified_event_def Let_def AList.update_conv' evidence_def)
  ultimately show ?thesis
    using chain unfolding confirmed_evidence_def by blast
qed

lemma released_explained:
  assumes static: "origin_static specs ops d"
    and companion: "\<And>o'. pd_companion d = Some o' \<Longrightarrow> chain_proof cfg ops (pd_event d) o' \<and> observation_family o' \<in> ot_confirmed t"
    and r: "r \<in> set (released_events cfg t d)"
  shows "explained cfg specs ops r"
proof -
  have group: "group_ok ops (pd_events d)" and event: "pd_event d = hd (pd_events d)"
    and matches: "matches_ok specs ops (pd_events d) (pd_manual_matches d)"
      "pd_matching_decrement d \<longleftrightarrow> pd_manual_matches d \<noteq> []"
    using static by (auto simp: origin_static_def Let_def)
  have events: "deposit_events d = pd_events d"
    using group_ok_nonempty [OF group] by (simp add: deposit_events_def)
  show ?thesis
  proof (cases "is_neutral d \<and> deposit_origin_of d = Origin_Unknown")
    case True
    have "r \<in> set (pd_events d)"
      using r unfolding released_events_def events if_P [OF True] .
    from group_okD(3) [OF group this] show ?thesis
      unfolding explained_def by blast
  next
    case False
    then have "r \<in> classified_event d (origin_evidence cfg t d) ` set (pd_events d)"
      using r by (simp only: released_events_def events if_False set_map)
    then obtain e where e: "e \<in> set (pd_events d)" and r_eq: "r = classified_event d (origin_evidence cfg t d) e"
      by blast
    have wrapper: "wrapper_of e = wrapper_of (pd_event d)" and type: "ev_type e = ev_type (pd_event d)"
      using group_okD [OF group e] event by simp_all
    have received: "e \<in> set (received_events ops)"
      using group_okD(3) [OF group e] .
    have core: "core r = core e"
      unfolding r_eq by (rule core_classified)
    have type_r: "ev_type r = (if ev_type e = ''storage_record'' then ''storage_delta'' else ev_type e)"
      using type by (simp add: r_eq classified_event_def is_neutral_def)
    consider (worker) o' where "pd_companion d = Some o'"
      | (manual) "pd_companion d = None" "pd_matching_decrement d"
      | (unknown) "pd_companion d = None" "\<not> pd_matching_decrement d"
      by (cases "pd_companion d") auto
    then have "ev_source r = None \<and> ev_type e \<noteq> ''storage_record'' \<or>
         ev_source r = Some ''Worker Production'' \<and> worker_proof cfg ops e \<and> confirmed_evidence r \<or>
         ev_source r = Some ''Player Inventory'' \<and> manual_proof specs ops e"
    proof cases
      case worker
      then have "ev_source r = Some ''Worker Production''"
        by (simp add: r_eq classified_event_def deposit_origin_of_def)
      moreover have "chain_proof cfg ops e o'"
        using companion [OF worker] chain_proof_wrapper [OF wrapper] by simp
      moreover have "confirmed_evidence r"
        unfolding r_eq by (rule confirmed_classified [OF worker conjunct2 [OF companion [OF worker]]])
      ultimately show ?thesis
        by (auto simp: worker_proof_def)
    next
      case manual
      then obtain i m where "(i, m) \<in> set (pd_manual_matches d)"
        using matches(2) by (metis list.set_sel(1) surj_pair)
      then obtain q where q: "event_sequence (hd (pd_events d)) = Some q"
          "decrement_proof (frames_of ops) specs (ev_flow (hd (pd_events d))) (ev_flow_generation (hd (pd_events d))) q (pd_events d) m"
        using matches(1) unfolding matches_ok_def by blast
      have "manual_proof specs ops e"
        unfolding manual_proof_def
        using group e q wrapper_fields [OF wrapper] event by (intro exI [of _ "pd_events d"] exI [of _ q] exI [of _ m]) simp
      then show ?thesis
        using manual by (simp add: r_eq classified_event_def deposit_origin_of_def)
    next
      case unknown
      then have "deposit_origin_of d = Origin_Unknown"
        by (simp add: deposit_origin_of_def)
      then show ?thesis
        using False type by (simp add: r_eq classified_event_def is_neutral_def)
    qed
    then show ?thesis
      using received core type_r unfolding explained_def by blast
  qed
qed

section \<open>Decisions keep the proofs\<close>

lemma list_min_in: "xs \<noteq> [] \<Longrightarrow> list_min xs \<in> set xs"
proof -
  have "py_min m ys \<in> insert m (set ys)" for m :: 'a and ys
    by (induction m ys rule: py_min.induct) auto
  then show "xs \<noteq> [] \<Longrightarrow> list_min xs \<in> set xs"
    by (cases xs) auto
qed

definition outbox_explained :: "origin_config \<Rightarrow> decrement_spec list \<Rightarrow> origin_op list \<Rightarrow> origin_tracker \<Rightarrow> bool" where
  "outbox_explained cfg specs ops t \<longleftrightarrow> (\<forall>r \<in> set (emitted (ot_outbox t)). explained cfg specs ops r)"

definition deposits_open :: "origin_config \<Rightarrow> origin_op list \<Rightarrow> origin_tracker \<Rightarrow> bool" where
  "deposits_open cfg ops t \<longleftrightarrow> (\<forall>p < ot_allocated t. origin_open cfg ops (ot_store t p))"

definition deposits_static :: "decrement_spec list \<Rightarrow> origin_op list \<Rightarrow> origin_tracker \<Rightarrow> bool" where
  "deposits_static specs ops t \<longleftrightarrow> (\<forall>p < ot_allocated t. origin_static specs ops (ot_store t p))"

definition proofs_ok :: "origin_config \<Rightarrow> decrement_spec list \<Rightarrow> origin_op list \<Rightarrow> origin_tracker \<Rightarrow> bool" where
  "proofs_ok cfg specs ops t \<longleftrightarrow> inside t \<and> pieces_ok ops t \<and> deposits_static specs ops t \<and>
     deposits_open cfg ops t \<and> outbox_explained cfg specs ops t \<and> cache_ok (oc_digest cfg) (ot_discovery t)"

lemma static_identity: "deposit_identity d' = deposit_identity d \<Longrightarrow> origin_static specs ops d' = origin_static specs ops d"
  by (simp only: origin_static_def identityD [of d' d])

lemma proofs_unmoved:
  assumes "proofs_ok cfg specs ops t" and moved: "unmoved t u" and "deposits_open cfg ops u" and "outbox_explained cfg specs ops u"
    and "cache_ok (oc_digest cfg) (ot_discovery u)"
  shows "proofs_ok cfg specs ops u"
proof -
  have "origin_static specs ops (ot_store u p) = origin_static specs ops (ot_store t p)" for p
    by (rule static_identity) (rule unmovedD(12) [OF moved])
  then show ?thesis
    using assms unmovedD(1,3,5,6) [OF moved]
    by (simp add: proofs_ok_def inside_def pieces_ok_def retained_pieces_def deposits_static_def)
qed

text \<open>Updates of the tracker that concern neither the events nor the evidence of an operation.\<close>

lemma proofs_aside:
  assumes t: "proofs_ok cfg specs ops t" and "unmoved t u" and "ot_store u = ot_store t"
    and "emitted (ot_outbox u) = emitted (ot_outbox t)" and "ot_discovery u = ot_discovery t"
  shows "proofs_ok cfg specs ops u"
  by (rule proofs_unmoved [OF t]) (use assms unmovedD(3) [OF assms(2)] in
    \<open>simp_all add: proofs_ok_def deposits_open_def outbox_explained_def\<close>)

lemma proofs_deposit:
  assumes t: "proofs_ok cfg specs ops t" and f: "unmoved t (update_deposit p f t)"
    and d: "p < ot_allocated t \<Longrightarrow> origin_open cfg ops (ot_store t p) \<Longrightarrow> origin_open cfg ops (f (ot_store t p))"
  shows "proofs_ok cfg specs ops (update_deposit p f t)"
proof (rule proofs_unmoved [OF t f])
  show "deposits_open cfg ops (update_deposit p f t)"
    using t d by (simp add: proofs_ok_def deposits_open_def update_deposit_def)
qed (use t in \<open>simp_all add: proofs_ok_def outbox_explained_def update_deposit_def\<close>)

lemma open_simps:
  "origin_open cfg ops (d\<lparr>pd_awaiting := w\<rparr>) = origin_open cfg ops d"
  "origin_open cfg ops (d\<lparr>pd_frames_after := k\<rparr>) = origin_open cfg ops d"
  "origin_open cfg ops (d\<lparr>pd_candidates := [], pd_companion := None\<rparr>)"
  "origin_open cfg ops d \<Longrightarrow> chain_proof cfg ops (pd_event d) o' \<Longrightarrow>
    origin_open cfg ops (d\<lparr>pd_candidates := pd_candidates d @ [(observation_family o', o')]\<rparr>)"
  by (auto simp: origin_open_def)

lemma proofs_finalize:
  assumes t: "proofs_ok cfg specs ops t" and p: "p < ot_allocated t"
  shows "proofs_ok cfg specs ops (finalize_deposit cfg p t)"
proof (cases "pd_finalized (ot_store t p)")
  case True
  then show ?thesis
    using t by (simp add: finalize_eq)
next
  case False
  let ?d = "ot_store t p"
  have d: "origin_static specs ops ?d" "origin_open cfg ops ?d"
    using t p by (simp_all add: proofs_ok_def deposits_static_def deposits_open_def)
  have "pd_companion ?d = None"
    using d(2) False by (simp add: origin_open_def)
  then have released: "\<forall>r \<in> set (released_events cfg t ?d). explained cfg specs ops r"
    using released_explained [OF d(1)] by simp
  have outbox: "emitted (ot_outbox (finalize_deposit cfg p t)) = emitted (ot_outbox t) @ released_events cfg t ?d"
    using False by (simp add: finalize_eq)
  show ?thesis
  proof (rule proofs_unmoved [OF t unmoved_finalize])
    show "outbox_explained cfg specs ops (finalize_deposit cfg p t)"
      using t released unfolding outbox_explained_def outbox set_append ball_Un by (simp add: proofs_ok_def outbox_explained_def)
    show "deposits_open cfg ops (finalize_deposit cfg p t)"
      using t d(2) by (auto simp: proofs_ok_def deposits_open_def finalize_eq update_deposit_def origin_open_def)
    show "cache_ok (oc_digest cfg) (ot_discovery (finalize_deposit cfg p t))"
      using t by (simp add: proofs_ok_def finalize_eq update_deposit_def)
  qed
qed

lemma select_cases:
  obtains (chosen) fam o' where "select_confirmed p t = (True, update_deposit p (\<lambda>d. d\<lparr>pd_companion := Some o'\<rparr>) t)"
      "fam \<in> ot_confirmed t" "(fam, o') \<in> set (pd_candidates (ot_store t p))"
  | (none) t' where "select_confirmed p t = (False, t')"
proof -
  let ?d = "ot_store t p"
  define eligible where "eligible = filter (\<lambda>key. key \<in> ot_confirmed t) (map fst (pd_candidates ?d))"
  show ?thesis
  proof (cases "pd_flow ?d \<in> ot_overflow t \<or> eligible = []")
    case True
    then have "fst (select_confirmed p t) = False"
      by (auto simp: select_confirmed_def Let_def eligible_def)
    then show ?thesis
      using none [of "snd (select_confirmed p t)"] by (metis prod.collapse)
  next
    case False
    define chosen_key where "chosen_key = snd (list_min (map (\<lambda>key. (key \<notin> ot_known t, key)) eligible))"
    have "list_min (map (\<lambda>key. (key \<notin> ot_known t, key)) eligible) \<in> set (map (\<lambda>key. (key \<notin> ot_known t, key)) eligible)"
      by (rule list_min_in) (use False in simp)
    then have member: "chosen_key \<in> set eligible"
      unfolding chosen_key_def set_map by (rule imageE) simp
    then have confirmed: "chosen_key \<in> ot_confirmed t" and "chosen_key \<in> fst ` set (pd_candidates ?d)"
      unfolding eligible_def by simp_all
    then obtain o' where o': "map_of (pd_candidates ?d) chosen_key = Some o'"
      by (metis map_of_eq_None_iff not_None_eq)
    have "select_confirmed p t = (True, update_deposit p (\<lambda>d. d\<lparr>pd_companion := map_of (pd_candidates d) chosen_key\<rparr>) t)"
      using False by (simp add: select_confirmed_def Let_def eligible_def chosen_key_def)
    then have "select_confirmed p t = (True, update_deposit p (\<lambda>d. d\<lparr>pd_companion := Some o'\<rparr>) t)"
      by (simp add: update_deposit_def o')
    then show ?thesis
      using chosen confirmed o' by (blast dest: map_of_SomeD)
  qed
qed

lemma proofs_decide:
  assumes t: "proofs_ok cfg specs ops t" and p: "p < ot_allocated t"
  shows "proofs_ok cfg specs ops (finalize_deposit cfg p (snd (select_confirmed p t)))"
proof (cases rule: select_cases [of p t])
  case (chosen fam o')
  let ?d = "ot_store t p"
  let ?u = "update_deposit p (\<lambda>d. d\<lparr>pd_companion := Some o'\<rparr>) t"
  have d: "origin_static specs ops ?d" "origin_open cfg ops ?d"
    using t p by (simp_all add: proofs_ok_def deposits_static_def deposits_open_def)
  have select: "snd (select_confirmed p t) = ?u"
    by (simp add: chosen(1))
  have moved: "unmoved t ?u"
    using unmoved_select [of t p] by (simp add: select)
  have chain: "chain_proof cfg ops (pd_event ?d) o'" "observation_family o' \<in> ot_confirmed t"
    using d(2) chosen(2,3) unfolding origin_open_def by blast+
  show ?thesis
  proof (cases "pd_finalized ?d")
    case True
    have "proofs_ok cfg specs ops ?u"
      by (rule proofs_deposit [OF t moved]) (use True in \<open>simp add: origin_open_def\<close>)
    moreover have "finalize_deposit cfg p ?u = ?u"
      using True by (simp add: finalize_eq update_deposit_def)
    ultimately show ?thesis
      by (simp only: select)
  next
    case False
    have static: "origin_static specs ops (ot_store ?u p)"
      using d(1) static_identity [OF unmovedD(12) [OF moved]] by simp
    have "explained cfg specs ops r" if "r \<in> set (released_events cfg ?u (ot_store ?u p))" for r
      by (rule released_explained [OF static _ that]) (use chain in \<open>simp add: update_deposit_def\<close>)
    then have released: "\<forall>r \<in> set (released_events cfg ?u (ot_store ?u p)). explained cfg specs ops r"
      by blast
    have outbox: "emitted (ot_outbox (finalize_deposit cfg p ?u)) = emitted (ot_outbox t) @ released_events cfg ?u (ot_store ?u p)"
      using False by (simp add: finalize_eq) (simp add: update_deposit_def)
    show ?thesis
      unfolding select
    proof (rule proofs_unmoved [OF t unmoved_trans [OF moved unmoved_finalize]])
      show "outbox_explained cfg specs ops (finalize_deposit cfg p ?u)"
        using t released unfolding outbox_explained_def outbox set_append ball_Un by (simp add: proofs_ok_def outbox_explained_def)
      show "deposits_open cfg ops (finalize_deposit cfg p ?u)"
        using t d(2) by (auto simp: proofs_ok_def deposits_open_def finalize_eq update_deposit_def origin_open_def)
      show "cache_ok (oc_digest cfg) (ot_discovery (finalize_deposit cfg p ?u))"
        using t by (simp add: proofs_ok_def finalize_eq update_deposit_def)
    qed
  qed
next
  case (none t')
  have "proofs_ok cfg specs ops t'"
    using select_undecided [OF none] t proofs_deposit [OF t unmoved_deposit(4) open_simps(3)] by blast
  moreover have "ot_allocated t' = ot_allocated t"
    using unmovedD(3) [OF unmoved_select, of p t] none by simp
  ultimately show ?thesis
    using proofs_finalize p none by simp
qed

definition kept_proofs :: "origin_config \<Rightarrow> decrement_spec list \<Rightarrow> origin_op list \<Rightarrow> origin_tracker \<Rightarrow> origin_tracker \<Rightarrow> bool" where
  "kept_proofs cfg specs ops t t' \<longleftrightarrow> unmoved t t' \<and> proofs_ok cfg specs ops t'"

lemma proofs_discover:
  assumes t: "proofs_ok cfg specs ops t"
  shows "proofs_ok cfg specs ops (snd (discover_for cfg p d f s e t))"
    and "fst (discover_for cfg p d f s e t) = discover_companion_observation (oc_digest cfg) d f s (pd_timestamp (ot_store t p))
      (pd_flow (ot_store t p)) (pd_stream_sequence (ot_store t p)) e"
proof -
  let ?u = "snd (discover_for cfg p d f s e t)"
  obtain r cache where step: "discover (oc_digest cfg) (pd_timestamp (ot_store t p)) (pd_flow (ot_store t p))
      (pd_stream_sequence (ot_store t p)) d f s e (ot_discovery t) = (r, cache)"
    by (meson surj_pair)
  have ok: "cache_ok (oc_digest cfg) (ot_discovery t)"
    using t by (simp add: proofs_ok_def)
  have u: "?u = t\<lparr>ot_discovery := cache\<rparr>" "fst (discover_for cfg p d f s e t) = r"
    by (simp_all add: discover_for_def step)
  show "proofs_ok cfg specs ops ?u"
  proof (rule proofs_unmoved [OF t unmoved_discover])
    show "cache_ok (oc_digest cfg) (ot_discovery ?u)"
      unfolding u using discover_ok(2) [OF ok step] by simp
  qed (use t in \<open>simp_all add: u proofs_ok_def deposits_open_def outbox_explained_def\<close>)
  show "fst (discover_for cfg p d f s e t) = discover_companion_observation (oc_digest cfg) d f s (pd_timestamp (ot_store t p))
      (pd_flow (ot_store t p)) (pd_stream_sequence (ot_store t p)) e"
    unfolding u(2) by (rule discover_ok(1) [OF ok step])
qed

lemma proofs_contests:
  assumes t: "proofs_ok cfg specs ops t"
  shows "proofs_ok cfg specs ops (mark_family_confirmed fam reason t)" "proofs_ok cfg specs ops (extend_family_chain fam c t)"
    "proofs_ok cfg specs ops (notify_origin_observer cfg o' t)" "proofs_ok cfg specs ops (t\<lparr>ot_overflow := flows\<rparr>)"
    "proofs_ok cfg specs ops (t\<lparr>ot_contested_order := order, ot_contested := pairs\<rparr>)"
    "proofs_ok cfg specs ops (t\<lparr>ot_contested := pairs, ot_contested_order := order\<rparr>)"
proof -
  note aside = proofs_aside [OF t]
  show "proofs_ok cfg specs ops (mark_family_confirmed fam reason t)"
    by (rule aside [OF unmoved_family])
      (simp_all add: mark_family_confirmed_def remember_runtime_family_def Let_def split: list.split)
  show "proofs_ok cfg specs ops (extend_family_chain fam c t)"
    by (rule aside [OF unmoved_chain]) (simp_all add: extend_family_chain_def expire_family_chain_def Let_def split: list.split prod.split)
  show "proofs_ok cfg specs ops (notify_origin_observer cfg o' t)"
    by (rule aside [OF unmoved_notify]) (simp_all add: notify_origin_observer_def Let_def split: list.split)
  show "proofs_ok cfg specs ops (t\<lparr>ot_overflow := flows\<rparr>)"
    by (rule aside [OF unmoved_contests(1)]) simp_all
  show "proofs_ok cfg specs ops (t\<lparr>ot_contested_order := order, ot_contested := pairs\<rparr>)"
    by (rule aside [OF unmoved_contests(2)]) simp_all
  show "proofs_ok cfg specs ops (t\<lparr>ot_contested := pairs, ot_contested_order := order\<rparr>)"
    by (rule aside [OF unmoved_contests(3)]) simp_all
qed

lemma static_fields:
  assumes "origin_static specs ops d"
  shows "pd_flow d = ev_flow (pd_event d)" "pd_stream_sequence d = event_sequence (pd_event d)"
    "pd_timestamp d = ev_timestamp (pd_event d)"
    "pd_end_sequence d = (case (event_sequence (pd_event d), ev_message_length (pd_event d)) of
       (Some q, Some n) \<Rightarrow> Some (q + n) | _ \<Rightarrow> None)"
    "pd_delta_message d = Some m \<Longrightarrow> storage_message ops (pd_event d) m"
  using assms by (simp_all add: origin_static_def Let_def)

lemma proofs_pieces: "proofs_ok cfg specs ops t \<Longrightarrow> pieces_ok ops t"
  by (simp add: proofs_ok_def)

lemma proofs_message:
  assumes t: "proofs_ok cfg specs ops t" and p: "p < ot_allocated t" and message: "delta_message_of p t = Some m"
    and n: "ev_message_length (pd_event (ot_store t p)) = Some n"
  shows "storage_message ops (pd_event (ot_store t p)) m"
proof -
  let ?d = "ot_store t p"
  have static: "origin_static specs ops ?d" and pieces: "pieces_ok ops t"
    using t p by (simp_all add: proofs_ok_def deposits_static_def)
  show ?thesis
  proof (cases "pd_delta_message ?d")
    case (Some m')
    then show ?thesis
      using static_fields(5) [OF static] message by (simp add: delta_message_of_def)
  next
    case None
    then obtain q where q: "pd_stream_sequence ?d = Some q" "read_span (pd_flow ?d) q n t = Some m"
      using message n by (auto simp: delta_message_of_def Let_def split: option.splits)
    have "seen ops (pd_flow ?d) q m" "int (length m) = n"
      using read_span_seen [OF pieces q(2)] read_span_length [OF q(2)] by simp_all
    moreover have "event_sequence (pd_event ?d) = Some q"
      using q(1) static_fields(2) [OF static] by simp
    ultimately show ?thesis
      using static_fields(1) [OF static] n unfolding storage_message_def by simp
  qed
qed

interpretation proving: origin_decisions cfg "kept_proofs cfg specs ops t0" "{..<ot_allocated t0}"
  "\<lambda>p. chain_proof cfg ops (pd_event (ot_store t0 p))"
  "\<lambda>p m. \<forall>n. ev_message_length (pd_event (ot_store t0 p)) = Some n \<longrightarrow> storage_message ops (pd_event (ot_store t0 p)) m"
  "seen ops" "\<lambda>p. pd_flow (ot_store t0 p)" "\<lambda>p. pd_end_sequence (ot_store t0 p)"
proof (rule origin_decisions.intro)
  fix t u :: origin_tracker and p :: nat
  assume "kept_proofs cfg specs ops t0 t"
  then have moved: "unmoved t0 t" and t: "proofs_ok cfg specs ops t"
    by (simp_all add: kept_proofs_def)
  note moves = unmoved_trans [OF moved]
  have same: "ot_allocated t = ot_allocated t0" "deposit_identity (ot_store t p) = deposit_identity (ot_store t0 p)" for p
    using unmovedD(3,12) [OF moved] by simp_all
  note identity = identityD [OF same(2)]
  show "set (ot_pending t) \<subseteq> {..<ot_allocated t0}"
    using t unmovedD(3) [OF moved] by (auto simp: proofs_ok_def inside_def)
  show "pd_flow (ot_store t p) = pd_flow (ot_store t0 p) \<and> pd_end_sequence (ot_store t p) = pd_end_sequence (ot_store t0 p)"
    using identity by simp
  show "read_span flow position n t = Some message \<Longrightarrow> seen ops flow position message" for flow position n message
    by (rule read_span_seen [OF proofs_pieces [OF t]])
  show "kept_proofs cfg specs ops t0 (snd (discover_for cfg p d f s e t))" for d f s e p
    using proofs_discover(1) [OF t] moves [OF unmoved_discover] by (simp add: kept_proofs_def)
  show "kept_proofs cfg specs ops t0 (mark_family_confirmed fam reason t)" "kept_proofs cfg specs ops t0 (extend_family_chain fam c t)"
    "kept_proofs cfg specs ops t0 (notify_origin_observer cfg o' t)"
    "kept_proofs cfg specs ops t0 (t\<lparr>ot_overflow := insert flow (ot_overflow t)\<rparr>)"
    "kept_proofs cfg specs ops t0 (t\<lparr>ot_contested_order := order, ot_contested := ot_contested t - {pair}\<rparr>)"
    for fam reason c o' flow order pair
    using proofs_contests [OF t] moves [OF unmoved_family] moves [OF unmoved_chain] moves [OF unmoved_notify]
      moves [OF unmoved_contests(1)] moves [OF unmoved_contests(2)] by (simp_all add: kept_proofs_def)
  show "kept_proofs cfg specs ops t0 (u\<lparr>ot_contested := insert pair (ot_contested u), ot_contested_order := ot_contested_order u @ [pair]\<rparr>)"
    if "kept_proofs cfg specs ops t0 u" for pair
    using that proofs_contests(6) [of cfg specs ops u] unmoved_trans [OF _ unmoved_contests(3), of t0 u] by (simp add: kept_proofs_def)
  assume "p \<in> {..<ot_allocated t0}"
  then have p: "p < ot_allocated t"
    using same(1) by simp
  show "\<forall>n. ev_message_length (pd_event (ot_store t0 p)) = Some n \<longrightarrow> storage_message ops (pd_event (ot_store t0 p)) message"
    if "delta_message_of p t = Some message" for message
    using proofs_message [OF t p that] identity(1) [of p] by simp
  show "kept_proofs cfg specs ops t0 (update_deposit p (\<lambda>d. d\<lparr>pd_awaiting := w\<rparr>) t)"
    "kept_proofs cfg specs ops t0 (update_deposit p (\<lambda>d. d\<lparr>pd_frames_after := pd_frames_after d + k\<rparr>) t)"
    "kept_proofs cfg specs ops t0 (update_deposit p (\<lambda>d. d\<lparr>pd_candidates := [], pd_companion := None\<rparr>) t)" for w k
    using moves [OF unmoved_deposit(2)] moves [OF unmoved_deposit(3)] moves [OF unmoved_deposit(4)]
      proofs_deposit [OF t unmoved_deposit(2)] proofs_deposit [OF t unmoved_deposit(3)] proofs_deposit [OF t unmoved_deposit(4)]
    by (simp_all add: kept_proofs_def open_simps)
  show "kept_proofs cfg specs ops t0 (update_deposit p (\<lambda>d. d\<lparr>pd_candidates := pd_candidates d @ [(observation_family o', o')]\<rparr>) t)"
    if "chain_proof cfg ops (pd_event (ot_store t0 p)) o'" for o'
    using that moves [OF unmoved_deposit(1)] proofs_deposit [OF t unmoved_deposit(1)] open_simps(4) identity(1) [of p]
    by (simp add: kept_proofs_def)
  show "kept_proofs cfg specs ops t0 (finalize_deposit cfg p t)"
    using proofs_finalize [OF t p] moves [OF unmoved_finalize] by (simp add: kept_proofs_def)
  show "kept_proofs cfg specs ops t0 (finalize_deposit cfg p (snd (select_confirmed p t)))"
    using proofs_decide [OF t p] unmoved_trans [OF moves [OF unmoved_select] unmoved_finalize] by (simp add: kept_proofs_def)
  show "chain_proof cfg ops (pd_event (ot_store t0 p)) o'"
    if m: "\<forall>n. ev_message_length (pd_event (ot_store t0 p)) = Some n \<longrightarrow> storage_message ops (pd_event (ot_store t0 p)) d"
      and e: "pd_end_sequence (ot_store t0 p) = Some b" and f: "seen ops (pd_flow (ot_store t0 p)) i f"
      and s: "seen ops (pd_flow (ot_store t0 p)) j s" and order: "b \<le> i" "i + int (length f) \<le> j"
      and found: "fst (discover_for cfg p d f s prefix_end t) = Some o'" for d b i f j s prefix_end o'
  proof -
    have "origin_static specs ops (ot_store t0 p)"
      using t p static_identity [OF same(2)] by (simp add: proofs_ok_def deposits_static_def)
    note fields = static_fields [OF this]
    obtain q n where qn: "event_sequence (pd_event (ot_store t0 p)) = Some q" "ev_message_length (pd_event (ot_store t0 p)) = Some n" "b = q + n"
      using e fields(4) by (auto split: option.splits)
    have "discover_companion_observation (oc_digest cfg) d f s (ev_timestamp (pd_event (ot_store t0 p)))
        (ev_flow (pd_event (ot_store t0 p))) (event_sequence (pd_event (ot_store t0 p))) prefix_end = Some o'"
      using found proofs_discover(2) [OF t, of p d f s prefix_end] identity [of p] fields by simp
    then show ?thesis
      using m f s order qn fields(1) unfolding chain_proof_def by (intro exI [of _ d] exI [of _ f] exI [of _ s]) auto
  qed
qed

end
