(* ===== verification/Origin_Evidence.thy ===== *)
theory Origin_Evidence
  imports Origin_Provenance
begin

text \<open>
  The evidence through every section of the origin tracker and every interleaving: the proofs of
  \<open>Origin_Provenance\<close> are kept while more bytes are observed.
\<close>

section \<open>More observations\<close>

lemma frames_more: "set ops \<subseteq> set ops' \<Longrightarrow> set (frames_of ops) \<subseteq> set (frames_of ops')"
  by (auto simp: set_frames_of)

lemma received_more: "set ops \<subseteq> set ops' \<Longrightarrow> set (received_events ops) \<subseteq> set (received_events ops')"
  unfolding subset_iff received_event by blast

lemma storage_message_more: "storage_message ops e m \<Longrightarrow> set ops \<subseteq> set ops' \<Longrightarrow> storage_message ops' e m"
  using seen_mono [of ops _ _ _ ops'] unfolding storage_message_def by blast

lemma chain_more: "chain_proof cfg ops e o' \<Longrightarrow> set ops \<subseteq> set ops' \<Longrightarrow> chain_proof cfg ops' e o'"
  unfolding chain_proof_def using storage_message_more seen_mono by meson

lemma group_more: "group_ok ops es \<Longrightarrow> set ops \<subseteq> set ops' \<Longrightarrow> group_ok ops' es"
  using received_more unfolding group_ok_def by blast

lemma decrement_more:
  "decrement_proof (frames_of ops) specs flow g q es m \<Longrightarrow> set ops \<subseteq> set ops' \<Longrightarrow>
    decrement_proof (frames_of ops') specs flow g q es m"
  using frames_more unfolding decrement_proof_def by blast

lemma static_more: "origin_static specs ops d \<Longrightarrow> set ops \<subseteq> set ops' \<Longrightarrow> origin_static specs ops' d"
  unfolding origin_static_def Let_def matches_ok_def using group_more storage_message_more decrement_more by metis

lemma open_more: "origin_open cfg ops d \<Longrightarrow> set ops \<subseteq> set ops' \<Longrightarrow> origin_open cfg ops' d"
  using chain_more unfolding origin_open_def by blast

lemma explained_more: "explained cfg specs ops r \<Longrightarrow> set ops \<subseteq> set ops' \<Longrightarrow> explained cfg specs ops' r"
proof -
  assume r: "explained cfg specs ops r" and more: "set ops \<subseteq> set ops'"
  obtain e where e: "e \<in> set (received_events ops)" and cases: "r = e \<or>
        core r = core e \<and> ev_type r = (if ev_type e = ''storage_record'' then ''storage_delta'' else ev_type e) \<and>
        (ev_source r = None \<and> ev_type e \<noteq> ''storage_record'' \<or>
         ev_source r = Some ''Worker Production'' \<and> worker_proof cfg ops e \<and> confirmed_evidence r \<or>
         ev_source r = Some ''Player Inventory'' \<and> manual_proof specs ops e)"
    using r unfolding explained_def by blast
  have "worker_proof cfg ops e \<Longrightarrow> worker_proof cfg ops' e"
    unfolding worker_proof_def using chain_more more by blast
  moreover have "manual_proof specs ops e \<Longrightarrow> manual_proof specs ops' e"
    unfolding manual_proof_def using group_more decrement_more more by blast
  moreover have "e \<in> set (received_events ops')"
    using e received_more [OF more] by blast
  ultimately show ?thesis
    using cases unfolding explained_def by blast
qed

lemma proofs_more:
  assumes t: "proofs_ok cfg specs ops t" and more: "set ops \<subseteq> set ops'"
  shows "proofs_ok cfg specs ops' t"
proof -
  have "pieces_ok ops' t"
    using proofs_pieces [OF t] pieces_mono [OF more] unfolding pieces_ok_def by (meson order_trans)
  moreover have "deposits_static specs ops' t" "deposits_open cfg ops' t" "outbox_explained cfg specs ops' t"
    using t static_more [OF _ more] open_more [OF _ more] explained_more [OF _ more]
    by (simp_all add: proofs_ok_def deposits_static_def deposits_open_def outbox_explained_def)
  ultimately show ?thesis
    using t by (simp add: proofs_ok_def)
qed

section \<open>The invariant\<close>

definition entries_ok :: "origin_op list \<Rightarrow> origin_tracker \<Rightarrow> bool" where
  "entries_ok ops t \<longleftrightarrow>
     (\<forall>key b i e raw. (key, b) \<in> set (ot_staged t) \<longrightarrow> (i, e, raw) \<in> set (sb_entries b) \<longrightarrow>
        Origin_Register e raw \<in> set ops \<and> wrapper_of e = key)"

definition founded :: "origin_config \<Rightarrow> decrement_spec list \<Rightarrow> origin_op list \<Rightarrow> origin_tracker \<Rightarrow> bool" where
  "founded cfg specs ops t \<longleftrightarrow> proofs_ok cfg specs ops t \<and> ledger_from (frames_of ops) specs (ot_manual t) \<and> entries_ok ops t"

lemma founded_more: "founded cfg specs ops t \<Longrightarrow> set ops \<subseteq> set ops' \<Longrightarrow> founded cfg specs ops' t"
proof -
  assume t: "founded cfg specs ops t" and more: "set ops \<subseteq> set ops'"
  have "proofs_ok cfg specs ops' t"
    using t proofs_more [OF _ more] by (simp add: founded_def)
  moreover have "ledger_from (frames_of ops') specs (ot_manual t)"
    using t ledger_from_mono frames_more [OF more] unfolding founded_def by blast
  moreover have "entries_ok ops' t"
    using t more unfolding founded_def entries_ok_def by blast
  ultimately show ?thesis
    by (simp add: founded_def)
qed

lemma founded_kept: "founded cfg specs ops t \<Longrightarrow> kept_proofs cfg specs ops t t' \<Longrightarrow> founded cfg specs ops t'"
  using unmovedD(2,4) [of t t'] by (simp add: founded_def kept_proofs_def entries_ok_def)

lemma founded_refl: "founded cfg specs ops t \<Longrightarrow> kept_proofs cfg specs ops t t"
  by (simp add: founded_def kept_proofs_def unmoved_refl)

lemma founded_inside: "founded cfg specs ops t \<Longrightarrow> inside t"
  by (simp add: founded_def proofs_ok_def)

lemma proofs_pending:
  "proofs_ok cfg specs ops t \<Longrightarrow> \<forall>p \<in> set still. p < ot_allocated t \<Longrightarrow> proofs_ok cfg specs ops (t\<lparr>ot_pending := still\<rparr>)"
  by (simp add: proofs_ok_def inside_def pieces_ok_def retained_pieces_def deposits_static_def deposits_open_def outbox_explained_def)

lemma founded_pending:
  "founded cfg specs ops t \<Longrightarrow> \<forall>p \<in> set still. p < ot_allocated t \<Longrightarrow> founded cfg specs ops (t\<lparr>ot_pending := still\<rparr>)"
  by (simp add: founded_def proofs_pending entries_ok_def)

lemma proofs_fields:
  "proofs_ok cfg specs ops (t\<lparr>ot_manual := ledger\<rparr>) = proofs_ok cfg specs ops t"
  "proofs_ok cfg specs ops (t\<lparr>ot_storage_opcodes := opcodes\<rparr>) = proofs_ok cfg specs ops t"
  "proofs_ok cfg specs ops (t\<lparr>ot_staged := batches\<rparr>) = proofs_ok cfg specs ops t"
  "proofs_ok cfg specs ops (t\<lparr>ot_dispatching := dispatching\<rparr>) = proofs_ok cfg specs ops t"
  by (simp_all add: proofs_ok_def inside_def pieces_ok_def retained_pieces_def deposits_static_def deposits_open_def outbox_explained_def)

section \<open>Loops\<close>

lemma founded_visit:
  assumes t: "founded cfg specs ops t" and visit: "pending_visit visit"
    and kept: "\<And>p s. kept_proofs cfg specs ops t (snd s) \<Longrightarrow> p \<in> {..<ot_allocated t} \<Longrightarrow>
      kept_proofs cfg specs ops t (snd (visit p s))"
  shows "founded cfg specs ops (visit_pending visit t)"
proof -
  obtain still t' where loop: "fold visit (ot_pending t) ([], t) = (still, t')"
    by (meson surj_pair)
  have "kept_proofs cfg specs ops t (snd (fold visit (ot_pending t) ([], t)))"
    by (rule proving.visits_kept [OF founded_refl [OF t] _ kept]) (use founded_inside [OF t] in \<open>auto simp: inside_def\<close>)
  then have t': "founded cfg specs ops t'" "ot_allocated t' = ot_allocated t"
    using founded_kept [OF t] unmovedD(3) by (auto simp: loop kept_proofs_def)
  have "set still \<subseteq> set (ot_pending t)"
    using pending_visit.visited(2) [OF visit, of t] by (simp add: visit_pending_def loop)
  then have "\<forall>p \<in> set still. p < ot_allocated t'"
    using founded_inside [OF t] t'(2) by (auto simp: inside_def)
  then show ?thesis
    using founded_pending [OF t'(1)] by (simp add: visit_pending_def loop)
qed

lemma founded_visits:
  assumes "founded cfg specs ops t"
  shows "founded cfg specs ops (visit_pending (visit_span cfg ctx e) t)"
    "founded cfg specs ops (visit_pending (visit_frame cfg frame) t)"
    "founded cfg specs ops (visit_pending (visit_waiter cfg flow q) t)"
    "founded cfg specs ops (visit_pending (visit_stale cfg now) t)"
  by (rule founded_visit [OF assms],
    (rule span_visit.pending_visit_axioms frame_visit.pending_visit_axioms waiter_visit.pending_visit_axioms
      stale_visit.pending_visit_axioms),
    (rule proving.visit_span_kept proving.visit_frame_kept proving.visit_waiter_kept proving.visit_stale_kept; assumption))+

lemma founded_unfinalized: "founded cfg specs ops t \<Longrightarrow> founded cfg specs ops (t\<lparr>ot_pending := unfinalized t (ot_pending t)\<rparr>)"
  by (rule founded_pending) (auto simp: unfinalized_def dest!: founded_inside simp: inside_def)

lemma founded_evict_oldest: "founded cfg specs ops t \<Longrightarrow> founded cfg specs ops (evict_oldest_operation cfg flow t)"
proof -
  assume t: "founded cfg specs ops t"
  define oldest where "oldest = (if length (flow_operation_keys flow t) \<ge> MAX_PENDING_OPERATIONS_PER_FLOW
                    then hd (filter (\<lambda>p. pd_flow (ot_store t p) = flow) (ot_pending t)) else hd (ot_pending t))"
  define P where "P p \<longleftrightarrow> pending_operation_key (ot_store t p) = pending_operation_key (ot_store t oldest)" for p
  let ?u = "t\<lparr>ot_pending := filter (Not \<circ> P) (ot_pending t)\<rparr>"
  let ?v = "fold (evict_fail_closed cfg) (filter P (ot_pending t)) ?u"
  have result: "evict_oldest_operation cfg flow t = ?v\<lparr>ot_pending := unfinalized ?v (ot_pending ?v)\<rparr>"
    by (simp add: evict_oldest_operation_def Let_def oldest_def [symmetric] P_def [abs_def] comp_def)
  have inside: "\<forall>p \<in> set (ot_pending t). p < ot_allocated t"
    using founded_inside [OF t] by (simp add: inside_def)
  then have u: "founded cfg specs ops ?u"
    by (intro founded_pending [OF t]) simp
  have "kept_proofs cfg specs ops ?u ?v"
    by (rule proving.fold_evicted [OF founded_refl [OF u]]) (use inside in auto)
  then have "founded cfg specs ops ?v"
    by (rule founded_kept [OF u])
  then show ?thesis
    unfolding result by (rule founded_unfinalized)
qed

lemma founded_room: "founded cfg specs ops t \<Longrightarrow> founded cfg specs ops (make_operation_room n cfg p t)"
  by (induction n arbitrary: t) (simp_all add: Let_def founded_evict_oldest)

lemma founded_append:
  assumes t: "founded cfg specs ops t" and p: "p < ot_allocated t"
  shows "founded cfg specs ops (append_pending cfg p t)"
proof -
  let ?t1 = "t\<lparr>ot_pending := unfinalized t (ot_pending t)\<rparr>"
  let ?t2 = "make_operation_room (Suc (length (ot_pending ?t1))) cfg p ?t1"
  have t1: "founded cfg specs ops ?t1"
    using t by (rule founded_unfinalized)
  have "ot_allocated ?t2 = ot_allocated t"
    using narrowed_allocated [OF narrowed_room [OF founded_inside [OF t1]]] by (simp del: make_operation_room.simps)
  moreover have t2: "founded cfg specs ops ?t2"
    using t1 by (rule founded_room)
  ultimately have "founded cfg specs ops (?t2\<lparr>ot_pending := ot_pending ?t2 @ [p]\<rparr>)"
    using p founded_inside [OF t2] by (intro founded_pending) (auto simp: inside_def)
  then show ?thesis
    by (simp only: append_pending_def Let_def)
qed

lemma founded_close: "founded cfg specs ops t \<Longrightarrow> p < ot_allocated t \<Longrightarrow> founded cfg specs ops (close_pending cfg p t)"
  by (rule founded_kept [OF _ proving.closed_pending]) (auto intro: founded_refl)

lemma founded_resolve: "founded cfg specs ops t \<Longrightarrow> p < ot_allocated t \<Longrightarrow> resolve_companions cfg p t = (b, t') \<Longrightarrow> founded cfg specs ops t'"
  by (rule founded_kept [OF _ proving.resolved]) (auto intro: founded_refl)

section \<open>Registering\<close>

lemma founded_boundary: "founded cfg specs ops t \<Longrightarrow> record_boundary key e t = (e', t') \<Longrightarrow> founded cfg specs ops t'"
proof -
  assume t: "founded cfg specs ops t" and step: "record_boundary key e t = (e', t')"
  then have fields: "ot_pending t' = ot_pending t" "ot_allocated t' = ot_allocated t" "ot_store t' = ot_store t"
      "ot_outbox t' = ot_outbox t" "ot_staged t' = ot_staged t" "ot_manual t' = ot_manual t" "ot_discovery t' = ot_discovery t"
      "ot_spans t' = ot_spans t" "ot_recent t' = ot_recent t"
    by (auto simp: record_boundary_def Let_def split: option.splits list.splits if_splits)
  then show ?thesis
    using t unfolding founded_def proofs_ok_def inside_def pieces_ok_def retained_pieces_def deposits_static_def
      deposits_open_def outbox_explained_def entries_ok_def by simp
qed

lemma founded_opcodes: "founded cfg specs ops (t\<lparr>ot_storage_opcodes := opcodes\<rparr>) = founded cfg specs ops t"
  by (simp add: founded_def proofs_fields entries_ok_def)

lemma founded_learn: "founded cfg specs ops t \<Longrightarrow> learn_boundary cfg es flow q t = (e, t') \<Longrightarrow> founded cfg specs ops t'"
proof -
  assume t: "founded cfg specs ops t" and step: "learn_boundary cfg es flow q t = (e, t')"
  define t1 where "t1 = (case ev_opcode (hd es) of
      None \<Rightarrow> t | Some opcode \<Rightarrow> t\<lparr>ot_storage_opcodes := insert opcode (ot_storage_opcodes t)\<rparr>)"
  have t1: "founded cfg specs ops t1"
    using t by (simp add: t1_def founded_opcodes split: option.split)
  have "founded cfg specs ops (retry_boundary_waiters cfg flow q u)" if "founded cfg specs ops u" for u q
    unfolding retry_boundary_waiters_def Let_def by (intro founded_unfinalized founded_visits(3) that)
  then show ?thesis
    using step t1 founded_boundary [OF t1]
    unfolding learn_boundary_def Let_def t1_def [symmetric] by (auto split: option.splits prod.splits)
qed

lemma founded_count: "founded cfg specs ops t \<Longrightarrow> founded cfg specs ops (update_deposit p (\<lambda>d. d\<lparr>pd_frames_after := k d\<rparr>) t)"
  by (rule founded_kept)
    (auto simp: kept_proofs_def founded_def open_simps intro: unmoved_deposit proofs_deposit [OF _ unmoved_deposit(3)])

lemma founded_start:
  assumes t: "founded cfg specs ops t" and p: "p < ot_allocated t"
  shows "founded cfg specs ops (start_operation cfg p flow t)"
proof -
  obtain b t1 where resolve: "resolve_companions cfg p t = (b, t1)"
    by (meson surj_pair)
  have t1: "founded cfg specs ops t1"
    using t p resolve by (rule founded_resolve)
  have p1: "p < ot_allocated t1"
    using p unmovedD(3) [OF unmoved_resolve [OF resolve]] by simp
  define after where "after = int (length (filter (\<lambda>frame. frame_is_after frame (ot_store t1 p)) (dict_get (ot_recent t1) flow [])))"
  let ?t2 = "update_deposit p (\<lambda>d. d\<lparr>pd_frames_after := pd_frames_after d + after\<rparr>) t1"
  have "founded cfg specs ops ?t2" "p < ot_allocated ?t2"
    using founded_count [OF t1] p1 by (simp_all add: update_deposit_def)
  then show ?thesis
    using t1 resolve founded_close [of cfg specs ops ?t2 p] founded_append [of cfg specs ops ?t2 p]
    by (cases b) (simp_all add: start_operation_def Let_def after_def [symmetric])
qed

lemma delta_message_raw: "delta_message_from raw e = Some m \<Longrightarrow> raw = Some m \<and> ev_message_length e = Some (int (length m))"
  by (auto simp: delta_message_from_def split: option.splits if_splits)

lemma static_new:
  assumes es: "group_ok ops es" and matches: "matches_ok specs ops es ms"
    and raw: "\<And>m. raw = Some m \<Longrightarrow> \<exists>e. Origin_Register e (Some m) \<in> set ops \<and> wrapper_of e = wrapper_of (hd es)"
  shows "origin_static specs ops (new_deposit es raw (ev_flow (hd es)) (event_sequence (hd es)) prefix_end ms)"
proof -
  have "storage_message ops (hd es) m" if "delta_message_from raw (hd es) = Some m" for m
    using delta_message_raw [OF that] raw unfolding storage_message_def by blast
  then show ?thesis
    using es matches by (simp add: origin_static_def new_deposit_def Let_def)
qed

lemma founded_allocate:
  assumes t: "founded cfg specs ops t" and d: "origin_static specs ops d" "origin_open cfg ops d"
  shows "founded cfg specs ops (snd (allocate_deposit d t))"
  using t d
  by (auto simp: founded_def proofs_ok_def inside_def pieces_ok_def retained_pieces_def deposits_static_def deposits_open_def
      outbox_explained_def entries_ok_def allocate_deposit_def less_Suc_eq)

lemma founded_register_group:
  assumes t: "founded cfg specs ops t" and es: "group_ok ops es"
    and raw: "\<And>m. raw = Some m \<Longrightarrow> \<exists>e. Origin_Register e (Some m) \<in> set ops \<and> wrapper_of e = wrapper_of (hd es)"
  shows "founded cfg specs ops (register_group cfg es raw (ev_flow (hd es)) (event_sequence (hd es)) t)"
proof -
  let ?flow = "ev_flow (hd es)" and ?q = "event_sequence (hd es)" and ?g = "ev_flow_generation (hd es)"
  obtain e t1 where learn: "learn_boundary cfg es ?flow ?q t = (e, t1)"
    by (meson surj_pair)
  obtain ms ledger where reserved: "reserve_matching_decrement ?flow ?g ?q es (ot_manual t1) = (ms, ledger)"
    by (meson surj_pair)
  have t1: "founded cfg specs ops t1"
    using t learn by (rule founded_learn)
  then have from1: "ledger_from (frames_of ops) specs (ot_manual t1)"
    by (simp add: founded_def)
  have t2: "founded cfg specs ops (t1\<lparr>ot_manual := ledger\<rparr>)"
    using t1 ledger_from_reserve [OF from1, of ?flow ?g ?q es] by (simp add: founded_def proofs_fields entries_ok_def reserved)
  have "matches_ok specs ops es ms"
  proof (cases ?q)
    case None
    then have "ms = []"
      using reserved by (simp add: reserve_matching_decrement_def)
    then show ?thesis
      by (simp add: matches_ok_def)
  next
    case (Some q)
    then show ?thesis
      using reserve_proven [OF from1, of ?flow ?g q es ms ledger] reserved by (auto simp: matches_ok_def)
  qed
  then have "origin_static specs ops (new_deposit es raw ?flow ?q e ms)"
    by (intro static_new es raw)
  moreover have "origin_open cfg ops (new_deposit es raw ?flow ?q e ms)"
    by (simp add: origin_open_def new_deposit_def Let_def)
  ultimately have t3: "founded cfg specs ops (snd (allocate_deposit (new_deposit es raw ?flow ?q e ms) (t1\<lparr>ot_manual := ledger\<rparr>)))"
    by (rule founded_allocate [OF t2])
  have "founded cfg specs ops (start_operation cfg (ot_allocated t1) ?flow
      (snd (allocate_deposit (new_deposit es raw ?flow ?q e ms) (t1\<lparr>ot_manual := ledger\<rparr>))))"
    by (rule founded_start [OF t3]) (simp add: allocate_deposit_def)
  then show ?thesis
    by (simp add: register_group_def learn reserved allocate_deposit_def)
qed

section \<open>Batches\<close>

lemma received_registered: "Origin_Register e raw \<in> set ops \<Longrightarrow> e \<in> set (received_events ops)"
  unfolding received_event by blast

lemma explained_received: "e \<in> set (received_events ops) \<Longrightarrow> explained cfg specs ops e"
  unfolding explained_def by blast

lemma proofs_outbox:
  "proofs_ok cfg specs ops t \<Longrightarrow> set es \<subseteq> set (received_events ops) \<Longrightarrow>
    proofs_ok cfg specs ops (t\<lparr>ot_outbox := ot_outbox t @ map Emit es\<rparr>)"
  using explained_received
  by (auto simp: proofs_ok_def inside_def pieces_ok_def retained_pieces_def deposits_static_def deposits_open_def outbox_explained_def)

lemma entries_at:
  "set (map (\<lambda>i. the (map_of d i)) (sort (map fst d))) \<subseteq> snd ` set d"
proof
  fix v assume "v \<in> set (map (\<lambda>i. the (map_of d i)) (sort (map fst d)))"
  then obtain i where i: "i \<in> fst ` set d" "v = the (map_of d i)"
    by auto
  then obtain w where "map_of d i = Some w"
    by (metis map_of_eq_None_iff not_None_eq)
  then show "v \<in> snd ` set d"
    using i(2) by (auto dest!: map_of_SomeD intro!: rev_image_eqI)
qed

definition batch_received :: "origin_op list \<Rightarrow> staged_key \<Rightarrow> staged_batch \<Rightarrow> bool" where
  "batch_received ops key b \<longleftrightarrow>
     (\<forall>entry \<in> set (sb_entries b). Origin_Register (fst (snd entry)) (snd (snd entry)) \<in> set ops \<and> wrapper_of (fst (snd entry)) = key)"

lemma entries_ok_eq: "entries_ok ops t \<longleftrightarrow> (\<forall>s \<in> set (ot_staged t). batch_received ops (fst s) (snd s))"
  unfolding entries_ok_def batch_received_def by force

lemma neutral_received:
  assumes "batch_received ops key b"
  shows "set (neutral_entries b) \<subseteq> set (received_events ops)"
proof -
  have "set (neutral_entries b) = fst ` set (map (\<lambda>i. the (map_of (sb_entries b) i)) (sort (map fst (sb_entries b))))"
    by (simp add: neutral_entries_def image_image)
  also have "\<dots> \<subseteq> fst ` snd ` set (sb_entries b)"
    by (rule image_mono) (rule entries_at)
  also have "\<dots> \<subseteq> set (received_events ops)"
    using assms received_registered unfolding batch_received_def by blast
  finally show ?thesis .
qed

lemma founded_neutral:
  "founded cfg specs ops t \<Longrightarrow> batch_received ops key b \<Longrightarrow> founded cfg specs ops (emit_neutral_entries b t)"
  using proofs_outbox [OF _ neutral_received] by (simp add: founded_def emit_neutral_eq entries_ok_def)

lemma founded_staged:
  "founded cfg specs ops t \<Longrightarrow> \<forall>s \<in> set batches. batch_received ops (fst s) (snd s) \<Longrightarrow>
    founded cfg specs ops (t\<lparr>ot_staged := batches\<rparr>)"
  by (simp add: founded_def proofs_fields entries_ok_eq)

lemma remdups_single: "length (remdups xs) = 1 \<Longrightarrow> x \<in> set xs \<Longrightarrow> y \<in> set xs \<Longrightarrow> x = y"
  by (metis One_nat_def card_1_singletonE card_set length_remdups_card_conv singletonD)

lemma founded_close_batch:
  assumes t: "founded cfg specs ops t" and b: "batch_received ops key b" "sb_entries b \<noteq> []"
    and key: "\<And>e. wrapper_of e = key \<Longrightarrow> ev_flow e = flow \<and> event_sequence e = q"
  shows "founded cfg specs ops (close_batch cfg b flow q t)"
proof -
  define ordered where "ordered = map (\<lambda>i. the (map_of (sb_entries b) i)) (sort (map fst (sb_entries b)))"
  define messages where "messages = remdups (List.map_filter snd ordered)"
  have entry: "Origin_Register (fst entry) (snd entry) \<in> set ops" "wrapper_of (fst entry) = key" if "entry \<in> set ordered" for entry
    using that entries_at [of "sb_entries b"] b(1) unfolding ordered_def batch_received_def by blast+
  have ne: "ordered \<noteq> []"
    using b(2) by (simp add: ordered_def) (metis length_0_conv length_sort map_is_Nil_conv)
  then have head: "wrapper_of (hd (map fst ordered)) = key"
    using entry(2) [of "hd ordered"] by (simp add: hd_map)
  note neutral = founded_neutral [OF t b(1)]
  show ?thesis
  proof (cases "sb_invalid b \<or> set (map fst (sb_entries b)) \<noteq> {1 .. sb_expected_count b} \<or>
      length (remdups (map (\<lambda>entry. ev_type (fst entry)) ordered)) \<noteq> 1 \<or> length messages > 1")
    case True
    then show ?thesis
      using neutral unfolding close_batch_def Let_def ordered_def [symmetric] messages_def [symmetric] by auto
  next
    case False
    let ?raw = "case messages of [] \<Rightarrow> None | m # _ \<Rightarrow> Some m"
    have "ev_type x = ev_type (hd (map fst ordered))" if "x \<in> set (map fst ordered)" for x
    proof (rule remdups_single)
      show "length (remdups (map (\<lambda>entry. ev_type (fst entry)) ordered)) = 1"
        using False by blast
      show "ev_type x \<in> set (map (\<lambda>entry. ev_type (fst entry)) ordered)"
        using that by auto
      show "ev_type (hd (map fst ordered)) \<in> set (map (\<lambda>entry. ev_type (fst entry)) ordered)"
        using ne by (simp add: hd_map)
    qed
    moreover have "x \<in> set (received_events ops)" "wrapper_of x = wrapper_of (hd (map fst ordered))" if x: "x \<in> set (map fst ordered)" for x
    proof -
      obtain item where item: "item \<in> set ordered" "x = fst item"
        using x unfolding set_map by (rule imageE)
      show "x \<in> set (received_events ops)" "wrapper_of x = wrapper_of (hd (map fst ordered))"
        unfolding item(2) using received_registered [OF entry(1) [OF item(1)]] entry(2) [OF item(1)] head by simp_all
    qed
    moreover have "map fst ordered \<noteq> []"
      using ne by simp
    ultimately have group: "group_ok ops (map fst ordered)"
      unfolding group_ok_def by blast
    have raw: "\<exists>e. Origin_Register e (Some m) \<in> set ops \<and> wrapper_of e = wrapper_of (hd (map fst ordered))" if "?raw = Some m" for m
    proof -
      have "m \<in> set messages"
        using that by (cases messages) simp_all
      then have "m \<in> set (List.map_filter snd ordered)"
        by (simp only: messages_def set_remdups)
      then obtain entry where "entry \<in> set ordered" "snd entry = Some m"
        by (auto simp: set_map_filter_Some)
      then show ?thesis
        using entry [of entry] head by metis
    qed
    have "founded cfg specs ops (register_group cfg (map fst ordered) ?raw (ev_flow (hd (map fst ordered)))
        (event_sequence (hd (map fst ordered))) t)"
      by (rule founded_register_group [OF t group raw])
    then have "founded cfg specs ops (register_group cfg (map fst ordered) ?raw flow q t)"
      using key [OF head] by simp
    then show ?thesis
      using False unfolding close_batch_def Let_def ordered_def [symmetric] messages_def [symmetric] by auto
  qed
qed

lemma wrapper_key: "wrapper_of e' = wrapper_of e \<Longrightarrow> ev_flow e' = ev_flow e \<and> event_sequence e' = event_sequence e"
  using wrapper_fields(1,3) by blast

lemma ball_subset: "\<forall>x \<in> A. P x \<Longrightarrow> B \<subseteq> A \<Longrightarrow> \<forall>x \<in> B. P x"
  by blast

lemma founded_stage:
  assumes t: "founded cfg specs ops t" and e: "Origin_Register e raw \<in> set ops"
  shows "founded cfg specs ops (stage_batch cfg (i, expected) e raw (event_sequence e) t)"
proof -
  define key where "key = staged_key_of e (event_sequence e)"
  define batch where "batch = add_to_batch i expected e raw (map_of (ot_staged t) key)"
  have batches: "\<forall>s \<in> set (ot_staged t). batch_received ops (fst s) (snd s)"
    using t by (simp add: founded_def entries_ok_eq)
  have old: "batch_received ops key b" if "map_of (ot_staged t) key = Some b" for b
    using bspec [OF batches map_of_SomeD [OF that]] by simp
  define entries where "entries = (case map_of (ot_staged t) key of None \<Rightarrow> [] | Some b \<Rightarrow> sb_entries b)"
  have batch_entries: "sb_entries batch = (if map_of entries i = None then AList.update i (e, raw) entries else entries)"
    by (simp add: batch_def add_to_batch_entries Let_def entries_def)
  have "\<forall>entry \<in> set entries. Origin_Register (fst (snd entry)) (snd (snd entry)) \<in> set ops \<and> wrapper_of (fst (snd entry)) = key"
    using old unfolding entries_def batch_received_def by (cases "map_of (ot_staged t) key") simp_all
  moreover have "Origin_Register (fst (snd (i, e, raw))) (snd (snd (i, e, raw))) \<in> set ops \<and> wrapper_of (fst (snd (i, e, raw))) = key"
    using e by (simp add: wrapper_of_def key_def)
  ultimately have batch: "batch_received ops key batch"
    unfolding batch_received_def batch_entries
    by (auto simp del: split_paired_All split: if_split dest!: subsetD [OF set_update_subset])
  have nonempty: "sb_entries batch \<noteq> []"
    unfolding batch_entries by (cases entries) auto
  have "\<forall>s \<in> insert (key, batch) (set (ot_staged t)). batch_received ops (fst s) (snd s)"
    using batches batch by simp
  then have "\<forall>s \<in> set (AList.update key batch (ot_staged t)). batch_received ops (fst s) (snd s)"
    by (rule ball_subset [OF _ set_update_subset])
  then have updated: "founded cfg specs ops (t\<lparr>ot_staged := AList.update key batch (ot_staged t)\<rparr>)"
    by (rule founded_staged [OF t])
  have "\<forall>s \<in> set (AList.delete key (ot_staged t)). batch_received ops (fst s) (snd s)"
    using batches unfolding set_delete by blast
  then have removed: "founded cfg specs ops (t\<lparr>ot_staged := AList.delete key (ot_staged t)\<rparr>)"
    by (rule founded_staged [OF t])
  have "founded cfg specs ops (close_batch cfg batch (ev_flow e) (event_sequence e) (t\<lparr>ot_staged := AList.delete key (ot_staged t)\<rparr>))"
  proof (rule founded_close_batch [OF removed batch nonempty])
    show "ev_flow e' = ev_flow e \<and> event_sequence e' = event_sequence e" if "wrapper_of e' = key" for e'
      by (rule wrapper_key) (use that in \<open>simp add: key_def wrapper_of_def\<close>)
  qed
  then show ?thesis
    using updated by (simp add: stage_batch_def Let_def key_def [symmetric] batch_def [symmetric])
qed

lemma founded_manual:
  "founded cfg specs ops t \<Longrightarrow> ledger_from (frames_of ops) specs ledger \<Longrightarrow> founded cfg specs ops (t\<lparr>ot_manual := ledger\<rparr>)"
  by (simp add: founded_def proofs_fields entries_ok_def)

lemma founded_register:
  assumes t: "founded cfg specs ops t" and e: "Origin_Register e raw \<in> set ops"
  shows "founded cfg specs ops (register_locked cfg e raw t)"
proof -
  let ?t = "t\<lparr>ot_manual := snd (activate_generation (ev_flow e) (ev_flow_generation e) (ot_manual t))\<rparr>"
  have t1: "founded cfg specs ops ?t"
    by (rule founded_manual [OF t], rule ledger_from_activate) (use t in \<open>simp add: founded_def\<close>)
  have "group_ok ops [e]"
    using received_registered [OF e] by (simp add: group_ok_def)
  then have "founded cfg specs ops (register_group cfg [e] raw (ev_flow e) (event_sequence e) ?t)"
    using founded_register_group [OF t1, of "[e]" raw] e by auto
  then show ?thesis
    using founded_stage [OF t1 e] by (simp add: register_locked_def Let_def split: option.split)
qed

section \<open>Other sections\<close>

lemma set_deque_append: "set (deque_append limit xs x) \<subseteq> insert x (set xs)"
  using set_drop_subset [of "length (xs @ [x]) - limit" "xs @ [x]"] by (simp add: deque_append_def Let_def)

lemma dict_get_update: "dict_get (AList.update k v d) k' v0 = (if k' = k then v else dict_get d k' v0)"
  by (simp add: dict_get_def AList.update_conv')

lemma founded_spans:
  assumes t: "founded cfg specs ops t" and op: "Origin_Stream data ctx \<in> set ops" and start: "ctx_stream_start ctx = Some start"
  shows "founded cfg specs ops (t\<lparr>ot_spans := AList.update (ctx_flow ctx)
    (deque_append limit (dict_get (ot_spans t) (ctx_flow ctx) []) (start, data)) (ot_spans t)\<rparr>)" (is "founded cfg specs ops ?u")
proof -
  have pieces: "pieces_ok ops t"
    using t by (simp add: founded_def proofs_ok_def)
  have "(start, data) \<in> pieces_of ops (ctx_flow ctx)"
    using op start unfolding pieces_of_def by blast
  then have "set (retained_pieces flow ?u) \<subseteq> pieces_of ops flow" for flow
    using pieces set_deque_append [of limit "dict_get (ot_spans t) (ctx_flow ctx) []" "(start, data)"]
    unfolding pieces_ok_def retained_pieces_def by (auto simp: dict_get_update)
  then have "pieces_ok ops ?u"
    unfolding pieces_ok_def by blast
  then show ?thesis
    using t by (simp add: founded_def proofs_ok_def inside_def deposits_static_def deposits_open_def outbox_explained_def entries_ok_def)
qed

lemma founded_recent:
  assumes t: "founded cfg specs ops t" and op: "Origin_Frame frame \<in> set ops"
  shows "founded cfg specs ops (t\<lparr>ot_recent := AList.update (ctx_flow (fr_context frame))
    (deque_append limit (dict_get (ot_recent t) (ctx_flow (fr_context frame)) []) frame) (ot_recent t)\<rparr>)" (is "founded cfg specs ops ?u")
proof -
  let ?flow = "ctx_flow (fr_context frame)"
  have pieces: "pieces_ok ops t"
    using t by (simp add: founded_def proofs_ok_def)
  have "(q, fr_message frame) \<in> pieces_of ops ?flow" if "fr_stream_sequence frame = Some q" for q
    using op that unfolding pieces_of_def by blast
  then have "set (frame_spans [frame]) \<subseteq> pieces_of ops ?flow"
    by (auto simp: frame_spans_def map_filter_simps split: option.splits)
  moreover have "set (frame_spans xs) \<subseteq> set (frame_spans ys) \<union> set (frame_spans [frame])" if "set xs \<subseteq> insert frame (set ys)" for xs ys
    using that unfolding frame_spans_def subset_iff Un_iff set_map_filter_Some by auto
  from this [OF set_deque_append] have
    "set (frame_spans (deque_append limit (dict_get (ot_recent t) ?flow []) frame)) \<subseteq>
      set (frame_spans (dict_get (ot_recent t) ?flow [])) \<union> set (frame_spans [frame])" .
  ultimately have "set (retained_pieces flow ?u) \<subseteq> pieces_of ops flow" for flow
    using pieces unfolding pieces_ok_def retained_pieces_def by (auto simp: dict_get_update) blast+
  then have "pieces_ok ops ?u"
    unfolding pieces_ok_def by blast
  then show ?thesis
    using t by (simp add: founded_def proofs_ok_def inside_def deposits_static_def deposits_open_def outbox_explained_def entries_ok_def)
qed

lemma founded_stream:
  assumes t: "founded cfg specs ops t" and op: "Origin_Stream data ctx \<in> set ops"
  shows "founded cfg specs ops (observe_stream_locked cfg data ctx t)"
  using t founded_spans [OF t op] founded_visits(1) by (simp add: observe_stream_locked_def Let_def split: option.split)

lemma founded_release:
  assumes t: "founded cfg specs ops t"
  shows "founded cfg specs ops (release_staged P t)"
proof -
  have batches: "\<forall>s \<in> set (ot_staged t). batch_received ops (fst s) (snd s)"
    using t by (simp add: founded_def entries_ok_eq)
  have loop: "founded cfg specs ops (fold (\<lambda>(key, batch) t. emit_neutral_entries batch (t\<lparr>ot_staged := AList.delete key (ot_staged t)\<rparr>)) xs u)"
    if "founded cfg specs ops u" and "\<forall>s \<in> set xs. batch_received ops (fst s) (snd s)" for xs u
    using that
  proof (induction xs arbitrary: u)
    case (Cons x xs)
    have "founded cfg specs ops (u\<lparr>ot_staged := AList.delete (fst x) (ot_staged u)\<rparr>)"
      using Cons.prems(1) by (intro founded_staged) (auto simp: founded_def entries_ok_eq set_delete)
    then have "founded cfg specs ops (emit_neutral_entries (snd x) (u\<lparr>ot_staged := AList.delete (fst x) (ot_staged u)\<rparr>))"
      using Cons.prems(2) by (intro founded_neutral [of _ _ _ _ "fst x"]) simp_all
    then show ?case
      using Cons by (simp add: case_prod_unfold)
  qed simp
  show ?thesis
    unfolding release_staged_def by (rule loop [OF t]) (use batches in auto)
qed

lemma founded_stale: "founded cfg specs ops t \<Longrightarrow> founded cfg specs ops (flush_stale_origin_locked cfg now t)"
  unfolding flush_stale_origin_locked_def Let_def
  by (intro founded_visits(4) founded_release founded_manual ledger_from_prune) (simp_all add: founded_def)

lemma founded_frame:
  assumes t: "founded cfg specs ops t"
  shows "founded cfg specs (ops @ [Origin_Frame frame]) (observe_frame_locked cfg frame t)"
proof -
  let ?ops = "ops @ [Origin_Frame frame]" and ?flow = "ctx_flow (fr_context frame)"
  have t1: "founded cfg specs ?ops t"
    using t by (rule founded_more) auto
  have frames: "frames_of ?ops = frames_of ops @ [frame]"
    by (induction ops) (auto simp: frames_of_def map_filter_simps split: origin_op.split option.split)
  have "ledger_from (frames_of ?ops) specs (observe_manual_frame frame (ot_manual t))"
    unfolding frames by (rule ledger_from_observe) (use t in \<open>simp add: founded_def\<close>)
  then have "founded cfg specs ?ops (t\<lparr>ot_manual := observe_manual_frame frame (ot_manual t)\<rparr>)"
    by (rule founded_manual [OF t1])
  from founded_recent [OF this, of frame BACKWARD_WINDOW] have u: "founded cfg specs ?ops
      (t\<lparr>ot_manual := observe_manual_frame frame (ot_manual t), ot_recent := AList.update ?flow
        (deque_append BACKWARD_WINDOW (dict_get (ot_recent t) ?flow []) frame) (ot_recent t)\<rparr>)"
    by simp
  then show ?thesis
    using founded_visits(2) [OF u] by (simp add: observe_frame_locked_def Let_def)
qed

lemma proofs_purge: "proofs_ok cfg specs ops t \<Longrightarrow> proofs_ok cfg specs ops (purge_flow_history flow t)"
proof -
  assume t: "proofs_ok cfg specs ops t"
  have "set (retained_pieces f (purge_flow_history flow t)) \<subseteq> set (retained_pieces f t)" for f
    by (auto simp: retained_pieces_def purge_flow_history_def dict_get_def AList.delete_conv' frame_spans_def map_filter_simps)
  then have "pieces_ok ops (purge_flow_history flow t)"
    using t unfolding proofs_ok_def pieces_ok_def by blast
  then show ?thesis
    using t new_cache_ok [of "oc_digest cfg"]
    by (simp add: proofs_ok_def) (simp add: purge_flow_history_def inside_def deposits_static_def deposits_open_def outbox_explained_def)
qed

lemma founded_purge: "founded cfg specs ops t \<Longrightarrow> founded cfg specs ops (purge_flow_history flow t)"
  using proofs_purge ledger_from_purge [of "frames_of ops" specs "ot_manual t" flow]
  by (simp add: founded_def) (simp add: purge_flow_history_def entries_ok_def)

lemma founded_close_flow: "founded cfg specs ops t \<Longrightarrow> founded cfg specs ops (close_origin_flow_locked cfg flow t)"
proof -
  assume t: "founded cfg specs ops t"
  define t1 where "t1 = release_staged (\<lambda>(key, _). fst key = flow) t"
  have t1: "founded cfg specs ops t1"
    unfolding t1_def by (rule founded_release [OF t])
  define t2 where "t2 = fold (\<lambda>p t. if pd_flow (ot_store t p) = flow \<and> \<not> pd_finalized (ot_store t p) then close_pending cfg p t else t)
      (ot_pending t1) t1"
  have "kept_proofs cfg specs ops t1 t2"
    unfolding t2_def by (rule proving.fold_kept [OF founded_refl [OF t1]])
      (use proving.closed_pending founded_inside [OF t1] in \<open>auto simp: inside_def\<close>)
  then have t2: "founded cfg specs ops t2"
    by (rule founded_kept [OF t1])
  have "founded cfg specs ops (t2\<lparr>ot_pending := filter P (ot_pending t2)\<rparr>)" for P
    by (rule founded_pending [OF t2]) (use founded_inside [OF t2] in \<open>simp add: inside_def\<close>)
  then show ?thesis
    by (simp add: close_origin_flow_locked_def Let_def t1_def [symmetric] t2_def [symmetric] founded_purge)
qed

lemma founded_finalize_all:
  assumes t: "founded cfg specs ops t"
  shows "founded cfg specs ops (finalize_all_origin_locked cfg t)"
proof -
  have batches: "\<forall>s \<in> set (ot_staged t). batch_received ops (fst s) (snd s)"
    using t by (simp add: founded_def entries_ok_eq)
  have loop: "founded cfg specs ops (fold (\<lambda>(_, batch). emit_neutral_entries batch) xs u)"
    if "founded cfg specs ops u" and "\<forall>s \<in> set xs. batch_received ops (fst s) (snd s)" for xs u
    using that
  proof (induction xs arbitrary: u)
    case (Cons x xs)
    have "founded cfg specs ops (emit_neutral_entries (snd x) u)"
      using Cons.prems by (intro founded_neutral [of _ _ _ _ "fst x"]) simp_all
    then show ?case
      using Cons by (simp add: case_prod_unfold)
  qed simp
  define t1 where "t1 = fold (\<lambda>(_, batch). emit_neutral_entries batch) (ot_staged t) (t\<lparr>ot_staged := []\<rparr>)"
  have t1: "founded cfg specs ops t1"
    unfolding t1_def by (rule loop [OF founded_staged [OF t] batches]) simp
  let ?t = "t1\<lparr>ot_pending := []\<rparr>"
  define t2 where "t2 = fold (close_pending cfg) (ot_pending t1) ?t"
  have u: "founded cfg specs ops ?t"
    by (rule founded_pending [OF t1]) simp
  have "kept_proofs cfg specs ops ?t t2"
    unfolding t2_def by (rule proving.fold_closed [OF founded_refl [OF u]]) (use founded_inside [OF t1] in \<open>auto simp: inside_def\<close>)
  then have t2: "founded cfg specs ops t2"
    by (rule founded_kept [OF u])
  have result: "finalize_all_origin_locked cfg t =
      t2\<lparr>ot_discovery := new_discovery_cache, ot_recent := [], ot_spans := [], ot_manual := clear_ledger (ot_manual t2),
            ot_family_chains := [], ot_family_chain_order := [], ot_observed := {}, ot_observed_order := [],
            ot_contested := {}, ot_contested_order := [], ot_overflow := {}, ot_boundaries := [], ot_boundary_order := []\<rparr>"
    by (simp add: finalize_all_origin_locked_def Let_def t1_def [symmetric] t2_def [symmetric])
  have "ledger_from (frames_of ops) specs (clear_ledger (ot_manual t2))"
    by (rule ledger_from_clear) (use t2 in \<open>simp add: founded_def\<close>)
  then show ?thesis
    using t2 new_cache_ok [of "oc_digest cfg"] unfolding result
    by (simp add: founded_def proofs_ok_def inside_def pieces_ok_def retained_pieces_def dict_get_def frame_spans_def map_filter_simps
        deposits_static_def deposits_open_def outbox_explained_def entries_ok_def)
qed

lemma founded_section: "founded cfg specs ops t \<Longrightarrow> founded cfg specs (ops @ [op]) (origin_section cfg op t)"
proof -
  assume t: "founded cfg specs ops t"
  then have more: "founded cfg specs (ops @ [op]) t"
    by (rule founded_more) auto
  have "ledger_from (frames_of (ops @ [op])) specs (ot_manual t)"
    using more by (simp add: founded_def)
  then have reset: "founded cfg specs (ops @ [op]) (reset_origin_flow flow g q t)" for flow g q
    unfolding reset_origin_flow_def by (intro founded_manual [OF more] ledger_from_reset)
  show ?thesis
    using founded_stream [OF more] founded_frame [OF t] founded_register [OF more] founded_stale [OF more]
      founded_close_flow [OF more] reset founded_finalize_all [OF more]
    by (cases op) simp_all
qed

section \<open>All interleavings\<close>

definition run_founded :: "origin_config \<Rightarrow> decrement_spec list \<Rightarrow> origin_tracker \<Rightarrow> origin_op list \<Rightarrow> outbox_item list \<Rightarrow> bool" where
  "run_founded cfg specs t ops out \<longleftrightarrow> founded cfg specs ops t \<and> (\<forall>r \<in> set (emitted out). explained cfg specs ops r)"

lemma founded_start_state: "founded cfg specs [] (new_origin_tracker specs families opcodes)"
  using new_ledger_from [of specs] new_cache_ok [of "oc_digest cfg"]
  by (simp add: founded_def proofs_ok_def inside_def pieces_ok_def retained_pieces_def dict_get_def frame_spans_def map_filter_simps
      deposits_static_def deposits_open_def outbox_explained_def entries_ok_def new_origin_tracker_def Let_def frames_of_def)

lemma founded_deliver:
  assumes "founded cfg specs ops t" and "ot_outbox t = item # outbox"
  shows "founded cfg specs ops (t\<lparr>ot_outbox := outbox\<rparr>) \<and> (\<forall>r \<in> set (emitted [item]). explained cfg specs ops r)"
proof -
  have "set (emitted (ot_outbox t)) = set (emitted [item]) \<union> set (emitted outbox)"
    unfolding assms(2) by (cases item) simp_all
  then show ?thesis
    using assms(1)
    by (simp add: founded_def proofs_ok_def inside_def pieces_ok_def retained_pieces_def
      deposits_static_def deposits_open_def outbox_explained_def entries_ok_def)
qed

lemma run_founded_deliver:
  assumes "run_founded cfg specs t ops out" and "ot_outbox t = item # outbox"
  shows "run_founded cfg specs (t\<lparr>ot_outbox := outbox\<rparr>) ops (out @ [item])"
  using assms(1) founded_deliver [OF _ assms(2), of cfg specs ops] unfolding run_founded_def emitted_append set_append by blast

lemma run_proven: "origin_run cfg specs families opcodes t ops out \<Longrightarrow> run_founded cfg specs t ops out"
proof -
  have "run_founded cfg specs t' ops' out'"
    if "(origin_step cfg)\<^sup>*\<^sup>* (new_origin_tracker specs families opcodes, [], []) s" and "s = (t', ops', out')" for s t' ops' out'
    using that
  proof (induction arbitrary: t' ops' out' rule: rtranclp_induct)
    case base
    then show ?case
      using founded_start_state [of cfg specs families opcodes] by (auto simp: run_founded_def)
  next
    case (step s s')
    obtain t1 ops1 out1 where s: "s = (t1, ops1, out1)"
      by (cases s)
    note run = step.IH [OF s]
    have stepped: "run_founded cfg specs (origin_section cfg op t1) (ops1 @ [op]) out1" for op
    proof -
      have "founded cfg specs (ops1 @ [op]) (origin_section cfg op t1)"
        using run founded_section by (simp add: run_founded_def)
      moreover have "\<forall>r \<in> set (emitted out1). explained cfg specs (ops1 @ [op]) r"
        using run explained_more [of cfg specs ops1 _ "ops1 @ [op]"] by (auto simp: run_founded_def simp del: split_paired_All)
      ultimately show ?thesis
        by (simp add: run_founded_def)
    qed
    have dispatching: "run_founded cfg specs (t1\<lparr>ot_dispatching := d\<rparr>) ops1 out1" for d
      using run by (simp add: run_founded_def founded_def proofs_fields entries_ok_def)
    from step.hyps(2) show ?case
      unfolding s step.prems by (cases rule: origin_stepE) (auto intro: stepped run_founded_deliver [OF run] dispatching)
  qed
  then show "origin_run cfg specs families opcodes t ops out \<Longrightarrow> run_founded cfg specs t ops out"
    unfolding origin_run_def by blast
qed

end
