(* ===== verification/Origin_Bounds.thy ===== *)
theory Origin_Bounds
  imports Origin_Conservation Manual_Bounds
begin

text \<open>
  The limits of the origin tracker: its histories, its windows of the streams, and the number of
  operations it holds, through every section. That there is room for a new operation also shows
  that the fuel of \<open>make_operation_room\<close> is enough.
\<close>

section \<open>Histories\<close>

text \<open>What a set or a dictionary holds is in the list by which it is limited.\<close>

definition histories :: "origin_tracker \<Rightarrow> bool" where
  "histories t \<longleftrightarrow>
     length (ot_observed_order t) \<le> OBSERVATION_HISTORY_LIMIT \<and> ot_observed t \<subseteq> set (ot_observed_order t) \<and>
     length (ot_contested_order t) \<le> COMPANION_PAIR_HISTORY_LIMIT \<and> ot_contested t \<subseteq> set (ot_contested_order t) \<and>
     length (ot_runtime_order t) \<le> RUNTIME_CONFIRMED_FAMILY_LIMIT \<and> ot_confirmed t \<subseteq> ot_known t \<union> set (ot_runtime_order t)"

definition chain_history :: "origin_tracker \<Rightarrow> bool" where
  "chain_history t \<longleftrightarrow>
     length (ot_family_chain_order t) \<le> OBSERVATION_HISTORY_LIMIT \<and> distinct (map fst (ot_family_chains t)) \<and>
     (\<forall>fam seen. map_of (ot_family_chains t) fam = Some seen \<longrightarrow> Pair fam ` seen \<subseteq> set (ot_family_chain_order t))"

definition boundary_history :: "origin_tracker \<Rightarrow> bool" where
  "boundary_history t \<longleftrightarrow>
     length (ot_boundary_order t) \<le> RECORD_BOUNDARY_HISTORY_LIMIT \<and>
     fst ` set (ot_boundaries t) \<subseteq> set (ot_boundary_order t)"

lemmas history_limits = OBSERVATION_HISTORY_LIMIT_def COMPANION_PAIR_HISTORY_LIMIT_def RUNTIME_CONFIRMED_FAMILY_LIMIT_def
  RECORD_BOUNDARY_HISTORY_LIMIT_def

lemma chain_seen:
  "chain_history t \<Longrightarrow> map_of (ot_family_chains t) fam = Some seen \<Longrightarrow> Pair fam ` seen \<subseteq> set (ot_family_chain_order t)"
  unfolding chain_history_def by blast

lemma chain_historyI:
  "length (ot_family_chain_order t) \<le> OBSERVATION_HISTORY_LIMIT \<Longrightarrow> distinct (map fst (ot_family_chains t)) \<Longrightarrow>
    (\<And>fam seen. map_of (ot_family_chains t) fam = Some seen \<Longrightarrow> Pair fam ` seen \<subseteq> set (ot_family_chain_order t)) \<Longrightarrow>
    chain_history t"
  unfolding chain_history_def by blast

lemma histories_same:
  "ot_observed_order t' = ot_observed_order t \<Longrightarrow> ot_observed t' = ot_observed t \<Longrightarrow>
    ot_contested_order t' = ot_contested_order t \<Longrightarrow> ot_contested t' = ot_contested t \<Longrightarrow>
    ot_runtime_order t' = ot_runtime_order t \<Longrightarrow> ot_confirmed t' = ot_confirmed t \<Longrightarrow> ot_known t' = ot_known t \<Longrightarrow>
    histories t' = histories t"
  by (simp add: histories_def)

lemma chain_same:
  "ot_family_chain_order t' = ot_family_chain_order t \<Longrightarrow> ot_family_chains t' = ot_family_chains t \<Longrightarrow>
    chain_history t' = chain_history t"
  by (simp add: chain_history_def)

lemma histories_family: "histories t \<Longrightarrow> histories (mark_family_confirmed fam reason t)"
  by (cases "ot_runtime_order t")
    (auto simp: histories_def mark_family_confirmed_def remember_runtime_family_def Let_def history_limits)

lemma histories_notify: "histories t \<Longrightarrow> histories (notify_origin_observer cfg o' t)"
  by (cases "ot_observed_order t") (auto simp: histories_def notify_origin_observer_def Let_def history_limits)

lemma histories_chain: "histories (extend_family_chain fam c t) = histories t"
  by (rule histories_same)
    (simp_all add: extend_family_chain_def expire_family_chain_def Let_def split: list.split prod.split)

lemma chain_update:
  assumes "distinct (map fst d)"
  shows "distinct (map fst (AList.update fam seen d))" "distinct (map fst (AList.delete fam d))"
    and "map_of (AList.update fam seen d) k = (if k = fam then Some seen else map_of d k)"
    and "map_of (AList.delete fam d) k = (if k = fam then None else map_of d k)"
  using assms by (simp_all add: AList.distinct_update AList.distinct_delete AList.update_conv' AList.delete_conv')

lemma chain_expire:
  assumes t: "chain_history t"
  shows "chain_history (expire_family_chain t)"
    and "length (ot_family_chain_order (expire_family_chain t)) < OBSERVATION_HISTORY_LIMIT"
proof -
  have keys: "distinct (map fst (ot_family_chains t))" and len: "length (ot_family_chain_order t) \<le> OBSERVATION_HISTORY_LIMIT"
    using t by (simp_all add: chain_history_def)
  note seen = chain_seen [OF t]
  show "length (ot_family_chain_order (expire_family_chain t)) < OBSERVATION_HISTORY_LIMIT"
    using len by (cases "ot_family_chain_order t") (auto simp: expire_family_chain_def history_limits)
  show "chain_history (expire_family_chain t)"
  proof (cases "length (ot_family_chain_order t) \<ge> OBSERVATION_HISTORY_LIMIT")
    case False
    then have "expire_family_chain t = t"
      by (auto simp: expire_family_chain_def split: list.split)
    then show ?thesis
      using t by simp
  next
    case True
    then obtain gone c order where order: "ot_family_chain_order t = (gone, c) # order"
      by (cases "ot_family_chain_order t") (auto simp: history_limits)
    define chains where "chains = (case map_of (ot_family_chains t) gone of
        None \<Rightarrow> ot_family_chains t
      | Some seen_chains \<Rightarrow> if seen_chains - {c} = {} then AList.delete gone (ot_family_chains t)
          else AList.update gone (seen_chains - {c}) (ot_family_chains t))"
    have result: "ot_family_chain_order (expire_family_chain t) = order" "ot_family_chains (expire_family_chain t) = chains"
      using True by (simp_all add: expire_family_chain_def order chains_def)
    have at: "Pair fam ` new_seen \<subseteq> set order" if new: "map_of chains fam = Some new_seen" for fam new_seen
    proof (cases "fam = gone")
      case True
      then obtain old where "map_of (ot_family_chains t) gone = Some old" "new_seen = old - {c}"
        using new by (auto simp: chains_def chain_update(3,4) [OF keys] split: option.splits if_splits)
      then show ?thesis
        using seen [of gone old] True by (auto simp: order)
    next
      case False
      then have "map_of (ot_family_chains t) fam = Some new_seen"
        using new by (auto simp: chains_def chain_update(3,4) [OF keys] split: option.splits if_splits)
      then show ?thesis
        using seen [of fam new_seen] False by (auto simp: order)
    qed
    have "distinct (map fst chains)"
      using keys by (auto simp: chains_def chain_update [OF keys] split: option.split)
    then show ?thesis
      using at len by (intro chain_historyI) (simp_all add: result order)
  qed
qed

lemma chain_extend: "chain_history t \<Longrightarrow> chain_history (extend_family_chain fam c t)"
proof -
  assume "chain_history t"
  note expired = chain_expire [OF this]
  let ?t = "expire_family_chain t"
  have keys: "distinct (map fst (ot_family_chains ?t))"
    using expired(1) by (simp add: chain_history_def)
  have "Pair fam ` dict_get (ot_family_chains ?t) fam {} \<subseteq> set (ot_family_chain_order ?t)"
    using chain_seen [OF expired(1), of fam] by (simp add: dict_get_def split: option.split)
  moreover have "Pair k ` seen \<subseteq> insert (fam, c) (set (ot_family_chain_order ?t))"
    if "map_of (ot_family_chains (extend_family_chain fam c t)) k = Some seen" for k seen
  proof (cases "k = fam")
    case True
    then have "seen = insert c (dict_get (ot_family_chains ?t) fam {})"
      using that by (simp add: extend_family_chain_def Let_def chain_update(3) [OF keys])
    then show ?thesis
      using calculation True by auto
  next
    case False
    then have "map_of (ot_family_chains ?t) k = Some seen"
      using that by (simp add: extend_family_chain_def Let_def chain_update(3) [OF keys])
    then show ?thesis
      using chain_seen [OF expired(1)] by blast
  qed
  ultimately show ?thesis
    using expired(2) chain_update(1) [OF keys] by (intro chain_historyI) (simp_all add: extend_family_chain_def Let_def)
qed

lemma chain_family: "chain_history t \<Longrightarrow> chain_history (mark_family_confirmed fam reason t)"
proof -
  assume t: "chain_history t"
  then have keys: "distinct (map fst (ot_family_chains t))"
    by (simp add: chain_history_def)
  have "ot_family_chains (mark_family_confirmed fam reason t) = AList.delete fam (ot_family_chains t)"
    "ot_family_chain_order (mark_family_confirmed fam reason t) = ot_family_chain_order t"
    by (simp_all add: mark_family_confirmed_def remember_runtime_family_def Let_def split: list.split)
  moreover have "map_of (ot_family_chains t) k = Some seen" if "map_of (AList.delete fam (ot_family_chains t)) k = Some seen" for k seen
    using that by (simp add: chain_update(4) [OF keys] split: if_splits)
  ultimately show ?thesis
    using chain_seen [OF t] t chain_update(2) [OF keys] by (intro chain_historyI) (simp_all add: chain_history_def)
qed

lemma chain_notify: "chain_history (notify_origin_observer cfg o' t) = chain_history t"
  by (rule chain_same) (simp_all add: notify_origin_observer_def Let_def split: list.split)

definition historic :: "origin_tracker \<Rightarrow> origin_tracker \<Rightarrow> bool" where
  "historic t t' \<longleftrightarrow> unmoved t t' \<and> histories t' \<and> chain_history t'"

lemma historic_same:
  "historic t t' \<Longrightarrow> unmoved t' u \<Longrightarrow> histories u = histories t' \<Longrightarrow> chain_history u = chain_history t' \<Longrightarrow> historic t u"
  unfolding historic_def using unmoved_trans by blast

lemma histories_steps:
  "histories (finalize_deposit cfg p t) = histories t" "chain_history (finalize_deposit cfg p t) = chain_history t"
  "histories (snd (select_confirmed p t)) = histories t" "chain_history (snd (select_confirmed p t)) = chain_history t"
  "histories (update_deposit p f t) = histories t" "chain_history (update_deposit p f t) = chain_history t"
  "histories (snd (discover_for cfg p d g s e t)) = histories t"
  "chain_history (snd (discover_for cfg p d g s e t)) = chain_history t"
  "histories (t\<lparr>ot_overflow := flows\<rparr>) = histories t" "chain_history (t\<lparr>ot_overflow := flows\<rparr>) = chain_history t"
  "chain_history (t\<lparr>ot_contested_order := order, ot_contested := pairs\<rparr>) = chain_history t"
  "chain_history (t\<lparr>ot_contested := pairs, ot_contested_order := order\<rparr>) = chain_history t"
  by (simp_all add: histories_def chain_history_def finalize_eq update_deposit_def select_confirmed_def Let_def
      discover_for_def case_prod_unfold)

interpretation remembering: origin_decisions cfg "historic t0" UNIV "\<lambda>_ _. True" "\<lambda>_ _. True" "\<lambda>_ _ _. True"
  "\<lambda>p. pd_flow (ot_store t0 p)" "\<lambda>p. pd_end_sequence (ot_store t0 p)"
proof (rule origin_decisions.intro)
  fix t u :: origin_tracker and p :: nat and fam reason c o' pair order
  assume t: "historic t0 t"
  then have moved: "unmoved t0 t" and old: "histories t" "chain_history t"
    by (simp_all add: historic_def)
  show "pd_flow (ot_store t p) = pd_flow (ot_store t0 p) \<and> pd_end_sequence (ot_store t p) = pd_end_sequence (ot_store t0 p)"
    using identityD(2,6) [OF unmovedD(12) [OF moved]] by simp
  show "historic t0 (finalize_deposit cfg p (snd (select_confirmed p t)))"
    using historic_same [OF historic_same [OF t unmoved_select] unmoved_finalize] by (simp add: histories_steps)
  show "historic t0 (finalize_deposit cfg p t)"
    using historic_same [OF t unmoved_finalize] by (simp add: histories_steps)
  show "historic t0 (mark_family_confirmed fam reason t)"
    using unmoved_trans [OF moved unmoved_family] histories_family [OF old(1)] chain_family [OF old(2)] by (simp add: historic_def)
  show "historic t0 (extend_family_chain fam c t)"
    using unmoved_trans [OF moved unmoved_chain] old chain_extend [OF old(2)] by (simp add: historic_def histories_chain)
  show "historic t0 (notify_origin_observer cfg o' t)"
    using unmoved_trans [OF moved unmoved_notify] histories_notify [OF old(1)] old by (simp add: historic_def chain_notify)
  show "historic t0 (t\<lparr>ot_contested_order := order, ot_contested := ot_contested t - {pair}\<rparr>)"
    if "ot_contested_order t = pair # order"
    using unmoved_trans [OF moved unmoved_contests(2)] old that by (auto simp: historic_def histories_steps histories_def)
  show "historic t0 (u\<lparr>ot_contested := insert pair (ot_contested u), ot_contested_order := ot_contested_order u @ [pair]\<rparr>)"
    if "historic t0 u" "ot_contested_order u = (if length (ot_contested_order t) \<ge> COMPANION_PAIR_HISTORY_LIMIT
        then tl (ot_contested_order t) else ot_contested_order t)"
  proof -
    have "length (ot_contested_order u) < COMPANION_PAIR_HISTORY_LIMIT"
      using that(2) old(1) by (auto simp: histories_def history_limits)
    then show ?thesis
      using that(1) unmoved_trans [OF _ unmoved_contests(3)] by (auto simp: historic_def histories_steps histories_def)
  qed
qed (auto intro: historic_same unmoved_steps simp: histories_steps)

lemma historic_refl: "histories t \<Longrightarrow> chain_history t \<Longrightarrow> historic t t"
  by (simp add: historic_def unmoved_refl)

section \<open>Operations\<close>

definition op_keys :: "origin_tracker \<Rightarrow> operation_key set" where
  "op_keys t = (\<lambda>p. pending_operation_key (ot_store t p)) ` set (ot_pending t)"

definition few :: "origin_tracker \<Rightarrow> bool" where
  "few t \<longleftrightarrow> card (op_keys t) \<le> MAX_PENDING_OPERATIONS_TOTAL \<and>
     (\<forall>flow. card {key \<in> op_keys t. fst key = flow} \<le> MAX_PENDING_OPERATIONS_PER_FLOW)"

lemma finite_keys: "finite (op_keys t)"
  by (simp add: op_keys_def)

lemma operation_keys_card:
  "length (operation_keys t) = card (op_keys t)"
  "length (flow_operation_keys flow t) = card {key \<in> op_keys t. fst key = flow}"
proof -
  have keys: "set (operation_keys t) = op_keys t" "distinct (operation_keys t)"
    by (simp_all add: operation_keys_def op_keys_def)
  then show "length (operation_keys t) = card (op_keys t)"
    by (metis distinct_card)
  have "distinct (flow_operation_keys flow t)"
    using keys(2) by (simp add: flow_operation_keys_def)
  then have "length (flow_operation_keys flow t) = card (set (flow_operation_keys flow t))"
    by (simp add: distinct_card)
  then show "length (flow_operation_keys flow t) = card {key \<in> op_keys t. fst key = flow}"
    using keys(1) by (simp add: flow_operation_keys_def)
qed

lemma few_subset:
  assumes "few t" and sub: "op_keys t' \<subseteq> op_keys t"
  shows "few t'"
proof -
  have "card (op_keys t') \<le> card (op_keys t)"
    using finite_keys sub by (rule card_mono)
  moreover have "card {key \<in> op_keys t'. fst key = flow} \<le> card {key \<in> op_keys t. fst key = flow}" for flow
    by (rule card_mono) (use finite_keys sub in auto)
  ultimately show ?thesis
    using assms(1) unfolding few_def by (meson dual_order.trans)
qed

lemma keys_narrowed: "narrowed t t' \<Longrightarrow> op_keys t' \<subseteq> op_keys t"
proof
  fix key
  assume t: "narrowed t t'" and "key \<in> op_keys t'"
  then obtain p where p: "p \<in> set (ot_pending t')" "key = pending_operation_key (ot_store t' p)"
    by (auto simp: op_keys_def)
  have "unmoved t (t'\<lparr>ot_pending := ot_pending t\<rparr>)" and sub: "set (ot_pending t') \<subseteq> set (ot_pending t)"
    using t by (simp_all add: narrowed_def)
  then have "pending_operation_key (ot_store t' p) = pending_operation_key (ot_store t p)"
    using identityD(12) [OF unmovedD(12)] by fastforce
  then show "key \<in> op_keys t"
    using p sub by (auto simp: op_keys_def)
qed

lemma narrowed_key: "narrowed t t' \<Longrightarrow> pending_operation_key (ot_store t' p) = pending_operation_key (ot_store t p)"
  using identityD(12) [OF unmovedD(12), of t "t'\<lparr>ot_pending := ot_pending t\<rparr>" p] by (simp add: narrowed_def)

lemma key_flow: "fst (pending_operation_key d) = pd_flow d"
  by (simp add: pending_operation_key_def)

text \<open>A turn of the loop that makes room removes an operation.\<close>

lemma evict_oldest_length:
  assumes full: "length (flow_operation_keys flow t) \<ge> MAX_PENDING_OPERATIONS_PER_FLOW \<or>
    length (operation_keys t) \<ge> MAX_PENDING_OPERATIONS_TOTAL"
  shows "length (ot_pending (evict_oldest_operation cfg flow t)) < length (ot_pending t)"
proof -
  define oldest where "oldest = (if length (flow_operation_keys flow t) \<ge> MAX_PENDING_OPERATIONS_PER_FLOW
                    then hd (filter (\<lambda>p. pd_flow (ot_store t p) = flow) (ot_pending t)) else hd (ot_pending t))"
  define P where "P p \<longleftrightarrow> pending_operation_key (ot_store t p) = pending_operation_key (ot_store t oldest)" for p
  let ?u = "t\<lparr>ot_pending := filter (Not \<circ> P) (ot_pending t)\<rparr>"
  let ?v = "fold (evict_fail_closed cfg) (filter P (ot_pending t)) ?u"
  have result: "evict_oldest_operation cfg flow t = ?v\<lparr>ot_pending := unfinalized ?v (ot_pending ?v)\<rparr>"
    by (simp add: evict_oldest_operation_def Let_def oldest_def [symmetric] P_def [abs_def] comp_def)
  have "unmoved ?u ?v"
    by (rule fold_finalizes(1)) (auto intro: unmoved_evict evicted_finalized)
  then have pending: "ot_pending ?v = filter (Not \<circ> P) (ot_pending t)"
    using unmovedD(1) by fastforce
  have "oldest \<in> set (ot_pending t)"
  proof (cases "length (flow_operation_keys flow t) \<ge> MAX_PENDING_OPERATIONS_PER_FLOW")
    case True
    then have "flow_operation_keys flow t \<noteq> []"
      by (auto simp: MAX_PENDING_OPERATIONS_PER_FLOW_def)
    then obtain key where "key \<in> set (flow_operation_keys flow t)"
      using hd_in_set by blast
    then have "filter (\<lambda>p. pd_flow (ot_store t p) = flow) (ot_pending t) \<noteq> []"
      by (auto simp: flow_operation_keys_def operation_keys_def key_flow filter_empty_conv)
    then have "hd (filter (\<lambda>p. pd_flow (ot_store t p) = flow) (ot_pending t)) \<in> set (ot_pending t)"
      using hd_in_set by fastforce
    then show ?thesis
      using True by (simp add: oldest_def)
  next
    case False
    then have "ot_pending t \<noteq> []"
      using full by (auto simp: operation_keys_def MAX_PENDING_OPERATIONS_TOTAL_def)
    then show ?thesis
      using False by (simp add: oldest_def)
  qed
  then have "length (filter (Not \<circ> P) (ot_pending t)) < length (ot_pending t)"
    by (intro length_filter_less [of oldest]) (simp_all add: P_def)
  moreover have "length (unfinalized ?v ps) \<le> length ps" for ps
    by (simp add: unfinalized_def)
  ultimately have "length (unfinalized ?v (filter (Not \<circ> P) (ot_pending t))) < length (ot_pending t)"
    by (rule le_less_trans [rotated])
  moreover have "ot_pending (evict_oldest_operation cfg flow t) = unfinalized ?v (filter (Not \<circ> P) (ot_pending t))"
    unfolding result pending by simp
  ultimately show ?thesis
    by simp
qed

lemma room_made:
  "inside t \<Longrightarrow> length (ot_pending t) < n \<Longrightarrow> key = pending_operation_key (ot_store t p) \<Longrightarrow>
    u = make_operation_room n cfg p t \<Longrightarrow>
    key \<in> op_keys u \<or> (card {k \<in> op_keys u. fst k = fst key} < MAX_PENDING_OPERATIONS_PER_FLOW \<and>
      card (op_keys u) < MAX_PENDING_OPERATIONS_TOTAL)"
proof (induction n arbitrary: t)
  case (Suc n)
  let ?t = "evict_oldest_operation cfg (pd_flow (ot_store t p)) t"
  have keys: "set (operation_keys t) = op_keys t" "fst key = pd_flow (ot_store t p)"
    using Suc.prems(3) by (simp_all add: operation_keys_def op_keys_def key_flow)
  show ?case
  proof (cases "key \<notin> op_keys t \<and> (length (flow_operation_keys (fst key) t) \<ge> MAX_PENDING_OPERATIONS_PER_FLOW \<or>
      length (operation_keys t) \<ge> MAX_PENDING_OPERATIONS_TOTAL)")
    case True
    note narrowed = narrowed_evict_oldest [OF Suc.prems(1), of cfg "pd_flow (ot_store t p)"]
    have "u = make_operation_room n cfg p ?t"
      using Suc.prems(3,4) True keys by (simp add: Let_def)
    moreover have "length (ot_pending ?t) < n"
      using evict_oldest_length [of "pd_flow (ot_store t p)" t cfg] conjunct2 [OF True] Suc.prems(2) unfolding keys(2) by linarith
    moreover have "key = pending_operation_key (ot_store ?t p)"
      using narrowed_key [OF narrowed, of p] Suc.prems(3) by simp
    ultimately show ?thesis
      using Suc.IH narrowed_inside [OF narrowed Suc.prems(1)] by blast
  next
    case False
    then have "u = t"
      using Suc.prems(3,4) keys by (auto simp: Let_def)
    then show ?thesis
      using False unfolding operation_keys_card by auto
  qed
qed simp

lemma few_append:
  assumes t: "few t" "inside t"
  shows "few (append_pending cfg p t)"
proof -
  let ?t1 = "t\<lparr>ot_pending := unfinalized t (ot_pending t)\<rparr>"
  define key where "key = pending_operation_key (ot_store t p)"
  define u where "u = make_operation_room (Suc (length (ot_pending ?t1))) cfg p ?t1"
  have t1: "narrowed t ?t1"
    by (rule narrowed_unfinalized)
  have u: "narrowed ?t1 u"
    unfolding u_def by (rule narrowed_room) (rule narrowed_inside [OF t1 t(2)])
  have appended: "append_pending cfg p t = u\<lparr>ot_pending := ot_pending u @ [p]\<rparr>"
    by (simp only: append_pending_def Let_def u_def)
  have "key = pending_operation_key (ot_store u p)"
    using narrowed_key [OF u, of p] by (simp add: key_def)
  then have result: "op_keys (append_pending cfg p t) = insert key (op_keys u)"
    by (simp add: op_keys_def appended)
  have "few u"
    using few_subset [OF few_subset [OF t(1) keys_narrowed [OF t1]] keys_narrowed [OF u]] .
  have room: "key \<in> op_keys u \<or> (card {k \<in> op_keys u. fst k = fst key} < MAX_PENDING_OPERATIONS_PER_FLOW \<and>
      card (op_keys u) < MAX_PENDING_OPERATIONS_TOTAL)"
    by (rule room_made [OF narrowed_inside [OF t1 t(2)] lessI _ u_def]) (simp add: key_def)
  show ?thesis
  proof (cases "key \<in> op_keys u")
    case True
    then show ?thesis
      using few_subset [OF \<open>few u\<close>] result by (simp add: insert_absorb)
  next
    case False
    have "{k \<in> insert key (op_keys u). fst k = flow} =
        (if fst key = flow then insert key {k \<in> op_keys u. fst k = flow} else {k \<in> op_keys u. fst k = flow})" for flow
      by auto
    then have "card {k \<in> insert key (op_keys u). fst k = flow} \<le> MAX_PENDING_OPERATIONS_PER_FLOW" for flow
      using room False \<open>few u\<close> finite_keys [of u] by (auto simp: few_def)
    then show ?thesis
      using room False finite_keys [of u] by (simp add: few_def result)
  qed
qed

section \<open>Sections\<close>

definition windows :: "origin_tracker \<Rightarrow> bool" where
  "windows t \<longleftrightarrow> (\<forall>flow. length (dict_get (ot_spans t) flow []) \<le> STREAM_SPAN_HISTORY_LIMIT \<and>
     length (dict_get (ot_recent t) flow []) \<le> BACKWARD_WINDOW)"

definition bounded_origin :: "origin_tracker \<Rightarrow> bool" where
  "bounded_origin t \<longleftrightarrow> inside t \<and> few t \<and> histories t \<and> chain_history t \<and> boundary_history t \<and> windows t \<and>
     bounded_ledger (ot_manual t)"

lemma boundedD:
  assumes "bounded_origin t"
  shows "inside t" "few t" "histories t" "chain_history t" "boundary_history t" "windows t" "bounded_ledger (ot_manual t)"
  using assms by (simp_all add: bounded_origin_def)

text \<open>A loop or a decision that only removes operations.\<close>

definition calm :: "origin_tracker \<Rightarrow> origin_tracker \<Rightarrow> bool" where
  "calm t t' \<longleftrightarrow> narrowed t t' \<and> (histories t \<and> chain_history t \<longrightarrow> histories t' \<and> chain_history t')"

lemma bounded_calm: "bounded_origin t \<Longrightarrow> calm t t' \<Longrightarrow> bounded_origin t'"
proof -
  assume t: "bounded_origin t" and calm: "calm t t'"
  then have narrowed: "narrowed t t'"
    by (simp add: calm_def)
  then have moved: "unmoved t (t'\<lparr>ot_pending := ot_pending t\<rparr>)"
    by (simp add: narrowed_def)
  have same: "ot_manual t' = ot_manual t" "ot_recent t' = ot_recent t" "ot_spans t' = ot_spans t"
      "ot_boundaries t' = ot_boundaries t" "ot_boundary_order t' = ot_boundary_order t"
    using unmovedD(4-8) [OF moved] by simp_all
  show ?thesis
    using t calm narrowed_inside [OF narrowed] few_subset [OF _ keys_narrowed [OF narrowed]]
    by (simp add: bounded_origin_def calm_def windows_def boundary_history_def same)
qed

lemma calm_refl: "calm t t"
  by (simp add: calm_def narrowed_refl)

lemma calm_trans: "calm t t' \<Longrightarrow> calm t' t'' \<Longrightarrow> calm t t''"
  unfolding calm_def using narrowed_trans by blast

lemma histories_pending: "histories (t\<lparr>ot_pending := ps\<rparr>) = histories t" "chain_history (t\<lparr>ot_pending := ps\<rparr>) = chain_history t"
  by (simp_all add: histories_def chain_history_def)

lemma calm_visit:
  assumes t: "inside t" and narrowed: "narrowed t (visit_pending visit t)"
    and kept: "\<And>p s. historic t (snd s) \<Longrightarrow> p \<in> UNIV \<Longrightarrow> historic t (snd (visit p s))"
  shows "calm t (visit_pending visit t)"
proof -
  have "historic t (snd (fold visit (ot_pending t) ([], t)))" if "histories t" "chain_history t"
    by (rule remembering.visits_kept [OF historic_refl [OF that] _ kept]) auto
  then have "histories t \<and> chain_history t \<longrightarrow> histories (visit_pending visit t) \<and> chain_history (visit_pending visit t)"
    by (cases "fold visit (ot_pending t) ([], t)") (simp add: visit_pending_def historic_def histories_pending)
  then show ?thesis
    using narrowed by (simp add: calm_def)
qed

lemma calm_visits:
  assumes "inside t"
  shows "calm t (visit_pending (visit_span cfg ctx e) t)" "calm t (visit_pending (visit_frame cfg frame) t)"
    "calm t (visit_pending (visit_waiter cfg flow q) t)" "calm t (visit_pending (visit_stale cfg now) t)"
  by (rule calm_visit [OF assms], rule narrowed_visits [OF assms],
    (rule remembering.visit_span_kept remembering.visit_frame_kept remembering.visit_waiter_kept remembering.visit_stale_kept;
      assumption))+

lemma calm_unfinalized: "calm t (t\<lparr>ot_pending := unfinalized t (ot_pending t)\<rparr>)"
  by (simp add: calm_def narrowed_unfinalized histories_pending)

lemma calm_close: "inside t \<Longrightarrow> p < ot_allocated t \<Longrightarrow> calm t (close_pending cfg p t)"
  using remembering.closed_pending [OF historic_refl, of t p cfg] by (simp add: calm_def narrowed_close historic_def)

lemma calm_resolve: "inside t \<Longrightarrow> p < ot_allocated t \<Longrightarrow> resolve_companions cfg p t = (b, t') \<Longrightarrow> calm t t'"
  using remembering.resolved [OF historic_refl, of t p cfg b t'] narrowed_resolve [of t p cfg b t']
  by (simp add: calm_def historic_def)

lemma calm_evict_oldest: "inside t \<Longrightarrow> calm t (evict_oldest_operation cfg flow t)"
proof -
  assume t: "inside t"
  have "histories (fold (evict_fail_closed cfg) ps u) \<and> chain_history (fold (evict_fail_closed cfg) ps u)"
    if "histories u" "chain_history u" for ps u
    using remembering.fold_evicted [OF historic_refl [OF that], of ps cfg] by (simp add: historic_def)
  then have "histories t \<and> chain_history t \<longrightarrow>
      histories (evict_oldest_operation cfg flow t) \<and> chain_history (evict_oldest_operation cfg flow t)"
    by (simp add: evict_oldest_operation_def Let_def histories_pending)
  then show ?thesis
    using narrowed_evict_oldest [OF t] by (simp add: calm_def)
qed

lemma calm_room: "inside t \<Longrightarrow> calm t (make_operation_room n cfg p t)"
proof (induction n arbitrary: t)
  case (Suc n)
  let ?u = "evict_oldest_operation cfg (pd_flow (ot_store t p)) t"
  have "calm t ?u"
    using Suc.prems by (rule calm_evict_oldest)
  moreover have "inside ?u"
    using narrowed_inside [OF narrowed_evict_oldest [OF Suc.prems] Suc.prems] .
  ultimately show ?case
    using Suc.IH [of ?u] calm_trans by (auto simp: Let_def calm_refl)
qed (simp add: calm_refl)

lemma bounded_append:
  assumes t: "bounded_origin t" and p: "p < ot_allocated t"
  shows "bounded_origin (append_pending cfg p t)"
proof -
  let ?t1 = "t\<lparr>ot_pending := unfinalized t (ot_pending t)\<rparr>"
  define u where "u = make_operation_room (Suc (length (ot_pending ?t1))) cfg p ?t1"
  have t1: "bounded_origin ?t1"
    using t calm_unfinalized by (rule bounded_calm)
  note room = calm_room [OF boundedD(1) [OF t1], of "Suc (length (ot_pending ?t1))" cfg p, folded u_def]
  have u: "bounded_origin u"
    by (rule bounded_calm [OF t1 room])
  have allocated: "ot_allocated u = ot_allocated t"
    using room narrowed_allocated [of ?t1 u] by (simp add: calm_def)
  have result: "append_pending cfg p t = u\<lparr>ot_pending := ot_pending u @ [p]\<rparr>"
    by (simp only: append_pending_def Let_def u_def)
  have "few (append_pending cfg p t)"
    using few_append boundedD(1,2) [OF t] by blast
  then show ?thesis
    using u allocated p unfolding result
    by (auto simp: bounded_origin_def inside_def windows_def boundary_history_def histories_pending)
qed

lemma bounded_origin_fields:
  "bounded_origin (t\<lparr>ot_storage_opcodes := opcodes\<rparr>) = bounded_origin t"
  "bounded_origin (t\<lparr>ot_dispatching := dispatching\<rparr>) = bounded_origin t"
  "bounded_origin (t\<lparr>ot_outbox := outbox\<rparr>) = bounded_origin t"
  "bounded_origin (t\<lparr>ot_staged := staged\<rparr>) = bounded_origin t"
  "bounded_ledger ledger \<Longrightarrow> bounded_origin t \<Longrightarrow> bounded_origin (t\<lparr>ot_manual := ledger\<rparr>)"
  by (simp_all add: bounded_origin_def inside_def few_def op_keys_def histories_def chain_history_def boundary_history_def windows_def)

section \<open>Registering\<close>

lemma bounded_boundary: "bounded_origin t \<Longrightarrow> record_boundary key e t = (e', t') \<Longrightarrow> bounded_origin t' \<and> ot_allocated t' = ot_allocated t"
proof -
  assume t: "bounded_origin t" and step: "record_boundary key e t = (e', t')"
  have old: "length (ot_boundary_order t) \<le> RECORD_BOUNDARY_HISTORY_LIMIT" "fst ` set (ot_boundaries t) \<subseteq> set (ot_boundary_order t)"
    using boundedD(5) [OF t] by (simp_all add: boundary_history_def)
  have "t' = t\<lparr>ot_boundary_order := ot_boundary_order t', ot_boundaries := ot_boundaries t'\<rparr>"
    using step by (auto simp: record_boundary_def Let_def split: option.splits list.splits if_splits)
  then obtain order boundaries where t': "t' = t\<lparr>ot_boundary_order := order, ot_boundaries := boundaries\<rparr>"
    by blast
  have others: "ot_pending t' = ot_pending t" "ot_allocated t' = ot_allocated t" "ot_store t' = ot_store t"
      "ot_manual t' = ot_manual t" "ot_spans t' = ot_spans t" "ot_recent t' = ot_recent t"
    by (simp_all add: t')
  have kept: "histories t' = histories t" "chain_history t' = chain_history t"
    unfolding t' by (rule histories_same chain_same; simp)+
  have "boundary_history t'"
  proof (cases "map_of (ot_boundaries t) key")
    case (Some previous)
    then have "key \<in> fst ` set (ot_boundaries t)"
      by (metis domI dom_map_of_conv_image_fst)
    then have known: "key \<in> set (ot_boundary_order t)"
      using old(2) by blast
    obtain earliest where "t' = t\<lparr>ot_boundaries := AList.update key earliest (ot_boundaries t)\<rparr>"
      using step Some by (auto simp: record_boundary_def Let_def)
    then show ?thesis
      using old known by (simp add: boundary_history_def AList.dom_update)
  next
    case None
    define full where "full \<longleftrightarrow> length (ot_boundary_order t) \<ge> RECORD_BOUNDARY_HISTORY_LIMIT"
    define first where "first = hd (ot_boundary_order t)"
    define order where "order = (if full then tl (ot_boundary_order t) else ot_boundary_order t)"
    define retained where "retained = (if full then AList.delete first (ot_boundaries t) else ot_boundaries t)"
    have "ot_boundary_order t \<noteq> [] \<or> \<not> full"
      by (auto simp: full_def history_limits)
    then have t': "ot_boundary_order t' = order @ [key]" "ot_boundaries t' = AList.update key e retained"
      using step None
      by (cases "ot_boundary_order t"; auto simp: record_boundary_def Let_def full_def order_def retained_def first_def)+
    have "length order < RECORD_BOUNDARY_HISTORY_LIMIT"
      using old(1) by (auto simp: order_def full_def history_limits)
    moreover have "fst ` set retained \<subseteq> set order"
    proof (cases full)
      case True
      then have "ot_boundary_order t = first # order"
        using \<open>ot_boundary_order t \<noteq> [] \<or> \<not> full\<close> by (simp add: order_def first_def)
      then show ?thesis
        using old(2) True by (auto simp: retained_def delete_eq)
    qed (simp add: retained_def order_def old(2))
    ultimately show ?thesis
      by (simp add: boundary_history_def t' AList.dom_update subset_insertI2)
  qed
  then show ?thesis
    using t others kept by (simp add: bounded_origin_def inside_def few_def op_keys_def windows_def)
qed

lemma bounded_learn:
  assumes t: "bounded_origin t" and step: "learn_boundary cfg es flow q t = (e, t')"
  shows "bounded_origin t'"
proof -
  define t1 where "t1 = (case ev_opcode (hd es) of
      None \<Rightarrow> t | Some opcode \<Rightarrow> t\<lparr>ot_storage_opcodes := insert opcode (ot_storage_opcodes t)\<rparr>)"
  have t1: "bounded_origin t1"
    using t by (simp add: t1_def bounded_origin_fields split: option.split)
  have retry: "bounded_origin (retry_boundary_waiters cfg flow q u)" if u: "bounded_origin u" for q u
  proof -
    have "bounded_origin (visit_pending (visit_waiter cfg flow q) u)"
      by (rule bounded_calm [OF u calm_visits(3) [OF boundedD(1) [OF u]]])
    then show ?thesis
      unfolding retry_boundary_waiters_def Let_def by (rule bounded_calm) (rule calm_unfinalized)
  qed
  show ?thesis
    using step t1 retry bounded_boundary [OF t1] unfolding learn_boundary_def Let_def t1_def [symmetric]
    by (auto split: option.splits prod.splits)
qed

lemma bounded_count: "bounded_origin t \<Longrightarrow> bounded_origin (update_deposit p (\<lambda>d. d\<lparr>pd_frames_after := k d\<rparr>) t)"
  by (rule bounded_calm) (auto simp: calm_def histories_steps intro: unmoved_narrowed unmoved_deposit account_deposit)

lemma bounded_start_operation:
  assumes t: "bounded_origin t" and p: "p < ot_allocated t"
  shows "bounded_origin (start_operation cfg p flow t)"
proof -
  obtain b t1 where resolve: "resolve_companions cfg p t = (b, t1)"
    by (meson surj_pair)
  note calm = calm_resolve [OF boundedD(1) [OF t] p resolve]
  have t1: "bounded_origin t1" "p < ot_allocated t1"
    using bounded_calm [OF t calm] narrowed_allocated [of t t1] calm p by (simp_all add: calm_def)
  define after where "after = int (length (filter (\<lambda>frame. frame_is_after frame (ot_store t1 p)) (dict_get (ot_recent t1) flow [])))"
  let ?t2 = "update_deposit p (\<lambda>d. d\<lparr>pd_frames_after := pd_frames_after d + after\<rparr>) t1"
  have t2: "bounded_origin ?t2" "p < ot_allocated ?t2"
    using bounded_count [OF t1(1)] t1(2) by (simp_all add: update_deposit_def)
  have "bounded_origin (close_pending cfg p ?t2)"
    by (rule bounded_calm [OF t2(1) calm_close [OF boundedD(1) [OF t2(1)] t2(2)]])
  then show ?thesis
    using t1(1) bounded_append [OF t2] resolve by (cases b) (simp_all add: start_operation_def Let_def after_def [symmetric])
qed

lemma bounded_allocate:
  assumes t: "bounded_origin t"
  shows "bounded_origin (snd (allocate_deposit d t))"
proof -
  let ?t = "snd (allocate_deposit d t)"
  have old: "p < ot_allocated t" if "p \<in> set (ot_pending t)" for p
    using boundedD(1) [OF t] that by (simp add: inside_def)
  have "op_keys ?t = op_keys t"
    unfolding op_keys_def by (rule image_cong) (auto simp: allocate_deposit_def dest: old)
  moreover have "inside ?t"
    using old by (auto simp: allocate_deposit_def inside_def less_SucI)
  ultimately show ?thesis
    using t by (simp add: bounded_origin_def few_def)
      (simp add: allocate_deposit_def histories_def chain_history_def boundary_history_def windows_def)
qed

lemma bounded_group: "bounded_origin t \<Longrightarrow> bounded_origin (register_group cfg es raw flow q t)"
proof -
  assume t: "bounded_origin t"
  obtain e t1 where learn: "learn_boundary cfg es flow q t = (e, t1)"
    by (meson surj_pair)
  obtain ms ledger where reserved: "reserve_matching_decrement flow (ev_flow_generation (hd es)) q es (ot_manual t1) = (ms, ledger)"
    by (meson surj_pair)
  let ?u = "snd (allocate_deposit (new_deposit es raw flow q e ms) (t1\<lparr>ot_manual := ledger\<rparr>))"
  have t1: "bounded_origin t1"
    using t learn by (rule bounded_learn)
  then have "bounded_ledger ledger"
    using bounded_reserve [OF boundedD(7), of t1 flow "ev_flow_generation (hd es)" q es] reserved by simp
  then have "bounded_origin ?u"
    using t1 by (intro bounded_allocate bounded_origin_fields)
  moreover have "fst (allocate_deposit (new_deposit es raw flow q e ms) (t1\<lparr>ot_manual := ledger\<rparr>)) < ot_allocated ?u"
    by (simp add: allocate_deposit_def)
  ultimately show ?thesis
    by (simp add: register_group_def learn reserved case_prod_unfold bounded_start_operation)
qed

lemma bounded_neutral: "bounded_origin (emit_neutral_entries b t) = bounded_origin t"
  by (simp add: emit_neutral_eq bounded_origin_fields)

lemma bounded_register: "bounded_origin t \<Longrightarrow> bounded_origin (register_locked cfg e raw t)"
proof -
  assume t: "bounded_origin t"
  let ?t = "t\<lparr>ot_manual := snd (activate_generation (ev_flow e) (ev_flow_generation e) (ot_manual t))\<rparr>"
  have t1: "bounded_origin ?t"
    by (rule bounded_origin_fields(5) [OF bounded_activate [OF boundedD(7) [OF t]] t])
  have "bounded_origin (close_batch cfg b flow q u)" if "bounded_origin u" for b flow q u
    using that bounded_group by (simp add: close_batch_def Let_def bounded_neutral)
  then have "bounded_origin (stage_batch cfg position e raw q ?t)" for position q
    using t1 by (simp add: stage_batch_def Let_def bounded_origin_fields(4))
  then show ?thesis
    using bounded_group [OF t1] by (simp add: register_locked_def Let_def split: option.split)
qed

section \<open>The other sections\<close>

lemma length_deque: "length (deque_append limit xs x) \<le> limit"
  by (simp add: deque_append_def Let_def)

lemma bounded_window:
  assumes t: "bounded_origin t"
  shows "bounded_origin (t\<lparr>ot_spans := AList.update flow (deque_append STREAM_SPAN_HISTORY_LIMIT xs x) (ot_spans t)\<rparr>)"
    and "bounded_origin (t\<lparr>ot_recent := AList.update flow (deque_append BACKWARD_WINDOW ys y) (ot_recent t)\<rparr>)"
proof -
  have "windows t"
    by (rule boundedD(6) [OF t])
  then have "windows (t\<lparr>ot_spans := AList.update flow (deque_append STREAM_SPAN_HISTORY_LIMIT xs x) (ot_spans t)\<rparr>)"
    and "windows (t\<lparr>ot_recent := AList.update flow (deque_append BACKWARD_WINDOW ys y) (ot_recent t)\<rparr>)"
    unfolding windows_def by (simp_all add: get_update length_deque)
  then show "bounded_origin (t\<lparr>ot_spans := AList.update flow (deque_append STREAM_SPAN_HISTORY_LIMIT xs x) (ot_spans t)\<rparr>)"
    and "bounded_origin (t\<lparr>ot_recent := AList.update flow (deque_append BACKWARD_WINDOW ys y) (ot_recent t)\<rparr>)"
    using t by (simp_all add: bounded_origin_def inside_def few_def op_keys_def histories_def chain_history_def boundary_history_def)
qed

lemma bounded_stream: "bounded_origin t \<Longrightarrow> bounded_origin (observe_stream_locked cfg data ctx t)"
proof -
  assume t: "bounded_origin t"
  have "bounded_origin (visit_pending (visit_span cfg ctx e) u)" if "bounded_origin u" for e u
    by (rule bounded_calm [OF that calm_visits(1) [OF boundedD(1) [OF that]]])
  then show ?thesis
    using t bounded_window(1) [OF t] by (simp add: observe_stream_locked_def Let_def split: option.split)
qed

lemma bounded_frame: "bounded_origin t \<Longrightarrow> bounded_origin (observe_frame_locked cfg frame t)"
proof -
  assume t: "bounded_origin t"
  let ?t = "t\<lparr>ot_manual := observe_manual_frame frame (ot_manual t)\<rparr>"
  have "bounded_origin ?t"
    by (rule bounded_origin_fields(5) [OF bounded_observe [OF boundedD(7) [OF t]] t])
  moreover have "bounded_origin (visit_pending (visit_frame cfg frame) u)" if "bounded_origin u" for u
    by (rule bounded_calm [OF that calm_visits(2) [OF boundedD(1) [OF that]]])
  ultimately show ?thesis
    using bounded_window(2) [of ?t] by (simp add: observe_frame_locked_def Let_def)
qed

lemma bounded_release: "bounded_origin t \<Longrightarrow> bounded_origin (release_staged P t)"
  unfolding release_staged_def fold_release by (simp add: bounded_origin_fields)

lemma bounded_stale: "bounded_origin t \<Longrightarrow> bounded_origin (flush_stale_origin_locked cfg now t)"
proof -
  assume t: "bounded_origin t"
  let ?t = "release_staged (\<lambda>(_, batch). stale_batch now batch) (t\<lparr>ot_manual := prune_manual_candidates now (ot_manual t)\<rparr>)"
  have "bounded_origin ?t"
    by (rule bounded_release, rule bounded_origin_fields(5) [OF bounded_prune [OF boundedD(7) [OF t]] t])
  then have "bounded_origin (visit_pending (visit_stale cfg now) ?t)"
    using bounded_calm calm_visits(4) boundedD(1) by blast
  then show ?thesis
    by (simp add: flush_stale_origin_locked_def Let_def)
qed

lemma bounded_fewer: "bounded_origin t \<Longrightarrow> set ps \<subseteq> set (ot_pending t) \<Longrightarrow> bounded_origin (t\<lparr>ot_pending := ps\<rparr>)"
proof -
  assume t: "bounded_origin t" and ps: "set ps \<subseteq> set (ot_pending t)"
  have "op_keys (t\<lparr>ot_pending := ps\<rparr>) \<subseteq> op_keys t"
    using ps by (auto simp: op_keys_def)
  then have "few (t\<lparr>ot_pending := ps\<rparr>)"
    by (rule few_subset [OF boundedD(2) [OF t]])
  moreover have "inside (t\<lparr>ot_pending := ps\<rparr>)"
    using boundedD(1) [OF t] ps by (auto simp: inside_def)
  ultimately show ?thesis
    using t by (simp add: bounded_origin_def histories_pending windows_def boundary_history_def)
qed

lemma bounded_closing:
  assumes t: "bounded_origin t" and ps: "set ps \<subseteq> {..<ot_allocated t}"
    and f: "\<And>p u. f p u = u \<or> f p u = close_pending cfg p u"
  shows "bounded_origin (fold f ps t)"
proof -
  have "kept_account t (fold f ps t)"
    by (rule accounting.fold_kept [OF kept_refl [OF boundedD(1) [OF t]]])
      (use f accounting.closed_pending ps in \<open>metis subsetD\<close>)
  then have "narrowed t (fold f ps t)"
    by (simp add: kept_account_def unmoved_narrowed)
  moreover have "historic t (fold f ps t)"
    by (rule remembering.fold_kept [OF historic_refl [OF boundedD(3,4) [OF t]]])
      (use f remembering.closed_pending in \<open>metis UNIV_I\<close>)
  ultimately show ?thesis
    using bounded_calm [OF t] by (simp add: calm_def historic_def)
qed

lemma chain_purge:
  assumes t: "chain_history t" and purged: "ot_family_chain_order t' = filter (\<lambda>(_, chain). fst chain \<noteq> flow) (ot_family_chain_order t)"
    "ot_family_chains t' = filter (\<lambda>(_, seen). seen \<noteq> {})
         (map (\<lambda>(fam, seen). (fam, Set.filter (\<lambda>chain. fst chain \<noteq> flow) seen)) (ot_family_chains t))"
  shows "chain_history t'"
proof (rule chain_historyI)
  have keys: "distinct (map fst (ot_family_chains t))" and len: "length (ot_family_chain_order t) \<le> OBSERVATION_HISTORY_LIMIT"
    using t by (simp_all add: chain_history_def)
  show "length (ot_family_chain_order t') \<le> OBSERVATION_HISTORY_LIMIT"
    using len le_trans [OF length_filter_le] unfolding purged by blast
  have "map fst (map (\<lambda>(fam, seen). (fam, Set.filter (\<lambda>chain. fst chain \<noteq> flow) seen)) (ot_family_chains t)) =
      map fst (ot_family_chains t)"
    by (simp add: case_prod_unfold)
  then show "distinct (map fst (ot_family_chains t'))"
    unfolding purged using keys by (metis distinct_map_filter)
  fix fam seen assume "map_of (ot_family_chains t') fam = Some seen"
  from map_of_SomeD [OF this] obtain old where old: "(fam, old) \<in> set (ot_family_chains t)"
      "seen = Set.filter (\<lambda>chain. fst chain \<noteq> flow) old"
    unfolding purged by force
  have "Pair fam ` old \<subseteq> set (ot_family_chain_order t)"
    using chain_seen [OF t] map_of_is_SomeI [OF keys old(1)] by blast
  then show "Pair fam ` seen \<subseteq> set (ot_family_chain_order t')"
    unfolding purged old(2) by auto
qed

lemma filter_limit: "length xs \<le> n \<Longrightarrow> length (filter P xs) \<le> n"
  by (rule le_trans [OF length_filter_le])

lemma bounded_purge_flow: "bounded_origin t \<Longrightarrow> bounded_origin (purge_flow_history flow t)"
proof -
  assume t: "bounded_origin t"
  let ?t = "purge_flow_history flow t"
  have "histories ?t"
    using boundedD(3) [OF t] unfolding histories_def by (auto simp: purge_flow_history_def filter_limit)
  moreover have "chain_history ?t"
    by (rule chain_purge [OF boundedD(4) [OF t]]) (simp_all add: purge_flow_history_def)
  moreover have "boundary_history ?t"
    using boundedD(5) [OF t] unfolding boundary_history_def by (auto simp: purge_flow_history_def filter_limit)
  moreover have "windows ?t"
    using boundedD(6) [OF t] unfolding windows_def by (simp add: purge_flow_history_def get_delete)
  moreover have "bounded_ledger (ot_manual ?t)"
    using bounded_purge [OF boundedD(7) [OF t]] by (simp add: purge_flow_history_def)
  moreover have "inside ?t" "few ?t"
    using boundedD(1,2) [OF t] by (simp_all add: inside_def few_def op_keys_def purge_flow_history_def)
  ultimately show ?thesis
    by (simp add: bounded_origin_def)
qed

lemma bounded_close: "bounded_origin t \<Longrightarrow> bounded_origin (close_origin_flow_locked cfg flow t)"
proof -
  assume t: "bounded_origin t"
  define t1 where "t1 = release_staged (\<lambda>(key, _). fst key = flow) t"
  define t2 where "t2 = fold (\<lambda>p t. if pd_flow (ot_store t p) = flow \<and> \<not> pd_finalized (ot_store t p) then close_pending cfg p t else t)
      (ot_pending t1) t1"
  have t1: "bounded_origin t1"
    unfolding t1_def using t by (rule bounded_release)
  then have "bounded_origin t2"
    unfolding t2_def using boundedD(1) [OF t1] by (intro bounded_closing [where cfg = cfg]) (auto simp: inside_def)
  then have "bounded_origin (t2\<lparr>ot_pending := filter (\<lambda>p. pd_flow (ot_store t2 p) \<noteq> flow \<and> \<not> pd_finalized (ot_store t2 p)) (ot_pending t2)\<rparr>)"
    by (rule bounded_fewer) auto
  then show ?thesis
    unfolding close_origin_flow_locked_def Let_def t1_def [symmetric] t2_def [symmetric] by (rule bounded_purge_flow)
qed

lemma bounded_finalize_all: "bounded_origin t \<Longrightarrow> bounded_origin (finalize_all_origin_locked cfg t)"
proof -
  assume t: "bounded_origin t"
  define t1 where "t1 = fold (\<lambda>(_, batch). emit_neutral_entries batch) (ot_staged t) (t\<lparr>ot_staged := []\<rparr>)"
  define t2 where "t2 = fold (close_pending cfg) (ot_pending t1) (t1\<lparr>ot_pending := []\<rparr>)"
  have t1: "bounded_origin t1"
    using t unfolding t1_def fold_emit_batches by (simp add: bounded_origin_fields)
  then have "bounded_origin (t1\<lparr>ot_pending := []\<rparr>)"
    by (rule bounded_fewer) simp
  then have t2: "bounded_origin t2"
    unfolding t2_def using boundedD(1) [OF t1] by (intro bounded_closing [where cfg = cfg]) (auto simp: inside_def)
  let ?u = "finalize_all_origin_locked cfg t"
  have u: "?u = t2\<lparr>ot_discovery := new_discovery_cache, ot_recent := [], ot_spans := [], ot_manual := clear_ledger (ot_manual t2),
            ot_family_chains := [], ot_family_chain_order := [], ot_observed := {}, ot_observed_order := [],
            ot_contested := {}, ot_contested_order := [], ot_overflow := {}, ot_boundaries := [], ot_boundary_order := []\<rparr>"
    by (simp only: finalize_all_origin_locked_def Let_def t1_def t2_def)
  have "histories ?u"
    using boundedD(3) [OF t2] unfolding histories_def u by simp
  moreover have "chain_history ?u"
    unfolding u by (rule chain_historyI) simp_all
  moreover have "boundary_history ?u" "windows ?u" "bounded_ledger (ot_manual ?u)"
    unfolding u by (simp_all add: boundary_history_def windows_def dict_get_def bounded_new)
  moreover have "inside ?u" "few ?u"
    using boundedD(1,2) [OF t2] by (simp_all add: u inside_def few_def op_keys_def)
  ultimately show ?thesis
    by (simp add: bounded_origin_def)
qed

lemma bounded_section: "bounded_origin t \<Longrightarrow> bounded_origin (origin_section cfg op t)"
  using bounded_stream bounded_frame bounded_register bounded_stale bounded_close bounded_finalize_all
    bounded_origin_fields(5) [OF Manual_Bounds.bounded_reset [OF boundedD(7)], of t]
  by (cases op) (simp_all add: reset_origin_flow_def)

lemma bounded_new_origin: "bounded_origin (new_origin_tracker specs families opcodes)"
proof -
  let ?t = "new_origin_tracker specs families opcodes"
  have "histories ?t" "boundary_history ?t" "windows ?t" "bounded_ledger (ot_manual ?t)" "inside ?t" "few ?t"
    by (simp_all add: new_origin_tracker_def Let_def histories_def boundary_history_def windows_def dict_get_def bounded_new
        inside_def few_def op_keys_def)
  moreover have "chain_history ?t"
    by (rule chain_historyI) (simp_all add: new_origin_tracker_def Let_def)
  ultimately show ?thesis
    by (simp add: bounded_origin_def)
qed

lemma run_bounded: "origin_run cfg specs families opcodes t ops out \<Longrightarrow> bounded_origin t"
proof -
  have step: "bounded_origin (fst s')" if "origin_step cfg s s'" "bounded_origin (fst s)" for s s'
    using that by (auto elim!: origin_stepE simp: bounded_section bounded_origin_fields)
  have "(origin_step cfg)\<^sup>*\<^sup>* s s' \<Longrightarrow> bounded_origin (fst s) \<Longrightarrow> bounded_origin (fst s')" for s s'
    by (induction rule: rtranclp_induct) (auto intro: step)
  from this [of "(new_origin_tracker specs families opcodes, [], [])" "(t, ops, out)"]
  show "origin_run cfg specs families opcodes t ops out \<Longrightarrow> bounded_origin t"
    by (simp add: origin_run_def bounded_new_origin)
qed

end
