(* ===== verification/Origin_Properties.thy ===== *)
theory Origin_Properties
  imports Origin_Evidence Origin_Bounds "HOL-Library.Code_Target_Nat"
begin

text \<open>
  The properties of the origin tracker, over every interleaving of its operations and deliveries
  (\<open>origin_run\<close>).
\<close>

section \<open>Runs\<close>

lemma run_sections:
  "origin_run cfg specs families opcodes (fold (origin_section cfg) ops (new_origin_tracker specs families opcodes)) ops []"
proof -
  have "(origin_step cfg)\<^sup>*\<^sup>* (t, done_ops, []) (fold (origin_section cfg) ops t, done_ops @ ops, [])" for t done_ops
  proof (induction ops arbitrary: t done_ops)
    case (Cons op ops)
    have "origin_step cfg (t, done_ops, []) (origin_section cfg op t, done_ops @ [op], [])"
      by (rule origin_section_step)
    then show ?case
      using Cons [of "origin_section cfg op t" "done_ops @ [op]"] by simp
  qed simp
  from this [of _ "[]"] show ?thesis
    by (simp add: origin_run_def)
qed

lemma drain_run:
  "ot_dispatching t \<Longrightarrow> (origin_step cfg)\<^sup>*\<^sup>* (t, ops, out) (t\<lparr>ot_outbox := []\<rparr>, ops, out @ ot_outbox t)"
proof (induction "ot_outbox t" arbitrary: t out)
  case (Cons item outbox)
  have "origin_step cfg (t, ops, out) (t\<lparr>ot_outbox := outbox\<rparr>, ops, out @ [item])"
    using Cons by (intro origin_deliver_step) auto
  moreover have "(origin_step cfg)\<^sup>*\<^sup>* (t\<lparr>ot_outbox := outbox\<rparr>, ops, out @ [item]) (t\<lparr>ot_outbox := []\<rparr>, ops, out @ ot_outbox t)"
    using Cons.hyps(1) [of "t\<lparr>ot_outbox := outbox\<rparr>" "out @ [item]"] Cons.hyps(2) [symmetric] Cons.prems by simp
  ultimately show ?case
    by simp
next
  case Nil
  have same: "t\<lparr>ot_outbox := []\<rparr> = t"
    unfolding Nil.hyps by simp
  show ?case
    unfolding same by (simp add: Nil.hyps [symmetric])
qed

text \<open>One thread that has delivered everything.\<close>

lemma run_delivered:
  defines "t \<equiv> \<lambda>cfg specs families opcodes ops. fold (origin_section cfg) ops (new_origin_tracker specs families opcodes)"
  assumes "\<not> ot_dispatching (t cfg specs families opcodes ops)"
  shows "origin_run cfg specs families opcodes ((t cfg specs families opcodes ops)\<lparr>ot_dispatching := True, ot_outbox := []\<rparr>) ops
    (ot_outbox (t cfg specs families opcodes ops))"
proof -
  let ?t = "t cfg specs families opcodes ops"
  have "(origin_step cfg)\<^sup>*\<^sup>* (new_origin_tracker specs families opcodes, [], []) (?t, ops, [])"
    using run_sections by (simp add: origin_run_def t_def)
  moreover have "origin_step cfg (?t, ops, []) (?t\<lparr>ot_dispatching := True\<rparr>, ops, [])"
    using assms(2) by (rule origin_start_step)
  moreover have "(origin_step cfg)\<^sup>*\<^sup>* (?t\<lparr>ot_dispatching := True\<rparr>, ops, [])
      (?t\<lparr>ot_dispatching := True, ot_outbox := []\<rparr>, ops, ot_outbox ?t)"
    using drain_run [of "?t\<lparr>ot_dispatching := True\<rparr>" cfg ops "[]"] by simp
  ultimately show ?thesis
    unfolding origin_run_def by (meson rtranclp.rtrancl_into_rtrancl rtranclp_trans)
qed

text \<open>A call of one thread, with callbacks that may raise, is such a run.\<close>

lemma drain_origin_run:
  "drain_origin deliver (ot_outbox t) w = (raised, outbox, w') \<Longrightarrow> ot_dispatching t \<Longrightarrow>
    \<exists>delivered. ot_outbox t = delivered @ outbox \<and> (\<not> raised \<longrightarrow> outbox = []) \<and>
      (origin_step cfg)\<^sup>*\<^sup>* (t, ops, out) (t\<lparr>ot_outbox := outbox\<rparr>, ops, out @ delivered)"
proof (induction "ot_outbox t" arbitrary: t w out)
  case Nil
  then have same: "outbox = []" "t\<lparr>ot_outbox := []\<rparr> = t"
    by (simp_all add: Nil.hyps [symmetric])
  show ?case
    unfolding same by (simp add: Nil.hyps [symmetric])
next
  case (Cons item rest)
  let ?t = "t\<lparr>ot_outbox := rest\<rparr>"
  obtain stops w1 where item: "deliver item w = (stops, w1)"
    by (meson surj_pair)
  have step: "origin_step cfg (t, ops, out) (?t, ops, out @ [item])"
    using Cons by (intro origin_deliver_step) auto
  show ?case
  proof (cases stops)
    case True
    then show ?thesis
      using Cons.prems Cons.hyps(2) [symmetric] item step by (intro exI [of _ "[item]"]) auto
  next
    case False
    then have "drain_origin deliver (ot_outbox ?t) w1 = (raised, outbox, w')" "ot_dispatching ?t"
      using Cons.prems Cons.hyps(2) [symmetric] item by simp_all
    then obtain delivered where "ot_outbox ?t = delivered @ outbox" "\<not> raised \<longrightarrow> outbox = []"
        "(origin_step cfg)\<^sup>*\<^sup>* (?t, ops, out @ [item]) (?t\<lparr>ot_outbox := outbox\<rparr>, ops, (out @ [item]) @ delivered)"
      using Cons.hyps(1) [of ?t w1 "out @ [item]"] by auto
    then show ?thesis
      using Cons.hyps(2) step by (intro exI [of _ "item # delivered"]) (auto intro: converse_rtranclp_into_rtranclp)
  qed
qed

lemma call_run:
  assumes "origin_call cfg deliver op (t, w) = (raised, t', w')"
  shows "\<exists>delivered. (origin_step cfg)\<^sup>*\<^sup>* (t, ops, out) (t', ops @ [op], out @ delivered)"
proof -
  let ?t = "origin_section cfg op t"
  have first: "origin_step cfg (t, ops, out) (?t, ops @ [op], out)"
    by (rule origin_section_step)
  show ?thesis
  proof (cases "ot_dispatching ?t \<or> \<not> drains_outbox op")
    case True
    then have "t' = ?t"
      using assms by (auto simp: origin_call_def)
    then show ?thesis
      using first by (intro exI [of _ "[]"]) auto
  next
    case False
    let ?u = "?t\<lparr>ot_dispatching := True\<rparr>"
    obtain outbox where drained: "drain_origin deliver (ot_outbox ?u) w = (raised, outbox, w')"
        and t': "t' = ?t\<lparr>ot_outbox := outbox, ot_dispatching := False\<rparr>"
      using assms False by (auto simp: origin_call_def Let_def split: prod.splits)
    obtain delivered where "(origin_step cfg)\<^sup>*\<^sup>* (?u, ops @ [op], out) (?u\<lparr>ot_outbox := outbox\<rparr>, ops @ [op], out @ delivered)"
      using drain_origin_run [OF drained, of cfg "ops @ [op]" out] by auto
    moreover have "origin_step cfg (?t, ops @ [op], out) (?u, ops @ [op], out)"
      using False by (intro origin_start_step) simp
    moreover have "origin_step cfg (?u\<lparr>ot_outbox := outbox\<rparr>, ops @ [op], out @ delivered) (t', ops @ [op], out @ delivered)"
      using origin_stop_step [of "?u\<lparr>ot_outbox := outbox\<rparr>" cfg] t' by simp
    ultimately show ?thesis
      using first by (meson converse_rtranclp_into_rtranclp rtranclp.rtrancl_into_rtrancl)
  qed
qed

section \<open>A worker delivery\<close>

definition sample_deposit :: bdo_event where
  "sample_deposit =
     \<lparr>ev_type = ''storage_record'', ev_timestamp = Finite 0, ev_flow = sample_flow, ev_item_id = 7, ev_quantity = 5,
      ev_source = None, ev_raw_context = None, ev_opcode = Some 257, ev_message_length = Some 13,
      ev_base_item_id = None, ev_enhancement_level = None, ev_enhancement = None, ev_inventory_slot = None,
      ev_item_instance = None, ev_storage_instance = None, ev_record_index = None, ev_record_count = Some 1,
      ev_record_offset = Some 13, ev_confidence = None, ev_extra = [(''stream_sequence'', JInt 100)],
      ev_storage_id = Some 3, ev_storage_name = None, ev_storage_name_confidence = None, ev_flow_generation = 1\<rparr>"

definition sample_token :: bytes where
  "sample_token = [1, 2, 3, 4, 5, 6, 7, 8]"

definition sample_companion :: "byte \<Rightarrow> bytes" where
  "sample_companion b = [13, 0, 0, b, b] @ sample_token"

definition sample_origin :: origin_config where
  "sample_origin = \<lparr>oc_digest = (\<lambda>_. ''digest''), oc_utc_text = (\<lambda>_. ''time''), oc_observer = True\<rparr>"

text \<open>A storage message at byte 100 of its stream, and behind it two messages that repeat its token.\<close>

definition sample_delivery :: "origin_op list" where
  "sample_delivery =
     [Origin_Stream (sample_companion 2 @ sample_companion 3)
        \<lparr>ctx_timestamp = Finite 0, ctx_flow = sample_flow, ctx_stream_start = Some 113, ctx_flow_generation = 1\<rparr>,
      Origin_Register sample_deposit (Some (sample_companion 1))]"

definition sample_tracker :: origin_tracker where
  "sample_tracker = fold (origin_section sample_origin) sample_delivery (new_origin_tracker [] [] [257])"

lemma sample_delivered:
  "(ot_dispatching sample_tracker, map ev_source (emitted (ot_outbox sample_tracker))) = (False, [Some ''Worker Production''])"
  by code_simp

lemma sample_run:
  "origin_run sample_origin [] [] [257] (sample_tracker\<lparr>ot_dispatching := True, ot_outbox := []\<rparr>) sample_delivery
    (ot_outbox sample_tracker)"
  unfolding sample_tracker_def
  by (rule run_delivered) (use sample_delivered in \<open>simp add: sample_tracker_def\<close>)

section \<open>Nothing is lost\<close>



text \<open>C36. The end of the capture releases everything: it leaves no pending operation, no batch and
  no history, and then every registered event has been emitted once or waits in the outbox, but
  for repeated records of one storage message.\<close>

theorem origin_finalizes:
  assumes "origin_run cfg specs families opcodes t ops out"
  shows "let u = origin_section cfg Origin_Finalize t in
    ot_pending u = [] \<and> ot_staged u = [] \<and> ot_spans u = [] \<and> ot_recent u = [] \<and> ml_candidates (ot_manual u) = [] \<and>
    (\<exists>dropped. cores (emitted (out @ ot_outbox u)) + dropped = cores (received_events ops) \<and>
      (\<forall>d \<in># dropped. staged_index d \<noteq> None \<and> (\<exists>c \<in># cores (emitted (out @ ot_outbox u)). record_slot c = record_slot d)))"
proof -
  let ?u = "origin_section cfg Origin_Finalize t"
  have t: "ledgered t"
    using run_accounted [OF assms] by (simp add: run_account_def)
  note finalized = finalize_all_ledgered [OF t, of cfg]
  have "account ?u = account t" "account ?u = cores (emitted (ot_outbox ?u))"
    using finalized by simp_all
  then have "cores (emitted out) + account t = cores (emitted (out @ ot_outbox ?u))"
    by simp
  moreover have "ot_pending ?u = []" "ot_staged ?u = []" "ot_spans ?u = []" "ot_recent ?u = []" "ml_candidates (ot_manual ?u) = []"
    using finalized by simp_all (simp_all add: finalize_all_origin_locked_def Let_def clear_ledger_def new_manual_ledger_def)
  ultimately show ?thesis
    using run_accounted [OF assms] unfolding run_account_def Let_def by simp
qed

theorem origin_finalizes_witness:
  "let u = origin_section sample_origin Origin_Finalize (sample_tracker\<lparr>ot_dispatching := True, ot_outbox := []\<rparr>) in
    ot_pending u = [] \<and> ot_staged u = [] \<and> ot_spans u = [] \<and> ot_recent u = [] \<and> ml_candidates (ot_manual u) = [] \<and>
    (\<exists>dropped. cores (emitted (ot_outbox sample_tracker @ ot_outbox u)) + dropped = cores (received_events sample_delivery) \<and>
      (\<forall>d \<in># dropped. staged_index d \<noteq> None \<and>
        (\<exists>c \<in># cores (emitted (ot_outbox sample_tracker @ ot_outbox u)). record_slot c = record_slot d)))"
  by (rule origin_finalizes [OF sample_run])

section \<open>Limits\<close>

lemma limited_set: "A \<subseteq> set xs \<Longrightarrow> length xs \<le> n \<Longrightarrow> card A \<le> n"
  by (meson List.finite_set card_length card_mono le_trans)

text \<open>C40. The tracker is bounded, in every run: it holds at most 64 undecided operations of a flow and
  4096 in all, 64 pieces and 16 messages of the stream of a flow, and at most 4096 observations,
  contested pairs, record boundaries, and families confirmed beyond those of the profile.\<close>

theorem origin_is_bounded:
  assumes "origin_run cfg specs families opcodes t ops out"
  shows "length (operation_keys t) \<le> 4096 \<and> length (flow_operation_keys flow t) \<le> 64 \<and>
    length (dict_get (ot_spans t) flow []) \<le> 64 \<and> length (dict_get (ot_recent t) flow []) \<le> 16 \<and>
    card (ot_observed t) \<le> 4096 \<and> card (ot_contested t) \<le> 4096 \<and> card (fst ` set (ot_boundaries t)) \<le> 4096 \<and>
    card (ot_confirmed t - ot_known t) \<le> 4096"
proof -
  have t: "bounded_origin t"
    using assms by (rule run_bounded)
  have observed: "card (ot_observed t) \<le> 4096" and contested: "card (ot_contested t) \<le> 4096"
    and confirmed: "card (ot_confirmed t - ot_known t) \<le> 4096"
    using boundedD(3) [OF t]
    by (auto simp: histories_def history_limits intro: limited_set [of _ "ot_observed_order t"]
        limited_set [of _ "ot_contested_order t"] limited_set [of _ "ot_runtime_order t"])
  have boundaries: "card (fst ` set (ot_boundaries t)) \<le> 4096"
    using boundedD(5) [OF t] by (auto simp: boundary_history_def history_limits intro: limited_set [of _ "ot_boundary_order t"])
  have "length (operation_keys t) \<le> 4096" "length (flow_operation_keys flow t) \<le> 64"
    using boundedD(2) [OF t] unfolding operation_keys_card few_def MAX_PENDING_OPERATIONS_TOTAL_def MAX_PENDING_OPERATIONS_PER_FLOW_def
    by blast+
  moreover have "length (dict_get (ot_spans t) flow []) \<le> 64" "length (dict_get (ot_recent t) flow []) \<le> 16"
    using boundedD(6) [OF t] unfolding windows_def STREAM_SPAN_HISTORY_LIMIT_def BACKWARD_WINDOW_def by blast+
  ultimately show ?thesis
    using observed contested boundaries confirmed by blast
qed

theorem origin_is_bounded_witness:
  "length (operation_keys (sample_tracker\<lparr>ot_dispatching := True, ot_outbox := []\<rparr>)) \<le> 4096"
  using origin_is_bounded [OF sample_run, of sample_flow] by (rule conjunct1)

section \<open>Origins are proven\<close>

text \<open>
  Behind the storage message of the event, the stream of its flow held two messages, one after the
  other, and both repeat a token of the storage message: eight bytes of which six are different.
\<close>

definition worker_chain :: "origin_op list \<Rightarrow> bdo_event \<Rightarrow> bool" where
  "worker_chain ops e \<longleftrightarrow>
     (\<exists>m f s i j q n prefix_end token_offset.
        storage_message ops e m \<and> event_sequence e = Some q \<and> ev_message_length e = Some n \<and>
        q + n \<le> i \<and> i + int (length f) \<le> j \<and> seen ops (ev_flow e) i f \<and> seen ops (ev_flow e) j s \<and>
        framed_message m \<and> framed_message f \<and> framed_message s \<and> distinct (map message_opcode [m, f, s]) \<and>
        shares_token m prefix_end f s token_offset)"

lemma chain_worker: "chain_proof cfg ops e o' \<Longrightarrow> worker_chain ops e"
proof -
  assume "chain_proof cfg ops e o'"
  then obtain m f s i j q n prefix_end where chain: "storage_message ops e m" "event_sequence e = Some q" "ev_message_length e = Some n"
        "q + n \<le> i" "i + int (length f) \<le> j" "seen ops (ev_flow e) i f" "seen ops (ev_flow e) j s"
      and found: "discover_companion_observation (oc_digest cfg) m f s (ev_timestamp e) (ev_flow e) (event_sequence e) prefix_end = Some o'"
    unfolding chain_proof_def by blast
  obtain token offset k l where shared: "shared_token m f s prefix_end = Some (token, (offset, k, l))"
      and framed: "framed_message m" "framed_message f" "framed_message s" "distinct (map message_opcode [m, f, s])"
      and inside: "prefix_end \<le> int (length m)"
    using found by (auto simp: discover_companion_observation_def Let_def split: if_splits prod.splits)
  have "shares_token m prefix_end f s offset"
    using shared_token_Some(1) [OF inside shared] by (simp add: strongest_token_def)
  then show ?thesis
    using chain framed unfolding worker_chain_def by blast
qed

text \<open>C3. No origin is made up: an event that leaves the tracker is one that was registered,
  unchanged, or carries the label of a live deposit, and then it is called Worker Production only
  when the bytes observed behind its storage message prove a worker's chain and the family of the
  chain was confirmed, Player Inventory only when a calibrated decrement frame of its connection,
  observed before the message and within two seconds, holds the quantity of a record of that
  message, and has no source otherwise.\<close>

theorem origins_are_proven:
  assumes "origin_run cfg specs families opcodes t ops out" and "r \<in> set (emitted out)"
  shows "\<exists>e \<in> set (received_events ops). r = e \<or>
    core r = core e \<and> ev_type r = (if ev_type e = ''storage_record'' then ''storage_delta'' else ev_type e) \<and>
    (ev_source r = None \<and> ev_type e \<noteq> ''storage_record'' \<or>
     ev_source r = Some ''Worker Production'' \<and> worker_chain ops e \<and> confirmed_evidence r \<or>
     ev_source r = Some ''Player Inventory'' \<and> manual_proof specs ops e)"
proof -
  have "explained cfg specs ops r"
    using run_proven [OF assms(1)] assms(2) unfolding run_founded_def by blast
  moreover have "worker_proof cfg ops e \<Longrightarrow> worker_chain ops e" for e
    unfolding worker_proof_def using chain_worker by blast
  ultimately show ?thesis
    unfolding explained_def by blast
qed

theorem origins_are_proven_witness:
  "\<exists>r. ev_source r = Some ''Worker Production'' \<and> (\<exists>e \<in> set (received_events sample_delivery). r = e \<or>
    core r = core e \<and> ev_type r = (if ev_type e = ''storage_record'' then ''storage_delta'' else ev_type e) \<and>
    (ev_source r = None \<and> ev_type e \<noteq> ''storage_record'' \<or>
     ev_source r = Some ''Worker Production'' \<and> worker_chain sample_delivery e \<and> confirmed_evidence r \<or>
     ev_source r = Some ''Player Inventory'' \<and> manual_proof [] sample_delivery e))"
proof -
  obtain r where r: "emitted (ot_outbox sample_tracker) = [r]" "ev_source r = Some ''Worker Production''"
    using sample_delivered by auto
  then have "r \<in> set (emitted (ot_outbox sample_tracker))"
    by simp
  from origins_are_proven [OF sample_run this] r(2) show ?thesis
    by blast
qed

end
