(* ===== verification/Spec2Isabelle.thy ===== *)
theory Spec2Isabelle
  imports Reassembly_Properties Manager_Properties Frame_Properties Record_Properties
    Target_Properties Solare_Delivery Profile_Properties Hydration_Properties
    Engine_Properties Destination_Properties Xp_Properties Agris_Properties
    Companion_Properties Manual_Properties Origin_Properties
begin

text \<open>
  A verification development for \<^verbatim>\<open>bdo-toolkit\<close>, a passive decoder of the packets
  an online game's servers send. Segments of TCP connections are reassembled, messages are
  framed in the byte streams, records are decoded by layouts that a profile document declares,
  and the decoded records are classified and delivered to an application. File and function
  names below are relative to \<^verbatim>\<open>src/bdo_toolkit/\<close>.

  Parts, from the wire to the application.

  \<^item> \<open>Prelude\<close>, \<open>Control_Loops\<close>: the Python values the models compute with (bytes,
    slices, dictionaries as association lists in insertion order, timestamps) and the interface
    of the scanning loops, a locale each scanner interprets.
  \<^item> \<open>Protocol\<close> (\<^verbatim>\<open>_protocol.py\<close>): event specs with the checks of their
    constructor, contexts, decoded events, frames, item ids and labels.
  \<^item> \<open>Reassembly\<close> (\<^verbatim>\<open>_reassembly.py\<close>, \<^verbatim>\<open>TCPFlowState\<close>): one record per
    state object, one definition per method, the scanner a record of functions.
    \<open>Flow_Invariant\<close>, \<open>Flow_Config\<close>, \<open>Flow_Bounds\<close> hold the invariant of the fields and
    the limits of the buffers. \<open>Flow_Contract\<close> is the contract of a scanner behind the
    reassembly, a locale: what a scanner may rely on when it is fed, and what every flow
    operation then keeps. \<open>Stream_Delivery\<close> proves delivery against a sender's stream.
  \<^item> \<open>Flow_Manager\<close> (\<^verbatim>\<open>FlowManager\<close>): the table of flows. \<open>Flow_Table\<close>,
    \<open>Manager_Contract\<close>, \<open>Manager_Trace\<close> lift the contract of one flow to the table.
  \<^item> \<open>Frame_Collector\<close>, \<open>Record_Decode\<close>, \<open>Target_Scanner\<close> (\<^verbatim>\<open>_framing.py\<close>,
    \<^verbatim>\<open>_record_geometry.py\<close>): generic frames, record geometry and decoding, and the
    scanner for configured messages; \<open>Frame_Delivery\<close> and \<open>Target_Delivery\<close> interpret the
    contract for both, so that what they emit is proved cut from the stream.
  \<^item> \<open>Solare_Scanner\<close>, \<open>Solare_Delivery\<close> (\<^verbatim>\<open>solare/_scanner.py\<close>): the scanner that
    discovers match messages, with the same contract.
  \<^item> \<open>Json_Values\<close>, \<open>Opcode_Profile\<close> (\<^verbatim>\<open>profiles.py\<close>), \<open>Character_Profile\<close>
    (\<^verbatim>\<open>_item_state/character_profile.py\<close>), \<open>Event_Specs\<close> (\<^verbatim>\<open>_specs.py\<close>,
    \<^verbatim>\<open>_profile_runtime.py\<close>): loading, validating and writing profile documents, and
    the specs they denote; \<open>Profile_Facts\<close> holds the lemmas.
  \<^item> \<open>Packet_Engine\<close> (\<^verbatim>\<open>_engine.py\<close>): the engine that composes the flow
    manager, the target scanner with its observing taps, and the suppression of repeated
    records; \<open>Manager_World\<close> and \<open>Engine_Delivery\<close> carry what every scanner keeps of the
    application's state through all operations of the table.
  \<^item> \<open>Bdo_Event\<close> (\<^verbatim>\<open>events.py\<close>, \<^verbatim>\<open>filters.py\<close>, the
    normalization of \<^verbatim>\<open>_engine.py\<close>): the events the application sees.
  \<^item> \<open>Storage_Hydration\<close> (\<^verbatim>\<open>_storage_hydration.py\<close>): the tracker that holds back
    neutral storage records until a character load is proven, with all interleavings of its
    operations and deliveries; \<open>Hydration_Facts\<close> holds its invariant.
  \<^item> \<open>Destination_Validation\<close> (\<^verbatim>\<open>_storage_destination_validation.py\<close>): the
    evidence that the destination column of a profile has gone stale.
  \<^item> \<open>Raised_Errors\<close>, \<open>Stream_World\<close>, \<open>Framed_World\<close>: callbacks that raise, and the
    interface of a consumer of generic frames behind the flow manager, a locale.
    \<open>Xp_Tracker\<close> (\<^verbatim>\<open>xp/_tracker.py\<close>, \<^verbatim>\<open>xp/replay.py\<close>) and
    \<open>Agris_Tracker\<close> (\<^verbatim>\<open>agris/_discovery.py\<close>, \<^verbatim>\<open>agris/_capture.py\<close>) are its
    clients: the experience tracker with the iteration of a replay, and the discovery of a
    decreasing balance against an abstract set of hypotheses.
  \<^item> \<open>Companion_Discovery\<close> (\<^verbatim>\<open>_origin/discovery.py\<close>, \<^verbatim>\<open>origin_learning.py\<close>),
    \<open>Manual_Ledger\<close> (\<^verbatim>\<open>_origin/manual.py\<close>), \<open>Origin_Tracker\<close> and \<open>Origin_Operations\<close>
    (\<^verbatim>\<open>_origin/tracker.py\<close>): where a deposit came from. The companion pairs that
    repeat a token of a storage message, with their cache; the calibrated decrement frames; the
    decisions on a pending deposit; the operations with all interleavings. \<open>Companion_Facts\<close>,
    \<open>Manual_Facts\<close>, \<open>Manual_Bounds\<close> and \<open>Manual_Credit\<close> hold what the
    first two guarantee.
    \<open>Origin_Decisions\<close> is the locale of what every decision keeps, which \<open>Origin_Facts\<close>,
    \<open>Origin_Account\<close> and \<open>Origin_Provenance\<close> interpret: what stays unmoved, that no
    event is lost (\<open>Origin_Conservation\<close>), that everything held is bounded
    (\<open>Origin_Bounds\<close>), and that every origin has its proof in what was
    observed (\<open>Origin_Evidence\<close>).


  What the lemmas show. The reassembly delivers exactly the bytes of the stream, in order and
  once, or says where it skipped; everything a scanner emits is cut from the stream at the
  position it is labelled with, for every order of segments, gaps and timers; decoding reads
  only bytes of the message and is all or nothing; buffers are bounded; documents that load
  satisfy what the decoder relies on and read back as written; events are delivered once,
  and relabelled only on the evidence the code names.

  Conventions. A raise is \<open>Inl\<close> or an error value, a missing value \<open>None\<close>. Loops
  are structural recursion or \<open>function\<close>s with a measure; the scanning loop of the target
  scanner and the loops of the other scanners are partial functions or functions whose
  termination is proved for every configuration that can exist, so no fuel is used.
  Sequence numbers are integers taken modulo 2 to the 32nd where the code does so. Opcode
  text is limited to the 4300 digits Python accepts. Characters are code points below 256.

  Not modelled. Timestamps are exact rationals with the special values of a float: the rounding
  of a subtraction is not modelled. Locks are not modelled where every entry point holds one
  lock throughout; it is one atomic step. Where the code releases a lock in between, the
  interleavings are modelled (\<open>Storage_Hydration\<close>). Capture drivers, threads, asyncio
  sessions, the command line, files and the network are input and output around these parts.
  Cryptographic digests are parameters. Interactive calibration, and the heuristics that learn
  match layouts, rank candidates by floating-point scores and are left out.
\<close>

end
